(* ===== verification/Lim_Prelude.thy ===== *)
theory Lim_Prelude
  imports Main "HOL-Library.Sublist" "HOL-Library.Word"
begin

section \<open>Prelude: the C++ strings, numbers and exceptions the components share\<close>

text \<open>
  The sources work on \<open>std::string\<close> by index. A string is a HOL \<^typ>\<open>string\<close> (a list of 8-bit
  characters), a \<open>size_t\<close> position a \<^typ>\<open>nat\<close>, \<open>string::npos\<close> the value \<^const>\<open>None\<close>. This
  theory models the members the sources call (\<open>find\<close>, \<open>rfind\<close>, \<open>substr\<close>, \<open>insert\<close>, \<open>replace\<close>,
  \<open>find_first_not_of\<close>, \<open>getline\<close>, \<open>to_string\<close>, \<open>strtol\<close>, \<open>stoi\<close>, \<open>stoull\<close>) and proves the laws of
  searching that every parser below uses. An exception is a value of \<open>cpp_exn\<close> on the left of a sum.
\<close>

named_theorems str_simps \<open>rewriting of the string operations\<close>
named_theorems res_iff \<open>inversion of results that are sums\<close>

subsection \<open>Exceptions\<close>

datatype cpp_exn = Invalid_Argument | Out_Of_Range

type_synonym 'a res = "cpp_exn + 'a"

definition res_bind :: "'e + 'a \<Rightarrow> ('a \<Rightarrow> 'e + 'b) \<Rightarrow> 'e + 'b" where
  "res_bind m f = (case m of Inl e \<Rightarrow> Inl e | Inr x \<Rightarrow> f x)"

lemma res_bind_simps [simp]:
  "res_bind (Inl e) f = Inl e"
  "res_bind (Inr x) f = f x"
  by (simp_all add: res_bind_def)

lemma res_bind_Inr_iff [res_iff]: "res_bind m f = Inr y \<longleftrightarrow> (\<exists>x. m = Inr x \<and> f x = Inr y)"
  by (cases m) simp_all

lemma res_bind_Inl_iff [res_iff]:
  "res_bind m f = Inl e \<longleftrightarrow> m = Inl e \<or> (\<exists>x. m = Inr x \<and> f x = Inl e)"
  by (cases m) simp_all

subsection \<open>Characters\<close>

abbreviation ch_nl :: char where "ch_nl \<equiv> CHR 0x0A"
abbreviation ch_cr :: char where "ch_cr \<equiv> CHR 0x0D"
abbreviation ch_tab :: char where "ch_tab \<equiv> CHR 0x09"
abbreviation ch_dquote :: char where "ch_dquote \<equiv> CHR 0x22"
abbreviation ch_squote :: char where "ch_squote \<equiv> CHR 0x27"
abbreviation ch_bslash :: char where "ch_bslash \<equiv> CHR 0x5C"

text \<open>The set \<open>" \t\r\n"\<close> of the trimming calls, and \<open>isspace\<close> in the C locale.\<close>

definition ws_chars :: string where
  "ws_chars = [CHR 0x20, ch_tab, ch_cr, ch_nl]"

definition is_space :: "char \<Rightarrow> bool" where
  "is_space c \<longleftrightarrow> c \<in> {CHR 0x20, CHR 0x09, CHR 0x0A, CHR 0x0B, CHR 0x0C, CHR 0x0D}"

subsection \<open>Searching\<close>

fun first_at :: "'a list \<Rightarrow> 'a list \<Rightarrow> nat option" where
  "first_at pat [] = (if pat = [] then Some 0 else None)"
| "first_at pat (x # xs) =
     (if prefix pat (x # xs) then Some 0 else map_option Suc (first_at pat xs))"

fun last_at :: "'a list \<Rightarrow> 'a list \<Rightarrow> nat option" where
  "last_at pat [] = (if pat = [] then Some 0 else None)"
| "last_at pat (x # xs) =
     (case last_at pat xs of Some i \<Rightarrow> Some (Suc i)
      | None \<Rightarrow> if prefix pat (x # xs) then Some 0 else None)"

text \<open>\<open>s.find(pat, pos)\<close> and \<open>s.rfind(pat)\<close>.\<close>

definition str_find :: "'a list \<Rightarrow> 'a list \<Rightarrow> nat \<Rightarrow> nat option" where
  "str_find s pat pos =
     (if pos \<le> length s then map_option ((+) pos) (first_at pat (drop pos s)) else None)"

definition str_rfind :: "'a list \<Rightarrow> 'a list \<Rightarrow> nat option" where
  "str_rfind s pat = last_at pat s"

lemma first_at_Some_iff:
  "first_at pat s = Some i \<longleftrightarrow>
     i \<le> length s \<and> prefix pat (drop i s) \<and> (\<forall>j<i. \<not> prefix pat (drop j s))"
proof (induction s arbitrary: i)
  case Nil
  then show ?case by auto
next
  case (Cons x xs)
  show ?case
  proof (cases "prefix pat (x # xs)")
    case True
    then show ?thesis by (auto intro: gr0I)
  next
    case False
    show ?thesis
    proof (cases i)
      case 0
      with False show ?thesis by auto
    next
      case (Suc k)
      have "(\<forall>j<Suc k. \<not> prefix pat (drop j (x # xs))) \<longleftrightarrow> (\<forall>j<k. \<not> prefix pat (drop j xs))"
        using False by (auto simp: less_Suc_eq_0_disj)
      with False Suc Cons.IH [of k] show ?thesis by auto
    qed
  qed
qed

lemma all_le_Suc: "(\<forall>i\<le>Suc n. P i) \<longleftrightarrow> P 0 \<and> (\<forall>i\<le>n. P (Suc i))"
  using All_less_Suc2 [of "Suc n" P] by (simp add: less_Suc_eq_le)

lemma first_at_None_iff: "first_at pat s = None \<longleftrightarrow> (\<forall>i\<le>length s. \<not> prefix pat (drop i s))"
  by (induction s) (auto simp: all_le_Suc simp del: prefix_Cons)

lemma first_at_None_sublist: "first_at pat s = None \<longleftrightarrow> \<not> sublist pat s"
proof -
  have "sublist pat s \<longleftrightarrow> (\<exists>i\<le>length s. prefix pat (drop i s))"
  proof
    assume "sublist pat s"
    then obtain ps ss where "s = ps @ pat @ ss" by (auto simp: sublist_def)
    then show "\<exists>i\<le>length s. prefix pat (drop i s)"
      by (intro exI [of _ "length ps"]) auto
  next
    assume "\<exists>i\<le>length s. prefix pat (drop i s)"
    then obtain i where "prefix pat (drop i s)" by blast
    then have "sublist pat (drop i s)" by (rule prefix_imp_sublist)
    then show "sublist pat s"
      using sublist_drop sublist_order.order_trans by blast
  qed
  then show ?thesis by (auto simp: first_at_None_iff)
qed

lemma str_find_Some_iff:
  "str_find s pat pos = Some i \<longleftrightarrow>
     pos \<le> i \<and> i \<le> length s \<and> prefix pat (drop i s) \<and>
     (\<forall>j. pos \<le> j \<and> j < i \<longrightarrow> \<not> prefix pat (drop j s))"
proof (cases "pos \<le> length s")
  case True
  have "str_find s pat pos = Some i \<longleftrightarrow> (\<exists>k. i = pos + k \<and> first_at pat (drop pos s) = Some k)"
    using True by (auto simp: str_find_def)
  also have "\<dots> \<longleftrightarrow> pos \<le> i \<and> i \<le> length s \<and> prefix pat (drop i s) \<and>
     (\<forall>j. pos \<le> j \<and> j < i \<longrightarrow> \<not> prefix pat (drop j s))" (is "?L \<longleftrightarrow> ?R")
  proof
    assume ?L
    then obtain k where k: "i = pos + k" "first_at pat (drop pos s) = Some k" by blast
    then have f: "k \<le> length s - pos" "prefix pat (drop (k + pos) s)"
      "\<forall>j<k. \<not> prefix pat (drop (j + pos) s)"
      by (auto simp: first_at_Some_iff)
    have "\<not> prefix pat (drop j s)" if "pos \<le> j" "j < i" for j
      using f(3) that k(1) by (metis le_add_diff_inverse2 less_diff_conv2 add.commute)
    with f(1,2) k(1) True show ?R by (auto simp: add.commute)
  next
    assume R: ?R
    then have "first_at pat (drop pos s) = Some (i - pos)"
      using True by (auto simp: first_at_Some_iff)
    with R show ?L by (intro exI [of _ "i - pos"]) auto
  qed
  finally show ?thesis .
qed (auto simp: str_find_def)

lemma str_find_None_iff:
  "str_find s pat pos = None \<longleftrightarrow> (\<forall>i. pos \<le> i \<and> i \<le> length s \<longrightarrow> \<not> prefix pat (drop i s))"
proof
  assume "str_find s pat pos = None"
  then show "\<forall>i. pos \<le> i \<and> i \<le> length s \<longrightarrow> \<not> prefix pat (drop i s)"
    by (auto simp: str_find_def first_at_None_iff split: if_splits)
      (metis Nat.add_diff_assoc add_diff_cancel_left' diff_le_mono drop_drop le_add_diff_inverse2)
next
  assume "\<forall>i. pos \<le> i \<and> i \<le> length s \<longrightarrow> \<not> prefix pat (drop i s)"
  then show "str_find s pat pos = None"
    by (metis not_None_eq str_find_Some_iff)
qed

lemma str_find_bounds:
  assumes "str_find s pat pos = Some i"
  shows "pos \<le> i" and "i + length pat \<le> length s"
proof -
  from assms have "prefix pat (drop i s)" "i \<le> length s" "pos \<le> i"
    by (auto simp: str_find_Some_iff)
  then show "pos \<le> i" and "i + length pat \<le> length s"
    using prefix_length_le [of pat "drop i s"] by auto
qed

lemma str_find_boundsD:
  "str_find s pat pos = Some i \<Longrightarrow> pos \<le> i \<and> i + length pat \<le> length s"
  using str_find_bounds [of s pat pos i] by blast

lemma str_find_occurs:
  assumes "str_find s pat pos = Some i"
  shows "s = take i s @ pat @ drop (i + length pat) s"
proof -
  from assms have "prefix pat (drop i s)" by (simp add: str_find_Some_iff)
  then obtain r where r: "drop i s = pat @ r" by (auto simp: prefix_def)
  then have "drop (i + length pat) s = r"
    by (metis add.commute append_eq_conv_conj drop_drop)
  with r show ?thesis by (metis append_take_drop_id)
qed

text \<open>
  A pattern whose first character does not come again in it cannot overlap itself: a search over
  text that is free of the pattern stops exactly where the pattern is appended.
\<close>

lemma prefix_drop_straddle:
  assumes pat: "pat \<noteq> []" "hd pat \<notin> set (tl pat)"
    and pre: "prefix pat (drop j (u @ hd pat # v))" and j: "j < length u"
  shows "prefix pat (drop j u)"
proof -
  from pre j have p: "prefix pat (drop j u @ hd pat # v)" by simp
  show ?thesis
  proof (cases "length pat \<le> length (drop j u)")
    case True
    with p show ?thesis
      by (metis append_eq_append_conv_if prefixI prefix_length_prefix prefix_order.order_refl)
  next
    case False
    let ?k = "length (drop j u)"
    from p obtain r where r: "drop j u @ hd pat # v = pat @ r" by (auto simp: prefix_def)
    have k: "0 < ?k" "?k < length pat" using j False by auto
    have "pat ! ?k = (pat @ r) ! ?k" using k by (simp add: nth_append)
    also have "\<dots> = (drop j u @ hd pat # v) ! ?k" by (simp only: r)
    also have "\<dots> = hd pat" using pat by (simp add: nth_append hd_conv_nth)
    finally have "hd pat = tl pat ! (?k - 1)" using k by (cases pat) (auto simp: nth_Cons')
    moreover have "?k - 1 < length (tl pat)" using k by simp
    ultimately have "hd pat \<in> set (tl pat)" by (metis nth_mem)
    with pat show ?thesis by simp
  qed
qed

lemma first_at_append:
  assumes "pat \<noteq> []" "hd pat \<notin> set (tl pat)" "first_at pat u = None"
  shows "first_at pat (u @ pat @ v) = Some (length u)"
proof -
  have "\<not> prefix pat (drop j (u @ pat @ v))" if "j < length u" for j
  proof
    assume "prefix pat (drop j (u @ pat @ v))"
    moreover have "pat @ v = hd pat # tl pat @ v" using assms(1) by simp
    ultimately have "prefix pat (drop j (u @ hd pat # tl pat @ v))" by metis
    then have "prefix pat (drop j u)"
      using assms(1,2) that by (intro prefix_drop_straddle [of pat j u "tl pat @ v"]) simp_all
    with assms(3) that show False by (simp add: first_at_None_iff)
  qed
  then show ?thesis by (simp add: first_at_Some_iff)
qed

lemma first_at_app_None:
  assumes "pat \<noteq> []" "hd pat \<notin> set (tl pat)"
    and "first_at pat a = None" "first_at pat (hd pat # b) = None"
  shows "first_at pat (a @ hd pat # b) = None"
proof -
  have "\<not> prefix pat (drop j (a @ hd pat # b))" if "j \<le> length (a @ hd pat # b)" for j
  proof (cases "j < length a")
    case True
    with assms prefix_drop_straddle [OF assms(1,2), of j a b] show ?thesis
      by (auto simp: first_at_None_iff)
  next
    case False
    then have "drop j (a @ hd pat # b) = drop (j - length a) (hd pat # b)" by simp
    moreover have "j - length a \<le> length (hd pat # b)" using that by simp
    ultimately show ?thesis using assms(4) by (metis first_at_None_iff)
  qed
  then show ?thesis by (simp add: first_at_None_iff)
qed

lemma first_at_skip:
  "pat \<noteq> [] \<Longrightarrow> hd pat \<notin> set a \<Longrightarrow> first_at pat (a @ b) = map_option ((+) (length a)) (first_at pat b)"
proof (induction a)
  case (Cons x a)
  then have "\<not> prefix pat (x # a @ b)" by (cases pat) auto
  with Cons show ?case by (simp add: option.map_comp comp_def)
qed (cases "first_at pat b"; simp)

lemma str_find_append:
  assumes "pat \<noteq> []" "hd pat \<notin> set (tl pat)" "first_at pat u = None"
  shows "str_find (s @ u @ pat @ v) pat (length s) = Some (length s + length u)"
  using first_at_append [OF assms] by (simp add: str_find_def)

lemma first_at_single: "c \<notin> set u \<Longrightarrow> first_at [c] (u @ c # v) = Some (length u)"
  by (induction u) (auto simp: prefix_Cons)

lemma first_at_single_None [simp]: "first_at [c] u = None \<longleftrightarrow> c \<notin> set u"
  by (induction u) (auto simp: prefix_Cons)

lemma str_find_0: "str_find s pat 0 = first_at pat s"
  by (cases "first_at pat s") (simp_all add: str_find_def)

lemma str_find_single:
  assumes "str_find s [c] start = Some pos"
  obtains u xs where "s = take start s @ u @ c # xs" "drop start s = u @ c # xs" "c \<notin> set u"
    "pos = start + length u" "start \<le> length s"
proof -
  from assms obtain k where k: "first_at [c] (drop start s) = Some k" "pos = start + k"
      "start \<le> length s"
    by (auto simp: str_find_def split: if_splits)
  then have occ: "drop start s = take k (drop start s) @ c # drop (Suc k) (drop start s)"
    using str_find_occurs [of "drop start s" "[c]" 0 k] by (simp add: str_find_0)
  have "c \<notin> set (take k (drop start s))"
  proof
    assume "c \<in> set (take k (drop start s))"
    then obtain j where j: "j < k" "j < length (drop start s)" "drop start s ! j = c"
      by (metis in_set_conv_nth length_take min_less_iff_conj nth_take)
    then have "prefix [c] (drop j (drop start s))"
      by (metis Cons_nth_drop_Suc Cons_prefix_Cons Nil_prefix)
    with j(1) k(1) show False by (simp add: first_at_Some_iff)
  qed
  moreover have "k \<le> length (drop start s)" using k(1) by (simp add: first_at_Some_iff)
  ultimately show thesis
    using that [of "take k (drop start s)" "drop (Suc k) (drop start s)"] occ k
      append_take_drop_id [of start s] by simp
qed

lemma str_find_single_None:
  "str_find s [c] start = None \<longleftrightarrow> c \<notin> set (drop start s)"
  by (auto simp: str_find_def)

subsection \<open>Substrings, insertion, trimming\<close>

text \<open>
  \<open>s.substr(pos, len)\<close>; a call with \<open>pos > s.size()\<close> throws, and no call of the sources has one
  (every position comes from a search of the same string). \<open>usub\<close> is subtraction on \<open>size_t\<close>, which
  wraps.
\<close>

definition substr :: "'a list \<Rightarrow> nat \<Rightarrow> nat \<Rightarrow> 'a list" where
  "substr s pos len = take len (drop pos s)"

definition usub :: "nat \<Rightarrow> nat \<Rightarrow> nat" where
  "usub a b = (if b \<le> a then a - b else 2 ^ 64 + a - b)"

definition str_insert :: "'a list \<Rightarrow> nat \<Rightarrow> 'a list \<Rightarrow> 'a list" where
  "str_insert s pos t = take pos s @ t @ drop pos s"

definition str_replace :: "'a list \<Rightarrow> nat \<Rightarrow> nat \<Rightarrow> 'a list \<Rightarrow> 'a list" where
  "str_replace s pos len t = take pos s @ t @ drop (pos + len) s"

text \<open>\<open>s.erase(pos, len)\<close> and \<open>s.erase(pos)\<close>.\<close>

definition str_erase :: "'a list \<Rightarrow> nat \<Rightarrow> nat \<Rightarrow> 'a list" where
  "str_erase s pos len = take pos s @ drop (pos + len) s"

definition first_not_of :: "'a list \<Rightarrow> 'a list \<Rightarrow> nat option" where
  "first_not_of s cs =
     (let k = length (takeWhile (\<lambda>c. c \<in> set cs) s) in if k < length s then Some k else None)"

definition last_not_of :: "'a list \<Rightarrow> 'a list \<Rightarrow> nat option" where
  "last_not_of s cs =
     (let k = length (takeWhile (\<lambda>c. c \<in> set cs) (rev s))
      in if k < length s then Some (length s - 1 - k) else None)"

definition starts_with :: "'a list \<Rightarrow> 'a list \<Rightarrow> bool" where
  "starts_with s pat = prefix pat s"

text \<open>The loop \<open>while (getline(ss, item, d))\<close>: the items it yields.\<close>

fun getlines :: "'a \<Rightarrow> 'a list \<Rightarrow> 'a list list" where
  "getlines d [] = []"
| "getlines d (x # xs) =
     (if x = d then [] # getlines d xs
      else case getlines d xs of
        [] \<Rightarrow> [[x]]
      | l # ls \<Rightarrow> (x # l) # ls)"

lemma first_not_of_Some_iff:
  "first_not_of s cs = Some k \<longleftrightarrow> k < length s \<and> s ! k \<notin> set cs \<and> set (take k s) \<subseteq> set cs"
proof -
  let ?t = "takeWhile (\<lambda>c. c \<in> set cs) s"
  have t: "?t = take (length ?t) s" by (rule takeWhile_eq_take)
  have nth: "length ?t < length s \<Longrightarrow> s ! length ?t \<notin> set cs" by (rule nth_length_takeWhile)
  have sub: "set (take (length ?t) s) \<subseteq> set cs" using t by (metis set_takeWhileD subsetI)
  have uniq: "k = length ?t" if "k < length s" "s ! k \<notin> set cs" "set (take k s) \<subseteq> set cs" for k
  proof -
    have "?t = take k s"
    proof (rule takeWhile_eq_take_P_nth)
      fix i assume i: "i < k" "i < length s"
      then have "take k s ! i \<in> set (take k s)" by (intro nth_mem) simp
      with that(3) i show "s ! i \<in> set cs" by (auto simp del: in_set_conv_nth)
    qed (use that in simp)
    with that(1) show ?thesis by simp
  qed
  show ?thesis
  proof
    assume "first_not_of s cs = Some k"
    then have "k = length ?t" "length ?t < length s"
      by (simp_all add: first_not_of_def Let_def split: if_splits)
    with nth sub show "k < length s \<and> s ! k \<notin> set cs \<and> set (take k s) \<subseteq> set cs" by simp
  next
    assume a: "k < length s \<and> s ! k \<notin> set cs \<and> set (take k s) \<subseteq> set cs"
    then have "k = length ?t" by (intro uniq) simp_all
    with a show "first_not_of s cs = Some k" by (simp add: first_not_of_def Let_def)
  qed
qed

lemma first_not_of_None_iff: "first_not_of s cs = None \<longleftrightarrow> set s \<subseteq> set cs"
proof -
  let ?t = "takeWhile (\<lambda>c. c \<in> set cs) s"
  have "first_not_of s cs = None \<longleftrightarrow> length ?t = length s"
    using length_takeWhile_le [of "\<lambda>c. c \<in> set cs" s] by (auto simp: first_not_of_def Let_def)
  also have "\<dots> \<longleftrightarrow> ?t = s"
    by (metis takeWhile_eq_take take_all order_refl)
  finally show ?thesis by (auto simp: takeWhile_eq_all_conv)
qed

lemma last_not_of_rev: "last_not_of s cs = map_option (\<lambda>k. length s - 1 - k) (first_not_of (rev s) cs)"
  by (simp add: last_not_of_def first_not_of_def Let_def)

lemma last_not_of_None_iff: "last_not_of s cs = None \<longleftrightarrow> set s \<subseteq> set cs"
  by (simp add: last_not_of_rev first_not_of_None_iff)

lemma last_not_of_Some_iff:
  "last_not_of s cs = Some k \<longleftrightarrow> k < length s \<and> s ! k \<notin> set cs \<and> set (drop (Suc k) s) \<subseteq> set cs"
proof
  assume "last_not_of s cs = Some k"
  then obtain j where j: "first_not_of (rev s) cs = Some j" "k = length s - 1 - j"
    by (auto simp: last_not_of_rev)
  then have "j < length s" "s ! (length s - Suc j) \<notin> set cs" "set (drop (length s - j) s) \<subseteq> set cs"
    by (auto simp: first_not_of_Some_iff rev_nth take_rev)
  moreover from this have "Suc k = length s - j" using j(2) by simp
  ultimately show "k < length s \<and> s ! k \<notin> set cs \<and> set (drop (Suc k) s) \<subseteq> set cs"
    using j(2) by simp
next
  assume a: "k < length s \<and> s ! k \<notin> set cs \<and> set (drop (Suc k) s) \<subseteq> set cs"
  then have "first_not_of (rev s) cs = Some (length s - 1 - k)"
    by (auto simp: first_not_of_Some_iff rev_nth take_rev)
  with a show "last_not_of s cs = Some k" by (simp add: last_not_of_rev)
qed

subsection \<open>Lines\<close>

lemma getlines_single: "s \<noteq> [] \<Longrightarrow> d \<notin> set s \<Longrightarrow> getlines d s = [s]"
proof (induction s)
  case (Cons x xs)
  then show ?case by (cases xs) auto
qed simp

lemma getlines_append: "s \<noteq> [] \<Longrightarrow> last s \<noteq> d \<Longrightarrow> getlines d (s @ d # t) = getlines d s @ getlines d t"
proof (induction s)
  case (Cons x xs)
  show ?case
  proof (cases xs)
    case Nil
    then show ?thesis using Cons.prems by simp
  next
    case (Cons y ys)
    then have "getlines d (xs @ d # t) = getlines d xs @ getlines d t" using Cons.IH Cons.prems by simp
    moreover have "getlines d xs \<noteq> []" using Cons by (auto split: list.splits)
    ultimately show ?thesis by (cases "getlines d xs") simp_all
  qed
qed simp

end
