(* ===== verification/Lim_Tokens.thy ===== *)
theory Lim_Tokens
  imports Lim_Prelude
begin

section \<open>The protocol's constants and the model's turn delimiters\<close>

text \<open>
  \<open>tokens.h\<close>: the tags of the tool protocol, the parameter names and the escape characters, and
  the global \<open>g_model_tokens\<close> of \<open>model.h\<close> as a record. Names follow the sources.
\<close>

subsection \<open>tokens.h\<close>

definition FUNC_START :: string where "FUNC_START = ''<function=''"
definition FUNC_END :: string where "FUNC_END = ''</function>''"
definition PARAM_START :: string where "PARAM_START = ''<parameter=''"
definition PARAM_END :: string where "PARAM_END = ''</parameter>''"

definition PARAM_NAMES :: "string list" where
  "PARAM_NAMES = [''paths'', ''path'', ''content'', ''old'', ''new'', ''text'', ''begin'', ''end'',
     ''command'', ''query'']"

definition DOUBLE_OPEN :: string where "DOUBLE_OPEN = ''</</''"

definition ESCAPE_CHAR :: char where "ESCAPE_CHAR = ch_bslash"
definition HTML_SENTINEL_CHAR :: char where "HTML_SENTINEL_CHAR = CHR ''%''"
definition HTML_ESCAPE_CHAR :: char where "HTML_ESCAPE_CHAR = ch_bslash"

lemmas token_defs = FUNC_START_def FUNC_END_def PARAM_START_def PARAM_END_def DOUBLE_OPEN_def

subsection \<open>model.h: the turn delimiters\<close>

type_synonym token = "32 word"

datatype model_type = UNKNOWN | CHATML | LLAMA3 | PHI_3 | PHI_4 | MISTRAL_V7 | MISTRAL_V1
  | MISTRAL_V3 | GEMMA | ZEPHYR | VICUNA | DEEPSEEK_3 | GRANITE | LLAMA2

record model_fragment =
  mf_text :: string
  mf_tokens :: "token list"

record model_tokens =
  mt_type :: model_type
  system_turn_start :: model_fragment
  user_turn_start :: model_fragment
  assistant_turn_start :: model_fragment
  turn_end :: model_fragment
  think_start :: string
  think_end :: string

definition has_explicit_turn_end :: "model_tokens \<Rightarrow> bool" where
  "has_explicit_turn_end mt \<longleftrightarrow> mf_tokens (turn_end mt) \<noteq> []"

text \<open>The delimiters of a ChatML model, for the concrete instances of the theorems.\<close>

definition frag :: "string \<Rightarrow> token list \<Rightarrow> model_fragment" where
  "frag t ts = \<lparr>mf_text = t, mf_tokens = ts\<rparr>"

definition chatml :: model_tokens where
  "chatml = \<lparr>mt_type = CHATML,
     system_turn_start = frag (''<|im_start|>system'' @ [ch_nl]) [1, 2, 3],
     user_turn_start = frag (''<|im_start|>user'' @ [ch_nl]) [1, 4, 3],
     assistant_turn_start = frag (''<|im_start|>assistant'' @ [ch_nl]) [1, 5, 3],
     turn_end = frag ''<|im_end|>'' [6], think_start = ''<think>'', think_end = ''</think>''\<rparr>"

end
