(* ===== verification/Lim_Escape.thy ===== *)
theory Lim_Escape
  imports Lim_Tokens "HOL-Library.Multiset"
begin

section \<open>Escaping of the reserved tokens (parsers.cc)\<close>

text \<open>
  Text that a tool returns, or that a parameter carries, must not contain the tokens that end a
  parameter or a turn. \<open>escape_tag\<close> puts one backslash after the first character of each occurrence
  of a token, and of each occurrence already escaped; \<open>unescape_one_token\<close> takes one away. Both are
  the index loops of the source. \<open>esc_many\<close> is their specification, over any number of tokens.
\<close>

subsection \<open>The loops of the source\<close>

text \<open>\<open>while (scan < str.length() && str[scan] == esc_char) scan++\<close>\<close>

definition skip_chars :: "'a list \<Rightarrow> 'a \<Rightarrow> nat \<Rightarrow> nat" where
  "skip_chars s e i = i + length (takeWhile (\<lambda>c. c = e) (drop i s))"

definition match_at :: "'a list \<Rightarrow> nat \<Rightarrow> 'a list \<Rightarrow> bool" where
  "match_at s scan suf \<longleftrightarrow>
     list_all (\<lambda>k. scan + k < length s \<and> s ! (scan + k) = suf ! k) [0..<length suf]"

function escape_loop :: "char \<Rightarrow> string \<Rightarrow> char \<Rightarrow> string \<Rightarrow> nat \<Rightarrow> string" where
  "escape_loop f suf e str start =
     (if start < length str then
        (case str_find str [f] start of
           None \<Rightarrow> str
         | Some pos \<Rightarrow>
             (if match_at str (skip_chars str e (pos + 1)) suf
              then escape_loop f suf e (str_insert str (pos + 1) [e]) (pos + 2 + length suf)
              else escape_loop f suf e str (pos + 1)))
      else str)"
  by pat_completeness auto
termination
  by (relation "measure (\<lambda>(f, suf, e, str, start). length str - start)")
    (auto simp: str_insert_def dest!: str_find_boundsD)

definition escape_tag :: "string \<Rightarrow> string \<Rightarrow> char \<Rightarrow> string" where
  "escape_tag str token e =
     (if length token < 2 then str else escape_loop (hd token) (tl token) e str 0)"

function unescape_loop :: "char \<Rightarrow> string \<Rightarrow> char \<Rightarrow> string \<Rightarrow> nat \<Rightarrow> string" where
  "unescape_loop f suf e str start =
     (if start < length str then
        (case str_find str [f] start of
           None \<Rightarrow> str
         | Some pos \<Rightarrow>
             (let scan = skip_chars str e (pos + 1); num_bs = scan - (pos + 1) in
              if match_at str scan suf then
                (if num_bs > 0 then
                   (let replacement = f # replicate (num_bs - 1) e @ suf in
                    unescape_loop f suf e
                      (str_replace str pos (scan - pos + length suf) replacement)
                      (pos + length replacement))
                 else unescape_loop f suf e str (pos + 1 + length suf))
              else unescape_loop f suf e str (pos + 1)))
      else str)"
  by pat_completeness auto
termination
  by (relation "measure (\<lambda>(f, suf, e, str, start). length str - start)")
    (auto simp: str_replace_def Let_def dest!: str_find_boundsD)

definition unescape_one_token :: "string \<Rightarrow> string \<Rightarrow> char \<Rightarrow> string" where
  "unescape_one_token str token e =
     (if length token < 2 then str else unescape_loop (hd token) (tl token) e str 0)"

definition escape_parameter_tags :: "string \<Rightarrow> string" where
  "escape_parameter_tags str = escape_tag str PARAM_END ESCAPE_CHAR"

definition unescape_parameter_tags :: "string \<Rightarrow> string" where
  "unescape_parameter_tags str = unescape_one_token str PARAM_END ESCAPE_CHAR"

declare escape_loop.simps [simp del] unescape_loop.simps [simp del]

subsection \<open>The turn tokens\<close>

definition push_new :: "string list \<Rightarrow> string \<Rightarrow> string list" where
  "push_new out t = (if t \<in> set out then out else out @ [t])"

text \<open>The inner loop over the \<open><|...|>\<close> tokens of one marker, from position \<open>pos\<close>.\<close>

function marker_tokens :: "string \<Rightarrow> nat \<Rightarrow> string list \<Rightarrow> string list" where
  "marker_tokens m pos out =
     (case str_find m ''<|'' pos of
        None \<Rightarrow> out
      | Some p \<Rightarrow>
          (case str_find m ''|>'' (p + 2) of
             Some q \<Rightarrow> marker_tokens m (q + 2) (push_new out (substr m p (q - p + 2)))
           | None \<Rightarrow> out))"
  by pat_completeness auto
termination
  by (relation "measure (\<lambda>(m, pos, out). length m + 1 - pos)")
    (auto dest!: str_find_boundsD)

declare marker_tokens.simps [simp del]

definition collect_marker :: "string \<Rightarrow> string list \<Rightarrow> string list" where
  "collect_marker m out =
     (let out1 = marker_tokens m 0 out in
      if str_find m ''<|'' 0 = None \<and> m \<noteq> [] then push_new out1 m else out1)"

definition collect_turn_tokens_into :: "model_tokens \<Rightarrow> string list \<Rightarrow> string list" where
  "collect_turn_tokens_into mt out =
     (let markers = filter (\<lambda>m. m \<noteq> [])
        [mf_text (user_turn_start mt), mf_text (assistant_turn_start mt),
         mf_text (system_turn_start mt), mf_text (turn_end mt)]
      in fold collect_marker markers out)"

definition collect_base_turn_tokens :: "model_tokens \<Rightarrow> string list" where
  "collect_base_turn_tokens mt = collect_turn_tokens_into mt []"

definition escape_turn_tags :: "model_tokens \<Rightarrow> string \<Rightarrow> string" where
  "escape_turn_tags mt str =
     fold (\<lambda>t s. escape_tag s t ESCAPE_CHAR) (collect_base_turn_tokens mt) str"

definition unescape_turn_tags :: "model_tokens \<Rightarrow> string \<Rightarrow> string" where
  "unescape_turn_tags mt str =
     fold (\<lambda>t s. unescape_one_token s t ESCAPE_CHAR) (collect_base_turn_tokens mt) str"

subsection \<open>The specification\<close>

text \<open>
  \<open>esc_many e ts\<close> puts, after every first character of a token, one escape for each token of
  \<open>ts\<close> that stands there, escaped or not. \<open>unesc_ref e t\<close> removes one escape of each escaped
  occurrence of \<open>t\<close>.
\<close>

definition token_at :: "char \<Rightarrow> char \<Rightarrow> string \<Rightarrow> string \<Rightarrow> bool" where
  "token_at e x xs t \<longleftrightarrow> x = hd t \<and> prefix (tl t) (dropWhile (\<lambda>c. c = e) xs)"

fun esc_many :: "char \<Rightarrow> string list \<Rightarrow> string \<Rightarrow> string" where
  "esc_many e ts [] = []"
| "esc_many e ts (x # xs) =
     x # replicate (length (filter (token_at e x xs) ts)) e @ esc_many e ts xs"

fun unesc_ref :: "char \<Rightarrow> string \<Rightarrow> string \<Rightarrow> string" where
  "unesc_ref e t [] = []"
| "unesc_ref e t [x] = [x]"
| "unesc_ref e t (x # y # xs) =
     (if y = e \<and> token_at e x (y # xs) t then x # unesc_ref e t xs
      else x # unesc_ref e t (y # xs))"

text \<open>
  Tokens the scheme protects: two characters at least, no token starts inside another, and the escape
  character is neither a first nor a second character.
\<close>

definition escapable :: "char \<Rightarrow> string list \<Rightarrow> bool" where
  "escapable e ts \<longleftrightarrow>
     list_all (\<lambda>t. 2 \<le> length t \<and> hd t \<noteq> e \<and> hd (tl t) \<noteq> e \<and>
       list_all (\<lambda>u. hd u \<notin> set (tl t)) ts) ts"

subsection \<open>The specification's laws\<close>

lemma escapable_Cons: "escapable e (t # ts) \<Longrightarrow> escapable e ts \<and> escapable e [t]"
  by (auto simp: escapable_def list_all_iff)

lemma escapableD:
  assumes "escapable e ts" "t \<in> set ts"
  shows "2 \<le> length t" "t \<noteq> []" "tl t \<noteq> []" "hd t \<noteq> e" "hd (tl t) \<noteq> e"
    "u \<in> set ts \<Longrightarrow> hd u \<notin> set (tl t)"
  using assms by (cases t; auto simp: escapable_def list_all_iff)+

lemma filter_empty_count: "(\<And>t. t \<in> set ts \<Longrightarrow> \<not> P t) \<Longrightarrow> length (filter P ts) = 0"
  by (simp add: filter_empty_conv)

lemma esc_many_app_free:
  "(\<And>t. t \<in> set ts \<Longrightarrow> hd t \<notin> set w) \<Longrightarrow> esc_many e ts (w @ r) = w @ esc_many e ts r"
proof (induction w)
  case (Cons x w)
  then have "filter (token_at e x (w @ r)) ts = []"
    by (force simp: filter_empty_conv token_at_def)
  with Cons show ?case by simp
qed simp

lemma esc_many_replicate:
  "(\<And>t. t \<in> set ts \<Longrightarrow> hd t \<noteq> e) \<Longrightarrow>
   esc_many e ts (replicate n e @ r) = replicate n e @ esc_many e ts r"
  by (rule esc_many_app_free) auto

lemma dropWhile_esc_many:
  assumes "\<And>t. t \<in> set ts \<Longrightarrow> hd t \<noteq> e"
  shows "dropWhile (\<lambda>c. c = e) (esc_many e ts xs) = esc_many e ts (dropWhile (\<lambda>c. c = e) xs)"
proof (induction xs)
  case (Cons x xs)
  have "x = e \<Longrightarrow> filter (token_at e x xs) ts = []"
    using assms by (auto simp: filter_empty_conv token_at_def)
  with Cons show ?case by auto
qed simp

lemma prefix_esc_many:
  assumes "\<And>t. t \<in> set ts \<Longrightarrow> hd t \<notin> set w"
  shows "prefix w (esc_many e ts xs) \<longleftrightarrow> prefix w xs"
  using assms
proof (induction w arbitrary: xs)
  case (Cons a w)
  show ?case
  proof (cases xs)
    case (Cons x ys)
    show ?thesis
    proof (cases "x = a")
      case True
      then have "filter (token_at e x ys) ts = []"
        using Cons.prems by (force simp: filter_empty_conv token_at_def)
      with True Cons Cons.IH [of ys] Cons.prems show ?thesis by simp
    qed (use Cons in auto)
  qed simp
qed simp

lemma dropWhile_replicate_app:
  "dropWhile (\<lambda>c. c = e) (replicate n e @ xs) = dropWhile (\<lambda>c. c = e) xs"
  by (induction n) auto

lemma token_at_esc_many:
  assumes "escapable e (t # ts)"
  shows "token_at e x (replicate n e @ esc_many e ts xs) t \<longleftrightarrow> token_at e x xs t"
proof -
  have hd: "hd u \<noteq> e" "hd u \<notin> set (tl t)" if "u \<in> set ts" for u
    using that assms escapableD(4) [OF assms, of u] escapableD(6) [OF assms, of t u] by auto
  show ?thesis
    using hd by (simp add: token_at_def dropWhile_replicate_app dropWhile_esc_many prefix_esc_many)
qed

text \<open>One more token is one more pass, and one pass of \<open>unesc_ref\<close> undoes it.\<close>

lemma unesc_ref_Cons_free:
  "x \<noteq> hd t \<Longrightarrow> unesc_ref e t (x # xs) = x # unesc_ref e t xs"
  by (cases xs) (auto simp: token_at_def)

lemma unesc_ref_app_free: "hd t \<notin> set w \<Longrightarrow> unesc_ref e t (w @ r) = w @ unesc_ref e t r"
  by (induction w) (auto simp: unesc_ref_Cons_free)

lemma unesc_ref_no_match:
  "\<not> token_at e x xs t \<Longrightarrow> unesc_ref e t (x # xs) = x # unesc_ref e t xs"
  by (cases xs) auto

lemma esc_many_single_app:
  assumes "escapable e (t # ts)"
  shows "esc_many e [t] (esc_many e ts s) = esc_many e (t # ts) s"
proof (induction s)
  case (Cons x xs)
  have e: "hd t \<noteq> e" using escapableD(4) [OF assms, of t] by simp
  have "esc_many e [t] (replicate n e @ r) = replicate n e @ esc_many e [t] r" for n r
    using e by (intro esc_many_replicate) simp
  with Cons token_at_esc_many [OF assms] show ?case by simp
qed simp

lemma unesc_esc_many:
  assumes "escapable e (t # ts)"
  shows "unesc_ref e t (esc_many e (t # ts) s) = esc_many e ts s"
proof (induction s)
  case (Cons x xs)
  have e: "hd t \<noteq> e" using escapableD(4) [OF assms, of t] by simp
  let ?n = "length (filter (token_at e x xs) ts)"
  have m: "token_at e x (replicate k e @ esc_many e (t # ts) xs) t \<longleftrightarrow> token_at e x xs t" for k
    using token_at_esc_many [of e t "t # ts" x k xs] assms
    by (auto simp: escapable_def)
  show ?case
  proof (cases "token_at e x xs t")
    case True
    with m [of "Suc ?n"] Cons e show ?thesis by (simp add: unesc_ref_app_free)
  next
    case False
    with m [of ?n] Cons e show ?thesis by (simp add: unesc_ref_no_match unesc_ref_app_free)
  qed
qed simp

lemma esc_many_Nil [simp]: "esc_many e [] s = s"
  by (induction s) auto

lemma esc_many_no_raw:
  assumes "escapable e ts" "t \<in> set ts"
  shows "\<not> sublist t (esc_many e ts s)"
proof (induction s)
  case Nil
  then show ?case using escapableD(2) [OF assms] by simp
next
  case (Cons x xs)
  let ?n = "length (filter (token_at e x xs) ts)"
  note d = escapableD(1-5) [OF assms] and d6 = escapableD(6) [OF assms]
  obtain y w where t: "t = hd t # y # w" "tl t = y # w" "y \<noteq> e"
    using d by (cases t; cases "tl t") auto
  have a: "\<not> prefix t (x # replicate ?n e @ esc_many e ts xs)"
  proof
    assume p: "prefix t (x # replicate ?n e @ esc_many e ts xs)"
    then have x: "x = hd t" and p': "prefix (tl t) (replicate ?n e @ esc_many e ts xs)"
      using t(1) by (metis Cons_prefix_Cons, metis Cons_prefix_Cons t(2))
    have n: "?n = 0"
      using p' t by (cases ?n) auto
    with p' have "prefix (tl t) xs"
      using prefix_esc_many [of ts "tl t" e xs] d6 by simp
    moreover from this t have "dropWhile (\<lambda>c. c = e) xs = xs"
      by (cases xs) auto
    ultimately have "token_at e x xs t" using x by (simp add: token_at_def)
    with n assms(2) show False by (auto simp: filter_empty_conv)
  qed
  have b: "\<not> sublist t (replicate k e @ esc_many e ts xs)" for k
  proof (induction k)
    case (Suc k)
    then show ?case using t d(4) by (auto simp: sublist_Cons_right) (metis Cons_prefix_Cons)
  qed (use Cons in simp)
  from a b show ?case by (simp add: sublist_Cons_right)
qed

text \<open>Escaping makes no new occurrence of a tag that shares only its first character.\<close>

lemma sublist_Cons_ne: "x \<noteq> hd p \<Longrightarrow> p \<noteq> [] \<Longrightarrow> sublist p (x # xs) \<longleftrightarrow> sublist p xs"
  by (cases p) (auto simp: sublist_Cons_right)

lemma sublist_replicate_ne:
  "e \<noteq> hd p \<Longrightarrow> p \<noteq> [] \<Longrightarrow> sublist p (replicate n e @ xs) \<longleftrightarrow> sublist p xs"
  by (induction n) (auto simp: sublist_Cons_ne)

lemma esc_many_no_new:
  assumes p: "p = a # b # w" "a \<noteq> e" "b \<noteq> e" "\<And>t. t \<in> set ts \<Longrightarrow> hd t \<notin> set (b # w)"
  shows "\<not> sublist p xs \<Longrightarrow> \<not> sublist p (esc_many e ts xs)"
proof (induction xs)
  case Nil
  then show ?case by simp
next
  case (Cons x xs)
  then have xs: "\<not> sublist p xs" "\<not> prefix p (x # xs)" by (auto simp: sublist_Cons_right)
  let ?n = "length (filter (token_at e x xs) ts)"
  have "\<not> prefix p (x # replicate ?n e @ esc_many e ts xs)"
  proof
    assume pre: "prefix p (x # replicate ?n e @ esc_many e ts xs)"
    then have "x = a" and q: "prefix (b # w) (replicate ?n e @ esc_many e ts xs)"
      using p(1) by auto
    from q have "?n = 0" using p(3) by (cases ?n) auto
    with q have "prefix (b # w) xs" using prefix_esc_many [of ts "b # w" e xs] p(4) by auto
    with \<open>x = a\<close> xs(2) p(1) show False by simp
  qed
  moreover have "\<not> sublist p (replicate ?n e @ esc_many e ts xs)"
    using Cons.IH [OF xs(1)] sublist_replicate_ne [of e p ?n] p(1,2) by simp
  ultimately show ?case by (simp add: sublist_Cons_right)
qed

subsection \<open>The loops meet the specification\<close>

lemma match_at_prefix:
  "match_at s i suf \<longleftrightarrow> i \<le> length s \<and> prefix suf (drop i s) \<or> suf = []"
proof
  assume m: "match_at s i suf"
  show "i \<le> length s \<and> prefix suf (drop i s) \<or> suf = []"
  proof (cases "suf = []")
    case False
    with m have "i + (length suf - 1) < length s" by (auto simp: match_at_def list_all_iff)
    with False have len: "i + length suf \<le> length s" by (cases suf) auto
    have "suf = take (length suf) (drop i s)"
      using m len by (intro nth_equalityI) (auto simp: match_at_def list_all_iff)
    then have "prefix suf (drop i s)" by (metis take_is_prefix)
    with len show ?thesis by simp
  qed simp
next
  assume "i \<le> length s \<and> prefix suf (drop i s) \<or> suf = []"
  then show "match_at s i suf"
  proof
    assume a: "i \<le> length s \<and> prefix suf (drop i s)"
    then obtain r where r: "drop i s = suf @ r" by (auto simp: prefix_def)
    have "length s - i = length suf + length r" using arg_cong [OF r, of length] by simp
    with a have len: "i + length suf \<le> length s" by linarith
    have "s ! (i + k) = suf ! k" if "k < length suf" for k
      using that len arg_cong [OF r, of "\<lambda>l. l ! k"] by (simp add: nth_append)
    with len show ?thesis by (auto simp: match_at_def list_all_iff)
  qed (simp add: match_at_def)
qed

lemma dropWhile_eq_drop_len:
  "dropWhile P xs = drop (length (takeWhile P xs)) xs"
  by (rule dropWhile_eq_drop)

lemma match_skip:
  assumes "suf \<noteq> []"
  shows "match_at (a @ xs) (skip_chars (a @ xs) e (length a)) suf
     \<longleftrightarrow> prefix suf (dropWhile (\<lambda>c. c = e) xs)"
proof -
  have "length (takeWhile (\<lambda>c. c = e) xs) \<le> length xs" by (rule length_takeWhile_le)
  then show ?thesis
    using assms by (simp add: match_at_prefix skip_chars_def dropWhile_eq_drop_len)
qed

lemma take_skip_free:
  assumes "prefix suf (dropWhile (\<lambda>c. c = e) xs)" "f \<notin> set suf" "f \<noteq> e"
  shows "f \<notin> set (take (length suf) xs)"
proof -
  let ?w = "takeWhile (\<lambda>c. c = e) xs"
  from assms(1) obtain r where r: "xs = (?w @ suf) @ r"
    by (metis append_assoc prefix_def takeWhile_dropWhile_id)
  then have "take (length suf) xs = take (length suf) (?w @ suf)"
    by (metis add.commute append_Nil2 diff_is_0_eq le_add1 length_append take_append take0)
  moreover have "f \<notin> set (?w @ suf)"
    using assms(2,3) by (auto dest: set_takeWhileD)
  ultimately show ?thesis by (metis in_set_takeD)
qed

lemma escape_loop_spec:
  assumes "f \<notin> set suf" "f \<noteq> e" "suf \<noteq> []"
  shows "escape_loop f suf e str start = take start str @ esc_many e [f # suf] (drop start str)"
  using assms
proof (induction f suf e str start rule: escape_loop.induct)
  case (1 f suf e str start)
  note prems = 1(3-5)
  have free: "f \<notin> set w \<Longrightarrow> esc_many e [f # suf] (w @ r) = w @ esc_many e [f # suf] r" for w r
    by (rule esc_many_app_free) simp
  show ?case
  proof (cases "str_find str [f] start")
    case None
    then have "f \<notin> set (drop start str)" by (simp add: str_find_single_None)
    with None show ?thesis
      using free [of "drop start str" "[]"]
      by (simp add: escape_loop.simps [of f suf e str start])
  next
    case (Some pos)
    then obtain u xs where s: "str = take start str @ u @ f # xs" "drop start str = u @ f # xs"
      "f \<notin> set u" "pos = start + length u" "start \<le> length str" by (rule str_find_single)
    then have st: "start < length str" by (metis drop_all linorder_not_le list.distinct(1) append_is_Nil_conv)
    let ?a = "take start str @ u @ [f]"
    have a: "str = ?a @ xs" "length ?a = pos + 1" using s by simp_all
    have td: "take (Suc pos) str = ?a" "drop (Suc pos) str = xs"
      using a(1,2) by (metis append_eq_conv_conj Suc_eq_plus1)+
    have m: "match_at str (skip_chars str e (pos + 1)) suf \<longleftrightarrow> prefix suf (dropWhile (\<lambda>c. c = e) xs)"
      using match_skip [OF prems(3), of ?a xs e] a by simp
    show ?thesis
    proof (cases "prefix suf (dropWhile (\<lambda>c. c = e) xs)")
      case True
      let ?str = "str_insert str (pos + 1) [e]" and ?k = "length suf"
      have ins: "?str = ?a @ e # xs" using a
        by (metis append_Cons append_Nil append_eq_conv_conj str_insert_def)
      have k: "length xs \<ge> ?k"
        using True prefix_length_le length_dropWhile_le order_trans by blast
      have "escape_loop f suf e str start
          = take (pos + 2 + ?k) ?str @ esc_many e [f # suf] (drop (pos + 2 + ?k) ?str)"
        using 1(1) [OF st Some] True m prems st Some
        by (simp add: escape_loop.simps [of f suf e str start])
      also have "take (pos + 2 + ?k) ?str = ?a @ e # take ?k xs"
        unfolding ins using s(4,5) by simp
      also have "drop (pos + 2 + ?k) ?str = drop ?k xs" using a(2) ins by simp
      finally have "escape_loop f suf e str start
         = ?a @ e # take ?k xs @ esc_many e [f # suf] (drop ?k xs)" by simp
      also have "take ?k xs @ esc_many e [f # suf] (drop ?k xs) = esc_many e [f # suf] xs"
        using free [OF take_skip_free [OF True prems(1,2)], of "drop ?k xs"] by simp
      finally show ?thesis using True s(2,3) by (simp add: free token_at_def)
    next
      case False
      have "escape_loop f suf e str start = ?a @ esc_many e [f # suf] xs"
        using 1(2) [OF st Some] False m prems st Some td
        by (simp add: escape_loop.simps [of f suf e str start])
      then show ?thesis using False s(2,3) by (simp add: free token_at_def)
    qed
  qed
qed

lemma unescape_loop_spec:
  assumes "f \<notin> set suf" "f \<noteq> e" "suf \<noteq> []" "hd suf \<noteq> e"
  shows "unescape_loop f suf e str start = take start str @ unesc_ref e (f # suf) (drop start str)"
  using assms
proof (induction f suf e str start rule: unescape_loop.induct)
  case (1 f suf e str start)
  note prems = 1(4-7)
  have free: "f \<notin> set w \<Longrightarrow> unesc_ref e (f # suf) (w @ r) = w @ unesc_ref e (f # suf) r" for w r
    by (rule unesc_ref_app_free) simp
  show ?case
  proof (cases "str_find str [f] start")
    case None
    then have "f \<notin> set (drop start str)" by (simp add: str_find_single_None)
    with None show ?thesis
      using free [of "drop start str" "[]"]
      by (simp add: unescape_loop.simps [of f suf e str start])
  next
    case (Some pos)
    then obtain u xs where s: "str = take start str @ u @ f # xs" "drop start str = u @ f # xs"
      "f \<notin> set u" "pos = start + length u" "start \<le> length str" by (rule str_find_single)
    then have st: "start < length str"
      by (metis drop_all linorder_not_le list.distinct(1) append_is_Nil_conv)
    let ?p = "take start str @ u" and ?a = "take start str @ u @ [f]"
    let ?w = "takeWhile (\<lambda>c. c = e) xs" and ?k = "length suf"
    let ?scan = "skip_chars str e (pos + 1)"
    have a: "str = ?a @ xs" "length ?a = pos + 1" "length ?p = pos" using s by simp_all
    have td: "take (Suc pos) str = ?a" "drop (Suc pos) str = xs"
      using a(1,2) by (metis append_eq_conv_conj Suc_eq_plus1)+
    have m: "match_at str ?scan suf \<longleftrightarrow> prefix suf (dropWhile (\<lambda>c. c = e) xs)"
      using match_skip [OF prems(3), of ?a xs e] a by simp
    have scan: "?scan = pos + 1 + length ?w"
      using a by (metis append_eq_conv_conj skip_chars_def)
    note step = unescape_loop.simps [of f suf e str start]
    show ?thesis
    proof (cases "prefix suf (dropWhile (\<lambda>c. c = e) xs)")
      case True
      then obtain r where r: "dropWhile (\<lambda>c. c = e) xs = suf @ r" by (auto simp: prefix_def)
      define n where "n = length ?w"
      have w: "?w = replicate n e"
        unfolding n_def by (rule replicate_length_same [symmetric]) (auto dest: set_takeWhileD)
      have xs: "xs = replicate n e @ suf @ r" by (metis r w takeWhile_dropWhile_id)
      have sc: "?scan = pos + 1 + n" using scan by (simp add: n_def)
      show ?thesis
      proof (cases n)
        case 0
        have d: "take (Suc (pos + ?k)) str = ?a @ suf" "drop (Suc (pos + ?k)) str = r"
        proof -
          have "str = (?a @ suf) @ r" "length (?a @ suf) = Suc (pos + ?k)"
            using a(1,2) xs 0 by simp_all
          then show "take (Suc (pos + ?k)) str = ?a @ suf" "drop (Suc (pos + ?k)) str = r"
            by (metis append_eq_conv_conj)+
        qed
        have "unescape_loop f suf e str start
            = take (pos + 1 + ?k) str @ unesc_ref e (f # suf) (drop (pos + 1 + ?k) str)"
          using 1(2) [OF st Some refl refl] True m prems st Some sc 0 step by simp
        then have "unescape_loop f suf e str start = ?a @ suf @ unesc_ref e (f # suf) r"
          using d by simp
        moreover have "unesc_ref e (f # suf) (f # xs) = f # unesc_ref e (f # suf) xs"
          using xs 0 prems(3,4) by (cases suf) auto
        ultimately show ?thesis
          using s(2,3) xs 0 prems(1) by (simp add: free)
      next
        case (Suc n')
        let ?rep = "f # replicate n' e @ suf"
        let ?str = "str_replace str pos (?scan - pos + ?k) ?rep"
        have d: "drop (pos + (?scan - pos + ?k)) str = r" "take pos str = ?p"
        proof -
          have "str = (?p @ f # replicate n e @ suf) @ r"
            "length (?p @ f # replicate n e @ suf) = pos + (?scan - pos + ?k)"
            using a(1,3) xs sc by simp_all
          then show "drop (pos + (?scan - pos + ?k)) str = r" by (metis append_eq_conv_conj)
          show "take pos str = ?p" using a(1,3) by (metis append.assoc append_eq_conv_conj)
        qed
        then have rep: "?str = (?p @ ?rep) @ r" by (simp add: str_replace_def)
        have "unescape_loop f suf e str start
            = take (pos + length ?rep) ?str @ unesc_ref e (f # suf) (drop (pos + length ?rep) ?str)"
          using 1(1) [OF st Some refl refl] True m prems st Some sc step Suc
          by (simp add: Let_def add.assoc)
        then have "unescape_loop f suf e str start = ?p @ ?rep @ unesc_ref e (f # suf) r"
          unfolding rep using s(4,5) by simp
        moreover have "token_at e f xs (f # suf)" using True by (simp add: token_at_def)
        ultimately show ?thesis
          using s(2,3) xs Suc prems free [of "replicate n' e @ suf" r]
          by (simp add: free)
      qed
    next
      case False
      have "unescape_loop f suf e str start = ?a @ unesc_ref e (f # suf) xs"
        using 1(3) [OF st Some refl refl] False m prems st Some td step by simp
      then show ?thesis using False s(2,3) by (simp add: free token_at_def unesc_ref_no_match)
    qed
  qed
qed

lemma escape_tag_eq:
  assumes "escapable e [t]"
  shows "escape_tag s t e = esc_many e [t] s"
proof -
  from assms have "hd t \<notin> set (tl t)" "hd t \<noteq> e" "tl t \<noteq> []" "\<not> length t < 2" "hd t # tl t = t"
    using escapableD(1-5) [OF assms, of t] escapableD(6) [OF assms, of t t] by auto
  then show ?thesis
    using escape_loop_spec [of "hd t" "tl t" e s 0] by (simp add: escape_tag_def)
qed

lemma unescape_one_token_eq:
  assumes "escapable e [t]"
  shows "unescape_one_token s t e = unesc_ref e t s"
proof -
  from assms have "hd t \<notin> set (tl t)" "hd t \<noteq> e" "tl t \<noteq> []" "hd (tl t) \<noteq> e" "\<not> length t < 2"
    "hd t # tl t = t"
    using escapableD(1-5) [OF assms, of t] escapableD(6) [OF assms, of t t] by auto
  then show ?thesis
    using unescape_loop_spec [of "hd t" "tl t" e s 0] by (simp add: unescape_one_token_def)
qed

lemma fold_escape_eq:
  "escapable e ts \<Longrightarrow> escapable e (us @ ts) \<Longrightarrow>
   fold (\<lambda>t s. escape_tag s t e) ts (esc_many e us s) = esc_many e (rev ts @ us) s"
proof (induction ts arbitrary: us)
  case (Cons t ts)
  have e: "escapable e (t # us)" "escapable e [t]" "escapable e ts" "escapable e ((t # us) @ ts)"
    using Cons.prems by (auto simp: escapable_def list_all_iff)
  have "esc_many e [t] (esc_many e us s) = esc_many e (t # us) s"
    by (rule esc_many_single_app [OF e(1)])
  with Cons.IH [OF e(3,4)] show ?case by (simp add: escape_tag_eq [OF e(2)])
qed simp

lemma esc_many_mset:
  "mset ts = mset us \<Longrightarrow> esc_many e ts s = esc_many e us s"
  by (induction s) (metis esc_many.simps(1), metis esc_many.simps(2) mset_filter size_mset)

lemma fold_unescape_eq:
  "escapable e ts \<Longrightarrow>
   fold (\<lambda>t s. unescape_one_token s t e) ts (esc_many e ts s) = s"
proof (induction ts)
  case (Cons t ts)
  then have "escapable e [t]" "escapable e ts" by (auto dest: escapable_Cons)
  with Cons unesc_esc_many [OF Cons.prems] show ?case by (simp add: unescape_one_token_eq)
qed simp

lemma fold_escape:
  assumes "escapable e ts"
  shows "fold (\<lambda>t s. escape_tag s t e) ts s = esc_many e ts s"
  using fold_escape_eq [OF assms, of "[]" s] assms esc_many_mset [of "rev ts" ts e s] by simp

lemma escape_turn_tags_eq:
  "escapable ESCAPE_CHAR (collect_base_turn_tokens mt) \<Longrightarrow>
   escape_turn_tags mt s = esc_many ESCAPE_CHAR (collect_base_turn_tokens mt) s"
  by (simp add: escape_turn_tags_def fold_escape)

lemma escapable_PARAM_END: "escapable ESCAPE_CHAR [PARAM_END]"
  by (simp add: escapable_def PARAM_END_def ESCAPE_CHAR_def)

lemma escape_parameter_tags_eq: "escape_parameter_tags s = esc_many ESCAPE_CHAR [PARAM_END] s"
  by (simp add: escape_parameter_tags_def escape_tag_eq escapable_PARAM_END)

subsection \<open>The contract of an escaping\<close>

text \<open>
  What the callers rely on: the escaped text holds none of the reserved tokens, and removing the
  escapes gives the text back. Two consequences every caller uses are proved once from the contract.
\<close>

locale escape_contract =
  fixes enc :: "string \<Rightarrow> string" and dec :: "string \<Rightarrow> string" and reserved :: "string list"
  assumes dec_enc: "dec (enc s) = s"
    and enc_clean: "t \<in> set reserved \<Longrightarrow> \<not> sublist t (enc s)"
begin

lemma enc_inj: "enc a = enc b \<longleftrightarrow> a = b"
  by (metis dec_enc)

lemma enc_find: "t \<in> set reserved \<Longrightarrow> first_at t (enc s) = None"
  using enc_clean by (simp add: first_at_None_sublist)

text \<open>A token that does not overlap itself, appended to escaped text, is found exactly there.\<close>

lemma enc_terminated:
  assumes "t \<in> set reserved" "t \<noteq> []" "hd t \<notin> set (tl t)"
  shows "str_find (pre @ enc s @ t @ post) t (length pre) = Some (length pre + length (enc s))"
  using str_find_append [OF assms(2,3) enc_find [OF assms(1)]] .

end

interpretation param_esc: escape_contract escape_parameter_tags unescape_parameter_tags "[PARAM_END]"
proof
  show "unescape_parameter_tags (escape_parameter_tags s) = s" for s
    using fold_unescape_eq [OF escapable_PARAM_END, of s]
    by (simp add: unescape_parameter_tags_def escape_parameter_tags_eq)
  show "t \<in> set [PARAM_END] \<Longrightarrow> \<not> sublist t (escape_parameter_tags s)" for t s
    using esc_many_no_raw [OF escapable_PARAM_END, of t s] by (simp add: escape_parameter_tags_eq)
qed

lemma turn_escape_contract:
  assumes "escapable ESCAPE_CHAR (collect_base_turn_tokens mt)"
  shows "escape_contract (escape_turn_tags mt) (unescape_turn_tags mt) (collect_base_turn_tokens mt)"
proof
  show "unescape_turn_tags mt (escape_turn_tags mt s) = s" for s
    using fold_unescape_eq [OF assms, of s]
    by (simp add: unescape_turn_tags_def escape_turn_tags_eq [OF assms])
  show "t \<in> set (collect_base_turn_tokens mt) \<Longrightarrow> \<not> sublist t (escape_turn_tags mt s)" for t s
    using esc_many_no_raw [OF assms, of t s] by (simp add: escape_turn_tags_eq [OF assms])
qed

lemma chatml_tokens: "collect_base_turn_tokens chatml = [''<|im_start|>'', ''<|im_end|>'']"
  by code_simp

interpretation chatml_esc: escape_contract "escape_turn_tags chatml" "unescape_turn_tags chatml"
  "collect_base_turn_tokens chatml"
  by (rule turn_escape_contract) (simp add: chatml_tokens escapable_def ESCAPE_CHAR_def)

subsection \<open>Properties\<close>

text \<open>C10: Unescaping is the inverse of escaping for the parameter terminator, the escaped text never
  contains a raw terminator, and so the first terminator a search finds after the escaped text is the
  one that was appended.\<close>

theorem param_escape_contract:
  "unescape_parameter_tags (escape_parameter_tags s) = s
   \<and> str_find (pre @ escape_parameter_tags s @ PARAM_END @ post) PARAM_END (length pre)
      = Some (length pre + length (escape_parameter_tags s))"
  using param_esc.dec_enc param_esc.enc_terminated [of PARAM_END pre s post]
  by (simp add: PARAM_END_def)

text \<open>C11: For every model whose turn tokens are escapable (each of two characters at least, none
  starting inside another), the passes of \<open>escape_turn_tags\<close> leave no turn token in the text, and the
  passes of \<open>unescape_turn_tags\<close>, in the same order, give the text back.\<close>

theorem turn_escape_roundtrip:
  assumes "escapable ESCAPE_CHAR (collect_base_turn_tokens mt)"
  shows "unescape_turn_tags mt (escape_turn_tags mt s) = s
    \<and> list_all (\<lambda>t. str_find (escape_turn_tags mt s) t 0 = None) (collect_base_turn_tokens mt)"
proof -
  note c = turn_escape_contract [OF assms]
  show ?thesis
    using escape_contract.dec_enc [OF c, of s] escape_contract.enc_find [OF c, of _ s]
    by (simp add: list_all_iff str_find_0)
qed

theorem turn_escape_roundtrip_witness:
  "unescape_turn_tags chatml (escape_turn_tags chatml ''a<|im_end|>b'') = ''a<|im_end|>b''
   \<and> list_all (\<lambda>t. str_find (escape_turn_tags chatml ''a<|im_end|>b'') t 0 = None)
      (collect_base_turn_tokens chatml)"
  by (rule turn_escape_roundtrip) (simp add: chatml_tokens escapable_def ESCAPE_CHAR_def)

end
