(* ===== verification/Lim_Parsers.thy ===== *)
theory Lim_Parsers
  imports Lim_Escape
begin

section \<open>Parameter extraction (parsers.cc)\<close>

text \<open>
  The extractors that tools.cc, tool_executor.cc and the streaming scanner share: the name of a
  \<open><parameter=name>\<close> tag, the canonical and bare forms of an opening tag, the value block up to the
  first raw \<open></parameter>\<close>, quote stripping, and the comma-separated array form.
\<close>

subsection \<open>The operations of the source\<close>

definition find_param_end :: "string \<Rightarrow> nat \<Rightarrow> nat option" where
  "find_param_end s from' = str_find s PARAM_END from'"

definition strip_quotes :: "string \<Rightarrow> string" where
  "strip_quotes s =
     (case (first_not_of s ws_chars, last_not_of s ws_chars) of
        (Some lo, Some hi) \<Rightarrow>
          (if hi < lo then []
           else let fc = s ! lo; lc = s ! hi in
             if fc = ch_dquote \<and> lc = ch_dquote \<or> fc = ch_squote \<and> lc = ch_squote
             then substr s (lo + 1) (usub (usub hi lo) 1)
             else s)
      | _ \<Rightarrow> [])"

definition trim_chars :: "string \<Rightarrow> string \<Rightarrow> string" where
  "trim_chars s chars =
     (case (first_not_of s chars, last_not_of s chars) of
        (Some lo, Some hi) \<Rightarrow> substr s lo (hi - lo + 1)
      | _ \<Rightarrow> [])"

definition strip_quotes_from_name :: "string \<Rightarrow> string" where
  "strip_quotes_from_name s =
     (let out = filter (\<lambda>c. c \<noteq> ch_dquote \<and> c \<noteq> ch_squote) s in
      case (first_not_of out ws_chars, last_not_of out ws_chars) of
        (Some lo, Some hi) \<Rightarrow> substr out lo (hi - lo + 1)
      | _ \<Rightarrow> [])"

text \<open>The name and the content begin; the latter keeps its value when there is no \<open>>\<close>.\<close>

definition extract_param_name :: "string \<Rightarrow> nat \<Rightarrow> nat \<Rightarrow> string \<times> nat" where
  "extract_param_name tool_call tag_pos cb =
     (let after_prefix = tag_pos + length PARAM_START in
      case str_find tool_call ''>'' after_prefix of
        None \<Rightarrow> ([], cb)
      | Some gt \<Rightarrow>
          (strip_quotes_from_name (substr tool_call after_prefix (gt - after_prefix)), gt + 1))"

function find_canonical :: "string \<Rightarrow> string \<Rightarrow> nat \<Rightarrow> nat option" where
  "find_canonical tool_call arg_name pos =
     (case str_find tool_call PARAM_START pos of
        None \<Rightarrow> None
      | Some p \<Rightarrow>
          (let (found_name, cb) = extract_param_name tool_call p 0 in
           if found_name = arg_name then Some cb else find_canonical tool_call arg_name (p + 1)))"
  by pat_completeness auto
termination
  by (relation "measure (\<lambda>(t, a, pos). length t + 1 - pos)") (auto dest!: str_find_boundsD)

declare find_canonical.simps [simp del]

definition bare_tag :: "string \<Rightarrow> string" where
  "bare_tag name = ''<'' @ name @ ''>''"

definition find_param_tag :: "string \<Rightarrow> string \<Rightarrow> nat option" where
  "find_param_tag tool_call arg_name =
     (case find_canonical tool_call arg_name 0 of
        Some cb \<Rightarrow> Some cb
      | None \<Rightarrow>
          (let bare_open = bare_tag arg_name in
           case str_find tool_call bare_open 0 of
             Some pos \<Rightarrow> Some (pos + length bare_open)
           | None \<Rightarrow> None))"

definition param_present :: "string \<Rightarrow> string \<Rightarrow> bool" where
  "param_present tool_call arg_name \<longleftrightarrow> find_param_tag tool_call arg_name \<noteq> None"

text \<open>The position of the earliest bare opening tag and its length (0 when there is none).\<close>

definition bare_open_step :: "string \<Rightarrow> nat \<Rightarrow> string \<Rightarrow> nat option \<times> nat \<Rightarrow> nat option \<times> nat" where
  "bare_open_step tx from' tag best =
     (case str_find tx tag from' of
        None \<Rightarrow> best
      | Some pos \<Rightarrow>
          (case fst best of
             None \<Rightarrow> (Some pos, length tag)
           | Some b \<Rightarrow> if pos < b then (Some pos, length tag) else best))"

definition find_bare_param_open :: "string \<Rightarrow> nat \<Rightarrow> nat option \<times> nat" where
  "find_bare_param_open tx from' =
     fold (bare_open_step tx from') (map bare_tag PARAM_NAMES) (None, 0)"

definition extract_param_block :: "string \<Rightarrow> string \<Rightarrow> string" where
  "extract_param_block tool_call arg_name =
     (case find_param_tag tool_call arg_name of
        None \<Rightarrow> []
      | Some content_begin \<Rightarrow>
          (let e = (case find_param_end tool_call content_begin of
                      None \<Rightarrow> length tool_call | Some e \<Rightarrow> e)
           in substr tool_call content_begin (e - content_begin)))"

definition extract_raw_arg_bounded :: "string \<Rightarrow> string \<Rightarrow> string" where
  "extract_raw_arg_bounded tool_call arg_name = extract_param_block tool_call arg_name"

definition extract_string_arg_bounded :: "string \<Rightarrow> string \<Rightarrow> string" where
  "extract_string_arg_bounded tool_call arg_name =
     strip_quotes (extract_param_block tool_call arg_name)"

definition extract_path_arg :: "string \<Rightarrow> string" where
  "extract_path_arg tool_call =
     trim_chars (extract_string_arg_bounded tool_call ''path'') ws_chars"

definition array_item :: "string \<Rightarrow> string option" where
  "array_item item =
     (case (first_not_of item ws_chars, last_not_of item ws_chars) of
        (Some lo, Some hi) \<Rightarrow> Some (strip_quotes (substr item lo (hi - lo + 1)))
      | _ \<Rightarrow> None)"

definition cut_bleed :: "string \<Rightarrow> string" where
  "cut_bleed val =
     (case str_find val ''</<'' 0 of Some bleed_pos \<Rightarrow> substr val 0 bleed_pos | None \<Rightarrow> val)"

definition cut_brackets :: "string \<Rightarrow> string" where
  "cut_brackets val =
     (case (str_find val ''['' 0, str_rfind val '']'') of
        (Some first_bracket, Some last_bracket) \<Rightarrow>
          (if last_bracket > first_bracket
           then substr val (first_bracket + 1) (last_bracket - first_bracket - 1) else val)
      | _ \<Rightarrow> val)"

definition extract_array_arg_bounded :: "string \<Rightarrow> string \<Rightarrow> string list" where
  "extract_array_arg_bounded tool_call arg_name =
     (let val = extract_param_block tool_call arg_name in
      if val = [] then []
      else List.map_filter array_item (getlines CHR '','' (cut_brackets (cut_bleed val))))"

subsection \<open>Trimming and quotes\<close>

lemma first_last_None: "first_not_of s cs = None \<longleftrightarrow> last_not_of s cs = None"
  by (simp add: first_not_of_None_iff last_not_of_None_iff)

lemma first_not_of_app:
  "set w \<subseteq> set cs \<Longrightarrow> c \<notin> set cs \<Longrightarrow> first_not_of (w @ c # v) cs = Some (length w)"
  by (auto simp: first_not_of_Some_iff)

lemma last_not_of_app:
  "set w \<subseteq> set cs \<Longrightarrow> c \<notin> set cs \<Longrightarrow> last_not_of (v @ c # w) cs = Some (length v)"
  by (auto simp: last_not_of_Some_iff)

lemma quotes_not_ws [simp]: "ch_dquote \<notin> set ws_chars" "ch_squote \<notin> set ws_chars"
  by (simp_all add: ws_chars_def)

definition quote_char :: "char \<Rightarrow> bool" where
  "quote_char c \<longleftrightarrow> c = ch_dquote \<or> c = ch_squote"

text \<open>A value no rule of \<open>strip_quotes\<close> applies to: it holds a character that is no white space, and
  the first such is no quote.\<close>

definition plain_value :: "string \<Rightarrow> bool" where
  "plain_value s \<longleftrightarrow>
     (case first_not_of s ws_chars of None \<Rightarrow> False | Some i \<Rightarrow> \<not> quote_char (s ! i))"

lemma first_le_last:
  assumes "first_not_of s cs = Some lo" "last_not_of s cs = Some hi"
  shows "lo \<le> hi"
proof (rule ccontr)
  assume "\<not> lo \<le> hi"
  with assms have "s ! lo \<in> set (drop (Suc hi) s)"
    by (auto simp: first_not_of_Some_iff in_set_conv_nth intro!: exI [of _ "lo - Suc hi"])
  with assms show False by (auto simp: first_not_of_Some_iff last_not_of_Some_iff)
qed

lemma strip_quotes_plain:
  assumes "plain_value s"
  shows "strip_quotes s = s"
proof -
  from assms obtain lo where lo: "first_not_of s ws_chars = Some lo" "\<not> quote_char (s ! lo)"
    by (auto simp: plain_value_def split: option.splits)
  then obtain hi where hi: "last_not_of s ws_chars = Some hi"
    by (metis first_last_None not_None_eq)
  have "lo \<le> hi" by (rule first_le_last [OF lo(1) hi])
  with lo hi show ?thesis by (auto simp: strip_quotes_def quote_char_def Let_def)
qed

lemma strip_quotes_blank: "set s \<subseteq> set ws_chars \<Longrightarrow> strip_quotes s = []"
  using first_not_of_None_iff [of s ws_chars] by (auto simp: strip_quotes_def)

lemma strip_quotes_quoted:
  assumes "set a \<subseteq> set ws_chars" "set b \<subseteq> set ws_chars" "quote_char q"
  shows "strip_quotes (a @ q # v @ q # b) = v"
proof -
  have "q \<notin> set ws_chars" using assms(3) by (auto simp: quote_char_def)
  then have "first_not_of (a @ q # v @ q # b) ws_chars = Some (length a)"
    "last_not_of ((a @ q # v) @ q # b) ws_chars = Some (length a + Suc (length v))"
    using assms by (simp_all add: first_not_of_app last_not_of_app del: append_assoc)
  then show ?thesis
    using assms(3)
    by (auto simp: strip_quotes_def Let_def substr_def usub_def nth_append quote_char_def)
qed

lemma strip_quotes_lone:
  assumes "set a \<subseteq> set ws_chars" "set b \<subseteq> set ws_chars" "quote_char q" "length b < 2 ^ 64"
  shows "strip_quotes (a @ q # b) = b"
proof -
  have "q \<notin> set ws_chars" using assms(3) by (auto simp: quote_char_def)
  then have "first_not_of (a @ q # b) ws_chars = Some (length a)"
    "last_not_of (a @ q # b) ws_chars = Some (length a)"
    using assms by (simp_all add: first_not_of_app last_not_of_app)
  then show ?thesis
    using assms(3,4) by (auto simp: strip_quotes_def Let_def substr_def usub_def quote_char_def)
qed

lemma trim_chars_app:
  assumes "set a \<subseteq> set cs" "set b \<subseteq> set cs" "v \<noteq> []" "hd v \<notin> set cs" "last v \<notin> set cs"
  shows "trim_chars (a @ v @ b) cs = v"
proof -
  have v: "v = hd v # tl v" "v = butlast v @ [last v]" using assms(3) by simp_all
  have "first_not_of (a @ v @ b) cs = Some (length a)"
    using assms first_not_of_app [of a cs "hd v" "tl v @ b"] v(1) by (metis append_Cons)
  moreover have "last_not_of (a @ v @ b) cs = Some (length a + length v - 1)"
  proof -
    have eq: "a @ v @ b = (a @ butlast v) @ last v # b" using v(2)
      by (metis append.assoc append_Cons append_Nil)
    have "last_not_of ((a @ butlast v) @ last v # b) cs = Some (length (a @ butlast v))"
      using assms by (intro last_not_of_app)
    then have "last_not_of (a @ v @ b) cs = Some (length (a @ butlast v))" by (simp only: eq)
    then show ?thesis using assms(3) by (cases v) auto
  qed
  ultimately show ?thesis
    using assms(3) by (cases v) (auto simp: trim_chars_def substr_def)
qed

lemma trim_chars_id:
  "v \<noteq> [] \<Longrightarrow> hd v \<notin> set cs \<Longrightarrow> last v \<notin> set cs \<Longrightarrow> trim_chars v cs = v"
  using trim_chars_app [of "[]" cs "[]" v] by simp

lemma strip_name_id:
  assumes "name \<noteq> []" "list_all (\<lambda>c. c \<notin> set ws_chars \<and> \<not> quote_char c) name"
  shows "strip_quotes_from_name name = name"
proof -
  have "filter (\<lambda>c. c \<noteq> ch_dquote \<and> c \<noteq> ch_squote) name = name"
    using assms(2) by (auto simp: filter_id_conv list_all_iff quote_char_def)
  moreover have "trim_chars name ws_chars = name"
    using assms by (intro trim_chars_id) (auto simp: list_all_iff)
  ultimately show ?thesis
    by (simp add: strip_quotes_from_name_def trim_chars_def Let_def cong: option.case_cong prod.case_cong)
qed

subsection \<open>Well-formed calls\<close>

text \<open>
  The rendering of a call in the canonical form the protocol prescribes, with the values escaped, and
  the condition on names (those of the protocol) and on values (no raw opening tag).
\<close>

definition good_name :: "string \<Rightarrow> bool" where
  "good_name n \<longleftrightarrow> n \<noteq> [] \<and>
     list_all (\<lambda>c. c \<notin> set ws_chars \<and> \<not> quote_char c \<and> c \<noteq> CHR ''<'' \<and> c \<noteq> CHR ''>'') n"

definition render_param :: "string \<times> string \<Rightarrow> string" where
  "render_param p =
     PARAM_START @ fst p @ ''>'' @ escape_parameter_tags (snd p) @ PARAM_END @ [ch_nl]"

definition render_call :: "string \<Rightarrow> (string \<times> string) list \<Rightarrow> string" where
  "render_call tool ps =
     FUNC_START @ tool @ ''>'' @ [ch_nl] @ concat (map render_param ps) @ FUNC_END"

definition good_params :: "(string \<times> string) list \<Rightarrow> bool" where
  "good_params ps \<longleftrightarrow> list_all (\<lambda>(n, v). good_name n \<and> str_find v PARAM_START 0 = None) ps"

abbreviation no_open :: "string \<Rightarrow> bool" where
  "no_open s \<equiv> first_at PARAM_START s = None"

lemma PARAM_START_hd: "PARAM_START = CHR ''<'' # tl PARAM_START" "CHR ''<'' \<notin> set (tl PARAM_START)"
  "hd PARAM_START = CHR ''<''" "PARAM_START \<noteq> []"
  by (simp_all add: PARAM_START_def)

lemma no_open_app:
  "no_open a \<Longrightarrow> no_open (CHR ''<'' # b) \<Longrightarrow> no_open (a @ CHR ''<'' # b)"
  using first_at_app_None [of PARAM_START a b] PARAM_START_hd by simp

lemma no_open_skip: "CHR ''<'' \<notin> set a \<Longrightarrow> no_open (a @ b) \<longleftrightarrow> no_open b"
  using first_at_skip [of PARAM_START a b] PARAM_START_hd by simp

lemma no_open_free: "CHR ''<'' \<notin> set a \<Longrightarrow> no_open a"
  using no_open_skip [of a "[]"] by (simp add: PARAM_START_def)

lemma no_open_escape: "no_open v \<Longrightarrow> no_open (escape_parameter_tags v)"
  using esc_many_no_new [of PARAM_START "CHR ''<''" "CHR ''p''" "''arameter=''" ESCAPE_CHAR
      "[PARAM_END]" v]
  by (simp add: first_at_None_sublist escape_parameter_tags_eq PARAM_START_def PARAM_END_def
      ESCAPE_CHAR_def)

lemma no_open_tail:
  assumes "good_name n" "no_open v"
  shows "no_open (tl (render_param (n, v)))"
proof -
  have lt: "CHR ''<'' \<notin> set (tl PARAM_START @ n @ ''>'')"
    using assms(1) PARAM_START_hd(2) by (auto simp: good_name_def list_all_iff)
  have "no_open (CHR ''<'' # ''/parameter>'' @ [ch_nl])" by code_simp
  then have "no_open (escape_parameter_tags v @ CHR ''<'' # ''/parameter>'' @ [ch_nl])"
    by (intro no_open_app no_open_escape assms(2))
  then have "no_open ((tl PARAM_START @ n @ ''>'') @ escape_parameter_tags v @ CHR ''<'' # ''/parameter>'' @ [ch_nl])"
    using no_open_skip [OF lt] by blast
  then show ?thesis by (simp add: render_param_def PARAM_START_def PARAM_END_def)
qed

lemma extract_name_at:
  assumes "good_name n"
  shows "extract_param_name (a @ PARAM_START @ n @ CHR ''>'' # r) (length a) cb
     = (n, length (a @ PARAM_START @ n @ ''>''))"
proof -
  have gt: "CHR ''>'' \<notin> set n" using assms by (auto simp: good_name_def list_all_iff)
  have "str_find ((a @ PARAM_START) @ n @ CHR ''>'' # r) ''>'' (length (a @ PARAM_START))
      = Some (length (a @ PARAM_START) + length n)"
    using str_find_append [of "''>''" n "a @ PARAM_START" r] gt by simp
  moreover have "strip_quotes_from_name n = n"
    using assms by (intro strip_name_id) (auto simp: good_name_def list_all_iff)
  ultimately show ?thesis by (simp add: extract_param_name_def substr_def Let_def)
qed

lemma find_canonical_params:
  assumes "good_params ps" "k \<le> length a" "no_open (drop k a)"
  shows "(case map_of ps n of
      None \<Rightarrow> find_canonical (a @ concat (map render_param ps) @ FUNC_END) n k = None
    | Some v \<Rightarrow> (\<exists>pre post. a @ concat (map render_param ps) @ FUNC_END
          = pre @ escape_parameter_tags v @ PARAM_END @ post
        \<and> find_canonical (a @ concat (map render_param ps) @ FUNC_END) n k = Some (length pre)))"
  using assms
proof (induction ps arbitrary: a k)
  case Nil
  have "no_open (CHR ''<'' # ''/function>'')" by code_simp
  then have "no_open (drop k a @ FUNC_END)"
    using no_open_app [OF Nil(3)] by (simp add: FUNC_END_def)
  with Nil(2) have "str_find (a @ FUNC_END) PARAM_START k = None" by (simp add: str_find_def)
  then show ?case by (simp add: find_canonical.simps [of "a @ FUNC_END"])
next
  case (Cons p ps)
  obtain m v where p: "p = (m, v)" by (cases p)
  have m: "good_name m" and v: "no_open v" and ps: "good_params ps"
    using Cons.prems(1) by (auto simp: p good_params_def str_find_0)
  let ?r = "escape_parameter_tags v @ PARAM_END @ [ch_nl] @ concat (map render_param ps) @ FUNC_END"
  let ?t = "a @ concat (map render_param (p # ps)) @ FUNC_END"
  have t: "?t = a @ PARAM_START @ m @ CHR ''>'' # ?r" by (simp add: p render_param_def)
  have "str_find (take k a @ drop k a @ PARAM_START @ m @ CHR ''>'' # ?r) PARAM_START (length (take k a))
      = Some (length (take k a) + length (drop k a))"
    using Cons.prems PARAM_START_hd by (intro str_find_append) simp_all
  moreover have "take k a @ drop k a @ x = a @ x" for x by (metis append.assoc append_take_drop_id)
  moreover have "length (take k a) = k" "length (take k a) + length (drop k a) = length a"
    using Cons.prems(2) by simp_all
  ultimately have f: "str_find ?t PARAM_START k = Some (length a)" unfolding t by metis
  have rp: "render_param p = PARAM_START @ m @ CHR ''>'' # escape_parameter_tags v @ PARAM_END @ [ch_nl]"
    by (simp add: p render_param_def)
  note step = find_canonical.simps [of ?t n k] f extract_name_at [OF m, of a ?r 0, folded t]
  show ?case
  proof (cases "m = n")
    case True
    have "?t = (a @ PARAM_START @ m @ ''>'') @ escape_parameter_tags v @ PARAM_END
        @ [ch_nl] @ concat (map render_param ps) @ FUNC_END" by (simp add: rp)
    moreover have "find_canonical ?t n k = Some (length (a @ PARAM_START @ m @ ''>''))"
      using True step by simp
    ultimately have "\<exists>pre post. ?t = pre @ escape_parameter_tags v @ PARAM_END @ post
        \<and> find_canonical ?t n k = Some (length pre)" by blast
    moreover have "map_of (p # ps) n = Some v" using True p by simp
    ultimately show ?thesis by (simp only: option.case)
  next
    case False
    let ?a = "a @ render_param p"
    have "drop (length a + 1) ?a = tl (render_param p)"
      by (cases "render_param p") simp_all
    then have "no_open (drop (length a + 1) ?a)" using no_open_tail [OF m v] p by simp
    moreover have "length a + 1 \<le> length ?a" by (simp add: p render_param_def)
    ultimately have "case map_of ps n of
        None \<Rightarrow> find_canonical (?a @ concat (map render_param ps) @ FUNC_END) n (length a + 1) = None
      | Some v \<Rightarrow> (\<exists>pre post. ?a @ concat (map render_param ps) @ FUNC_END
            = pre @ escape_parameter_tags v @ PARAM_END @ post
          \<and> find_canonical (?a @ concat (map render_param ps) @ FUNC_END) n (length a + 1)
            = Some (length pre))"
      by (intro Cons.IH ps)
    moreover have "?t = ?a @ concat (map render_param ps) @ FUNC_END" by simp
    moreover have "find_canonical ?t n k = find_canonical ?t n (length a + 1)"
      using False step by simp
    moreover have "map_of (p # ps) n = map_of ps n" using False p by simp
    ultimately show ?thesis by (simp only:)
  qed
qed

lemma find_canonical_call:
  assumes "good_params ps" "CHR ''<'' \<notin> set tool"
  shows "(case map_of ps n of
      None \<Rightarrow> find_canonical (render_call tool ps) n 0 = None
    | Some v \<Rightarrow> (\<exists>pre post. render_call tool ps = pre @ escape_parameter_tags v @ PARAM_END @ post
        \<and> find_canonical (render_call tool ps) n 0 = Some (length pre)))"
proof -
  let ?a = "FUNC_START @ tool @ ''>'' @ [ch_nl]"
  have "no_open (''function='' @ tool @ ''>'' @ [ch_nl])"
    using assms(2) by (intro no_open_free) simp
  then have "no_open ?a" by (simp add: FUNC_START_def PARAM_START_def)
  moreover have "render_call tool ps = ?a @ concat (map render_param ps) @ FUNC_END"
    by (simp add: render_call_def)
  ultimately show ?thesis
    using find_canonical_params [OF assms(1), of 0 ?a n] by (simp only: drop_0 le0)
qed

lemma extract_block_of_text:
  assumes "good_params ps" "no_open a" "map_of ps n = Some v"
  shows "extract_param_block (a @ concat (map render_param ps) @ FUNC_END) n = escape_parameter_tags v"
    and "param_present (a @ concat (map render_param ps) @ FUNC_END) n"
proof -
  let ?t = "a @ concat (map render_param ps) @ FUNC_END"
  obtain pre post where t: "?t = pre @ escape_parameter_tags v @ PARAM_END @ post"
    and c: "find_canonical ?t n 0 = Some (length pre)"
    using find_canonical_params [OF assms(1), of 0 a n] assms(2,3) by auto
  have "find_param_end ?t (length pre) = Some (length pre + length (escape_parameter_tags v))"
    using param_esc.enc_terminated [of PARAM_END pre v post]
    by (simp add: find_param_end_def t PARAM_END_def)
  then show "extract_param_block ?t n = escape_parameter_tags v"
    by (simp add: extract_param_block_def find_param_tag_def c [unfolded t] t substr_def)
  show "param_present ?t n" by (simp add: param_present_def find_param_tag_def c)
qed

lemma call_head_no_open:
  "CHR ''<'' \<notin> set tool \<Longrightarrow> set w \<subseteq> {ch_nl} \<Longrightarrow> no_open (FUNC_START @ tool @ ''>'' @ w)"
proof -
  assume "CHR ''<'' \<notin> set tool" "set w \<subseteq> {ch_nl}"
  then have "no_open (''function='' @ tool @ ''>'' @ w)" by (intro no_open_free) auto
  then show ?thesis by (simp add: FUNC_START_def PARAM_START_def)
qed

lemma render_call_text:
  "render_call tool ps = (FUNC_START @ tool @ ''>'' @ [ch_nl]) @ concat (map render_param ps) @ FUNC_END"
  by (simp add: render_call_def)

lemma extract_block_of_call:
  assumes "good_params ps" "CHR ''<'' \<notin> set tool" "map_of ps n = Some v"
  shows "extract_param_block (render_call tool ps) n = escape_parameter_tags v"
  unfolding render_call_text
  by (rule extract_block_of_text(1) [OF assms(1) call_head_no_open [OF assms(2)] assms(3)]) simp

lemma find_param_tag_none:
  "find_canonical s n 0 = None \<Longrightarrow> str_find s (bare_tag n) 0 = None \<Longrightarrow> find_param_tag s n = None"
  by (simp add: find_param_tag_def)

subsection \<open>Arrays\<close>

lemma getlines_app:
  "d \<notin> set w \<Longrightarrow> w \<noteq> [] \<Longrightarrow> getlines d w = [w]"
proof (induction w)
  case (Cons x w)
  then show ?case by (cases "w = []") auto
qed simp

lemma getlines_sep: "d \<notin> set w \<Longrightarrow> getlines d (w @ d # r) = w # getlines d r"
  by (induction w) auto

definition plain_item :: "string \<Rightarrow> bool" where
  "plain_item s \<longleftrightarrow> s \<noteq> [] \<and> hd s \<notin> set ws_chars \<and> last s \<notin> set ws_chars \<and> \<not> quote_char (hd s) \<and>
     list_all (\<lambda>c. c \<notin> {CHR '','', CHR ''['', CHR '']'', CHR ''<''}) s"

lemma plain_item_array_item:
  assumes "plain_item s" "set a \<subseteq> set ws_chars" "set b \<subseteq> set ws_chars"
  shows "array_item (a @ s @ b) = Some s"
proof -
  have s: "s \<noteq> []" "hd s \<notin> set ws_chars" "last s \<notin> set ws_chars" "\<not> quote_char (hd s)"
    using assms(1) by (auto simp: plain_item_def)
  have t: "trim_chars (a @ s @ b) ws_chars = s"
    by (rule trim_chars_app) (use s assms in auto)
  have "first_not_of s ws_chars = Some 0"
    using s first_not_of_app [of "[]" ws_chars "hd s" "tl s"] by simp
  then have "strip_quotes s = s"
    using s by (intro strip_quotes_plain) (simp add: plain_value_def hd_conv_nth)
  with t s(1) show ?thesis
    by (auto simp: array_item_def trim_chars_def split: option.splits)
qed

lemma getlines_join:
  assumes "list_all plain_item items" "items \<noteq> []"
  shows "List.map_filter array_item (getlines CHR '','' (concat (map (\<lambda>i. i @ '', '') (butlast items)) @ last items))
    = items
    \<and> List.map_filter array_item (getlines CHR '','' (CHR '' '' # concat (map (\<lambda>i. i @ '', '') (butlast items)) @ last items))
    = items"
  using assms
proof (induction items)
  case (Cons i js)
  have i: "plain_item i" "list_all plain_item js" using Cons.prems by simp_all
  then have c: "CHR '','' \<notin> set i" "CHR '','' \<notin> set (CHR '' '' # i)"
    by (auto simp: plain_item_def list_all_iff)
  have it: "array_item i = Some i" "array_item (CHR '' '' # i) = Some i"
    using plain_item_array_item [OF i(1), of "[]" "[]"] plain_item_array_item [OF i(1), of "'' ''" "[]"]
    by (simp_all add: ws_chars_def)
  show ?case
  proof (cases "js = []")
    case True
    moreover have "i \<noteq> []" using i(1) by (simp add: plain_item_def)
    ultimately show ?thesis using c it by (simp add: getlines_app map_filter_def)
  next
    case False
    let ?r = "CHR '' '' # concat (map (\<lambda>i. i @ '', '') (butlast js)) @ last js"
    have "getlines CHR '','' (i @ CHR '','' # ?r) = i # getlines CHR '','' ?r"
      "getlines CHR '','' ((CHR '' '' # i) @ CHR '','' # ?r) = (CHR '' '' # i) # getlines CHR '','' ?r"
      using c by (intro getlines_sep; simp)+
    then show ?thesis using False it Cons.IH [OF i(2) False] by (simp add: map_filter_simps)
  qed
qed simp

definition join_items :: "string list \<Rightarrow> string" where
  "join_items items =
     (if items = [] then [] else concat (map (\<lambda>i. i @ '', '') (butlast items)) @ last items)"

lemma join_items_chars:
  assumes "list_all plain_item items"
  shows "set (join_items items) \<inter> {CHR ''['', CHR '']'', CHR ''<''} = {}"
proof -
  have "set i \<inter> {CHR ''['', CHR '']'', CHR ''<''} = {}" if "i \<in> set items" for i
    using that assms by (auto simp: plain_item_def list_all_iff)
  then show ?thesis
    by (auto simp: join_items_def dest: in_set_butlastD)
qed

lemma extract_array_join:
  assumes "list_all plain_item items" "v \<in> {join_items items, ''['' @ join_items items @ '']''}"
  shows "List.map_filter array_item (getlines CHR '','' (cut_brackets (cut_bleed v))) = items"
proof -
  let ?j = "join_items items"
  have j: "set ?j \<inter> {CHR ''['', CHR '']'', CHR ''<''} = {}" by (rule join_items_chars [OF assms(1)])
  have lt: "CHR ''<'' \<notin> set v" using assms(2) j by auto
  have "first_at ''</<'' v = None" using first_at_skip [of "''</<''" v "[]"] lt by simp
  then have "cut_bleed v = v" by (simp add: cut_bleed_def str_find_0)
  moreover have "cut_brackets v = ?j"
  proof -
    have "str_find ?j ''['' 0 = None" using j by (simp add: str_find_single_None)
    then have 1: "cut_brackets ?j = ?j" by (simp add: cut_brackets_def)
    have "last_at '']'' (w @ '']'') = Some (length w)" for w by (induction w) simp_all
    from this [of "''['' @ ?j"] have 2: "cut_brackets (''['' @ ?j @ '']'') = ?j"
      by (simp add: cut_brackets_def str_find_0 str_rfind_def substr_def)
    from 1 2 assms(2) show ?thesis by auto
  qed
  moreover have "List.map_filter array_item (getlines CHR '','' ?j) = items"
    using getlines_join [OF assms(1)] by (simp add: join_items_def map_filter_def)
  ultimately show ?thesis by simp
qed

subsection \<open>Properties\<close>

lemma plain_value_escape:
  assumes "plain_value v"
  shows "plain_value (escape_parameter_tags v)"
proof -
  from assms obtain lo where lo: "first_not_of v ws_chars = Some lo" "\<not> quote_char (v ! lo)"
    by (auto simp: plain_value_def split: option.splits)
  then have v: "lo < length v" "v ! lo \<notin> set ws_chars" "set (take lo v) \<subseteq> set ws_chars"
    by (auto simp: first_not_of_Some_iff)
  then have e: "v = take lo v @ v ! lo # drop (Suc lo) v" by (simp add: id_take_nth_drop)
  have "CHR ''<'' \<notin> set (take lo v)" using v(3) by (auto simp: ws_chars_def)
  then have "escape_parameter_tags (take lo v @ v ! lo # drop (Suc lo) v)
      = take lo v @ esc_many ESCAPE_CHAR [PARAM_END] (v ! lo # drop (Suc lo) v)"
    unfolding escape_parameter_tags_eq by (intro esc_many_app_free) (simp add: PARAM_END_def)
  then obtain r where "escape_parameter_tags v = take lo v @ v ! lo # r"
    using e by simp
  with v lo(2) show ?thesis
    by (simp add: plain_value_def first_not_of_app nth_append)
qed

text \<open>C12: In every well-formed call (names of the protocol's shape, values without a raw opening tag,
  escaped when written) the extractors find each parameter, whatever the values and the other
  parameters hold, and unescaping what they return gives the value back: always for the raw
  extractor, and for the string extractor when the value is not blank and does not start with a
  quote.\<close>

theorem extract_call_roundtrip:
  assumes "good_params ps" "CHR ''<'' \<notin> set tool" "map_of ps n = Some v"
  shows "param_present (render_call tool ps) n
    \<and> unescape_parameter_tags (extract_raw_arg_bounded (render_call tool ps) n) = v
    \<and> (plain_value v \<longrightarrow>
        unescape_parameter_tags (extract_string_arg_bounded (render_call tool ps) n) = v)"
  using find_canonical_call [OF assms(1,2), of n] extract_block_of_call [OF assms] assms(3)
    strip_quotes_plain [OF plain_value_escape, of v] param_esc.dec_enc
  by (auto simp: param_present_def find_param_tag_def extract_raw_arg_bounded_def
      extract_string_arg_bounded_def)

theorem extract_call_roundtrip_witness:
  "param_present (render_call ''edit_file'' [(''old'', ''x''), (''new'', ''a</parameter>'')]) ''new''
    \<and> unescape_parameter_tags (extract_raw_arg_bounded
        (render_call ''edit_file'' [(''old'', ''x''), (''new'', ''a</parameter>'')]) ''new'')
        = ''a</parameter>''
    \<and> unescape_parameter_tags (extract_string_arg_bounded
        (render_call ''edit_file'' [(''old'', ''x''), (''new'', ''a</parameter>'')]) ''new'')
        = ''a</parameter>''"
proof -
  have "good_params [(''old'', ''x''), (''new'', ''a</parameter>'')]" "plain_value ''a</parameter>''"
    by code_simp+
  with extract_call_roundtrip [OF this(1), of "''edit_file''" "''new''" "''a</parameter>''"]
  show ?thesis by simp
qed

text \<open>Values around quotes. One pair of matching quotes with blanks around it is removed and
  nothing else; a value whose first non-blank character is no quote is returned unchanged; a blank
  value comes back empty; and a value whose only non-blank character is a quote loses it and everything
  before it (the length \<open>last - first - 1\<close> wraps around).\<close>

theorem strip_quotes_cases:
  assumes "set a \<subseteq> set ws_chars" "set b \<subseteq> set ws_chars" "quote_char q" "length b < 2 ^ 64"
  shows "strip_quotes (a @ [q] @ v @ [q] @ b) = v
    \<and> strip_quotes a = []
    \<and> strip_quotes (a @ [q] @ b) = b
    \<and> (plain_value w \<longrightarrow> strip_quotes w = w)"
  using strip_quotes_quoted [OF assms(1-3)] strip_quotes_blank [OF assms(1)]
    strip_quotes_lone [OF assms] strip_quotes_plain by simp

theorem strip_quotes_cases_witness:
  "strip_quotes ('' '' @ [ch_squote] @ ''main.cc'' @ [ch_squote] @ [ch_nl]) = ''main.cc''
    \<and> strip_quotes '' '' = []
    \<and> strip_quotes ('' '' @ [ch_squote] @ [ch_nl]) = [ch_nl]
    \<and> strip_quotes ''int main() {'' = ''int main() {''"
  using strip_quotes_cases [of "'' ''" "[ch_nl]" ch_squote "''main.cc''" "''int main() {''"]
  by (simp add: ws_chars_def quote_char_def plain_value_def first_not_of_def)

text \<open>The array form. A list of items without commas, brackets, tags, edge blanks or leading
  quotes, written with commas and with or without square brackets as the value of a parameter of a
  well-formed call, is read back item by item.\<close>

theorem extract_array_roundtrip:
  assumes "good_params ps" "CHR ''<'' \<notin> set tool" "map_of ps n = Some v"
    and "list_all plain_item items" "v = join_items items \<or> v = ''['' @ join_items items @ '']''"
  shows "extract_array_arg_bounded (render_call tool ps) n = items"
proof -
  have "CHR ''<'' \<notin> set v"
    using join_items_chars [OF assms(4)] assms(5) by auto
  then have "escape_parameter_tags v = v"
    using esc_many_app_free [of "[PARAM_END]" v ESCAPE_CHAR "[]"]
    by (simp add: escape_parameter_tags_eq PARAM_END_def)
  moreover have "v = [] \<Longrightarrow> items = []"
    using extract_array_join [OF assms(4), of v] assms(5)
    by (auto simp: cut_bleed_def cut_brackets_def map_filter_def str_find_0)
  ultimately show ?thesis
    using extract_block_of_call [OF assms(1-3)] extract_array_join [OF assms(4), of v] assms(5)
    by (auto simp: extract_array_arg_bounded_def)
qed

theorem extract_array_roundtrip_witness:
  "extract_array_arg_bounded (render_call ''read_files'' [(''paths'', ''[a.cc, b c.h]'')]) ''paths''
     = [''a.cc'', ''b c.h'']"
  by (rule extract_array_roundtrip [of _ _ _ "''[a.cc, b c.h]''"])
    (code_simp, simp, simp, code_simp, code_simp)

lemma bare_open_fold:
  "fold (bare_open_step s k) tags best = (p, l) \<Longrightarrow>
   (case p of
      None \<Rightarrow> fst best = None \<and> (\<forall>t\<in>set tags. str_find s t k = None) \<and> l = snd best
    | Some i \<Rightarrow> (best = (Some i, l) \<or> (\<exists>t\<in>set tags. str_find s t k = Some i \<and> l = length t))
        \<and> (\<forall>j. fst best = Some j \<longrightarrow> i \<le> j)
        \<and> (\<forall>t\<in>set tags. \<forall>j. str_find s t k = Some j \<longrightarrow> i \<le> j))"
proof (induction tags arbitrary: best)
  case Nil
  then show ?case by (cases p) auto
next
  case (Cons t tags)
  from Cons.IH [of "bare_open_step s k t best"] Cons.prems show ?case
    by (cases p; cases best; cases "str_find s t k"; cases "fst best")
      (auto simp: bare_open_step_def split: if_splits; fastforce)+
qed

text \<open>The bare form. The scan returns the earliest opening tag of any protocol parameter at or
  after the start, with the length of a tag that stands there, and nothing exactly when none of the
  tags occurs.\<close>

theorem find_bare_param_open_earliest:
  "case find_bare_param_open s k of
     (None, l) \<Rightarrow> l = 0 \<and> list_all (\<lambda>n. str_find s (bare_tag n) k = None) PARAM_NAMES
   | (Some i, l) \<Rightarrow>
       list_ex (\<lambda>n. str_find s (bare_tag n) k = Some i \<and> l = length (bare_tag n)) PARAM_NAMES
       \<and> list_all (\<lambda>n. case str_find s (bare_tag n) k of None \<Rightarrow> True | Some j \<Rightarrow> i \<le> j) PARAM_NAMES"
proof -
  obtain p l where f: "find_bare_param_open s k = (p, l)" by (cases "find_bare_param_open s k")
  from bare_open_fold [OF f [unfolded find_bare_param_open_def]] f show ?thesis
    by (cases p) (auto simp: list_all_iff list_ex_iff split: option.splits)
qed

end
