(* ===== verification/Lim_ToolEnd.thy ===== *)
theory Lim_ToolEnd
  imports Lim_Parsers
begin

section \<open>The end of a streamed tool call (token_generator.cc)\<close>

text \<open>
  \<open>find_tool_end_robust\<close> scans the text generated so far for the \<open></function>\<close> that closes the call:
  tags inside a parameter region do not count, nested openings do, and an incomplete closing tag is
  accepted as a last resort, for \<open>repair_malformed_tool_end\<close> to complete. \<open>detect_tool_end\<close> is the
  part of the generation loop that combines them.
\<close>

subsection \<open>The operations of the source\<close>

text \<open>The earliest event, as (type, position); the first type wins a tie.\<close>

fun earliest :: "nat \<Rightarrow> nat option list \<Rightarrow> (nat \<times> nat) option \<Rightarrow> (nat \<times> nat) option" where
  "earliest i [] best = best"
| "earliest i (ev # evs) best =
     earliest (i + 1) evs
       (case ev of
          None \<Rightarrow> best
        | Some p \<Rightarrow> (case best of None \<Rightarrow> Some (i, p)
                    | Some (t, q) \<Rightarrow> if p < q then Some (i, p) else best))"

definition tool_events :: "string \<Rightarrow> bool \<Rightarrow> nat \<Rightarrow> nat option list" where
  "tool_events tx in_parameter pos =
     [str_find tx FUNC_START pos,
      str_find tx FUNC_END pos,
      str_find tx PARAM_START pos,
      if in_parameter then str_find tx PARAM_END pos else None,
      if in_parameter then None else fst (find_bare_param_open tx pos)]"

definition event_len :: "string \<Rightarrow> nat \<Rightarrow> nat \<Rightarrow> nat" where
  "event_len tx pos t =
     (if t = 0 then length FUNC_START else if t = 1 then length FUNC_END
      else if t = 2 then length PARAM_START else if t = 3 then length PARAM_END
      else snd (find_bare_param_open tx pos))"

text \<open>The end found, or none with the position and the flag the scan stopped with.\<close>

type_synonym scan_result = "nat option \<times> nat \<times> bool"

lemma find_bare_bounds:
  assumes "find_bare_param_open s k = (Some i, l)"
  shows "k \<le> i \<and> 2 \<le> l \<and> i + l \<le> length s"
proof -
  from bare_open_fold [OF assms [unfolded find_bare_param_open_def]]
  obtain t where t: "t \<in> set (map bare_tag PARAM_NAMES)" "str_find s t k = Some i" "l = length t"
    by auto
  then have "2 \<le> l" by (auto simp: bare_tag_def)
  with str_find_bounds [OF t(2)] t(3) show ?thesis by simp
qed

lemma earliest_in:
  "earliest i evs best = Some (t, p) \<Longrightarrow>
   best = Some (t, p) \<or> (i \<le> t \<and> t < i + length evs \<and> evs ! (t - i) = Some p)"
proof (induction evs arbitrary: i best)
  case (Cons ev evs)
  from Cons.IH [OF Cons.prems [simplified]] show ?case
    by (auto simp: nth_Cons' split: option.splits if_splits)
qed simp

lemma tool_event_bounds:
  assumes "earliest 0 (tool_events tx inp pos) None = Some (t, p)"
  shows "pos \<le> p \<and> 0 < event_len tx pos t \<and> p + event_len tx pos t \<le> length tx"
proof -
  from earliest_in [OF assms] have t: "t < 5" "tool_events tx inp pos ! t = Some p"
    by (auto simp: tool_events_def)
  then consider "t = 0" | "t = 1" | "t = 2" | "t = 3" | "t = 4" by linarith
  then show ?thesis
  proof cases
    case 5
    then obtain l where "find_bare_param_open tx pos = (Some p, l)" "t = 4"
      using t(2) by (cases "find_bare_param_open tx pos") (auto simp: tool_events_def split: if_splits)
    with find_bare_bounds [of tx pos p l] show ?thesis by (simp add: event_len_def)
  qed (use t(2) in \<open>auto simp: tool_events_def event_len_def token_defs split: if_splits
      dest!: str_find_boundsD\<close>)
qed

function tool_end_main :: "string \<Rightarrow> int \<Rightarrow> bool \<Rightarrow> nat \<Rightarrow> scan_result" where
  "tool_end_main tx depth in_parameter pos =
     (if pos < length tx then
        (case earliest 0 (tool_events tx in_parameter pos) None of
           None \<Rightarrow> (None, pos, in_parameter)
         | Some (t, p) \<Rightarrow>
             (let next_pos = p + event_len tx pos t in
              if t = 2 then tool_end_main tx depth True next_pos
              else if t = 3 then tool_end_main tx depth False next_pos
              else if t = 4 then tool_end_main tx depth True next_pos
              else if in_parameter then tool_end_main tx depth in_parameter next_pos
              else if t = 0 then tool_end_main tx (depth + 1) in_parameter next_pos
              else if depth - 1 = 0 then (Some p, pos, in_parameter)
              else tool_end_main tx (depth - 1) in_parameter next_pos))
      else (None, pos, in_parameter))"
  by pat_completeness auto
termination
  by (relation "measure (\<lambda>(tx, d, inp, pos). length tx - pos)")
    (auto dest!: tool_event_bounds)

definition partial_end :: string where
  "partial_end = take (length FUNC_END - 1) FUNC_END"

text \<open>\<open>a\<close> is present and comes before \<open>b\<close>, where absence counts as the end.\<close>

definition before :: "nat option \<Rightarrow> nat option \<Rightarrow> bool" where
  "before a b \<longleftrightarrow> (case a of None \<Rightarrow> False | Some i \<Rightarrow> (case b of None \<Rightarrow> True | Some j \<Rightarrow> i < j))"

function tool_end_partial :: "string \<Rightarrow> bool \<Rightarrow> nat \<Rightarrow> nat option \<times> bool" where
  "tool_end_partial tx in_parameter pos =
     (if pos < length tx then
        (let ps = str_find tx PARAM_START pos;
             pe = (if in_parameter then str_find tx PARAM_END pos else None);
             pp = str_find tx partial_end pos;
             (pb, bare_len) =
               (if in_parameter then (None, 0) else find_bare_param_open tx pos)
         in if before ps pe \<and> before ps pp \<and> before ps pb
            then tool_end_partial tx True (the ps + length PARAM_START)
            else if before pe pp \<and> before pe pb
            then tool_end_partial tx False (the pe + length PARAM_END)
            else if before pb pp
            then tool_end_partial tx True (the pb + bare_len)
            else (case pp of
                    None \<Rightarrow> (None, in_parameter)
                  | Some p \<Rightarrow>
                      (if in_parameter
                       then tool_end_partial tx in_parameter (p + length partial_end)
                       else if p + length partial_end < length tx
                         \<and> tx ! (p + length partial_end) = CHR ''>''
                       then (Some p, in_parameter)
                       else (Some (p + length partial_end), in_parameter))))
      else (None, in_parameter))"
  by pat_completeness auto
termination
proof (relation "measure (\<lambda>(tx, inp, pos). length tx - pos)")
qed (auto simp: before_def partial_end_def token_defs split: option.splits if_splits
      dest!: str_find_boundsD find_bare_bounds str_find_boundsD [OF sym] find_bare_bounds [OF sym])

declare tool_end_main.simps [simp del] tool_end_partial.simps [simp del]

text \<open>\<open>from_pos\<close> is at most the length of the text (the text is compared there, which throws
  otherwise).\<close>

definition find_tool_end_robust :: "string \<Rightarrow> nat \<Rightarrow> nat option \<times> bool" where
  "find_tool_end_robust tx from_pos =
     (let pos = (if prefix FUNC_START (drop from_pos tx) then from_pos + length FUNC_START
                 else from_pos)
      in case tool_end_main tx 1 False pos of
           (Some e, _, in_parameter) \<Rightarrow> (Some e, in_parameter)
         | (None, pos', in_parameter) \<Rightarrow> tool_end_partial tx in_parameter pos')"

definition repair_malformed_tool_end :: "string \<Rightarrow> nat \<Rightarrow> string" where
  "repair_malformed_tool_end tx pos =
     (if pos \<ge> length tx then tx
      else if tx ! pos = CHR ''>'' then tx
      else (case str_find tx ''>'' pos of
              None \<Rightarrow> str_insert tx pos ''>''
            | Some garbage_end \<Rightarrow> str_replace tx pos (garbage_end + 1 - pos) ''>''))"

text \<open>The loop of \<open>TokenGenerator::generate\<close> at the point where a call has started: the text, the end
  and the parameter flag.\<close>

definition detect_tool_end :: "string \<Rightarrow> nat \<Rightarrow> string \<times> nat option \<times> bool" where
  "detect_tool_end tx search_from =
     (case find_tool_end_robust tx search_from of
        (None, inp) \<Rightarrow> (tx, None, inp)
      | (Some e, inp) \<Rightarrow>
          (case str_find tx FUNC_END search_from of
             Some _ \<Rightarrow> (tx, Some e, inp)
           | None \<Rightarrow>
               (let tx' = repair_malformed_tool_end tx e
                in (tx', str_find tx' FUNC_END search_from, inp))))"

text \<open>\<open>generated_text_.resize(tool_end + strlen(FUNC_END))\<close>: \<open>resize\<close> pads with NUL.\<close>

definition str_resize :: "string \<Rightarrow> nat \<Rightarrow> string" where
  "str_resize s n = take n s @ replicate (n - length s) (CHR 0x00)"

definition truncate_at_tool_end :: "string \<Rightarrow> nat \<Rightarrow> string" where
  "truncate_at_tool_end tx e = str_resize tx (e + length FUNC_END)"

subsection \<open>Picking the earliest event\<close>

lemma earliest_keep:
  "\<forall>ev\<in>set evs. \<forall>q. ev = Some q \<longrightarrow> p \<le> q \<Longrightarrow> earliest i evs (Some (t, p)) = Some (t, p)"
  by (induction evs arbitrary: i) (auto split: option.splits)

lemma earliest_pick:
  assumes "k < length evs" "evs ! k = Some p"
    and "\<And>j q. j < length evs \<Longrightarrow> j \<noteq> k \<Longrightarrow> evs ! j = Some q \<Longrightarrow> p < q"
    and "\<And>t q. best = Some (t, q) \<Longrightarrow> p < q"
  shows "earliest i evs best = Some (i + k, p)"
  using assms
proof (induction evs arbitrary: i k best)
  case (Cons ev evs)
  show ?case
  proof (cases k)
    case 0
    have "\<forall>ev\<in>set evs. \<forall>q. ev = Some q \<longrightarrow> p \<le> q"
      using Cons.prems(3) [of "Suc j" for j] 0 by (force simp: in_set_conv_nth)
    with Cons.prems(2,4) 0 show ?thesis
      by (cases best) (auto simp: earliest_keep split: prod.splits)
  next
    case (Suc k')
    have rec: "earliest (Suc i) evs best' = Some (Suc i + k', p)"
      if "\<And>t q. best' = Some (t, q) \<Longrightarrow> p < q" for best'
      using Cons.prems(1,2) Suc that by (intro Cons.IH) (auto intro: Cons.prems(3) [of "Suc j" for j])
    from Cons.prems(3) [of 0] Cons.prems(4) Suc show ?thesis
      by (cases ev; cases best) (auto intro!: rec [simplified] split: if_splits)
  qed
qed simp

lemma tool_events_pick:
  assumes "tool_events tx inp pos ! k = Some p" "k < 5"
    and "\<And>j q. j < 5 \<Longrightarrow> j \<noteq> k \<Longrightarrow> tool_events tx inp pos ! j = Some q \<Longrightarrow> p < q"
  shows "earliest 0 (tool_events tx inp pos) None = Some (k, p)"
proof -
  have "length (tool_events tx inp pos) = 5" by (simp add: tool_events_def)
  then have "earliest 0 (tool_events tx inp pos) None = Some (0 + k, p)"
    using assms by (intro earliest_pick) auto
  then show ?thesis by simp
qed

lemma earliest_le:
  "earliest i evs best = Some (t, p) \<Longrightarrow>
   (\<forall>q. Some q \<in> set evs \<longrightarrow> p \<le> q) \<and> (\<forall>u q. best = Some (u, q) \<longrightarrow> p \<le> q)"
proof (induction evs arbitrary: i best)
  case (Cons ev evs)
  from Cons.IH [OF Cons.prems [simplified]] show ?case
    by (auto split: option.splits prod.splits if_splits)
qed simp

text \<open>Tags start with \<open><\<close> and hold no other: the text up to the next \<open><\<close> has no event.\<close>

abbreviation lt :: char where "lt \<equiv> CHR ''<''"

definition is_tag :: "string \<Rightarrow> bool" where
  "is_tag t \<longleftrightarrow> t \<noteq> [] \<and> hd t = lt \<and> lt \<notin> set (tl t)"

lemma is_tag_tokens [simp]: "is_tag FUNC_START" "is_tag FUNC_END" "is_tag PARAM_START"
  "is_tag PARAM_END" "is_tag partial_end"
  by (simp_all add: is_tag_def token_defs partial_end_def)

lemma find_tag_hit:
  assumes "is_tag t" "lt \<notin> set w"
  shows "str_find (a @ w @ t @ r) t (length a) = Some (length a + length w)"
proof -
  from assms have "first_at t w = None"
    using first_at_skip [of t w "[]"] by (cases t) (auto simp: is_tag_def)
  with assms str_find_append [of t w a r] show ?thesis by (auto simp: is_tag_def)
qed

lemma find_tag_miss:
  assumes "is_tag t" "lt \<notin> set w" "\<not> prefix t (lt # r)"
    and "str_find (a @ w @ lt # r) t (length a) = Some j"
  shows "length a + length w < j"
proof (rule ccontr)
  assume "\<not> length a + length w < j"
  moreover from assms(4) have j: "length a \<le> j" "prefix t (drop j (a @ w @ lt # r))"
    by (auto simp: str_find_Some_iff)
  ultimately have "drop j (a @ w @ lt # r) = drop (j - length a) w @ lt # r" by simp
  with j(2) have p: "prefix t (drop (j - length a) w @ lt # r)" by simp
  show False
  proof (cases "drop (j - length a) w")
    case Nil
    with p assms(3) show ?thesis by simp
  next
    case (Cons c u)
    then have "c \<in> set w" by (metis in_set_dropD list.set_intros(1))
    with p Cons assms(1,2) show ?thesis by (cases t) (auto simp: is_tag_def)
  qed
qed

lemma is_tag_bare: "n \<in> set PARAM_NAMES \<Longrightarrow> is_tag (bare_tag n)"
  by (auto simp: is_tag_def bare_tag_def PARAM_NAMES_def)

lemma find_bare_miss:
  assumes "lt \<notin> set w" "list_all (\<lambda>n. \<not> prefix (bare_tag n) (lt # r)) PARAM_NAMES"
    and "fst (find_bare_param_open (a @ w @ lt # r) (length a)) = Some j"
  shows "length a + length w < j"
proof -
  obtain l where f: "find_bare_param_open (a @ w @ lt # r) (length a) = (Some j, l)"
    using assms(3) by (cases "find_bare_param_open (a @ w @ lt # r) (length a)") auto
  from bare_open_fold [OF f [unfolded find_bare_param_open_def]]
  obtain n where n: "n \<in> set PARAM_NAMES"
    "str_find (a @ w @ lt # r) (bare_tag n) (length a) = Some j" by auto
  with find_tag_miss [OF is_tag_bare assms(1)] assms(2) show ?thesis
    by (auto simp: list_all_iff)
qed

subsection \<open>Through a parameter\<close>

lemma tag_before:
  assumes "is_tag t" "prefix t (drop p s)" "p < e" "s ! e = lt" "e < length s"
  shows "p + length t \<le> e"
proof (rule ccontr)
  assume "\<not> p + length t \<le> e"
  with assms(3) have k: "e - p < length t" "0 < e - p" by auto
  from assms(2) obtain r where r: "drop p s = t @ r" by (auto simp: prefix_def)
  have "s ! e = drop p s ! (e - p)" using assms(3,5) by simp
  also have "\<dots> = t ! (e - p)" using r k(1) by (simp add: nth_append)
  also have "\<dots> = tl t ! (e - p - 1)" using k by (cases t) (auto simp: nth_Cons')
  finally have "tl t ! (e - p - 1) = lt" using assms(4) by simp
  moreover have "e - p - 1 < length (tl t)" using k by simp
  ultimately have "lt \<in> set (tl t)" by (metis nth_mem)
  with assms(1) show False by (simp add: is_tag_def)
qed

lemma str_find_later:
  "str_find s t pos = Some e \<Longrightarrow> pos \<le> pos' \<Longrightarrow> pos' \<le> e \<Longrightarrow> str_find s t pos' = Some e"
  by (auto simp: str_find_Some_iff)

lemma tool_end_main_param:
  assumes "str_find tx PARAM_END pos = Some e"
  shows "tool_end_main tx d True pos = tool_end_main tx d False (e + length PARAM_END)"
  using assms
proof (induction "e - pos" arbitrary: pos rule: less_induct)
  case less
  have b: "pos \<le> e" "e + length PARAM_END \<le> length tx" using str_find_bounds [OF less.prems] .
  have le: "length PARAM_END = 12" by (simp add: PARAM_END_def)
  have pe: "prefix PARAM_END (drop e tx)" using less.prems by (simp add: str_find_Some_iff)
  then have lt: "tx ! e = lt"
  proof -
    from pe obtain r where "drop e tx = PARAM_END @ r" by (auto simp: prefix_def)
    then have "drop e tx = lt # tl PARAM_END @ r" by (simp add: PARAM_END_def)
    then show ?thesis by (rule nth_via_drop)
  qed
  obtain t p where ev: "earliest 0 (tool_events tx True pos) None = Some (t, p)"
  proof -
    have "earliest 0 (tool_events tx True pos) None \<noteq> None"
      using less.prems by (auto simp: tool_events_def split: option.splits prod.splits)
    then show thesis using that by force
  qed
  from earliest_in [OF ev] have t: "t < 5" "tool_events tx True pos ! t = Some p"
    by (auto simp: tool_events_def)
  have "p \<le> e" using earliest_le [OF ev] less.prems by (auto simp: tool_events_def)
  have step: "tool_end_main tx d True pos = (let next_pos = p + event_len tx pos t in
      if t = 3 then tool_end_main tx d False next_pos else tool_end_main tx d True next_pos)"
    using ev b le by (simp add: tool_end_main.simps [of tx d True pos] Let_def)
  have skip: ?case if tag: "is_tag g" "str_find tx g pos = Some p" "event_len tx pos t = length g"
    "\<not> prefix g PARAM_END" "\<not> prefix PARAM_END g" "t \<noteq> 3" for g
  proof -
    have pg: "prefix g (drop p tx)" using tag(2) by (simp add: str_find_Some_iff)
    then have "p \<noteq> e" using pe tag(4,5) prefix_same_cases by metis
    then have "p + length g \<le> e" using tag_before [OF tag(1) pg _ lt] \<open>p \<le> e\<close> b le by simp
    moreover have "pos \<le> p" "0 < length g"
      using tag(1,2) str_find_bounds(1) by (auto simp: is_tag_def)
    moreover from calculation have "e - (p + length g) < e - pos" by linarith
    ultimately show ?thesis
      using step tag(3,6) less.hyps [of "p + length g"] str_find_later [OF less.prems, of "p + length g"]
      by simp
  qed
  from t(1) consider "t = 0" | "t = 1" | "t = 2" | "t = 3" | "t = 4" by linarith
  then show ?case
  proof cases
    case 1
    then show ?thesis
      using t(2) skip [of FUNC_START] by (simp add: tool_events_def event_len_def token_defs is_tag_def)
  next
    case 2
    then show ?thesis
      using t(2) skip [of FUNC_END] by (simp add: tool_events_def event_len_def token_defs is_tag_def)
  next
    case 3
    then show ?thesis
      using t(2) skip [of PARAM_START] by (simp add: tool_events_def event_len_def token_defs is_tag_def)
  next
    case 4
    then show ?thesis
      using t(2) less.prems step by (simp add: tool_events_def event_len_def)
  next
    case 5
    then show ?thesis using t(2) by (simp add: tool_events_def)
  qed
qed

subsection \<open>Through a whole call\<close>

lemma tool_end_main_close:
  assumes "lt \<notin> set w"
  shows "tool_end_main (a @ w @ FUNC_END @ r) 1 False (length a)
     = (Some (length a + length w), length a, False)"
proof -
  let ?s = "a @ w @ FUNC_END @ r"
  have fe: "FUNC_END @ r = lt # tl FUNC_END @ r" by (simp add: FUNC_END_def)
  note miss = find_tag_miss [OF _ assms, of _ "tl FUNC_END @ r" a, folded fe]
  have "earliest 0 (tool_events ?s False (length a)) None = Some (1, length a + length w)"
  proof (rule tool_events_pick)
    show "tool_events ?s False (length a) ! 1 = Some (length a + length w)"
      using find_tag_hit [OF _ assms, of FUNC_END a r] by (simp add: tool_events_def)
    fix j q :: nat
    assume j: "j < 5" "j \<noteq> 1" "tool_events ?s False (length a) ! j = Some q"
    then consider "j = 0" | "j = 2" | "j = 3" | "j = 4" by linarith
    then show "length a + length w < q"
    proof cases
      case 4
      then have "fst (find_bare_param_open ?s (length a)) = Some q"
        using j(3) by (simp add: tool_events_def)
      then show ?thesis
        using find_bare_miss [OF assms, of "tl FUNC_END @ r" a q, folded fe]
        by (simp add: PARAM_NAMES_def bare_tag_def FUNC_END_def)
    qed (use j(3) miss [OF is_tag_tokens(1), of q] miss [OF is_tag_tokens(3), of q] in
        \<open>simp_all add: tool_events_def token_defs\<close>)
  qed simp
  moreover have "length a < length ?s" by (simp add: FUNC_END_def)
  ultimately show ?thesis by (simp add: tool_end_main.simps [of ?s 1 False "length a"])
qed

lemma tool_end_main_open:
  assumes "lt \<notin> set w"
  shows "tool_end_main (a @ w @ PARAM_START @ r) d False (length a)
     = tool_end_main (a @ w @ PARAM_START @ r) d True (length (a @ w @ PARAM_START))"
proof -
  let ?s = "a @ w @ PARAM_START @ r"
  have ps: "PARAM_START @ r = lt # tl PARAM_START @ r" by (simp add: PARAM_START_def)
  note miss = find_tag_miss [OF _ assms, of _ "tl PARAM_START @ r" a, folded ps]
  have "earliest 0 (tool_events ?s False (length a)) None = Some (2, length a + length w)"
  proof (rule tool_events_pick)
    show "tool_events ?s False (length a) ! 2 = Some (length a + length w)"
      using find_tag_hit [OF _ assms, of PARAM_START a r] by (simp add: tool_events_def)
    fix j q :: nat
    assume j: "j < 5" "j \<noteq> 2" "tool_events ?s False (length a) ! j = Some q"
    then consider "j = 0" | "j = 1" | "j = 3" | "j = 4" by linarith
    then show "length a + length w < q"
    proof cases
      case 4
      then have "fst (find_bare_param_open ?s (length a)) = Some q"
        using j(3) by (simp add: tool_events_def)
      then show ?thesis
        using find_bare_miss [OF assms, of "tl PARAM_START @ r" a q, folded ps]
        by (simp add: PARAM_NAMES_def bare_tag_def PARAM_START_def)
    qed (use j(3) miss [OF is_tag_tokens(1), of q] miss [OF is_tag_tokens(2), of q] in
        \<open>simp_all add: tool_events_def token_defs\<close>)
  qed simp
  moreover have "length a < length ?s" by (simp add: PARAM_START_def)
  ultimately show ?thesis
    by (simp add: tool_end_main.simps [of ?s d False "length a"] event_len_def add.assoc)
qed

lemma tool_end_main_render:
  assumes "list_all (\<lambda>p. good_name (fst p)) ps" "lt \<notin> set w"
  shows "\<exists>k. tool_end_main (a @ w @ concat (map render_param ps) @ FUNC_END @ r) 1 False (length a)
     = (Some (length a + length w + length (concat (map render_param ps))), k, False)"
  using assms
proof (induction ps arbitrary: a w)
  case Nil
  then show ?case using tool_end_main_close [of w a r] by simp
next
  case (Cons p ps)
  obtain n v where p: "p = (n, v)" by (cases p)
  let ?rest = "concat (map render_param ps) @ FUNC_END @ r"
  let ?s = "a @ w @ concat (map render_param (p # ps)) @ FUNC_END @ r"
  let ?b = "a @ w @ PARAM_START" and ?u = "n @ ''>''"
  let ?c = "(?b @ ?u @ escape_parameter_tags v) @ PARAM_END"
  have rp: "render_param p = PARAM_START @ ?u @ escape_parameter_tags v @ PARAM_END @ [ch_nl]"
    by (simp add: p render_param_def)
  have s: "?s = a @ w @ PARAM_START @ ?u @ escape_parameter_tags v @ PARAM_END @ [ch_nl] @ ?rest"
    "?s = ?b @ (?u @ escape_parameter_tags v) @ PARAM_END @ [ch_nl] @ ?rest"
    "?s = ?c @ [ch_nl] @ ?rest"
    by (simp_all add: rp)
  have n: "lt \<notin> set ?u" using Cons.prems(1) by (auto simp: p good_name_def list_all_iff)
  have "first_at PARAM_END (escape_parameter_tags v) = None" by (rule param_esc.enc_find) simp
  then have "first_at PARAM_END (?u @ escape_parameter_tags v) = None"
    using first_at_skip [of PARAM_END ?u] n by (simp add: PARAM_END_def)
  then have "str_find ?s PARAM_END (length ?b) = Some (length ?b + length (?u @ escape_parameter_tags v))"
    unfolding s(2) by (intro str_find_append) (simp_all add: PARAM_END_def)
  from tool_end_main_param [OF this]
  have "tool_end_main ?s 1 True (length ?b) = tool_end_main ?s 1 False (length ?c)"
    by (simp add: add.assoc)
  moreover have "tool_end_main ?s 1 False (length a) = tool_end_main ?s 1 True (length ?b)"
    using tool_end_main_open [OF Cons.prems(2), of a _ 1] unfolding s(1) by simp
  moreover obtain k where "tool_end_main ?s 1 False (length ?c)
      = (Some (length ?c + length [ch_nl] + length (concat (map render_param ps))), k, False)"
    unfolding s(3) using Cons.IH [of "[ch_nl]" ?c] Cons.prems(1) by auto
  ultimately show ?case by (simp add: rp add.assoc)
qed

lemma find_tool_end_call:
  assumes "list_all (\<lambda>p. good_name (fst p)) ps" "lt \<notin> set tool"
  shows "find_tool_end_robust (pre @ render_call tool ps @ post) (length pre)
     = (Some (length pre + length (render_call tool ps) - length FUNC_END), False)"
proof -
  let ?w = "tool @ ''>'' @ [ch_nl]" and ?a = "pre @ FUNC_START"
  let ?s = "?a @ ?w @ concat (map render_param ps) @ FUNC_END @ post"
  have s: "pre @ render_call tool ps @ post = ?s" by (simp add: render_call_def)
  obtain k where "tool_end_main ?s 1 False (length ?a)
      = (Some (length ?a + length ?w + length (concat (map render_param ps))), k, False)"
    using tool_end_main_render [OF assms(1), of ?w ?a post] assms(2) by auto
  moreover have "prefix FUNC_START (drop (length pre) ?s)" by simp
  ultimately show ?thesis
    unfolding s by (simp add: find_tool_end_robust_def render_call_def)
qed

subsection \<open>Completing a malformed end\<close>

text \<open>An end that is no complete tag lies just after a partial one.\<close>

lemma tool_end_main_Some:
  "tool_end_main tx d inp pos = (Some e, k, b) \<Longrightarrow> pos \<le> e \<and> prefix FUNC_END (drop e tx)"
proof (induction tx d inp pos rule: tool_end_main.induct)
  case (1 tx d inp pos)
  show ?case
  proof (cases "pos < length tx")
    case True
    show ?thesis
    proof (cases "earliest 0 (tool_events tx inp pos) None")
      case None
      with True 1(7) show ?thesis by (simp add: tool_end_main.simps [of tx d inp pos])
    next
      case (Some a)
      obtain t p where a: "a = (t, p)" by (cases a)
      have b: "pos \<le> p + event_len tx pos t" using tool_event_bounds [of tx inp pos t p] Some a by simp
      have close: "prefix FUNC_END (drop p tx) \<and> pos \<le> p" if "t = 1"
        using earliest_in [OF Some [unfolded a]] that
        by (simp add: tool_events_def str_find_Some_iff)
      have t: "t < 5" using earliest_in [OF Some [unfolded a]] by (simp add: tool_events_def)
      note ih = 1(1-6) [OF True Some a [symmetric] refl]
      show ?thesis
        using 1(7) True Some a b close t ih
        by (subst (asm) tool_end_main.simps [of tx d inp pos])
          (auto simp: Let_def split: if_splits)
    qed
  qed (use 1(7) in \<open>simp add: tool_end_main.simps [of tx d inp pos]\<close>)
qed

lemma tool_end_main_None:
  "tool_end_main tx d inp pos = (None, k, b) \<Longrightarrow> pos \<le> k"
proof (induction tx d inp pos rule: tool_end_main.induct)
  case (1 tx d inp pos)
  show ?case
  proof (cases "pos < length tx")
    case True
    show ?thesis
    proof (cases "earliest 0 (tool_events tx inp pos) None")
      case None
      with True 1(7) show ?thesis by (simp add: tool_end_main.simps [of tx d inp pos])
    next
      case (Some a)
      obtain t p where a: "a = (t, p)" by (cases a)
      have b: "pos \<le> p + event_len tx pos t" using tool_event_bounds [of tx inp pos t p] Some a by simp
      note ih = 1(1-6) [OF True Some a [symmetric] refl]
      show ?thesis
        using 1(7) True Some a b ih
        by (subst (asm) tool_end_main.simps [of tx d inp pos])
          (auto simp: Let_def split: if_splits)
    qed
  qed (use 1(7) in \<open>simp add: tool_end_main.simps [of tx d inp pos]\<close>)
qed

text \<open>Either a complete tag, or the position after a partial one that no \<open>>\<close> follows.\<close>

definition closes_at :: "string \<Rightarrow> nat \<Rightarrow> nat \<Rightarrow> bool" where
  "closes_at tx from' e \<longleftrightarrow>
     from' \<le> e \<and> prefix FUNC_END (drop e tx)
     \<or> (length partial_end \<le> e \<and> from' \<le> e - length partial_end \<and> e \<le> length tx
        \<and> prefix partial_end (drop (e - length partial_end) tx)
        \<and> \<not> (e < length tx \<and> tx ! e = CHR ''>''))"

lemma FUNC_END_split: "FUNC_END = partial_end @ ''>''"
  by (simp add: partial_end_def FUNC_END_def)

lemma prefix_FUNC_END_iff:
  assumes "prefix partial_end (drop p tx)" "p \<le> length tx"
  shows "prefix FUNC_END (drop p tx) \<longleftrightarrow>
     p + length partial_end < length tx \<and> tx ! (p + length partial_end) = CHR ''>''"
proof -
  from assms(1) obtain r where r: "drop p tx = partial_end @ r" by (auto simp: prefix_def)
  then have d: "drop (p + length partial_end) tx = r"
    by (metis add.commute append_eq_conv_conj drop_drop)
  have "prefix FUNC_END (drop p tx) \<longleftrightarrow> (\<exists>r'. r = CHR ''>'' # r')"
    by (auto simp: r FUNC_END_split prefix_def)
  also have "\<dots> \<longleftrightarrow> p + length partial_end < length tx \<and> tx ! (p + length partial_end) = CHR ''>''"
    using d by (metis Cons_nth_drop_Suc drop_eq_Nil2 linorder_not_le list.distinct(1) list.inject)
  finally show ?thesis .
qed

lemma beforeD: "before a b \<Longrightarrow> \<exists>i. a = Some i"
  by (auto simp: before_def split: option.splits)

lemma tool_end_partial_Some:
  "tool_end_partial tx inp pos = (Some e, b) \<Longrightarrow> closes_at tx pos e"
proof (induction "length tx - pos" arbitrary: inp pos rule: less_induct)
  case less
  have pos: "pos < length tx"
    using less.prems by (auto simp: tool_end_partial.simps [of tx inp pos] split: if_splits)
  have rec: "closes_at tx pos e" if "tool_end_partial tx i k = (Some e, b)" "pos < k" for i k
  proof -
    have "length tx - k < length tx - pos" using that(2) pos by linarith
    from less.hyps [OF this that(1)] that(2) show ?thesis by (auto simp: closes_at_def)
  qed
  let ?ps = "str_find tx PARAM_START pos" and ?pp = "str_find tx partial_end pos"
  define pe where "pe = (if inp then str_find tx PARAM_END pos else None)"
  obtain pb bl where pb: "(if inp then (None, 0) else find_bare_param_open tx pos) = (pb, bl)"
    by fastforce
  have len: "0 < length PARAM_START" "0 < length PARAM_END" "0 < length partial_end"
    by (simp_all add: token_defs partial_end_def)
  have eq: "(if before ?ps pe \<and> before ?ps ?pp \<and> before ?ps pb
             then tool_end_partial tx True (the ?ps + length PARAM_START)
             else if before pe ?pp \<and> before pe pb
             then tool_end_partial tx False (the pe + length PARAM_END)
             else if before pb ?pp then tool_end_partial tx True (the pb + bl)
             else (case ?pp of None \<Rightarrow> (None, inp)
                | Some p \<Rightarrow> (if inp then tool_end_partial tx inp (p + length partial_end)
                    else if p + length partial_end < length tx
                      \<and> tx ! (p + length partial_end) = CHR ''>''
                    then (Some p, inp) else (Some (p + length partial_end), inp)))) = (Some e, b)"
    using less.prems [unfolded tool_end_partial.simps [of tx inp pos]] pos
    by (simp only: if_True Let_def pe_def pb prod.case)
  consider (ps) i where "?ps = Some i" "tool_end_partial tx True (i + length PARAM_START) = (Some e, b)"
    | (pe) i where "pe = Some i" "tool_end_partial tx False (i + length PARAM_END) = (Some e, b)"
    | (pb) i where "pb = Some i" "tool_end_partial tx True (i + bl) = (Some e, b)"
    | (pp) i where "?pp = Some i" "(if inp then tool_end_partial tx inp (i + length partial_end)
                    else if i + length partial_end < length tx
                      \<and> tx ! (i + length partial_end) = CHR ''>''
                    then (Some i, inp) else (Some (i + length partial_end), inp)) = (Some e, b)"
    using eq by (auto split: if_splits option.splits dest: beforeD)
  then show ?case
  proof cases
    case ps
    then show ?thesis using str_find_bounds(1) [OF ps(1)] len(1) rec [OF ps(2)] by linarith
  next
    case pe
    then have "pos \<le> i" by (auto simp: pe_def split: if_splits dest: str_find_bounds(1))
    with len(2) rec [OF pe(2)] show ?thesis by linarith
  next
    case (pb i)
    with \<open>(if inp then (None, 0) else find_bare_param_open tx pos) = (pb, bl)\<close>
    have "pos \<le> i \<and> 2 \<le> bl" by (auto split: if_splits dest: find_bare_bounds)
    with rec [OF pb(2)] show ?thesis by linarith
  next
    case pp
    then have i: "pos \<le> i" "prefix partial_end (drop i tx)" "i + length partial_end \<le> length tx"
      using str_find_bounds [OF pp(1)] by (simp_all add: str_find_Some_iff)
    show ?thesis
    proof (cases inp)
      case True
      with pp(2) have "tool_end_partial tx True (i + length partial_end) = (Some e, b)" by simp
      from rec [OF this] i(1) len(3) show ?thesis by linarith
    next
      case False
      have "i = (i + length partial_end) - length partial_end" by simp
      with False pp(2) i prefix_FUNC_END_iff [OF i(2)] show ?thesis
        by (cases "prefix FUNC_END (drop i tx)") (auto simp: closes_at_def)
    qed
  qed
qed

lemma find_tool_end_closes:
  assumes "find_tool_end_robust tx k = (Some e, b)"
  shows "closes_at tx k e"
proof -
  define k' where "k' = (if prefix FUNC_START (drop k tx) then k + length FUNC_START else k)"
  have mono: "closes_at tx j e \<Longrightarrow> k \<le> j \<Longrightarrow> closes_at tx k e" for j by (auto simp: closes_at_def)
  have k': "k \<le> k'" by (simp add: k'_def)
  obtain r j i where m: "tool_end_main tx 1 False k' = (r, j, i)" by (cases "tool_end_main tx 1 False k'")
  show ?thesis
  proof (cases r)
    case None
    with assms m have "tool_end_partial tx i j = (Some e, b)"
      by (simp add: find_tool_end_robust_def k'_def [symmetric])
    moreover have "k' \<le> j" using tool_end_main_None [of tx 1 False k' j i] m None by simp
    ultimately show ?thesis using tool_end_partial_Some [of tx i j e b] mono [of j] k' by simp
  next
    case (Some q)
    with assms m have "q = e" by (simp add: find_tool_end_robust_def k'_def [symmetric])
    with Some m have "k' \<le> e \<and> prefix FUNC_END (drop e tx)"
      using tool_end_main_Some [of tx 1 False k' e j i] by simp
    with k' show ?thesis by (simp add: closes_at_def)
  qed
qed

text \<open>The repair of a partial end makes it complete and touches nothing before it.\<close>

lemma repair_partial:
  assumes "closes_at tx k e" "str_find tx FUNC_END k = None"
  shows "str_find (repair_malformed_tool_end tx e) FUNC_END k = Some (e - length partial_end)
    \<and> take e (repair_malformed_tool_end tx e) = take e tx \<and> length partial_end \<le> e \<or> e = length tx"
proof (cases "e = length tx")
  case False
  have no: "\<not> (k \<le> j \<and> j \<le> length tx \<and> prefix FUNC_END (drop j tx))" for j
    using assms(2) by (auto simp: str_find_None_iff)
  have "\<not> (k \<le> e \<and> prefix FUNC_END (drop e tx))"
    using no [of e] by (cases "e \<le> length tx") (auto simp: FUNC_END_def)
  with assms(1) have c: "length partial_end \<le> e \<and> k \<le> e - length partial_end \<and> e \<le> length tx
     \<and> prefix partial_end (drop (e - length partial_end) tx) \<and> \<not> (e < length tx \<and> tx ! e = CHR ''>'')"
    unfolding closes_at_def by blast
  obtain p where p: "e = p + length partial_end" "k \<le> p" "e \<le> length tx"
    "prefix partial_end (drop p tx)" "\<not> (e < length tx \<and> tx ! e = CHR ''>'')"
    by (rule that [of "e - length partial_end"]) (use c in auto)
  then have e: "e < length tx" "tx ! e \<noteq> CHR ''>''" using False by auto
  obtain r where r: "repair_malformed_tool_end tx e = take e tx @ CHR ''>'' # r"
    using e by (cases "str_find tx ''>'' e")
      (auto simp: repair_malformed_tool_end_def str_insert_def str_replace_def)
  from p(4) obtain u where "drop p tx = partial_end @ u" by (auto simp: prefix_def)
  then have te: "take e tx = take p tx @ partial_end"
    using p(1,3) by (metis append_eq_conv_conj take_add)
  let ?s = "repair_malformed_tool_end tx e"
  have s: "?s = take p tx @ FUNC_END @ r" using r te by (simp add: FUNC_END_split)
  have lp: "length (take p tx) = p" using p(1,3) by simp
  have "str_find ?s FUNC_END k = Some p"
    unfolding str_find_Some_iff
  proof (intro conjI allI impI)
    show "k \<le> p" by (rule p(2))
    show "p \<le> length ?s" "prefix FUNC_END (drop p ?s)"
      unfolding s using lp by simp_all
    fix j assume j: "k \<le> j \<and> j < p"
    show "\<not> prefix FUNC_END (drop j ?s)"
    proof
      assume pre: "prefix FUNC_END (drop j ?s)"
      have "FUNC_END @ r = hd FUNC_END # tl FUNC_END @ r" by (simp add: FUNC_END_def)
      with pre have "prefix FUNC_END (drop j (take p tx @ hd FUNC_END # tl FUNC_END @ r))"
        by (simp only: s)
      then have "prefix FUNC_END (drop j (take p tx))"
      proof (rule prefix_drop_straddle [rotated 2])
        show "FUNC_END \<noteq> []" "hd FUNC_END \<notin> set (tl FUNC_END)" by (simp_all add: FUNC_END_def)
        show "j < length (take p tx)" using j lp by simp
      qed
      then have "prefix FUNC_END (drop j tx)"
        unfolding drop_take using take_is_prefix [of "p - j" "drop j tx"]
        by (rule prefix_order.trans)
      moreover have "k \<le> j \<and> j \<le> length tx" using j p(1,3) by linarith
      ultimately show False using no [of j] by blast
    qed
  qed
  moreover have "take e ?s = take e tx" unfolding r using p(3) by simp
  ultimately show ?thesis using p(1) by simp
qed simp

subsection \<open>Properties\<close>

text \<open>C13: The end of a well-formed call. Whatever the parameter values hold (closing and opening tags
  of the protocol included, their terminators escaped), whatever precedes and follows the call, the
  scan returns the closing tag of the call itself and stops outside the parameters, and the loop cuts
  the text exactly after it.\<close>

theorem tool_end_of_call:
  assumes "list_all (\<lambda>p. good_name (fst p)) ps" "CHR ''<'' \<notin> set tool"
  shows "find_tool_end_robust (pre @ render_call tool ps @ post) (length pre)
      = (Some (length pre + length (render_call tool ps) - length FUNC_END), False)
    \<and> truncate_at_tool_end (pre @ render_call tool ps @ post)
        (length pre + length (render_call tool ps) - length FUNC_END) = pre @ render_call tool ps"
proof -
  have "length FUNC_END \<le> length (render_call tool ps)" by (simp add: render_call_def)
  then show ?thesis
    using find_tool_end_call [OF assms]
    by (simp add: truncate_at_tool_end_def str_resize_def)
qed

theorem tool_end_of_call_witness:
  "find_tool_end_robust (''Ok. '' @ render_call ''write_file''
        [(''path'', ''x''), (''content'', ''a</function><function=</parameter>'')] @ ''junk'') (length ''Ok. '')
      = (Some (length ''Ok. '' + length (render_call ''write_file''
        [(''path'', ''x''), (''content'', ''a</function><function=</parameter>'')]) - length FUNC_END), False)
    \<and> truncate_at_tool_end (''Ok. '' @ render_call ''write_file''
        [(''path'', ''x''), (''content'', ''a</function><function=</parameter>'')] @ ''junk'')
        (length ''Ok. '' + length (render_call ''write_file''
        [(''path'', ''x''), (''content'', ''a</function><function=</parameter>'')]) - length FUNC_END)
      = ''Ok. '' @ render_call ''write_file''
        [(''path'', ''x''), (''content'', ''a</function><function=</parameter>'')]"
  by (rule tool_end_of_call) (code_simp, simp)

text \<open>Completing a malformed end. When the text holds no complete closing tag but the scan accepts
  a partial one, the loop either waits (the partial tag is at the very end of the text) or completes
  the tag in place: nothing before the end of the partial tag changes, and the text it cuts ends with a
  complete closing tag.\<close>

theorem detect_tool_end_repairs:
  assumes "find_tool_end_robust tx k = (Some e, b)" "str_find tx FUNC_END k = None"
  shows "case detect_tool_end tx k of
      (tx', None, _) \<Rightarrow> tx' = tx \<and> e = length tx
    | (tx', Some p, _) \<Rightarrow> e = p + length partial_end \<and> take e tx' = take e tx
        \<and> truncate_at_tool_end tx' p = take p tx @ FUNC_END"
proof -
  let ?s = "repair_malformed_tool_end tx e"
  have d: "detect_tool_end tx k = (?s, str_find ?s FUNC_END k, b)"
    using assms by (simp add: detect_tool_end_def Let_def)
  note c = find_tool_end_closes [OF assms(1)]
  show ?thesis
  proof (cases "e = length tx")
    case True
    then have "?s = tx" by (simp add: repair_malformed_tool_end_def)
    with True d assms(2) show ?thesis by simp
  next
    case False
    with repair_partial [OF c assms(2)]
    have r: "str_find ?s FUNC_END k = Some (e - length partial_end)" "take e ?s = take e tx"
      "length partial_end \<le> e" by auto
    let ?p = "e - length partial_end"
    have occ: "?s = take ?p ?s @ FUNC_END @ drop (?p + length FUNC_END) ?s"
      by (rule str_find_occurs [OF r(1)])
    have "take ?p ?s = take ?p tx" using r(2,3) by (metis diff_le_self min_absorb1 take_take)
    moreover have "?p + length FUNC_END \<le> length ?s" using str_find_bounds(2) [OF r(1)] .
    ultimately have "truncate_at_tool_end ?s ?p = take ?p tx @ FUNC_END"
      using occ by (metis (no_types, lifting) append.assoc append_eq_conv_conj append_Nil2
          diff_is_0_eq length_append length_take min_absorb2 replicate_0 str_resize_def
          truncate_at_tool_end_def le_add_diff_inverse le_add1 add_leD1)
    with r d show ?thesis by simp
  qed
qed

text \<open>A concrete use of the completion: the model wrote a space instead of the last character.\<close>

theorem detect_tool_end_repairs_witness:
  "case detect_tool_end ''<function=f></function x>'' 0 of
      (tx', None, _) \<Rightarrow> tx' = ''<function=f></function x>'' \<and> 22 = length ''<function=f></function x>''
    | (tx', Some p, _) \<Rightarrow> 22 = p + length partial_end
        \<and> take 22 tx' = take 22 ''<function=f></function x>''
        \<and> truncate_at_tool_end tx' p = take p ''<function=f></function x>'' @ FUNC_END"
  by (rule detect_tool_end_repairs [where b = False]) code_simp+

text \<open>
  The hypothesis that no complete closing tag occurs is needed. When a value holds one, the search that
  decides on the repair finds it there: a partial closing tag is then taken as the end without repair,
  and \<open>resize\<close> fills the text up with NUL characters.
\<close>

definition nul_example :: string where
  "nul_example = ''<function=w><parameter=text>x</function>y</parameter></function''"

lemma truncate_pads_nul:
  "detect_tool_end nul_example 0 = (nul_example, Some (length nul_example), False)
   \<and> truncate_at_tool_end nul_example (length nul_example)
      = nul_example @ replicate (length FUNC_END) (CHR 0x00)"
  by code_simp

end
