(* ===== verification/Lim_Numbers.thy ===== *)
theory Lim_Numbers
  imports Lim_Prelude
begin

section \<open>Numbers: the conversions of the C++ library\<close>

text \<open>
  \<open>to_string\<close>, \<open>strtol\<close>, \<open>atoi\<close>, \<open>stoi\<close>, \<open>stoull\<close> in base ten on 64-bit \<open>long\<close> and 32-bit \<open>int\<close>, as
  the sources use them, with the exceptions the latter two throw.
\<close>

definition is_digit :: "char \<Rightarrow> bool" where
  "is_digit c \<longleftrightarrow> 48 \<le> (of_char c :: nat) \<and> (of_char c :: nat) \<le> 57"

definition digit_val :: "char \<Rightarrow> nat" where
  "digit_val c = of_char c - 48"

definition digit_char :: "nat \<Rightarrow> char" where
  "digit_char d = char_of (48 + d)"

fun nat_string :: "nat \<Rightarrow> string" where
  "nat_string n = (if n < 10 then [digit_char n] else nat_string (n div 10) @ [digit_char (n mod 10)])"

declare nat_string.simps [simp del]

definition int_string :: "int \<Rightarrow> string" where
  "int_string i = (if i < 0 then CHR ''-'' # nat_string (nat (- i)) else nat_string (nat i))"

definition digits_val :: "string \<Rightarrow> nat" where
  "digits_val s = foldl (\<lambda>a c. 10 * a + digit_val c) 0 s"

text \<open>Blanks, an optional sign, digits: the sign, the digits, and the position after them; no digits is
  no conversion.\<close>

definition scan_number :: "string \<Rightarrow> (bool \<times> string \<times> nat) option" where
  "scan_number s =
     (let b = length (takeWhile is_space s);
          s1 = drop b s;
          sgn = (case s1 of [] \<Rightarrow> 0 | c # _ \<Rightarrow> if c = CHR ''-'' \<or> c = CHR ''+'' then 1 else 0);
          neg = (sgn = 1 \<and> hd s1 = CHR ''-'');
          ds = takeWhile is_digit (drop sgn s1)
      in if ds = [] then None else Some (neg, ds, b + sgn + length ds))"

definition LONG_MAX :: int where "LONG_MAX = 2 ^ 63 - 1"

definition clamp_long :: "int \<Rightarrow> int" where
  "clamp_long i = (if i > LONG_MAX then LONG_MAX else if i < - (2 ^ 63) then - (2 ^ 63) else i)"

definition signed_val :: "bool \<Rightarrow> string \<Rightarrow> int" where
  "signed_val neg ds = (if neg then - int (digits_val ds) else int (digits_val ds))"

text \<open>The value and the end pointer.\<close>

definition strtol10 :: "string \<Rightarrow> int \<times> nat" where
  "strtol10 s = (case scan_number s of None \<Rightarrow> (0, 0)
     | Some (neg, ds, e) \<Rightarrow> (clamp_long (signed_val neg ds), e))"

text \<open>\<open>static_cast<int>\<close> of a \<open>long\<close>: modulo \<open>2 ^ 32\<close> into the signed range.\<close>

definition to_int32 :: "int \<Rightarrow> int" where
  "to_int32 i = (i + 2 ^ 31) mod 2 ^ 32 - 2 ^ 31"

definition atoi :: "string \<Rightarrow> int" where
  "atoi s = to_int32 (fst (strtol10 s))"

definition stoi :: "string \<Rightarrow> int res" where
  "stoi s = (case scan_number s of None \<Rightarrow> Inl Invalid_Argument
     | Some (neg, ds, e) \<Rightarrow>
         (let i = signed_val neg ds in
          if i < - (2 ^ 31) \<or> i > 2 ^ 31 - 1 then Inl Out_Of_Range else Inr i))"

text \<open>\<open>stoull\<close> negates modulo \<open>2 ^ 64\<close>.\<close>

definition stoull :: "string \<Rightarrow> nat res" where
  "stoull s = (case scan_number s of None \<Rightarrow> Inl Invalid_Argument
     | Some (neg, ds, e) \<Rightarrow>
         (let n = digits_val ds in
          if n \<ge> 2 ^ 64 then Inl Out_Of_Range
          else Inr (if neg \<and> n > 0 then 2 ^ 64 - n else n)))"

subsection \<open>Reading back what was written\<close>

lemma digit_char_ok: "d < 10 \<Longrightarrow> is_digit (digit_char d) \<and> digit_val (digit_char d) = d"
  by (simp add: digit_char_def is_digit_def digit_val_def)

lemma nat_string_digits: "list_all is_digit (nat_string n)"
  by (induction n rule: nat_string.induct)
    (subst nat_string.simps, auto simp: digit_char_ok)

lemma nat_string_ne [simp]: "nat_string n \<noteq> []"
  by (subst nat_string.simps) simp

lemma nat_string_small: "n < 10 \<Longrightarrow> nat_string n = [digit_char n]"
  by (subst nat_string.simps) simp

lemma digit_char_simps [simp]:
  "digit_char 0 = CHR ''0''" "digit_char (Suc 0) = CHR ''1''" "digit_char 1 = CHR ''1''"
  "digit_char 2 = CHR ''2''" "digit_char 3 = CHR ''3''" "digit_char 4 = CHR ''4''"
  "digit_char 5 = CHR ''5''" "digit_char 6 = CHR ''6''" "digit_char 7 = CHR ''7''"
  "digit_char 8 = CHR ''8''" "digit_char 9 = CHR ''9''"
  by code_simp+

lemma digits_val_snoc: "digits_val (s @ [c]) = 10 * digits_val s + digit_val c"
  by (simp add: digits_val_def)

lemma digits_val_nat_string [simp]: "digits_val (nat_string n) = n"
proof (induction n rule: nat_string.induct)
  case (1 n)
  show ?case
  proof (cases "n < 10")
    case True
    then show ?thesis
      by (subst nat_string.simps) (simp add: digits_val_def digit_char_ok)
  next
    case False
    with 1 show ?thesis
      by (subst nat_string.simps) (simp add: digits_val_snoc digit_char_ok)
  qed
qed

lemma not_digit_space: "is_digit c \<Longrightarrow> \<not> is_space c \<and> c \<noteq> CHR ''-'' \<and> c \<noteq> CHR ''+''"
  by (auto simp: is_digit_def is_space_def)

lemma scan_nat_string:
  assumes "r = [] \<or> \<not> is_digit (hd r)"
  shows "scan_number (nat_string n @ r) = Some (False, nat_string n, length (nat_string n))"
proof -
  obtain c cs where c: "nat_string n = c # cs" by (cases "nat_string n") auto
  have d: "list_all is_digit (nat_string n)" by (rule nat_string_digits)
  with c have "is_digit c" by simp
  then have ns: "\<not> is_space c" "c \<noteq> CHR ''-''" "c \<noteq> CHR ''+''" using not_digit_space by auto
  have "takeWhile is_digit (nat_string n @ r) = nat_string n"
    using d assms by (cases r) (auto simp: takeWhile_append list_all_iff)
  with ns c show ?thesis by (simp add: scan_number_def Let_def)
qed

lemma stoull_nat_string:
  "r = [] \<or> \<not> is_digit (hd r) \<Longrightarrow> n < 2 ^ 64 \<Longrightarrow> stoull (nat_string n @ r) = Inr n"
  by (simp add: stoull_def scan_nat_string)

lemma stoi_nat_string:
  "r = [] \<or> \<not> is_digit (hd r) \<Longrightarrow> n < 2 ^ 31 \<Longrightarrow> stoi (nat_string n @ r) = Inr (int n)"
  by (simp add: stoi_def scan_nat_string signed_val_def)

lemma stoi_int_string:
  assumes "r = [] \<or> \<not> is_digit (hd r)" "- (2 ^ 31) \<le> i" "i < 2 ^ 31"
  shows "stoi (int_string i @ r) = Inr i"
proof (cases "i < 0")
  case False
  with assms show ?thesis using stoi_nat_string [OF assms(1), of "nat i"]
    by (simp add: int_string_def)
next
  case True
  have "takeWhile is_digit (nat_string (nat (- i)) @ r) = nat_string (nat (- i))"
    using nat_string_digits [of "nat (- i)"] assms(1)
    by (cases r) (auto simp: takeWhile_append list_all_iff)
  then have "scan_number (int_string i @ r)
      = Some (True, nat_string (nat (- i)), Suc (length (nat_string (nat (- i)))))"
    using True by (simp add: scan_number_def int_string_def is_space_def Let_def)
  with True assms show ?thesis by (simp add: stoi_def signed_val_def)
qed

lemma clamp_long_id: "- (2 ^ 63) \<le> i \<Longrightarrow> i \<le> LONG_MAX \<Longrightarrow> clamp_long i = i"
  by (simp add: clamp_long_def)

lemma to_int32_id: "- (2 ^ 31) \<le> i \<Longrightarrow> i < 2 ^ 31 \<Longrightarrow> to_int32 i = i"
  by (simp add: to_int32_def)

lemma to_int32_range: "- (2 ^ 31) \<le> to_int32 i \<and> to_int32 i < 2 ^ 31"
  by (simp add: to_int32_def)

lemma strtol_nat_string:
  "r = [] \<or> \<not> is_digit (hd r) \<Longrightarrow> int n \<le> LONG_MAX \<Longrightarrow>
   strtol10 (nat_string n @ r) = (int n, length (nat_string n))"
  by (simp add: strtol10_def scan_nat_string signed_val_def clamp_long_def LONG_MAX_def)

end
