(* ===== verification/Lim_Text.thy ===== *)
theory Lim_Text
  imports Lim_Escape Lim_Numbers
begin

section \<open>Text for the browser, the terminal and the logs\<close>

text \<open>
  \<open>session_utils.cc\<close> (\<open>html_escape\<close>, \<open>html_escape_for_browser\<close>, \<open>strip_tags\<close>,
  \<open>strip_checkpoints_flag\<close>), \<open>output.cc\<close> (the output mode, the sentinel escaping, the segments of the
  stream and the bounded writer of the pipe) and \<open>escape_token_piece\<close> of \<open>token_generator.cc\<close>.
\<close>

subsection \<open>Escaping by character\<close>

definition html_char :: "char \<Rightarrow> string" where
  "html_char c =
     (if c = CHR ''&'' then ''&amp;''
      else if c = CHR ''<'' then ''&lt;''
      else if c = CHR ''>'' then ''&gt;''
      else if c = ch_dquote then ''&quot;''
      else [c])"

definition html_escape :: "string \<Rightarrow> string" where
  "html_escape s = concat (map html_char s)"

text \<open>The loops \<open>while ((pos = s.find(c, pos)) != npos) { s.replace(pos, 1, rep); pos += rep.size(); }\<close>\<close>

function replace_loop :: "char \<Rightarrow> string \<Rightarrow> string \<Rightarrow> nat \<Rightarrow> string" where
  "replace_loop c rep s pos =
     (case str_find s [c] pos of
        None \<Rightarrow> s
      | Some p \<Rightarrow> replace_loop c rep (str_replace s p 1 rep) (p + length rep))"
  by pat_completeness auto
termination
  by (relation "measure (\<lambda>(c, rep, s, pos). length s - pos)")
    (auto simp: str_replace_def dest!: str_find_boundsD)

declare replace_loop.simps [simp del]

definition html_escape_for_browser :: "string \<Rightarrow> string" where
  "html_escape_for_browser s = replace_loop ch_nl ''<br>'' (html_escape s) 0"

definition escape_token_piece :: "string \<Rightarrow> string" where
  "escape_token_piece s = concat (map (\<lambda>c.
     if c = ch_nl then [ch_bslash, CHR ''n'']
     else if c = ch_cr then [ch_bslash, CHR ''r'']
     else if c = ch_tab then [ch_bslash, CHR ''t'']
     else if c = ch_dquote then [ch_bslash, ch_dquote]
     else [c]) s)"

subsection \<open>Removing tags\<close>

text \<open>\<open>while ((p = str.find(tag)) != npos) str.erase(p, tag.length())\<close>: for an empty tag this never
  ends, so the loop is partial.\<close>

partial_function (option) strip_tag :: "string \<Rightarrow> string \<Rightarrow> string option" where
  "strip_tag tag str =
     (case str_find str tag 0 of
        None \<Rightarrow> Some str
      | Some p \<Rightarrow> strip_tag tag (str_erase str p (length tag)))"

fun strip_tags :: "string \<Rightarrow> string list \<Rightarrow> string option" where
  "strip_tags str [] = Some str"
| "strip_tags str (tag # tags) =
     (case strip_tag tag str of None \<Rightarrow> None | Some str' \<Rightarrow> strip_tags str' tags)"

definition strip_think_and_tool_tags :: "model_tokens \<Rightarrow> string \<Rightarrow> string option" where
  "strip_think_and_tool_tags mt str =
     strip_tags str [think_start mt, think_end mt, FUNC_START, FUNC_END, PARAM_START, PARAM_END]"

definition strip_checkpoints_flag :: "string \<Rightarrow> bool \<times> string" where
  "strip_checkpoints_flag arg =
     (let flag = '' --checkpoints'' in
      if length arg \<ge> length flag \<and> drop (length arg - length flag) arg = flag
      then (True, take (length arg - length flag) arg)
      else (False, arg))"

subsection \<open>The output mode\<close>

text \<open>\<open>env\<close> is the value of \<open>LIM_OUTPUT\<close>.\<close>

definition get_output_mode :: "bool \<Rightarrow> string option \<Rightarrow> int" where
  "get_output_mode browser_warning_suppressed env =
     (if browser_warning_suppressed then 1
      else case env of
        None \<Rightarrow> 2
      | Some s \<Rightarrow>
          (let (val, endp) = strtol10 s in
           if endp < length s then 3
           else let mode = to_int32 val in
             if mode < 0 \<or> mode > 3 then 3 else mode))"

definition should_output_to_stdout :: "int \<Rightarrow> bool" where
  "should_output_to_stdout mode \<longleftrightarrow> mode = 1 \<or> mode = 3"

definition should_output_to_browser :: "int \<Rightarrow> bool" where
  "should_output_to_browser mode \<longleftrightarrow> mode = 2 \<or> mode = 3"

definition should_output_think_blocks :: "int \<Rightarrow> bool" where
  "should_output_think_blocks mode \<longleftrightarrow> mode = 1 \<or> mode = 2 \<or> mode = 3"

subsection \<open>The stream to the browser\<close>

definition SEG_LLM_TEXT :: char where "SEG_LLM_TEXT = CHR 0x02"
definition SEG_HTML :: char where "SEG_HTML = CHR 0x04"
definition SEG_SPEED :: char where "SEG_SPEED = CHR 0x05"
definition SEG_THINK :: char where "SEG_THINK = CHR 0x06"

definition sentinel :: "string \<Rightarrow> string" where
  "sentinel name = [HTML_SENTINEL_CHAR] @ name @ [HTML_SENTINEL_CHAR]"

definition html_escape_sentinel :: "string \<Rightarrow> string" where
  "html_escape_sentinel input =
     (let r1 = escape_tag input (sentinel ''lt'') HTML_ESCAPE_CHAR;
          r2 = escape_tag r1 (sentinel ''gt'') HTML_ESCAPE_CHAR;
          r3 = replace_loop CHR ''&'' ''&amp;'' r2 0;
          r4 = replace_loop CHR ''<'' (sentinel ''lt'') r3 0
      in replace_loop CHR ''>'' (sentinel ''gt'') r4 0)"

function erase_div :: "string \<Rightarrow> nat \<Rightarrow> string" where
  "erase_div s pos =
     (case str_find s ''</div>'' pos of
        None \<Rightarrow> s
      | Some p \<Rightarrow> erase_div (str_erase s p 6) p)"
  by pat_completeness auto
termination
  by (relation "measure (\<lambda>(s, pos). length s)")
    (auto simp: str_erase_def dest!: str_find_boundsD)

declare erase_div.simps [simp del]

text \<open>The payload handed to \<open>pipe_write\<close>, if any.\<close>

definition stream :: "int \<Rightarrow> string \<Rightarrow> string option" where
  "stream mode raw_token =
     (if \<not> should_output_to_browser mode then None
      else Some (SEG_LLM_TEXT # html_escape_sentinel (erase_div raw_token 0)))"

definition stream_html :: "int \<Rightarrow> string \<Rightarrow> string option" where
  "stream_html mode html =
     (if \<not> should_output_to_browser mode then None else Some (SEG_HTML # html))"

definition stream_speed :: "int \<Rightarrow> string \<Rightarrow> string option" where
  "stream_speed mode speed_text =
     (if \<not> should_output_to_browser mode then None else Some (SEG_SPEED # speed_text))"

definition stream_think :: "int \<Rightarrow> string \<Rightarrow> string option" where
  "stream_think mode tx =
     (if \<not> should_output_to_browser mode \<or> tx = [] then None
      else Some (SEG_THINK # html_escape_sentinel tx))"

subsection \<open>The bounded writer\<close>

text \<open>The answers of the system: \<open>write\<close> took \<open>n\<close> bytes, \<open>EAGAIN\<close> with the result of \<open>poll\<close>
  (positive or not), or another error.\<close>

datatype write_ev = Wrote nat | Again bool | Write_Error

record pipe_state =
  pipe_open :: bool
  pipe_sent :: string

text \<open>The loop from \<open>offset\<close>; the state, the offset, and whether it returned (the list of answers may
  end first).\<close>

fun pipe_loop :: "string \<Rightarrow> nat \<Rightarrow> nat \<Rightarrow> write_ev list \<Rightarrow> pipe_state \<Rightarrow> pipe_state \<times> nat \<times> bool" where
  "pipe_loop data offset retry_count evs st =
     (if offset < length data then
        (case evs of
           [] \<Rightarrow> (st, offset, False)
         | Wrote n # evs' \<Rightarrow>
             (if n > 0 then
                pipe_loop data (offset + n) 0 evs'
                  (st\<lparr>pipe_sent := pipe_sent st @ substr data offset n\<rparr>)
              else pipe_loop data offset retry_count evs' st)
         | Again poll_ok # evs' \<Rightarrow>
             (if retry_count + 1 > 50 then (st, offset, True)
              else if \<not> poll_ok then (st\<lparr>pipe_open := False\<rparr>, offset, True)
              else pipe_loop data offset (retry_count + 1) evs' st)
         | Write_Error # evs' \<Rightarrow> (st\<lparr>pipe_open := False\<rparr>, offset, True))
      else (st, offset, True))"

declare pipe_loop.simps [simp del]

text \<open>\<open>reopened\<close> is the outcome of the \<open>open\<close> that a closed pipe is tried with.\<close>

definition pipe_write :: "string \<Rightarrow> bool \<Rightarrow> write_ev list \<Rightarrow> pipe_state \<Rightarrow> pipe_state \<times> nat \<times> bool" where
  "pipe_write data reopened evs st =
     (let st1 = (if pipe_open st then st else st\<lparr>pipe_open := reopened\<rparr>) in
      if pipe_open st1 then pipe_loop data 0 0 evs st1 else (st1, 0, True))"

subsection \<open>Replacing\<close>

lemma replace_loop_eq:
  assumes "pos \<le> length s"
  shows "replace_loop c rep s pos
     = take pos s @ concat (map (\<lambda>x. if x = c then rep else [x]) (drop pos s))"
  using assms
proof (induction c rep s pos rule: replace_loop.induct)
  case (1 c rep s pos)
  let ?f = "\<lambda>x. if x = c then rep else [x]"
  have id: "c \<notin> set u \<Longrightarrow> concat (map ?f u) = u" for u by (induction u) auto
  show ?case
  proof (cases "str_find s [c] pos")
    case None
    then have "c \<notin> set (drop pos s)" by (simp add: str_find_single_None)
    with None show ?thesis by (simp add: replace_loop.simps [of c rep s pos] id)
  next
    case (Some p)
    then obtain u xs where s: "s = take pos s @ u @ c # xs" "drop pos s = u @ c # xs"
      "c \<notin> set u" "p = pos + length u" "pos \<le> length s" by (rule str_find_single)
    let ?a = "take pos s @ u"
    have la: "length ?a = p" using s(4,5) by simp
    have X: "str_replace s p 1 rep = ?a @ rep @ xs"
    proof -
      have "s = ?a @ c # xs" using s(1) by simp
      then have "take p s = ?a" "drop (p + 1) s = xs" using la
        by (metis append_eq_conv_conj, metis append_eq_conv_conj drop_Suc_Cons drop0 drop_drop
            add.commute One_nat_def)
      then show ?thesis by (simp add: str_replace_def)
    qed
    have tk: "take (p + length rep) (?a @ rep @ xs) = ?a @ rep"
      "drop (p + length rep) (?a @ rep @ xs) = xs" using s(4,5) by simp_all
    have "p + length rep \<le> length (?a @ rep @ xs)" using la by simp
    then have "replace_loop c rep (str_replace s p 1 rep) (p + length rep)
        = (?a @ rep) @ concat (map ?f xs)"
      using 1(1) [OF Some] unfolding X tk by blast
    with Some s(2,3) show ?thesis by (simp add: replace_loop.simps [of c rep s pos] id)
  qed
qed

lemma replace_loop_0: "replace_loop c rep s 0 = concat (map (\<lambda>x. if x = c then rep else [x]) s)"
  by (simp add: replace_loop_eq)

lemma replace_loop_set:
  "set (replace_loop c rep s 0) \<subseteq> (set s - {c}) \<union> set rep"
  by (auto simp: replace_loop_0 split: if_splits)

lemma html_char_set: "set (html_char c) \<inter> {CHR ''<'', CHR ''>'', ch_dquote} = {}"
  by (simp add: html_char_def)

lemma html_escape_inj: "html_escape a = html_escape b \<Longrightarrow> a = b"
proof (induction a arbitrary: b)
  case Nil
  then show ?case by (cases b) (auto simp: html_escape_def html_char_def split: if_splits)
next
  case (Cons x a)
  then obtain y b' where b: "b = y # b'"
    by (cases b) (auto simp: html_escape_def html_char_def split: if_splits)
  have e: "html_char x @ html_escape a = html_char y @ html_escape b'"
    using Cons.prems by (simp add: html_escape_def b)
  then have "x = y" by (auto simp: html_char_def split: if_splits)
  with e Cons.IH b show ?case by simp
qed

subsection \<open>Removing tags\<close>

lemma strip_tag_ne: "strip_tag tag str = Some r \<Longrightarrow> tag \<noteq> []"
  by (rule strip_tag.raw_induct [of "\<lambda>tag str r. tag \<noteq> []"])
    (auto simp: str_find_None_iff split: option.splits)

lemma subseq_erase: "subseq (str_erase s p n) s"
proof -
  have "subseq (drop n (drop p s)) (drop p s)"
    by (metis append_take_drop_id list_emb_append2 subseq_order.order_refl)
  then have "subseq (take p s @ drop n (drop p s)) (take p s @ drop p s)"
    by (intro list_emb_append_mono subseq_order.order_refl)
  then show ?thesis by (simp add: str_erase_def add.commute)
qed

lemma strip_tag_Some:
  "strip_tag tag str = Some r \<Longrightarrow> tag \<noteq> [] \<and> subseq r str \<and> str_find r tag 0 = None"
proof (induction "length str" arbitrary: str rule: less_induct)
  case less
  note ne = strip_tag_ne [OF less.prems]
  show ?case
  proof (cases "str_find str tag 0")
    case None
    with less.prems ne show ?thesis by (subst (asm) strip_tag.simps) simp
  next
    case (Some p)
    then have "length (str_erase str p (length tag)) < length str"
      using ne str_find_bounds(2) [OF Some] by (cases tag) (auto simp: str_erase_def)
    moreover have "strip_tag tag (str_erase str p (length tag)) = Some r"
      using less.prems Some by (subst (asm) strip_tag.simps) simp
    ultimately show ?thesis
      using less.hyps subseq_erase [of str p "length tag"] by (auto intro: subseq_order.order_trans)
  qed
qed

lemma strip_tag_returns: "tag \<noteq> [] \<Longrightarrow> \<exists>r. strip_tag tag str = Some r"
proof (induction "length str" arbitrary: str rule: less_induct)
  case less
  show ?case
  proof (cases "str_find str tag 0")
    case None
    then show ?thesis by (subst strip_tag.simps) simp
  next
    case (Some p)
    then have "length (str_erase str p (length tag)) < length str"
      using less.prems str_find_bounds(2) [OF Some] by (cases tag) (auto simp: str_erase_def)
    with less Some show ?thesis by (subst strip_tag.simps) simp
  qed
qed

lemma strip_tags_Some:
  "strip_tags str tags = Some r \<Longrightarrow>
   [] \<notin> set tags \<and> subseq r str \<and> (tags \<noteq> [] \<longrightarrow> str_find r (last tags) 0 = None)"
proof (induction tags arbitrary: str)
  case (Cons tag tags)
  from Cons.prems obtain s where s: "strip_tag tag str = Some s" "strip_tags s tags = Some r"
    by (auto split: option.splits)
  with Cons.IH [OF s(2)] strip_tag_Some [OF s(1)] show ?case
    by (cases "tags = []") (auto intro: subseq_order.order_trans)
qed simp

lemma strip_tags_returns: "[] \<notin> set tags \<Longrightarrow> \<exists>r. strip_tags str tags = Some r"
proof (induction tags arbitrary: str)
  case (Cons tag tags)
  then obtain s where "strip_tag tag str = Some s" using strip_tag_returns [of tag str] by auto
  with Cons show ?case by simp
qed simp

text \<open>Removing a later tag can put an earlier one together again.\<close>

lemma strip_tags_recreates:
  "strip_tags ''<|im_<|im_end|>start|>'' [''<|im_start|>'', ''<|im_end|>''] = Some ''<|im_start|>''"
  by (simp add: strip_tag.simps str_find_def str_erase_def)

subsection \<open>The writer\<close>

lemma pipe_loop_sent:
  assumes "pipe_sent st = pre @ take offset data"
    and "pipe_loop data offset retry evs st = (st', offset', returned)"
  shows "pipe_sent st' = pre @ take offset' data \<and> offset \<le> offset'"
  using assms
proof (induction data offset retry evs st rule: pipe_loop.induct)
  case (1 data offset retry evs st)
  note step = pipe_loop.simps [of data offset retry evs st]
  show ?case
  proof (cases "offset < length data \<and> evs \<noteq> []")
    case True
    then obtain ev evs' where evs: "evs = ev # evs'" by (cases evs) auto
    show ?thesis
    proof (cases ev)
      case (Wrote n)
      have "pre @ take offset data @ substr data offset n = pre @ take (offset + n) data"
        by (simp add: substr_def take_add)
      then show ?thesis using 1 True evs Wrote step
        by (auto split: if_splits)
    qed (use 1 True evs step in \<open>auto split: if_splits\<close>)
  qed (use 1 step in \<open>auto split: if_splits list.splits\<close>)
qed

text \<open>With no error, and at most 50 \<open>EAGAIN\<close> answers in all, the writer that returns has sent all.\<close>

definition again_count :: "write_ev list \<Rightarrow> nat" where
  "again_count evs = length (filter (\<lambda>e. e = Again True) evs)"

lemma pipe_loop_all:
  assumes "pipe_loop data offset retry evs st = (st', offset', True)"
    and "Write_Error \<notin> set evs" "Again False \<notin> set evs" "retry + again_count evs \<le> 50"
  shows "length data \<le> offset' \<and> pipe_open st' = pipe_open st"
  using assms
proof (induction data offset retry evs st rule: pipe_loop.induct)
  case (1 data offset retry evs st)
  note step = pipe_loop.simps [of data offset retry evs st]
  show ?case
  proof (cases "offset < length data \<and> evs \<noteq> []")
    case True
    then obtain ev evs' where evs: "evs = ev # evs'" by (cases evs) auto
    show ?thesis
    proof (cases ev)
      case (Wrote n)
      then show ?thesis using 1 True evs step by (auto simp: again_count_def split: if_splits)
    next
      case (Again ok)
      with 1(6) evs have "ok" by auto
      with Again show ?thesis using 1 True evs step by (auto simp: again_count_def split: if_splits)
    next
      case Write_Error
      with 1(5) evs show ?thesis by simp
    qed
  qed (use 1 step in \<open>auto split: if_splits list.splits\<close>)
qed

subsection \<open>Properties\<close>

text \<open>Text put into a page holds no raw angle bracket, and the plain escaping loses nothing: two
  texts with the same escaped form are equal. The sentinel escaping of the stream also leaves no
  angle bracket, whatever the text holds.\<close>

theorem html_escape_safe:
  "list_all (\<lambda>c. c \<noteq> CHR ''<'' \<and> c \<noteq> CHR ''>'' \<and> c \<noteq> ch_dquote) (html_escape a)
   \<and> (html_escape a = html_escape b) = (a = b)
   \<and> list_all (\<lambda>c. c \<noteq> CHR ''<'' \<and> c \<noteq> CHR ''>'') (html_escape_sentinel a)"
proof (intro conjI)
  show "list_all (\<lambda>c. c \<noteq> CHR ''<'' \<and> c \<noteq> CHR ''>'' \<and> c \<noteq> ch_dquote) (html_escape a)"
    using html_char_set by (fastforce simp: html_escape_def list_all_iff)
  show "(html_escape a = html_escape b) = (a = b)" using html_escape_inj by auto
  let ?r4 = "replace_loop CHR ''<'' (sentinel ''lt'') (replace_loop CHR ''&'' ''&amp;''
      (escape_tag (escape_tag a (sentinel ''lt'') HTML_ESCAPE_CHAR) (sentinel ''gt'') HTML_ESCAPE_CHAR) 0) 0"
  have "set (replace_loop CHR ''>'' (sentinel ''gt'') ?r4 0) \<subseteq> (set ?r4 - {CHR ''>''}) \<union> set (sentinel ''gt'')"
    by (rule replace_loop_set)
  moreover have "CHR ''<'' \<notin> set ?r4"
    using replace_loop_set [of "CHR ''<''" "sentinel ''lt''"]
    by (force simp: sentinel_def HTML_SENTINEL_CHAR_def)
  ultimately show "list_all (\<lambda>c. c \<noteq> CHR ''<'' \<and> c \<noteq> CHR ''>'') (html_escape_sentinel a)"
    by (auto simp: html_escape_sentinel_def Let_def list_all_iff sentinel_def HTML_SENTINEL_CHAR_def)
qed

text \<open>\<open>strip_tags\<close> returns exactly when no tag is empty (an empty tag is found again for ever);
  then the result is the text with characters left out, and holds no occurrence of the last tag.\<close>

theorem strip_tags_spec:
  "case strip_tags str tags of
     None \<Rightarrow> [] \<in> set tags
   | Some r \<Rightarrow> [] \<notin> set tags \<and> subseq r str \<and> (tags = [] \<or> str_find r (last tags) 0 = None)"
  using strip_tags_Some [of str tags] strip_tags_returns [of tags str]
  by (cases "strip_tags str tags") auto

text \<open>The bounded writer sends a prefix of the data, in order, whatever the system answers; if it
  returns and met no error, no \<open>poll\<close> timeout and at most 50 full-buffer answers, all of it.\<close>

theorem pipe_write_prefix:
  assumes "pipe_write data reopened evs st = (st', n, returned)"
  shows "pipe_sent st' = pipe_sent st @ take n data
    \<and> (returned \<and> pipe_open st \<and> Write_Error \<notin> set evs \<and> Again False \<notin> set evs
        \<and> again_count evs \<le> 50 \<longrightarrow> length data \<le> n \<and> pipe_open st')"
proof (cases "pipe_open (if pipe_open st then st else st\<lparr>pipe_open := reopened\<rparr>)")
  case True
  define st1 where "st1 = (if pipe_open st then st else st\<lparr>pipe_open := reopened\<rparr>)"
  have l: "pipe_loop data 0 0 evs st1 = (st', n, returned)"
    using assms True by (simp add: pipe_write_def st1_def Let_def split: if_splits)
  have "pipe_sent st1 = pipe_sent st @ take 0 data" by (simp add: st1_def)
  from pipe_loop_sent [OF this l] pipe_loop_all [of data 0 0 evs st1 st' n] l show ?thesis
    by (auto simp: st1_def split: if_splits)
next
  case False
  with assms show ?thesis by (auto simp: pipe_write_def Let_def split: if_splits)
qed

theorem pipe_write_prefix_witness:
  "pipe_sent \<lparr>pipe_open = True, pipe_sent = ''abc''\<rparr> = pipe_sent \<lparr>pipe_open = True, pipe_sent = []\<rparr> @ take 3 ''abc''
    \<and> length ''abc'' \<le> 3 \<and> pipe_open \<lparr>pipe_open = True, pipe_sent = ''abc''\<rparr>"
proof -
  have "pipe_write ''abc'' False [Wrote 1, Again True, Wrote 2] \<lparr>pipe_open = True, pipe_sent = []\<rparr>
      = (\<lparr>pipe_open = True, pipe_sent = ''abc''\<rparr>, 3, True)"
    by (simp add: pipe_write_def pipe_loop.simps substr_def)
  from pipe_write_prefix [OF this] show ?thesis by (simp add: again_count_def)
qed

text \<open>The output mode is always one of 0 to 3; a value of \<open>LIM_OUTPUT\<close> that is no number selects both
  outputs, and output to a browser that could not be started goes to the terminal only.\<close>

theorem output_mode_range:
  "get_output_mode q env \<in> {0, 1, 2, 3}
   \<and> (if q then should_output_to_stdout (get_output_mode q env)
        \<and> \<not> should_output_to_browser (get_output_mode q env)
      else get_output_mode q (Some (nat_string m @ CHR ''x'' # r)) = 3)"
proof -
  have "snd (strtol10 (nat_string m @ CHR ''x'' # r)) = length (nat_string m)"
    by (simp add: strtol10_def scan_nat_string is_digit_def)
  moreover have "get_output_mode q env \<in> {0, 1, 2, 3}"
    by (auto simp: get_output_mode_def Let_def split: option.splits prod.splits)
  ultimately show ?thesis
    by (auto simp: get_output_mode_def should_output_to_stdout_def should_output_to_browser_def
        split: prod.splits)
qed

end
