(* ===== verification/Lim_Save.thy ===== *)
theory Lim_Save
  imports Lim_Tokens Lim_Numbers
begin

section \<open>Save files (filesystem.cc)\<close>

text \<open>
  The compact save: a header line, the token ids as little-endian 32-bit integers, and one entry per
  prompt-return checkpoint (position, 16-bit length, label). A file is the list of its bytes, \<open>None\<close>
  when it cannot be opened. The codecs are instances of one interface, whose list law is proved once.
\<close>

subsection \<open>Little-endian integers\<close>

definition int32_bytes :: "token \<Rightarrow> string" where
  "int32_bytes w =
     map (\<lambda>i. char_of (unat (drop_bit (8 * i) w))) [0, 1, 2, 3]"

definition uint16_bytes :: "16 word \<Rightarrow> string" where
  "uint16_bytes w = map (\<lambda>i. char_of (unat (drop_bit (8 * i) w))) [0, 1]"

definition le_val :: "string \<Rightarrow> nat" where
  "le_val s = foldr (\<lambda>c n. of_char c + 256 * n) s 0"

text \<open>\<open>fread(&x, size, 1, fp)\<close>: the bytes that remain, or a short read.\<close>

definition read_int32 :: "string \<Rightarrow> (token \<times> string) option" where
  "read_int32 s =
     (if length s < 4 then None else Some (word_of_nat (le_val (take 4 s)), drop 4 s))"

definition read_uint16 :: "string \<Rightarrow> (16 word \<times> string) option" where
  "read_uint16 s =
     (if length s < 2 then None else Some (word_of_nat (le_val (take 2 s)), drop 2 s))"

text \<open>\<open>n\<close> elements in a row, all or nothing.\<close>

fun read_n :: "(string \<Rightarrow> ('a \<times> string) option) \<Rightarrow> nat \<Rightarrow> string \<Rightarrow> ('a list \<times> string) option" where
  "read_n get 0 s = Some ([], s)"
| "read_n get (Suc n) s =
     (case get s of None \<Rightarrow> None
      | Some (x, r) \<Rightarrow> (case read_n get n r of None \<Rightarrow> None | Some (xs, r') \<Rightarrow> Some (x # xs, r')))"

subsection \<open>The header\<close>

definition HDR_MAGIC :: string where "HDR_MAGIC = ''LIM_SAVE_V3 ''"
definition HDR_N_TOKENS :: string where "HDR_N_TOKENS = ''n_tokens=''"
definition HDR_N_CHECKPOINTS :: string where "HDR_N_CHECKPOINTS = ''n_checkpoints=''"
definition HDR_SESSION :: string where "HDR_SESSION = ''session=''"

lemmas hdr_defs = HDR_MAGIC_def HDR_N_TOKENS_def HDR_N_CHECKPOINTS_def HDR_SESSION_def

text \<open>The text between a key and the next blank.\<close>

definition header_val :: "string \<Rightarrow> string \<Rightarrow> string option" where
  "header_val header key =
     (case str_find header key 0 of
        None \<Rightarrow> None
      | Some pos \<Rightarrow>
          (let val = drop (pos + length key) header in
           Some (case str_find val '' '' 0 of Some sp \<Rightarrow> take sp val | None \<Rightarrow> val)))"

text \<open>\<open>Inr None\<close> is the result \<open>false\<close>; \<open>Inl\<close> an exception of the number conversions.\<close>

definition parse_v3_header :: "string \<Rightarrow> bool \<Rightarrow> bool \<Rightarrow> (nat \<times> nat \<times> int) option res" where
  "parse_v3_header header want_checkpoints want_session =
     (if substr header 0 (length HDR_MAGIC) \<noteq> HDR_MAGIC then Inr None
      else case header_val header HDR_N_TOKENS of
        None \<Rightarrow> Inr None
      | Some tv \<Rightarrow>
          res_bind (stoull tv) (\<lambda>n_tokens.
          res_bind
            (if want_checkpoints then
               (case header_val header HDR_N_CHECKPOINTS of
                  None \<Rightarrow> Inr None
                | Some cv \<Rightarrow> res_bind (stoull cv) (\<lambda>n. Inr (Some n)))
             else Inr (Some 0)) (\<lambda>cps.
          case cps of
            None \<Rightarrow> Inr None
          | Some n_checkpoints \<Rightarrow>
              res_bind
                (if want_session then
                   (case header_val header HDR_SESSION of
                      None \<Rightarrow> Inr (- 1)
                    | Some sv \<Rightarrow> stoi sv)
                 else Inr (- 1)) (\<lambda>session.
              Inr (Some (n_tokens, n_checkpoints, session))))))"

definition MAX_HEAD :: nat where "MAX_HEAD = 256"

definition read_save_header :: "string option \<Rightarrow> string option" where
  "read_save_header file =
     (case file of
        None \<Rightarrow> None
      | Some bytes \<Rightarrow>
          (let first_chunk = take MAX_HEAD bytes in
           case str_find first_chunk [ch_nl] 0 of
             None \<Rightarrow> None
           | Some nl \<Rightarrow> Some (take nl first_chunk)))"

subsection \<open>Reading\<close>

definition read_token_save :: "string option \<Rightarrow> token list option res" where
  "read_token_save file =
     (case read_save_header file of
        None \<Rightarrow> Inr None
      | Some header \<Rightarrow>
          res_bind (parse_v3_header header False False) (\<lambda>hdr.
          case hdr of
            None \<Rightarrow> Inr None
          | Some (num_tokens, _, _) \<Rightarrow>
              (let body = drop (length header + 1) (the file) in
               Inr (map_option fst (read_n read_int32 num_tokens body)))))"

record prompt_checkpoint =
  cp_n_past :: int
  cp_prompt :: string

definition read_checkpoint :: "string \<Rightarrow> (prompt_checkpoint \<times> string) option" where
  "read_checkpoint s =
     (case read_int32 s of
        None \<Rightarrow> None
      | Some (pos, s1) \<Rightarrow>
          (case read_uint16 s1 of
             None \<Rightarrow> None
           | Some (plen, s2) \<Rightarrow>
               (if length s2 < unat plen then None
                else Some (\<lparr>cp_n_past = sint pos, cp_prompt = take (unat plen) s2\<rparr>,
                       drop (unat plen) s2))))"

text \<open>The offset is a \<open>long\<close>: the byte count wraps modulo \<open>2 ^ 64\<close>, and \<open>fseek\<close> refuses a negative one.\<close>

definition to_int64 :: "int \<Rightarrow> int" where
  "to_int64 i = (i + 2 ^ 63) mod 2 ^ 64 - 2 ^ 63"

definition read_checkpoint_offsets :: "string option \<Rightarrow> prompt_checkpoint list res" where
  "read_checkpoint_offsets file =
     (case read_save_header file of
        None \<Rightarrow> Inr []
      | Some header \<Rightarrow>
          res_bind (parse_v3_header header True False) (\<lambda>hdr.
          case hdr of
            None \<Rightarrow> Inr []
          | Some (num_tokens, num_checkpoints, _) \<Rightarrow>
              (if num_checkpoints = 0 then Inr []
               else let cp_offset = to_int64 (int (length header + 1) + to_int64 (int (num_tokens * 4)))
                 in if cp_offset < 0 then Inr []
                    else case read_n read_checkpoint num_checkpoints (drop (nat cp_offset) (the file)) of
                        None \<Rightarrow> Inr []
                      | Some (cps, _) \<Rightarrow> Inr cps)))"

definition read_save_session :: "string option \<Rightarrow> int" where
  "read_save_session file =
     (case read_save_header file of
        None \<Rightarrow> - 1
      | Some header \<Rightarrow>
          (case parse_v3_header header False True of
             Inl _ \<Rightarrow> - 1
           | Inr None \<Rightarrow> - 1
           | Inr (Some (_, _, session)) \<Rightarrow> session))"

subsection \<open>Writing\<close>

definition UINT16_MAX :: nat where "UINT16_MAX = 65535"

definition PROMPT_TRUNC_MARKER :: string where
  "PROMPT_TRUNC_MARKER = ''...[truncated]''"

definition cap_prompt :: "string \<Rightarrow> string" where
  "cap_prompt prompt =
     (if length prompt > UINT16_MAX
      then take (UINT16_MAX - length PROMPT_TRUNC_MARKER) prompt @ PROMPT_TRUNC_MARKER
      else prompt)"

definition write_checkpoint :: "prompt_checkpoint \<Rightarrow> string" where
  "write_checkpoint cp =
     (let prompt = cap_prompt (cp_prompt cp) in
      int32_bytes (word_of_int (cp_n_past cp)) @ uint16_bytes (word_of_nat (length prompt)) @ prompt)"

definition save_header :: "string \<Rightarrow> nat \<Rightarrow> nat \<Rightarrow> int \<Rightarrow> string" where
  "save_header sha n_tokens n_checkpoints session_num =
     HDR_MAGIC @ ''git_sha='' @ sha @ '' '' @ HDR_N_TOKENS @ nat_string n_tokens @ '' ''
     @ HDR_N_CHECKPOINTS @ nat_string n_checkpoints
     @ (if session_num \<ge> 0 then '' '' @ HDR_SESSION @ int_string session_num else [])"

definition save_bytes :: "string \<Rightarrow> token list \<Rightarrow> prompt_checkpoint list \<Rightarrow> int \<Rightarrow> string" where
  "save_bytes sha tokens checkpoints session_num =
     save_header sha (length tokens) (length checkpoints) session_num @ [ch_nl]
     @ concat (map int32_bytes tokens) @ concat (map write_checkpoint checkpoints)"

text \<open>\<open>capacity\<close> is the number of bytes the device takes before it refuses (\<open>None\<close>: the file cannot be
  created); the file left behind and the result.\<close>

definition write_token_save_v3 ::
    "nat option \<Rightarrow> string \<Rightarrow> token list \<Rightarrow> prompt_checkpoint list \<Rightarrow> int \<Rightarrow> string option \<times> bool" where
  "write_token_save_v3 capacity sha tokens checkpoints session_num =
     (case capacity of
        None \<Rightarrow> (None, False)
      | Some k \<Rightarrow>
          (let bytes = save_bytes sha tokens checkpoints session_num in
           (Some (take k bytes), length bytes \<le> k)))"

subsection \<open>The interface of a codec\<close>

text \<open>
  What a reader of concatenated elements needs of one element: reading gives back what was written, in
  its stored form, with the bytes that remain, and a file that ends inside it is a short read.
\<close>

locale codec =
  fixes put :: "'a \<Rightarrow> string" and get :: "string \<Rightarrow> ('b \<times> string) option" and stored :: "'a \<Rightarrow> 'b"
  assumes get_put: "get (put x @ r) = Some (stored x, r)"
    and get_short: "k < length (put x) \<Longrightarrow> get (take k (put x)) = None"
begin

lemma read_all: "read_n get (length xs) (concat (map put xs) @ r) = Some (map stored xs, r)"
  by (induction xs) (simp_all add: get_put)

lemma read_all_exact: "read_n get (length xs) (concat (map put xs)) = Some (map stored xs, [])"
  using read_all [of xs "[]"] by simp

lemma read_all_short:
  "k < length (concat (map put xs)) \<Longrightarrow> read_n get (length xs) (take k (concat (map put xs))) = None"
proof (induction xs arbitrary: k)
  case (Cons x xs)
  show ?case
  proof (cases "k < length (put x)")
    case True
    then show ?thesis by (simp add: get_short)
  next
    case False
    then have "take k (put x @ concat (map put xs))
        = put x @ take (k - length (put x)) (concat (map put xs))" by simp
    with False Cons.IH [of "k - length (put x)"] Cons.prems show ?thesis by (simp add: get_put)
  qed
qed simp

end

lemma of_char_byte: "(of_char (char_of (n::nat)) :: nat) = n mod 256"
  by simp

lemma unat_drop_bit: "unat (drop_bit k (w :: 'a::len word)) = unat w div 2 ^ k"
  by (simp only: unat_drop_bit_eq) (rule drop_bit_eq_div)

lemma le_val_int32: "le_val (int32_bytes w) = unat w"
proof -
  define n where "n = unat w"
  have n: "n < 2 ^ 32"
    unfolding n_def by (rule order_less_le_trans [OF unsigned_less]) simp
  have "n div 2 ^ 8 = n div 256" "n div 2 ^ 16 = n div 256 div 256"
    "n div 2 ^ 24 = n div 256 div 256 div 256"
    by (simp_all add: div_mult2_eq [symmetric])
  moreover have "n div 256 div 256 div 256 < 256" using n by (simp add: less_mult_imp_div_less)
  moreover have "n = n mod 256 + 256 * (n div 256)" "n div 256 = n div 256 mod 256 + 256 * (n div 256 div 256)"
    "n div 256 div 256 = n div 256 div 256 mod 256 + 256 * (n div 256 div 256 div 256)"
    by presburger+
  moreover have "n div 2 ^ 24 mod 256 = n div 2 ^ 24"
    using n by (simp add: less_mult_imp_div_less)
  ultimately have "n div 2 ^ 24 mod 256 = n div 2 ^ 24 \<and> n mod 256 + 256 * (n div 2 ^ 8 mod 256 + 256 * (n div 2 ^ 16 mod 256
      + 256 * (n div 2 ^ 24 mod 256))) = n"
    by simp
  then show ?thesis
    by (simp add: le_val_def int32_bytes_def unat_drop_bit n_def)
qed

lemma le_val_uint16: "le_val (uint16_bytes w) = unat w"
proof -
  define n where "n = unat w"
  have n: "n < 2 ^ 16"
    unfolding n_def by (rule order_less_le_trans [OF unsigned_less]) simp
  then have "n div 256 < 256" by (simp add: less_mult_imp_div_less)
  moreover have "n = n mod 256 + 256 * (n div 256)" by presburger
  ultimately show ?thesis
    by (simp add: le_val_def uint16_bytes_def unat_drop_bit n_def)
qed

lemma length_bytes [simp]: "length (int32_bytes w) = 4" "length (uint16_bytes v) = 2"
  by (simp_all add: int32_bytes_def uint16_bytes_def)

interpretation int32: codec int32_bytes read_int32 "\<lambda>w. w"
  by unfold_locales (simp_all add: read_int32_def le_val_int32)

interpretation uint16: codec uint16_bytes read_uint16 "\<lambda>w. w"
  by unfold_locales (simp_all add: read_uint16_def le_val_uint16)

text \<open>What a checkpoint is after a round trip: a 32-bit position and a capped label.\<close>

definition stored_checkpoint :: "prompt_checkpoint \<Rightarrow> prompt_checkpoint" where
  "stored_checkpoint cp =
     \<lparr>cp_n_past = sint (word_of_int (cp_n_past cp) :: token), cp_prompt = cap_prompt (cp_prompt cp)\<rparr>"

lemma length_cap_prompt: "length (cap_prompt p) \<le> UINT16_MAX"
  by (simp add: cap_prompt_def UINT16_MAX_def PROMPT_TRUNC_MARKER_def)

lemma cap_prompt_id: "length p \<le> UINT16_MAX \<Longrightarrow> cap_prompt p = p"
  by (simp add: cap_prompt_def)

lemma unat_cap: "unat (word_of_nat (length (cap_prompt p)) :: 16 word) = length (cap_prompt p)"
  using length_cap_prompt [of p] by (simp add: unsigned_of_nat take_bit_nat_eq_self UINT16_MAX_def)

interpretation checkpoint: codec write_checkpoint read_checkpoint stored_checkpoint
proof
  show "read_checkpoint (write_checkpoint cp @ r) = Some (stored_checkpoint cp, r)" for cp r
    by (simp add: write_checkpoint_def read_checkpoint_def stored_checkpoint_def Let_def
        int32.get_put uint16.get_put unat_cap)
  show "read_checkpoint (take k (write_checkpoint cp)) = None" if "k < length (write_checkpoint cp)" for k cp
  proof -
    let ?p = "cap_prompt (cp_prompt cp)"
    let ?a = "int32_bytes (word_of_int (cp_n_past cp))"
    let ?b = "uint16_bytes (word_of_nat (length ?p))"
    have w: "write_checkpoint cp = ?a @ ?b @ ?p" by (simp add: write_checkpoint_def Let_def)
    have "k < 6 + length ?p" using that by (simp add: w)
    then consider "k < 4" | "4 \<le> k" "k < 6" | "6 \<le> k" "k < 6 + length ?p" by linarith
    then show ?thesis
    proof cases
      case 1
      then show ?thesis using int32.get_short [of k] by (simp add: w read_checkpoint_def)
    next
      case 2
      then have "take k (write_checkpoint cp) = ?a @ take (k - 4) ?b" by (simp add: w)
      with 2 show ?thesis
        by (simp add: read_checkpoint_def int32.get_put uint16.get_short)
    next
      case 3
      then have "take k (write_checkpoint cp) = ?a @ ?b @ take (k - 6) ?p" by (simp add: w)
      with 3 show ?thesis
        by (simp add: read_checkpoint_def int32.get_put uint16.get_put unat_cap)
    qed
  qed
qed

subsection \<open>The header read back\<close>

definition is_hex :: "char \<Rightarrow> bool" where
  "is_hex c \<longleftrightarrow> is_digit c \<or> (97 \<le> (of_char c :: nat) \<and> (of_char c :: nat) \<le> 102)"

lemma first_at_free: "pat \<noteq> [] \<Longrightarrow> hd pat \<notin> set a \<Longrightarrow> first_at pat a = None"
  using first_at_skip [of pat a "[]"] by simp

lemma digits_free: "\<not> is_digit c \<Longrightarrow> c \<notin> set (nat_string n)"
  using nat_string_digits [of n] by (auto simp: list_all_iff)

lemma hex_free: "list_all is_hex sha \<Longrightarrow> \<not> is_hex c \<Longrightarrow> c \<notin> set sha"
  by (auto simp: list_all_iff)

lemma header_val_at:
  assumes "str_find h key 0 = Some p" "drop (p + length key) h = v @ r"
    "CHR '' '' \<notin> set v" "r = [] \<or> hd r = CHR '' ''"
  shows "header_val h key = Some v"
proof (cases r)
  case Nil
  with assms have "str_find v '' '' 0 = None" by (simp add: str_find_single_None)
  with assms Nil show ?thesis by (simp add: header_val_def Let_def)
next
  case (Cons c r')
  with assms have "str_find (v @ r) '' '' 0 = Some (length v)"
    using first_at_single [of "CHR '' ''" v r'] by (simp add: str_find_0)
  with assms Cons show ?thesis by (simp add: header_val_def Let_def)
qed

lemma header_val_app:
  assumes "first_at key (a @ key @ v @ r) = Some (length a)"
    "CHR '' '' \<notin> set v" "r = [] \<or> hd r = CHR '' ''"
  shows "header_val (a @ key @ v @ r) key = Some v"
  using assms by (intro header_val_at [of _ _ "length a" _ r]) (simp_all add: str_find_0)

lemma header_n_tokens:
  assumes "list_all is_hex sha"
  shows "header_val (save_header sha n m s) HDR_N_TOKENS = Some (nat_string n)"
proof -
  let ?a = "''LIM_SAVE_V3 git_sha='' @ sha @ '' ''"
  let ?r = "'' '' @ HDR_N_CHECKPOINTS @ nat_string m
     @ (if s \<ge> 0 then '' '' @ HDR_SESSION @ int_string s else [])"
  have h: "save_header sha n m s = ?a @ HDR_N_TOKENS @ nat_string n @ ?r"
    by (simp add: save_header_def HDR_MAGIC_def)
  have "CHR ''n'' \<notin> set ?a" using hex_free [OF assms, of "CHR ''n''"] by (simp add: is_hex_def is_digit_def)
  then have "first_at HDR_N_TOKENS (?a @ HDR_N_TOKENS @ nat_string n @ ?r) = Some (length ?a)"
    using first_at_skip [of HDR_N_TOKENS ?a "HDR_N_TOKENS @ nat_string n @ ?r"]
    by (simp add: HDR_N_TOKENS_def)
  then show ?thesis
    unfolding h using digits_free [of "CHR '' ''" n]
    by (intro header_val_app) (simp_all add: is_digit_def)
qed

lemma header_n_checkpoints:
  assumes "list_all is_hex sha"
  shows "header_val (save_header sha n m s) HDR_N_CHECKPOINTS = Some (nat_string m)"
proof -
  let ?a = "''LIM_SAVE_V3 git_sha='' @ sha @ '' ''" and ?d = "nat_string n @ '' ''"
  let ?r = "if s \<ge> 0 then '' '' @ HDR_SESSION @ int_string s else []"
  let ?t = "HDR_N_CHECKPOINTS @ nat_string m @ ?r"
  have h: "save_header sha n m s = (?a @ HDR_N_TOKENS @ ?d) @ ?t"
    by (simp add: save_header_def HDR_MAGIC_def)
  have a: "CHR ''n'' \<notin> set ?a" using hex_free [OF assms, of "CHR ''n''"] by (simp add: is_hex_def is_digit_def)
  have d: "CHR ''n'' \<notin> set ?d" using digits_free [of "CHR ''n''" n] by (simp add: is_digit_def)
  have "first_at HDR_N_CHECKPOINTS (?d @ ?t) = Some (length ?d)"
    using first_at_skip [of HDR_N_CHECKPOINTS ?d ?t] d by (simp add: HDR_N_CHECKPOINTS_def)
  then have "first_at HDR_N_CHECKPOINTS (HDR_N_TOKENS @ ?d @ ?t) = Some (length HDR_N_TOKENS + length ?d)"
    by (simp add: HDR_N_TOKENS_def HDR_N_CHECKPOINTS_def)
  then have "first_at HDR_N_CHECKPOINTS (?a @ HDR_N_TOKENS @ ?d @ ?t)
      = Some (length (?a @ HDR_N_TOKENS @ ?d))"
    using first_at_skip [of HDR_N_CHECKPOINTS ?a "HDR_N_TOKENS @ ?d @ ?t"] a
    by (simp add: HDR_N_CHECKPOINTS_def)
  then show ?thesis
    unfolding h using digits_free [of "CHR '' ''" m]
    by (intro header_val_app) (simp_all add: is_digit_def)
qed

lemma first_session:
  assumes "list_all is_hex sha"
  shows "first_at HDR_SESSION (''LIM_SAVE_V3 git_sha='' @ sha @ '' '' @ HDR_N_TOKENS @ nat_string n @ '' ''
      @ HDR_N_CHECKPOINTS @ nat_string m @ r)
    = map_option ((+) (length (''LIM_SAVE_V3 git_sha='' @ sha @ '' '' @ HDR_N_TOKENS @ nat_string n @ '' ''
      @ HDR_N_CHECKPOINTS @ nat_string m))) (first_at HDR_SESSION r)"
proof -
  have hex: "CHR ''s'' \<notin> set sha" using hex_free [OF assms, of "CHR ''s''"] by (simp add: is_hex_def is_digit_def)
  have dig: "CHR ''s'' \<notin> set (nat_string k)" for k
    using digits_free [of "CHR ''s''" k] by (simp add: is_digit_def)
  have skip: "CHR ''s'' \<notin> set a \<Longrightarrow>
      first_at HDR_SESSION (a @ b) = map_option ((+) (length a)) (first_at HDR_SESSION b)" for a b
    by (rule first_at_skip) (simp_all add: HDR_SESSION_def)
  have 1: "first_at HDR_SESSION (''s='' @ b) = map_option ((+) 2) (first_at HDR_SESSION b)" for b
    by (cases "first_at HDR_SESSION b") (simp_all add: HDR_SESSION_def)
  have 2: "first_at HDR_SESSION (''sha='' @ b) = map_option ((+) 4) (first_at HDR_SESSION b)" for b
    by (cases "first_at HDR_SESSION b") (simp_all add: HDR_SESSION_def)
  let ?e = "first_at HDR_SESSION r"
  have "first_at HDR_SESSION (''LIM_SAVE_V3 git_'' @ ''sha='' @ (sha @ '' n_token'') @ ''s='' @ (nat_string n @ '' n_checkpoint'')
      @ ''s='' @ nat_string m @ r)
    = map_option ((+) (length (''LIM_SAVE_V3 git_'' @ ''sha='' @ (sha @ '' n_token'') @ ''s='' @ (nat_string n @ '' n_checkpoint'')
      @ ''s='' @ nat_string m))) ?e"
    using hex dig [of n] dig [of m]
    by (subst skip, simp, subst 2, subst skip, simp, subst 1, subst skip, simp, subst 1, subst skip, simp)
      (cases ?e; simp)
  then show ?thesis by (simp add: HDR_N_TOKENS_def HDR_N_CHECKPOINTS_def)
qed

lemma header_session:
  assumes "list_all is_hex sha"
  shows "header_val (save_header sha n m s) HDR_SESSION = (if s \<ge> 0 then Some (int_string s) else None)"
proof -
  let ?a = "''LIM_SAVE_V3 git_sha='' @ sha @ '' '' @ HDR_N_TOKENS @ nat_string n @ '' ''
      @ HDR_N_CHECKPOINTS @ nat_string m"
  show ?thesis
  proof (cases "s \<ge> 0")
    case True
    have h: "save_header sha n m s = (?a @ '' '') @ HDR_SESSION @ int_string s"
      using True by (simp add: save_header_def HDR_MAGIC_def)
    have "first_at HDR_SESSION ('' '' @ HDR_SESSION @ int_string s) = Some 1"
      by (simp add: HDR_SESSION_def)
    then have "first_at HDR_SESSION ((?a @ '' '') @ HDR_SESSION @ int_string s) = Some (length (?a @ '' ''))"
      using first_session [OF assms, of n m "'' '' @ HDR_SESSION @ int_string s"] by simp
    moreover have "CHR '' '' \<notin> set (int_string s)"
      using digits_free [of "CHR '' ''" "nat s"] True by (simp add: is_digit_def int_string_def)
    ultimately have "header_val ((?a @ '' '') @ HDR_SESSION @ int_string s @ []) HDR_SESSION = Some (int_string s)"
      by (intro header_val_app) (simp_all only: append_Nil2 simp_thms)
    then have "header_val ((?a @ '' '') @ HDR_SESSION @ int_string s) HDR_SESSION = Some (int_string s)"
      by (simp only: append_Nil2)
    with True show ?thesis by (simp only: h if_True)
  next
    case False
    then have h: "save_header sha n m s = ?a @ []" by (simp add: save_header_def HDR_MAGIC_def)
    have "first_at HDR_SESSION (?a @ []) = None"
      using first_session [OF assms, of n m "[]"] by (simp add: HDR_SESSION_def)
    with False show ?thesis unfolding h header_val_def str_find_0 by simp
  qed
qed

text \<open>What a save must satisfy for its header to be readable: a hexadecimal id that leaves room in the
  256 bytes the reader looks at, counts below \<open>2 ^ 61\<close>, a session number of type \<open>int\<close>.\<close>

definition savable :: "string \<Rightarrow> token list \<Rightarrow> prompt_checkpoint list \<Rightarrow> int \<Rightarrow> bool" where
  "savable sha tokens cps session \<longleftrightarrow> list_all is_hex sha
     \<and> length tokens < 2 ^ 60 \<and> length cps < 2 ^ 60 \<and> session < 2 ^ 31
     \<and> length (save_header sha (length tokens) (length cps) session) < 256"

lemma save_header_chars:
  assumes "list_all is_hex sha"
  shows "ch_nl \<notin> set (save_header sha n m s)"
  using hex_free [OF assms, of ch_nl] digits_free [of ch_nl]
  by (auto simp: save_header_def hdr_defs is_hex_def is_digit_def int_string_def)

lemma read_header_of_save:
  assumes "savable sha tokens cps session"
  defines "h \<equiv> save_header sha (length tokens) (length cps) session"
  shows "read_save_header (Some (take k (save_bytes sha tokens cps session)))
     = (if length h < k then Some h else None)"
proof -
  obtain b where b: "save_bytes sha tokens cps session = h @ ch_nl # b"
    by (simp add: save_bytes_def h_def)
  have nl: "ch_nl \<notin> set h" using assms(1) save_header_chars by (simp add: h_def savable_def)
  have len: "length h < 256" using assms(1) by (simp add: h_def savable_def)
  show ?thesis
  proof (cases "length h < k")
    case True
    then have "take MAX_HEAD (take k (h @ ch_nl # b)) = h @ ch_nl # take (min MAX_HEAD k - length h - 1) b"
      using len by (auto simp: MAX_HEAD_def take_Cons' min_def)
    with True nl show ?thesis
      by (simp add: read_save_header_def b str_find_0 first_at_single Let_def)
  next
    case False
    then have "ch_nl \<notin> set (take MAX_HEAD (take k (h @ ch_nl # b)))"
      using nl by (auto dest: in_set_takeD)
    then have "str_find (take MAX_HEAD (take k (h @ ch_nl # b))) [ch_nl] 0 = None"
      by (simp add: str_find_single_None)
    with False show ?thesis by (simp add: read_save_header_def b Let_def)
  qed
qed

lemma parse_header_of_save:
  assumes "savable sha tokens cps session"
  shows "parse_v3_header (save_header sha (length tokens) (length cps) session) wc ws
    = Inr (Some (length tokens, if wc then length cps else 0, if ws \<and> session \<ge> 0 then session else - 1))"
proof -
  have hex: "list_all is_hex sha" using assms by (simp add: savable_def)
  have magic: "substr (save_header sha n m s) 0 (length HDR_MAGIC) = HDR_MAGIC" for n m s
    by (simp add: save_header_def substr_def HDR_MAGIC_def)
  have num: "stoull (nat_string (length tokens)) = Inr (length tokens)"
    "stoull (nat_string (length cps)) = Inr (length cps)"
    using assms stoull_nat_string [of "[]" "length tokens"] stoull_nat_string [of "[]" "length cps"]
    by (simp_all add: savable_def)
  have ses: "session \<ge> 0 \<Longrightarrow> stoi (int_string session) = Inr session"
    using assms stoi_int_string [of "[]" session] by (simp add: savable_def)
  show ?thesis
    using header_n_tokens [OF hex] header_n_checkpoints [OF hex] header_session [OF hex] num ses
    by (simp add: parse_v3_header_def magic)
qed

lemma body_of_save:
  assumes "length (save_header sha (length tokens) (length cps) session) < k"
  shows "drop (length (save_header sha (length tokens) (length cps) session) + 1)
      (take k (save_bytes sha tokens cps session))
    = take (k - length (save_header sha (length tokens) (length cps) session) - 1)
        (concat (map int32_bytes tokens) @ concat (map write_checkpoint cps))"
  using assms by (simp add: save_bytes_def take_Cons' drop_Cons')

lemma length_tokens_bytes: "length (concat (map int32_bytes ts)) = 4 * length ts"
  by (induction ts) simp_all

lemma read_tokens_of_save:
  assumes "savable sha tokens cps session"
  shows "read_token_save (Some (take k (save_bytes sha tokens cps session)))
    = Inr (if length (save_header sha (length tokens) (length cps) session) + 1 + 4 * length tokens \<le> k
        then Some tokens
        else if tokens = [] \<and> length (save_header sha (length tokens) (length cps) session) < k
        then Some [] else None)"
proof -
  define h where "h = save_header sha (length tokens) (length cps) session"
  let ?T = "concat (map int32_bytes tokens)" and ?C = "concat (map write_checkpoint cps)"
  show ?thesis
  proof (cases "length h < k")
    case False
    then show ?thesis
      using read_header_of_save [OF assms, of k] by (simp add: read_token_save_def h_def)
  next
    case True
    define j where "j = k - length h - 1"
    have body: "drop (length h + 1) (take k (save_bytes sha tokens cps session)) = take j (?T @ ?C)"
      using body_of_save [of sha tokens cps session k] True by (simp add: h_def j_def)
    have "read_token_save (Some (take k (save_bytes sha tokens cps session)))
        = Inr (map_option fst (read_n read_int32 (length tokens) (take j (?T @ ?C))))"
      using read_header_of_save [OF assms, of k] parse_header_of_save [OF assms] True body
      by (simp add: read_token_save_def h_def)
    moreover have "read_n read_int32 (length tokens) (take j (?T @ ?C)) = Some (tokens, take (j - length ?T) ?C)"
      if "length ?T \<le> j"
      using that int32.read_all [of tokens "take (j - length ?T) ?C"] by (simp add: take_all)
    moreover have "read_n read_int32 (length tokens) (take j (?T @ ?C)) = None" if "j < length ?T"
      using that int32.read_all_short [of j tokens] by simp
    ultimately show ?thesis
      using True by (cases "length ?T \<le> j") (auto simp: length_tokens_bytes h_def j_def)
  qed
qed

lemma to_int64_id: "0 \<le> i \<Longrightarrow> i < 2 ^ 63 \<Longrightarrow> to_int64 i = i"
  by (simp add: to_int64_def)

lemma read_checkpoints_of_save:
  assumes "savable sha tokens cps session"
  shows "read_checkpoint_offsets (Some (take k (save_bytes sha tokens cps session)))
    = Inr (if length (save_bytes sha tokens cps session) \<le> k then map stored_checkpoint cps else [])"
proof -
  define h where "h = save_header sha (length tokens) (length cps) session"
  let ?T = "concat (map int32_bytes tokens)" and ?C = "concat (map write_checkpoint cps)"
  have len: "length (save_bytes sha tokens cps session) = length h + 1 + 4 * length tokens + length ?C"
    by (simp add: save_bytes_def h_def length_tokens_bytes)
  show ?thesis
  proof (cases "length h < k \<and> cps \<noteq> []")
    case False
    then show ?thesis
      using read_header_of_save [OF assms, of k] parse_header_of_save [OF assms, of True False] len
      by (auto simp: read_checkpoint_offsets_def h_def)
  next
    case True
    define off where "off = length h + 1 + 4 * length tokens"
    have "int (length tokens * 4) < 2 ^ 62" "int (length h + 1) < 2 ^ 62"
      using assms by (auto simp: savable_def h_def)
    then have o: "to_int64 (int (length h + 1) + to_int64 (int (length tokens * 4))) = int off"
      by (simp add: to_int64_id off_def)
    have d: "drop off (take k (save_bytes sha tokens cps session)) = take (k - off) ?C"
    proof -
      have "save_bytes sha tokens cps session = (h @ [ch_nl] @ ?T) @ ?C" "length (h @ [ch_nl] @ ?T) = off"
        by (simp_all add: save_bytes_def h_def off_def length_tokens_bytes)
      then show ?thesis by (metis append_eq_conv_conj drop_take)
    qed
    have "read_checkpoint_offsets (Some (take k (save_bytes sha tokens cps session)))
        = (case read_n read_checkpoint (length cps) (take (k - off) ?C) of
             None \<Rightarrow> Inr [] | Some (cs, _) \<Rightarrow> Inr cs)"
      using read_header_of_save [OF assms, of k] parse_header_of_save [OF assms, of True False] True o
      by (simp add: read_checkpoint_offsets_def h_def [symmetric] d Let_def)
    moreover have "read_n read_checkpoint (length cps) (take (k - off) ?C)
        = Some (map stored_checkpoint cps, [])" if "length ?C \<le> k - off"
      using that checkpoint.read_all_exact [of cps] by simp
    moreover have "read_n read_checkpoint (length cps) (take (k - off) ?C) = None"
      if "k - off < length ?C"
      using that checkpoint.read_all_short [of "k - off" cps] by simp
    moreover have "?C \<noteq> []"
      using True by (cases cps) (auto simp: write_checkpoint_def int32_bytes_def Let_def)
    moreover have "length (save_bytes sha tokens cps session) \<le> k \<longleftrightarrow> length ?C \<le> k - off \<and> off \<le> k"
      using len off_def by linarith
    ultimately show ?thesis by (cases "length ?C \<le> k - off") auto
  qed
qed

subsection \<open>Properties\<close>

lemma written_save_read:
  assumes "savable sha tokens cps session"
    and "write_token_save_v3 capacity sha tokens cps session = (file, True)"
    and "list_all (\<lambda>c. - (2 ^ 31) \<le> cp_n_past c \<and> cp_n_past c < 2 ^ 31 \<and> length (cp_prompt c) \<le> UINT16_MAX) cps"
  shows "read_token_save file = Inr (Some tokens)
    \<and> read_checkpoint_offsets file = Inr cps
    \<and> read_save_session file = (if session \<ge> 0 then session else - 1)"
proof -
  obtain k where k: "file = Some (take k (save_bytes sha tokens cps session))"
    "length (save_bytes sha tokens cps session) \<le> k"
    using assms(2) by (auto simp: write_token_save_v3_def Let_def split: option.splits)
  have len: "length (save_header sha (length tokens) (length cps) session) + 1 + 4 * length tokens \<le> k"
    using k(2) by (simp add: save_bytes_def length_tokens_bytes)
  have "stored_checkpoint c = c" if "c \<in> set cps" for c
    using assms(3) that
    by (auto simp: stored_checkpoint_def cap_prompt_id list_all_iff signed_of_int signed_take_bit_int_eq_self
        intro!: prompt_checkpoint.equality)
  then have "map stored_checkpoint cps = cps" by (simp add: map_idI)
  then show ?thesis
    using k len read_tokens_of_save [OF assms(1), of k] read_checkpoints_of_save [OF assms(1), of k]
      read_header_of_save [OF assms(1), of k] parse_header_of_save [OF assms(1), of False True]
    by (simp add: read_save_session_def)
qed

text \<open>C14: A save that was written completely is read back completely: the tokens, every checkpoint (its
  position, and its label capped at 65535 bytes) and the session number.\<close>

theorem save_roundtrip:
  assumes "savable sha tokens cps session"
    and "write_token_save_v3 capacity sha tokens cps session = (file, True)"
    and "list_all (\<lambda>c. - (2 ^ 31) \<le> cp_n_past c \<and> cp_n_past c < 2 ^ 31 \<and> length (cp_prompt c) \<le> UINT16_MAX) cps"
  shows "read_token_save file = Inr (Some tokens)
    \<and> read_checkpoint_offsets file = Inr cps
    \<and> read_save_session file = (if session \<ge> 0 then session else - 1)"
  by (rule written_save_read [OF assms])

definition save_example :: "prompt_checkpoint list" where
  "save_example = [\<lparr>cp_n_past = 2, cp_prompt = ''hi''\<rparr>]"

lemmas save_example_simps = savable_def is_hex_def is_digit_def save_header_def hdr_defs
  nat_string.simps int_string_def digit_char_def write_token_save_v3_def Let_def save_bytes_def
  write_checkpoint_def cap_prompt_def save_example_def UINT16_MAX_def

theorem save_roundtrip_witness:
  "read_token_save (fst (write_token_save_v3 (Some 500) ''0af'' [7, 70000, 3] save_example 4)) = Inr (Some [7, 70000, 3])
    \<and> read_checkpoint_offsets (fst (write_token_save_v3 (Some 500) ''0af'' [7, 70000, 3] save_example 4)) = Inr save_example
    \<and> read_save_session (fst (write_token_save_v3 (Some 500) ''0af'' [7, 70000, 3] save_example 4)) = (if (4::int) \<ge> 0 then 4 else - 1)"
  by (rule save_roundtrip [where sha = "''0af''" and capacity = "Some 500"])
    (simp_all add: save_example_simps)

text \<open>C15: A save that was cut short at any byte (a full disk, a crash) reports failure, and reading it
  raises no exception, never yields part of the tokens (all of them or none), and yields no
  checkpoints.\<close>

theorem save_truncated:
  assumes "savable sha tokens cps session"
    and "write_token_save_v3 capacity sha tokens cps session = (file, False)"
  shows "read_token_save file \<in> {Inr None, Inr (Some tokens)} \<and> read_checkpoint_offsets file = Inr []"
proof (cases capacity)
  case None
  with assms(2) show ?thesis
    by (simp add: write_token_save_v3_def read_token_save_def read_checkpoint_offsets_def
        read_save_header_def)
next
  case (Some k)
  then have "file = Some (take k (save_bytes sha tokens cps session))"
    "\<not> length (save_bytes sha tokens cps session) \<le> k"
    using assms(2) by (auto simp: write_token_save_v3_def Let_def)
  then show ?thesis
    using read_tokens_of_save [OF assms(1), of k] read_checkpoints_of_save [OF assms(1), of k] by simp
qed

theorem save_truncated_witness:
  "read_token_save (fst (write_token_save_v3 (Some 75) ''0af'' [7, 70000, 3] save_example 4))
      \<in> {Inr None, Inr (Some [7, 70000, 3])}
    \<and> read_checkpoint_offsets (fst (write_token_save_v3 (Some 75) ''0af'' [7, 70000, 3] save_example 4)) = Inr []"
  by (rule save_truncated [where sha = "''0af''" and capacity = "Some 75" and cps = save_example and session = 4])
    (simp_all add: save_example_simps)

end
