(* ===== verification/Lim_Cache.thy ===== *)
theory Lim_Cache
  imports Lim_Save
begin

section \<open>The cache of KV states (filesystem.cc)\<close>

text \<open>
  After a save or a slow restore the KV state of the session is written to
  \<open>$LIM_CACHE_DIR/<name>-<hash>\<close>: a header line with the two sizes, the state of the main context and
  that of the draft mirror. The directory is the list of its entries in the order \<open>readdir\<close> gives
  them. SHA-256 (OpenSSL) and the serialisation of a context (\<open>llama_state_set_data\<close>,
  \<open>llama_state_get_data\<close>, \<open>llama_memory_seq_pos_max\<close> of llama.cpp) are parameters; \<open>'kv\<close> is the state
  of a context.
\<close>

type_synonym dir = "(string \<times> string) list"

definition SAVE_EXT :: string where "SAVE_EXT = ''.save''"

definition ends_with :: "string \<Rightarrow> string \<Rightarrow> bool" where
  "ends_with s suf \<longleftrightarrow> length suf \<le> length s \<and> drop (length s - length suf) s = suf"

definition append_save_ext :: "string \<Rightarrow> string" where
  "append_save_ext path = (if \<not> ends_with path SAVE_EXT then path @ SAVE_EXT else path)"

definition apply_save_dir :: "string \<Rightarrow> string \<Rightarrow> string" where
  "apply_save_dir save_dir path =
     (if path \<noteq> [] \<and> hd path = CHR ''/'' then path else save_dir @ ''/'' @ path)"

definition model_identifier :: "string \<Rightarrow> string" where
  "model_identifier model_path =
     (case str_rfind model_path ''/'' of Some slash \<Rightarrow> drop (slash + 1) model_path
      | None \<Rightarrow> model_path)"

definition cache_hash :: "(string \<Rightarrow> string) \<Rightarrow> token list \<Rightarrow> string \<Rightarrow> string" where
  "cache_hash sha256_hex tokens model_path =
     take 12 (sha256_hex (concat (map int32_bytes tokens) @ ''|'' @ model_identifier model_path))"

definition save_file_name :: "string \<Rightarrow> string" where
  "save_file_name save_path =
     (let base = (case str_rfind save_path ''/'' of Some slash \<Rightarrow> drop (slash + 1) save_path
                  | None \<Rightarrow> save_path)
      in if ends_with base SAVE_EXT then take (length base - length SAVE_EXT) base else base)"

definition cache_filename :: "string \<Rightarrow> string \<Rightarrow> string" where
  "cache_filename save_path hash = save_file_name save_path @ ''-'' @ hash"

definition find_cache_files :: "dir \<Rightarrow> string \<Rightarrow> dir" where
  "find_cache_files d sfx =
     filter (\<lambda>(fname, _). length sfx < length fname \<and> ends_with fname sfx) d"

definition find_cache_files_by_prefix :: "dir \<Rightarrow> string \<Rightarrow> dir" where
  "find_cache_files_by_prefix d prefix' = filter (\<lambda>(fname, _). prefix prefix' fname) d"

definition unlink :: "string \<Rightarrow> dir \<Rightarrow> dir" where
  "unlink name d = filter (\<lambda>(fname, _). fname \<noteq> name) d"

definition dir_put :: "string \<Rightarrow> string \<Rightarrow> dir \<Rightarrow> dir" where
  "dir_put name bytes d = unlink name d @ [(name, bytes)]"

subsection \<open>The header of an entry\<close>

definition CACHE_MAGIC :: string where "CACHE_MAGIC = ''LIM_CACHE_V1 ''"

definition cache_field :: "string \<Rightarrow> string \<Rightarrow> nat option" where
  "cache_field header key =
     (case header_val header key of
        None \<Rightarrow> None
      | Some val \<Rightarrow> (case stoull val of Inl _ \<Rightarrow> None | Inr n \<Rightarrow> Some n))"

definition parse_cache_header :: "string \<Rightarrow> (nat \<times> nat) option" where
  "parse_cache_header header =
     (if \<not> prefix CACHE_MAGIC header then None
      else case cache_field header ''main_size='' of
        None \<Rightarrow> None
      | Some m \<Rightarrow> (case cache_field header ''mtp_size='' of None \<Rightarrow> None | Some t \<Rightarrow> Some (m, t)))"

text \<open>The first newline in the first 512 bytes.\<close>

definition cache_header_end :: "string \<Rightarrow> nat option" where
  "cache_header_end bytes = str_find (take 512 bytes) [ch_nl] 0"

definition read_cache_header_line :: "string \<Rightarrow> string option" where
  "read_cache_header_line bytes = map_option (\<lambda>nl. take nl bytes) (cache_header_end bytes)"

definition u64 :: "nat \<Rightarrow> nat" where "u64 n = n mod 2 ^ 64"

subsection \<open>Loading\<close>

text \<open>What the loader makes of the bytes of an entry before it touches a context.\<close>

datatype entry = Unreadable | Delete_Entry | Payload string string

definition read_entry :: "string \<Rightarrow> entry" where
  "read_entry bytes =
     (if bytes = [] then Unreadable
      else case cache_header_end bytes of
        None \<Rightarrow> Delete_Entry
      | Some nl \<Rightarrow>
          (case parse_cache_header (take nl bytes) of
             None \<Rightarrow> Delete_Entry
           | Some (main_size, mtp_size) \<Rightarrow>
               (let payload = drop (nl + 1) bytes; payload_size = length bytes - (nl + 1) in
                if main_size > payload_size \<or> mtp_size > payload_size - main_size
                   \<or> payload_size \<noteq> u64 (main_size + mtp_size)
                then Delete_Entry
                else Payload (take main_size payload) (take mtp_size (drop main_size payload)))))"

record 'kv cache_state =
  cdir :: dir
  kv_main :: 'kv
  kv_mtp :: "'kv option"
  mtp_loaded :: bool

text \<open>The mirror: \<open>set_data kv blob\<close> is the new state and whether all of the blob was taken.\<close>

definition load_mirror ::
    "('kv \<Rightarrow> string \<Rightarrow> 'kv \<times> bool) \<Rightarrow> ('kv \<Rightarrow> int) \<Rightarrow> ('kv \<Rightarrow> 'kv) \<Rightarrow> int \<Rightarrow> string
     \<Rightarrow> 'kv cache_state \<Rightarrow> 'kv cache_state" where
  "load_mirror set_data pos_max clear max_pos blob st =
     (case kv_mtp st of
        None \<Rightarrow> st
      | Some mtp \<Rightarrow>
          (if blob = [] then st
           else let (mtp', ok) = set_data mtp blob;
                    mtp_ok = (ok \<and> \<not> pos_max mtp' < max_pos)
             in if mtp_ok then st\<lparr>kv_mtp := Some mtp', mtp_loaded := True\<rparr>
                else st\<lparr>kv_mtp := Some (clear mtp')\<rparr>))"

fun load_entries ::
    "('kv \<Rightarrow> string \<Rightarrow> 'kv \<times> bool) \<Rightarrow> ('kv \<Rightarrow> int) \<Rightarrow> ('kv \<Rightarrow> 'kv) \<Rightarrow> nat \<Rightarrow> dir
     \<Rightarrow> 'kv cache_state \<Rightarrow> 'kv cache_state \<times> bool" where
  "load_entries set_data pos_max clear n_tokens [] st = (st, False)"
| "load_entries set_data pos_max clear n_tokens ((name, bytes) # es) st =
     (case read_entry bytes of
        Unreadable \<Rightarrow> load_entries set_data pos_max clear n_tokens es st
      | Delete_Entry \<Rightarrow>
          load_entries set_data pos_max clear n_tokens es (st\<lparr>cdir := unlink name (cdir st)\<rparr>)
      | Payload main mtp \<Rightarrow>
          (let (kv, ok) = set_data (kv_main st) main; st1 = st\<lparr>kv_main := kv\<rparr> in
           if \<not> ok then load_entries set_data pos_max clear n_tokens es st1
           else if pos_max kv + 1 \<noteq> int n_tokens then
             load_entries set_data pos_max clear n_tokens es
               (st1\<lparr>kv_main := clear kv, cdir := unlink name (cdir st)\<rparr>)
           else (load_mirror set_data pos_max clear (pos_max kv) mtp st1, True)))"

definition try_load_v1_cache ::
    "('kv \<Rightarrow> string \<Rightarrow> 'kv \<times> bool) \<Rightarrow> ('kv \<Rightarrow> int) \<Rightarrow> ('kv \<Rightarrow> 'kv) \<Rightarrow> (string \<Rightarrow> string)
     \<Rightarrow> token list \<Rightarrow> string \<Rightarrow> 'kv cache_state \<Rightarrow> 'kv cache_state \<times> bool" where
  "try_load_v1_cache set_data pos_max clear sha256_hex tokens model_path st =
     (let hash = cache_hash sha256_hex tokens model_path;
          st0 = st\<lparr>mtp_loaded := False\<rparr>
      in load_entries set_data pos_max clear (length tokens)
           (find_cache_files (cdir st) (''-'' @ hash)) st0)"

subsection \<open>Writing\<close>

definition remove_orphans :: "string \<Rightarrow> string \<Rightarrow> dir \<Rightarrow> dir" where
  "remove_orphans save_path hash d =
     (let name = save_file_name save_path in
      if name = [] then d
      else let prefix' = name @ ''-'' in
        fold (\<lambda>(fname, _) d. if fname \<noteq> prefix' @ hash then unlink fname d else d)
          (find_cache_files_by_prefix d prefix') d)"

definition remove_all :: "string \<Rightarrow> dir \<Rightarrow> dir" where
  "remove_all sfx d = fold (\<lambda>(fname, _) d. unlink fname d) (find_cache_files d sfx) d"

text \<open>The sizes of an entry of the right length.\<close>

definition entry_sizes :: "string \<Rightarrow> (nat \<times> nat) option" where
  "entry_sizes bytes =
     (case read_cache_header_line bytes of
        None \<Rightarrow> None
      | Some header \<Rightarrow>
          (case parse_cache_header header of
             None \<Rightarrow> None
           | Some (ms, ts) \<Rightarrow>
               (if ms > length bytes \<or> ts > length bytes - ms
                   \<or> length bytes \<noteq> u64 (length header + 1 + ms + ts)
                then None else Some (ms, ts))))"

text \<open>The sweep over the entries with the hash: the directory left, whether a valid entry and whether
  one with a mirror was seen.\<close>

fun sweep :: "dir \<Rightarrow> dir \<times> bool \<times> bool \<Rightarrow> dir \<times> bool \<times> bool" where
  "sweep [] acc = acc"
| "sweep ((name, bytes) # es) (d, valid, mirror) =
     (case entry_sizes bytes of
        None \<Rightarrow> sweep es (unlink name d, valid, mirror)
      | Some (ms, ts) \<Rightarrow> sweep es (d, True, mirror \<or> ts > 0))"

definition cache_file_header :: "nat \<Rightarrow> nat \<Rightarrow> string" where
  "cache_file_header n m =
     CACHE_MAGIC @ ''main_size='' @ nat_string n @ '' mtp_size='' @ nat_string m"

text \<open>\<open>get_data\<close> gives the bytes of a context (empty when it cannot be serialised); \<open>capacity\<close> is what the
  device takes of the new file, as for a save.\<close>

definition write_v1_cache ::
    "('kv \<Rightarrow> string) \<Rightarrow> ('kv \<Rightarrow> int) \<Rightarrow> (string \<Rightarrow> string) \<Rightarrow> nat option \<Rightarrow> string \<Rightarrow> token list
     \<Rightarrow> string \<Rightarrow> string \<Rightarrow> 'kv \<Rightarrow> 'kv option \<Rightarrow> dir \<Rightarrow> dir \<times> bool" where
  "write_v1_cache get_data pos_max sha256_hex capacity save_path tokens model_path old_hash ctx ctx_mtp d =
     (let hash = cache_hash sha256_hex tokens model_path;
          d1 = remove_orphans save_path hash d;
          d2 = (if old_hash \<noteq> [] then remove_all (''-'' @ old_hash) d1 else d1);
          (d3, existing_valid, existing_has_mirror) =
            sweep (find_cache_files d2 (''-'' @ hash)) (d2, False, False)
      in if existing_has_mirror \<or> (ctx_mtp = None \<and> existing_valid) then (d3, True)
         else let d4 = remove_all (''-'' @ hash) d3 in
           if u64 (nat ((pos_max ctx + 1) mod 2 ^ 64)) \<noteq> length tokens then (d4, False)
           else let state = get_data ctx in
             if state = [] then (d4, False)
             else let mtp = (case ctx_mtp of None \<Rightarrow> [] | Some c \<Rightarrow> get_data c);
                      file = cache_file_header (length state) (length mtp) @ [ch_nl] @ state @ mtp
               in case capacity of
                    None \<Rightarrow> (d4, False)
                  | Some k \<Rightarrow>
                      (dir_put (cache_filename save_path hash) (take k file) d4, length file \<le> k))"

subsection \<open>Deleting a save\<close>

text \<open>\<open>saves\<close> is the directory of the saves. The result, the entries deleted, or the exception of the
  reader.\<close>

definition delete_save_and_cache ::
    "(string \<Rightarrow> string) \<Rightarrow> string \<Rightarrow> string \<Rightarrow> dir \<Rightarrow> dir \<Rightarrow> (dir \<times> dir \<times> bool \<times> nat) res" where
  "delete_save_and_cache sha256_hex save_path model_path saves d =
     res_bind (read_token_save (map_of saves save_path)) (\<lambda>tokens.
       let hash = (case tokens of None \<Rightarrow> [] | Some ts \<Rightarrow> cache_hash sha256_hex ts model_path) in
       if map_of saves save_path = None then Inr (saves, d, False, 0)
       else let saves' = unlink save_path saves in
         if hash \<noteq> [] then Inr (saves', remove_all (''-'' @ hash) d, True,
                               length (find_cache_files d (''-'' @ hash)))
         else Inr (saves', d, True, 0))"

subsection \<open>The directory\<close>

lemma in_unlink: "x \<in> set (unlink n d) \<longleftrightarrow> x \<in> set d \<and> fst x \<noteq> n"
  by (cases x) (auto simp: unlink_def)

lemma fold_unlink: "x \<in> set (fold (\<lambda>(fname, _) d. unlink fname d) es d)
    \<longleftrightarrow> x \<in> set d \<and> fst x \<notin> fst ` set es"
  by (induction es arbitrary: d) (auto simp: in_unlink)

lemma in_find: "x \<in> set (find_cache_files d sfx)
    \<longleftrightarrow> x \<in> set d \<and> length sfx < length (fst x) \<and> ends_with (fst x) sfx"
  by (cases x) (auto simp: find_cache_files_def)

lemma find_remove_all: "find_cache_files (remove_all sfx d) sfx = []"
proof -
  have "x \<notin> set (find_cache_files (remove_all sfx d) sfx)" for x
    by (auto simp: in_find remove_all_def fold_unlink)
  then show ?thesis by (cases "find_cache_files (remove_all sfx d) sfx") auto
qed

lemma find_subset: "set d \<subseteq> set d' \<Longrightarrow> find_cache_files d' sfx = [] \<Longrightarrow> find_cache_files d sfx = []"
  by (auto simp: find_cache_files_def filter_empty_conv)

lemma remove_all_subset: "set (remove_all sfx d) \<subseteq> set d"
  by (auto simp: remove_all_def fold_unlink)

lemma fold_shrinks: "(\<And>e d. set (f e d) \<subseteq> set d) \<Longrightarrow> set (fold f es d) \<subseteq> set d"
proof (induction es arbitrary: d)
  case (Cons e es)
  have "set (fold f es (f e d)) \<subseteq> set (f e d)" by (rule Cons.IH [OF Cons.prems])
  with Cons.prems [of e d] show ?case by simp
qed simp

lemma unlink_subset: "set (unlink n d) \<subseteq> set d"
  by (auto simp: unlink_def)

lemma remove_orphans_subset: "set (remove_orphans p h d) \<subseteq> set d"
proof (cases "save_file_name p = []")
  case False
  then show ?thesis
    by (simp add: remove_orphans_def Let_def) (rule fold_shrinks, auto dest: subsetD [OF unlink_subset] split: prod.splits)
qed (simp add: remove_orphans_def)

lemma ends_with_app: "ends_with (a @ s) s"
  by (simp add: ends_with_def)

lemma find_dir_put:
  assumes "find_cache_files d sfx = []" "name = a @ sfx" "a \<noteq> []"
  shows "find_cache_files (dir_put name bytes d) sfx = [(name, bytes)]"
proof -
  have "find_cache_files (unlink name d) sfx = []"
    using assms(1) by (rule find_subset [rotated]) (auto simp: in_unlink)
  then show ?thesis
    using assms(2,3) by (simp add: dir_put_def find_cache_files_def ends_with_app)
qed

subsection \<open>Entries\<close>

lemma stoull_digits: "n < 2 ^ 64 \<Longrightarrow> stoull (nat_string n) = Inr n"
  using stoull_nat_string [of "[]" n] by simp

lemma parse_cache_file_header:
  assumes "n < 2 ^ 64" "m < 2 ^ 64"
  shows "parse_cache_header (cache_file_header n m) = Some (n, m)"
proof -
  have dig: "\<not> is_digit c \<Longrightarrow> c \<notin> set (nat_string k)" for c k by (rule digits_free)
  let ?k1 = "''main_size=''" and ?k2 = "''mtp_size=''"
  have "first_at ?k1 (CACHE_MAGIC @ ?k1 @ nat_string n @ '' mtp_size='' @ nat_string m) = Some (length CACHE_MAGIC)"
    using first_at_skip [of ?k1 CACHE_MAGIC "?k1 @ nat_string n @ '' mtp_size='' @ nat_string m"]
    by (simp add: CACHE_MAGIC_def)
  then have "header_val (CACHE_MAGIC @ ?k1 @ nat_string n @ '' mtp_size='' @ nat_string m) ?k1 = Some (nat_string n)"
    using dig [of "CHR '' ''" n] by (intro header_val_app) (simp_all add: is_digit_def)
  moreover
  let ?a = "CACHE_MAGIC @ ?k1 @ nat_string n @ '' ''"
  have "first_at ?k2 (nat_string n @ '' '' @ ?k2 @ nat_string m) = Some (length (nat_string n) + 1)"
    using first_at_skip [of ?k2 "nat_string n" "'' '' @ ?k2 @ nat_string m"] dig [of "CHR ''m''" n]
    by (simp add: is_digit_def)
  then have "first_at ?k2 (?k1 @ nat_string n @ '' '' @ ?k2 @ nat_string m) = Some (length (?k1 @ nat_string n @ '' ''))"
    by simp
  then have "first_at ?k2 (CACHE_MAGIC @ ?k1 @ nat_string n @ '' '' @ ?k2 @ nat_string m) = Some (length ?a)"
    using first_at_skip [of ?k2 CACHE_MAGIC "?k1 @ nat_string n @ '' '' @ ?k2 @ nat_string m"]
    by (simp add: CACHE_MAGIC_def)
  then have "header_val (?a @ ?k2 @ nat_string m @ []) ?k2 = Some (nat_string m)"
    using dig [of "CHR '' ''" m] by (intro header_val_app) (simp_all add: is_digit_def)
  ultimately show ?thesis
    using assms
    by (simp add: parse_cache_header_def cache_field_def cache_file_header_def stoull_digits)
qed

lemma cache_file_header_nl: "ch_nl \<notin> set (cache_file_header n m)"
  using digits_free [of ch_nl] by (simp add: cache_file_header_def CACHE_MAGIC_def is_digit_def)

text \<open>A tiled entry: header, newline, and exactly the two blobs the header announces.\<close>

definition tiled :: "string \<Rightarrow> string \<Rightarrow> string \<Rightarrow> bool" where
  "tiled bytes main mtp \<longleftrightarrow>
     (case cache_header_end bytes of
        None \<Rightarrow> False
      | Some nl \<Rightarrow> bytes = take nl bytes @ [ch_nl] @ main @ mtp
          \<and> parse_cache_header (take nl bytes) = Some (length main, length mtp))"

lemma cache_header_end_app:
  assumes "ch_nl \<notin> set h" "length h < 512"
  shows "cache_header_end (h @ ch_nl # r) = Some (length h)"
proof -
  have "take 512 (h @ ch_nl # r) = h @ ch_nl # take (511 - length h) r"
    using assms(2) by (simp add: take_Cons')
  with assms(1) show ?thesis by (simp add: cache_header_end_def str_find_0 first_at_single)
qed

lemma cache_header_end_split:
  assumes "cache_header_end bytes = Some nl"
  shows "bytes = take nl bytes @ ch_nl # drop (nl + 1) bytes" "nl < length bytes"
proof -
  obtain u xs where u: "take 512 bytes = u @ ch_nl # xs" "nl = length u"
    using assms unfolding cache_header_end_def by (elim str_find_single) simp
  have "bytes = u @ ch_nl # xs @ drop 512 bytes"
    using arg_cong [OF u(1), of "\<lambda>x. x @ drop 512 bytes"] by simp
  with u(2) show "bytes = take nl bytes @ ch_nl # drop (nl + 1) bytes" "nl < length bytes"
    by (metis (no_types, lifting) append_eq_conv_conj add.commute drop_drop drop_Suc_Cons drop0
        plus_1_eq_Suc, metis length_append length_Cons less_add_Suc1 add_Suc_right)
qed

lemma read_entry_Payload:
  assumes "read_entry bytes = Payload main mtp"
  shows "tiled bytes main mtp"
proof -
  obtain nl m t where e: "cache_header_end bytes = Some nl" "parse_cache_header (take nl bytes) = Some (m, t)"
    and ok: "m \<le> length bytes - (nl + 1)" "t \<le> length bytes - (nl + 1) - m"
      "length bytes - (nl + 1) = u64 (m + t)"
    and bl: "main = take m (drop (nl + 1) bytes)" "mtp = take t (drop m (drop (nl + 1) bytes))"
    using assms by (auto simp: read_entry_def Let_def split: if_splits option.splits)
  have "m + t \<le> length bytes - (nl + 1)" using ok(1,2) by simp
  moreover have "u64 (m + t) \<le> m + t" by (simp add: u64_def)
  ultimately have sum: "length bytes - (nl + 1) = m + t" using ok(3) by simp
  then have "length main = m" "length mtp = t" "drop (nl + 1) bytes = main @ mtp"
    using bl by (auto simp: drop_drop [symmetric] simp del: drop_drop)
  with cache_header_end_split [OF e(1)] e show ?thesis by (simp add: tiled_def)
qed

lemma tiled_file:
  assumes "length state < 2 ^ 63" "length mtp < 2 ^ 63"
  defines "h \<equiv> cache_file_header (length state) (length mtp)"
  shows "cache_header_end (h @ [ch_nl] @ state @ mtp) = Some (length h)"
    and "parse_cache_header h = Some (length state, length mtp)"
proof -
  have len: "length (nat_string k) \<le> 20" if "k < 2 ^ 63" for k
  proof -
    have "length (nat_string k) \<le> n" if "k < 10 ^ n" "0 < n" for k n
      using that
    proof (induction n arbitrary: k)
      case (Suc n)
      show ?case
      proof (cases "k < 10")
        case False
        with Suc.prems have "0 < n" by (cases n) auto
        moreover have "k div 10 < 10 ^ n" using Suc.prems by (simp add: less_mult_imp_div_less)
        ultimately show ?thesis using Suc.IH [of "k div 10"] False
          by (subst nat_string.simps) simp
      qed (simp add: nat_string.simps)
    qed simp
    from this [of k 20] that show ?thesis by simp
  qed
  have "length h < 512"
    using len [OF assms(1)] len [OF assms(2)]
    by (simp add: h_def cache_file_header_def CACHE_MAGIC_def)
  then show "cache_header_end (h @ [ch_nl] @ state @ mtp) = Some (length h)"
    using cache_header_end_app [of h "state @ mtp"] cache_file_header_nl by (simp add: h_def)
  show "parse_cache_header h = Some (length state, length mtp)"
    unfolding h_def using assms by (intro parse_cache_file_header) simp_all
qed

lemma read_written_entry:
  assumes "length state < 2 ^ 62" "length mtp < 2 ^ 62"
  shows "read_entry (cache_file_header (length state) (length mtp) @ [ch_nl] @ state @ mtp)
    = Payload state mtp"
proof -
  note t = tiled_file [of state mtp]
  have "u64 (length state + length mtp) = length state + length mtp" using assms by (simp add: u64_def)
  then show ?thesis using t assms by (simp add: read_entry_def Let_def)
qed

lemma sizes_written_entry:
  assumes "length state < 2 ^ 62" "length mtp < 2 ^ 62"
  shows "entry_sizes (cache_file_header (length state) (length mtp) @ [ch_nl] @ state @ mtp)
    = Some (length state, length mtp)"
proof -
  note t = tiled_file [of state mtp]
  let ?h = "cache_file_header (length state) (length mtp)"
  have "cache_header_end (?h @ [ch_nl] @ state @ mtp) = Some (length ?h)" using t(1) assms by simp
  then have "length ?h < 512"
    using str_find_bounds(2) [of "take 512 (?h @ [ch_nl] @ state @ mtp)" "[ch_nl]" 0 "length ?h"]
    by (simp add: cache_header_end_def)
  then have "u64 (length ?h + 1 + length state + length mtp) = length ?h + 1 + length state + length mtp"
    using assms by (simp add: u64_def)
  then show ?thesis using t assms by (simp add: entry_sizes_def read_cache_header_line_def)
qed

subsection \<open>Loading and writing\<close>

lemma load_mirror_ok:
  assumes "\<not> mtp_loaded st" "load_mirror set_data pos_max clear p mtp st = st'"
  shows "kv_main st' = kv_main st
    \<and> (mtp_loaded st' \<longrightarrow> (\<exists>m0 m. kv_mtp st' = Some m \<and> set_data m0 mtp = (m, True) \<and> p \<le> pos_max m))"
  using assms by (auto simp: load_mirror_def Let_def not_less split: option.splits if_splits prod.splits)

lemma load_entries_ok:
  assumes "load_entries set_data pos_max clear n es st = (st', r)" "\<not> mtp_loaded st"
  shows "if r then \<exists>name bytes main mtp kv0. (name, bytes) \<in> set es \<and> tiled bytes main mtp
        \<and> set_data kv0 main = (kv_main st', True) \<and> pos_max (kv_main st') + 1 = int n
        \<and> (if mtp_loaded st' then \<exists>m0 m. kv_mtp st' = Some m \<and> set_data m0 mtp = (m, True)
             \<and> pos_max (kv_main st') \<le> pos_max m else True)
      else \<not> mtp_loaded st'"
  using assms
proof (induction es arbitrary: st)
  case Nil
  then show ?case by simp
next
  case (Cons e es)
  obtain name bytes where e: "e = (name, bytes)" by (cases e)
  have rest: ?case if "load_entries set_data pos_max clear n es st1 = (st', r)" "\<not> mtp_loaded st1" for st1
  proof (cases r)
    case True
    have "set es \<subseteq> set (e # es)" by auto
    with Cons.IH [OF that] True show ?thesis unfolding if_P [OF True] by blast
  qed (use Cons.IH [OF that] in simp)
  show ?case
  proof (cases "read_entry bytes")
    case (Payload main mtp)
    obtain kv ok where s: "set_data (kv_main st) main = (kv, ok)" by fastforce
    show ?thesis
    proof (cases "ok \<and> pos_max kv + 1 = int n")
      case True
      then have l: "load_mirror set_data pos_max clear (pos_max kv) mtp (st\<lparr>kv_main := kv\<rparr>) = st'" "r"
        using Cons.prems e Payload s by (simp_all add: Let_def)
      then have k: "kv_main st' = kv" "mtp_loaded st' \<longrightarrow> (\<exists>m0 m. kv_mtp st' = Some m \<and> set_data m0 mtp = (m, True) \<and> pos_max kv \<le> pos_max m)"
        using load_mirror_ok [OF _ l(1)] Cons.prems(2) by simp_all
      have "(name, bytes) \<in> set (e # es)" "tiled bytes main mtp" "set_data (kv_main st) main = (kv_main st', True)"
        using e read_entry_Payload [OF Payload] s True k(1) by simp_all
      then show ?thesis unfolding if_P [OF l(2)]
        by (intro exI [of _ name] exI [of _ bytes] exI [of _ main] exI [of _ mtp] exI [of _ "kv_main st"])
          (use True k in auto)
    next
      case False
      then obtain st1 where "load_entries set_data pos_max clear n es st1 = (st', r)" "mtp_loaded st1 = mtp_loaded st"
        using Cons.prems(1) e Payload s by (auto simp: Let_def split: if_splits)
      then show ?thesis using rest Cons.prems(2) by blast
    qed
  next
    case Unreadable
    with Cons.prems(1) e have "load_entries set_data pos_max clear n es st = (st', r)" by simp
    then show ?thesis by (rule rest) (rule Cons.prems(2))
  next
    case Delete_Entry
    with Cons.prems(1) e have "load_entries set_data pos_max clear n es (st\<lparr>cdir := unlink name (cdir st)\<rparr>) = (st', r)" by simp
    then show ?thesis by (rule rest) (use Cons.prems(2) in simp)
  qed
qed

lemma sweep_valid: "sweep es (d, True, m) = (d', v', m') \<Longrightarrow> v'"
  by (induction es arbitrary: d m) (auto split: option.splits)

lemma sweep_spec:
  assumes "sweep es (d, v, m) = (d', v', m')"
  shows "set d' \<subseteq> set d \<and> (\<forall>x\<in>set es. entry_sizes (snd x) = None \<longrightarrow> x \<notin> set d')
    \<and> (v' \<longrightarrow> v \<or> (\<exists>x\<in>set es. entry_sizes (snd x) \<noteq> None)) \<and> (m' \<longrightarrow> m \<or> v')"
  using assms
proof (induction es arbitrary: d v m)
  case (Cons e es)
  obtain n b where e: "e = (n, b)" by (cases e)
  show ?case
  proof (cases "entry_sizes b")
    case None
    with Cons.prems e have "sweep es (unlink n d, v, m) = (d', v', m')" by simp
    from Cons.IH [OF this] None e show ?thesis by (auto simp: in_unlink)
  next
    case (Some a)
    obtain ms ts where a: "a = (ms, ts)" by (cases a)
    with Cons.prems e Some have "sweep es (d, True, m \<or> ts > 0) = (d', v', m')" by simp
    moreover from this have "v'" by (rule sweep_valid)
    ultimately show ?thesis using Cons.IH Some e by fastforce
  qed
qed simp

lemma sweep_Nil_find:
  assumes "find_cache_files d s = []"
  shows "sweep (find_cache_files d s) (d, False, False) = (d, False, False)"
  using assms by simp

subsection \<open>What a written entry reads as\<close>

text \<open>Every entry that can be read at all has this state.\<close>

definition only_state :: "string \<Rightarrow> dir \<Rightarrow> bool" where
  "only_state blob es \<longleftrightarrow> (\<forall>e \<in> set es. \<forall>main mtp. read_entry (snd e) = Payload main mtp \<longrightarrow> main = blob)"

text \<open>An entry that was written, complete or cut off by a full device, gives the state it was written from, or
  nothing.\<close>

lemma tiledE:
  assumes "tiled b main mtp"
  obtains nl where "cache_header_end b = Some nl" "b = take nl b @ [ch_nl] @ main @ mtp"
    "parse_cache_header (take nl b) = Some (length main, length mtp)"
  using assms by (auto simp: tiled_def split: option.splits)

lemma read_cut_entry:
  assumes "length state < 2 ^ 62" "length mir < 2 ^ 62"
    and "read_entry (take k (cache_file_header (length state) (length mir) @ [ch_nl] @ state @ mir)) = Payload main mtp"
  shows "main = state"
proof -
  let ?h = "cache_file_header (length state) (length mir)"
  let ?b = "take k (?h @ [ch_nl] @ state @ mir)"
  note t = tiled_file [of state mir]
  have e: "cache_header_end (?h @ [ch_nl] @ state @ mir) = Some (length ?h)" using t(1) assms by simp
  then have h: "length ?h < 512"
    using str_find_bounds(2) [of "take 512 (?h @ [ch_nl] @ state @ mir)" "[ch_nl]" 0 "length ?h"]
    by (simp add: cache_header_end_def)
  obtain nl where nl: "cache_header_end ?b = Some nl"
    "?b = take nl ?b @ [ch_nl] @ main @ mtp" "parse_cache_header (take nl ?b) = Some (length main, length mtp)"
    by (rule tiledE [OF read_entry_Payload [OF assms(3)]])
  show ?thesis
  proof (cases "k \<le> length ?h")
    case True
    then have b: "?b = take k ?h" by simp
    have "ch_nl \<in> set ?b" by (subst nl(2)) simp
    then show ?thesis unfolding b using cache_file_header_nl in_set_takeD by fast
  next
    case False
    define r where "r = take (k - length ?h - 1) (state @ mir)"
    have b: "?b = ?h @ ch_nl # r" using False by (cases "k - length ?h") (simp_all add: r_def)
    have "nl = length ?h" using nl(1) unfolding b cache_header_end_app [OF cache_file_header_nl h] by simp
    then have "main @ mtp = r" "length main = length state" "length mtp = length mir"
      using nl(2,3) t(2) assms(1,2) unfolding b by simp_all
    then show ?thesis unfolding r_def by (metis append_eq_append_conv length_append length_take min.cobounded1
        min.cobounded2 nle_le take_all take_all_iff append_take_drop_id le_add_same_cancel1)
  qed
qed

lemma written_state:
  assumes "find_cache_files d (''-'' @ cache_hash sha tokens model_path) = []" "length (get_data ctx) < 2 ^ 62"
  shows "only_state (get_data ctx) (find_cache_files
    (fst (write_v1_cache get_data pos_max sha capacity save_path tokens model_path old_hash ctx None d))
    (''-'' @ cache_hash sha tokens model_path))"
proof -
  define hash where "hash = cache_hash sha tokens model_path"
  let ?s = "''-'' @ hash" and ?d' = "fst (write_v1_cache get_data pos_max sha capacity save_path tokens model_path old_hash ctx None d)"
  define d1 where "d1 = remove_orphans save_path hash d"
  define d2 where "d2 = (if old_hash \<noteq> [] then remove_all (''-'' @ old_hash) d1 else d1)"
  define whole where "whole = cache_file_header (length (get_data ctx)) 0 @ [ch_nl] @ get_data ctx"
  define put where "put k = dir_put (cache_filename save_path hash) (take k whole) (remove_all ?s d2)" for k
  have "set d2 \<subseteq> set d"
    unfolding d2_def d1_def using subset_trans [OF remove_all_subset remove_orphans_subset] remove_orphans_subset by simp
  then have d2: "find_cache_files d2 ?s = []" using assms(1) find_subset unfolding hash_def by blast
  have "?d' = (if u64 (nat ((pos_max ctx + 1) mod 2 ^ 64)) \<noteq> length tokens \<or> get_data ctx = [] then remove_all ?s d2
      else case capacity of None \<Rightarrow> remove_all ?s d2 | Some k \<Rightarrow> put k)"
    using sweep_Nil_find [OF d2]
    unfolding write_v1_cache_def Let_def hash_def [symmetric] d1_def [symmetric] d2_def [symmetric] put_def whole_def
    by (simp split: option.splits)
  then have "?d' = remove_all ?s d2 \<or> (\<exists>k. ?d' = put k)" by (auto split: option.splits if_splits)
  moreover have "only_state (get_data ctx) (find_cache_files (remove_all ?s d2) ?s)"
    by (simp add: find_remove_all only_state_def)
  moreover have "only_state (get_data ctx) (find_cache_files (put k) ?s)" for k
  proof -
    have "snd e = take k whole" if "e \<in> set (find_cache_files (put k) ?s)" for e
    proof -
      have "e \<notin> set (remove_all ?s d2)"
        using that find_remove_all [of ?s d2] by (metis in_find list.distinct(1) list.set_cases)
      with that show ?thesis by (auto simp: in_find dir_put_def in_unlink put_def)
    qed
    then show ?thesis
      using read_cut_entry [OF assms(2), of "[]" k] by (force simp: only_state_def whole_def)
  qed
  ultimately show ?thesis unfolding hash_def [symmetric] by auto
qed

subsection \<open>Properties\<close>

text \<open>C16: Loading is safe against any content of the cache directory. When a load succeeds, the state of the main
  context is what the state function made, in full, of the first blob of an entry with the hash of the save's
  tokens and model, whose header sizes tile the file (a size near \<open>2 ^ 64\<close> cannot wrap around into a match), and it
  covers exactly as many positions as the save has tokens; the mirror is reported as loaded only when its state
  was made in the same way of the second blob of the same entry and reaches at least as far as the main context.
  A failed load never reports a mirror.\<close>

theorem cache_load_safe:
  assumes "try_load_v1_cache set_data pos_max clear sha tokens model_path st = (st', r)"
  shows "if r then \<exists>name bytes main mtp kv0.
        (name, bytes) \<in> set (find_cache_files (cdir st) (''-'' @ cache_hash sha tokens model_path))
        \<and> tiled bytes main mtp \<and> set_data kv0 main = (kv_main st', True)
        \<and> pos_max (kv_main st') + 1 = int (length tokens)
        \<and> (if mtp_loaded st' then \<exists>m0 m. kv_mtp st' = Some m \<and> set_data m0 mtp = (m, True)
             \<and> pos_max (kv_main st') \<le> pos_max m else True)
      else \<not> mtp_loaded st'"
proof -
  have "load_entries set_data pos_max clear (length tokens)
      (find_cache_files (cdir st) (''-'' @ cache_hash sha tokens model_path)) (st\<lparr>mtp_loaded := False\<rparr>) = (st', r)"
    using assms by (simp add: try_load_v1_cache_def Let_def)
  from load_entries_ok [OF this] show ?thesis by simp
qed

text \<open>C17: What was written is loaded. After a save of the current state, with no older entry of the same
  content left (none there, or the previous hash was the same), a context whose serialisation reads
  back is restored exactly, and so is the mirror when it covers the main context.\<close>

theorem cache_write_load:
  assumes written: "write_v1_cache get_data pos_max sha capacity save_path tokens model_path old_hash ctx ctx_mtp d = (d', True)"
    and fresh: "old_hash = cache_hash sha tokens model_path \<and> old_hash \<noteq> []
        \<or> find_cache_files d (''-'' @ cache_hash sha tokens model_path) = []"
    and named: "save_file_name save_path \<noteq> []"
    and kv: "\<And>kv. set_data kv (get_data ctx) = (ctx, True)"
    and size: "length (get_data ctx) < 2 ^ 62" "\<And>m. ctx_mtp = Some m \<Longrightarrow> length (get_data m) < 2 ^ 62"
    and pos: "- 1 \<le> pos_max ctx" "pos_max ctx < 2 ^ 31"
    and loaded: "try_load_v1_cache set_data pos_max clear sha tokens model_path (st\<lparr>cdir := d'\<rparr>) = (st', r)"
  shows "r \<and> kv_main st' = ctx
    \<and> (\<forall>m. ctx_mtp = Some m \<and> get_data m \<noteq> [] \<and> kv_mtp st \<noteq> None
         \<and> (\<forall>kv. set_data kv (get_data m) = (m, True)) \<and> pos_max ctx \<le> pos_max m
         \<longrightarrow> mtp_loaded st' \<and> kv_mtp st' = Some m)"
proof -
  define hash where "hash = cache_hash sha tokens model_path"
  let ?s = "''-'' @ hash"
  define d1 where "d1 = remove_orphans save_path hash d"
  define d2 where "d2 = (if old_hash \<noteq> [] then remove_all (''-'' @ old_hash) d1 else d1)"
  have d2: "find_cache_files d2 ?s = []"
  proof (cases "find_cache_files d ?s = []")
    case True
    moreover have "set d2 \<subseteq> set d"
      unfolding d2_def d1_def
      using subset_trans [OF remove_all_subset remove_orphans_subset] remove_orphans_subset by simp
    ultimately show ?thesis using find_subset by blast
  next
    case False
    with fresh have "old_hash = hash" "old_hash \<noteq> []" by (auto simp: hash_def)
    then show ?thesis using find_remove_all by (simp add: d2_def)
  qed
  let ?mtp = "case ctx_mtp of None \<Rightarrow> [] | Some c \<Rightarrow> get_data c"
  let ?file = "cache_file_header (length (get_data ctx)) (length ?mtp) @ [ch_nl] @ get_data ctx @ ?mtp"
  have len: "u64 (nat ((pos_max ctx + 1) mod 2 ^ 64)) = length tokens"
    and d': "d' = dir_put (cache_filename save_path hash) ?file (remove_all ?s d2)"
    using written sweep_Nil_find [OF d2]
    by (auto simp: write_v1_cache_def Let_def d2_def d1_def hash_def split: if_splits option.splits)
  have "int (length tokens) = pos_max ctx + 1"
    using len pos by (auto simp: u64_def)
  moreover have "find_cache_files d' ?s = [(cache_filename save_path hash, ?file)]"
    unfolding d' using named
    by (intro find_dir_put [OF find_remove_all, of _ "save_file_name save_path"])
      (simp_all add: cache_filename_def)
  moreover have "length ?mtp < 2 ^ 62" using size by (cases ctx_mtp) simp_all
  then have "read_entry ?file = Payload (get_data ctx) ?mtp"
    using size by (intro read_written_entry)
  ultimately have l: "(st', r) = (load_mirror set_data pos_max clear (pos_max ctx) ?mtp
      (st\<lparr>cdir := d', mtp_loaded := False, kv_main := ctx\<rparr>), True)"
    using loaded kv by (simp add: try_load_v1_cache_def Let_def hash_def)
  then show ?thesis
    by (auto simp: load_mirror_def Let_def split: option.splits if_splits prod.splits)
qed

text \<open>The concrete contexts of the examples: a context is its own serialisation, one byte per token.\<close>

abbreviation ex_set :: "string \<Rightarrow> string \<Rightarrow> string \<times> bool" where "ex_set kv b \<equiv> (b, True)"
abbreviation ex_max :: "string \<Rightarrow> int" where "ex_max kv \<equiv> int (length kv) - 1"

definition ex_sha :: "string \<Rightarrow> string" where "ex_sha s = ''0123456789abcdef''"

definition ex_state :: "dir \<Rightarrow> string cache_state" where
  "ex_state d = \<lparr>cdir = d, kv_main = [], kv_mtp = Some [], mtp_loaded = False\<rparr>"

definition ex_written :: "dir \<times> bool" where
  "ex_written = write_v1_cache (\<lambda>kv. kv) ex_max ex_sha (Some 1000) ''s/a.save'' [5, 6] ''m/q.gguf'' [] ''kv'' (Some ''mir'') []"

lemmas cache_example_simps = ex_written_def write_v1_cache_def cache_hash_def ex_sha_def remove_orphans_def
  save_file_name_def str_rfind_def ends_with_def SAVE_EXT_def find_cache_files_by_prefix_def find_cache_files_def
  remove_all_def u64_def cache_file_header_def CACHE_MAGIC_def nat_string_small
  dir_put_def unlink_def cache_filename_def Let_def

lemma suc_numerals: "Suc (Suc 0) = 2" "Suc (Suc (Suc 0)) = 3"
  by simp_all

lemma ex_written_eq: "ex_written = ([(''a-0123456789ab'', ''LIM_CACHE_V1 main_size=2 mtp_size=3'' @ [ch_nl] @ ''kvmir'')], True)"
  by (simp add: cache_example_simps suc_numerals)

theorem cache_load_safe_witness:
  "\<exists>st'. try_load_v1_cache ex_set ex_max (\<lambda>_. []) ex_sha [5, 6] ''m/q.gguf'' (ex_state (fst ex_written)) = (st', True)
    \<and> mtp_loaded st' \<and> (\<exists>name bytes main mtp. (name, bytes) \<in> set (find_cache_files (fst ex_written) ''-0123456789ab'')
         \<and> tiled bytes main mtp \<and> main = kv_main st' \<and> kv_mtp st' = Some mtp)"
proof -
  have h: "cache_hash ex_sha [5, 6] ''m/q.gguf'' = ''0123456789ab''" by (simp add: cache_hash_def ex_sha_def)
  have f: "find_cache_files (fst ex_written) ''-0123456789ab''
      = [(''a-0123456789ab'', cache_file_header 2 3 @ [ch_nl] @ ''kv'' @ ''mir'')]"
    by (simp add: ex_written_eq find_cache_files_def ends_with_def cache_file_header_def CACHE_MAGIC_def nat_string_small)
  have l: "length ''kv'' = 2" "length ''mir'' = 3" by simp_all
  have e: "read_entry (cache_file_header 2 3 @ [ch_nl] @ ''kv'' @ ''mir'') = Payload ''kv'' ''mir''"
    by (rule read_written_entry [of "''kv''" "''mir''", unfolded l]) simp_all
  define st' where "st' = (ex_state (fst ex_written))\<lparr>kv_main := ''kv'', kv_mtp := Some ''mir'', mtp_loaded := True\<rparr>"
  have t: "try_load_v1_cache ex_set ex_max (\<lambda>_. []) ex_sha [5, 6] ''m/q.gguf'' (ex_state (fst ex_written)) = (st', True)"
    by (simp add: try_load_v1_cache_def Let_def h f [simplified] e [simplified] ex_state_def load_mirror_def st'_def)
  from cache_load_safe [OF t] have "\<exists>name bytes main mtp kv0.
      (name, bytes) \<in> set (find_cache_files (cdir (ex_state (fst ex_written))) (''-'' @ cache_hash ex_sha [5, 6] ''m/q.gguf''))
      \<and> tiled bytes main mtp \<and> (main, True) = (kv_main st', True) \<and> kv_mtp st' = Some mtp"
    by (fastforce simp: st'_def)
  then show ?thesis using t by (auto simp: h ex_state_def st'_def)
qed

theorem cache_write_load_witness:
  "\<exists>st' r. try_load_v1_cache ex_set ex_max (\<lambda>_. []) ex_sha [5, 6] ''m/q.gguf'' (ex_state (fst ex_written)) = (st', r)
    \<and> r \<and> kv_main st' = ''kv'' \<and> mtp_loaded st' \<and> kv_mtp st' = Some ''mir''"
proof -
  have w: "write_v1_cache (\<lambda>kv. kv) ex_max ex_sha (Some 1000) ''s/a.save'' [5, 6] ''m/q.gguf'' [] ''kv'' (Some ''mir'') []
      = (fst ex_written, True)"
    using ex_written_eq by (simp add: ex_written_def)
  obtain st' r where l: "try_load_v1_cache ex_set ex_max (\<lambda>_. []) ex_sha [5, 6] ''m/q.gguf''
      ((ex_state [])\<lparr>cdir := fst ex_written\<rparr>) = (st', r)" by fastforce
  have "r \<and> kv_main st' = ''kv'' \<and> (\<forall>m. Some ''mir'' = Some m \<and> m \<noteq> [] \<and> kv_mtp (ex_state []) \<noteq> None
         \<and> (\<forall>kv. ex_set kv m = (m, True)) \<and> ex_max ''kv'' \<le> ex_max m
         \<longrightarrow> mtp_loaded st' \<and> kv_mtp st' = Some m)"
    by (rule cache_write_load [OF w _ _ _ _ _ _ _ l])
      (simp_all add: find_cache_files_def save_file_name_def str_rfind_def ends_with_def SAVE_EXT_def)
  with l show ?thesis by (auto simp: ex_state_def)
qed

text \<open>After a write that reports success, every entry of the directory with the hash of the save has a
  valid header and exactly the size it announces: the sweep leaves no corrupt entry behind.\<close>

theorem cache_write_sweeps:
  assumes "write_v1_cache get_data pos_max sha capacity save_path tokens model_path old_hash ctx ctx_mtp d = (d', True)"
    and "length (get_data ctx) < 2 ^ 62" "\<And>m. ctx_mtp = Some m \<Longrightarrow> length (get_data m) < 2 ^ 62"
  shows "list_all (\<lambda>(_, bytes). entry_sizes bytes \<noteq> None)
    (find_cache_files d' (''-'' @ cache_hash sha tokens model_path))"
proof -
  define hash where "hash = cache_hash sha tokens model_path"
  let ?s = "''-'' @ hash"
  define d1 where "d1 = remove_orphans save_path hash d"
  define d2 where "d2 = (if old_hash \<noteq> [] then remove_all (''-'' @ old_hash) d1 else d1)"
  obtain d3 v m where sw: "sweep (find_cache_files d2 ?s) (d2, False, False) = (d3, v, m)"
    by (cases "sweep (find_cache_files d2 ?s) (d2, False, False)") auto
  note spec = sweep_spec [OF sw]
  let ?mtp = "case ctx_mtp of None \<Rightarrow> [] | Some c \<Rightarrow> get_data c"
  let ?file = "cache_file_header (length (get_data ctx)) (length ?mtp) @ [ch_nl] @ get_data ctx @ ?mtp"
  have "length ?mtp < 2 ^ 62" using assms(3) by (cases ctx_mtp) simp_all
  then have sz: "entry_sizes ?file \<noteq> None" using sizes_written_entry [OF assms(2), of ?mtp] by simp
  consider "d' = d3" | "d' = dir_put (cache_filename save_path hash) ?file (remove_all ?s d3)"
    using assms(1) sw
    by (auto simp: write_v1_cache_def Let_def d2_def d1_def hash_def split: if_splits option.splits)
  then have "\<forall>x\<in>set (find_cache_files d' ?s). entry_sizes (snd x) \<noteq> None"
  proof cases
    case 1
    have "entry_sizes (snd x) \<noteq> None" if x: "x \<in> set (find_cache_files d3 ?s)" for x
    proof -
      from x spec have "x \<in> set (find_cache_files d2 ?s)" "x \<in> set d3" by (auto simp: in_find)
      with spec show ?thesis by blast
    qed
    with 1 show ?thesis by blast
  next
    case 2
    have "x = (cache_filename save_path hash, ?file)" if "x \<in> set (find_cache_files d' ?s)" for x
    proof -
      have "x \<notin> set (remove_all ?s d3)"
        using that find_remove_all [of ?s d3] by (metis in_find list.distinct(1) list.set_cases)
      with that show ?thesis by (auto simp: in_find 2 dir_put_def in_unlink)
    qed
    with sz show ?thesis by fastforce
  qed
  then show ?thesis by (auto simp: list_all_iff hash_def split: prod.splits)
qed

theorem cache_write_sweeps_witness:
  "list_all (\<lambda>(_, bytes). entry_sizes bytes \<noteq> None)
    (find_cache_files (fst ex_written) (''-'' @ cache_hash ex_sha [5, 6] ''m/q.gguf''))"
  by (rule cache_write_sweeps [where get_data = "\<lambda>kv. kv" and pos_max = ex_max and capacity = "Some 1000"
        and save_path = "''s/a.save''" and old_hash = "[]" and ctx = "''kv''" and ctx_mtp = "Some ''mir''" and d = "[]"])
    (use ex_written_eq in \<open>simp_all add: ex_written_def\<close>)

text \<open>Deleting a save. The save is gone exactly when the call reports success, and if its tokens could
  be read, no cache entry of its content is left; otherwise nothing is changed.\<close>

theorem delete_save_spec:
  assumes "delete_save_and_cache sha save_path model_path saves d = Inr (saves', d', ok, n)"
  shows "map_of saves' save_path = None
    \<and> (if map_of saves save_path = None then \<not> ok \<and> saves' = saves \<and> d' = d
       else ok \<and> (case read_token_save (map_of saves save_path) of
          Inr (Some ts) \<Rightarrow> cache_hash sha ts model_path \<noteq> [] \<longrightarrow>
            find_cache_files d' (''-'' @ cache_hash sha ts model_path) = []
            \<and> n = length (find_cache_files d (''-'' @ cache_hash sha ts model_path))
        | _ \<Rightarrow> d' = d))"
proof -
  obtain ts where ts: "read_token_save (map_of saves save_path) = Inr ts"
    using assms by (auto simp: delete_save_and_cache_def res_iff)
  have u: "map_of (unlink save_path saves) save_path = None"
    by (auto simp: unlink_def map_of_eq_None_iff)
  show ?thesis
    using assms ts u find_remove_all
    by (cases ts) (auto simp: delete_save_and_cache_def Let_def split: if_splits)
qed

theorem delete_save_spec_witness:
  "map_of ([] :: dir) ''x'' = None
    \<and> (if map_of ([] :: dir) ''x'' = None then \<not> False \<and> ([] :: dir) = [] \<and> ([] :: dir) = []
       else False \<and> (case read_token_save (map_of [] ''x'') of
          Inr (Some ts) \<Rightarrow> cache_hash ex_sha ts ''m'' \<noteq> [] \<longrightarrow>
            find_cache_files [] (''-'' @ cache_hash ex_sha ts ''m'') = []
            \<and> (0 :: nat) = length (find_cache_files [] (''-'' @ cache_hash ex_sha ts ''m''))
        | _ \<Rightarrow> ([] :: dir) = []))"
  by (rule delete_save_spec [where saves = "[]" and sha = ex_sha and save_path = "''x''" and d = "[]"])
    (simp add: delete_save_and_cache_def read_token_save_def read_save_header_def)

end
