(* ===== verification/Lim_Files.thy ===== *)
theory Lim_Files
  imports Lim_Parsers Lim_Text
begin

section \<open>The file tools (filesystem.cc)\<close>

text \<open>
  \<open>read_files\<close>, \<open>search_file\<close>, \<open>write_file\<close> with \<open>mkdir_p\<close>, and \<open>edit_file\<close>, over a file system that
  is a map from canonical paths to contents and modification times, and a list of directories. What
  the operating system decides (path resolution, permissions, failures of \<open>mkdir\<close>, of stream
  insertion and of flushing, the clock) is the record \<open>os_env\<close>; the PDF service is a parameter. The
  result maps of the source are a record whose absent keys are empty strings, as every caller reads
  them.
\<close>

subsection \<open>The file system\<close>

record fsys =
  fs_files :: "string \<Rightarrow> (string \<times> int) option"
  fs_dirs :: "string list"

datatype mkdir_res = Mkdir_Ok | Mkdir_Exists | Mkdir_Fail string

record os_env =
  os_fullpath :: "string \<Rightarrow> string"
  os_norm :: "string \<Rightarrow> string"
  os_can_read :: "string \<Rightarrow> bool"
  os_can_write :: "string \<Rightarrow> bool"
  os_stat_error :: "string \<Rightarrow> string option"
  os_mkdir :: "string \<Rightarrow> mkdir_res"
  os_insert_ok :: "string \<Rightarrow> bool"
  os_flush_ok :: "string \<Rightarrow> bool"
  os_partial :: "string \<Rightarrow> string"
  os_now :: int

record result_map =
  rm_path :: string
  rm_status :: string
  rm_error :: string
  rm_content :: string
  rm_display :: string
  rm_changes :: string
  rm_dirs :: string

definition rm_empty :: result_map where
  "rm_empty = \<lparr>rm_path = [], rm_status = [], rm_error = [], rm_content = [], rm_display = [],
     rm_changes = [], rm_dirs = []\<rparr>"

definition rm_fail :: "string \<Rightarrow> result_map" where
  "rm_fail e = rm_empty\<lparr>rm_status := ''error'', rm_error := e\<rparr>"

definition read_path :: "os_env \<Rightarrow> fsys \<Rightarrow> string \<Rightarrow> string option" where
  "read_path env fs p =
     (if os_can_read env (os_norm env p) then map_option fst (fs_files fs (os_norm env p)) else None)"

text \<open>\<open>ofstream\<close>: opening truncates; the contents and whether insertion and flush succeeded. A write
  the device refuses leaves \<open>os_partial\<close>.\<close>

definition write_path :: "os_env \<Rightarrow> fsys \<Rightarrow> string \<Rightarrow> string \<Rightarrow> (fsys \<times> bool \<times> bool) option" where
  "write_path env fs p content =
     (let q = os_norm env p in
      if \<not> os_can_write env q then None
      else let insert_ok = os_insert_ok env q; flush_ok = os_flush_ok env q;
               stored = (if insert_ok \<and> flush_ok then content else os_partial env content)
        in Some (fs\<lparr>fs_files := (fs_files fs)(q \<mapsto> (stored, os_now env))\<rparr>,
             insert_ok, insert_ok \<and> flush_ok))"

definition file_fingerprint :: "os_env \<Rightarrow> fsys \<Rightarrow> string \<Rightarrow> string" where
  "file_fingerprint env fs path =
     (case fs_files fs (os_norm env (os_fullpath env path)) of
        None \<Rightarrow> []
      | Some (content, mtime) \<Rightarrow> int_string mtime @ '':'' @ nat_string (length content))"

subsection \<open>mkdir -p\<close>

definition sq :: string where "sq = [ch_squote]"

datatype stat_res = Is_Dir | Not_Dir | No_Entry | Stat_Error string

definition stat_path :: "os_env \<Rightarrow> fsys \<Rightarrow> string \<Rightarrow> stat_res" where
  "stat_path env fs p =
     (let q = os_norm env p in
      case os_stat_error env q of
        Some e \<Rightarrow> Stat_Error e
      | None \<Rightarrow> if q \<in> set (fs_dirs fs) then Is_Dir
               else if fs_files fs q \<noteq> None then Not_Dir else No_Entry)"

text \<open>One component: the state, the list of created directories, and the error.\<close>

definition mkdir_component ::
    "os_env \<Rightarrow> string \<Rightarrow> fsys \<times> string list \<Rightarrow> string + fsys \<times> string list" where
  "mkdir_component env p st =
     (let (fs, created) = st in
      case stat_path env fs p of
        Is_Dir \<Rightarrow> Inr (fs, created)
      | Not_Dir \<Rightarrow> Inl (''Cannot create directory for '' @ sq @ p @ sq @ '': a path component is not a directory'')
      | Stat_Error e \<Rightarrow> Inl (''Cannot access '' @ sq @ p @ sq @ '': '' @ e)
      | No_Entry \<Rightarrow>
          (case os_mkdir env (os_norm env p) of
             Mkdir_Ok \<Rightarrow> Inr (fs\<lparr>fs_dirs := os_norm env p # fs_dirs fs\<rparr>, created @ [p])
           | Mkdir_Exists \<Rightarrow> Inr (fs, created)
           | Mkdir_Fail e \<Rightarrow> Inl (''Failed to create directory '' @ sq @ p @ sq @ '': '' @ e)))"

text \<open>The component ends: the prefixes before each slash and the whole, without the root.\<close>

definition dir_prefixes :: "string \<Rightarrow> string list" where
  "dir_prefixes dir =
     filter (\<lambda>p. p \<noteq> [] \<and> p \<noteq> ''/'')
       (map (\<lambda>i. take i dir)
         (filter (\<lambda>i. \<not> (i \<noteq> length dir \<and> dir ! i \<noteq> CHR ''/'')) [0..<Suc (length dir)]))"

fun mkdir_all :: "os_env \<Rightarrow> string list \<Rightarrow> fsys \<times> string list \<Rightarrow> fsys \<times> string list \<times> string option" where
  "mkdir_all env [] (fs, created) = (fs, created, None)"
| "mkdir_all env (p # ps) (fs, created) =
     (case mkdir_component env p (fs, created) of
        Inl e \<Rightarrow> (fs, created, Some e)
      | Inr st \<Rightarrow> mkdir_all env ps st)"

definition mkdir_p :: "os_env \<Rightarrow> fsys \<Rightarrow> string \<Rightarrow> fsys \<times> string list \<times> string option" where
  "mkdir_p env fs fullpath =
     (case str_rfind fullpath ''/'' of
        None \<Rightarrow> (fs, [], None)
      | Some slash \<Rightarrow>
          if slash = 0 then (fs, [], None)
          else mkdir_all env (dir_prefixes (take slash fullpath)) (fs, []))"

definition join_comma :: "string list \<Rightarrow> string" where
  "join_comma ps = (if ps = [] then [] else concat (map (\<lambda>p. p @ '', '') (butlast ps)) @ last ps)"

subsection \<open>write\_file and edit\_file\<close>

definition unescape_all :: "model_tokens \<Rightarrow> string \<Rightarrow> string" where
  "unescape_all mt s = unescape_turn_tags mt (unescape_parameter_tags s)"

definition write_file :: "os_env \<Rightarrow> model_tokens \<Rightarrow> string \<Rightarrow> string \<Rightarrow> fsys \<Rightarrow> fsys \<times> result_map" where
  "write_file env mt path content fs =
     (let fullpath = os_fullpath env path in
      case mkdir_p env fs fullpath of
        (fs1, created, Some e) \<Rightarrow> (fs1, rm_fail e)
      | (fs1, created, None) \<Rightarrow>
          (let writable_content = unescape_all mt content in
           case write_path env fs1 fullpath writable_content of
             None \<Rightarrow> (fs1, rm_fail (''Failed to open file for writing: '' @ path))
           | Some (fs2, insert_ok, _) \<Rightarrow>
               (if \<not> insert_ok then (fs2, rm_fail (''Write failed for file: '' @ path))
                else (fs2, rm_empty\<lparr>rm_status := ''success'', rm_dirs := join_comma created\<rparr>))))"

text \<open>The replacement loop of \<open>edit_file\<close>: the content from \<open>pos\<close> on and the number of changes.\<close>

function edit_loop :: "string \<Rightarrow> string \<Rightarrow> string \<Rightarrow> nat \<Rightarrow> nat \<Rightarrow> string \<times> nat" where
  "edit_loop old new content pos changes =
     (case str_find content old pos of
        None \<Rightarrow> (content, changes)
      | Some p \<Rightarrow>
          if old = [] then (content, changes)
          else edit_loop old new (str_replace content p (length old) new) (p + length new) (changes + 1))"
  by pat_completeness auto
termination
  by (relation "measure (\<lambda>(old, new, content, pos, changes). length content - pos)")
    (auto simp: str_replace_def dest!: str_find_boundsD, case_tac old, auto)

declare edit_loop.simps [simp del]

definition NOT_FOUND_ERROR :: string where
  "NOT_FOUND_ERROR = ''String not found in file. Ensure the OLD_TEXT exactly matches the file contents, including all whitespace and newlines.''"

definition edit_file :: "os_env \<Rightarrow> model_tokens \<Rightarrow> string \<Rightarrow> string \<Rightarrow> string \<Rightarrow> fsys \<Rightarrow> fsys \<times> result_map" where
  "edit_file env mt path old_str new_str fs =
     (let old = unescape_all mt old_str; new = unescape_all mt new_str; fullpath = os_fullpath env path in
      case read_path env fs fullpath of
        None \<Rightarrow> (fs, rm_fail (''Failed to open file for reading: '' @ path))
      | Some content0 \<Rightarrow>
          if old = [] then (fs, rm_fail ''OLD_TEXT cannot be empty'')
          else let (content, changes) = edit_loop old new content0 0 0 in
            if changes = 0 then (fs, rm_fail NOT_FOUND_ERROR)
            else if content = [] then
              (fs, rm_fail ''CRITICAL ERROR: Content is empty - refusing to write empty file'')
            else case write_path env fs fullpath content of
                None \<Rightarrow> (fs, rm_fail ''Failed to open file for writing after edit'')
              | Some (fs2, _, all_ok) \<Rightarrow>
                  (if \<not> all_ok then (fs2, rm_fail (''Write failed after edit for file: '' @ path))
                   else (fs2, rm_empty\<lparr>rm_status := ''updated'', rm_changes := nat_string changes\<rparr>)))"

subsection \<open>search\_file\<close>

text \<open>\<open>strtol\<close> on a bound: no digits, or a value below the minimum, is an error; a leading number wins.\<close>

definition parse_bound :: "string \<Rightarrow> int \<Rightarrow> int option" where
  "parse_bound s least =
     (let (val, endptr) = strtol10 s in
      if scan_number s = None \<or> val < least then None else Some (to_int32 val))"

fun back_lines :: "string \<Rightarrow> nat \<Rightarrow> nat \<Rightarrow> nat \<Rightarrow> nat" where
  "back_lines content 0 lines_before context = 0"
| "back_lines content (Suc i) lines_before context =
     (if lines_before < context then
        back_lines content i (if content ! i = ch_nl then lines_before + 1 else lines_before) context
      else Suc i)"

fun line_begin :: "string \<Rightarrow> nat \<Rightarrow> nat" where
  "line_begin content 0 = 0"
| "line_begin content (Suc i) = (if content ! i \<noteq> ch_nl then line_begin content i else Suc i)"

function forward_lines :: "string \<Rightarrow> nat \<Rightarrow> nat \<Rightarrow> nat \<Rightarrow> nat" where
  "forward_lines content i lines_after limit =
     (if i < length content \<and> lines_after < limit
      then forward_lines content (i + 1)
             (if content ! i = ch_nl then lines_after + 1 else lines_after) limit
      else i)"
  by pat_completeness auto
termination by (relation "measure (\<lambda>(content, i, l, m). length content - i)") auto

declare forward_lines.simps [simp del]

definition SEARCH_CONTEXT :: nat where "SEARCH_CONTEXT = 5"

definition match_context :: "string \<Rightarrow> nat \<Rightarrow> nat \<Rightarrow> string" where
  "match_context content pos end_pos =
     (let ctx_start = line_begin content (back_lines content pos 0 SEARCH_CONTEXT);
          after_limit = (if end_pos > 0 \<and> content ! (end_pos - 1) = ch_nl
                         then SEARCH_CONTEXT else SEARCH_CONTEXT + 1);
          ctx_end = forward_lines content end_pos 0 after_limit
      in substr content ctx_start (ctx_end - ctx_start))"

function search_loop :: "string \<Rightarrow> string \<Rightarrow> nat \<Rightarrow> nat \<Rightarrow> string \<Rightarrow> string \<times> nat" where
  "search_loop content pat pos match_count result =
     (case str_find content pat pos of
        None \<Rightarrow> (result, match_count)
      | Some p \<Rightarrow>
          if match_count + 1 > 10
          then (result @ ''... (Truncated after 10 matches)'' @ [ch_nl], match_count + 1)
          else let end_pos = p + length pat in
            search_loop content pat end_pos (match_count + 1)
              (result @ ''--- Match '' @ nat_string (match_count + 1) @ '' ---'' @ [ch_nl]
               @ match_context content p end_pos))"
  by pat_completeness auto
termination by (relation "measure (\<lambda>(c, p, pos, n, r). 11 - n)") auto

declare search_loop.simps [simp del]

definition search_fail :: "string \<Rightarrow> string \<Rightarrow> result_map" where
  "search_fail path e =
     rm_empty\<lparr>rm_error := e, rm_display := ''Search file: '' @ path @ '': '' @ e\<rparr>"

definition search_done :: "string \<Rightarrow> string \<Rightarrow> nat \<Rightarrow> result_map" where
  "search_done path content n =
     rm_empty\<lparr>rm_content := content,
       rm_display := ''Search file: '' @ path @ '': '' @ nat_string n
         @ (if n = 1 then '' match'' else '' matches'')\<rparr>"

definition range_lines :: "string list \<Rightarrow> int \<Rightarrow> int \<Rightarrow> string" where
  "range_lines lines start e =
     concat (map (\<lambda>i. lines ! i @ [ch_nl]) [nat start..<nat (e + 1)])"

definition search_range :: "string \<Rightarrow> string \<Rightarrow> int \<Rightarrow> int \<Rightarrow> result_map" where
  "search_range path content begin_line end_line =
     (let lines = getlines ch_nl content;
          start = max 0 (begin_line - 1);
          e = min (int (length lines) - 1) (end_line - 1)
      in if start \<ge> int (length lines) then
           search_fail path (''Line '' @ int_string begin_line @ '' is beyond the end of file (''
             @ nat_string (length lines) @ '' lines).'')
         else search_done path
           (''Lines '' @ int_string (start + 1) @ ''-'' @ int_string (e + 1) @ '' of '' @ path @ '':''
            @ [ch_nl] @ range_lines lines start e) 1)"

definition search_text :: "string \<Rightarrow> string \<Rightarrow> string \<Rightarrow> result_map" where
  "search_text path content pat =
     (let (result, n) = search_loop content pat 0 0 [] in search_done path result n)"

definition BEGIN_ERROR :: string where
  "BEGIN_ERROR = sq @ ''begin'' @ sq @ '' must be a positive integer.''"

definition END_ERROR :: string where
  "END_ERROR = sq @ ''end'' @ sq @ '' must be a positive integer.''"

definition NO_PATTERN_ERROR :: string where
  "NO_PATTERN_ERROR = ''search_file needs a '' @ sq @ ''text'' @ sq @ '' pattern or a '' @ sq @ ''begin''
     @ sq @ ''/'' @ sq @ ''end'' @ sq @ '' line range.''"

text \<open>The bounds, or the error: \<open>begin\<close> defaults to 1 and \<open>end\<close> to \<open>begin\<close>.\<close>

definition search_bounds :: "string \<Rightarrow> string \<Rightarrow> string \<Rightarrow> string + int \<times> int" where
  "search_bounds tx begin_str end_str =
     (let b = (if begin_str = [] then Some 1 else parse_bound begin_str 1) in
      case b of
        None \<Rightarrow> Inl BEGIN_ERROR
      | Some begin_line \<Rightarrow>
          (let e = (if end_str = [] then Some (- 1) else parse_bound end_str 0) in
           case e of
             None \<Rightarrow> Inl END_ERROR
           | Some end0 \<Rightarrow>
               (if tx = [] \<and> begin_str = [] then Inl NO_PATTERN_ERROR
                else let end_line = (if end0 < 1 then begin_line else end0) in
                  if begin_line > end_line then
                    Inl (''Invalid range: '' @ sq @ ''begin'' @ sq @ '' ('' @ int_string begin_line
                      @ '') is greater than '' @ sq @ ''end'' @ sq @ '' ('' @ int_string end_line @ '').'')
                  else Inr (begin_line, end_line))))"

definition search_file ::
    "os_env \<Rightarrow> model_tokens \<Rightarrow> string \<Rightarrow> string \<Rightarrow> string \<Rightarrow> string \<Rightarrow> fsys \<Rightarrow> result_map" where
  "search_file env mt path tx begin_str end_str fs =
     (case search_bounds tx begin_str end_str of
        Inl e \<Rightarrow> search_fail path e
      | Inr (begin_line, end_line) \<Rightarrow>
          (let fullpath = os_fullpath env path in
           case read_path env fs fullpath of
             None \<Rightarrow> search_fail path (''Failed to open file for reading: '' @ fullpath)
           | Some content \<Rightarrow>
               (if tx = [] then search_range path content begin_line end_line
                else search_text path content (unescape_all mt tx))))"

subsection \<open>read\_files\<close>

definition to_lower :: "char \<Rightarrow> char" where
  "to_lower c = (let n = of_char c :: nat in if 65 \<le> n \<and> n \<le> 90 then char_of (n + 32) else c)"

definition file_ext :: "string \<Rightarrow> string" where
  "file_ext path = (case str_rfind path ''.'' of None \<Rightarrow> [] | Some dot \<Rightarrow> map to_lower (drop dot path))"

text \<open>\<open>docling\<close> is the service that turns a PDF into text; \<open>limit_size\<close> cuts its answer.\<close>

definition read_file1 ::
    "os_env \<Rightarrow> (string \<Rightarrow> string) \<Rightarrow> (string \<Rightarrow> string) \<Rightarrow> fsys \<Rightarrow> string \<Rightarrow> result_map" where
  "read_file1 env docling limit_size fs path =
     (if file_ext path = ''.pdf'' then
        (case read_path env fs (os_fullpath env path) of
           None \<Rightarrow> rm_empty\<lparr>rm_path := path,
             rm_error := ''Failed to open local PDF file for reading: '' @ path\<rparr>
         | Some pdf \<Rightarrow>
             (let content = docling pdf in
              if str_find content ''[Docling Error'' 0 \<noteq> None
                 \<or> str_find content ''[Curl Init Failed]'' 0 \<noteq> None
              then rm_empty\<lparr>rm_path := path, rm_error := content\<rparr>
              else rm_empty\<lparr>rm_path := path, rm_content := limit_size content\<rparr>))
      else
        (case read_path env fs (os_fullpath env path) of
           None \<Rightarrow> rm_empty\<lparr>rm_path := path, rm_error := ''Failed to open file for reading: '' @ path\<rparr>
         | Some content \<Rightarrow>
             rm_empty\<lparr>rm_path := path, rm_status := ''success'', rm_content := content\<rparr>))"

definition read_files ::
    "os_env \<Rightarrow> (string \<Rightarrow> string) \<Rightarrow> (string \<Rightarrow> string) \<Rightarrow> string list \<Rightarrow> fsys \<Rightarrow> result_map list" where
  "read_files env docling limit_size paths fs = map (read_file1 env docling limit_size fs) paths"

subsection \<open>Replacement\<close>

text \<open>The specification of the edit: all occurrences from the left, none overlapping.\<close>

function replace_all :: "string \<Rightarrow> string \<Rightarrow> string \<Rightarrow> string" where
  "replace_all old new [] = []"
| "replace_all old new (x # xs) =
     (if old \<noteq> [] \<and> prefix old (x # xs) then new @ replace_all old new (drop (length old) (x # xs))
      else x # replace_all old new xs)"
  by pat_completeness auto
termination by (relation "measure (\<lambda>(o', n, s). length s)") auto

function count_occ :: "string \<Rightarrow> string \<Rightarrow> nat" where
  "count_occ old [] = 0"
| "count_occ old (x # xs) =
     (if old \<noteq> [] \<and> prefix old (x # xs) then Suc (count_occ old (drop (length old) (x # xs)))
      else count_occ old xs)"
  by pat_completeness auto
termination by (relation "measure (\<lambda>(o', s). length s)") auto

lemma first_at_None_tl: "first_at old (x # xs) = None \<Longrightarrow> first_at old xs = None \<and> \<not> prefix old (x # xs)"
  by (auto split: if_splits)

lemma replace_none: "first_at old s = None \<Longrightarrow> replace_all old new s = s \<and> count_occ old s = 0"
  by (induction s) (auto dest!: first_at_None_tl simp del: first_at.simps)

lemma replace_first:
  "old \<noteq> [] \<Longrightarrow> first_at old s = Some k \<Longrightarrow>
   replace_all old new s = take k s @ new @ replace_all old new (drop (k + length old) s)
   \<and> count_occ old s = Suc (count_occ old (drop (k + length old) s))"
proof (induction s arbitrary: k)
  case (Cons x xs)
  show ?case
  proof (cases "prefix old (x # xs)")
    case True
    with Cons.prems show ?thesis by simp
  next
    case False
    with Cons.prems obtain j where "first_at old xs = Some j" "k = Suc j" by auto
    with Cons.IH [of j] Cons.prems False show ?thesis by simp
  qed
qed simp

lemma edit_loop_eq:
  assumes "old \<noteq> []" "pos \<le> length content"
  shows "edit_loop old new content pos n
     = (take pos content @ replace_all old new (drop pos content), n + count_occ old (drop pos content))"
  using assms
proof (induction old new content pos n rule: edit_loop.induct)
  case (1 old new content pos n)
  note step = edit_loop.simps [of old new content pos n]
  show ?case
  proof (cases "str_find content old pos")
    case None
    then have "first_at old (drop pos content) = None" using 1(3) by (simp add: str_find_def)
    with None show ?thesis using replace_none [of old "drop pos content" new] by (simp add: step)
  next
    case (Some p)
    then obtain k where k: "first_at old (drop pos content) = Some k" "p = pos + k"
      using 1(3) by (auto simp: str_find_def)
    have b: "p + length old \<le> length content" using str_find_bounds(2) [OF Some] .
    let ?c = "str_replace content p (length old) new"
    have c: "?c = (take p content @ new) @ drop (p + length old) content" by (simp add: str_replace_def)
    have l: "length (take p content @ new) = p + length new" using b by simp
    have t: "take (p + length new) ?c = take p content @ new" "drop (p + length new) ?c = drop (p + length old) content"
      unfolding c using l by (metis append_eq_conv_conj)+
    have "p + length new \<le> length ?c" unfolding c using l by simp
    with 1(1) [OF Some 1(2)] 1(2)
    have "edit_loop old new content pos n
        = (take p content @ new @ replace_all old new (drop (p + length old) content),
           n + 1 + count_occ old (drop (p + length old) content))"
      using Some t by (simp add: step)
    moreover have "drop (k + length old) (drop pos content) = drop (p + length old) content"
      using k(2) by (simp add: ac_simps)
    moreover have "take p content = take pos content @ take k (drop pos content)"
      using k(2) by (simp add: take_add)
    ultimately show ?thesis using replace_first [OF 1(2) k(1), of new] by simp
  qed
qed

lemma replace_nonempty_count: "count_occ old s = 0 \<longleftrightarrow> first_at old s = None \<or> old = []"
proof (cases "old = []")
  case True
  then show ?thesis by (induction s) auto
next
  case False
  then show ?thesis
    using replace_none [of old s] replace_first [of old s] by (cases "first_at old s") auto
qed

lemma edit_loop_0:
  "old \<noteq> [] \<Longrightarrow> edit_loop old new content 0 0 = (replace_all old new content, count_occ old content)"
  by (simp add: edit_loop_eq)

subsection \<open>Escaped parameters\<close>

text \<open>What the model must send for a text to arrive as it is: both kinds of tokens escaped.\<close>

definition escape_all :: "model_tokens \<Rightarrow> string \<Rightarrow> string" where
  "escape_all mt s = escape_turn_tags mt (escape_parameter_tags s)"

lemma unescape_escape_all:
  assumes "escapable ESCAPE_CHAR (PARAM_END # collect_base_turn_tokens mt)"
  shows "unescape_all mt (escape_all mt s) = s"
proof -
  let ?ts = "collect_base_turn_tokens mt"
  have "escape_all mt s = fold (\<lambda>t s. escape_tag s t ESCAPE_CHAR) (PARAM_END # ?ts) s"
    by (simp add: escape_all_def escape_turn_tags_def escape_parameter_tags_def)
  also have "\<dots> = esc_many ESCAPE_CHAR (PARAM_END # ?ts) s" by (rule fold_escape [OF assms])
  finally have e: "escape_all mt s = esc_many ESCAPE_CHAR (PARAM_END # ?ts) s" .
  have "unescape_all mt x = fold (\<lambda>t s. unescape_one_token s t ESCAPE_CHAR) (PARAM_END # ?ts) x" for x
    by (simp add: unescape_all_def unescape_turn_tags_def unescape_parameter_tags_def)
  with e fold_unescape_eq [OF assms] show ?thesis by simp
qed

lemma escape_all_ne:
  assumes "escapable ESCAPE_CHAR (PARAM_END # collect_base_turn_tokens mt)" "s \<noteq> []"
  shows "escape_all mt s \<noteq> []"
proof
  assume "escape_all mt s = []"
  then have "unescape_all mt [] = s" using unescape_escape_all [OF assms(1), of s] by simp
  moreover have "unescape_all mt (escape_all mt []) = []" by (rule unescape_escape_all [OF assms(1)])
  moreover have "escape_all mt [] = []"
  proof -
    have "escape_tag [] t e = []" for t e by (simp add: escape_tag_def escape_loop.simps)
    then have "fold (\<lambda>t s. escape_tag s t ESCAPE_CHAR) ts [] = []" for ts by (induction ts) simp_all
    then show ?thesis
      by (simp add: escape_all_def escape_turn_tags_def escape_parameter_tags_def \<open>\<And>t e. escape_tag [] t e = []\<close>)
  qed
  ultimately show False using assms(2) by simp
qed

subsection \<open>Directories\<close>

lemma mkdir_component_keeps:
  "mkdir_component env p (fs, created) = Inr (fs', created') \<Longrightarrow>
   fs_files fs' = fs_files fs \<and> set (fs_dirs fs) \<subseteq> set (fs_dirs fs')
   \<and> (\<forall>e. os_mkdir env (os_norm env p) = Mkdir_Ok \<longrightarrow> os_norm env p \<in> set (fs_dirs fs'))"
  by (auto simp: mkdir_component_def stat_path_def Let_def split: stat_res.splits mkdir_res.splits
      option.splits if_splits)

lemma mkdir_all_spec:
  "mkdir_all env ps (fs, created) = (fs', created', err) \<Longrightarrow>
   fs_files fs' = fs_files fs \<and> set (fs_dirs fs) \<subseteq> set (fs_dirs fs')
   \<and> (err = None \<and> (\<forall>q. os_mkdir env q = Mkdir_Ok) \<longrightarrow>
       (\<forall>p\<in>set ps. os_norm env p \<in> set (fs_dirs fs')))"
proof (induction ps arbitrary: fs created)
  case (Cons p ps)
  show ?case
  proof (cases "mkdir_component env p (fs, created)")
    case (Inl e)
    with Cons.prems show ?thesis by auto
  next
    case (Inr st)
    obtain fs1 c1 where st: "st = (fs1, c1)" by (cases st)
    from Cons.prems Inr st have "mkdir_all env ps (fs1, c1) = (fs', created', err)" by simp
    from Cons.IH [OF this] mkdir_component_keeps [OF Inr [unfolded st]] show ?thesis by auto
  qed
qed simp

text \<open>The directories \<open>mkdir_p\<close> sees to.\<close>

definition parent_dirs :: "string \<Rightarrow> string list" where
  "parent_dirs f =
     (case str_rfind f ''/'' of None \<Rightarrow> [] | Some k \<Rightarrow> if k = 0 then [] else dir_prefixes (take k f))"

lemma mkdir_p_eq: "mkdir_p env fs f = mkdir_all env (parent_dirs f) (fs, [])"
  by (auto simp: mkdir_p_def parent_dirs_def split: option.splits)

lemma mkdir_p_files: "mkdir_p env fs f = (fs1, created, err) \<Longrightarrow> fs_files fs1 = fs_files fs"
  by (auto simp: mkdir_p_def dest: mkdir_all_spec split: option.splits if_splits)

lemma mkdir_error_ne: "mkdir_p env fs f = (fs1, created, Some e) \<Longrightarrow> e \<noteq> []"
proof -
  have "mkdir_all env ps (fs, c) = (fs1, created, Some e) \<Longrightarrow> e \<noteq> []" for ps c fs
    by (induction ps arbitrary: fs c)
      (auto simp: mkdir_component_def split: sum.splits stat_res.splits mkdir_res.splits)
  then show "mkdir_p env fs f = (fs1, created, Some e) \<Longrightarrow> e \<noteq> []" by (auto simp: mkdir_p_eq)
qed

text \<open>A write that reports no error has stored the text, unless its flush failed.\<close>

lemma write_file_stored:
  assumes "write_file env mt path c fs = (fs', r)" "rm_error r = []"
    and "os_flush_ok env (os_norm env (os_fullpath env path))"
  shows "fs_files fs' (os_norm env (os_fullpath env path)) = Some (unescape_all mt c, os_now env)"
  using assms mkdir_error_ne
  by (auto simp: write_file_def Let_def rm_fail_def rm_empty_def write_path_def
      split: option.splits if_splits prod.splits)

subsection \<open>Properties\<close>

text \<open>C18: Editing a file, with the old and the new text escaped as the protocol asks; every branch. When
  the file cannot be read, when the old text is empty or does not occur, when the result would be empty
  and when the file cannot be opened for writing, the edit reports an error and changes nothing. Else,
  if the device takes all of the text, it stores exactly the content with every occurrence of the old
  text, from the left and not overlapping, replaced by the new text, changes no other file, and reports
  the number of replacements; if the device fails during the write, it reports an error and the file holds
  what the device stored of that text, all other files being unchanged.\<close>

theorem edit_file_spec:
  assumes "escapable ESCAPE_CHAR (PARAM_END # collect_base_turn_tokens mt)"
    and "edit_file env mt path (escape_all mt old) (escape_all mt new) fs = (fs', r)"
  shows "let f = os_fullpath env path; q = os_norm env f in
    case read_path env fs f of
      None \<Rightarrow> fs' = fs \<and> rm_status r = ''error'' \<and> rm_error r \<noteq> []
    | Some content \<Rightarrow>
        (let result = replace_all old new content in
         if old = [] \<or> count_occ old content = 0 \<or> result = [] \<or> \<not> os_can_write env q then
           fs' = fs \<and> rm_status r = ''error'' \<and> rm_error r \<noteq> []
         else if os_insert_ok env q \<and> os_flush_ok env q then
           fs' = fs\<lparr>fs_files := (fs_files fs)(q \<mapsto> (result, os_now env))\<rparr>
           \<and> rm_status r = ''updated'' \<and> rm_changes r = nat_string (count_occ old content)
         else
           fs' = fs\<lparr>fs_files := (fs_files fs)(q \<mapsto> (os_partial env result, os_now env))\<rparr>
           \<and> rm_status r = ''error'' \<and> rm_error r \<noteq> [])"
proof -
  note u = unescape_escape_all [OF assms(1)]
  show ?thesis
  proof (cases "old = []")
    case True
    then show ?thesis
      using assms(2) u [of old] u [of new]
      by (auto simp: edit_file_def Let_def rm_fail_def rm_empty_def split: option.splits)
  next
    case False
    then show ?thesis
      using assms(2) u [of old] u [of new] edit_loop_0 [OF False]
      by (auto simp: edit_file_def Let_def rm_fail_def rm_empty_def write_path_def NOT_FOUND_ERROR_def
          split: option.splits if_splits)
  qed
qed

definition ex_env :: os_env where
  "ex_env = \<lparr>os_fullpath = (\<lambda>p. ''/w/'' @ p), os_norm = (\<lambda>p. p), os_can_read = (\<lambda>_. True),
     os_can_write = (\<lambda>_. True), os_stat_error = (\<lambda>_. None), os_mkdir = (\<lambda>_. Mkdir_Ok),
     os_insert_ok = (\<lambda>_. True), os_flush_ok = (\<lambda>_. True), os_partial = (\<lambda>_. []), os_now = 9\<rparr>"

definition ex_fs :: fsys where
  "ex_fs = \<lparr>fs_files = [''/w/a'' \<mapsto> (''x</parameter>y'', 1)], fs_dirs = [''/w'']\<rparr>"

lemma ex_escapable: "escapable ESCAPE_CHAR (PARAM_END # collect_base_turn_tokens chatml)"
  by (simp add: chatml_tokens escapable_def PARAM_END_def ESCAPE_CHAR_def)

theorem edit_file_spec_witness:
  "fst (edit_file ex_env chatml ''a'' (escape_all chatml ''</parameter>'') (escape_all chatml ''z'') ex_fs)
   = ex_fs\<lparr>fs_files := [''/w/a'' \<mapsto> (''xzy'', 9)]\<rparr>"
proof -
  obtain fs' r where e: "edit_file ex_env chatml ''a'' (escape_all chatml ''</parameter>'')
      (escape_all chatml ''z'') ex_fs = (fs', r)" by fastforce
  have c: "replace_all ''</parameter>'' ''z'' ''x</parameter>y'' = ''xzy''"
    "count_occ ''</parameter>'' ''x</parameter>y'' = 1" by code_simp+
  show ?thesis
    using edit_file_spec [OF ex_escapable e] e by (simp add: ex_env_def ex_fs_def read_path_def c Let_def)
qed

text \<open>Writing a file. When the write reports success and the flush did not fail, the file holds
  exactly the text (sent escaped), no other file changed, and when the directories could be made every
  component of its directory exists; a write that reports an error before opening the file changes no
  file at all.\<close>

theorem write_file_spec:
  assumes "escapable ESCAPE_CHAR (PARAM_END # collect_base_turn_tokens mt)"
    and "write_file env mt path (escape_all mt s) fs = (fs', r)"
  shows "let f = os_fullpath env path; q = os_norm env f in
    (if rm_status r = ''success'' then
       (os_flush_ok env q \<longrightarrow> fs_files fs' = (fs_files fs)(q \<mapsto> (s, os_now env)))
       \<and> ((\<forall>d. os_mkdir env d = Mkdir_Ok) \<longrightarrow>
            list_all (\<lambda>p. os_norm env p \<in> set (fs_dirs fs')) (parent_dirs f))
     else rm_status r = ''error'' \<and> rm_error r \<noteq> []
       \<and> (\<forall>p. p \<noteq> q \<longrightarrow> fs_files fs' p = fs_files fs p)
       \<and> (os_insert_ok env q \<longrightarrow> fs_files fs' = fs_files fs))"
proof -
  define f where "f = os_fullpath env path"
  obtain fs1 created err where m: "mkdir_p env fs f = (fs1, created, err)"
    by (cases "mkdir_p env fs f") auto
  have files: "fs_files fs1 = fs_files fs" using mkdir_p_files [OF m] .
  have dirs: "err = None \<Longrightarrow> (\<forall>d. os_mkdir env d = Mkdir_Ok) \<Longrightarrow>
      list_all (\<lambda>p. os_norm env p \<in> set (fs_dirs fs1)) (parent_dirs f)"
    using mkdir_all_spec [OF m [unfolded mkdir_p_eq]] by (auto simp: list_all_iff)
  have err: "err = Some e \<Longrightarrow> e \<noteq> []" for e
    using mkdir_error_ne [of env fs f fs1 created e] m by simp
  show ?thesis
    using assms(2) m files dirs err unescape_escape_all [OF assms(1), of s]
    by (auto simp: write_file_def Let_def f_def [symmetric] rm_fail_def rm_empty_def write_path_def
        split: option.splits if_splits)
qed

theorem write_file_spec_witness:
  "\<exists>fs' r. write_file ex_env chatml ''d/b'' (escape_all chatml ''t'') ex_fs = (fs', r)
   \<and> (let f = os_fullpath ex_env ''d/b''; q = os_norm ex_env f in
    (if rm_status r = ''success'' then
       (os_flush_ok ex_env q \<longrightarrow> fs_files fs' = (fs_files ex_fs)(q \<mapsto> (''t'', os_now ex_env)))
       \<and> ((\<forall>d. os_mkdir ex_env d = Mkdir_Ok) \<longrightarrow>
            list_all (\<lambda>p. os_norm ex_env p \<in> set (fs_dirs fs')) (parent_dirs f))
     else rm_status r = ''error'' \<and> rm_error r \<noteq> []
       \<and> (\<forall>p. p \<noteq> q \<longrightarrow> fs_files fs' p = fs_files ex_fs p)
       \<and> (os_insert_ok ex_env q \<longrightarrow> fs_files fs' = fs_files ex_fs)))"
proof -
  obtain fs' r where e: "write_file ex_env chatml ''d/b'' (escape_all chatml ''t'') ex_fs = (fs', r)"
    by fastforce
  show ?thesis using write_file_spec [OF ex_escapable e] e by (intro exI conjI)
qed

text \<open>
  The success test looks at the stream before it is flushed: a write whose flush fails reports success
  although the file does not hold the text.
\<close>

lemma write_file_flush_unnoticed:
  "let env = ex_env\<lparr>os_flush_ok := (\<lambda>_. False)\<rparr>; (fs', r) = write_file env chatml ''b'' ''text'' ex_fs in
   rm_status r = ''success'' \<and> read_path env fs' ''/w/b'' = Some []"
  by (simp add: write_file_def ex_env_def ex_fs_def mkdir_p_def str_rfind_def dir_prefixes_def
      mkdir_component_def stat_path_def write_path_def read_path_def rm_empty_def Let_def)

subsection \<open>Searching\<close>

lemma search_loop_count:
  assumes "pat \<noteq> []" "pos \<le> length content" "n \<le> 10"
  shows "snd (search_loop content pat pos n r) = min 11 (n + count_occ pat (drop pos content))"
  using assms
proof (induction content pat pos n r rule: search_loop.induct)
  case (1 content pat pos n r)
  note step = search_loop.simps [of content pat pos n r]
  show ?case
  proof (cases "str_find content pat pos")
    case None
    then have "first_at pat (drop pos content) = None" using 1(3) by (simp add: str_find_def)
    with None 1(4) show ?thesis using replace_none [of pat "drop pos content"] by (simp add: step)
  next
    case (Some p)
    then obtain k where k: "first_at pat (drop pos content) = Some k" "p = pos + k"
      using 1(3) by (auto simp: str_find_def)
    have d: "drop (k + length pat) (drop pos content) = drop (p + length pat) content"
      using k(2) by (simp add: ac_simps)
    have c: "count_occ pat (drop pos content) = Suc (count_occ pat (drop (p + length pat) content))"
      using replace_first [OF 1(2) k(1)] d by simp
    show ?thesis
    proof (cases "n + 1 > 10")
      case True
      with Some c 1(4) show ?thesis by (simp add: step)
    next
      case False
      with 1(1) [OF Some False refl 1(2) str_find_bounds(2) [OF Some]] Some c show ?thesis
        by (simp add: step Let_def)
    qed
  qed
qed

lemma getlines_range:
  "range_lines ls s e = concat (map (\<lambda>l. l @ [ch_nl]) (take (nat (e + 1) - nat s) (drop (nat s) ls)))"
  if "nat (e + 1) \<le> length ls"
proof -
  have "map ((!) ls) [nat s..<nat (e + 1)] = take (nat (e + 1) - nat s) (drop (nat s) ls)"
    using that by (auto simp: list_eq_iff_nth_eq)
  then have "map ((\<lambda>l. l @ [ch_nl]) \<circ> (!) ls) [nat s..<nat (e + 1)]
      = map (\<lambda>l. l @ [ch_nl]) (take (nat (e + 1) - nat s) (drop (nat s) ls))"
    by (metis map_map)
  then show ?thesis by (simp add: range_lines_def comp_def)
qed

text \<open>Searching a file. A text search (the text sent escaped) reports the number of occurrences
  counted as the edit tool would replace them, at most eleven, so that a count of zero means exactly
  that the text does not occur; a range \<open>b\<close> to \<open>e\<close> of a file gives its lines from \<open>b\<close> to the smaller
  of \<open>e\<close> and the last line, or an error when \<open>b\<close> lies beyond the end.\<close>

theorem search_file_spec:
  assumes "escapable ESCAPE_CHAR (PARAM_END # collect_base_turn_tokens mt)"
    and "read_path env fs (os_fullpath env path) = Some content" "s \<noteq> []"
    and "1 \<le> b" "b \<le> e" "e < 2 ^ 31"
  shows "(\<exists>result. search_file env mt path (escape_all mt s) [] [] fs
        = search_done path result (min 11 (count_occ s content)))
    \<and> search_file env mt path [] (nat_string b) (nat_string e) fs
      = (let ls = getlines ch_nl content in
         if length ls < b then search_fail path (''Line '' @ nat_string b
             @ '' is beyond the end of file ('' @ nat_string (length ls) @ '' lines).'')
         else search_done path (''Lines '' @ nat_string b @ ''-'' @ nat_string (min (length ls) e) @ '' of ''
           @ path @ '':'' @ [ch_nl]
           @ concat (map (\<lambda>l. l @ [ch_nl]) (take (min (length ls) e - (b - 1)) (drop (b - 1) ls)))) 1)"
proof
  have ne: "escape_all mt s \<noteq> []" by (rule escape_all_ne [OF assms(1,3)])
  have "snd (search_loop content s 0 0 []) = min 11 (count_occ s content)"
    using search_loop_count [OF assms(3), of 0 content 0] by simp
  then show "\<exists>result. search_file env mt path (escape_all mt s) [] [] fs
      = search_done path result (min 11 (count_occ s content))"
    using ne assms(2) unescape_escape_all [OF assms(1), of s]
    by (cases "search_loop content s 0 0 []")
      (auto simp: search_file_def search_bounds_def search_text_def Let_def)
next
  let ?ls = "getlines ch_nl content"
  have pb: "parse_bound (nat_string k) l = Some (int k)" if "k < 2 ^ 31" "l \<le> int k" for k l
    using that scan_nat_string [of "[]" k] strtol_nat_string [of "[]" k]
    by (simp add: parse_bound_def LONG_MAX_def to_int32_id)
  have "search_bounds [] (nat_string b) (nat_string e) = Inr (int b, int e)"
    using assms(4-6) pb [of b 1] pb [of e 0] by (simp add: search_bounds_def)
  then have "search_file env mt path [] (nat_string b) (nat_string e) fs
      = search_range path content (int b) (int e)"
    using assms(2) by (simp add: search_file_def)
  also have "\<dots> = (let ls = ?ls in
         if length ls < b then search_fail path (''Line '' @ nat_string b
             @ '' is beyond the end of file ('' @ nat_string (length ls) @ '' lines).'')
         else search_done path (''Lines '' @ nat_string b @ ''-'' @ nat_string (min (length ls) e) @ '' of ''
           @ path @ '':'' @ [ch_nl]
           @ concat (map (\<lambda>l. l @ [ch_nl]) (take (min (length ls) e - (b - 1)) (drop (b - 1) ls)))) 1)"
  proof (cases "length ?ls < b")
    case True
    with assms(4) show ?thesis by (simp add: search_range_def Let_def int_string_def)
  next
    case False
    define m where "m = min (length ?ls) e"
    have m: "min (int (length ?ls) - 1) (int e - 1) = int m - 1" "m \<le> length ?ls" "1 \<le> m"
      using False assms(4,5) by (auto simp: m_def)
    have s: "max 0 (int b - 1) = int (b - 1)" using assms(4) by (simp add: of_nat_diff)
    have "range_lines ?ls (int (b - 1)) (int m - 1)
        = concat (map (\<lambda>l. l @ [ch_nl]) (take (m - (b - 1)) (drop (b - 1) ?ls)))"
      using m by (subst getlines_range) simp_all
    with m s False assms(4) show ?thesis
      by (simp add: search_range_def Let_def int_string_def of_nat_diff m_def [symmetric])
  qed
  finally show "search_file env mt path [] (nat_string b) (nat_string e) fs = \<dots>" .
qed

theorem search_file_spec_witness:
  "(\<exists>result. search_file ex_env chatml ''a'' (escape_all chatml ''x'') [] [] ex_fs
        = search_done ''a'' result (min 11 (count_occ ''x'' ''x</parameter>y'')))
    \<and> search_file ex_env chatml ''a'' [] (nat_string 1) (nat_string 2) ex_fs
      = (let ls = getlines ch_nl ''x</parameter>y'' in
         if length ls < 1 then search_fail ''a'' (''Line '' @ nat_string 1
             @ '' is beyond the end of file ('' @ nat_string (length ls) @ '' lines).'')
         else search_done ''a'' (''Lines '' @ nat_string 1 @ ''-'' @ nat_string (min (length ls) 2) @ '' of ''
           @ ''a'' @ '':'' @ [ch_nl]
           @ concat (map (\<lambda>l. l @ [ch_nl]) (take (min (length ls) 2 - (1 - 1)) (drop (1 - 1) ls)))) 1)"
  by (rule search_file_spec [OF ex_escapable]) (simp_all add: read_path_def ex_env_def ex_fs_def)

end
