(* ===== verification/Lim_Shell.thy ===== *)
theory Lim_Shell
  imports Lim_Files
begin

section \<open>exec\_shell (filesystem.cc)\<close>

text \<open>
  The command runner: the script it writes, the poll loop that streams the child's output through a
  size limit, the reaping of the child, and the final text with the exit code. The operating system is
  the list of what the successive calls of \<open>poll\<close> report, with what the \<open>read\<close> and \<open>waitpid\<close> calls
  behind each report return; the list goes up to the report that ends the loop (running out of reports
  counts as an unexpected poll error). The consumers keep what they were given: the result, the chunks
  streamed to the browser, the chat log.
\<close>

subsection \<open>The script\<close>

definition quote_command :: "string \<Rightarrow> string" where
  "quote_command command =
     concat (map (\<lambda>c. if c = ch_squote then [ch_squote, ch_bslash, ch_squote, ch_squote] else [c]) command)"

definition script_content :: "string \<Rightarrow> string \<Rightarrow> string" where
  "script_content command exit_code_file =
     ''#!/bin/bash'' @ [ch_nl] @ ''source ~/.bashrc 2>/dev/null'' @ [ch_nl] @ command @ [ch_nl]
     @ ''echo '' @ [ch_dquote] @ ''$?'' @ [ch_dquote] @ '' > '' @ [ch_dquote] @ exit_code_file
     @ [ch_dquote] @ [ch_nl]"

subsection \<open>Forwarding\<close>

record shell_out =
  so_result :: string
  so_chunks :: "string list"
  so_log :: string
  so_truncated :: bool

definition shell_out0 :: shell_out where
  "shell_out0 = \<lparr>so_result = [], so_chunks = [], so_log = [], so_truncated = False\<rparr>"

text \<open>A buffer read as a C string ends at its first NUL.\<close>

definition c_str :: "string \<Rightarrow> string" where
  "c_str buf = takeWhile (\<lambda>c. c \<noteq> CHR 0x00) buf"

definition forward_chunk :: "nat \<Rightarrow> string \<Rightarrow> shell_out \<Rightarrow> shell_out" where
  "forward_chunk max_output buf o1 =
     (if so_truncated o1 then o1
      else let remaining = usub max_output (length (so_result o1)) in
        if length buf > remaining then
          o1\<lparr>so_result := so_result o1 @ take remaining buf,
             so_chunks := so_chunks o1 @ [take remaining buf, [ch_nl] @ ''...''],
             so_log := so_log o1 @ take remaining buf @ [ch_nl] @ ''...'',
             so_truncated := True\<rparr>
        else
          o1\<lparr>so_result := so_result o1 @ c_str buf,
             so_chunks := so_chunks o1 @ [c_str buf],
             so_log := so_log o1 @ c_str buf\<rparr>)"

subsection \<open>The poll loop\<close>

datatype read_res = Read_Data string | Read_Eof | Read_Intr | Read_Again | Read_Error

datatype wait_res = Wait_Running | Wait_Exited int | Wait_Gone

text \<open>A report of \<open>poll\<close>: interrupted (with the stop flag), failed, or ready, with what the pipe read
  gives when its descriptor is ready, what \<open>waitpid\<close> then says, and the reads of the final drain.\<close>

datatype poll_res =
    Poll_Intr bool
  | Poll_Error
  | Poll_Ready "read_res option" wait_res "read_res list"

text \<open>Why the loop ended; the child was reaped inside it in one case only.\<close>

datatype loop_end = End_Interrupted | End_Error | End_Eof | End_Reaped int | End_Gone

fun drain_loop :: "nat \<Rightarrow> read_res list \<Rightarrow> shell_out \<Rightarrow> shell_out" where
  "drain_loop max_output [] o1 = o1"
| "drain_loop max_output (r # rs) o1 =
     (case r of
        Read_Data buf \<Rightarrow> drain_loop max_output rs (forward_chunk max_output buf o1)
      | Read_Intr \<Rightarrow> drain_loop max_output rs o1
      | _ \<Rightarrow> o1)"

fun poll_loop :: "nat \<Rightarrow> poll_res list \<Rightarrow> shell_out \<Rightarrow> shell_out \<times> loop_end" where
  "poll_loop max_output [] o1 = (o1, End_Error)"
| "poll_loop max_output (Poll_Intr stop # ps) o1 =
     (if stop then (o1, End_Interrupted) else poll_loop max_output ps o1)"
| "poll_loop max_output (Poll_Error # ps) o1 = (o1, End_Error)"
| "poll_loop max_output (Poll_Ready rd wt drain # ps) o1 =
     (case rd of
        Some Read_Eof \<Rightarrow> (o1, End_Eof)
      | Some Read_Intr \<Rightarrow> poll_loop max_output ps o1
      | Some Read_Again \<Rightarrow> poll_loop max_output ps o1
      | Some Read_Error \<Rightarrow> (o1, End_Error)
      | _ \<Rightarrow>
          (let o2 = (case rd of Some (Read_Data buf) \<Rightarrow> forward_chunk max_output buf o1 | _ \<Rightarrow> o1)
           in case wt of
                Wait_Exited status \<Rightarrow> (drain_loop max_output drain o2, End_Reaped status)
              | Wait_Gone \<Rightarrow> (o2, End_Gone)
              | Wait_Running \<Rightarrow> poll_loop max_output ps o2))"

subsection \<open>The exit code and the result\<close>

text \<open>The status the final \<open>waitpid\<close> stores: none is left when the loop has reaped the child.\<close>

definition final_wait :: "loop_end \<Rightarrow> int option \<Rightarrow> int" where
  "final_wait e status =
     (case e of
        End_Reaped _ \<Rightarrow> - 1
      | End_Gone \<Rightarrow> - 1
      | _ \<Rightarrow> (case status of Some st \<Rightarrow> st | None \<Rightarrow> - 1))"

definition WIFEXITED :: "int \<Rightarrow> bool" where "WIFEXITED st \<longleftrightarrow> st mod 128 = 0"
definition WEXITSTATUS :: "int \<Rightarrow> int" where "WEXITSTATUS st = st div 256 mod 256"

definition first_word :: "string \<Rightarrow> string option" where
  "first_word s =
     (let w = takeWhile (\<lambda>c. c \<notin> set ws_chars) (dropWhile (\<lambda>c. c \<in> set ws_chars) s)
      in if w = [] then None else Some w)"

definition shell_exit_code :: "string option \<Rightarrow> int \<Rightarrow> int" where
  "shell_exit_code exit_file pipe_status =
     (let ec = (case Option.bind exit_file first_word of Some w \<Rightarrow> atoi w | None \<Rightarrow> - 1)
      in if ec = - 1 \<and> pipe_status \<ge> 0 \<and> WIFEXITED pipe_status then WEXITSTATUS pipe_status else ec)"

definition NO_OUTPUT_LOG :: string where
  "NO_OUTPUT_LOG = ''[Command executed with no output]'' @ [ch_nl, ch_nl]"

definition silent_result :: "int \<Rightarrow> string" where
  "silent_result exit_code =
     (if exit_code = 0 then ''[Command exited with code 0 and produced no output]'' @ [ch_nl]
      else if exit_code > 0 then
        ''[Command exited with code '' @ int_string exit_code
        @ '' and produced no output. The command may have failed silently -- check your syntax or try a different approach.]''
        @ [ch_nl]
      else ''[Command produced no output; exit code could not be determined]'' @ [ch_nl])"

definition trunc_msg :: "nat \<Rightarrow> int \<Rightarrow> string" where
  "trunc_msg max_output exit_code =
     [ch_nl] @ ''[Output truncated at '' @ nat_string max_output @ '' bytes; exit code ''
     @ int_string exit_code @ '']'' @ [ch_nl]"

definition finish_shell :: "nat \<Rightarrow> int \<Rightarrow> shell_out \<Rightarrow> shell_out" where
  "finish_shell max_output exit_code o1 =
     (if so_result o1 = [] then
        o1\<lparr>so_result := silent_result exit_code, so_log := so_log o1 @ NO_OUTPUT_LOG\<rparr>
      else let o2 = o1\<lparr>so_log := so_log o1 @ [ch_nl, ch_nl]\<rparr> in
        if so_truncated o2 then
          o2\<lparr>so_result := so_result o2 @ trunc_msg max_output exit_code,
             so_chunks := so_chunks o2 @ [trunc_msg max_output exit_code],
             so_log := so_log o2 @ trunc_msg max_output exit_code\<rparr>
        else if exit_code > 0 then
          o2\<lparr>so_result := ''[Exit code: '' @ int_string exit_code @ '']'' @ [ch_nl] @ so_result o2\<rparr>
        else o2)"

text \<open>What the operating system does with one command: whether each resource could be created, the
  poll reports, the status of the last \<open>waitpid\<close> and what the exit code file holds.\<close>

record shell_run =
  sr_script_ok :: bool
  sr_pipe_ok :: bool
  sr_wake_ok :: bool
  sr_fork_ok :: bool
  sr_polls :: "poll_res list"
  sr_wait :: "int option"
  sr_exit_file :: "string option"

definition exec_shell :: "nat \<Rightarrow> shell_run \<Rightarrow> shell_out" where
  "exec_shell max_output run =
     (if \<not> sr_script_ok run then
        shell_out0\<lparr>so_result := ''Error: Failed to create temp script for shell execution.''\<rparr>
      else if \<not> sr_pipe_ok run then
        shell_out0\<lparr>so_result := ''Error: Failed to create pipe for shell execution.''\<rparr>
      else if \<not> sr_wake_ok run then
        shell_out0\<lparr>so_result := ''Error: Failed to create wake pipe for shell execution.''\<rparr>
      else if \<not> sr_fork_ok run then
        shell_out0\<lparr>so_result := ''Error: Failed to spawn shell process. The exec_shell tool may be temporarily unavailable.''\<rparr>
      else let (o1, e) = poll_loop max_output (sr_polls run) shell_out0;
               exit_code = shell_exit_code (sr_exit_file run) (final_wait e (sr_wait run))
        in finish_shell max_output exit_code o1)"

subsection \<open>What is read, apart from where it goes\<close>

text \<open>The buffers the reports hand over and the reason the loop ends, without the consumers.\<close>

fun drained :: "read_res list \<Rightarrow> string list" where
  "drained [] = []"
| "drained (r # rs) =
     (case r of Read_Data buf \<Rightarrow> buf # drained rs | Read_Intr \<Rightarrow> drained rs | _ \<Rightarrow> [])"

definition data_of :: "read_res option \<Rightarrow> string list" where
  "data_of rd = (case rd of Some (Read_Data buf) \<Rightarrow> [buf] | _ \<Rightarrow> [])"

fun polled :: "poll_res list \<Rightarrow> string list \<times> loop_end" where
  "polled [] = ([], End_Error)"
| "polled (Poll_Intr stop # ps) = (if stop then ([], End_Interrupted) else polled ps)"
| "polled (Poll_Error # ps) = ([], End_Error)"
| "polled (Poll_Ready rd wt drain # ps) =
     (if rd = Some Read_Eof then ([], End_Eof)
      else if rd = Some Read_Intr \<or> rd = Some Read_Again then polled ps
      else if rd = Some Read_Error then ([], End_Error)
      else case wt of
        Wait_Exited status \<Rightarrow> (data_of rd @ drained drain, End_Reaped status)
      | Wait_Gone \<Rightarrow> (data_of rd, End_Gone)
      | Wait_Running \<Rightarrow> apfst ((@) (data_of rd)) (polled ps))"

lemma drain_loop_fold: "drain_loop m rs o1 = fold (forward_chunk m) (drained rs) o1"
  by (induction rs arbitrary: o1) (auto split: read_res.splits)

lemma fold_data_of:
  "fold (forward_chunk m) (data_of rd) o1
     = (case rd of Some (Read_Data buf) \<Rightarrow> forward_chunk m buf o1 | _ \<Rightarrow> o1)"
  by (auto simp: data_of_def split: option.splits read_res.splits)

lemma poll_loop_polled:
  "poll_loop m ps o1 = (fold (forward_chunk m) (fst (polled ps)) o1, snd (polled ps))"
proof (induction ps arbitrary: o1 rule: polled.induct)
  case (4 rd wt drain ps)
  show ?case
    by (cases rd; cases wt; cases "the rd")
      (auto simp: 4 Let_def drain_loop_fold data_of_def fold_append split: option.splits read_res.splits)
qed auto

subsection \<open>The output limit\<close>

text \<open>Everything forwarded so far, without the marker of a cut.\<close>

definition shell_inv :: "nat \<Rightarrow> string \<Rightarrow> shell_out \<Rightarrow> bool" where
  "shell_inv m given o1 \<longleftrightarrow> so_result o1 = take m given \<and> (so_truncated o1 \<longleftrightarrow> m < length given)
     \<and> concat (so_chunks o1) = take m given @ (if m < length given then [ch_nl] @ ''...'' else [])
     \<and> so_log o1 = concat (so_chunks o1)"

lemma c_str_id: "CHR 0x00 \<notin> set buf \<Longrightarrow> c_str buf = buf"
  by (auto simp: c_str_def takeWhile_eq_all_conv)

lemma forward_chunk_inv:
  assumes "shell_inv m given o1" "CHR 0x00 \<notin> set buf"
  shows "shell_inv m (given @ buf) (forward_chunk m buf o1)"
proof (cases "m < length given")
  case True
  with assms(1) show ?thesis by (simp add: shell_inv_def forward_chunk_def)
next
  case False
  with assms have "so_result o1 = given" "\<not> so_truncated o1" "so_log o1 = concat (so_chunks o1)"
    "concat (so_chunks o1) = given" by (simp_all add: shell_inv_def)
  with False show ?thesis
    using assms(2) by (auto simp: shell_inv_def forward_chunk_def usub_def c_str_id Let_def)
qed

lemma forward_fold_inv:
  "shell_inv m given o1 \<Longrightarrow> \<forall>b\<in>set bufs. CHR 0x00 \<notin> set b
     \<Longrightarrow> shell_inv m (given @ concat bufs) (fold (forward_chunk m) bufs o1)"
  by (induction bufs arbitrary: given o1)
    (auto simp flip: append_assoc intro!: forward_chunk_inv)

lemma shell_inv0: "shell_inv m [] shell_out0"
  by (simp add: shell_inv_def shell_out0_def)

lemma forward_chunk_length:
  "length (so_result o1) \<le> m \<Longrightarrow> length (so_result (forward_chunk m buf o1)) \<le> m"
  using length_takeWhile_le [of "\<lambda>c. c \<noteq> CHR 0x00" buf]
  by (auto simp: forward_chunk_def usub_def c_str_def Let_def)

lemma forward_fold_length:
  "length (so_result o1) \<le> m \<Longrightarrow> length (so_result (fold (forward_chunk m) bufs o1)) \<le> m"
  by (induction bufs arbitrary: o1) (simp_all add: forward_chunk_length)

subsection \<open>Properties\<close>

definition shell_started :: "shell_run \<Rightarrow> bool" where
  "shell_started run \<longleftrightarrow> sr_script_ok run \<and> sr_pipe_ok run \<and> sr_wake_ok run \<and> sr_fork_ok run"

definition shell_text :: "shell_run \<Rightarrow> string" where
  "shell_text run = concat (fst (polled (sr_polls run)))"

definition shell_code :: "shell_run \<Rightarrow> int" where
  "shell_code run = shell_exit_code (sr_exit_file run) (final_wait (snd (polled (sr_polls run))) (sr_wait run))"

lemma exec_shell_started:
  "shell_started run \<Longrightarrow> exec_shell m run
     = finish_shell m (shell_code run) (fold (forward_chunk m) (fst (polled (sr_polls run))) shell_out0)"
  by (simp add: exec_shell_def shell_started_def poll_loop_polled shell_code_def Let_def)

text \<open>C40: A command that was started and whose output holds no NUL byte: the model gets the output with
  the exit code when the output fits the limit, the first \<open>max_output\<close> bytes with the cut notice
  otherwise, and a line saying that there was none; the browser gets the output or,
  when it is cut, the same bytes with a line of dots before the notice.\<close>

theorem exec_shell_spec:
  assumes "shell_started run" "CHR 0x00 \<notin> set (shell_text run)" "0 < m"
  shows "let tx = shell_text run; code = shell_code run; o1 = exec_shell m run in
    so_result o1 =
      (if tx = [] then silent_result code
       else if m < length tx then take m tx @ trunc_msg m code
       else if 0 < code then ''[Exit code: '' @ int_string code @ '']'' @ [ch_nl] @ tx else tx)
    \<and> concat (so_chunks o1) =
      (if m < length tx then take m tx @ [ch_nl] @ ''...'' @ trunc_msg m code else tx)"
proof -
  have "\<forall>b\<in>set (fst (polled (sr_polls run))). CHR 0x00 \<notin> set b"
    using assms(2) by (auto simp: shell_text_def)
  then have "shell_inv m ([] @ shell_text run)
      (fold (forward_chunk m) (fst (polled (sr_polls run))) shell_out0)"
    unfolding shell_text_def by (intro forward_fold_inv shell_inv0)
  then show ?thesis
    using assms(3) by (auto simp: exec_shell_started [OF assms(1)] finish_shell_def shell_inv_def Let_def)
qed

definition ex_run :: shell_run where
  "ex_run = \<lparr>sr_script_ok = True, sr_pipe_ok = True, sr_wake_ok = True, sr_fork_ok = True,
     sr_polls = [Poll_Ready (Some (Read_Data ''abc'')) Wait_Running [],
       Poll_Intr False, Poll_Ready None (Wait_Exited 512) [Read_Intr, Read_Data ''def'', Read_Eof]],
     sr_wait = None, sr_exit_file = Some (''2'' @ [ch_nl])\<rparr>"

lemma ex_run_simps:
  "shell_started ex_run" "shell_text ex_run = ''abcdef''"
  by (simp_all add: ex_run_def shell_started_def shell_text_def data_of_def)

theorem exec_shell_spec_witness:
  "let tx = shell_text ex_run; code = shell_code ex_run; o1 = exec_shell 4 ex_run in
    so_result o1 =
      (if tx = [] then silent_result code
       else if 4 < length tx then take 4 tx @ trunc_msg 4 code
       else if 0 < code then ''[Exit code: '' @ int_string code @ '']'' @ [ch_nl] @ tx else tx)
    \<and> concat (so_chunks o1) =
      (if 4 < length tx then take 4 tx @ [ch_nl] @ ''...'' @ trunc_msg 4 code else tx)"
  by (rule exec_shell_spec) (simp_all add: ex_run_simps)

text \<open>Whatever the command prints and however it ends, the model never gets more than the limit, the
  cut notice and the exit code line.\<close>

theorem exec_shell_bounded:
  "length (so_result (exec_shell m run))
     \<le> m + length (trunc_msg m (shell_code run)) + length (int_string (shell_code run)) + 160"
proof (cases "shell_started run")
  case False
  then show ?thesis by (auto simp: exec_shell_def shell_started_def shell_out0_def)
next
  case True
  have "length (so_result (fold (forward_chunk m) (fst (polled (sr_polls run))) shell_out0)) \<le> m"
    by (rule forward_fold_length) (simp add: shell_out0_def)
  then show ?thesis
    by (auto simp: exec_shell_started [OF True] finish_shell_def silent_result_def Let_def)
qed

text \<open>A child that ends before the script writes the exit code (\<open>exit 3\<close>) and is reaped by the
  streaming loop: its status is dropped, and the result says that it cannot be determined.\<close>

lemma exit_code_lost:
  "shell_exit_code (Some []) (final_wait (End_Reaped (3 * 256)) status) = - 1"
  "shell_exit_code (Some []) (final_wait End_Eof (Some (3 * 256))) = 3"
  by (simp_all add: shell_exit_code_def final_wait_def first_word_def WIFEXITED_def WEXITSTATUS_def)

text \<open>A NUL byte hides the rest of its chunk, although the output is below the limit.\<close>

lemma output_cut_at_nul:
  "so_result (forward_chunk 100 (''a'' @ [CHR 0x00] @ ''bc'') shell_out0) = ''a''"
  by (simp add: forward_chunk_def shell_out0_def usub_def c_str_def)

end
