(* ===== verification/Lim_State.thy ===== *)
theory Lim_State
  imports Lim_Save
begin

section \<open>The session state (session.h)\<close>

text \<open>
  \<open>SessionState\<close>, one field per member in the order of the source, without the timing statistics
  (\<open>last_elapsed\<close>, \<open>last_decode_time\<close>, \<open>last_feed_time\<close>), which only the speed display reads. The
  members keep the source's names behind the prefix \<open>ss_\<close>.
\<close>

record session_state =
  ss_auto_continue :: bool
  ss_reincarnate_mode :: bool
  ss_reincarnate_first_turn :: bool
  ss_prev_was_interrupted :: bool
  ss_first_turn_done :: bool
  ss_last_t_count :: int
  ss_last_n_past :: int
  ss_file_cache :: "string \<Rightarrow> string option"
  ss_tool_interrupt_pending :: bool
  ss_partial_tool_text :: string
  ss_thinking_block_open :: bool
  ss_all_context_tokens :: "token list"
  ss_conversation_text :: string
  ss_prompt_checkpoints :: "prompt_checkpoint list"
  ss_checkpoint_stack_offset :: int
  ss_log_index :: int
  ss_cli_restore_path :: string
  ss_last_search_path :: string
  ss_tool_correction_n_past :: int
  ss_has_tool_correction_checkpoint :: bool
  ss_correction_attempted_this_turn :: bool
  ss_minor_tool_error_self_fix_used :: bool
  ss_tool_correction_checkpoint_idx :: int
  ss_rs_checkpoint_saved_this_turn :: bool
  ss_interrupted_checkpoint_idx :: int
  ss_tool_correction_mode :: bool

definition session_state0 :: session_state where
  "session_state0 = \<lparr>ss_auto_continue = False, ss_reincarnate_mode = False,
     ss_reincarnate_first_turn = False, ss_prev_was_interrupted = False, ss_first_turn_done = False,
     ss_last_t_count = 0, ss_last_n_past = 0, ss_file_cache = (\<lambda>_. None),
     ss_tool_interrupt_pending = False, ss_partial_tool_text = [], ss_thinking_block_open = False,
     ss_all_context_tokens = [], ss_conversation_text = [], ss_prompt_checkpoints = [],
     ss_checkpoint_stack_offset = 0, ss_log_index = 0, ss_cli_restore_path = [],
     ss_last_search_path = [], ss_tool_correction_n_past = 0,
     ss_has_tool_correction_checkpoint = False, ss_correction_attempted_this_turn = False,
     ss_minor_tool_error_self_fix_used = False, ss_tool_correction_checkpoint_idx = - 1,
     ss_rs_checkpoint_saved_this_turn = False, ss_interrupted_checkpoint_idx = - 1,
     ss_tool_correction_mode = False\<rparr>"

end
