(* ===== verification/Lim_Tools.thy ===== *)
theory Lim_Tools
  imports Lim_Parsers Lim_Shell Lim_State
begin

section \<open>Tool calls (tools.cc)\<close>

text \<open>
  Dispatch of one tool call: the name, the path inference of \<open>edit_file\<close>, the validation, the six tools
  with the notes they prepend, and the flags of the result. The file tools and \<open>exec_shell\<close> are those of
  the theories Lim\_Files and Lim\_Shell; the network (\<open>fetch_urls\<close>, \<open>web_search\<close>, the PDF service) and
  the operating system's side of a shell command are parameters. \<open>world\<close> is what a tool can change
  outside the session: the file system and the stop flag.
\<close>

subsection \<open>Values that carry a newline or a tag\<close>

definition bracket_tag :: string where "bracket_tag = ''PARAM_END''"

definition PATH_NEWLINE_ERROR :: string where
  "PATH_NEWLINE_ERROR = ''System Error: Invalid tool format. The path parameter contains newlines or a parameter tag, likely because a ''
     @ PARAM_END @ '' closing tag is missing.''"

definition EDGE_TRIM_NOTE :: string where
  "EDGE_TRIM_NOTE = ''I remove spurious newlines ONLY in paths, never in actual content.''"

definition PATHS_NEWLINE_ERROR :: string where
  "PATHS_NEWLINE_ERROR = ''System Error: Invalid tool format. The paths parameter contains newlines or a parameter tag, likely because a ''
     @ PARAM_END @ '' closing tag is missing. List multiple paths comma-separated on a single line.''"

definition param_has_newline :: "string \<Rightarrow> bool" where
  "param_has_newline s \<longleftrightarrow> str_find s [ch_nl] 0 \<noteq> None \<or> str_find s [ch_cr] 0 \<noteq> None"

definition path_value_malformed :: "string \<Rightarrow> bool" where
  "path_value_malformed s \<longleftrightarrow> param_has_newline s \<or> str_find s PARAM_START 0 \<noteq> None"

datatype edge_handling = Retry | Trimmed | Passed

definition remedy :: "edge_handling \<Rightarrow> string \<Rightarrow> string" where
  "remedy handling core =
     (case handling of
        Retry \<Rightarrow> ''Put '' @ core @ '' and retry.'' @ [ch_nl]
      | Trimmed \<Rightarrow> EDGE_TRIM_NOTE @ '' Keep '' @ core @ ''.'' @ [ch_nl]
      | Passed \<Rightarrow> ''It was used as-is, newline included. Keep '' @ core @ ''.'' @ [ch_nl])"

definition leading_warning :: "string \<Rightarrow> string \<Rightarrow> edge_handling \<Rightarrow> string" where
  "leading_warning value param_name handling =
     (let past = (handling \<noteq> Retry); head = substr value 1 (length value - 1);
          head = (if length head > 10 then substr head 0 10 @ ''...'' else head);
          open_tag = PARAM_START @ param_name @ ''>'';
          core = ''the value on the same line as '' @ open_tag
      in ''Your '' @ param_name @ '' value '' @ (if past then ''began'' else ''begins'')
         @ '' with a leading newline: '' @ open_tag @ '' was on a separate line, so the newline ''
         @ (if past then ''was'' else ''is'') @ '' part of the value.'' @ [ch_nl]
         @ remedy handling core
         @ ''Your call began with: '' @ [ch_dquote] @ open_tag @ [ch_nl] @ head @ [ch_dquote])"

definition trailing_warning :: "string \<Rightarrow> string \<Rightarrow> edge_handling \<Rightarrow> string" where
  "trailing_warning value param_name handling =
     (let past = (handling \<noteq> Retry); tail = substr value 0 (length value - 1);
          tail = (if length tail > 10 then ''...'' @ substr tail (length tail - 10) 10 else tail);
          core = bracket_tag @ '' immediately after the last character of the value''
      in ''Your '' @ param_name @ '' value '' @ (if past then ''ended'' else ''ends'')
         @ '' with a trailing newline: '' @ bracket_tag @ '' was on a separate line, so the newline ''
         @ (if past then ''was'' else ''is'') @ '' part of the value.'' @ [ch_nl]
         @ remedy handling core
         @ ''Your call ended with: '' @ [ch_dquote] @ tail @ [ch_nl] @ bracket_tag @ [ch_dquote])"

definition edge_newline_warning :: "string \<Rightarrow> string \<Rightarrow> edge_handling \<Rightarrow> string" where
  "edge_newline_warning value param_name handling =
     (let leading_nl = (length value > 1 \<and> hd value = ch_nl);
          trailing_nl = (length value > 1 \<and> last value = ch_nl);
          warning = (if leading_nl then leading_warning value param_name handling else [])
      in if trailing_nl
         then (if warning \<noteq> [] then warning @ [ch_nl] else warning)
           @ trailing_warning value param_name handling
         else warning)"

definition prepend_edge_newline_note ::
    "string \<Rightarrow> string \<Rightarrow> string \<Rightarrow> edge_handling \<Rightarrow> string" where
  "prepend_edge_newline_note result tool_call param_name handling =
     (let note = edge_newline_warning (extract_string_arg_bounded tool_call param_name) param_name handling
      in if note \<noteq> [] then note @ [ch_nl, ch_nl] @ result else result)"

subsection \<open>The tools and their parameters\<close>

record tool_spec =
  ts_name :: string
  ts_params :: "string list"

definition tool_specs :: "tool_spec list" where
  "tool_specs =
    [\<lparr>ts_name = ''read_files'', ts_params = [''paths'']\<rparr>,
     \<lparr>ts_name = ''search_file'', ts_params = [''path'']\<rparr>,
     \<lparr>ts_name = ''write_file'', ts_params = [''path'', ''content'']\<rparr>,
     \<lparr>ts_name = ''edit_file'', ts_params = [''path'', ''old'', ''new'']\<rparr>,
     \<lparr>ts_name = ''exec_shell'', ts_params = [''command'']\<rparr>,
     \<lparr>ts_name = ''web_search'', ts_params = [''query'']\<rparr>]"

definition find_spec :: "string \<Rightarrow> tool_spec option" where
  "find_spec tool_name = find (\<lambda>spec. ts_name spec = tool_name) tool_specs"

definition find_missing_params :: "string \<Rightarrow> string \<Rightarrow> string list" where
  "find_missing_params tool_name tool_call =
     (case find_spec tool_name of
        None \<Rightarrow> []
      | Some spec \<Rightarrow> filter (\<lambda>param. \<not> param_present tool_call param) (ts_params spec))"

definition check_params :: "string \<Rightarrow> string \<Rightarrow> bool" where
  "check_params tool_name tool_call \<longleftrightarrow> find_missing_params tool_name tool_call = []"

fun join_sep :: "string \<Rightarrow> string list \<Rightarrow> string" where
  "join_sep sep [] = []"
| "join_sep sep [x] = x"
| "join_sep sep (x # y # xs) = x @ sep @ join_sep sep (y # xs)"

definition format_param_list :: "string list \<Rightarrow> string" where
  "format_param_list params = join_sep '', '' (map (\<lambda>p. PARAM_START @ p @ ''>'') params)"

definition required_params_list :: "string \<Rightarrow> string" where
  "required_params_list tool_name =
     (case find_spec tool_name of None \<Rightarrow> [] | Some spec \<Rightarrow> format_param_list (ts_params spec))"

definition is_known_tool :: "string \<Rightarrow> bool" where
  "is_known_tool name \<longleftrightarrow> find_spec name \<noteq> None"

definition unknown_tool_error :: "string \<Rightarrow> string" where
  "unknown_tool_error name =
     ''Error: Unknown tool '' @ sq @ name @ sq @ ''. Available tools: ''
     @ join_sep '', '' (map ts_name tool_specs) @ ''.''"

definition path_params_malformed :: "string \<Rightarrow> string \<Rightarrow> bool" where
  "path_params_malformed tool_name tool_call =
     (if tool_name = ''read_files'' then
        path_value_malformed (trim_chars (extract_raw_arg_bounded tool_call ''paths'') ws_chars)
      else if tool_name = ''search_file'' \<or> tool_name = ''write_file'' \<or> tool_name = ''edit_file'' then
        path_value_malformed (extract_path_arg tool_call)
      else False)"

definition validate_tool_call :: "string \<Rightarrow> bool" where
  "validate_tool_call tool_call =
     (case str_find tool_call FUNC_START 0 of
        None \<Rightarrow> False
      | Some ns0 \<Rightarrow>
          (let ns = ns0 + length FUNC_START in
           case str_find tool_call ''>'' ns of
             None \<Rightarrow> False
           | Some ne \<Rightarrow>
               (let clean_name = strip_quotes_from_name (substr tool_call ns (ne - ns)) in
                is_known_tool clean_name \<and> check_params clean_name tool_call
                  \<and> \<not> path_params_malformed clean_name tool_call)))"

subsection \<open>The result and the world\<close>

record tool_result =
  tr_content :: string
  tr_display :: string
  tr_is_error :: bool
  tr_is_expected_error :: bool
  tr_is_mutating :: bool
  tr_recognized :: bool
  tr_params_valid :: bool
  tr_malformed_xml :: bool
  tr_path_inferred :: bool
  tr_high_attention :: bool
  tr_parsed_tool_name :: string

definition tool_result0 :: tool_result where
  "tool_result0 = \<lparr>tr_content = [], tr_display = [], tr_is_error = False,
     tr_is_expected_error = False, tr_is_mutating = False, tr_recognized = True,
     tr_params_valid = True, tr_malformed_xml = False, tr_path_inferred = False,
     tr_high_attention = False, tr_parsed_tool_name = []\<rparr>"

record world =
  w_fs :: fsys
  w_stop :: bool

record tool_env =
  te_os :: os_env
  te_mt :: model_tokens
  te_docling :: "string \<Rightarrow> string"
  te_limit_context :: "string \<Rightarrow> string"
  te_fetch_urls :: "string \<Rightarrow> world \<Rightarrow> result_map list \<times> world"
  te_web_search :: "string \<Rightarrow> world \<Rightarrow> string \<times> world"
  te_shell :: "string \<Rightarrow> world \<Rightarrow> shell_run \<times> world"
  te_exec_limit :: nat

subsection \<open>The six tools\<close>

text \<open>A tool returns early with a finished result, or hands the text and the display line on. The first
  component of the pair is the result with the flags set so far.\<close>

type_synonym tool_run = "tool_result + tool_result \<times> string \<times> string"

definition malformed_result :: "tool_result \<Rightarrow> string \<Rightarrow> tool_result" where
  "malformed_result out e = out\<lparr>tr_content := e, tr_is_error := True, tr_malformed_xml := True\<rparr>"

definition display_sep :: "string \<Rightarrow> string" where
  "display_sep display = (if display = [] then ''Read files: '' else [ch_nl] @ ''            '')"

definition append_file :: "result_map \<Rightarrow> string \<times> string \<Rightarrow> string \<times> string" where
  "append_file f rd =
     (let (result, display) = rd in
      (result @ ''Path: '' @ rm_path f @ [ch_nl] @ ''Content:'' @ [ch_nl] @ rm_content f @ [ch_nl]
         @ (if rm_error f \<noteq> [] then ''Error: '' @ rm_error f @ [ch_nl] else [])
         @ ''---'' @ [ch_nl],
       display @ display_sep display @ rm_path f @ '': ''
         @ (if rm_error f \<noteq> [] then rm_error f else nat_string (length (rm_content f)) @ '' bytes'')))"

definition is_url :: "string \<Rightarrow> bool" where
  "is_url path \<longleftrightarrow> str_find path ''http://'' 0 = Some 0 \<or> str_find path ''https://'' 0 = Some 0"

definition cache_hit :: "os_env \<Rightarrow> fsys \<Rightarrow> (string \<Rightarrow> string option) \<Rightarrow> string \<Rightarrow> bool" where
  "cache_hit env fs cache path \<longleftrightarrow>
     (case cache path of
        None \<Rightarrow> False
      | Some fp0 \<Rightarrow> (let fp = file_fingerprint env fs path in fp \<noteq> [] \<and> fp0 = fp))"

record read_acc =
  ra_result :: string
  ra_display :: string
  ra_local :: "string list"
  ra_world :: world

definition read_path_step :: "tool_env \<Rightarrow> (string \<Rightarrow> string option) \<Rightarrow> string \<Rightarrow> read_acc \<Rightarrow> read_acc" where
  "read_path_step te cache path acc =
     (if \<not> is_url path \<and> cache_hit (te_os te) (w_fs (ra_world acc)) cache path then
        acc\<lparr>ra_result := ra_result acc @ ''Path: '' @ path @ [ch_nl] @ ''[cached]'' @ [ch_nl] @ ''---'' @ [ch_nl],
          ra_display := ra_display acc @ display_sep (ra_display acc) @ path @ '' (cached)''\<rparr>
      else if is_url path then
        (let (url_results, w') = te_fetch_urls te path (ra_world acc);
             (result, display) = fold append_file url_results (ra_result acc, ra_display acc)
         in acc\<lparr>ra_result := result, ra_display := display, ra_world := w'\<rparr>)
      else acc\<lparr>ra_local := ra_local acc @ [path]\<rparr>)"

definition cache_read :: "os_env \<Rightarrow> fsys \<Rightarrow> result_map \<Rightarrow> (string \<Rightarrow> string option) \<Rightarrow> (string \<Rightarrow> string option)" where
  "cache_read env fs f cache =
     (if rm_error f = [] \<and> rm_path f \<noteq> [] then cache(rm_path f \<mapsto> file_fingerprint env fs (rm_path f))
      else cache)"

definition run_read_files ::
    "tool_env \<Rightarrow> string \<Rightarrow> tool_result \<Rightarrow> session_state \<Rightarrow> world \<Rightarrow> tool_run \<times> session_state \<times> world" where
  "run_read_files te tool_call out st w =
     (if path_value_malformed (trim_chars (extract_raw_arg_bounded tool_call ''paths'') ws_chars)
      then (Inl (malformed_result out PATHS_NEWLINE_ERROR), st, w)
      else let paths = extract_array_arg_bounded tool_call ''paths'' in
        if paths = [] then (Inr (out, ''Error: No paths provided to read_files'', []), st, w)
        else let result = prepend_edge_newline_note (''Files content:'' @ [ch_nl]) tool_call ''paths'' Trimmed;
                 acc = fold (read_path_step te (ss_file_cache st)) paths
                   \<lparr>ra_result = result, ra_display = [], ra_local = [], ra_world = w\<rparr>;
                 fs = w_fs (ra_world acc);
                 results = read_files (te_os te) (te_docling te) (te_limit_context te) (ra_local acc) fs;
                 (result, display) = fold append_file results (ra_result acc, ra_display acc);
                 cache = fold (cache_read (te_os te) fs) results (ss_file_cache st)
          in (Inr (out, result, display), st\<lparr>ss_file_cache := cache\<rparr>, ra_world acc))"

definition MALFORMED_SEARCH :: string where
  "MALFORMED_SEARCH = ''Your search_file call was malformed, so it searched the wrong bytes:'' @ [ch_nl]"

definition REVERIFY_TEXT :: string where
  "REVERIFY_TEXT = ''Re-verify TEXT matches the file byte-for-byte (no stray whitespace at either end).''"

definition no_match_text :: "string \<Rightarrow> string \<Rightarrow> string" where
  "no_match_text warning path =
     (if warning = [] then REVERIFY_TEXT else MALFORMED_SEARCH @ warning)
       @ [ch_nl] @ path @ '' has 0 matches for that exact TEXT.''"

definition run_search_file ::
    "tool_env \<Rightarrow> string \<Rightarrow> tool_result \<Rightarrow> session_state \<Rightarrow> world \<Rightarrow> tool_run \<times> session_state \<times> world" where
  "run_search_file te tool_call out st w =
     (let path = extract_path_arg tool_call in
      if path_value_malformed path then (Inl (malformed_result out PATH_NEWLINE_ERROR), st, w)
      else let tx = extract_string_arg_bounded tool_call ''text'';
               begin_str = trim_chars (extract_string_arg_bounded tool_call ''begin'') ws_chars;
               end_str = trim_chars (extract_string_arg_bounded tool_call ''end'') ws_chars
        in if path = [] then (Inr (out, ''Error: path is required for search_file'', []), st, w)
           else let st' = st\<lparr>ss_last_search_path := path\<rparr>;
                    r = search_file (te_os te) (te_mt te) path tx begin_str end_str (w_fs w);
                    warning = edge_newline_warning tx ''text'' Retry;
                    (out', result) =
                      (if rm_error r \<noteq> [] then (out\<lparr>tr_is_error := True\<rparr>, ''Error: '' @ rm_error r)
                       else if rm_content r = [] then
                         (if warning = [] then out else out\<lparr>tr_high_attention := True\<rparr>, no_match_text warning path)
                       else (out, rm_content r))
             in (Inr (out', prepend_edge_newline_note result tool_call ''path'' Trimmed, rm_display r), st', w))"

definition erase_cached :: "string \<Rightarrow> session_state \<Rightarrow> session_state" where
  "erase_cached path st = st\<lparr>ss_file_cache := (ss_file_cache st)(path := None)\<rparr>"

definition run_write_file ::
    "tool_env \<Rightarrow> string \<Rightarrow> tool_result \<Rightarrow> session_state \<Rightarrow> world \<Rightarrow> tool_run \<times> session_state \<times> world" where
  "run_write_file te tool_call out st w =
     (let path = extract_path_arg tool_call in
      if path_value_malformed path then (Inl (malformed_result out PATH_NEWLINE_ERROR), st, w)
      else let content = extract_string_arg_bounded tool_call ''content'';
               st' = erase_cached path st; out' = out\<lparr>tr_is_mutating := True\<rparr>
        in if path = [] then (Inr (out', ''Error: No path provided to write_file'', []), st', w)
           else let (fs', r) = write_file (te_os te) (te_mt te) path content (w_fs w);
                    (out'', result, display) =
                      (if rm_error r \<noteq> [] then
                         (out'\<lparr>tr_is_error := True\<rparr>, ''Status: '' @ rm_status r @ '', Error: '' @ rm_error r,
                          ''Write file: '' @ path @ '': '' @ rm_error r)
                       else (out',
                         ''Status: '' @ rm_status r
                           @ (if rm_dirs r \<noteq> [] then ''; created directories: '' @ rm_dirs r else []),
                         ''Write file: '' @ path @ '': '' @ nat_string (length content) @ '' bytes''
                           @ (if rm_dirs r \<noteq> [] then '' (created directories)'' else [])))
             in (Inr (out'', prepend_edge_newline_note result tool_call ''path'' Trimmed, display),
                 st', w\<lparr>w_fs := fs'\<rparr>))"

definition MALFORMED_EDIT :: string where
  "MALFORMED_EDIT = ''Your edit_file call was malformed, so it could not match the file:'' @ [ch_nl]"

definition changes_text :: "int \<Rightarrow> string" where
  "changes_text n = int_string n @ (if n = 1 then '' change'' else '' changes'')"

definition edit_error ::
    "string \<Rightarrow> string \<Rightarrow> string \<Rightarrow> tool_result \<Rightarrow> tool_result \<times> string" where
  "edit_error result e old_str out =
     (let mismatch = (str_find e ''not found'' 0 \<noteq> None \<or> str_find e ''exact match'' 0 \<noteq> None);
          out' = out\<lparr>tr_is_error := True, tr_is_expected_error := mismatch\<rparr>;
          error_line = result @ '', Error: '' @ e;
          warning = edge_newline_warning old_str ''old'' Retry
      in if mismatch \<and> warning \<noteq> []
         then (out'\<lparr>tr_high_attention := True\<rparr>, MALFORMED_EDIT @ warning @ [ch_nl] @ error_line)
         else (out', error_line))"

definition run_edit_file ::
    "tool_env \<Rightarrow> string \<Rightarrow> tool_result \<Rightarrow> session_state \<Rightarrow> world \<Rightarrow> tool_run \<times> session_state \<times> world" where
  "run_edit_file te tool_call out st w =
     (let path = extract_path_arg tool_call in
      if path_value_malformed path then (Inl (malformed_result out PATH_NEWLINE_ERROR), st, w)
      else let old_str = extract_string_arg_bounded tool_call ''old'';
               new_str = extract_string_arg_bounded tool_call ''new'';
               st' = erase_cached path st; out' = out\<lparr>tr_is_mutating := True\<rparr>
        in if path = [] then (Inr (out', ''Error: No path provided to edit_file'', []), st', w)
           else let (fs', r) = edit_file (te_os te) (te_mt te) path old_str new_str (w_fs w);
                    n = atoi (rm_changes r);
                    result = ''Status: '' @ rm_status r
                      @ (if rm_changes r \<noteq> [] then '', '' @ changes_text n else []);
                    display = ''Edit file: '' @ path
                      @ (if rm_changes r \<noteq> [] then '': '' @ changes_text n else []);
                    (out'', result') =
                      (if rm_error r \<noteq> [] then edit_error result (rm_error r) old_str out' else (out', result))
             in (Inr (out'', prepend_edge_newline_note result' tool_call ''path'' Trimmed, display),
                 st', w\<lparr>w_fs := fs'\<rparr>))"

definition run_exec_shell ::
    "tool_env \<Rightarrow> string \<Rightarrow> tool_result \<Rightarrow> session_state \<Rightarrow> world \<Rightarrow> tool_run \<times> session_state \<times> world" where
  "run_exec_shell te tool_call out st w =
     (let command = extract_string_arg_bounded tool_call ''command'' in
      if command \<noteq> [] then
        (let (run, w') = te_shell te command w;
             result = so_result (exec_shell (te_exec_limit te) run)
         in (Inr (out\<lparr>tr_is_mutating := True\<rparr>,
               prepend_edge_newline_note result tool_call ''command'' Passed, []), st, w'))
      else (Inr (out, ''Error: No command provided to exec_shell'', []), st, w))"

function count_titles :: "string \<Rightarrow> nat \<Rightarrow> nat" where
  "count_titles s wp =
     (case str_find s ''Title:'' wp of None \<Rightarrow> 0 | Some p \<Rightarrow> Suc (count_titles s (p + 6)))"
  by pat_completeness auto
termination by (relation "measure (\<lambda>(s, wp). length s + 1 - wp)") (auto dest!: str_find_boundsD)

declare count_titles.simps [simp del]

definition run_web_search ::
    "tool_env \<Rightarrow> string \<Rightarrow> tool_result \<Rightarrow> session_state \<Rightarrow> world \<Rightarrow> tool_run \<times> session_state \<times> world" where
  "run_web_search te tool_call out st w =
     (let query = extract_string_arg_bounded tool_call ''query'' in
      if query \<noteq> [] then
        (let (found, w') = te_web_search te query w;
             result = prepend_edge_newline_note found tool_call ''query'' Passed;
             n = count_titles result 0
         in (Inr (out, result, ''Web search: '' @ [ch_dquote] @ query @ [ch_dquote] @ '': '' @ nat_string n
               @ (if n = 1 then '' result'' else '' results'')), st, w'))
      else (Inr (out, ''Error: No query provided to web_search'', []), st, w))"

subsection \<open>execute\_tool\_call\<close>

text \<open>The name, and the position behind \<open>FUNC_START\<close> where the path would be inserted (\<open>npos\<close> when the
  tag is missing).\<close>

definition call_name :: "string \<Rightarrow> string" where
  "call_name tool_call =
     strip_quotes_from_name
       (case str_find tool_call FUNC_START 0 of
          None \<Rightarrow> []
        | Some ns0 \<Rightarrow>
            (let ns = ns0 + length FUNC_START in
             case str_find tool_call ''>'' ns of None \<Rightarrow> [] | Some ne \<Rightarrow> substr tool_call ns (ne - ns)))"

definition inject_path :: "string \<Rightarrow> string \<Rightarrow> string \<Rightarrow> string \<times> bool" where
  "inject_path tool_name last_search_path tool_call =
     (if tool_name = ''edit_file'' \<and> last_search_path \<noteq> [] \<and> \<not> param_present tool_call ''path'' then
        (case Option.bind (str_find tool_call FUNC_START 0)
            (\<lambda>ns0. str_find tool_call ''>'' (ns0 + length FUNC_START)) of
           Some inject_at \<Rightarrow>
             (take (inject_at + 1) tool_call
                @ PARAM_START @ ''path>'' @ last_search_path @ PARAM_END
                @ drop (inject_at + 1) tool_call, True)
         | None \<Rightarrow> (tool_call, False))
      else (tool_call, False))"

definition missing_error :: "string \<Rightarrow> string list \<Rightarrow> tool_result \<Rightarrow> tool_result" where
  "missing_error tool_name missing out =
     (let missing_list = format_param_list missing in
      out\<lparr>tr_content := ''Error: Missing required parameter(s) for '' @ tool_name @ '': '' @ missing_list
            @ ''. Re-issue the call with all required parameters ('' @ required_params_list tool_name
            @ ''). Did you forget a closing parameter tag (PARAM_END) in your tool call?'',
          tr_display := ''Missing parameter(s) for '' @ tool_name @ '': '' @ missing_list,
          tr_is_error := True\<rparr>)"

definition dispatch_tool ::
    "tool_env \<Rightarrow> string \<Rightarrow> string \<Rightarrow> tool_result \<Rightarrow> session_state \<Rightarrow> world \<Rightarrow> tool_run \<times> session_state \<times> world" where
  "dispatch_tool te tool_name tool_call out st w =
     (if tool_name = ''read_files'' then run_read_files te tool_call out st w
      else if tool_name = ''search_file'' then run_search_file te tool_call out st w
      else if tool_name = ''write_file'' then run_write_file te tool_call out st w
      else if tool_name = ''edit_file'' then run_edit_file te tool_call out st w
      else if tool_name = ''exec_shell'' then run_exec_shell te tool_call out st w
      else if tool_name = ''web_search'' then run_web_search te tool_call out st w
      else (Inr (out, unknown_tool_error tool_name, []), st, w))"

definition finish_tool ::
    "string \<Rightarrow> bool \<Rightarrow> tool_result \<times> string \<times> string \<Rightarrow> session_state \<Rightarrow> tool_result \<times> session_state" where
  "finish_tool tool_name path_inferred run st =
     (let (out, result, display) = run; out1 = out\<lparr>tr_content := result, tr_display := display\<rparr> in
      if tr_is_error out1 then (out1, st)
      else (out1\<lparr>tr_is_error := (str_find result ''Error:'' 0 \<noteq> None), tr_path_inferred := path_inferred\<rparr>,
            if tool_name \<noteq> ''search_file'' then st\<lparr>ss_last_search_path := []\<rparr> else st))"

definition execute_tool_call ::
    "tool_env \<Rightarrow> string \<Rightarrow> session_state \<Rightarrow> world \<Rightarrow> tool_result \<times> session_state \<times> world" where
  "execute_tool_call te tool_call_in st w =
     (let tool_name = call_name tool_call_in in
      if w_stop w then (tool_result0\<lparr>tr_content := ''[Tool interrupted by user]''\<rparr>, st, w)
      else let (tool_call, path_inferred) = inject_path tool_name (ss_last_search_path st) tool_call_in;
               out = tool_result0\<lparr>tr_recognized := is_known_tool tool_name,
                 tr_params_valid := check_params tool_name tool_call, tr_parsed_tool_name := tool_name\<rparr>
        in if \<not> tr_recognized out then
             (out\<lparr>tr_content := unknown_tool_error tool_name, tr_is_error := True\<rparr>, st, w)
           else if \<not> tr_params_valid out then
             (missing_error tool_name (find_missing_params tool_name tool_call) out, st, w)
           else case dispatch_tool te tool_name tool_call out st w of
             (Inl early, st', w') \<Rightarrow> (early, st', w')
           | (Inr run, st', w') \<Rightarrow>
               (let (out', st'') = finish_tool tool_name path_inferred run st' in (out', st'', w')))"

subsection \<open>Validation and dispatch\<close>

definition call_accepted :: "tool_result \<Rightarrow> bool" where
  "call_accepted out \<longleftrightarrow> tr_recognized out \<and> tr_params_valid out \<and> \<not> tr_malformed_xml out"

lemma validate_call_name:
  "validate_tool_call c \<longleftrightarrow> is_known_tool (call_name c) \<and> check_params (call_name c) c
     \<and> \<not> path_params_malformed (call_name c) c"
proof -
  have "\<not> is_known_tool (strip_quotes_from_name [])"
    by (simp add: is_known_tool_def find_spec_def tool_specs_def strip_quotes_from_name_def first_not_of_def)
  then show ?thesis
    by (auto simp: validate_tool_call_def call_name_def Let_def split: option.splits)
qed

lemmas run_defs = run_read_files_def run_search_file_def run_write_file_def run_edit_file_def
  run_exec_shell_def run_web_search_def

lemma known_tools:
  "is_known_tool n \<longleftrightarrow> n \<in> {''read_files'', ''search_file'', ''write_file'', ''edit_file'',
     ''exec_shell'', ''web_search''}"
  by (auto simp: is_known_tool_def find_spec_def tool_specs_def)

text \<open>The flags of the validation, which no tool touches when it runs.\<close>

definition same_flags :: "tool_result \<Rightarrow> tool_result \<Rightarrow> bool" where
  "same_flags o1 o2 \<longleftrightarrow> tr_recognized o1 = tr_recognized o2 \<and> tr_params_valid o1 = tr_params_valid o2
     \<and> tr_malformed_xml o1 = tr_malformed_xml o2"

lemma same_flags_simps [simp]:
  "same_flags o1 o1"
  "same_flags (o1\<lparr>tr_is_error := b\<rparr>) o2 = same_flags o1 o2"
  "same_flags (o1\<lparr>tr_is_expected_error := b\<rparr>) o2 = same_flags o1 o2"
  "same_flags (o1\<lparr>tr_is_mutating := b\<rparr>) o2 = same_flags o1 o2"
  "same_flags (o1\<lparr>tr_high_attention := b\<rparr>) o2 = same_flags o1 o2"
  "same_flags (o1\<lparr>tr_path_inferred := b\<rparr>) o2 = same_flags o1 o2"
  "same_flags (o1\<lparr>tr_content := s\<rparr>) o2 = same_flags o1 o2"
  "same_flags (o1\<lparr>tr_display := s\<rparr>) o2 = same_flags o1 o2"
  by (simp_all add: same_flags_def)

lemma edit_error_flags: "tr_is_error (fst (edit_error a b c o1)) \<and> same_flags (fst (edit_error a b c o1)) o1"
  by (simp add: edit_error_def Let_def)

lemma edit_error_mutating: "tr_is_mutating (fst (edit_error a b c o1)) = tr_is_mutating o1"
  by (simp add: edit_error_def Let_def)

text \<open>One lemma about every tool: an early return is the malformed result and changes nothing, and a
  tool that runs keeps the flags.\<close>

definition run_ok :: "string \<Rightarrow> string \<Rightarrow> tool_result \<Rightarrow> session_state \<Rightarrow> world
    \<Rightarrow> tool_run \<times> session_state \<times> world \<Rightarrow> bool" where
  "run_ok n c out st w run \<longleftrightarrow> (case fst run of
      Inl early \<Rightarrow> path_params_malformed n c \<and> snd run = (st, w)
        \<and> early \<in> {malformed_result out PATHS_NEWLINE_ERROR, malformed_result out PATH_NEWLINE_ERROR}
    | Inr (o', _, _) \<Rightarrow> \<not> path_params_malformed n c \<and> same_flags o' out)"

lemma run_ok_read: "run_ok ''read_files'' c out st w (run_read_files te c out st w)"
  by (simp add: run_ok_def run_read_files_def path_params_malformed_def Let_def case_prod_beta)

lemma run_ok_search: "run_ok ''search_file'' c out st w (run_search_file te c out st w)"
proof (cases "path_value_malformed (extract_path_arg c)")
  case True
  then show ?thesis by (simp add: run_ok_def run_search_file_def path_params_malformed_def Let_def)
next
  case False
  then show ?thesis
    by (auto simp add: run_ok_def run_search_file_def path_params_malformed_def Let_def case_prod_beta)
qed

lemma run_ok_write: "run_ok ''write_file'' c out st w (run_write_file te c out st w)"
proof (cases "path_value_malformed (extract_path_arg c)")
  case True
  then show ?thesis by (simp add: run_ok_def run_write_file_def path_params_malformed_def Let_def)
next
  case False
  show ?thesis
  proof (cases "rm_error (snd (write_file (te_os te) (te_mt te) (extract_path_arg c)
      (extract_string_arg_bounded c ''content'') (w_fs w))) = []")
    case True
    with False show ?thesis
      by (auto simp add: run_ok_def run_write_file_def path_params_malformed_def Let_def case_prod_beta)
  next
    case err: False
    with False show ?thesis
      by (auto simp add: run_ok_def run_write_file_def path_params_malformed_def Let_def case_prod_beta)
  qed
qed

lemma run_ok_edit: "run_ok ''edit_file'' c out st w (run_edit_file te c out st w)"
proof (cases "path_value_malformed (extract_path_arg c)")
  case True
  then show ?thesis by (simp add: run_ok_def run_edit_file_def path_params_malformed_def Let_def)
next
  case False
  show ?thesis
  proof (cases "rm_error (snd (edit_file (te_os te) (te_mt te) (extract_path_arg c)
      (extract_string_arg_bounded c ''old'') (extract_string_arg_bounded c ''new'') (w_fs w))) = []")
    case True
    with False show ?thesis
      by (auto simp add: run_ok_def run_edit_file_def path_params_malformed_def Let_def case_prod_beta)
  next
    case err: False
    have "same_flags (fst (edit_error a b d (out\<lparr>tr_is_mutating := True\<rparr>))) out" for a b d
      using edit_error_flags [of a b d "out\<lparr>tr_is_mutating := True\<rparr>"] by (simp add: same_flags_def)
    with False err show ?thesis
      by (auto simp add: run_ok_def run_edit_file_def path_params_malformed_def Let_def case_prod_beta)
  qed
qed

lemma run_ok_shell: "run_ok ''exec_shell'' c out st w (run_exec_shell te c out st w)"
  by (simp add: run_ok_def run_exec_shell_def path_params_malformed_def Let_def case_prod_beta)

lemma run_ok_web: "run_ok ''web_search'' c out st w (run_web_search te c out st w)"
  by (simp add: run_ok_def run_web_search_def path_params_malformed_def Let_def case_prod_beta)

lemma dispatch_tool_eq:
  "dispatch_tool te ''read_files'' c out st w = run_read_files te c out st w"
  "dispatch_tool te ''search_file'' c out st w = run_search_file te c out st w"
  "dispatch_tool te ''write_file'' c out st w = run_write_file te c out st w"
  "dispatch_tool te ''edit_file'' c out st w = run_edit_file te c out st w"
  "dispatch_tool te ''exec_shell'' c out st w = run_exec_shell te c out st w"
  "dispatch_tool te ''web_search'' c out st w = run_web_search te c out st w"
  by (simp_all add: dispatch_tool_def)

lemma dispatch_tool_cases:
  assumes "is_known_tool n"
  shows "run_ok n c out st w (dispatch_tool te n c out st w)"
proof -
  from assms have "n = ''read_files'' \<or> n = ''search_file'' \<or> n = ''write_file'' \<or> n = ''edit_file''
      \<or> n = ''exec_shell'' \<or> n = ''web_search''"
    by (simp only: known_tools insert_iff empty_iff simp_thms)
  then show ?thesis
    by (elim disjE)
      (simp_all only: dispatch_tool_eq run_ok_read run_ok_search run_ok_write run_ok_edit
        run_ok_shell run_ok_web)
qed

lemma finish_tool_flags:
  "same_flags (fst (finish_tool n i (o', result, display) st)) o'"
  by (simp add: finish_tool_def Let_def)

lemma error_starts:
  "starts_with (unknown_tool_error n) ''Error: ''"
  "starts_with (tr_content (missing_error n ps out)) ''Error: ''"
  "starts_with PATH_NEWLINE_ERROR ''System Error: ''" "starts_with PATHS_NEWLINE_ERROR ''System Error: ''"
  by (simp_all add: unknown_tool_error_def missing_error_def PATH_NEWLINE_ERROR_def
      PATHS_NEWLINE_ERROR_def starts_with_def Let_def)

lemma missing_error_flags:
  "tr_is_error (missing_error n ps out)" "tr_is_mutating (missing_error n ps out) = tr_is_mutating out"
  "tr_recognized (missing_error n ps out) = tr_recognized out"
  "tr_params_valid (missing_error n ps out) = tr_params_valid out"
  "tr_malformed_xml (missing_error n ps out) = tr_malformed_xml out"
  by (simp_all add: missing_error_def Let_def)

lemma inject_path_missing: "snd (inject_path n l c) \<Longrightarrow> \<not> check_params n c"
proof -
  assume a: "snd (inject_path n l c)"
  then have n: "n = ''edit_file''" and p: "\<not> param_present c ''path''"
    by (auto simp only: inject_path_def snd_conv split: if_splits)
  have "find_spec n = Some \<lparr>ts_name = ''edit_file'', ts_params = [''path'', ''old'', ''new'']\<rparr>"
    by (simp add: n find_spec_def tool_specs_def)
  then show ?thesis using p by (simp add: check_params_def find_missing_params_def)
qed

text \<open>What \<open>execute_tool_call\<close> decides, on the call with the path inserted.\<close>

lemma execute_accepted:
  assumes "execute_tool_call te c st w = (out, st', w')" "\<not> w_stop w"
    and "inject_path (call_name c) (ss_last_search_path st) c = (c1, i)"
  shows "(call_accepted out \<longleftrightarrow> is_known_tool (call_name c) \<and> check_params (call_name c) c1
      \<and> \<not> path_params_malformed (call_name c) c1)
    \<and> (\<not> call_accepted out \<longrightarrow> st' = st \<and> w' = w \<and> tr_is_error out \<and> \<not> tr_is_mutating out
        \<and> (starts_with (tr_content out) ''Error: '' \<or> starts_with (tr_content out) ''System Error: ''))"
proof -
  let ?n = "call_name c"
  let ?o = "tool_result0\<lparr>tr_recognized := is_known_tool ?n, tr_params_valid := check_params ?n c1,
    tr_parsed_tool_name := ?n\<rparr>"
  consider (unknown) "\<not> is_known_tool ?n" | (missing) "is_known_tool ?n" "\<not> check_params ?n c1"
    | (ok) "is_known_tool ?n" "check_params ?n c1" by blast
  then show ?thesis
  proof cases
    case unknown
    with assms show ?thesis
      by (simp add: execute_tool_call_def Let_def call_accepted_def tool_result0_def error_starts)
         (auto simp: error_starts)
  next
    case missing
    with assms have "out = missing_error ?n (find_missing_params ?n c1) ?o" "st' = st" "w' = w"
      by (simp_all add: execute_tool_call_def Let_def)
    with missing show ?thesis
      by (simp add: call_accepted_def missing_error_flags error_starts tool_result0_def)
  next
    case ok
    obtain r s1 w1 where d: "dispatch_tool te ?n c1 ?o st w = (r, s1, w1)"
      by (cases "dispatch_tool te ?n c1 ?o st w")
    have ok': "run_ok ?n c1 ?o st w (r, s1, w1)" using dispatch_tool_cases [OF ok(1), of c1 ?o st w te] d by simp
    show ?thesis
    proof (cases r)
      case (Inl early)
      with ok' have "out = early" "st' = st" "w' = w" "path_params_malformed ?n c1"
        "early \<in> {malformed_result ?o PATHS_NEWLINE_ERROR, malformed_result ?o PATH_NEWLINE_ERROR}"
        using assms ok d by (simp_all add: execute_tool_call_def Let_def run_ok_def)
      with ok show ?thesis
        by (auto simp: call_accepted_def malformed_result_def error_starts tool_result0_def)
    next
      case (Inr run)
      obtain o' result display where run: "run = (o', result, display)" by (cases run)
      have "out = fst (finish_tool ?n i run s1)"
        using assms ok d Inr by (simp add: execute_tool_call_def Let_def case_prod_beta)
      then have "same_flags out o'" using finish_tool_flags run by simp
      moreover have "same_flags o' ?o" "\<not> path_params_malformed ?n c1"
        using ok' Inr run by (simp_all add: run_ok_def)
      ultimately show ?thesis using ok by (simp add: call_accepted_def same_flags_def tool_result0_def)
    qed
  qed
qed

subsection \<open>Properties\<close>


definition ex_te :: tool_env where
  "ex_te = \<lparr>te_os = ex_env, te_mt = chatml, te_docling = id, te_limit_context = id,
     te_fetch_urls = (\<lambda>url w. ([rm_fail ''offline''], w)), te_web_search = (\<lambda>q w. ([], w)),
     te_shell = (\<lambda>c w. (ex_run, w)), te_exec_limit = 32768\<rparr>"

definition ex_world :: world where
  "ex_world = \<lparr>w_fs = ex_fs, w_stop = False\<rparr>"


text \<open>C20: A call that is not accepted (unknown tool, missing parameter, malformed path) is reported as an
  error and has no effect: the session, the file system and the stop flag are as before, and it does
  not count as mutating.\<close>

theorem rejected_call_harmless:
  assumes "execute_tool_call te c st w = (out, st', w')" "\<not> call_accepted out"
  shows "st' = st \<and> w' = w \<and> tr_is_error out \<and> \<not> tr_is_mutating out
    \<and> (starts_with (tr_content out) ''Error: '' \<or> starts_with (tr_content out) ''System Error: '')"
proof -
  obtain c1 i where j: "inject_path (call_name c) (ss_last_search_path st) c = (c1, i)" by fastforce
  have "\<not> w_stop w"
    using assms by (auto simp: execute_tool_call_def Let_def call_accepted_def tool_result0_def)
  from execute_accepted [OF assms(1) this j] assms(2) show ?thesis by blast
qed

theorem rejected_call_harmless_witness:
  "\<exists>out. execute_tool_call ex_te ''hello'' session_state0 ex_world = (out, session_state0, ex_world)
    \<and> \<not> call_accepted out
    \<and> session_state0 = session_state0 \<and> ex_world = ex_world \<and> tr_is_error out \<and> \<not> tr_is_mutating out
    \<and> (starts_with (tr_content out) ''Error: '' \<or> starts_with (tr_content out) ''System Error: '')"
proof -
  have n: "call_name ''hello'' = []"
    by (simp add: call_name_def str_find_def FUNC_START_def strip_quotes_from_name_def first_not_of_def)
  have k: "\<not> is_known_tool []" by (simp add: known_tools)
  obtain out st' w' where e: "execute_tool_call ex_te ''hello'' session_state0 ex_world = (out, st', w')"
    by (metis prod_cases3)
  have a: "\<not> call_accepted out"
    using e by (auto simp: execute_tool_call_def n Let_def inject_path_def k ex_world_def
        tool_result0_def call_accepted_def)
  show ?thesis using rejected_call_harmless [OF e a] a e by auto
qed

subsection \<open>Calls in the canonical form\<close>

lemma call_name_text:
  assumes "good_name tool"
  shows "call_name (FUNC_START @ tool @ ''>'' @ r) = tool"
    and "str_find (FUNC_START @ tool @ ''>'' @ r) FUNC_START 0 = Some 0"
    and "str_find (FUNC_START @ tool @ ''>'' @ r) ''>'' (length FUNC_START)
      = Some (length FUNC_START + length tool)"
proof -
  have gt: "CHR ''>'' \<notin> set tool" using assms by (auto simp: good_name_def list_all_iff)
  show f: "str_find (FUNC_START @ tool @ ''>'' @ r) FUNC_START 0 = Some 0"
    by (simp add: str_find_def FUNC_START_def)
  show g: "str_find (FUNC_START @ tool @ ''>'' @ r) ''>'' (length FUNC_START)
      = Some (length FUNC_START + length tool)"
    using str_find_append [of "''>''" tool FUNC_START r] gt by simp
  have "strip_quotes_from_name tool = tool"
    using assms by (intro strip_name_id) (auto simp: good_name_def list_all_iff)
  then show "call_name (FUNC_START @ tool @ ''>'' @ r) = tool"
    using f g by (simp add: call_name_def substr_def)
qed

text \<open>A path as the model should write it: no white space or quotes around it, no newline, no tag.\<close>

definition good_path :: "string \<Rightarrow> bool" where
  "good_path p \<longleftrightarrow> p \<noteq> [] \<and> hd p \<notin> set ws_chars \<and> last p \<notin> set ws_chars \<and> \<not> quote_char (hd p)
     \<and> list_all (\<lambda>c. c \<noteq> CHR ''<'' \<and> c \<noteq> ch_nl \<and> c \<noteq> ch_cr) p"

lemma good_path_lt: "good_path p \<Longrightarrow> CHR ''<'' \<notin> set p"
  by (auto simp: good_path_def list_all_iff)

lemma good_path_escape: "good_path p \<Longrightarrow> escape_parameter_tags p = p"
  using esc_many_app_free [of "[PARAM_END]" p ESCAPE_CHAR "[]"] good_path_lt [of p]
  by (simp add: escape_parameter_tags_eq PARAM_END_def)

lemma good_path_ok: "good_path p \<Longrightarrow> \<not> path_value_malformed p"
proof -
  assume p: "good_path p"
  have "first_at PARAM_START p = None" by (rule no_open_free [OF good_path_lt [OF p]])
  moreover have "ch_nl \<notin> set p" "ch_cr \<notin> set p" using p by (auto simp: good_path_def list_all_iff)
  ultimately show ?thesis
    by (simp add: path_value_malformed_def param_has_newline_def str_find_single_None str_find_0)
qed

lemma good_path_plain: "good_path p \<Longrightarrow> plain_value p"
  using first_not_of_app [of "[]" ws_chars "hd p" "tl p"]
  by (cases p) (auto simp: plain_value_def good_path_def)

lemma good_path_trim: "good_path p \<Longrightarrow> trim_chars p ws_chars = p"
  by (rule trim_chars_id) (simp_all add: good_path_def)

lemma good_path_arg:
  assumes "good_path p" "extract_param_block c ''path'' = p"
  shows "extract_path_arg c = p" "extract_string_arg_bounded c ''path'' = p"
  using assms strip_quotes_plain [OF good_path_plain] good_path_trim
  by (simp_all add: extract_path_arg_def extract_string_arg_bounded_def)

lemma good_path_note:
  assumes "good_path p" "extract_string_arg_bounded c n = p"
  shows "prepend_edge_newline_note r c n h = r"
proof -
  have "hd p \<in> set p" "last p \<in> set p" using assms(1) by (simp_all add: good_path_def)
  then have "hd p \<noteq> ch_nl" "last p \<noteq> ch_nl" using assms(1) by (auto simp: good_path_def list_all_iff)
  then show ?thesis using assms(2) by (simp add: prepend_edge_newline_note_def edge_newline_warning_def)
qed

lemma good_path_params: "good_path p \<Longrightarrow> str_find p PARAM_START 0 = None"
  using no_open_free [OF good_path_lt] by (simp add: str_find_0)

lemma plain_value_arg:
  "extract_param_block c n = escape_parameter_tags v \<Longrightarrow> plain_value v \<Longrightarrow>
   extract_string_arg_bounded c n = escape_parameter_tags v"
  by (simp add: extract_string_arg_bounded_def strip_quotes_plain plain_value_escape)

lemma required_params:
  "check_params ''read_files'' c \<longleftrightarrow> param_present c ''paths''"
  "check_params ''search_file'' c \<longleftrightarrow> param_present c ''path''"
  "check_params ''write_file'' c \<longleftrightarrow> param_present c ''path'' \<and> param_present c ''content''"
  "check_params ''edit_file'' c \<longleftrightarrow>
     param_present c ''path'' \<and> param_present c ''old'' \<and> param_present c ''new''"
  by (auto simp: check_params_def find_missing_params_def find_spec_def tool_specs_def)

lemma tool_names_good: "good_name ''search_file''" "good_name ''edit_file''" "good_name ''write_file''"
    "good_name ''read_files''" "good_name ''path''"
  by code_simp+

lemma no_E_error: "CHR ''E'' \<notin> set s \<Longrightarrow> str_find s ''Error:'' 0 = None"
  using first_at_skip [of "''Error:''" s "[]"] by (simp add: str_find_0)

lemma int_string_no_E: "CHR ''E'' \<notin> set (int_string i)"
  using nat_string_digits [of "nat i"] nat_string_digits [of "nat (- i)"]
  by (auto simp: int_string_def list_all_iff is_digit_def)

text \<open>The path of an \<open>edit_file\<close> call without one: inserted behind the name.\<close>

lemma inject_path_edit:
  assumes "good_path p" "\<not> param_present (render_call ''edit_file'' ps) ''path''"
  shows "inject_path ''edit_file'' p (render_call ''edit_file'' ps)
    = ((FUNC_START @ ''edit_file'' @ ''>'') @ concat (map render_param ((''path'', p) # ps)) @ FUNC_END, True)"
proof -
  note f = call_name_text [OF tool_names_good(2)]
  have p: "p \<noteq> []" using assms(1) by (simp add: good_path_def)
  have t: "render_call ''edit_file'' ps
      = FUNC_START @ ''edit_file'' @ ''>'' @ [ch_nl] @ concat (map render_param ps) @ FUNC_END"
    by (simp add: render_call_def)
  have at: "Option.bind (str_find (render_call ''edit_file'' ps) FUNC_START 0)
      (\<lambda>ns0. str_find (render_call ''edit_file'' ps) ''>'' (ns0 + length FUNC_START))
      = Some (length FUNC_START + length ''edit_file'')"
    using f(2,3) by (simp only: t Option.bind.simps add_0)
  have n: "length FUNC_START + length ''edit_file'' + 1 = length (FUNC_START @ ''edit_file'' @ ''>'')"
    by simp
  have d: "take (length (FUNC_START @ ''edit_file'' @ ''>'')) (render_call ''edit_file'' ps)
      = FUNC_START @ ''edit_file'' @ ''>''"
    "drop (length (FUNC_START @ ''edit_file'' @ ''>'')) (render_call ''edit_file'' ps)
      = [ch_nl] @ concat (map render_param ps) @ FUNC_END"
    by (simp_all add: t)
  show ?thesis
    using p assms(2) unfolding inject_path_def at
    by (simp only: option.case n d if_True simp_thms)
      (simp add: render_param_def good_path_escape [OF assms(1)])
qed

text \<open>A search that finds its path leaves the file system alone and remembers the path.\<close>

lemma execute_search_remembers:
  assumes "\<not> w_stop w" "good_params qs" "map_of qs ''path'' = Some p" "good_path p"
    and "execute_tool_call te (render_call ''search_file'' qs) st w = (out, st', w')"
  shows "w' = w \<and> ss_last_search_path st' = p \<and> call_accepted out"
proof -
  let ?c = "render_call ''search_file'' qs" and ?n = "''search_file''"
  have t: "?c = FUNC_START @ ?n @ ''>'' @ [ch_nl] @ concat (map render_param qs) @ FUNC_END"
    by (simp add: render_call_def)
  have n: "call_name ?c = ?n" unfolding t by (rule call_name_text [OF tool_names_good(1)])
  have lt: "CHR ''<'' \<notin> set ?n" by simp
  note e = extract_block_of_text [OF assms(2) call_head_no_open [OF lt, of "[ch_nl]"] assms(3),
      folded render_call_text]
  have a: "extract_path_arg ?c = p"
    using good_path_arg [OF assms(4)] e(1) good_path_escape [OF assms(4)] by simp
  have i: "inject_path ?n l ?c = (?c, False)" for l by (simp add: inject_path_def)
  have k: "is_known_tool ?n" "check_params ?n ?c" "\<not> path_params_malformed ?n ?c"
    using e(2) a good_path_ok [OF assms(4)] by (simp_all add: known_tools required_params path_params_malformed_def)
  define o0 where "o0 = tool_result0\<lparr>tr_recognized := True, tr_params_valid := True, tr_parsed_tool_name := ?n\<rparr>"
  obtain run s1 w1 where r: "run_search_file te ?c o0 st w = (run, s1, w1)" by (metis prod_cases3)
  have "w1 = w \<and> ss_last_search_path s1 = p" "\<exists>x. run = Inr x"
    using r good_path_ok [OF assms(4)] assms(4)
    by (auto simp: run_search_file_def a Let_def case_prod_beta good_path_def)
  moreover have "s1 = st'" "w1 = w'"
    using assms(1,5) calculation(2) r k
    by (auto simp: execute_tool_call_def n i dispatch_tool_eq o0_def Let_def finish_tool_def
        case_prod_beta split: if_splits)
  moreover have "call_accepted out"
    using execute_accepted [OF assms(5,1)] n i k by simp
  ultimately show ?thesis by simp
qed

text \<open>What an accepted call does, in terms of the tool alone.\<close>

lemma execute_run:
  assumes "\<not> w_stop w" "call_name c = n" "inject_path n (ss_last_search_path st) c = (c1, i)"
    and "is_known_tool n" "check_params n c1"
    and "dispatch_tool te n c1 (tool_result0\<lparr>tr_recognized := True, tr_params_valid := True,
      tr_parsed_tool_name := n\<rparr>) st w = (Inr run, s1, w1)"
  shows "execute_tool_call te c st w = (fst (finish_tool n i run s1), snd (finish_tool n i run s1), w1)"
  using assms by (simp add: execute_tool_call_def Let_def case_prod_beta)

lemma run_edit_plain:
  assumes "good_path p" "extract_path_arg c = p" "extract_string_arg_bounded c ''path'' = p"
    and "edit_file (te_os te) (te_mt te) p (extract_string_arg_bounded c ''old'')
      (extract_string_arg_bounded c ''new'') (w_fs w) = (fs', r)" "\<not> tr_is_error o0"
  shows "\<exists>run. run_edit_file te c o0 st w = (Inr run, erase_cached p st, w\<lparr>w_fs := fs'\<rparr>)
    \<and> (tr_is_error (fst run) \<longleftrightarrow> rm_error r \<noteq> []) \<and> tr_is_mutating (fst run)
    \<and> (rm_error r = [] \<longrightarrow> CHR ''E'' \<notin> set (fst (snd run)))"
proof -
  have p: "p \<noteq> []" using assms(1) by (simp add: good_path_def)
  have st: "rm_error r = [] \<Longrightarrow> CHR ''E'' \<notin> set (rm_status r)"
    using assms(4) by (auto simp: edit_file_def Let_def rm_fail_def rm_empty_def NOT_FOUND_ERROR_def
        split: option.splits if_splits prod.splits)
  show ?thesis
  proof (cases "rm_error r = []")
    case True
    with st show ?thesis
      using good_path_ok [OF assms(1)] p assms(5) int_string_no_E
      by (simp add: run_edit_file_def assms(2,4) Let_def case_prod_beta good_path_note [OF assms(1,3)]
          changes_text_def)
  next
    case False
    then show ?thesis
      using good_path_ok [OF assms(1)] p edit_error_flags
      by (simp add: run_edit_file_def assms(2,4) Let_def case_prod_beta good_path_note [OF assms(1,3)]
          edit_error_mutating)
  qed
qed

text \<open>Editing after searching. When a search of a path has been executed, an edit call without a
  path is carried out exactly as an edit of that path: the same replacement in the same file, nothing
  else changes in the world, the path is dropped from the read cache, and the result is an error
  exactly when the edit failed; after a success the path is forgotten.\<close>

theorem edit_infers_path:
  assumes "\<not> w_stop w" "good_path p" "good_params qs" "map_of qs ''path'' = Some p"
    and "execute_tool_call te (render_call ''search_file'' qs) st w = (out1, st1, w1)"
    and "good_params ps" "map_of ps ''old'' = Some old" "map_of ps ''new'' = Some new"
    and "plain_value old" "plain_value new"
    and "\<not> param_present (render_call ''edit_file'' ps) ''path''"
    and "execute_tool_call te (render_call ''edit_file'' ps) st1 w1 = (out2, st2, w2)"
  shows "let (fs', r) = edit_file (te_os te) (te_mt te) p (escape_parameter_tags old)
             (escape_parameter_tags new) (w_fs w)
    in w2 = w\<lparr>w_fs := fs'\<rparr> \<and> call_accepted out2 \<and> tr_is_mutating out2
       \<and> ss_file_cache st2 = (ss_file_cache st1)(p := None)
       \<and> (tr_is_error out2 \<longleftrightarrow> rm_error r \<noteq> [])
       \<and> (rm_error r = [] \<longrightarrow> tr_path_inferred out2 \<and> ss_last_search_path st2 = [])"
proof -
  let ?c = "render_call ''edit_file'' ps" and ?n = "''edit_file''"
  obtain c1 where c1: "c1 = (FUNC_START @ ?n @ ''>'') @ concat (map render_param ((''path'', p) # ps)) @ FUNC_END"
    by blast
  obtain fs' r where er: "edit_file (te_os te) (te_mt te) p (escape_parameter_tags old)
      (escape_parameter_tags new) (w_fs w) = (fs', r)" by fastforce
  from execute_search_remembers [OF assms(1,3,4,2,5)]
  have w1: "w1 = w" and l: "ss_last_search_path st1 = p" by simp_all
  have t: "?c = FUNC_START @ ?n @ ''>'' @ [ch_nl] @ concat (map render_param ps) @ FUNC_END"
    by (simp add: render_call_def)
  have n: "call_name ?c = ?n" unfolding t by (rule call_name_text [OF tool_names_good(2)])
  have i: "inject_path ?n (ss_last_search_path st1) ?c = (c1, True)"
    unfolding l c1 by (rule inject_path_edit [OF assms(2,11)])
  have gp: "good_params ((''path'', p) # ps)"
    using assms(6) tool_names_good(5) good_path_params [OF assms(2)] by (simp add: good_params_def)
  have no: "no_open (FUNC_START @ ?n @ ''>'')" using call_head_no_open [of ?n "[]"] by simp
  note b = extract_block_of_text [OF gp no, folded c1]
  have m: "map_of ((''path'', p) # ps) ''path'' = Some p" "map_of ((''path'', p) # ps) ''old'' = Some old"
    "map_of ((''path'', p) # ps) ''new'' = Some new"
    using assms(7,8) by simp_all
  have a: "extract_path_arg c1 = p" "extract_string_arg_bounded c1 ''path'' = p"
    using good_path_arg [OF assms(2)] b(1) [OF m(1)] good_path_escape [OF assms(2)] by simp_all
  have ao: "extract_string_arg_bounded c1 ''old'' = escape_parameter_tags old"
    and an: "extract_string_arg_bounded c1 ''new'' = escape_parameter_tags new"
    using plain_value_arg b(1) [OF m(2)] b(1) [OF m(3)] assms(9,10) by blast+
  have k: "is_known_tool ?n" "check_params ?n c1" "\<not> path_params_malformed ?n c1"
    using b(2) [OF m(1)] b(2) [OF m(2)] b(2) [OF m(3)] a good_path_ok [OF assms(2)]
    by (simp_all add: known_tools required_params path_params_malformed_def)
  define o0 where "o0 = tool_result0\<lparr>tr_recognized := True, tr_params_valid := True, tr_parsed_tool_name := ?n\<rparr>"
  have "\<not> tr_is_error o0" by (simp add: o0_def tool_result0_def)
  from run_edit_plain [OF assms(2) a er [folded ao an] this]
  obtain run where r: "run_edit_file te c1 o0 st1 w = (Inr run, erase_cached p st1, w\<lparr>w_fs := fs'\<rparr>)"
    and run: "tr_is_error (fst run) \<longleftrightarrow> rm_error r \<noteq> []" "tr_is_mutating (fst run)"
      "rm_error r = [] \<Longrightarrow> CHR ''E'' \<notin> set (fst (snd run))" by blast
  have "execute_tool_call te ?c st1 w = (fst (finish_tool ?n True run (erase_cached p st1)),
      snd (finish_tool ?n True run (erase_cached p st1)), w\<lparr>w_fs := fs'\<rparr>)"
    by (rule execute_run [OF assms(1) n i k(1,2)]) (simp only: dispatch_tool_eq r [unfolded o0_def])
  with assms(12) w1 have e: "out2 = fst (finish_tool ?n True run (erase_cached p st1))"
    "st2 = snd (finish_tool ?n True run (erase_cached p st1))" "w2 = w\<lparr>w_fs := fs'\<rparr>"
    by simp_all
  have "call_accepted out2" using execute_accepted [OF assms(12)] w1 assms(1) n i k by simp
  moreover have "rm_error r = [] \<Longrightarrow> str_find (fst (snd run)) ''Error:'' 0 = None"
    using run(3) no_E_error by blast
  ultimately show ?thesis using e run
    by (auto simp: er finish_tool_def erase_cached_def Let_def case_prod_beta)
qed

definition ex_search :: "(string \<times> string) list" where
  "ex_search = [(''path'', ''a''), (''text'', ''x'')]"

definition ex_edit :: "(string \<times> string) list" where
  "ex_edit = [(''old'', ''x''), (''new'', ''y'')]"

lemma ex_edit_no_path: "\<not> param_present (render_call ''edit_file'' ex_edit) ''path''"
  by code_simp

theorem edit_infers_path_witness:
  "\<exists>out1 st1 w1 out2 st2 w2.
    execute_tool_call ex_te (render_call ''search_file'' ex_search) session_state0 ex_world = (out1, st1, w1)
    \<and> execute_tool_call ex_te (render_call ''edit_file'' ex_edit) st1 w1 = (out2, st2, w2)
    \<and> (let (fs', r) = edit_file (te_os ex_te) (te_mt ex_te) ''a'' (escape_parameter_tags ''x'')
             (escape_parameter_tags ''y'') (w_fs ex_world)
    in w2 = ex_world\<lparr>w_fs := fs'\<rparr> \<and> call_accepted out2 \<and> tr_is_mutating out2
       \<and> ss_file_cache st2 = (ss_file_cache st1)(''a'' := None)
       \<and> (tr_is_error out2 \<longleftrightarrow> rm_error r \<noteq> [])
       \<and> (rm_error r = [] \<longrightarrow> tr_path_inferred out2 \<and> ss_last_search_path st2 = []))"
proof -
  obtain out1 st1 w1 where e1: "execute_tool_call ex_te (render_call ''search_file'' ex_search)
      session_state0 ex_world = (out1, st1, w1)" by (metis prod_cases3)
  obtain out2 st2 w2 where e2: "execute_tool_call ex_te (render_call ''edit_file'' ex_edit) st1 w1
      = (out2, st2, w2)" by (metis prod_cases3)
  have "\<not> w_stop ex_world" "good_path ''a''" "plain_value ''x''" "plain_value ''y''"
    "map_of ex_search ''path'' = Some ''a''" "map_of ex_edit ''old'' = Some ''x''"
    "map_of ex_edit ''new'' = Some ''y''" "good_params ex_search" "good_params ex_edit"
    by (simp add: ex_world_def, code_simp+)
  from edit_infers_path [OF this(1,2,8,5) e1 this(9,6,7,3,4) ex_edit_no_path e2]
  show ?thesis using e1 e2 by blast
qed

subsection \<open>Writing, then reading\<close>

lemma run_write_plain:
  assumes "good_path p" "extract_path_arg c = p" "extract_string_arg_bounded c ''path'' = p"
    and "write_file (te_os te) (te_mt te) p (extract_string_arg_bounded c ''content'') (w_fs w) = (fs', r)"
    and "\<not> tr_is_error o0"
  shows "\<exists>run. run_write_file te c o0 st w = (Inr run, erase_cached p st, w\<lparr>w_fs := fs'\<rparr>)
    \<and> (tr_is_error (fst run) \<longleftrightarrow> rm_error r \<noteq> [])
    \<and> (rm_error r = [] \<and> CHR ''E'' \<notin> set (rm_dirs r) \<longrightarrow> CHR ''E'' \<notin> set (fst (snd run)))"
proof -
  have p: "p \<noteq> []" using assms(1) by (simp add: good_path_def)
  have st: "rm_error r = [] \<Longrightarrow> CHR ''E'' \<notin> set (rm_status r)"
    using assms(4) mkdir_error_ne by (auto simp: write_file_def Let_def rm_fail_def rm_empty_def
        split: option.splits if_splits prod.splits)
  show ?thesis
  proof (cases "rm_error r = []")
    case True
    then show ?thesis
      using good_path_ok [OF assms(1)] p assms(5) st
      by (simp add: run_write_file_def assms(2,4) Let_def case_prod_beta good_path_note [OF assms(1,3)])
  next
    case False
    then show ?thesis
      using good_path_ok [OF assms(1)] p
      by (simp add: run_write_file_def assms(2,4) Let_def case_prod_beta good_path_note [OF assms(1,3)])
  qed
qed

text \<open>The call in the canonical form, executed.\<close>

lemma execute_write_plain:
  assumes "\<not> w_stop w" "good_path p" "good_params [(''path'', p), (''content'', v)]" "plain_value v"
    and "write_file (te_os te) (te_mt te) p (escape_parameter_tags v) (w_fs w) = (fs', r)"
  shows "\<exists>out st'. execute_tool_call te (render_call ''write_file'' [(''path'', p), (''content'', v)]) st w
      = (out, st', w\<lparr>w_fs := fs'\<rparr>)
    \<and> ss_file_cache st' p = None \<and> (rm_error r \<noteq> [] \<longrightarrow> tr_is_error out)
    \<and> (rm_error r = [] \<and> CHR ''E'' \<notin> set (rm_dirs r) \<longrightarrow> \<not> tr_is_error out)"
proof -
  let ?n = "''write_file''"
  obtain c where c: "c = render_call ?n [(''path'', p), (''content'', v)]" by blast
  note b = extract_block_of_text [OF assms(3) call_head_no_open, of ?n "[ch_nl]",
      folded render_call_text, folded c, simplified]
  have pc: "extract_path_arg c = p" "extract_string_arg_bounded c ''path'' = p"
    using good_path_arg [OF assms(2)] b(1) [of "''path''" p] good_path_escape [OF assms(2)] by simp_all
  have cc: "extract_string_arg_bounded c ''content'' = escape_parameter_tags v"
    using plain_value_arg [OF b(1) assms(4)] by simp
  define o0 where "o0 = tool_result0\<lparr>tr_recognized := True, tr_params_valid := True, tr_parsed_tool_name := ?n\<rparr>"
  have "\<not> tr_is_error o0" by (simp add: o0_def tool_result0_def)
  from run_write_plain [OF assms(2) pc assms(5) [folded cc] this, of st]
  obtain run where run: "run_write_file te c o0 st w = (Inr run, erase_cached p st, w\<lparr>w_fs := fs'\<rparr>)"
    "tr_is_error (fst run) \<longleftrightarrow> rm_error r \<noteq> []"
    "rm_error r = [] \<and> CHR ''E'' \<notin> set (rm_dirs r) \<Longrightarrow> CHR ''E'' \<notin> set (fst (snd run))" by blast
  have n: "call_name c = ?n" using call_name_text(1) tool_names_good by (simp only: c render_call_def)
  have i: "inject_path ?n l x = (x, False)" for l x by (simp add: inject_path_def)
  have k: "is_known_tool ?n" "check_params ?n c" using b(2) by (simp_all add: known_tools required_params)
  have e: "execute_tool_call te c st w = (fst (finish_tool ?n False run (erase_cached p st)),
      snd (finish_tool ?n False run (erase_cached p st)), w\<lparr>w_fs := fs'\<rparr>)"
    by (rule execute_run [OF assms(1) n i k]) (simp only: dispatch_tool_eq run(1) [unfolded o0_def])
  have E: "rm_error r = [] \<and> CHR ''E'' \<notin> set (rm_dirs r) \<Longrightarrow> str_find (fst (snd run)) ''Error:'' 0 = None"
    using run(3) no_E_error by blast
  show ?thesis unfolding c [symmetric] e using run(2) E
    by (auto simp: finish_tool_def erase_cached_def Let_def case_prod_beta)
qed

text \<open>One local file that is not cached and can be read.\<close>

definition file_section :: "string \<Rightarrow> string \<Rightarrow> string" where
  "file_section p content =
     ''Files content:'' @ [ch_nl] @ ''Path: '' @ p @ [ch_nl] @ ''Content:'' @ [ch_nl] @ content @ [ch_nl]
     @ ''---'' @ [ch_nl]"

lemma run_read_one:
  assumes "good_path p" "plain_item p" "extract_param_block c ''paths'' = p"
    and "\<not> is_url p" "file_ext p \<noteq> ''.pdf''" "ss_file_cache st p = None"
    and "read_path (te_os te) (w_fs w) (os_fullpath (te_os te) p) = Some content"
  shows "\<exists>run st1. run_read_files te c o0 st w = (Inr run, st1, w)
    \<and> fst run = o0 \<and> fst (snd run) = file_section p content
    \<and> ss_file_cache st1 = (ss_file_cache st)(p \<mapsto> file_fingerprint (te_os te) (w_fs w) p)"
proof -
  have p: "p \<noteq> []" using assms(1) by (simp add: good_path_def)
  have raw: "extract_raw_arg_bounded c ''paths'' = p" "extract_string_arg_bounded c ''paths'' = p"
    using assms(3) strip_quotes_plain [OF good_path_plain [OF assms(1)]]
    by (simp_all add: extract_raw_arg_bounded_def extract_string_arg_bounded_def)
  have arr: "extract_array_arg_bounded c ''paths'' = [p]"
    using extract_array_join [of "[p]" p] assms(2,3) p by (simp add: extract_array_arg_bounded_def join_items_def)
  show ?thesis
    using good_path_ok [OF assms(1)] p assms(4-7)
    by (simp add: run_read_files_def raw arr Let_def good_path_trim [OF assms(1)]
        good_path_note [OF assms(1) raw(2)] read_path_step_def cache_hit_def read_files_def read_file1_def
        rm_empty_def append_file_def cache_read_def case_prod_beta file_section_def)
qed

text \<open>What was written is what is read. A \<open>write_file\<close> call whose text is escaped as the protocol
  asks, reported as a success, followed by a \<open>read_files\<close> call for the same path, gives the model back
  exactly the text, whatever the read cache held for the path before.\<close>

theorem write_then_read:
  assumes "\<not> w_stop w" "good_path p" "plain_item p" "\<not> is_url p" "file_ext p \<noteq> ''.pdf''"
    and "escapable ESCAPE_CHAR (PARAM_END # collect_base_turn_tokens (te_mt te))"
    and "good_params [(''path'', p), (''content'', escape_turn_tags (te_mt te) u)]"
    and "plain_value (escape_turn_tags (te_mt te) u)"
    and "os_can_read (te_os te) (os_norm (te_os te) (os_fullpath (te_os te) p))"
    and "os_flush_ok (te_os te) (os_norm (te_os te) (os_fullpath (te_os te) p))"
    and "execute_tool_call te (render_call ''write_file''
      [(''path'', p), (''content'', escape_turn_tags (te_mt te) u)]) st w = (out1, st1, w1)"
    and "\<not> tr_is_error out1"
    and "execute_tool_call te (render_call ''read_files'' [(''paths'', p)]) st1 w1 = (out2, st2, w2)"
  shows "tr_content out2 = file_section p u \<and> w2 = w1
    \<and> ss_file_cache st2 p = Some (file_fingerprint (te_os te) (w_fs w1) p)"
proof -
  let ?v = "escape_turn_tags (te_mt te) u" and ?m = "''read_files''"
  obtain d where d: "d = render_call ?m [(''paths'', p)]" by blast
  have "good_params [(''paths'', p)]"
    using good_path_params [OF assms(2)] by (simp add: good_params_def) code_simp
  note bd = extract_block_of_text [OF this call_head_no_open, of ?m "[ch_nl]" "''paths''" p,
      folded render_call_text, folded d, simplified]
  have ua: "unescape_all (te_mt te) (escape_parameter_tags ?v) = u"
  proof -
    have e: "escapable ESCAPE_CHAR (collect_base_turn_tokens (te_mt te))"
      using escapable_Cons [OF assms(6)] by simp
    have "escape_all (te_mt te) u = esc_many ESCAPE_CHAR (PARAM_END # collect_base_turn_tokens (te_mt te)) u"
      using fold_escape [OF assms(6), of u]
      by (simp add: escape_all_def escape_turn_tags_def escape_parameter_tags_def)
    then have "escape_parameter_tags ?v = escape_all (te_mt te) u"
      using esc_many_single_app [OF assms(6), of u]
      by (simp add: escape_parameter_tags_eq escape_turn_tags_eq [OF e])
    then show ?thesis using unescape_escape_all [OF assms(6)] by simp
  qed
  obtain fs' r where wr: "write_file (te_os te) (te_mt te) p (escape_parameter_tags ?v) (w_fs w) = (fs', r)"
    by fastforce
  from execute_write_plain [OF assms(1,2,7,8) wr, of st] assms(11,12)
  have s1: "w1 = w\<lparr>w_fs := fs'\<rparr>" and cache: "ss_file_cache st1 p = None" and "rm_error r = []" by auto
  from write_file_stored [OF wr this(3) assms(10)] have stored:
    "fs_files fs' (os_norm (te_os te) (os_fullpath (te_os te) p)) = Some (u, os_now (te_os te))"
    by (simp add: ua)
  have rp: "read_path (te_os te) (w_fs w1) (os_fullpath (te_os te) p) = Some u"
    using assms(9) stored s1 by (simp add: read_path_def)
  from run_read_one [OF assms(2,3) bd(1) [THEN trans, OF good_path_escape [OF assms(2)]] assms(4,5) cache rp,
      of "tool_result0\<lparr>tr_recognized := True, tr_params_valid := True, tr_parsed_tool_name := ?m\<rparr>"]
  obtain run2 s2 where r2: "run_read_files te d (tool_result0\<lparr>tr_recognized := True,
      tr_params_valid := True, tr_parsed_tool_name := ?m\<rparr>) st1 w1 = (Inr run2, s2, w1)"
    "fst (snd run2) = file_section p u"
    "ss_file_cache s2 p = Some (file_fingerprint (te_os te) (w_fs w1) p)" by auto
  have n: "call_name d = ?m" using call_name_text(1) tool_names_good by (simp only: d render_call_def)
  have i: "inject_path ?m l x = (x, False)" for l x by (simp add: inject_path_def)
  have k: "is_known_tool ?m" "check_params ?m d" using bd(2) by (simp_all add: known_tools required_params)
  have "\<not> w_stop w1" using assms(1) s1 by simp
  then have e2: "execute_tool_call te d st1 w1 = (fst (finish_tool ?m False run2 s2),
      snd (finish_tool ?m False run2 s2), w1)"
    by (rule execute_run [OF _ n i k]) (simp only: dispatch_tool_eq r2(1))
  have "tr_content (fst (finish_tool ?m False run2 s2)) = fst (snd run2)"
    "ss_file_cache (snd (finish_tool ?m False run2 s2)) = ss_file_cache s2"
    by (simp_all add: finish_tool_def Let_def case_prod_beta)
  with e2 assms(13) r2 show ?thesis by (simp add: d [symmetric])
qed

lemma ex_turn_free: "escape_turn_tags (te_mt ex_te) ''hi'' = ''hi''"
proof -
  have "\<forall>t\<in>set (collect_base_turn_tokens chatml). hd t = CHR ''<''"
    unfolding Ball_set [symmetric] by code_simp
  then have "esc_many ESCAPE_CHAR (collect_base_turn_tokens chatml) (''hi'' @ []) = ''hi'' @ []"
    by (subst esc_many_app_free) auto
  then show ?thesis
    using escape_turn_tags_eq [OF conjunct1 [OF escapable_Cons [OF ex_escapable]]] by (simp add: ex_te_def)
qed

lemma ex_write_ok:
  "\<not> tr_is_error (fst (execute_tool_call ex_te (render_call ''write_file''
      [(''path'', ''b''), (''content'', escape_turn_tags (te_mt ex_te) ''hi'')]) session_state0 ex_world))"
proof -
  have h: "\<not> w_stop ex_world" "good_path ''b''"
    "good_params [(''path'', ''b''), (''content'', escape_turn_tags (te_mt ex_te) ''hi'')]"
    "plain_value (escape_turn_tags (te_mt ex_te) ''hi'')"
    unfolding ex_turn_free by (simp add: ex_world_def, code_simp+)
  obtain fs' r where wr: "write_file (te_os ex_te) (te_mt ex_te) ''b''
      (escape_parameter_tags (escape_turn_tags (te_mt ex_te) ''hi'')) (w_fs ex_world) = (fs', r)" by fastforce
  then have "rm_error r = []" "rm_dirs r = []"
    by (auto simp: write_file_def ex_te_def ex_env_def ex_world_def ex_fs_def mkdir_p_def str_rfind_def
        dir_prefixes_def mkdir_component_def stat_path_def write_path_def rm_empty_def join_comma_def Let_def)
  then show ?thesis using execute_write_plain [OF h wr, of session_state0] by auto
qed

theorem write_then_read_witness:
  "\<exists>out1 st1 w1 out2 st2 w2.
    execute_tool_call ex_te (render_call ''write_file''
      [(''path'', ''b''), (''content'', escape_turn_tags (te_mt ex_te) ''hi'')]) session_state0 ex_world = (out1, st1, w1)
    \<and> execute_tool_call ex_te (render_call ''read_files'' [(''paths'', ''b'')]) st1 w1 = (out2, st2, w2)
    \<and> tr_content out2 = file_section ''b'' ''hi'' \<and> w2 = w1
    \<and> ss_file_cache st2 ''b'' = Some (file_fingerprint (te_os ex_te) (w_fs w1) ''b'')"
proof -
  obtain out1 st1 w1 where e1: "execute_tool_call ex_te (render_call ''write_file''
      [(''path'', ''b''), (''content'', escape_turn_tags (te_mt ex_te) ''hi'')]) session_state0 ex_world
      = (out1, st1, w1)" by (metis prod_cases3)
  obtain out2 st2 w2 where e2: "execute_tool_call ex_te (render_call ''read_files'' [(''paths'', ''b'')]) st1 w1
      = (out2, st2, w2)" by (metis prod_cases3)
  have h: "\<not> w_stop ex_world" "good_path ''b''" "plain_item ''b''" "\<not> is_url ''b''" "file_ext ''b'' \<noteq> ''.pdf''"
    "good_params [(''path'', ''b''), (''content'', escape_turn_tags (te_mt ex_te) ''hi'')]"
    "plain_value (escape_turn_tags (te_mt ex_te) ''hi'')" "\<not> tr_is_error out1"
    unfolding ex_turn_free by (simp add: ex_world_def, code_simp+, use ex_write_ok e1 in \<open>simp add: ex_turn_free\<close>)
  have h2: "escapable ESCAPE_CHAR (PARAM_END # collect_base_turn_tokens (te_mt ex_te))"
    "os_can_read (te_os ex_te) (os_norm (te_os ex_te) (os_fullpath (te_os ex_te) ''b''))"
    "os_flush_ok (te_os ex_te) (os_norm (te_os ex_te) (os_fullpath (te_os ex_te) ''b''))"
    using ex_escapable by (simp_all add: ex_te_def ex_env_def)
  from write_then_read [OF h(1-5) h2(1) h(6,7) h2(2,3) e1 h(8) e2] show ?thesis using e1 e2 by blast
qed

text \<open>
  The fingerprint of the read cache is the modification time in seconds and the size, and an entry is
  erased only under the spelling the write used: a file rewritten under another spelling of its path
  with the same size within the second is still reported as cached.
\<close>

lemma cache_hit_same_size:
  assumes "fs_files fs (os_norm env (os_fullpath env p)) = Some (old, t)"
    and "fs_files fs' (os_norm env (os_fullpath env p)) = Some (new, t)" "length old = length new"
  shows "cache_hit env fs' (cache(p \<mapsto> file_fingerprint env fs p)) p"
  using assms by (simp add: cache_hit_def file_fingerprint_def)

end
