(* ===== verification/Lim_Model.thy ===== *)
theory Lim_Model
  imports Lim_Escape Lim_Files Lim_State
begin

section \<open>Chat templates, prompts and turns (model.cc)\<close>

text \<open>
  The template families, the extraction of the turn delimiters from a model's template, the text of the
  escape contract and of the system prompt, the turn builders, and the classification of decode
  results. Applying a template, tokenizing and reading the clock are llama.cpp's and the system's part:
  parameters.
\<close>

subsection \<open>Template families\<close>

datatype llm_chat_template = LLM_UNKNOWN | LLM_CHATML | LLM_LLAMA_2 | LLM_LLAMA_2_SYS | LLM_LLAMA_2_SYS_BOS
  | LLM_LLAMA_2_SYS_STRIP | LLM_MISTRAL_V1 | LLM_MISTRAL_V3 | LLM_MISTRAL_V3_TEKKEN | LLM_MISTRAL_V7
  | LLM_MISTRAL_V7_TEKKEN | LLM_PHI_3 | LLM_PHI_4 | LLM_FALCON_3 | LLM_ZEPHYR | LLM_MONARCH | LLM_GEMMA
  | LLM_ORION | LLM_OPENCHAT | LLM_VICUNA | LLM_VICUNA_ORCA | LLM_DEEPSEEK | LLM_DEEPSEEK_2
  | LLM_DEEPSEEK_3 | LLM_DEEPSEEK_OCR | LLM_COMMAND_R | LLM_LLAMA_3 | LLM_CHATGLM_3 | LLM_CHATGLM_4
  | LLM_GLMEDGE | LLM_MINICPM | LLM_EXAONE_3 | LLM_EXAONE_4 | LLM_EXAONE_MOE | LLM_RWKV_WORLD
  | LLM_GRANITE_3_X | LLM_GRANITE_4_0 | LLM_GRANITE_4_1 | LLM_GIGACHAT | LLM_MEGREZ | LLM_YANDEX
  | LLM_BAILING | LLM_BAILING_THINK | LLM_BAILING2 | LLM_LLAMA4 | LLM_SMOLVLM | LLM_DOTS1
  | LLM_HUNYUAN_MOE | LLM_OPENAI_MOE | LLM_HUNYUAN_DENSE | LLM_HUNYUAN_VL | LLM_KIMI_K2 | LLM_SEED_OSS
  | LLM_GROK_2 | LLM_PANGU_EMBED | LLM_SOLAR_OPEN

fun map_llm_template :: "llm_chat_template \<Rightarrow> model_type" where
  "map_llm_template LLM_CHATML = CHATML"
| "map_llm_template LLM_LLAMA_3 = LLAMA3"
| "map_llm_template LLM_PHI_3 = PHI_3"
| "map_llm_template LLM_PHI_4 = PHI_4"
| "map_llm_template LLM_MISTRAL_V7 = MISTRAL_V7"
| "map_llm_template LLM_MISTRAL_V7_TEKKEN = MISTRAL_V7"
| "map_llm_template LLM_MISTRAL_V1 = MISTRAL_V1"
| "map_llm_template LLM_MISTRAL_V3 = MISTRAL_V3"
| "map_llm_template LLM_MISTRAL_V3_TEKKEN = MISTRAL_V3"
| "map_llm_template LLM_GEMMA = GEMMA"
| "map_llm_template LLM_ZEPHYR = ZEPHYR"
| "map_llm_template LLM_VICUNA = VICUNA"
| "map_llm_template LLM_VICUNA_ORCA = VICUNA"
| "map_llm_template LLM_DEEPSEEK_3 = DEEPSEEK_3"
| "map_llm_template LLM_GRANITE_3_X = GRANITE"
| "map_llm_template LLM_GRANITE_4_0 = GRANITE"
| "map_llm_template LLM_GRANITE_4_1 = GRANITE"
| "map_llm_template LLM_LLAMA_2 = LLAMA2"
| "map_llm_template LLM_LLAMA_2_SYS = LLAMA2"
| "map_llm_template LLM_LLAMA_2_SYS_BOS = LLAMA2"
| "map_llm_template LLM_LLAMA_2_SYS_STRIP = LLAMA2"
| "map_llm_template _ = UNKNOWN"

fun get_chat_template_name :: "model_type \<Rightarrow> string" where
  "get_chat_template_name CHATML = ''chatml''"
| "get_chat_template_name LLAMA3 = ''llama3''"
| "get_chat_template_name PHI_3 = ''phi3''"
| "get_chat_template_name PHI_4 = ''phi4''"
| "get_chat_template_name MISTRAL_V7 = ''mistral-v7''"
| "get_chat_template_name MISTRAL_V1 = ''mistral-v1''"
| "get_chat_template_name MISTRAL_V3 = ''mistral-v3''"
| "get_chat_template_name GEMMA = ''gemma''"
| "get_chat_template_name ZEPHYR = ''zephyr''"
| "get_chat_template_name VICUNA = ''vicuna''"
| "get_chat_template_name DEEPSEEK_3 = ''deepseek3''"
| "get_chat_template_name GRANITE = ''granite''"
| "get_chat_template_name LLAMA2 = ''llama2''"
| "get_chat_template_name UNKNOWN = ''chatml''"

subsection \<open>The delimiters\<close>

text \<open>What llama.cpp knows of a model: the template string of its file, the detector, the rendering of a
  one-message conversation (empty when it fails), the tokenizer and the thinking tags of the
  template's parser.\<close>

record model_info =
  mi_template :: "string option"
  mi_detect :: "string \<Rightarrow> llm_chat_template"
  mi_apply :: "string \<Rightarrow> string \<Rightarrow> string \<Rightarrow> bool \<Rightarrow> string"
  mi_tokenize :: "string \<Rightarrow> token list"
  mi_think :: "(string \<times> string list) option"

definition tok :: "model_info \<Rightarrow> string \<Rightarrow> token list" where
  "tok mi s = (if s = [] then [] else mi_tokenize mi s)"

definition turn_start_of :: "string \<Rightarrow> string \<Rightarrow> string \<Rightarrow> string" where
  "turn_start_of rendered sentinel0 fallback =
     (case str_find rendered sentinel0 0 of Some cp \<Rightarrow> take cp rendered | None \<Rightarrow> fallback)"

definition USER_SENTINEL :: string where "USER_SENTINEL = ''_XTEST_X''"

definition tail_after :: "string \<Rightarrow> string \<Rightarrow> string" where
  "tail_after user_no_ass user_with_ass =
     (case str_find user_no_ass USER_SENTINEL 0 of
        Some cp \<Rightarrow>
          (if length user_with_ass \<ge> cp + length USER_SENTINEL
           then drop (cp + length USER_SENTINEL) user_with_ass else [])
      | None \<Rightarrow> [])"

definition turn_end_of :: "string \<Rightarrow> string \<Rightarrow> string" where
  "turn_end_of tail ass_start =
     (if ass_start \<noteq> [] \<and> length tail \<ge> length ass_start then
        (let offset = length tail - length ass_start in
         if drop offset tail = ass_start then take offset tail
         else case str_find tail ass_start 0 of Some pos \<Rightarrow> take pos tail | None \<Rightarrow> tail)
      else tail)"

definition think_tags :: "(string \<times> string list) option \<Rightarrow> string \<times> string \<Rightarrow> string \<times> string" where
  "think_tags parsed old =
     (let (ts, te) = (case parsed of
            None \<Rightarrow> old
          | Some (s, ends) \<Rightarrow> (if s \<noteq> [] then s else fst old, if ends \<noteq> [] then hd ends else snd old))
      in if ts = [] then (''<think>'', ''</think>'') else (ts, te))"

definition init_model_tokens :: "model_info \<Rightarrow> string \<times> string \<Rightarrow> model_tokens" where
  "init_model_tokens mi old_think =
     (let tmpl = (case mi_template mi of None \<Rightarrow> ''chatml'' | Some t \<Rightarrow> if t = [] then ''chatml'' else t);
          user_no_ass = mi_apply mi tmpl ''user'' USER_SENTINEL False;
          user_start = turn_start_of user_no_ass USER_SENTINEL [];
          tail = tail_after user_no_ass (mi_apply mi tmpl ''user'' USER_SENTINEL True);
          ass_start = turn_start_of (mi_apply mi tmpl ''assistant'' ''_A_'' False) ''_A_'' [];
          t_end = turn_end_of tail ass_start;
          sys_start = turn_start_of (mi_apply mi tmpl ''system'' ''_S_'' False) ''_S_'' user_start;
          (ts, te) = think_tags (mi_think mi) old_think;
          fragment = (\<lambda>s. \<lparr>mf_text = s, mf_tokens = tok mi s\<rparr>)
      in \<lparr>mt_type = map_llm_template (mi_detect mi tmpl),
          system_turn_start = fragment sys_start, user_turn_start = fragment user_start,
          assistant_turn_start = fragment ass_start, turn_end = fragment t_end,
          think_start = ts, think_end = te\<rparr>)"

subsection \<open>The escape contract\<close>

definition hex_digit :: "nat \<Rightarrow> char" where
  "hex_digit d = char_of (if d < 10 then 48 + d else 87 + d)"

definition display_char :: "char \<Rightarrow> string" where
  "display_char c =
     (if c = ch_nl then [ch_bslash, CHR ''n''] else if c = ch_cr then [ch_bslash, CHR ''r'']
      else if c = ch_tab then [ch_bslash, CHR ''t'']
      else if of_char c < (32::nat) \<and> 0 < (of_char c :: nat)
      then [ch_bslash, CHR ''x'', hex_digit (of_char c div 16), hex_digit (of_char c mod 16)]
      else [c])"

definition ZWSP :: string where "ZWSP = [CHR 0xE2, CHR 0x80, CHR 0x8B]"

function break_tokens :: "string \<Rightarrow> nat \<Rightarrow> string" where
  "break_tokens s pos =
     (case str_find s ''<|'' pos of
        None \<Rightarrow> s
      | Some p \<Rightarrow> break_tokens (str_insert s (p + 2) ZWSP) (p + 4))"
  by pat_completeness auto
termination
  by (relation "measure (\<lambda>(s, pos). length s + 1 - pos)")
    (auto simp: str_insert_def ZWSP_def dest!: str_find_boundsD)

declare break_tokens.simps [simp del]

definition contract_display :: "string \<Rightarrow> string" where
  "contract_display t = break_tokens (concat (map display_char t)) 0"

definition contract_esc :: "string \<Rightarrow> string" where
  "contract_esc t = (if length t < 2 then t else substr t 0 1 @ [ESCAPE_CHAR] @ drop 1 t)"

record token_desc =
  td_label :: string
  td_text :: string

definition contract_tokens :: "model_tokens \<Rightarrow> token_desc list" where
  "contract_tokens mt =
     fold (\<lambda>t tokens. if str_find t ''<|'' 0 \<noteq> Some 0 \<or> t \<in> td_text ` set tokens then tokens
           else tokens @ [\<lparr>td_label = ''turn token'', td_text = t\<rparr>])
       (collect_base_turn_tokens mt) [\<lparr>td_label = ''parameter closing tag'', td_text = PARAM_END\<rparr>]"

definition text_lines :: "string list \<Rightarrow> string" where
  "text_lines ls = concat (map (\<lambda>l. l @ [ch_nl]) ls)"

definition CONTRACT_HEAD :: string where
  "CONTRACT_HEAD = text_lines
    [''RESERVED TOKEN ESCAPING CONTRACT:'',
     ''The following strings are reserved structural markers and can never'',
     ''appear literally in tool calls or tool responses. When they appear'',
     ''in file content, they are escaped with one additional backslash after'',
     ''the first character.'', []]"

definition CONTRACT_RULES :: string where
  "CONTRACT_RULES = text_lines
    [[], ''1. SYSTEM -> LLM: Any reserved tokens in file content arrive escaped'',
     ''   (one extra backslash after the first character). You will NEVER see'',
     ''   unescaped reserved tokens in tool responses.'', [],
     ''2. LLM -> SYSTEM: If you want to write text containing a reserved token,'',
     ''   use the escaped form with one extra backslash after the first character.'',
     ''   The system removes that backslash before writing to disk; any other'',
     ''   backslashes are preserved as-is.'', [],
     ''Examples (on disk -> in response):'']"

definition CONTRACT_TAIL :: string where
  "CONTRACT_TAIL = text_lines
    [[], ''Actionable shortcut: whatever form you see in a tool response, use that exact'',
     ''same text when writing it back. The system handles both directions symmetrically.'']"

definition generate_turn_escape_contract :: "model_tokens \<Rightarrow> string" where
  "generate_turn_escape_contract mt =
     (let tokens = contract_tokens mt; d = contract_display; e = contract_esc in
      CONTRACT_HEAD
      @ concat (map (\<lambda>td. ''- '' @ d (td_text td) @ '' ('' @ td_label td @ '')'' @ [ch_nl]) tokens)
      @ CONTRACT_RULES
      @ concat (map (\<lambda>td. ''  '' @ d (td_text td) @ '' -> '' @ d (e (td_text td)) @ [ch_nl]
            @ ''  '' @ d (e (td_text td)) @ '' -> '' @ d (e (e (td_text td))) @ [ch_nl]) tokens)
      @ CONTRACT_TAIL)"

subsection \<open>The system prompt\<close>

text \<open>The environment of the prompt: the configuration and home directories, the files that can be
  opened, the working directory, the formatted clock and the value of \<open>LIM_ESCAPE_CONTRACT\<close>.\<close>

record prompt_env =
  pe_config_dir :: string
  pe_home :: string
  pe_file :: "string \<Rightarrow> string option"
  pe_cwd :: "string option"
  pe_time :: "string option"
  pe_contract :: "string option"
  pe_deterministic :: bool

definition open_first :: "prompt_env \<Rightarrow> string \<Rightarrow> string \<Rightarrow> string option" where
  "open_first pe p q = (case pe_file pe p of Some s \<Rightarrow> Some s | None \<Rightarrow> pe_file pe q)"

definition read_prompt_file :: "prompt_env \<Rightarrow> string option" where
  "read_prompt_file pe = open_first pe (pe_config_dir pe @ ''/prompt'') (pe_home pe @ ''/prompt'')"

definition add_localprompt :: "prompt_env \<Rightarrow> string \<Rightarrow> string" where
  "add_localprompt pe prompt =
     (case open_first pe ''./localprompt'' (pe_config_dir pe @ ''/localprompt'') of
        Some site \<Rightarrow> site @ [ch_nl] @ prompt
      | None \<Rightarrow> prompt)"

definition add_cwd :: "prompt_env \<Rightarrow> string \<Rightarrow> string" where
  "add_cwd pe prompt =
     (case pe_cwd pe of
        Some cwd \<Rightarrow> prompt @ [ch_nl, ch_nl]
          @ ''Relative paths resolve against the current working directory '' @ cwd @ [ch_nl]
      | None \<Rightarrow> prompt)"

definition add_time :: "prompt_env \<Rightarrow> string \<Rightarrow> string" where
  "add_time pe prompt =
     (if pe_deterministic pe then prompt
      else case pe_time pe of
        Some t \<Rightarrow> prompt @ ''Current date and time: '' @ t @ [ch_nl]
      | None \<Rightarrow> prompt)"

definition trim_blank :: "string \<Rightarrow> bool" where
  "trim_blank s \<longleftrightarrow> first_not_of s ws_chars = None"

definition add_contract :: "prompt_env \<Rightarrow> model_tokens \<Rightarrow> string \<Rightarrow> string \<Rightarrow> string" where
  "add_contract pe mt base_prompt prompt =
     (let include_contract = (case pe_contract pe of Some v \<Rightarrow> atoi v | None \<Rightarrow> 0) in
      if include_contract \<noteq> 0 \<and> \<not> trim_blank base_prompt
      then prompt @ [ch_nl, ch_nl] @ generate_turn_escape_contract mt
      else prompt)"

definition load_system_prompt_text :: "prompt_env \<Rightarrow> model_tokens \<Rightarrow> string option" where
  "load_system_prompt_text pe mt =
     (case read_prompt_file pe of
        None \<Rightarrow> None
      | Some base_prompt \<Rightarrow>
          Some (add_contract pe mt base_prompt (add_time pe (add_cwd pe (add_localprompt pe base_prompt)))))"

subsection \<open>Turns\<close>

definition turn_end_text :: "model_tokens \<Rightarrow> string" where
  "turn_end_text mt = (if has_explicit_turn_end mt then mf_text (turn_end mt) else [])"

definition build_system_prompt_text :: "model_tokens \<Rightarrow> string \<Rightarrow> string" where
  "build_system_prompt_text mt content = mf_text (system_turn_start mt) @ content @ turn_end_text mt"

definition build_system_turn_text :: "model_tokens \<Rightarrow> string \<Rightarrow> string" where
  "build_system_turn_text mt content = (if content = [] then [] else build_system_prompt_text mt content)"

definition build_user_assistant_turn_text :: "model_tokens \<Rightarrow> string \<Rightarrow> string" where
  "build_user_assistant_turn_text mt content =
     mf_text (user_turn_start mt) @ content @ turn_end_text mt @ mf_text (assistant_turn_start mt)"

definition TOOL_RESULT_PREFIX :: string where "TOOL_RESULT_PREFIX = ''[Tool Result]'' @ [ch_nl]"

definition build_tool_result_turn_text :: "model_tokens \<Rightarrow> string \<Rightarrow> string" where
  "build_tool_result_turn_text mt tool_output =
     mf_text (user_turn_start mt) @ TOOL_RESULT_PREFIX @ tool_output @ turn_end_text mt
       @ mf_text (assistant_turn_start mt)"

definition build_tool_result_turn :: "(string \<Rightarrow> token list) \<Rightarrow> model_tokens \<Rightarrow> string \<Rightarrow> token list" where
  "build_tool_result_turn tokenize mt tool_output =
     tokenize (build_tool_result_turn_text mt (escape_turn_tags mt tool_output))"

subsection \<open>Decode results\<close>

text \<open>What \<open>handle_llama_decode_error\<close> makes of the value of \<open>llama_decode\<close>: whether it reports success,
  and what happens to the draft mirror.\<close>

datatype mirror_action = Mirror_None | Mirror_Invalidate | Mirror_Process

definition handle_decode_result :: "int \<Rightarrow> bool \<Rightarrow> bool \<times> mirror_action" where
  "handle_decode_result ret should_break =
     (if ret < - 1 then (False, Mirror_None)
      else if ret = - 1 then (False, Mirror_None)
      else if ret = 1 \<or> ret = 2 then
        (\<not> should_break, if ret = 1 then Mirror_Invalidate else Mirror_None)
      else (True, Mirror_Process))"

text \<open>The position after the last row the sequence holds (\<open>-1\<close> is an empty sequence).\<close>

definition sync_n_past :: "int \<Rightarrow> int" where
  "sync_n_past max_pos = (if max_pos \<ge> 0 then max_pos + 1 else 0)"

subsection \<open>The delimiters are the template's\<close>

lemma turn_start_of_found:
  "first_at sn (U @ sn @ r) = Some (length U) \<Longrightarrow> turn_start_of (U @ sn @ r) sn fb = U"
  by (simp add: turn_start_of_def str_find_0)

lemma turn_end_of_app: "turn_end_of (E @ A) A = E"
  by (simp add: turn_end_of_def)

text \<open>A template that writes a user turn as \<open>U content X\<close>, and as \<open>U content E A\<close> when the assistant is
  to answer, an assistant turn as \<open>A content ..\<close> and a system turn as \<open>S content ..\<close>.\<close>

definition template_shape :: "model_info \<Rightarrow> string \<Rightarrow> string \<Rightarrow> string \<Rightarrow> string \<Rightarrow> string \<Rightarrow> bool" where
  "template_shape mi T U E A S \<longleftrightarrow>
     (\<forall>c. mi_apply mi T ''user'' c True = U @ c @ E @ A
        \<and> prefix (U @ c) (mi_apply mi T ''user'' c False)
        \<and> prefix (A @ c) (mi_apply mi T ''assistant'' c False)
        \<and> prefix (S @ c) (mi_apply mi T ''system'' c False))"

text \<open>C21: For a template of the usual shape whose delimiters do not contain the probes, the probing
  recovers the delimiters, and the turn the session builds for any content is the text the template
  itself renders with the assistant's prefix.\<close>

theorem turns_follow_template:
  assumes "mi_template mi = Some T" "T \<noteq> []" "template_shape mi T U E A S"
    and "\<forall>r. first_at USER_SENTINEL (U @ USER_SENTINEL @ r) = Some (length U)"
    and "\<forall>r. first_at ''_A_'' (A @ ''_A_'' @ r) = Some (length A)"
    and "\<forall>r. first_at ''_S_'' (S @ ''_S_'' @ r) = Some (length S)"
    and "E \<noteq> [] \<longrightarrow> mi_tokenize mi E \<noteq> []"
  shows "let mt = init_model_tokens mi old in
    build_user_assistant_turn_text mt c = mi_apply mi T ''user'' c True
    \<and> build_system_prompt_text mt c = S @ c @ E
    \<and> mf_text (turn_end mt) = E \<and> mf_text (assistant_turn_start mt) = A"
proof -
  note sh = assms(3) [unfolded template_shape_def]
  have pre: "\<exists>r. t = a @ c @ r" if "prefix (a @ c) t" for a c t :: string
    using that by (auto simp: prefix_def)
  obtain x where x: "mi_apply mi T ''user'' USER_SENTINEL False = U @ USER_SENTINEL @ x"
    using pre [of U USER_SENTINEL] sh by blast
  obtain y where y: "mi_apply mi T ''assistant'' ''_A_'' False = A @ ''_A_'' @ y"
    using pre [of A "''_A_''"] sh by blast
  obtain z where z: "mi_apply mi T ''system'' ''_S_'' False = S @ ''_S_'' @ z"
    using pre [of S "''_S_''"] sh by blast
  have w: "mi_apply mi T ''user'' c True = U @ c @ E @ A" for c using sh by blast
  have tail: "tail_after (U @ USER_SENTINEL @ x) (U @ USER_SENTINEL @ E @ A) = E @ A"
    using assms(4) by (simp add: tail_after_def str_find_0)
  have s: "turn_start_of (mi_apply mi T ''user'' USER_SENTINEL False) USER_SENTINEL [] = U"
    "turn_start_of (mi_apply mi T ''assistant'' ''_A_'' False) ''_A_'' [] = A"
    "\<And>f. turn_start_of (mi_apply mi T ''system'' ''_S_'' False) ''_S_'' f = S"
    unfolding x y z by (intro turn_start_of_found; use assms(4-6) in blast)+
  have e: "turn_end_of (tail_after (mi_apply mi T ''user'' USER_SENTINEL False)
      (mi_apply mi T ''user'' USER_SENTINEL True)) A = E"
    by (simp only: x w tail turn_end_of_app)
  let ?mt = "init_model_tokens mi old"
  have m: "mf_text (user_turn_start ?mt) = U" "mf_text (assistant_turn_start ?mt) = A"
    "mf_text (system_turn_start ?mt) = S" "turn_end ?mt = \<lparr>mf_text = E, mf_tokens = tok mi E\<rparr>"
    using assms(1,2) by (simp_all add: init_model_tokens_def Let_def case_prod_beta s e)
  have "turn_end_text ?mt = E"
    using assms(7) by (auto simp: turn_end_text_def has_explicit_turn_end_def m tok_def)
  then show ?thesis
    by (simp add: build_user_assistant_turn_text_def build_system_prompt_text_def Let_def m w)
qed

definition chatml_info :: model_info where
  "chatml_info = \<lparr>mi_template = Some ''t'', mi_detect = (\<lambda>_. LLM_CHATML),
     mi_apply = (\<lambda>t role c ass. ''<|im_start|>'' @ role @ [ch_nl] @ c @ ''<|im_end|>'' @ [ch_nl]
       @ (if ass then ''<|im_start|>assistant'' @ [ch_nl] else [])),
     mi_tokenize = map (\<lambda>c. of_nat (of_char c)), mi_think = None\<rparr>"

theorem turns_follow_template_witness:
  "let mt = init_model_tokens chatml_info ([], []) in
    build_user_assistant_turn_text mt ''hello'' = mi_apply chatml_info ''t'' ''user'' ''hello'' True
    \<and> build_system_prompt_text mt ''hello'' = (''<|im_start|>system'' @ [ch_nl]) @ ''hello'' @ (''<|im_end|>'' @ [ch_nl])
    \<and> mf_text (turn_end mt) = ''<|im_end|>'' @ [ch_nl]
    \<and> mf_text (assistant_turn_start mt) = ''<|im_start|>assistant'' @ [ch_nl]"
proof (rule turns_follow_template [where U = "''<|im_start|>user'' @ [ch_nl]"])
  show "mi_template chatml_info = Some ''t''" "''t'' \<noteq> []" by (simp_all add: chatml_info_def)
  show "template_shape chatml_info ''t'' (''<|im_start|>user'' @ [ch_nl]) (''<|im_end|>'' @ [ch_nl])
      (''<|im_start|>assistant'' @ [ch_nl]) (''<|im_start|>system'' @ [ch_nl])"
    by (simp add: chatml_info_def template_shape_def)
  show "\<forall>r. first_at USER_SENTINEL ((''<|im_start|>user'' @ [ch_nl]) @ USER_SENTINEL @ r)
      = Some (length (''<|im_start|>user'' @ [ch_nl]))"
    by (simp add: USER_SENTINEL_def)
  show "\<forall>r. first_at ''_A_'' ((''<|im_start|>assistant'' @ [ch_nl]) @ ''_A_'' @ r)
      = Some (length (''<|im_start|>assistant'' @ [ch_nl]))" by simp
  show "\<forall>r. first_at ''_S_'' ((''<|im_start|>system'' @ [ch_nl]) @ ''_S_'' @ r)
      = Some (length (''<|im_start|>system'' @ [ch_nl]))" by simp
  show "''<|im_end|>'' @ [ch_nl] \<noteq> [] \<longrightarrow> mi_tokenize chatml_info (''<|im_end|>'' @ [ch_nl]) \<noteq> []"
    by (simp add: chatml_info_def)
qed

subsection \<open>The contract's examples\<close>

definition separate_tokens :: "string list \<Rightarrow> bool" where
  "separate_tokens ts \<longleftrightarrow> distinct ts \<and> list_all (\<lambda>t. list_all (\<lambda>u. prefix u t \<longrightarrow> u = t) ts) ts"

lemma contract_tokens_in:
  "td \<in> set (contract_tokens mt) \<Longrightarrow> td_text td \<in> set (PARAM_END # collect_base_turn_tokens mt)"
proof -
  let ?f = "\<lambda>t tokens. if str_find t ''<|'' 0 \<noteq> Some 0 \<or> t \<in> td_text ` set tokens then tokens
           else tokens @ [\<lparr>td_label = ''turn token'', td_text = t\<rparr>]"
  have f: "td \<in> set (fold ?f ts acc) \<Longrightarrow> td \<in> set acc \<or> td_text td \<in> set ts" for td ts acc
  proof (induction ts arbitrary: acc)
    case (Cons t ts)
    from Cons.IH [of "?f t acc"] Cons.prems show ?case by (auto split: if_splits)
  qed simp
  assume "td \<in> set (contract_tokens mt)"
  from f [OF this [unfolded contract_tokens_def]] show ?thesis by auto
qed

lemma esc_many_token:
  assumes "escapable e ts" "separate_tokens ts" "x # xs \<in> set ts"
  shows "esc_many e ts (x # replicate n e @ xs) = x # replicate (Suc n) e @ xs"
proof -
  have rest: "esc_many e ts (replicate n e @ xs) = replicate n e @ xs"
  proof -
    have "hd u \<notin> set (replicate n e @ xs)" if "u \<in> set ts" for u
      using escapableD(4) [OF assms(1) that] escapableD(6) [OF assms(1,3) that] by auto
    from esc_many_app_free [OF this, of ts e "[]"] show ?thesis by simp
  qed
  have d: "dropWhile (\<lambda>c. c = e) (replicate n e @ xs) = xs"
    using escapableD(2,3,5) [OF assms(1,3)] by (cases xs) (auto simp: dropWhile_append3)
  have "filter (token_at e x (replicate n e @ xs)) ts = filter ((=) (x # xs)) ts"
  proof (rule filter_cong [OF refl])
    fix u assume u: "u \<in> set ts"
    then obtain y ys where y: "u = y # ys" using escapableD(2) [OF assms(1) u] list.exhaust [of u] by blast
    have "prefix u (x # xs) \<Longrightarrow> u = x # xs"
      using assms(2,3) u by (auto simp: separate_tokens_def list_all_iff)
    then show "token_at e x (replicate n e @ xs) u = (x # xs = u)" by (auto simp: token_at_def d y)
  qed
  moreover have "length (filter ((=) t) us) = 1" if "distinct us" "t \<in> set us" for t and us :: "string list"
  proof -
    have "filter ((=) t) us = [t]" using that by (induction us) (auto simp: filter_empty_conv)
    then show ?thesis by simp
  qed
  ultimately have "length (filter (token_at e x (replicate n e @ xs)) ts) = 1"
    using assms(2,3) by (simp add: separate_tokens_def)
  with rest show ?thesis by (simp add: replicate_app_Cons_same)
qed

text \<open>What the contract tells the model is what the code does: each example line (a reserved token on
  disk and its escaped form in the response, and the escaped form on disk and its double escape) is
  exactly what the escaping of tool results produces, provided that no reserved token is a prefix of
  another.\<close>

theorem contract_examples_hold:
  assumes "escapable ESCAPE_CHAR (PARAM_END # collect_base_turn_tokens mt)"
    and "separate_tokens (PARAM_END # collect_base_turn_tokens mt)"
    and "td \<in> set (contract_tokens mt)"
  shows "escape_all mt (td_text td) = contract_esc (td_text td)
    \<and> escape_all mt (contract_esc (td_text td)) = contract_esc (contract_esc (td_text td))"
proof -
  let ?ts = "PARAM_END # collect_base_turn_tokens mt"
  have m: "td_text td \<in> set ?ts" by (rule contract_tokens_in [OF assms(3)])
  then obtain x y ys where t: "td_text td = x # y # ys"
    using escapableD(2,3) [OF assms(1) m] by (metis list.exhaust_sel)
  have e: "escape_all mt s = esc_many ESCAPE_CHAR ?ts s" for s
    using fold_escape [OF assms(1), of s]
    by (simp add: escape_all_def escape_turn_tags_def escape_parameter_tags_def)
  show ?thesis
    using esc_many_token [OF assms(1,2), of x "y # ys" 0] esc_many_token [OF assms(1,2), of x "y # ys" 1] m
    by (simp add: e t contract_esc_def substr_def)
qed

theorem contract_examples_hold_witness:
  "\<lparr>td_label = ''parameter closing tag'', td_text = PARAM_END\<rparr> \<in> set (contract_tokens chatml)
   \<and> escape_all chatml (td_text \<lparr>td_label = ''parameter closing tag'', td_text = PARAM_END\<rparr>)
      = contract_esc (td_text \<lparr>td_label = ''parameter closing tag'', td_text = PARAM_END\<rparr>)
   \<and> escape_all chatml (contract_esc (td_text \<lparr>td_label = ''parameter closing tag'', td_text = PARAM_END\<rparr>))
      = contract_esc (contract_esc (td_text \<lparr>td_label = ''parameter closing tag'', td_text = PARAM_END\<rparr>))"
proof (rule conjI)
  have "separate_tokens (PARAM_END # collect_base_turn_tokens chatml)"
    by (simp add: chatml_tokens separate_tokens_def PARAM_END_def)
  moreover show m: "\<lparr>td_label = ''parameter closing tag'', td_text = PARAM_END\<rparr> \<in> set (contract_tokens chatml)"
    by (simp add: contract_tokens_def chatml_tokens)
  ultimately show "escape_all chatml (td_text \<lparr>td_label = ''parameter closing tag'', td_text = PARAM_END\<rparr>)
      = contract_esc (td_text \<lparr>td_label = ''parameter closing tag'', td_text = PARAM_END\<rparr>)
   \<and> escape_all chatml (contract_esc (td_text \<lparr>td_label = ''parameter closing tag'', td_text = PARAM_END\<rparr>))
      = contract_esc (contract_esc (td_text \<lparr>td_label = ''parameter closing tag'', td_text = PARAM_END\<rparr>))"
    by (intro contract_examples_hold [OF ex_escapable])
qed

end
