(* ===== verification/Lim_Memory.thy ===== *)
theory Lim_Memory
  imports Lim_Tokens
begin

section \<open>The KV memory: attention rows, recurrent state and its checkpoints\<close>

text \<open>
  lim's llama.cpp keeps for the conversation (sequence 0, one cell) the rows of the attention cache
  and, on hybrid models, the recurrent state with a stack of checkpoints (\<open>rs_checkpoint_*\<close>, added for
  \<open>/undo\<close> and the correction of tool calls). The tensors themselves are opaque: a state is
  represented by the tokens it has absorbed, which is the finest thing a state can depend on. The two
  rows of a state (\<open>r\<close>: the convolution window, \<open>s\<close>: the delta-net state) are kept apart, because a
  batch writes them differently. \<^const>\<open>None\<close> is a state of indeterminate content.
\<close>

subsection \<open>The attention cache (llama-kv-cache.cpp)\<close>

definition POS_MAX :: int where "POS_MAX = 2147483647"

type_synonym rows = "(int \<times> token) list"

definition attn_seq_rm :: "rows \<Rightarrow> int \<Rightarrow> int \<Rightarrow> bool \<times> rows" where
  "attn_seq_rm kv q0 q1 =
     (let p0 = (if q0 < 0 then 0 else q0); p1 = (if q1 < 0 then POS_MAX else q1) in
      (True, filter (\<lambda>(p, _). \<not> (p0 \<le> p \<and> p < p1)) kv))"

definition attn_pos_max :: "rows \<Rightarrow> int" where
  "attn_pos_max kv = fold (\<lambda>(p, _) a. max a p) kv (- 1)"

definition attn_decode :: "rows \<Rightarrow> int \<Rightarrow> token list \<Rightarrow> rows" where
  "attn_decode kv p ts = kv @ map (\<lambda>i. (p + int i, ts ! i)) [0..<length ts]"

subsection \<open>The recurrent memory (llama-memory-recurrent.cpp)\<close>

type_synonym rs_state = "(token list \<times> token list) option"

record recurrent =
  rc_pos :: int
  rc_tail :: bool
  rc_planes :: "rs_state list"
  rc_rs_idx :: nat
  rc_restored :: bool
  rc_stack :: "rs_state list"
  rc_n_rs_seq :: nat

definition recr_clear :: "recurrent \<Rightarrow> recurrent" where
  "recr_clear m = m\<lparr>rc_pos := - 1, rc_tail := False,
     rc_planes := map (\<lambda>_. Some ([], [])) (rc_planes m), rc_rs_idx := 0, rc_restored := False,
     rc_stack := []\<rparr>"

definition recr_seq_rm :: "recurrent \<Rightarrow> int \<Rightarrow> int \<Rightarrow> bool \<times> recurrent" where
  "recr_seq_rm m0 q0 q1 =
     (let p0 = (if q0 < 0 then 0 else q0); p1 = (if q1 < 0 then POS_MAX else q1);
          m = (if p0 = 0 \<and> p1 = POS_MAX then m0\<lparr>rc_rs_idx := 0\<rparr> else m0)
      in if rc_tail m then
           (if 0 < p0 \<and> p0 \<le> rc_pos m \<and> p1 > rc_pos m then
              (let rollback = rc_pos m - (p0 - 1); pending = rc_rs_idx m \<noteq> 0 in
               if \<not> pending \<and> rollback \<ge> 1 \<and> rollback \<le> int (rc_n_rs_seq m) then
                 (True, m\<lparr>rc_rs_idx := nat rollback, rc_pos := p0 - 1\<rparr>)
               else if rc_restored m then
                 (True, m\<lparr>rc_rs_idx := 0, rc_restored := False, rc_pos := p0 - 1\<rparr>)
               else (False, m))
            else if p0 \<le> rc_pos m \<and> rc_pos m < p1 then (True, m\<lparr>rc_tail := False, rc_pos := - 1\<rparr>)
            else (True, m))
         else (True, m))"

definition recr_pos_max :: "recurrent \<Rightarrow> int" where
  "recr_pos_max m = (if rc_tail m then max (- 1) (rc_pos m) else - 1)"

text \<open>The checkpoints copy plane 0 of the cell, whatever the pending rollback index says.\<close>

definition rs_checkpoint_save :: "recurrent \<Rightarrow> recurrent" where
  "rs_checkpoint_save m = (if rc_tail m then m\<lparr>rc_stack := rc_stack m @ [rc_planes m ! 0]\<rparr> else m)"

definition rs_checkpoint_overwrite :: "recurrent \<Rightarrow> nat \<Rightarrow> recurrent" where
  "rs_checkpoint_overwrite m idx =
     (if idx \<ge> length (rc_stack m) \<or> \<not> rc_tail m then m
      else m\<lparr>rc_stack := (rc_stack m)[idx := rc_planes m ! 0]\<rparr>)"

definition rs_checkpoint_restore :: "recurrent \<Rightarrow> nat \<Rightarrow> recurrent" where
  "rs_checkpoint_restore m idx =
     (if idx \<ge> length (rc_stack m) \<or> \<not> rc_tail m then m
      else m\<lparr>rc_planes := (rc_planes m)[0 := rc_stack m ! idx], rc_rs_idx := 0, rc_restored := True\<rparr>)"

definition rs_checkpoint_prune :: "recurrent \<Rightarrow> nat \<Rightarrow> recurrent" where
  "rs_checkpoint_prune m keep_idx =
     m\<lparr>rc_stack := take (keep_idx + 1) (rc_stack m)
        @ replicate (keep_idx + 1 - length (rc_stack m)) None\<rparr>"

definition rs_checkpoint_pop :: "recurrent \<Rightarrow> recurrent" where
  "rs_checkpoint_pop m = m\<lparr>rc_stack := butlast (rc_stack m)\<rparr>"

text \<open>
  One micro-batch. The state it starts from is the plane of the pending rollback (consumed by
  \<open>s_copy\<close>), or the zeroed state when the sequence has no cell. Plane \<open>k\<close> then receives the state \<open>k\<close>
  tokens before the end of the batch; an \<open>s\<close> row is written only for the last \<open>min n K\<close> tokens, the
  trailing ones keep what they held.
\<close>

definition rs_start :: "recurrent \<Rightarrow> rs_state" where
  "rs_start m = (if \<not> rc_tail m \<and> rc_rs_idx m = 0 then Some ([], []) else rc_planes m ! rc_rs_idx m)"

definition plane_after :: "rs_state \<Rightarrow> token list \<Rightarrow> nat \<Rightarrow> rs_state \<Rightarrow> rs_state" where
  "plane_after start ts k old =
     (case start of
        None \<Rightarrow> None
      | Some (r, s) \<Rightarrow>
          (let r' = r @ take (length ts - k) ts in
           if k < length ts then Some (r', s @ take (length ts - k) ts)
           else map_option (\<lambda>(_, s_old). (r', s_old)) old))"

definition recr_decode :: "recurrent \<Rightarrow> int \<Rightarrow> token list \<Rightarrow> recurrent" where
  "recr_decode m p ts =
     (if ts = [] then m
      else m\<lparr>rc_planes := map (\<lambda>k. plane_after (rs_start m) ts k (rc_planes m ! k)) [0..<rc_n_rs_seq m + 1],
             rc_rs_idx := 0, rc_tail := True, rc_pos := p + int (length ts) - 1\<rparr>)"

subsection \<open>The memory of a model (llama-memory.h and its implementations)\<close>

datatype memory = Attention rows | Hybrid rows recurrent

fun mem_clear :: "memory \<Rightarrow> memory" where
  "mem_clear (Attention kv) = Attention []"
| "mem_clear (Hybrid kv rc) = Hybrid [] (recr_clear rc)"

fun mem_seq_rm :: "memory \<Rightarrow> int \<Rightarrow> int \<Rightarrow> bool \<times> memory" where
  "mem_seq_rm (Attention kv) p0 p1 = (let (ok, kv') = attn_seq_rm kv p0 p1 in (ok, Attention kv'))"
| "mem_seq_rm (Hybrid kv rc) p0 p1 =
     (let (ok, rc') = recr_seq_rm rc p0 p1 in
      if \<not> ok then (False, Hybrid kv rc')
      else let (ok', kv') = attn_seq_rm kv p0 p1 in (ok', Hybrid kv' rc'))"

fun mem_pos_max :: "memory \<Rightarrow> int" where
  "mem_pos_max (Attention kv) = attn_pos_max kv"
| "mem_pos_max (Hybrid kv rc) = min (attn_pos_max kv) (recr_pos_max rc)"

fun mem_decode :: "memory \<Rightarrow> int \<Rightarrow> token list \<Rightarrow> memory" where
  "mem_decode (Attention kv) p ts = Attention (attn_decode kv p ts)"
| "mem_decode (Hybrid kv rc) p ts = Hybrid (attn_decode kv p ts) (recr_decode rc p ts)"

fun mem_save :: "memory \<Rightarrow> memory" where
  "mem_save (Attention kv) = Attention kv"
| "mem_save (Hybrid kv rc) = Hybrid kv (rs_checkpoint_save rc)"

fun mem_overwrite :: "memory \<Rightarrow> nat \<Rightarrow> memory" where
  "mem_overwrite (Attention kv) i = Attention kv"
| "mem_overwrite (Hybrid kv rc) i = Hybrid kv (rs_checkpoint_overwrite rc i)"

fun mem_restore :: "memory \<Rightarrow> nat \<Rightarrow> memory" where
  "mem_restore (Attention kv) i = Attention kv"
| "mem_restore (Hybrid kv rc) i = Hybrid kv (rs_checkpoint_restore rc i)"

fun mem_prune :: "memory \<Rightarrow> nat \<Rightarrow> memory" where
  "mem_prune (Attention kv) i = Attention kv"
| "mem_prune (Hybrid kv rc) i = Hybrid kv (rs_checkpoint_prune rc i)"

subsection \<open>The interface llama\_memory\_i\<close>

text \<open>The virtual calls the session makes, as a record of functions, and the memory of a model as its
  instance.\<close>

record 'm mem_ops =
  op_clear :: "'m \<Rightarrow> 'm"
  op_seq_rm :: "'m \<Rightarrow> int \<Rightarrow> int \<Rightarrow> bool \<times> 'm"
  op_pos_max :: "'m \<Rightarrow> int"
  op_decode :: "'m \<Rightarrow> int \<Rightarrow> token list \<Rightarrow> 'm"
  op_save :: "'m \<Rightarrow> 'm"
  op_overwrite :: "'m \<Rightarrow> nat \<Rightarrow> 'm"
  op_restore :: "'m \<Rightarrow> nat \<Rightarrow> 'm"
  op_prune :: "'m \<Rightarrow> nat \<Rightarrow> 'm"

definition memory_ops :: "memory mem_ops" where
  "memory_ops = \<lparr>op_clear = mem_clear, op_seq_rm = mem_seq_rm, op_pos_max = mem_pos_max,
     op_decode = mem_decode, op_save = mem_save, op_overwrite = mem_overwrite,
     op_restore = mem_restore, op_prune = mem_prune\<rparr>"

lemma memory_ops_simps [simp]:
  "op_clear memory_ops = mem_clear" "op_seq_rm memory_ops = mem_seq_rm"
  "op_pos_max memory_ops = mem_pos_max" "op_decode memory_ops = mem_decode"
  "op_save memory_ops = mem_save" "op_overwrite memory_ops = mem_overwrite"
  "op_restore memory_ops = mem_restore" "op_prune memory_ops = mem_prune"
  by (simp_all add: memory_ops_def)

text \<open>
  What the session relies on: \<open>holds m ts\<close> says that the memory is that of exactly the tokens \<open>ts\<close>.
  Decoding appends, removing a tail truncates or is refused without a change, clearing empties.
\<close>

locale kv_memory =
  fixes ops :: "'m mem_ops" and holds :: "'m \<Rightarrow> token list \<Rightarrow> bool"
  assumes pos_max: "holds m ts \<Longrightarrow> op_pos_max ops m = int (length ts) - 1"
    and decode: "holds m ts \<Longrightarrow> int (length (ts @ us)) \<le> POS_MAX \<Longrightarrow>
      holds (op_decode ops m (int (length ts)) us) (ts @ us)"
    and clear: "holds m ts \<Longrightarrow> holds (op_clear ops m) []"
    and seq_rm: "holds m ts \<Longrightarrow> p \<le> length ts \<Longrightarrow> op_seq_rm ops m (int p) (- 1) = (True, m') \<Longrightarrow>
      holds m' (take p ts)"
    and seq_rm_fail: "holds m ts \<Longrightarrow> op_seq_rm ops m q q' = (False, m') \<Longrightarrow> m' = m"

text \<open>
  With checkpoints: \<open>stack m\<close> lists the tokens each saved state stands for, \<open>recurrent m\<close> whether the
  model has a recurrent state at all (without one every truncation succeeds and the checkpoint calls do
  nothing). The law of restoring is what \<open>/undo\<close> and the correction of tool calls need.
\<close>

locale rs_memory = kv_memory ops holds
  for ops :: "'m mem_ops" and holds :: "'m \<Rightarrow> token list \<Rightarrow> bool" +
  fixes stack :: "'m \<Rightarrow> token list option list" and recurrent :: "'m \<Rightarrow> bool"
  assumes recurrent_ops:
      "recurrent (op_clear ops m) = recurrent m" "recurrent (op_decode ops m q us) = recurrent m"
      "recurrent (op_save ops m) = recurrent m" "recurrent (op_overwrite ops m i) = recurrent m"
      "recurrent (op_restore ops m i) = recurrent m" "recurrent (op_prune ops m i) = recurrent m"
      "recurrent (snd (op_seq_rm ops m q q')) = recurrent m"
    and stack_ops:
      "stack (op_clear ops m) = []" "stack (op_decode ops m q us) = stack m"
      "stack (op_restore ops m i) = stack m" "stack (snd (op_seq_rm ops m q q')) = stack m"
    and save: "holds m ts \<Longrightarrow> holds (op_save ops m) ts"
      "holds m ts \<Longrightarrow> recurrent m \<Longrightarrow> ts \<noteq> [] \<Longrightarrow> stack (op_save ops m) = stack m @ [Some ts]"
    and overwrite: "holds m ts \<Longrightarrow> holds (op_overwrite ops m i) ts"
      "holds m ts \<Longrightarrow> recurrent m \<Longrightarrow> ts \<noteq> [] \<Longrightarrow> i < length (stack m) \<Longrightarrow>
         stack (op_overwrite ops m i) = (stack m)[i := Some ts]"
    and prune: "holds m ts \<Longrightarrow> holds (op_prune ops m i) ts"
      "i < length (stack m) \<Longrightarrow> stack (op_prune ops m i) = take (Suc i) (stack m)"
    and restore_rm: "holds m ts \<Longrightarrow> i < length (stack m) \<Longrightarrow> stack m ! i = Some (take p ts) \<Longrightarrow>
      0 < p \<Longrightarrow> p < length ts \<Longrightarrow> m1 \<in> {op_restore ops m i, op_prune ops (op_restore ops m i) i} \<Longrightarrow>
      \<exists>m'. op_seq_rm ops m1 (int p) (- 1) = (True, m') \<and> holds m' (take p ts)"
    and rm_refused: "recurrent m \<Longrightarrow> holds m ts \<Longrightarrow> 0 < p \<Longrightarrow> p < length ts \<Longrightarrow>
      op_seq_rm ops m (int p) (- 1) = (False, m)"
    and no_stack: "\<not> recurrent m \<Longrightarrow> stack m = []" "\<not> recurrent m \<Longrightarrow> op_restore ops m i = m \<and> op_prune ops m i = m"
      "\<not> recurrent m \<Longrightarrow> fst (op_seq_rm ops m q q')"
begin

lemma restore_truncates:
  assumes "holds m ts" "recurrent m \<Longrightarrow> i < length (stack m) \<and> stack m ! i = Some (take p ts)"
    and "0 < p" "p < length ts" "m1 \<in> {op_restore ops m i, op_prune ops (op_restore ops m i) i}"
  obtains m' where "op_seq_rm ops m1 (int p) (- 1) = (True, m')"
    "holds m' (take p ts)" "stack m' = stack m1" "recurrent m' = recurrent m"
proof -
  have "\<exists>m'. op_seq_rm ops m1 (int p) (- 1) = (True, m') \<and> holds m' (take p ts)"
  proof (cases "recurrent m")
    case True
    with assms restore_rm show ?thesis by blast
  next
    case False
    obtain b m' where m': "op_seq_rm ops m (int p) (- 1) = (b, m')" by fastforce
    with no_stack(3) [OF False, of "int p" "- 1"] have b by simp
    with m' False assms seq_rm [OF assms(1), of p m'] no_stack(2) [OF False, of i] show ?thesis
      by (auto simp: less_imp_le)
  qed
  then obtain m' where m': "op_seq_rm ops m1 (int p) (- 1) = (True, m')" "holds m' (take p ts)" by blast
  have "stack m' = stack m1" "recurrent m' = recurrent m1"
    using stack_ops(4) recurrent_ops(7) m'(1) by (metis snd_conv)+
  moreover have "recurrent m1 = recurrent m" using assms(5) recurrent_ops(5,6) by auto
  ultimately show ?thesis using m' that by simp
qed

lemma prune_len: "holds m ts \<Longrightarrow> recurrent m \<Longrightarrow> i < length (stack m) \<Longrightarrow>
  length (stack (op_prune ops m i)) = Suc i"
  using prune(2) by simp

end

subsection \<open>The memory keeps its contract\<close>

definition rows_of :: "token list \<Rightarrow> rows" where
  "rows_of ts = map (\<lambda>i. (int i, ts ! i)) [0..<length ts]"

text \<open>Without a rollback window (\<open>n_rs_seq = 0\<close>, i.e. without speculative decoding).\<close>

definition recr_holds :: "recurrent \<Rightarrow> token list \<Rightarrow> bool" where
  "recr_holds rc ts \<longleftrightarrow>
     rc_n_rs_seq rc = 0 \<and> rc_rs_idx rc = 0 \<and> \<not> rc_restored rc \<and> length (rc_planes rc) = 1
     \<and> (if ts = [] then \<not> rc_tail rc \<and> rc_pos rc = - 1
        else rc_tail rc \<and> rc_pos rc = int (length ts) - 1 \<and> rc_planes rc ! 0 = Some (ts, ts))"

fun mem_holds :: "memory \<Rightarrow> token list \<Rightarrow> bool" where
  "mem_holds (Attention kv) ts \<longleftrightarrow> kv = rows_of ts \<and> int (length ts) \<le> POS_MAX"
| "mem_holds (Hybrid kv rc) ts \<longleftrightarrow> kv = rows_of ts \<and> int (length ts) \<le> POS_MAX \<and> recr_holds rc ts"

definition state_tokens :: "rs_state \<Rightarrow> token list option" where
  "state_tokens s = (case s of Some (r, s') \<Rightarrow> if r = s' then Some r else None | None \<Rightarrow> None)"

lemma state_tokens_iff: "state_tokens s = Some ts \<longleftrightarrow> s = Some (ts, ts)"
  by (auto simp: state_tokens_def split: option.splits)

fun mem_stack :: "memory \<Rightarrow> token list option list" where
  "mem_stack (Attention kv) = []"
| "mem_stack (Hybrid kv rc) = map state_tokens (rc_stack rc)"

fun mem_recurrent :: "memory \<Rightarrow> bool" where
  "mem_recurrent (Attention kv) = False"
| "mem_recurrent (Hybrid kv rc) = True"

lemma rows_of_decode: "attn_decode (rows_of ts) (int (length ts)) us = rows_of (ts @ us)"
  by (rule nth_equalityI) (auto simp: attn_decode_def rows_of_def nth_append)

lemma attn_rm_rows:
  assumes "p \<le> length ts" "int (length ts) \<le> POS_MAX"
  shows "attn_seq_rm (rows_of ts) (int p) (- 1) = (True, rows_of (take p ts))"
proof -
  have f: "filter (\<lambda>i. i < p) [0..<n] = [0..<min p n]" for n
    by (induction n) (auto simp: min_def le_Suc_eq)
  have "filter (\<lambda>i. \<not> (p \<le> i \<and> int i < POS_MAX)) [0..<length ts] = filter (\<lambda>i. i < p) [0..<length ts]"
    using assms(2) by (intro filter_cong) auto
  also have "\<dots> = [0..<p]" using f assms(1) by (simp add: min_def)
  finally show ?thesis
    using assms(1) by (simp add: attn_seq_rm_def Let_def rows_of_def filter_map comp_def min_def)
qed

lemma rows_of_max: "attn_pos_max (rows_of ts) = int (length ts) - 1"
proof -
  have "fold (\<lambda>(p, _) a. max a p) (map (\<lambda>i. (int i, ts ! i)) [0..<n]) (- 1) = int n - 1" for n
    by (induction n) auto
  then show ?thesis by (simp add: attn_pos_max_def rows_of_def)
qed

lemma recr_holds_decode:
  assumes "recr_holds rc ts"
  shows "recr_holds (recr_decode rc (int (length ts)) us) (ts @ us)"
  using assms
  by (cases "ts = []")
    (auto simp: recr_holds_def recr_decode_def rs_start_def plane_after_def Let_def split: if_splits)

lemma recr_holds_rm:
  assumes "recr_holds rc ts" "p \<le> length ts" "int (length ts) \<le> POS_MAX"
    and "recr_seq_rm rc (int p) (- 1) = (True, rc')"
  shows "recr_holds rc' (take p ts)"
  using assms
  by (cases "ts = []"; cases "p = 0"; cases "p = length ts")
    (auto simp: recr_holds_def recr_seq_rm_def Let_def split: if_splits)

lemma recr_rm_fail: "recr_holds rc ts \<Longrightarrow> recr_seq_rm rc q q' = (False, rc') \<Longrightarrow> rc' = rc"
  by (auto simp: recr_holds_def recr_seq_rm_def Let_def split: if_splits)

lemma recr_restore_rm:
  assumes "recr_holds rc ts" "i < length (rc_stack rc)" "rc_stack rc ! i = Some (take p ts, take p ts)"
    and "0 < p" "p < length ts" "int (length ts) \<le> POS_MAX"
    and "rc1 \<in> {rs_checkpoint_restore rc i, rs_checkpoint_prune (rs_checkpoint_restore rc i) i}"
  shows "\<exists>rc'. recr_seq_rm rc1 (int p) (- 1) = (True, rc') \<and> recr_holds rc' (take p ts)"
  using assms
  by (cases "ts = []")
    (auto simp: recr_holds_def recr_seq_rm_def rs_checkpoint_restore_def rs_checkpoint_prune_def Let_def)

lemma recr_rm_refused:
  "recr_holds rc ts \<Longrightarrow> 0 < p \<Longrightarrow> p < length ts \<Longrightarrow> int (length ts) \<le> POS_MAX \<Longrightarrow>
     recr_seq_rm rc (int p) (- 1) = (False, rc)"
  by (cases "ts = []") (auto simp: recr_holds_def recr_seq_rm_def Let_def)

interpretation mem: kv_memory memory_ops mem_holds
proof unfold_locales
  fix m :: memory and ts us :: "token list" and p :: nat and q q' :: int and m' :: memory
  show "mem_holds m ts \<Longrightarrow> op_pos_max memory_ops m = int (length ts) - 1"
    by (cases m) (auto simp: rows_of_max recr_pos_max_def recr_holds_def split: if_splits)
  show "mem_holds m ts \<Longrightarrow> int (length (ts @ us)) \<le> POS_MAX \<Longrightarrow>
      mem_holds (op_decode memory_ops m (int (length ts)) us) (ts @ us)"
    by (cases m) (auto simp: rows_of_decode recr_holds_decode)
  show "mem_holds m ts \<Longrightarrow> mem_holds (op_clear memory_ops m) []"
    by (cases m) (auto simp: rows_of_def recr_holds_def recr_clear_def POS_MAX_def)
  show "mem_holds m ts \<Longrightarrow> p \<le> length ts \<Longrightarrow> op_seq_rm memory_ops m (int p) (- 1) = (True, m') \<Longrightarrow>
      mem_holds m' (take p ts)"
    by (cases m) (auto simp: attn_rm_rows recr_holds_rm Let_def split: if_splits prod.splits)
  show "mem_holds m ts \<Longrightarrow> op_seq_rm memory_ops m q q' = (False, m') \<Longrightarrow> m' = m"
    by (cases m) (auto simp: attn_seq_rm_def recr_rm_fail Let_def split: if_splits prod.splits)
qed

lemma map_state_nth:
  "i < length st \<Longrightarrow> map state_tokens st ! i = Some ts \<longleftrightarrow> st ! i = Some (ts, ts)"
  by (simp add: state_tokens_iff)

lemma recr_rm_stack [simp]: "rc_stack (snd (recr_seq_rm rc q q')) = rc_stack rc"
  by (auto simp: recr_seq_rm_def Let_def)

lemma mem_rm_snd:
  "mem_recurrent (snd (mem_seq_rm m q q')) = mem_recurrent m"
  "mem_stack (snd (mem_seq_rm m q q')) = mem_stack m"
  using recr_rm_stack by (cases m; auto simp: Let_def split: prod.splits; metis snd_conv)+

interpretation rs: rs_memory memory_ops mem_holds mem_stack mem_recurrent
proof unfold_locales
  fix m m' :: memory and ts us :: "token list" and p i :: nat and q q' :: int
  show "mem_recurrent (op_clear memory_ops m) = mem_recurrent m"
    "mem_recurrent (op_decode memory_ops m q us) = mem_recurrent m"
    "mem_recurrent (op_save memory_ops m) = mem_recurrent m"
    "mem_recurrent (op_overwrite memory_ops m i) = mem_recurrent m"
    "mem_recurrent (op_restore memory_ops m i) = mem_recurrent m"
    "mem_recurrent (op_prune memory_ops m i) = mem_recurrent m" by (cases m; simp)+
  show "mem_recurrent (snd (op_seq_rm memory_ops m q q')) = mem_recurrent m"
    "mem_stack (snd (op_seq_rm memory_ops m q q')) = mem_stack m" by (simp_all add: mem_rm_snd)
  show "mem_stack (op_clear memory_ops m) = []" "mem_stack (op_decode memory_ops m q us) = mem_stack m"
    "mem_stack (op_restore memory_ops m i) = mem_stack m"
    by (cases m; simp add: recr_clear_def recr_decode_def rs_checkpoint_restore_def)+
  show "mem_holds m ts \<Longrightarrow> mem_holds (op_save memory_ops m) ts"
    "mem_holds m ts \<Longrightarrow> mem_recurrent m \<Longrightarrow> ts \<noteq> [] \<Longrightarrow>
      mem_stack (op_save memory_ops m) = mem_stack m @ [Some ts]"
    "mem_holds m ts \<Longrightarrow> mem_holds (op_overwrite memory_ops m i) ts"
    "mem_holds m ts \<Longrightarrow> mem_recurrent m \<Longrightarrow> ts \<noteq> [] \<Longrightarrow> i < length (mem_stack m) \<Longrightarrow>
      mem_stack (op_overwrite memory_ops m i) = (mem_stack m)[i := Some ts]"
    by (cases m; simp add: recr_holds_def rs_checkpoint_save_def rs_checkpoint_overwrite_def
        state_tokens_def map_update)+
  show "mem_holds m ts \<Longrightarrow> mem_holds (op_prune memory_ops m i) ts"
    "i < length (mem_stack m) \<Longrightarrow> mem_stack (op_prune memory_ops m i) = take (Suc i) (mem_stack m)"
    by (cases m; simp add: recr_holds_def rs_checkpoint_prune_def take_map)+
  show "\<not> mem_recurrent m \<Longrightarrow> mem_stack m = []"
    "\<not> mem_recurrent m \<Longrightarrow> op_restore memory_ops m i = m \<and> op_prune memory_ops m i = m"
    "\<not> mem_recurrent m \<Longrightarrow> fst (op_seq_rm memory_ops m q q')"
    by (cases m; simp add: attn_seq_rm_def Let_def)+
  show "mem_recurrent m \<Longrightarrow> mem_holds m ts \<Longrightarrow> 0 < p \<Longrightarrow> p < length ts \<Longrightarrow>
      op_seq_rm memory_ops m (int p) (- 1) = (False, m)"
    by (cases m) (auto simp: recr_rm_refused)
  fix m1
  assume a: "mem_holds m ts" "i < length (mem_stack m)" "mem_stack m ! i = Some (take p ts)"
    "0 < p" "p < length ts" "m1 \<in> {op_restore memory_ops m i, op_prune memory_ops (op_restore memory_ops m i) i}"
  then obtain kv rc where m: "m = Hybrid kv rc" by (cases m) auto
  obtain rc1 where rc1: "m1 = Hybrid kv rc1"
    "rc1 \<in> {rs_checkpoint_restore rc i, rs_checkpoint_prune (rs_checkpoint_restore rc i) i}"
    using a(6) m by auto
  have "recr_holds rc ts" "i < length (rc_stack rc)"
    "rc_stack rc ! i = Some (take p ts, take p ts)" "int (length ts) \<le> POS_MAX"
    using a m by (auto simp: map_state_nth state_tokens_iff)
  from recr_restore_rm [OF this(1-3) a(4,5) this(4) rc1(2)] obtain rc' where
    rc': "recr_seq_rm rc1 (int p) (- 1) = (True, rc')" "recr_holds rc' (take p ts)"
    by blast
  with a m rc1(1) show "\<exists>m'. op_seq_rm memory_ops m1 (int p) (- 1) = (True, m') \<and> mem_holds m' (take p ts)"
    by (auto simp: attn_rm_rows)
qed

subsection \<open>The rollback window\<close>

text \<open>Splitting a batch does not matter as long as the last micro-batch holds the \<open>n_rs_seq + 1\<close> trailing
  tokens, which is what \<open>split_equal\<close> guarantees (TAG_RECURRENT_ROLLBACK_SPLITS): the memory is the one
  of the whole batch, snapshots included.\<close>

theorem decode_split:
  assumes "rc_n_rs_seq rc < length vs" "length (rc_planes rc) = rc_n_rs_seq rc + 1"
  shows "recr_decode (recr_decode rc p us) (p + int (length us)) vs = recr_decode rc p (us @ vs)"
proof (cases "us = []")
  case False
  have s: "rs_start (recr_decode rc p us) = map_option (\<lambda>(r, s). (r @ us, s @ us)) (rs_start rc)"
    using False by (auto simp: rs_start_def recr_decode_def plane_after_def Let_def upt_rec
        simp del: upt_Suc split: option.splits)
  have "plane_after (map_option (\<lambda>(r, s). (r @ us, s @ us)) st) vs k old
      = plane_after st (us @ vs) k old'" if "k < rc_n_rs_seq rc + 1" for st k old old'
    using that assms(1) by (auto simp: plane_after_def Let_def split: option.splits)
  then have "map (\<lambda>k. plane_after (rs_start (recr_decode rc p us)) vs k (rc_planes (recr_decode rc p us) ! k))
        [0..<rc_n_rs_seq rc + 1]
      = map (\<lambda>k. plane_after (rs_start rc) (us @ vs) k (rc_planes rc ! k)) [0..<rc_n_rs_seq rc + 1]"
    unfolding s by (intro map_cong refl) (simp del: upt_Suc)
  with False assms show ?thesis by (simp add: recr_decode_def del: upt_Suc)
qed (simp add: recr_decode_def)

definition ex_recurrent :: "nat \<Rightarrow> recurrent" where
  "ex_recurrent n = \<lparr>rc_pos = - 1, rc_tail = False, rc_planes = replicate (n + 1) (Some ([], [])),
     rc_rs_idx = 0, rc_restored = False, rc_stack = [], rc_n_rs_seq = n\<rparr>"

theorem decode_split_witness:
  "recr_decode (recr_decode (ex_recurrent 2) 0 [1, 2]) (0 + int (length [1, 2 :: token])) [3, 4, 5]
   = recr_decode (ex_recurrent 2) 0 ([1, 2] @ [3, 4, 5])"
  by (rule decode_split) (simp_all add: ex_recurrent_def)

text \<open>C22: Rolling back inside the window without a checkpoint: after a batch, removing its last \<open>r\<close> tokens
  succeeds when \<open>r\<close> is within the window and smaller than the batch, and the next batch continues from
  exactly the tokens that are left, as after decoding only these.\<close>

theorem window_rollback:
  assumes "rc_planes rc ! 0 = Some (ts, ts)" "rc_tail rc" "rc_rs_idx rc = 0" "0 < r" "r \<le> rc_n_rs_seq rc"
    and "r < length us" "length (rc_planes rc) = rc_n_rs_seq rc + 1"
    and "int (length ts + length us) \<le> POS_MAX"
  shows "let (ok, rc') = recr_seq_rm (recr_decode rc (int (length ts)) us)
      (int (length ts + length us - r)) (- 1);
      kept = take (length us - r) us
    in ok \<and> recr_pos_max rc' = int (length (ts @ kept)) - 1 \<and> rs_start rc' = Some (ts @ kept, ts @ kept)"
proof -
  let ?m = "recr_decode rc (int (length ts)) us"
  have us: "us \<noteq> []" using assms(6) by auto
  have m: "rc_tail ?m" "rc_pos ?m = int (length ts + length us) - 1" "rc_rs_idx ?m = 0"
    "rc_n_rs_seq ?m = rc_n_rs_seq rc"
    using us by (simp_all add: recr_decode_def)
  have pl: "rc_planes ?m ! r = Some (ts @ take (length us - r) us, ts @ take (length us - r) us)"
    using us assms(1-6) by (simp add: recr_decode_def rs_start_def plane_after_def Let_def del: upt_Suc)
  have "recr_seq_rm ?m (int (length ts + length us - r)) (- 1)
      = (True, ?m\<lparr>rc_rs_idx := r, rc_pos := int (length ts + length us - r) - 1\<rparr>)"
    using assms(4-6,8) m by (auto simp: recr_seq_rm_def Let_def of_nat_diff)
  then show ?thesis
    using m pl assms(4-6) by (auto simp: Let_def recr_pos_max_def rs_start_def of_nat_diff)
qed

theorem window_rollback_witness:
  "let (ok, rc') = recr_seq_rm (recr_decode (recr_decode (ex_recurrent 2) 0 [1]) (int (length [1 :: token])) [2, 3, 4])
      (int (length [1 :: token] + length [2, 3, 4 :: token] - 2)) (- 1);
      kept = take (length [2, 3, 4 :: token] - 2) [2, 3, 4]
    in ok \<and> recr_pos_max rc' = int (length ([1] @ kept)) - 1 \<and> rs_start rc' = Some ([1] @ kept, [1] @ kept)"
  by (rule window_rollback) (simp_all add: ex_recurrent_def recr_decode_def rs_start_def plane_after_def
      POS_MAX_def Let_def)

subsection \<open>Where the checkpoints and the window disagree\<close>

text \<open>A restore is ignored when the truncation it prepares is inside the window: the snapshot plane is used
  instead, which after single-token batches is the state of an earlier batch, and the mark of the
  restore stays set.\<close>

lemma restore_ignored_in_window:
  "let m = recr_decode (recr_decode (ex_recurrent 1) 0 [1, 2]) 2 [3];
       m = rs_checkpoint_save m;
       m = recr_decode m 3 [4];
       (ok, m') = recr_seq_rm (rs_checkpoint_restore m 0) 3 (- 1)
   in ok \<and> rc_stack m = [Some ([1, 2, 3], [1, 2, 3])] \<and> rs_start m' = Some ([1, 2, 3], [1]) \<and> rc_restored m'"
  by (simp add: ex_recurrent_def recr_decode_def rs_start_def plane_after_def rs_checkpoint_save_def
      rs_checkpoint_restore_def recr_seq_rm_def Let_def POS_MAX_def)

text \<open>The mark left behind lets a later truncation far outside the window succeed although no state was
  restored for it: the recurrent state then stands for tokens that are no longer in the cache.\<close>

lemma stale_restore_mark:
  "let m = recr_decode (ex_recurrent 0) 0 [1, 2];
       m = rs_checkpoint_save m;
       (ok, m) = recr_seq_rm (rs_checkpoint_restore m 0) 2 (- 1);
       m = recr_decode m 2 [3, 4, 5];
       (ok', m') = recr_seq_rm m 1 (- 1)
   in ok \<and> ok' \<and> recr_pos_max m' = 0 \<and> rs_start m' = Some ([1, 2, 3, 4, 5], [1, 2, 3, 4, 5])"
  by (simp add: ex_recurrent_def recr_decode_def rs_start_def plane_after_def rs_checkpoint_save_def
      rs_checkpoint_restore_def recr_seq_rm_def recr_pos_max_def Let_def POS_MAX_def)

end
