(* ===== verification/Lim_Feed.thy ===== *)
theory Lim_Feed
  imports Lim_Memory Lim_Model
begin

section \<open>Feeding tokens into the context (session.cc)\<close>

text \<open>
  The token tracker (\<open>all_context_tokens\<close>), the KV memory and \<open>n_past\<close> describe the same context three
  times; \<open>feed_tokens_impl\<close> is the place where all of them grow. The outside world of a feed is the list
  of moments at which \<open>stop_generation\<close> is seen set (by the signal handler) and the answers of
  \<open>llama_decode\<close>, each with the number of rows it left in the memory when it did not finish the batch.
\<close>

record 'm core =
  co_mem :: 'm
  co_n_past :: int
  co_stop :: bool
  co_state :: session_state

record feed_events =
  fe_stop :: "nat \<Rightarrow> bool"
  fe_ret :: "nat \<Rightarrow> int \<times> nat"

abbreviation tracker :: "'m core \<Rightarrow> token list" where
  "tracker c \<equiv> ss_all_context_tokens (co_state c)"

abbreviation upd_state :: "(session_state \<Rightarrow> session_state) \<Rightarrow> 'm core \<Rightarrow> 'm core" where
  "upd_state f c \<equiv> c\<lparr>co_state := f (co_state c)\<rparr>"

text \<open>\<open>llama_decode\<close> as \<open>llama.h\<close> documents it: 1 (no KV slot) and -1 (invalid batch) leave the memory as it
  was; an abort (2) and the fatal errors leave the micro-batches already processed.\<close>

definition llama_decode :: "'m mem_ops \<Rightarrow> int \<times> nat \<Rightarrow> 'm \<Rightarrow> int \<Rightarrow> token list \<Rightarrow> int \<times> 'm" where
  "llama_decode ops answer m p ts =
     (let (ret, k) = answer in
      if ret = 1 \<or> ret = - 1 then (ret, m)
      else if ret = 2 \<or> ret < 0 then (ret, op_decode ops m p (take k ts))
      else (ret, op_decode ops m p ts))"

fun feed_loop :: "'m mem_ops \<Rightarrow> nat \<Rightarrow> (nat \<Rightarrow> bool) \<Rightarrow> (nat \<Rightarrow> int \<times> nat) \<Rightarrow> token list \<Rightarrow> nat \<Rightarrow> nat
    \<Rightarrow> token list \<Rightarrow> 'm \<Rightarrow> int \<Rightarrow> bool \<times> bool \<times> nat \<times> token list \<times> 'm \<times> int" where
  "feed_loop ops n_batch stop answer [] i j b m np = (False, False, j, b, m, np)"
| "feed_loop ops n_batch stop answer (t # ts) i j b m np =
     (if stop i then (True, True, j, b, m, np)
      else if length b + 1 = n_batch \<and> ts \<noteq> [] then
        (let (ret, m') = llama_decode ops (answer j) m (np - int (length b)) (b @ [t]) in
         if \<not> fst (handle_decode_result ret True) then (True, False, j + 1, b @ [t], m', np + 1)
         else feed_loop ops n_batch stop answer ts (i + 1) (j + 1) [] m' (np + 1))
      else feed_loop ops n_batch stop answer ts (i + 1) j (b @ [t]) m (np + 1))"

text \<open>The last batch: its answer is reported but not treated as a failure; the position is read back from
  the memory, and a shorter memory than expected makes the feed fail after all.\<close>

definition feed_final :: "'m mem_ops \<Rightarrow> int \<times> nat \<Rightarrow> token list \<Rightarrow> int \<Rightarrow> 'm \<Rightarrow> int \<Rightarrow> bool \<times> 'm \<times> int" where
  "feed_final ops answer b expected m np =
     (let (failed, m, np) =
        (if b \<noteq> [] then
           (let (ret, m') = llama_decode ops answer m (np - int (length b)) b in
            if \<not> fst (handle_decode_result ret False) then (True, m', np)
            else (False, m', sync_n_past (op_pos_max ops m')))
         else (False, m, np))
      in if \<not> failed \<and> np \<noteq> expected then (True, m, sync_n_past (op_pos_max ops m)) else (failed, m, np))"

definition feed_tokens_impl :: "'m mem_ops \<Rightarrow> nat \<Rightarrow> feed_events \<Rightarrow> token list \<Rightarrow> 'm core \<Rightarrow> bool \<times> 'm core" where
  "feed_tokens_impl ops n_batch ev toks c =
     (let start = co_n_past c;
          (failed, stopped, j, b, m, np) =
            feed_loop ops n_batch (\<lambda>i. co_stop c \<or> fe_stop ev i) (fe_ret ev) toks 0 0 [] (co_mem c) start;
          (failed, m, np) = (if failed then (True, m, np)
            else feed_final ops (fe_ret ev j) b (start + int (length toks)) m np);
          c = c\<lparr>co_mem := m, co_stop := co_stop c \<or> stopped\<rparr>
      in if failed then
           (let np = sync_n_past (op_pos_max ops m);
                decoded = min (np - start) (int (length toks))
            in (False, (if decoded > 0
                 then upd_state (ss_all_context_tokens_update (\<lambda>ts. ts @ take (nat decoded) toks)) c else c)
                 \<lparr>co_n_past := np\<rparr>))
         else (True, (upd_state (ss_all_context_tokens_update (\<lambda>ts. ts @ toks)) c)\<lparr>co_n_past := np\<rparr>))"

text \<open>\<open>clear_context\<close>: the memory, the tracker, the checkpoints and the file cache are emptied and the
  system prompt (reloaded, or the previous one when its file is gone) is fed again. \<open>benchmark\<close> is
  \<open>maintains_conversation_text()\<close>; the pair is the system prompt's tokens and text.\<close>

definition reload_system_prompt :: "(token list \<times> string) option \<Rightarrow> token list \<times> string \<Rightarrow> token list \<times> string" where
  "reload_system_prompt loaded old = (case loaded of Some p \<Rightarrow> p | None \<Rightarrow> old)"

definition clear_context :: "'m mem_ops \<Rightarrow> model_tokens \<Rightarrow> nat \<Rightarrow> feed_events \<Rightarrow> bool \<Rightarrow> (token list \<times> string) option
    \<Rightarrow> token list \<times> string \<Rightarrow> 'm core \<Rightarrow> (token list \<times> string) \<times> 'm core" where
  "clear_context ops mt n_batch ev benchmark loaded sys c =
     (let c = (upd_state (\<lambda>s. s\<lparr>ss_all_context_tokens := [], ss_prompt_checkpoints := [],
                  ss_file_cache := (\<lambda>_. None)\<rparr>) c)\<lparr>co_mem := op_clear ops (co_mem c), co_n_past := 0\<rparr>;
          sys = reload_system_prompt loaded sys;
          (_, c) = feed_tokens_impl ops n_batch ev (fst sys) c
      in (sys, if benchmark
           then upd_state (ss_conversation_text_update (\<lambda>_. build_system_turn_text mt (snd sys))) c else c))"

subsection \<open>The three descriptions agree\<close>

definition synced :: "('m \<Rightarrow> token list \<Rightarrow> bool) \<Rightarrow> 'm core \<Rightarrow> bool" where
  "synced holds c \<longleftrightarrow> holds (co_mem c) (tracker c) \<and> co_n_past c = int (length (tracker c))"

lemma handle_decode_ok:
  "fst (handle_decode_result ret True) \<Longrightarrow> ret = 0 \<or> ret > 2"
  "handle_decode_result 0 b = (True, Mirror_Process)"
  by (auto simp: handle_decode_result_def split: if_splits)

context kv_memory
begin

lemma decode_any:
  assumes "holds m ts" "int (length (ts @ us)) \<le> POS_MAX"
    and "llama_decode ops a m (int (length ts)) us = (ret, m')"
  obtains k where "k \<le> length us" "holds m' (ts @ take k us)"
    "ret = 0 \<or> ret > 2 \<Longrightarrow> k = length us"
proof -
  have d: "holds (op_decode ops m (int (length ts)) (take n us)) (ts @ take n us)" for n
    using assms(1,2) by (intro decode) (auto simp: min_def)
  have id: "holds m (ts @ take 0 us)" using assms(1) by simp
  have full: "holds (op_decode ops m (int (length ts)) us) (ts @ take (length us) us)"
    using d [of "length us"] by simp
  obtain r n where a: "a = (r, n)" by fastforce
  show thesis
  proof (cases "ret = 1 \<or> ret = - 1")
    case True
    then have "m' = m" using assms(3) by (auto simp: llama_decode_def a split: if_splits)
    with that [of 0] id True show thesis by auto
  next
    case False
    show thesis
    proof (cases "ret = 2 \<or> ret < 0")
      case True
      then have "m' = op_decode ops m (int (length ts)) (take n us)"
        using assms(3) False by (auto simp: llama_decode_def a split: if_splits)
      moreover have "take n us = take (min n (length us)) us" by (simp add: min_def)
      ultimately show thesis
        using that [of "min n (length us)"] d [of n] True by auto
    next
      case F: False
      then have "m' = op_decode ops m (int (length ts)) us"
        using assms(3) False by (auto simp: llama_decode_def a split: if_splits)
      with that [of "length us"] full show thesis by auto
    qed
  qed
qed

lemma sync_holds: "holds m ts \<Longrightarrow> sync_n_past (op_pos_max ops m) = int (length ts)"
  by (cases ts) (simp_all add: pos_max sync_n_past_def)

lemma feed_loop_holds:
  assumes "feed_loop ops nb stop ans rest i j b m np = (failed, st, j', b', m', np')"
    and "holds m xs" "np = int (length (xs @ b))" "int (length (xs @ b @ rest)) \<le> POS_MAX"
  shows "\<exists>ys. holds m' (xs @ ys) \<and> prefix ys (b @ rest)
     \<and> (\<not> failed \<longrightarrow> ys @ b' = b @ rest \<and> np' = int (length (xs @ b @ rest)))"
  using assms
proof (induction rest arbitrary: i j b m np xs)
  case Nil
  then show ?case by (intro exI [of _ "[]"]) auto
next
  case (Cons t ts)
  note run = Cons.prems(1) and h0 = Cons.prems(2) and np0 = Cons.prems(3) and bound = Cons.prems(4)
  consider (stop) "stop i" | (batch) "\<not> stop i" "length b + 1 = nb \<and> ts \<noteq> []"
    | (more) "\<not> stop i" "\<not> (length b + 1 = nb \<and> ts \<noteq> [])" by blast
  then show ?case
  proof cases
    case stop
    with Cons.prems show ?thesis by (intro exI [of _ "[]"]) auto
  next
    case more
    have n: "np + 1 = int (length (xs @ b @ [t]))" "int (length (xs @ (b @ [t]) @ ts)) \<le> POS_MAX"
      using np0 bound by simp_all
    have r: "feed_loop ops nb stop ans ts (i + 1) j (b @ [t]) m (np + 1) = (failed, st, j', b', m', np')"
      using run more by (cases "length b + 1 = nb") simp_all
    from Cons.IH [OF r h0 n] show ?thesis by simp
  next
    case batch
    obtain ret m1 where d: "llama_decode ops (ans j) m (np - int (length b)) (b @ [t]) = (ret, m1)"
      by fastforce
    have p: "np - int (length b) = int (length xs)" using np0 by simp
    have bd: "int (length (xs @ b @ [t])) \<le> POS_MAX" using bound by simp
    obtain k where k: "k \<le> length (b @ [t])" "holds m1 (xs @ take k (b @ [t]))"
      "ret = 0 \<or> ret > 2 \<Longrightarrow> k = length (b @ [t])"
      by (rule decode_any [OF h0 bd d [unfolded p]]) blast
    show ?thesis
    proof (cases "fst (handle_decode_result ret True)")
      case False
      with run batch d have "failed" "m' = m1" by auto
      moreover have "prefix (take k (b @ [t])) (b @ t # ts)"
        using take_is_prefix [of k "b @ [t]"] by (metis append_Cons append_Nil append_assoc prefix_prefix)
      ultimately show ?thesis using k(2) by blast
    next
      case True
      then have kk: "k = length (b @ [t])" using k(3) handle_decode_ok(1) by blast
      have n: "np + 1 = int (length ((xs @ b @ [t]) @ []))"
        "int (length ((xs @ b @ [t]) @ [] @ ts)) \<le> POS_MAX"
        using np0 bound by simp_all
      have h: "holds m1 (xs @ b @ [t])" using k(2) kk by simp
      have r: "feed_loop ops nb stop ans ts (i + 1) (j + 1) [] m1 (np + 1) = (failed, st, j', b', m', np')"
        using run batch d True by simp
      from Cons.IH [OF r h n] obtain ys where
        ys: "holds m' ((xs @ b @ [t]) @ ys)" "prefix ys ts"
        "\<not> failed \<longrightarrow> ys @ b' = ts \<and> np' = int (length ((xs @ b @ [t]) @ ts))" by auto
      then show ?thesis by (intro exI [of _ "b @ t # ys"]) auto
    qed
  qed
qed

lemma feed_final_holds:
  assumes "feed_final ops a b expected m np = (failed, m', np')"
    and "holds m xs" "np = int (length (xs @ b))" "int (length (xs @ b)) \<le> POS_MAX"
    and "expected = int (length (xs @ b))"
  shows "\<exists>k \<le> length b. holds m' (xs @ take k b) \<and> (\<not> failed \<longrightarrow> k = length b \<and> np' = int (length (xs @ b)))"
proof (cases "b = []")
  case True
  with assms show ?thesis by (auto simp: feed_final_def)
next
  case False
  obtain ret m1 where d: "llama_decode ops a m (int (length xs)) b = (ret, m1)" by fastforce
  obtain k where k: "k \<le> length b" "holds m1 (xs @ take k b)"
    by (rule decode_any [OF assms(2,4) d])
  have m: "m' = m1" "\<not> failed \<Longrightarrow> np' = expected \<and> np' = sync_n_past (op_pos_max ops m1)"
    using assms(1,3) d False by (auto simp: feed_final_def Let_def split: if_splits)
  have "\<not> failed \<Longrightarrow> k = length b"
    using m(2) sync_holds [OF k(2)] assms(5) k(1) by (auto simp: min_def split: if_splits)
  with k m assms(5) show ?thesis by blast
qed

lemma feed_conclude:
  assumes "synced holds c" "feed_tokens_impl ops nb ev toks c = (ok, c')"
    and l: "feed_loop ops nb (\<lambda>i. co_stop c \<or> fe_stop ev i) (fe_ret ev) toks 0 0 [] (co_mem c) (co_n_past c)
      = (f0, st, j, b, m0, np0)"
    and e: "(if f0 then (True, m0, np0)
      else feed_final ops (fe_ret ev j) b (co_n_past c + int (length toks)) m0 np0) = (f1, m1, np1)"
    and "\<exists>k \<le> length toks. holds m1 (tracker c @ take k toks)
      \<and> (\<not> f1 \<longrightarrow> k = length toks \<and> np1 = int (length (tracker c @ toks)))"
  obtains k where "k \<le> length toks" "synced holds c'" "tracker c' = tracker c @ take k toks"
    "co_state c' = (co_state c)\<lparr>ss_all_context_tokens := tracker c @ take k toks\<rparr>"
    "ok \<longleftrightarrow> k = length toks \<and> ok"
proof -
  let ?xs = "tracker c"
  have h: "holds (co_mem c) ?xs" "co_n_past c = int (length ?xs)"
    using assms(1) by (auto simp: synced_def)
  from assms(5) obtain k where k: "k \<le> length toks" "holds m1 (?xs @ take k toks)"
    "\<not> f1 \<longrightarrow> k = length toks \<and> np1 = int (length (?xs @ toks))" by blast
  have s: "sync_n_past (op_pos_max ops m1) = int (length ?xs + k)"
    using sync_holds [OF k(2)] k(1) by (simp add: min_def)
  have r: "ok \<longleftrightarrow> \<not> f1" "co_mem c' = m1" "co_n_past c' = int (length ?xs + k)"
    "co_state c' = (co_state c)\<lparr>ss_all_context_tokens := ?xs @ take k toks\<rparr>"
    using assms(2) l e k(1,3) s h(2)
    by (cases f1; cases "k = 0"; auto simp: feed_tokens_impl_def Let_def min_def split: if_splits)+
  show thesis
  proof (rule that [OF k(1)])
    show "synced holds c'" using k(1,2) r by (simp add: synced_def)
    show "ok \<longleftrightarrow> k = length toks \<and> ok" using r(1) k(3) by blast
  qed (use r in simp_all)
qed

lemma feed_holds:
  assumes "synced holds c" "int (length (tracker c @ toks)) \<le> POS_MAX"
    and "feed_tokens_impl ops nb ev toks c = (ok, c')"
  obtains k where "k \<le> length toks" "synced holds c'" "tracker c' = tracker c @ take k toks"
    "co_state c' = (co_state c)\<lparr>ss_all_context_tokens := tracker c @ take k toks\<rparr>"
    "ok \<longleftrightarrow> k = length toks \<and> ok"
proof -
  let ?xs = "tracker c"
  obtain f0 st j b m0 np0 where l: "feed_loop ops nb (\<lambda>i. co_stop c \<or> fe_stop ev i) (fe_ret ev) toks 0 0 []
      (co_mem c) (co_n_past c) = (f0, st, j, b, m0, np0)"
    by (metis prod_cases6)
  have h: "holds (co_mem c) ?xs" "co_n_past c = int (length ?xs)"
    using assms(1) by (auto simp: synced_def)
  from feed_loop_holds [OF l h(1)] h(2) assms(2) obtain ys where
    ys: "holds m0 (?xs @ ys)" "prefix ys toks"
    "\<not> f0 \<longrightarrow> ys @ b = toks \<and> np0 = int (length (?xs @ toks))" by auto
  obtain f1 m1 np1 where e: "(if f0 then (True, m0, np0)
      else feed_final ops (fe_ret ev j) b (co_n_past c + int (length toks)) m0 np0) = (f1, m1, np1)"
    by (metis prod_cases3)
  have "\<exists>k \<le> length toks. holds m1 (?xs @ take k toks)
      \<and> (\<not> f1 \<longrightarrow> k = length toks \<and> np1 = int (length (?xs @ toks)))"
  proof (cases f0)
    case True
    from ys(2) obtain zs where "toks = ys @ zs" by (auto simp: prefix_def)
    with True e ys(1) show ?thesis by (intro exI [of _ "length ys"]) auto
  next
    case False
    with ys(3) have t: "toks = ys @ b" "np0 = int (length ((?xs @ ys) @ b))" by auto
    have e': "feed_final ops (fe_ret ev j) b (co_n_past c + int (length toks)) m0 np0 = (f1, m1, np1)"
      using e False by simp
    from feed_final_holds [OF e' ys(1) t(2)] assms(2) t(1) h(2) obtain k where
      "k \<le> length b" "holds m1 ((?xs @ ys) @ take k b)"
      "\<not> f1 \<longrightarrow> k = length b \<and> np1 = int (length ((?xs @ ys) @ b))" by auto
    with t(1) show ?thesis by (intro exI [of _ "length ys + k"]) auto
  qed
  from feed_conclude [OF assms(1,3) l e this] that show thesis by metis
qed

end

text \<open>C23: A feed keeps tracker, memory and position in agreement whatever happens: the memory then holds
  exactly the tracker and \<open>n_past\<close> is its length, a prefix of the tokens has been added, all of them when
  it reports success; nothing else of the session state changes.\<close>

theorem feed_invariant:
  assumes "synced mem_holds c" "int (length (tracker c @ toks)) \<le> POS_MAX"
  shows "let (ok, c') = feed_tokens_impl memory_ops n_batch ev toks c
    in synced mem_holds c' \<and> (\<exists>k. tracker c' = tracker c @ take k toks
        \<and> co_state c' = (co_state c)\<lparr>ss_all_context_tokens := tracker c'\<rparr>
        \<and> k \<le> length toks \<and> (if ok then k = length toks else True))"
proof -
  obtain ok c' where f: "feed_tokens_impl memory_ops n_batch ev toks c = (ok, c')" by fastforce
  obtain k where k: "k \<le> length toks" "synced mem_holds c'" "tracker c' = tracker c @ take k toks"
    "co_state c' = (co_state c)\<lparr>ss_all_context_tokens := tracker c @ take k toks\<rparr>"
    "ok \<longleftrightarrow> k = length toks \<and> ok"
    by (rule mem.feed_holds [OF assms f])
  show ?thesis unfolding f using k by (auto intro!: exI [of _ k])
qed

definition ex_core :: "memory core" where
  "ex_core = \<lparr>co_mem = Hybrid [] (ex_recurrent 0), co_n_past = 0, co_stop = False, co_state = session_state0\<rparr>"

lemma ex_core_synced: "synced mem_holds ex_core"
  by (simp add: synced_def ex_core_def session_state0_def ex_recurrent_def rows_of_def recr_holds_def POS_MAX_def)

lemma ex_core_tracker [simp]: "tracker ex_core = []" "co_stop ex_core = False"
  by (simp_all add: ex_core_def session_state0_def)

theorem feed_invariant_witness:
  "let (ok, c') = feed_tokens_impl memory_ops 2 \<lparr>fe_stop = (\<lambda>i. i = 3), fe_ret = (\<lambda>_. (0, 0))\<rparr> [7, 8, 9, 10] ex_core
    in synced mem_holds c' \<and> (\<exists>k. tracker c' = tracker ex_core @ take k [7, 8, 9, 10]
        \<and> co_state c' = (co_state ex_core)\<lparr>ss_all_context_tokens := tracker c'\<rparr>
        \<and> k \<le> length [7, 8, 9, 10 :: token] \<and> (if ok then k = length [7, 8, 9, 10 :: token] else True))"
  by (rule feed_invariant [OF ex_core_synced]) (simp add: POS_MAX_def)

subsection \<open>When a feed succeeds\<close>

context kv_memory
begin

lemma feed_loop_quiet:
  assumes "\<And>i. \<not> stop i" "\<And>j. fst (ans j) = 0"
  shows "fst (feed_loop ops nb stop ans rest i j b m np) = False"
proof (induction rest arbitrary: i j b m np)
  case (Cons t ts)
  obtain k where "ans j = (0, k)" using assms(2) [of j] by (metis prod.collapse)
  then show ?case
    using assms(1) [of i] Cons by (simp add: llama_decode_def handle_decode_ok(2) Let_def)
qed simp

lemma feed_final_quiet:
  assumes "holds m xs" "np = int (length (xs @ b))" "int (length (xs @ b)) \<le> POS_MAX" "fst a = 0"
  shows "fst (feed_final ops a b (int (length (xs @ b))) m np) = False"
proof -
  obtain k where a: "a = (0, k)" using assms(4) by (metis prod.collapse)
  have "sync_n_past (op_pos_max ops (op_decode ops m (int (length xs)) b)) = int (length (xs @ b))"
    using decode [OF assms(1,3)] by (intro sync_holds)
  with assms(2) show ?thesis
    by (simp add: feed_final_def a llama_decode_def handle_decode_ok(2) Let_def)
qed

lemma feed_quiet:
  assumes "synced holds c" "int (length (tracker c @ toks)) \<le> POS_MAX"
    and "\<not> co_stop c" "\<And>i. \<not> fe_stop ev i" "\<And>j. fst (fe_ret ev j) = 0"
  shows "fst (feed_tokens_impl ops nb ev toks c)"
proof -
  obtain f0 st j b m0 np0 where l: "feed_loop ops nb (\<lambda>i. co_stop c \<or> fe_stop ev i) (fe_ret ev) toks 0 0 []
      (co_mem c) (co_n_past c) = (f0, st, j, b, m0, np0)"
    by (metis prod_cases6)
  have f0: "\<not> f0"
    using feed_loop_quiet [of "\<lambda>i. co_stop c \<or> fe_stop ev i" "fe_ret ev" nb toks 0 0 "[]" "co_mem c" "co_n_past c"]
      assms(3-5) l by simp
  have h: "holds (co_mem c) (tracker c)" "co_n_past c = int (length (tracker c))"
    using assms(1) by (auto simp: synced_def)
  from feed_loop_holds [OF l h(1)] h(2) assms(2) f0 obtain ys where
    ys: "holds m0 (tracker c @ ys)" "toks = ys @ b" "np0 = int (length ((tracker c @ ys) @ b))" by auto
  have "fst (feed_final ops (fe_ret ev j) b (int (length ((tracker c @ ys) @ b))) m0 np0) = False"
    using assms(2,5) ys by (intro feed_final_quiet) simp_all
  then show ?thesis
    using l f0 ys(2) h(2) by (auto simp: feed_tokens_impl_def Let_def case_prod_beta)
qed

lemma clear_holds:
  assumes "holds (co_mem c) xs" "int (length (fst (reload_system_prompt loaded sys))) \<le> POS_MAX"
    and "clear_context ops mt nb ev bench loaded sys c = (sys', c')"
  obtains k where "sys' = reload_system_prompt loaded sys" "k \<le> length (fst sys')" "synced holds c'"
    "tracker c' = take k (fst sys')" "ss_prompt_checkpoints (co_state c') = []"
    "ss_file_cache (co_state c') = (\<lambda>_. None)"
proof -
  let ?c = "(upd_state (\<lambda>s. s\<lparr>ss_all_context_tokens := [], ss_prompt_checkpoints := [],
    ss_file_cache := (\<lambda>_. None)\<rparr>) c)\<lparr>co_mem := op_clear ops (co_mem c), co_n_past := 0\<rparr>"
  obtain ok c1 where f: "feed_tokens_impl ops nb ev (fst (reload_system_prompt loaded sys)) ?c = (ok, c1)"
    by fastforce
  have s: "synced holds ?c" using clear [OF assms(1)] by (simp add: synced_def)
  obtain k where k: "k \<le> length (fst (reload_system_prompt loaded sys))" "synced holds c1"
    "tracker c1 = tracker ?c @ take k (fst (reload_system_prompt loaded sys))"
    "co_state c1 = (co_state ?c)\<lparr>ss_all_context_tokens := tracker ?c @ take k (fst (reload_system_prompt loaded sys))\<rparr>"
    by (rule feed_holds [OF s _ f]) (use assms(2) in simp_all)
  have r: "sys' = reload_system_prompt loaded sys"
    "c' = (if bench then upd_state (ss_conversation_text_update (\<lambda>_. build_system_turn_text mt (snd sys'))) c1 else c1)"
    using assms(3) f by (auto simp: clear_context_def Let_def)
  show thesis
    by (rule that [of k]) (use k r in \<open>auto simp: synced_def\<close>)
qed

end

text \<open>C24: Without an interrupt and without a decode error a feed of any length, cut into batches of any size,
  reports success.\<close>

theorem feed_completes:
  assumes "synced mem_holds c" "int (length (tracker c @ toks)) \<le> POS_MAX"
    and "\<not> co_stop c" "\<forall>i. \<not> fe_stop ev i" "\<forall>j. fst (fe_ret ev j) = 0"
  shows "fst (feed_tokens_impl memory_ops n_batch ev toks c)"
  using assms by (intro mem.feed_quiet) blast+

theorem feed_completes_witness:
  "fst (feed_tokens_impl memory_ops 2 \<lparr>fe_stop = (\<lambda>_. False), fe_ret = (\<lambda>_. (0, 0))\<rparr> [7, 8, 9] ex_core)"
  by (rule feed_completes [OF ex_core_synced]) (simp_all add: POS_MAX_def)

subsection \<open>A full context\<close>

text \<open>\<open>llama_decode\<close> answers 1 when it finds no KV slot: the batch numbered \<open>j\<close> of a feed of \<open>n\<close> tokens is
  refused when it would end beyond the context.\<close>

definition batch_end :: "nat \<Rightarrow> nat \<Rightarrow> nat \<Rightarrow> nat" where
  "batch_end n_batch n j = (if n_batch = 0 then n else min ((j + 1) * n_batch) n)"

definition slot_events :: "int \<Rightarrow> nat \<Rightarrow> int \<Rightarrow> nat \<Rightarrow> feed_events \<Rightarrow> feed_events" where
  "slot_events n_ctx n_batch start n ev =
     ev\<lparr>fe_ret := (\<lambda>j. if start + int (batch_end n_batch n j) > n_ctx then (1, 0) else fe_ret ev j)\<rparr>"

context kv_memory
begin

lemma feed_loop_slots:
  assumes "feed_loop ops nb stop ans rest i j b m np = (failed, st, j', b', m', np')"
    and "holds m xs" "np = int (length (xs @ b))" "length (xs @ b @ rest) = S + n"
    and "nb > 0 \<longrightarrow> length xs = S + j * nb \<and> length b < nb" "n_ctx \<le> POS_MAX"
    and "\<And>j. int (S + batch_end nb n j) > n_ctx \<Longrightarrow> ans j = (1, 0)"
  shows "\<exists>ys. holds m' (xs @ ys) \<and> prefix ys (b @ rest)
     \<and> (\<not> failed \<longrightarrow> ys @ b' = b @ rest \<and> np' = int (S + n)
          \<and> (nb > 0 \<longrightarrow> length (xs @ ys) = S + j' * nb \<and> length b' \<le> nb))"
  using assms(1-5)
proof (induction rest arbitrary: i j b m np xs)
  case Nil
  then show ?case by (intro exI [of _ "[]"]) auto
next
  case (Cons t ts)
  note run = Cons.prems(1) and h0 = Cons.prems(2) and np0 = Cons.prems(3) and tot = Cons.prems(4)
    and cnt = Cons.prems(5)
  consider (stop) "stop i" | (batch) "\<not> stop i" "length b + 1 = nb \<and> ts \<noteq> []"
    | (last) "\<not> stop i" "length b + 1 = nb" "ts = []" | (more) "\<not> stop i" "length b + 1 \<noteq> nb" by blast
  then show ?case
  proof cases
    case stop
    with Cons.prems show ?thesis by (intro exI [of _ "[]"]) auto
  next
    case last
    then have r: "failed = False" "b' = b @ [t]" "m' = m" "np' = np + 1" "j' = j" using run by simp_all
    have "np' = int (length (xs @ b @ [t]))" using r(4) np0 by simp
    then have "np' = int (S + n)" using tot last(3) by (metis append_Nil)
    with r last cnt h0 show ?thesis by (intro exI [of _ "[]"]) simp
  next
    case more
    have r: "feed_loop ops nb stop ans ts (i + 1) j (b @ [t]) m (np + 1) = (failed, st, j', b', m', np')"
      using run more by simp
    have n: "np + 1 = int (length (xs @ b @ [t]))" "length (xs @ (b @ [t]) @ ts) = S + n"
      "nb > 0 \<longrightarrow> length xs = S + j * nb \<and> length (b @ [t]) < nb"
      using np0 tot cnt more by auto
    from Cons.IH [OF r h0 n] show ?thesis by simp
  next
    case batch
    obtain ret m1 where d: "llama_decode ops (ans j) m (np - int (length b)) (b @ [t]) = (ret, m1)"
      by fastforce
    have p: "np - int (length b) = int (length xs)" using np0 by simp
    have nb: "nb > 0" using batch by auto
    have len: "length (xs @ b @ [t]) = S + (j + 1) * nb" using cnt nb batch by simp
    then have e: "S + batch_end nb n j = length (xs @ b @ [t])"
      using tot nb by (simp add: batch_end_def min_def)
    show ?thesis
    proof (cases "int (length (xs @ b @ [t])) > n_ctx")
      case True
      then have "ans j = (1, 0)" using assms(7) [of j] e by simp
      then have "m1 = m" "ret = 1" using d by (simp_all add: llama_decode_def)
      then have "failed" "m' = m" using run batch d by (simp_all add: handle_decode_result_def)
      with h0 show ?thesis by (intro exI [of _ "[]"]) simp
    next
      case False
      then have bd: "int (length (xs @ b @ [t])) \<le> POS_MAX" using assms(6) by linarith
      obtain k where k: "k \<le> length (b @ [t])" "holds m1 (xs @ take k (b @ [t]))"
        "ret = 0 \<or> ret > 2 \<Longrightarrow> k = length (b @ [t])"
        by (rule decode_any [OF h0 bd d [unfolded p]]) blast
      show ?thesis
      proof (cases "fst (handle_decode_result ret True)")
        case False
        with run batch d have "failed" "m' = m1" by auto
        moreover have "prefix (take k (b @ [t])) (b @ t # ts)"
          using take_is_prefix [of k "b @ [t]"] by (metis append_Cons append_Nil append_assoc prefix_prefix)
        ultimately show ?thesis using k(2) by blast
      next
        case True
        then have kk: "k = length (b @ [t])" using k(3) handle_decode_ok(1) by blast
        have h: "holds m1 (xs @ b @ [t])" using k(2) kk by simp
        have r: "feed_loop ops nb stop ans ts (i + 1) (j + 1) [] m1 (np + 1) = (failed, st, j', b', m', np')"
          using run batch d True by simp
        have n: "np + 1 = int (length ((xs @ b @ [t]) @ []))" "length ((xs @ b @ [t]) @ [] @ ts) = S + n"
          using np0 tot by simp_all
        have n': "nb > 0 \<longrightarrow> length (xs @ b @ [t]) = S + (j + 1) * nb \<and> length ([] :: token list) < nb"
          using nb len by simp
        from Cons.IH [OF r h n n'] obtain ys where
          ys: "holds m' ((xs @ b @ [t]) @ ys)" "prefix ys ts"
          "\<not> failed \<longrightarrow> ys @ b' = ts \<and> np' = int (S + n)
             \<and> (nb > 0 \<longrightarrow> length ((xs @ b @ [t]) @ ys) = S + j' * nb \<and> length b' \<le> nb)" by auto
        then show ?thesis by (intro exI [of _ "b @ t # ys"]) auto
      qed
    qed
  qed
qed

lemma feed_slots:
  assumes "synced holds c" "n_ctx \<le> POS_MAX"
    and "feed_tokens_impl ops nb (slot_events n_ctx nb (co_n_past c) (length toks) ev) toks c = (ok, c')"
  obtains k where "k \<le> length toks" "synced holds c'" "tracker c' = tracker c @ take k toks"
    "co_state c' = (co_state c)\<lparr>ss_all_context_tokens := tracker c @ take k toks\<rparr>"
    "ok \<longleftrightarrow> k = length toks \<and> ok"
proof -
  let ?xs = "tracker c" and ?ev = "slot_events n_ctx nb (co_n_past c) (length toks) ev"
  have h: "holds (co_mem c) ?xs" "co_n_past c = int (length ?xs)"
    using assms(1) by (auto simp: synced_def)
  have a: "fe_ret ?ev j = (1, 0)" if "int (length ?xs + batch_end nb (length toks) j) > n_ctx" for j
    using that h(2) by (simp add: slot_events_def)
  obtain f0 st j b m0 np0 where l: "feed_loop ops nb (\<lambda>i. co_stop c \<or> fe_stop ?ev i) (fe_ret ?ev) toks 0 0 []
      (co_mem c) (co_n_past c) = (f0, st, j, b, m0, np0)"
    by (metis prod_cases6)
  from feed_loop_slots [OF l h(1) _ _ _ assms(2) a, where n = "length toks" and S = "length ?xs"] h(2) obtain ys where
    ys: "holds m0 (?xs @ ys)" "prefix ys toks"
    "\<not> f0 \<longrightarrow> ys @ b = toks \<and> np0 = int (length ?xs + length toks)
       \<and> (nb > 0 \<longrightarrow> length ys = j * nb \<and> length b \<le> nb)"
    by auto
  obtain f1 m1 np1 where e: "(if f0 then (True, m0, np0)
      else feed_final ops (fe_ret ?ev j) b (co_n_past c + int (length toks)) m0 np0) = (f1, m1, np1)"
    by (metis prod_cases3)
  have "\<exists>k \<le> length toks. holds m1 (?xs @ take k toks)
      \<and> (\<not> f1 \<longrightarrow> k = length toks \<and> np1 = int (length (?xs @ toks)))"
  proof (cases f0)
    case True
    from ys(2) obtain zs where "toks = ys @ zs" by (auto simp: prefix_def)
    with True e ys(1) show ?thesis by (intro exI [of _ "length ys"]) auto
  next
    case False
    with ys(3) have t: "toks = ys @ b" "np0 = int (length ((?xs @ ys) @ b))" by auto
    have e': "feed_final ops (fe_ret ?ev j) b (int (length ((?xs @ ys) @ b))) m0 np0 = (f1, m1, np1)"
      using e False h(2) t(1) by simp
    have be: "batch_end nb (length toks) j = length toks"
      using ys(3) False by (auto simp: batch_end_def min_def dest: arg_cong [where f = length])
    have "\<exists>k \<le> length b. holds m1 ((?xs @ ys) @ take k b)
        \<and> (\<not> f1 \<longrightarrow> k = length b \<and> np1 = int (length ((?xs @ ys) @ b)))"
    proof (cases "int (length ?xs + length toks) > n_ctx")
      case True
      then have "fe_ret ?ev j = (1, 0)" using a be by simp
      then have "m1 = m0 \<and> (f1 \<or> b = [])"
        using e' sync_holds [OF ys(1)] t(2)
        by (auto simp: feed_final_def llama_decode_def handle_decode_result_def Let_def split: if_splits)
      with ys(1) e' t(2) show ?thesis by (intro exI [of _ 0]) (auto simp: feed_final_def)
    next
      case False
      then have "int (length ((?xs @ ys) @ b)) \<le> POS_MAX" using assms(2) t(1) by simp
      from feed_final_holds [OF e' ys(1) t(2) this refl] show ?thesis .
    qed
    then obtain k where "k \<le> length b" "holds m1 ((?xs @ ys) @ take k b)"
      "\<not> f1 \<longrightarrow> k = length b \<and> np1 = int (length ((?xs @ ys) @ b))" by blast
    with t(1) show ?thesis by (intro exI [of _ "length ys + k"]) auto
  qed
  from feed_conclude [OF assms(1,3) l e this] that show thesis by metis
qed

end

end
