(* ===== verification/Lim_Checkpoints.thy ===== *)
theory Lim_Checkpoints
  imports Lim_Feed
begin

section \<open>Checkpoints, rollback and undo (session.cc)\<close>

text \<open>
  The session keeps two lists in step: \<open>prompt_checkpoints\<close> (a position and a label per prompt return)
  and, inside the memory of a hybrid model, the stack of recurrent states. Checkpoint \<open>i\<close> has its state
  at stack position \<open>i - checkpoint_stack_offset\<close>; during a turn with tool calls the stack has one more
  entry, the slot from which a malformed call is rolled back. This theory models every operation of the
  session that touches this bookkeeping, shows the invariant that makes \<open>/undo\<close> and the rollback
  correct, and the two operations that can break it.
\<close>

text \<open>A cast to \<open>uint32_t\<close>, and \<open>vector::resize\<close> of the tracker.\<close>

definition to_u32 :: "int \<Rightarrow> nat" where
  "to_u32 i = nat (i mod 4294967296)"

definition tok_resize :: "token list \<Rightarrow> int \<Rightarrow> token list" where
  "tok_resize ts n = take (nat n) ts @ replicate (nat n - length ts) 0"

abbreviation n_cps :: "'m core \<Rightarrow> int" where
  "n_cps c \<equiv> int (length (ss_prompt_checkpoints (co_state c)))"

subsection \<open>The operations\<close>

text \<open>The start of a generation: the latches of the turn are reset unless a slot is in use.\<close>

definition begin_generation :: "bool \<Rightarrow> 'm core \<Rightarrow> 'm core" where
  "begin_generation is_correction c =
     (if \<not> is_correction \<and> ss_tool_correction_checkpoint_idx (co_state c) < 0
      then upd_state (\<lambda>s. s\<lparr>ss_has_tool_correction_checkpoint := False,
        ss_correction_attempted_this_turn := False, ss_minor_tool_error_self_fix_used := False\<rparr>) c
      else c)"

text \<open>The hook that fires when the opening tag of a call has been decoded.\<close>

definition on_tool_start :: "'m mem_ops \<Rightarrow> bool \<Rightarrow> 'm core \<Rightarrow> 'm core" where
  "on_tool_start ops lockstep c =
     (let s = co_state c;
          idx = (if ss_tool_correction_checkpoint_idx s < 0
                 then int (length (ss_prompt_checkpoints s)) - ss_checkpoint_stack_offset s
                 else ss_tool_correction_checkpoint_idx s);
          m = (if lockstep then
                 (if ss_rs_checkpoint_saved_this_turn s then op_overwrite ops (co_mem c) (to_u32 idx)
                  else op_save ops (co_mem c))
               else co_mem c)
      in c\<lparr>co_mem := m, co_state := s\<lparr>ss_tool_correction_checkpoint_idx := idx,
           ss_rs_checkpoint_saved_this_turn := ss_rs_checkpoint_saved_this_turn s \<or> lockstep,
           ss_has_tool_correction_checkpoint := lockstep,
           ss_tool_correction_n_past := co_n_past c\<rparr>\<rparr>)"

text \<open>The newest checkpoint at or before a position that still has a live state.\<close>

definition find_anchor :: "prompt_checkpoint list \<Rightarrow> int \<Rightarrow> int \<Rightarrow> nat option" where
  "find_anchor cps target offset =
     (case filter (\<lambda>i. cp_n_past (cps ! i) \<le> target \<and> int i - offset \<ge> 0) (rev [0..<length cps]) of
        [] \<Rightarrow> None | i # _ \<Rightarrow> Some i)"

definition eject :: "bool \<Rightarrow> 'm core \<Rightarrow> int \<times> 'm core" where
  "eject on_failure c = (- 1, if on_failure then upd_state (ss_auto_continue_update (\<lambda>_. False)) c else c)"

definition truncate_to :: "int \<Rightarrow> 'm core \<Rightarrow> 'm core" where
  "truncate_to n c = (upd_state (ss_all_context_tokens_update (\<lambda>ts. tok_resize ts n)) c)\<lparr>co_n_past := n\<rparr>"

abbreviation drop_text :: "'m core \<Rightarrow> 'm core" where
  "drop_text c \<equiv> upd_state (ss_conversation_text_update (\<lambda>_. [])) c"

text \<open>The fallback: restore the state of the anchor, truncate there and decode the suffix again.\<close>

definition redecode_suffix :: "'m mem_ops \<Rightarrow> nat \<Rightarrow> feed_events \<Rightarrow> bool \<Rightarrow> 'm core \<Rightarrow> int \<times> 'm core" where
  "redecode_suffix ops n_batch ev eject_on_failure c =
     (let s = co_state c; target = ss_tool_correction_n_past s in
      case find_anchor (ss_prompt_checkpoints s) target (ss_checkpoint_stack_offset s) of
        None \<Rightarrow> eject eject_on_failure c
      | Some i \<Rightarrow>
          (let anchor_pos = cp_n_past (ss_prompt_checkpoints s ! i);
               m = op_restore ops (co_mem c) (to_u32 (int i - ss_checkpoint_stack_offset s));
               (ok, m) = op_seq_rm ops m anchor_pos (- 1);
               c = c\<lparr>co_mem := m\<rparr>
           in if ok then
                (let suffix = drop (nat anchor_pos) (tok_resize (tracker c) target);
                     (fed, c) = feed_tokens_impl ops n_batch ev suffix (truncate_to anchor_pos c)
                 in if fed then (2, drop_text c) else eject eject_on_failure c)
              else eject eject_on_failure c))"

definition rollback_to_tool_checkpoint ::
  "'m mem_ops \<Rightarrow> nat \<Rightarrow> feed_events \<Rightarrow> bool \<Rightarrow> 'm core \<Rightarrow> int \<times> 'm core" where
  "rollback_to_tool_checkpoint ops n_batch ev eject_on_failure c =
     (let s = co_state c; target = ss_tool_correction_n_past s;
          idx = to_u32 (ss_tool_correction_checkpoint_idx s) in
      if int (length (tracker c)) < target then eject eject_on_failure c
      else let (rm_ok, m) =
             (if ss_has_tool_correction_checkpoint s
              then op_seq_rm ops (op_prune ops (op_restore ops (co_mem c) idx) idx) target (- 1)
              else (False, co_mem c));
             c = c\<lparr>co_mem := m\<rparr>
           in if rm_ok then (0, drop_text (truncate_to target c))
              else redecode_suffix ops n_batch ev eject_on_failure c)"

text \<open>The return to the prompt: the checkpoint of the turn (or of the 90 percent crossing) is recorded,
  a provisional one of an interrupted turn is moved to the end of the turn.\<close>

definition ctx_limit_label :: string where "ctx_limit_label = ''/continue''"

definition prompt_return :: "'m mem_ops \<Rightarrow> bool \<Rightarrow> bool \<Rightarrow> string \<Rightarrow> 'm core \<Rightarrow> string \<times> 'm core" where
  "prompt_return ops was_interrupted ctx_limit last_input c =
     (let s = co_state c; cps = ss_prompt_checkpoints s; idx = ss_tool_correction_checkpoint_idx s in
      if last_input \<noteq> [] then
        (let m = (if idx \<ge> 0 \<and> ss_rs_checkpoint_saved_this_turn s
                  then op_overwrite ops (co_mem c) (to_u32 idx) else op_save ops (co_mem c));
             saved = (if idx \<ge> 0 then False else ss_rs_checkpoint_saved_this_turn s);
             limit = was_interrupted \<and> ctx_limit;
             s = s\<lparr>ss_prompt_checkpoints := cps @ [\<lparr>cp_n_past = co_n_past c,
                      cp_prompt = (if limit then ctx_limit_label else last_input)\<rparr>],
                   ss_tool_correction_checkpoint_idx := (if idx \<ge> 0 then - 1 else idx),
                   ss_rs_checkpoint_saved_this_turn := saved\<rparr>
         in if limit then (last_input, c\<lparr>co_mem := m,
                co_state := s\<lparr>ss_prev_was_interrupted := False, ss_auto_continue := True\<rparr>\<rparr>)
            else ([], c\<lparr>co_mem := m, co_state := (if was_interrupted
                then s\<lparr>ss_interrupted_checkpoint_idx := int (length cps)\<rparr> else s)\<rparr>))
      else if ss_interrupted_checkpoint_idx s \<ge> 0
              \<and> ss_interrupted_checkpoint_idx s < int (length cps) \<and> \<not> was_interrupted then
        (let i = nat (ss_interrupted_checkpoint_idx s);
             stack_idx = ss_interrupted_checkpoint_idx s - ss_checkpoint_stack_offset s
         in (last_input, c\<lparr>co_mem := (if stack_idx \<ge> 0 then op_overwrite ops (co_mem c) (to_u32 stack_idx)
                                   else co_mem c),
              co_state := s\<lparr>ss_prompt_checkpoints := cps[i := (cps ! i)\<lparr>cp_n_past := co_n_past c\<rparr>],
                ss_interrupted_checkpoint_idx := - 1\<rparr>\<rparr>))
      else (last_input, c))"

text \<open>A new prompt makes a provisional checkpoint final.\<close>

definition new_prompt :: "'m core \<Rightarrow> 'm core" where
  "new_prompt c = upd_state (ss_interrupted_checkpoint_idx_update (\<lambda>_. - 1)) c"

definition reset_session_state :: "session_state \<Rightarrow> session_state" where
  "reset_session_state s = s\<lparr>ss_correction_attempted_this_turn := False,
     ss_minor_tool_error_self_fix_used := False, ss_partial_tool_text := [],
     ss_tool_interrupt_pending := False, ss_thinking_block_open := False,
     ss_interrupted_checkpoint_idx := - 1, ss_rs_checkpoint_saved_this_turn := False\<rparr>"

definition reset_turn_failure_latches :: "session_state \<Rightarrow> session_state" where
  "reset_turn_failure_latches s =
     s\<lparr>ss_correction_attempted_this_turn := False, ss_minor_tool_error_self_fix_used := False\<rparr>"

text \<open>What a model and the start-up settings fix for the session.\<close>

record session_env =
  se_mt :: model_tokens
  se_n_batch :: nat
  se_benchmark :: bool
  se_load :: "(token list \<times> string) option"
  se_system :: "token list \<times> string"

definition clear_session :: "'m mem_ops \<Rightarrow> session_env \<Rightarrow> feed_events \<Rightarrow> 'm core \<Rightarrow> (token list \<times> string) \<times> 'm core" where
  "clear_session ops se ev c =
     (let (sys, c) = clear_context ops (se_mt se) (se_n_batch se) ev (se_benchmark se) (se_load se) (se_system se) c
      in (sys, upd_state (\<lambda>s. (reset_session_state (s\<lparr>ss_auto_continue := False,
           ss_prev_was_interrupted := False\<rparr>))\<lparr>ss_checkpoint_stack_offset := 0,
           ss_tool_correction_checkpoint_idx := - 1, ss_rs_checkpoint_saved_this_turn := False,
           ss_last_t_count := 0, ss_last_n_past := co_n_past c, ss_first_turn_done := True,
           ss_log_index := ss_log_index s + 1\<rparr>) c))"

text \<open>
  \<open>/undo\<close> to checkpoint \<open>sel\<close>, from the moment the selection is known: truncate the tracker, restore the
  checkpoint's state and remove the tail of the memory; when that is refused, clear and decode the
  prefix again, and start a fresh session when that is interrupted or fails. \<open>ev\<close> are the events of the
  decoding, \<open>ev'\<close> those of the recovery.
\<close>

datatype undo_result = Undo_Noop | Undo_Fast | Undo_Redecoded | Undo_Reset

definition undo_finish :: "nat \<Rightarrow> 'm core \<Rightarrow> 'm core" where
  "undo_finish sel c =
     (let s = co_state c; n = length (ss_prompt_checkpoints s);
          erased = int (length (filter (\<lambda>i. int i < ss_checkpoint_stack_offset s) [sel + 1..<n]))
      in c\<lparr>co_state := (reset_session_state (s\<lparr>
           ss_prompt_checkpoints := take (sel + 1) (ss_prompt_checkpoints s),
           ss_checkpoint_stack_offset := max 0 (ss_checkpoint_stack_offset s - erased),
           ss_auto_continue := False, ss_prev_was_interrupted := False\<rparr>))\<lparr>
           ss_file_cache := (\<lambda>_. None), ss_last_t_count := 0, ss_last_n_past := co_n_past c,
           ss_first_turn_done := True\<rparr>\<rparr>)"

definition undo_redecode ::
  "'m mem_ops \<Rightarrow> session_env \<Rightarrow> feed_events \<Rightarrow> feed_events \<Rightarrow> nat \<Rightarrow> int \<Rightarrow> 'm core \<Rightarrow> undo_result \<times> 'm core" where
  "undo_redecode ops se ev ev' sel target c =
     (let prefix = tok_resize (tracker c) target;
          c = (upd_state (\<lambda>s. s\<lparr>ss_checkpoint_stack_offset := int (length (ss_prompt_checkpoints s)),
                 ss_tool_correction_checkpoint_idx := - 1, ss_rs_checkpoint_saved_this_turn := False,
                 ss_all_context_tokens := []\<rparr>) c)\<lparr>co_mem := op_clear ops (co_mem c), co_n_past := 0\<rparr>;
          (fed, c) = feed_tokens_impl ops (se_n_batch se) ev prefix c
      in if fed then
           (Undo_Redecoded, undo_finish sel ((upd_state (ss_checkpoint_stack_offset_update (\<lambda>_. int sel)) c)
              \<lparr>co_mem := op_save ops (co_mem c)\<rparr>))
         else (Undo_Reset, snd (clear_session ops se ev' (c\<lparr>co_stop := False\<rparr>))))"

definition undo_to ::
  "'m mem_ops \<Rightarrow> session_env \<Rightarrow> feed_events \<Rightarrow> feed_events \<Rightarrow> nat \<Rightarrow> 'm core \<Rightarrow> undo_result \<times> 'm core" where
  "undo_to ops se ev ev' sel c =
     (let cps = ss_prompt_checkpoints (co_state c); target = cp_n_past (cps ! sel) in
      if sel + 1 = length cps then (Undo_Noop, c)
      else
        let c = drop_text (upd_state (ss_all_context_tokens_update (\<lambda>ts. tok_resize ts target)) c);
            stack_idx = int sel - ss_checkpoint_stack_offset (co_state c);
            m = (if stack_idx \<ge> 0 then op_restore ops (co_mem c) (to_u32 stack_idx) else co_mem c);
            (ok, m) = op_seq_rm ops m target (- 1)
        in if ok then
             (Undo_Fast, undo_finish sel (c\<lparr>co_n_past := target,
                co_mem := (if stack_idx \<ge> 0 then op_prune ops m (to_u32 stack_idx) else m)\<rparr>))
           else undo_redecode ops se ev ev' sel target (c\<lparr>co_mem := m\<rparr>))"

text \<open>
  The cut of benchmark mode 2 when the request drifts from the cached tokens at \<open>match_len\<close>: the stale
  tail is removed, at the drift point or at the newest checkpoint before it, or everything is cleared.
  The result is the position from which the request is decoded.
\<close>

definition drift_cut :: "'m mem_ops \<Rightarrow> int \<Rightarrow> int \<Rightarrow> 'm core \<Rightarrow> int \<times> 'm core" where
  "drift_cut ops match_len full_len c =
     (let s = co_state c; cps = ss_prompt_checkpoints s; offset = ss_checkpoint_stack_offset s;
          (ok0, m0) = op_seq_rm ops (co_mem c) match_len (- 1);
          (ok, cp_idx, cut, m) =
            (if ok0 then (True, - 1, match_len, m0)
             else case find_anchor cps match_len offset of
               None \<Rightarrow> (False, - 1, match_len, m0)
             | Some i \<Rightarrow>
                 (let (ok1, m1) = op_seq_rm ops (op_restore ops m0 (to_u32 (int i - offset)))
                        (cp_n_past (cps ! i)) (- 1)
                  in (ok1, int i, if ok1 then cp_n_past (cps ! i) else match_len, m1)));
          live_top = cp_idx - offset;
          (c, cut) =
            (if ok then
               (if cut \<noteq> match_len then
                  (let prune = live_top < int (length cps) - 1 - offset in
                   c\<lparr>co_mem := (if prune then op_prune ops m (to_u32 live_top) else m), co_n_past := cut,
                     co_state := s\<lparr>ss_checkpoint_stack_offset := (if prune then cp_idx + 1 else offset),
                       ss_tool_correction_checkpoint_idx := - 1, ss_rs_checkpoint_saved_this_turn := False\<rparr>\<rparr>)
                else c\<lparr>co_mem := m, co_n_past := cut\<rparr>, cut)
             else (c\<lparr>co_mem := op_clear ops m, co_n_past := 0,
                     co_state := s\<lparr>ss_checkpoint_stack_offset := int (length cps),
                       ss_tool_correction_checkpoint_idx := - 1, ss_rs_checkpoint_saved_this_turn := False\<rparr>\<rparr>, 0))
      in (cut, upd_state (\<lambda>s. s\<lparr>ss_all_context_tokens := tok_resize (ss_all_context_tokens s) cut,
           ss_prompt_checkpoints := filter (\<lambda>cp. \<not> cp_n_past cp > full_len) (ss_prompt_checkpoints s)\<rparr>) c))"

subsection \<open>The invariant of the bookkeeping\<close>

text \<open>The same session with no slot in use.\<close>

definition forget_slot :: "'m core \<Rightarrow> 'm core" where
  "forget_slot c = upd_state (ss_tool_correction_checkpoint_idx_update (\<lambda>_. - 1)) c"

definition aligned ::
  "('m \<Rightarrow> token list \<Rightarrow> bool) \<Rightarrow> ('m \<Rightarrow> token list option list) \<Rightarrow> ('m \<Rightarrow> bool) \<Rightarrow> 'm core \<Rightarrow> bool" where
  "aligned holds stack recurrent c \<longleftrightarrow>
     (let s = co_state c; cps = ss_prompt_checkpoints s; n = int (length cps);
          off = ss_checkpoint_stack_offset s; idx = ss_tool_correction_checkpoint_idx s;
          saved = ss_rs_checkpoint_saved_this_turn s
      in synced holds c \<and> 0 \<le> off \<and> off \<le> n \<and> n < POS_MAX
         \<and> sorted_wrt (<) (map cp_n_past cps)
         \<and> (\<forall>cp \<in> set cps. 0 < cp_n_past cp \<and> cp_n_past cp \<le> co_n_past c)
         \<and> (recurrent (co_mem c) \<longrightarrow>
              int (length (stack (co_mem c))) = n - off + (if saved then 1 else 0)
              \<and> (\<forall>i < length cps. off \<le> int i \<longrightarrow>
                   stack (co_mem c) ! nat (int i - off) = Some (take (nat (cp_n_past (cps ! i))) (tracker c))))
         \<and> (idx \<ge> 0 \<longrightarrow> idx = n - off) \<and> (saved \<longrightarrow> idx \<ge> 0)
         \<and> (ss_interrupted_checkpoint_idx s \<ge> 0 \<longrightarrow> ss_interrupted_checkpoint_idx s = n - 1))"

text \<open>The slot of the running turn: the state of the rollback target.\<close>

definition slot_valid :: "('m \<Rightarrow> token list option list) \<Rightarrow> ('m \<Rightarrow> bool) \<Rightarrow> 'm core \<Rightarrow> bool" where
  "slot_valid stack recurrent c \<longleftrightarrow>
     (let s = co_state c; idx = ss_tool_correction_checkpoint_idx s; t = ss_tool_correction_n_past s in
      0 < t \<and> t < int (length (tracker c)) \<and> 0 \<le> idx
      \<and> (\<forall>cp \<in> set (ss_prompt_checkpoints s). cp_n_past cp \<le> t)
      \<and> (ss_has_tool_correction_checkpoint s \<longrightarrow> ss_rs_checkpoint_saved_this_turn s)
      \<and> (ss_has_tool_correction_checkpoint s \<and> recurrent (co_mem c) \<longrightarrow>
           nat idx < length (stack (co_mem c)) \<and> stack (co_mem c) ! nat idx = Some (take (nat t) (tracker c))))"

text \<open>The slot right after its opening tag, before the call's first token.\<close>

definition slot_open :: "('m \<Rightarrow> token list option list) \<Rightarrow> ('m \<Rightarrow> bool) \<Rightarrow> 'm core \<Rightarrow> bool" where
  "slot_open stack recurrent c \<longleftrightarrow>
     (let s = co_state c; idx = ss_tool_correction_checkpoint_idx s; t = ss_tool_correction_n_past s in
      0 < t \<and> t \<le> int (length (tracker c)) \<and> 0 \<le> idx
      \<and> (\<forall>cp \<in> set (ss_prompt_checkpoints s). cp_n_past cp \<le> t)
      \<and> (ss_has_tool_correction_checkpoint s \<longrightarrow> ss_rs_checkpoint_saved_this_turn s)
      \<and> (ss_has_tool_correction_checkpoint s \<and> recurrent (co_mem c) \<longrightarrow>
           nat idx < length (stack (co_mem c)) \<and> stack (co_mem c) ! nat idx = Some (take (nat t) (tracker c))))"

lemma slot_valid_open:
  "slot_valid stack recurrent c \<longleftrightarrow>
     slot_open stack recurrent c \<and> ss_tool_correction_n_past (co_state c) < int (length (tracker c))"
  by (auto simp: slot_valid_def slot_open_def Let_def)

text \<open>The context has only grown: the tracker is longer, nothing else of the session state or of the saved
  states has changed, and memory, tracker and position agree.\<close>

definition grown :: "('m \<Rightarrow> token list \<Rightarrow> bool) \<Rightarrow> ('m \<Rightarrow> token list option list) \<Rightarrow> ('m \<Rightarrow> bool)
    \<Rightarrow> 'm core \<Rightarrow> 'm core \<Rightarrow> bool" where
  "grown holds stack recurrent c c' \<longleftrightarrow> synced holds c'
     \<and> (\<exists>us. co_state c' = (co_state c)\<lparr>ss_all_context_tokens := tracker c @ us\<rparr>)
     \<and> stack (co_mem c') = stack (co_mem c) \<and> recurrent (co_mem c') = recurrent (co_mem c)"

lemma to_u32_id: "0 \<le> i \<Longrightarrow> i \<le> POS_MAX \<Longrightarrow> to_u32 i = nat i"
  by (simp add: to_u32_def POS_MAX_def)

lemma tok_resize_take: "0 \<le> n \<Longrightarrow> n \<le> int (length ts) \<Longrightarrow> tok_resize ts n = take (nat n) ts"
  by (simp add: tok_resize_def)

lemma find_anchor_Some:
  assumes "find_anchor cps target off = Some i"
  shows "i < length cps \<and> cp_n_past (cps ! i) \<le> target \<and> off \<le> int i"
proof -
  let ?l = "filter (\<lambda>i. cp_n_past (cps ! i) \<le> target \<and> int i - off \<ge> 0) (rev [0..<length cps])"
  obtain l where "?l = i # l"
    using assms by (auto simp only: find_anchor_def split: list.splits)
  then have "i \<in> set ?l" by (metis list.set_intros(1))
  then show ?thesis by auto
qed

lemma find_anchor_last:
  assumes "cps \<noteq> []" "off < int (length cps)" "\<forall>cp \<in> set cps. cp_n_past cp \<le> target"
  shows "find_anchor cps target off = Some (length cps - 1)"
proof -
  obtain n where n: "length cps = Suc n" using assms(1) by (cases cps) auto
  then have "cp_n_past (cps ! n) \<le> target" using assms(3) by simp
  with n assms(2) show ?thesis by (simp add: find_anchor_def)
qed

context rs_memory
begin

abbreviation al :: "'m core \<Rightarrow> bool" where "al \<equiv> aligned holds stack recurrent"
abbreviation slot :: "'m core \<Rightarrow> bool" where "slot \<equiv> slot_valid stack recurrent"

lemma llama_decode_keeps:
  assumes "llama_decode ops a m p us = (ret, m')"
  shows "stack m' = stack m \<and> recurrent m' = recurrent m"
proof -
  obtain r k where "a = (r, k)" by fastforce
  with assms show ?thesis
    by (auto simp: llama_decode_def Let_def stack_ops recurrent_ops split: if_splits)
qed

lemma feed_loop_keeps:
  "feed_loop ops nb stop ans rest i j b m np = (failed, st, j', b', m', np') \<Longrightarrow>
     stack m' = stack m \<and> recurrent m' = recurrent m"
proof (induction rest arbitrary: i j b m np)
  case (Cons t ts)
  obtain ret m1 where d: "llama_decode ops (ans j) m (np - int (length b)) (b @ [t]) = (ret, m1)" by fastforce
  show ?case
    using Cons.IH Cons.prems llama_decode_keeps [OF d] d by (fastforce split: if_splits)
qed simp

lemma feed_keeps:
  assumes "feed_tokens_impl ops nb ev toks c = (ok, c')"
  shows "stack (co_mem c') = stack (co_mem c) \<and> recurrent (co_mem c') = recurrent (co_mem c)"
proof -
  obtain f0 st j b m0 np0 where l: "feed_loop ops nb (\<lambda>i. co_stop c \<or> fe_stop ev i) (fe_ret ev) toks 0 0 []
      (co_mem c) (co_n_past c) = (f0, st, j, b, m0, np0)"
    by (metis prod_cases6)
  obtain f1 m1 np1 where e: "(if f0 then (True, m0, np0)
      else feed_final ops (fe_ret ev j) b (co_n_past c + int (length toks)) m0 np0) = (f1, m1, np1)"
    by (metis prod_cases3)
  obtain ret m2 where d: "llama_decode ops (fe_ret ev j) m0 (np0 - int (length b)) b = (ret, m2)" by fastforce
  have "m1 = m0 \<or> m1 = m2"
    using e d by (auto simp: feed_final_def Let_def split: if_splits)
  moreover have "co_mem c' = m1"
    using assms l e by (auto simp: feed_tokens_impl_def Let_def split: if_splits)
  ultimately show ?thesis
    using feed_loop_keeps [OF l] llama_decode_keeps [OF d] by auto
qed

abbreviation gr :: "'m core \<Rightarrow> 'm core \<Rightarrow> bool" where "gr \<equiv> grown holds stack recurrent"

lemma grownE:
  assumes "gr c c'"
  obtains us where "tracker c' = tracker c @ us" "co_state c' = (co_state c)\<lparr>ss_all_context_tokens := tracker c @ us\<rparr>"
    "synced holds c'" "stack (co_mem c') = stack (co_mem c)" "recurrent (co_mem c') = recurrent (co_mem c)"
  using assms by (auto simp: grown_def)

lemma grown_trans: "gr c c1 \<Longrightarrow> gr c1 c2 \<Longrightarrow> gr c c2"
  by (auto simp: grown_def)

lemma aligned_grown:
  assumes "al c" "gr c c'"
  shows "al c'"
proof -
  obtain us where us: "tracker c' = tracker c @ us"
    and k: "synced holds c'" "co_state c' = (co_state c)\<lparr>ss_all_context_tokens := tracker c @ us\<rparr>"
      "stack (co_mem c') = stack (co_mem c)" "recurrent (co_mem c') = recurrent (co_mem c)"
    using assms(2) by (rule grownE)
  have s: "synced holds c" using assms(1) by (simp add: aligned_def Let_def)
  have np: "co_n_past c = int (length (tracker c))" "co_n_past c \<le> co_n_past c'"
    using s k(1) us by (auto simp: synced_def)
  have t: "take (nat (cp_n_past cp)) (tracker c') = take (nat (cp_n_past cp)) (tracker c)"
    if "cp \<in> set (ss_prompt_checkpoints (co_state c))" for cp
    using assms(1) that np(1) us by (auto simp: aligned_def Let_def)
  show ?thesis
    using assms(1) k np t by (fastforce simp: aligned_def Let_def us)
qed

lemma slot_open_grown:
  assumes "slot_open stack recurrent c" "gr c c'"
  shows "slot_open stack recurrent c'"
    "length (tracker c) < length (tracker c') \<Longrightarrow> slot c'"
proof -
  obtain us where k: "co_state c' = (co_state c)\<lparr>ss_all_context_tokens := tracker c @ us\<rparr>"
      "stack (co_mem c') = stack (co_mem c)" "recurrent (co_mem c') = recurrent (co_mem c)"
    using assms(2) by (rule grownE)
  show o: "slot_open stack recurrent c'" using assms(1) k by (auto simp: slot_open_def Let_def)
  assume "length (tracker c) < length (tracker c')"
  moreover have "ss_tool_correction_n_past (co_state c') \<le> int (length (tracker c))"
    using assms(1) k(1) by (simp add: slot_open_def Let_def)
  ultimately show "slot c'" using o by (simp add: slot_valid_open)
qed

lemma feed_grown:
  assumes "synced holds c" "int (length (tracker c @ toks)) \<le> POS_MAX"
    and "feed_tokens_impl ops nb ev toks c = (ok, c')"
  shows "gr c c' \<and> (ok \<longrightarrow> tracker c' = tracker c @ toks)"
proof -
  obtain k where "k \<le> length toks" "synced holds c'" "tracker c' = tracker c @ take k toks"
    "co_state c' = (co_state c)\<lparr>ss_all_context_tokens := tracker c @ take k toks\<rparr>"
    "ok \<longleftrightarrow> k = length toks \<and> ok"
    by (rule feed_holds [OF assms])
  then show ?thesis using feed_keeps [OF assms(3)] by (auto simp: grown_def)
qed

lemma feed_slots_grown:
  assumes "synced holds c" "n_ctx \<le> POS_MAX"
    and "feed_tokens_impl ops nb (slot_events n_ctx nb (co_n_past c) (length toks) ev) toks c = (ok, c')"
  shows "gr c c' \<and> (ok \<longrightarrow> tracker c' = tracker c @ toks)"
proof -
  obtain k where "k \<le> length toks" "synced holds c'" "tracker c' = tracker c @ take k toks"
    "co_state c' = (co_state c)\<lparr>ss_all_context_tokens := tracker c @ take k toks\<rparr>"
    "ok \<longleftrightarrow> k = length toks \<and> ok"
    by (rule feed_slots [OF assms])
  then show ?thesis using feed_keeps [OF assms(3)] by (auto simp: grown_def)
qed

lemma aligned_feed:
  assumes "al c" "int (length (tracker c @ toks)) \<le> POS_MAX"
    and "feed_tokens_impl ops nb ev toks c = (ok, c')"
  shows "al c'"
proof -
  have "synced holds c" using assms(1) by (simp add: aligned_def Let_def)
  with feed_grown [OF this assms(2,3)] aligned_grown [OF assms(1)] show ?thesis by blast
qed

end

context rs_memory
begin

lemma alignedD:
  assumes "al c"
  shows "synced holds c" "0 \<le> ss_checkpoint_stack_offset (co_state c)"
    "ss_checkpoint_stack_offset (co_state c) \<le> n_cps c" "n_cps c < POS_MAX"
    "recurrent (co_mem c) \<Longrightarrow> int (length (stack (co_mem c))) = n_cps c - ss_checkpoint_stack_offset (co_state c)
       + (if ss_rs_checkpoint_saved_this_turn (co_state c) then 1 else 0)"
    "i < length (ss_prompt_checkpoints (co_state c)) \<Longrightarrow> ss_checkpoint_stack_offset (co_state c) \<le> int i \<Longrightarrow>
       recurrent (co_mem c) \<Longrightarrow> stack (co_mem c) ! nat (int i - ss_checkpoint_stack_offset (co_state c))
         = Some (take (nat (cp_n_past (ss_prompt_checkpoints (co_state c) ! i))) (tracker c))"
    "cp \<in> set (ss_prompt_checkpoints (co_state c)) \<Longrightarrow> 0 < cp_n_past cp \<and> cp_n_past cp \<le> int (length (tracker c))"
    "sorted_wrt (<) (map cp_n_past (ss_prompt_checkpoints (co_state c)))"
    "co_n_past c = int (length (tracker c))" "holds (co_mem c) (tracker c)"
    "ss_tool_correction_checkpoint_idx (co_state c) \<ge> 0 \<Longrightarrow>
       ss_tool_correction_checkpoint_idx (co_state c) = n_cps c - ss_checkpoint_stack_offset (co_state c)"
    "ss_rs_checkpoint_saved_this_turn (co_state c) \<Longrightarrow> ss_tool_correction_checkpoint_idx (co_state c) \<ge> 0"
    "ss_interrupted_checkpoint_idx (co_state c) \<ge> 0 \<Longrightarrow> ss_interrupted_checkpoint_idx (co_state c) = n_cps c - 1"
  using assms by (auto simp: aligned_def Let_def synced_def)

lemma live_index:
  assumes "al c" "recurrent (co_mem c)" "i < length (ss_prompt_checkpoints (co_state c))"
    "ss_checkpoint_stack_offset (co_state c) \<le> int i"
  shows "nat (int i - ss_checkpoint_stack_offset (co_state c)) < length (stack (co_mem c))"
  using alignedD(5) [OF assms(1,2)] assms(3,4) by (auto split: if_splits)

lemma aligned_tool_start:
  assumes "al c" "tracker c \<noteq> []"
  shows "al (on_tool_start ops lockstep c)"
proof -
  note D = alignedD [OF assms(1)]
  let ?s = "co_state c" and ?st = "stack (co_mem c)"
  let ?off = "ss_checkpoint_stack_offset ?s" and ?saved = "ss_rs_checkpoint_saved_this_turn ?s"
  define idx where "idx = n_cps c - ?off"
  have i: "(if ss_tool_correction_checkpoint_idx ?s < 0 then n_cps c - ?off
      else ss_tool_correction_checkpoint_idx ?s) = idx" "0 \<le> idx" "to_u32 idx = nat idx"
    using D(2-4,11) by (auto simp: idx_def to_u32_id)
  define m where "m = (if lockstep then (if ?saved then op_overwrite ops (co_mem c) (to_u32 idx)
      else op_save ops (co_mem c)) else co_mem c)"
  have m: "holds m (tracker c)" "recurrent m = recurrent (co_mem c)"
    using D(10) by (auto simp: m_def save overwrite recurrent_ops)
  have st: "int (length (stack m)) = idx + (if ?saved \<or> lockstep then 1 else 0)
      \<and> (\<forall>k < nat idx. stack m ! k = ?st ! k)" if r: "recurrent (co_mem c)"
  proof -
    have l: "int (length ?st) = idx + (if ?saved then 1 else 0)" using D(5) [OF r] by (simp add: idx_def)
    have "nat idx < length ?st" if ?saved using l that i(2) by simp
    then have e: "m = (if lockstep then m else co_mem c)"
      "lockstep \<Longrightarrow> ?saved \<Longrightarrow> stack m = ?st[nat idx := Some (tracker c)]"
      "lockstep \<Longrightarrow> \<not> ?saved \<Longrightarrow> stack m = ?st @ [Some (tracker c)]"
      using overwrite(2) [OF D(10) r assms(2)] save(2) [OF D(10) r assms(2)] i(3)
      by (auto simp: m_def)
    show ?thesis
    proof (cases lockstep)
      case True
      with e l i(2) show ?thesis by (cases ?saved) (auto simp: nth_append)
    next
      case False
      with l show ?thesis by (simp add: m_def)
    qed
  qed
  have live: "stack m ! nat (int k - ?off) = Some (take (nat (cp_n_past (ss_prompt_checkpoints ?s ! k))) (tracker c))"
    if "recurrent (co_mem c)" "k < length (ss_prompt_checkpoints ?s)" "?off \<le> int k" for k
    using st [OF that(1)] D(6) [OF that(2,3,1)] that(2,3) by (simp add: idx_def)
  have r: "on_tool_start ops lockstep c = c\<lparr>co_mem := m, co_state := ?s\<lparr>ss_tool_correction_checkpoint_idx := idx,
           ss_rs_checkpoint_saved_this_turn := ?saved \<or> lockstep,
           ss_has_tool_correction_checkpoint := lockstep, ss_tool_correction_n_past := co_n_past c\<rparr>\<rparr>"
    by (simp add: on_tool_start_def Let_def i(1) m_def)
  show ?thesis
    unfolding r using D st m live i(2) by (auto simp: aligned_def Let_def synced_def idx_def)
qed

lemma slot_open_start:
  assumes "al c" "tracker c \<noteq> []"
  shows "slot_open stack recurrent (on_tool_start ops True c)"
    "ss_tool_correction_n_past (co_state (on_tool_start ops True c)) = int (length (tracker c))"
proof -
  note D = alignedD [OF assms(1)]
  let ?c = "on_tool_start ops True c"
  let ?idx = "ss_tool_correction_checkpoint_idx (co_state ?c)"
  have idx: "0 \<le> ?idx" "?idx = n_cps c - ss_checkpoint_stack_offset (co_state c)" "to_u32 ?idx = nat ?idx"
    using D(2-4,11) by (auto simp: on_tool_start_def Let_def to_u32_id)
  have "nat ?idx < length (stack (co_mem ?c)) \<and> stack (co_mem ?c) ! nat ?idx = Some (tracker c)"
    if r: "recurrent (co_mem c)"
  proof (cases "ss_rs_checkpoint_saved_this_turn (co_state c)")
    case True
    then have l: "nat ?idx < length (stack (co_mem c))" using D(5) [OF r] idx(1,2) by simp
    have "co_mem ?c = op_overwrite ops (co_mem c) (nat ?idx)"
      using True idx(3) by (auto simp: on_tool_start_def Let_def)
    with l overwrite(2) [OF D(10) r assms(2) l] show ?thesis by simp
  next
    case False
    have "nat ?idx = length (stack (co_mem c))" using False D(5) [OF r] idx(1,2) by simp
    moreover have "co_mem ?c = op_save ops (co_mem c)"
      using False by (simp add: on_tool_start_def Let_def)
    ultimately show ?thesis using save(2) [OF D(10) r assms(2)] by simp
  qed
  moreover have "recurrent (co_mem ?c) = recurrent (co_mem c)"
    by (simp add: on_tool_start_def Let_def recurrent_ops)
  moreover show t: "ss_tool_correction_n_past (co_state ?c) = int (length (tracker c))"
    using D(9) by (simp add: on_tool_start_def Let_def)
  moreover have "ss_prompt_checkpoints (co_state ?c) = ss_prompt_checkpoints (co_state c)"
    "ss_rs_checkpoint_saved_this_turn (co_state ?c)" "tracker ?c = tracker c"
    by (simp_all add: on_tool_start_def Let_def)
  ultimately show "slot_open stack recurrent ?c"
    using idx(1) assms(2) D(7) by (auto simp: slot_open_def Let_def)
qed

lemma slot_tool_start:
  assumes "al c" "tracker c \<noteq> []"
    and "toks \<noteq> []" "feed_tokens_impl ops nb ev toks (on_tool_start ops True c) = (True, c')"
    and "int (length (tracker c @ toks)) \<le> POS_MAX"
  shows "slot c' \<and> ss_tool_correction_n_past (co_state c') = int (length (tracker c))"
proof -
  let ?c = "on_tool_start ops True c"
  have s: "synced holds ?c" by (rule alignedD(1) [OF aligned_tool_start [OF assms(1,2)]])
  have t: "tracker ?c = tracker c" by (simp add: on_tool_start_def Let_def)
  have g: "gr ?c c'" "tracker c' = tracker c @ toks"
    using feed_grown [OF s _ assms(4)] assms(5) t by simp_all
  have "slot c'"
    using slot_open_grown(2) [OF slot_open_start(1) [OF assms(1,2)] g(1)] g(2) t assms(3) by simp
  moreover have "ss_tool_correction_n_past (co_state c') = ss_tool_correction_n_past (co_state ?c)"
    using g(1) by (auto simp: grown_def)
  ultimately show ?thesis using slot_open_start(2) [OF assms(1,2)] by simp
qed

end

lemma sorted_snoc: "sorted_wrt (<) xs \<Longrightarrow> (\<forall>x \<in> set xs. x < (y::int)) \<Longrightarrow> sorted_wrt (<) (xs @ [y])"
  by (simp add: sorted_wrt_append)

lemma sorted_wrt_last_up:
  assumes "sorted_wrt (<) (xs :: int list)" "xs \<noteq> []" "last xs \<le> y"
  shows "sorted_wrt (<) (xs[length xs - 1 := y])"
proof -
  obtain zs z where xs: "xs = zs @ [z]" using assms(2) by (metis rev_exhaust)
  with assms show ?thesis by (fastforce simp: sorted_wrt_append list_update_append)
qed

lemma set_update_last:
  "xs \<noteq> [] \<Longrightarrow> x \<in> set (xs[length xs - 1 := y]) \<Longrightarrow> x \<in> set xs \<or> x = y"
  by (meson set_update_subset_insert insertE subsetD)

context rs_memory
begin

lemma aligned_push:
  assumes "al c" "tracker c \<noteq> []" "last_input \<noteq> []" "n_cps c + 1 < POS_MAX"
    and "\<forall>cp \<in> set (ss_prompt_checkpoints (co_state c)). cp_n_past cp < co_n_past c"
    and "ss_interrupted_checkpoint_idx (co_state c) < 0"
  shows "al (snd (prompt_return ops interrupted ctx_limit last_input c))"
proof -
  note D = alignedD [OF assms(1)]
  let ?s = "co_state c" and ?st = "stack (co_mem c)"
  let ?off = "ss_checkpoint_stack_offset ?s" and ?saved = "ss_rs_checkpoint_saved_this_turn ?s"
  let ?idx = "ss_tool_correction_checkpoint_idx ?s" and ?cps = "ss_prompt_checkpoints ?s"
  define m where "m = (if ?idx \<ge> 0 \<and> ?saved then op_overwrite ops (co_mem c) (to_u32 ?idx)
      else op_save ops (co_mem c))"
  have m: "holds m (tracker c)" "recurrent m = recurrent (co_mem c)"
    using D(10) by (auto simp: m_def save overwrite recurrent_ops)
  define idx where "idx = n_cps c - ?off"
  have st: "length (stack m) = Suc (nat idx) \<and> stack m ! nat idx = Some (tracker c)
      \<and> (\<forall>k < nat idx. stack m ! k = ?st ! k)" if r: "recurrent (co_mem c)"
  proof (cases ?saved)
    case True
    then have i: "?idx = idx" "0 \<le> ?idx" "to_u32 ?idx = nat idx"
      using D(2-4,11,12) by (auto simp: idx_def to_u32_id)
    then have l: "length ?st = Suc (nat idx)" using D(5) [OF r] True by (simp add: idx_def)
    then have "stack m = ?st[nat idx := Some (tracker c)]"
      using overwrite(2) [OF D(10) r assms(2), of "nat idx"] i True by (simp add: m_def)
    with l show ?thesis by simp
  next
    case False
    then have l: "length ?st = nat idx" using D(5) [OF r] by (simp add: idx_def)
    then have "stack m = ?st @ [Some (tracker c)]"
      using save(2) [OF D(10) r assms(2)] False by (simp add: m_def)
    with l show ?thesis by (simp add: nth_append)
  qed
  have live: "stack m ! nat (int k - ?off) = Some (take (nat (cp_n_past ((?cps @ [cp]) ! k))) (tracker c))"
    if "recurrent (co_mem c)" "k < Suc (length ?cps)" "?off \<le> int k" "cp_n_past cp = co_n_past c" for k cp
    using st [OF that(1)] D(6) [OF _ that(3,1)] that(2,3,4) D(9)
    by (cases "k = length ?cps") (auto simp: idx_def nth_append)
  have sv: "\<not> ?saved \<or> ?idx \<ge> 0" using D(12) by blast
  define cp where "cp = \<lparr>cp_n_past = co_n_past c,
    cp_prompt = (if interrupted \<and> ctx_limit then ctx_limit_label else last_input)\<rparr>"
  define s1 where "s1 = ?s\<lparr>ss_prompt_checkpoints := ?cps @ [cp],
    ss_tool_correction_checkpoint_idx := (if ?idx \<ge> 0 then - 1 else ?idx),
    ss_rs_checkpoint_saved_this_turn := (if ?idx \<ge> 0 then False else ?saved)\<rparr>"
  define s2 where "s2 = (if interrupted \<and> ctx_limit
    then s1\<lparr>ss_prev_was_interrupted := False, ss_auto_continue := True\<rparr>
    else if interrupted then s1\<lparr>ss_interrupted_checkpoint_idx := int (length ?cps)\<rparr> else s1)"
  have r: "snd (prompt_return ops interrupted ctx_limit last_input c) = c\<lparr>co_mem := m, co_state := s2\<rparr>"
    using assms(3) by (simp add: prompt_return_def Let_def m_def s1_def s2_def cp_def)
  have s2: "ss_prompt_checkpoints s2 = ?cps @ [cp]" "ss_checkpoint_stack_offset s2 = ?off"
    "ss_all_context_tokens s2 = tracker c" "\<not> ss_rs_checkpoint_saved_this_turn s2"
    "ss_tool_correction_checkpoint_idx s2 < 0"
    "ss_interrupted_checkpoint_idx s2 \<ge> 0 \<Longrightarrow> ss_interrupted_checkpoint_idx s2 = int (length ?cps)"
    using D(12) assms(6) by (auto simp: s2_def s1_def split: if_splits)
  have sorted: "sorted_wrt (<) (map cp_n_past (?cps @ [cp]))"
    using D(8) assms(5) by (auto simp: cp_def intro!: sorted_snoc)
  have np: "0 < co_n_past c" "cp_n_past cp = co_n_past c" using D(9) assms(2) by (simp_all add: cp_def)
  have bounds: "\<forall>x \<in> set (?cps @ [cp]). 0 < cp_n_past x \<and> cp_n_past x \<le> co_n_past c"
    using D(7,9) np by auto
  have len: "int (length (stack m)) = n_cps c + 1 - ?off" if "recurrent (co_mem c)"
    using st [OF that] D(3) by (simp add: idx_def)
  have live': "\<forall>k < length (?cps @ [cp]). ?off \<le> int k \<longrightarrow> stack m ! nat (int k - ?off)
      = Some (take (nat (cp_n_past ((?cps @ [cp]) ! k))) (tracker c))" if "recurrent (co_mem c)"
    using live [OF that] np(2) by simp
  show ?thesis
    unfolding r aligned_def Let_def
    using D(1-4) m len live' s2 sorted bounds assms(4) by (simp add: synced_def)
qed

lemma aligned_move:
  assumes "al c"
  shows "al (snd (prompt_return ops interrupted ctx_limit [] c))"
proof (cases "ss_interrupted_checkpoint_idx (co_state c) \<ge> 0 \<and> \<not> interrupted
    \<and> ss_interrupted_checkpoint_idx (co_state c) < n_cps c")
  case False
  then have "prompt_return ops interrupted ctx_limit [] c = ([], c)"
    by (auto simp: prompt_return_def Let_def)
  with assms show ?thesis by simp
next
  case True
  note D = alignedD [OF assms]
  let ?s = "co_state c" and ?st = "stack (co_mem c)"
  let ?off = "ss_checkpoint_stack_offset ?s" and ?cps = "ss_prompt_checkpoints ?s"
  define i where "i = length ?cps - 1"
  have ne: "?cps \<noteq> []" using True by auto
  then have "n_cps c = int i + 1" by (cases ?cps) (simp_all add: i_def)
  then have i: "ss_interrupted_checkpoint_idx ?s = int i" "i < length ?cps" "n_cps c = int i + 1"
    using D(13) True by auto
  define m where "m = (if ?off \<le> int i then op_overwrite ops (co_mem c) (to_u32 (int i - ?off)) else co_mem c)"
  let ?cp = "(?cps ! i)\<lparr>cp_n_past := co_n_past c\<rparr>"
  have "co_n_past c > 0" using D(7) [of "?cps ! i"] D(9) i(2) by force
  then have tr: "tracker c \<noteq> []" using D(9) by auto
  have u: "?off \<le> int i \<Longrightarrow> to_u32 (int i - ?off) = nat (int i - ?off)"
    using D(2,4) i(3) by (intro to_u32_id) auto
  have m: "holds m (tracker c)" "recurrent m = recurrent (co_mem c)"
    using D(10) by (auto simp: m_def overwrite recurrent_ops)
  have st: "stack m = (if ?off \<le> int i then ?st[nat (int i - ?off) := Some (tracker c)] else ?st)"
    if r: "recurrent (co_mem c)"
  proof -
    have "?off \<le> int i \<Longrightarrow> nat (int i - ?off) < length ?st" using D(5) [OF r] i(3) by (auto split: if_splits)
    then show ?thesis using overwrite(2) [OF D(10) r tr] u by (simp add: m_def)
  qed
  have live: "stack m ! nat (int k - ?off) = Some (take (nat (cp_n_past (?cps[i := ?cp] ! k))) (tracker c))"
    if "recurrent (co_mem c)" "k < length ?cps" "?off \<le> int k" for k
  proof (cases "k = i")
    case True
    have "nat (int i - ?off) < length ?st" using D(5) [OF that(1)] i(3) that(3) True by (auto split: if_splits)
    with True that(3) i(2) st [OF that(1)] D(9) show ?thesis by simp
  next
    case False
    then have "nat (int k - ?off) \<noteq> nat (int i - ?off) \<or> \<not> ?off \<le> int i" using that(3) by auto
    then show ?thesis using st [OF that(1)] D(6) [OF that(2,3,1)] False by auto
  qed
  have r: "snd (prompt_return ops interrupted ctx_limit [] c) = c\<lparr>co_mem := m,
      co_state := ?s\<lparr>ss_prompt_checkpoints := ?cps[i := ?cp], ss_interrupted_checkpoint_idx := - 1\<rparr>\<rparr>"
    using True i by (auto simp: prompt_return_def Let_def m_def)
  have "map cp_n_past (?cps[i := ?cp]) = (map cp_n_past ?cps)[length (map cp_n_past ?cps) - 1 := co_n_past c]"
    by (simp add: map_update i_def)
  moreover have "last (map cp_n_past ?cps) \<le> co_n_past c"
    using D(7) [of "last ?cps"] D(9) ne by (simp add: last_map)
  ultimately have sorted: "sorted_wrt (<) (map cp_n_past (?cps[i := ?cp]))"
    using sorted_wrt_last_up [OF D(8)] ne by simp
  have bounds: "0 < cp_n_past cp \<and> cp_n_past cp \<le> co_n_past c" if "cp \<in> set (?cps[i := ?cp])" for cp
    using set_update_last [OF ne that [unfolded i_def]] D(7) D(9) \<open>co_n_past c > 0\<close> by (auto simp: i_def)
  show ?thesis
    unfolding r using D(1-5,11,12) st m live sorted bounds by (auto simp: aligned_def Let_def synced_def)
qed

end

context rs_memory
begin

lemma aligned_truncate:
  assumes "al c" "holds m (take p (tracker c))" "stack m = stack (co_mem c)" "recurrent m = recurrent (co_mem c)"
    and "p \<le> length (tracker c)" "\<forall>cp \<in> set (ss_prompt_checkpoints (co_state c)). cp_n_past cp \<le> int p"
  shows "al (truncate_to (int p) (c\<lparr>co_mem := m\<rparr>))"
proof -
  note D = alignedD [OF assms(1)]
  have t: "take (nat (cp_n_past (ss_prompt_checkpoints (co_state c) ! k))) (take p (tracker c))
      = take (nat (cp_n_past (ss_prompt_checkpoints (co_state c) ! k))) (tracker c)"
    if "k < length (ss_prompt_checkpoints (co_state c))" for k
    using assms(6) nth_mem [OF that] by (force simp: min_def)
  have r: "tok_resize (tracker c) (int p) = take p (tracker c)"
    using assms(5) by (simp add: tok_resize_take)
  show ?thesis
    unfolding aligned_def Let_def truncate_to_def
    using D assms t by (simp add: synced_def r min_def)
qed

lemma truncate_fields [simp]:
  "co_state (truncate_to n c) = (co_state c)\<lparr>ss_all_context_tokens := tok_resize (tracker c) n\<rparr>"
  "co_mem (truncate_to n c) = co_mem c" "co_n_past (truncate_to n c) = n"
  by (simp_all add: truncate_to_def)

lemma aligned_flags:
  assumes "al c" "co_mem c' = co_mem c" "co_n_past c' = co_n_past c"
    and "ss_prompt_checkpoints (co_state c') = ss_prompt_checkpoints (co_state c)"
    and "ss_checkpoint_stack_offset (co_state c') = ss_checkpoint_stack_offset (co_state c)"
    and "ss_tool_correction_checkpoint_idx (co_state c') = ss_tool_correction_checkpoint_idx (co_state c)"
    and "ss_rs_checkpoint_saved_this_turn (co_state c') = ss_rs_checkpoint_saved_this_turn (co_state c)"
    and "ss_interrupted_checkpoint_idx (co_state c') \<in> {- 1, ss_interrupted_checkpoint_idx (co_state c)}"
    and "tracker c' = tracker c"
  shows "al c'"
  unfolding aligned_def Let_def using alignedD [OF assms(1)] assms(2-9) by (auto simp: synced_def)

lemma redecode_ok:
  assumes "al c" "slot c" "int (length (tracker c)) \<le> POS_MAX"
    and "redecode_suffix ops nb ev ej c = (rc, c')"
  shows "al c' \<and> rc \<in> {- 1, 2} \<and> (rc = 2 \<longrightarrow>
    tracker c' = take (nat (ss_tool_correction_n_past (co_state c))) (tracker c)
    \<and> ss_conversation_text (co_state c') = [])"
proof (cases "find_anchor (ss_prompt_checkpoints (co_state c)) (ss_tool_correction_n_past (co_state c))
    (ss_checkpoint_stack_offset (co_state c))")
  case None
  with assms(4) have "rc = - 1" "c' = c \<or> c' = upd_state (ss_auto_continue_update (\<lambda>_. False)) c"
    by (auto simp: redecode_suffix_def Let_def eject_def split: if_splits)
  then show ?thesis using aligned_flags [OF assms(1), of c'] assms(1) by auto
next
  case (Some i)
  note D = alignedD [OF assms(1)]
  let ?s = "co_state c"
  let ?off = "ss_checkpoint_stack_offset ?s" and ?cps = "ss_prompt_checkpoints ?s"
  define t where "t = nat (ss_tool_correction_n_past ?s)"
  have sl: "0 < t" "t < length (tracker c)" "ss_tool_correction_n_past ?s = int t"
    "\<forall>cp \<in> set ?cps. cp_n_past cp \<le> int t"
    using assms(2) by (auto simp: slot_valid_def Let_def t_def)
  have i: "i < length ?cps" "?off \<le> int i" using find_anchor_Some [OF Some] by auto
  then have "find_anchor ?cps (int t) ?off = Some (length ?cps - 1)"
    using sl(4) by (intro find_anchor_last) auto
  with Some sl(3) have il: "i = length ?cps - 1" by simp
  define p where "p = nat (cp_n_past (?cps ! i))"
  have p: "cp_n_past (?cps ! i) = int p" "0 < p" "p \<le> t"
    using D(7) [OF nth_mem [OF i(1)]] sl(4) nth_mem [OF i(1)] by (auto simp: p_def)
  have before: "\<forall>cp \<in> set ?cps. cp_n_past cp \<le> int p"
  proof
    fix cp assume "cp \<in> set ?cps"
    then obtain k where k: "k < length ?cps" "cp = ?cps ! k" by (auto simp: in_set_conv_nth)
    show "cp_n_past cp \<le> int p"
    proof (cases "k = i")
      case False
      then have "k < i" using k(1) il by simp
      then have "cp_n_past (?cps ! k) < cp_n_past (?cps ! i)"
        using sorted_wrt_nth_less [OF D(8), of k i] i(1) by simp
      with k(2) p(1) show ?thesis by simp
    qed (use k(2) p(1) in simp)
  qed
  have u: "to_u32 (int i - ?off) = nat (int i - ?off)"
    using D(2,4) i by (intro to_u32_id) auto
  have rs: "nat (int i - ?off) < length (stack (co_mem c)) \<and>
      stack (co_mem c) ! nat (int i - ?off) = Some (take p (tracker c))" if r: "recurrent (co_mem c)"
    using live_index [OF assms(1) r i] D(6) [OF i r] p(1) by simp
  have pl: "p < length (tracker c)" using p(3) sl(2) by simp
  obtain m where m: "op_seq_rm ops (op_restore ops (co_mem c) (nat (int i - ?off))) (int p) (- 1) = (True, m)"
    "holds m (take p (tracker c))" "stack m = stack (op_restore ops (co_mem c) (nat (int i - ?off)))"
    "recurrent m = recurrent (co_mem c)"
    by (rule restore_truncates [OF D(10) rs p(2) pl]) auto
  let ?c = "truncate_to (int p) (c\<lparr>co_mem := m\<rparr>)"
  let ?suffix = "drop p (take t (tracker c))"
  have A: "al ?c"
    using aligned_truncate [OF assms(1) m(2) _ m(4) _ before] m(3) pl by (simp add: stack_ops(3))
  obtain ok c1 where f: "feed_tokens_impl ops nb ev ?suffix ?c = (ok, c1)" by fastforce
  have tc: "tracker ?c = take p (tracker c)" using pl by (simp add: tok_resize_take)
  have b: "int (length (tracker ?c @ ?suffix)) \<le> POS_MAX"
    unfolding tc using assms(3) sl(2) p(3) by simp
  note A1 = aligned_feed [OF A b f]
  obtain k where k: "k \<le> length ?suffix" "tracker c1 = tracker ?c @ take k ?suffix"
    "ok \<longleftrightarrow> k = length ?suffix \<and> ok"
    by (rule feed_holds [OF alignedD(1) [OF A] b f])
  have full: "ok \<Longrightarrow> tracker c1 = take t (tracker c)"
  proof -
    assume ok
    then have "tracker c1 = take p (take t (tracker c)) @ drop p (take t (tracker c))"
      using k tc p(3) by (simp add: min_def)
    then show ?thesis by (simp only: append_take_drop_id)
  qed
  have e: "redecode_suffix ops nb ev ej c = (if ok then (2, drop_text c1) else eject ej c1)"
    using Some m(1) f sl(1-3) p(1)
    by (simp add: redecode_suffix_def Let_def u tok_resize_take)
  show ?thesis
  proof (cases ok)
    case True
    with e assms(4) have "rc = 2" "c' = drop_text c1" by auto
    with A1 full True show ?thesis by (auto simp: t_def intro: aligned_flags [OF A1])
  next
    case False
    with e assms(4) have "rc = - 1" "c' = c1 \<or> c' = upd_state (ss_auto_continue_update (\<lambda>_. False)) c1"
      by (auto simp: eject_def)
    then show ?thesis using A1 aligned_flags [OF A1, of c'] by auto
  qed
qed

end

context rs_memory
begin

lemma rollback_ok:
  assumes "al c" "slot c" "int (length (tracker c)) \<le> POS_MAX"
    and "rollback_to_tool_checkpoint ops nb ev ej c = (rc, c')"
  shows "al c' \<and> (ss_has_tool_correction_checkpoint (co_state c) \<longrightarrow> rc = 0) \<and> rc \<in> {- 1, 0, 2}
    \<and> (rc \<noteq> - 1 \<longrightarrow> tracker c' = take (nat (ss_tool_correction_n_past (co_state c))) (tracker c)
        \<and> ss_conversation_text (co_state c') = [])"
proof (cases "ss_has_tool_correction_checkpoint (co_state c)")
  case False
  moreover have "\<not> int (length (tracker c)) < ss_tool_correction_n_past (co_state c)"
    using assms(2) by (simp add: slot_valid_def Let_def)
  ultimately have "redecode_suffix ops nb ev ej c = (rc, c')"
    using assms(4) by (simp add: rollback_to_tool_checkpoint_def Let_def)
  from redecode_ok [OF assms(1-3) this] False show ?thesis by auto
next
  case True
  note D = alignedD [OF assms(1)]
  let ?s = "co_state c"
  define t where "t = nat (ss_tool_correction_n_past ?s)"
  define idx where "idx = nat (ss_tool_correction_checkpoint_idx ?s)"
  have sl: "0 < t" "t < length (tracker c)" "ss_tool_correction_n_past ?s = int t"
    "ss_tool_correction_checkpoint_idx ?s = int idx" "ss_rs_checkpoint_saved_this_turn ?s"
    "\<forall>cp \<in> set (ss_prompt_checkpoints ?s). cp_n_past cp \<le> int t"
    "recurrent (co_mem c) \<Longrightarrow> idx < length (stack (co_mem c)) \<and> stack (co_mem c) ! idx = Some (take t (tracker c))"
    using assms(2) True by (auto simp: slot_valid_def Let_def t_def idx_def)
  have u: "to_u32 (int idx) = idx"
    using D(2,4,11) sl(4) by (subst to_u32_id) auto
  let ?m1 = "op_prune ops (op_restore ops (co_mem c) idx) idx"
  obtain m where m: "op_seq_rm ops ?m1 (int t) (- 1) = (True, m)" "holds m (take t (tracker c))"
    "stack m = stack ?m1" "recurrent m = recurrent (co_mem c)"
    by (rule restore_truncates [OF D(10) sl(7,1,2), where ?m1.0 = ?m1]) auto
  have st: "stack m = stack (co_mem c)"
  proof (cases "recurrent (co_mem c)")
    case True
    have "length (stack (co_mem c)) = Suc idx"
      using D(5) [OF True] D(11) sl(4,5) by auto
    then show ?thesis
      using m(3) prune(2) [of idx "op_restore ops (co_mem c) idx"] by (simp add: stack_ops(3))
  next
    case False
    then show ?thesis using m(4) no_stack(1) by metis
  qed
  have A: "al (truncate_to (int t) (c\<lparr>co_mem := m\<rparr>))"
    using aligned_truncate [OF assms(1) m(2) st m(4) _ sl(6)] sl(2) by simp
  have "rollback_to_tool_checkpoint ops nb ev ej c = (0, drop_text (truncate_to (int t) (c\<lparr>co_mem := m\<rparr>)))"
    using True sl(2,3,4) m(1) by (simp add: rollback_to_tool_checkpoint_def Let_def u)
  with assms(4) have e: "rc = 0" "c' = drop_text (truncate_to (int t) (c\<lparr>co_mem := m\<rparr>))" by auto
  have "al c'" unfolding e(2) by (rule aligned_flags [OF A]) auto
  with e sl(2) show ?thesis by (simp add: t_def [symmetric] tok_resize_take)
qed

end

context rs_memory
begin

lemma erased_count:
  "off \<le> int n \<Longrightarrow> int (length (filter (\<lambda>i. int i < off) [sel + 1..<n])) = max 0 (off - int sel - 1)"
proof -
  assume "off \<le> int n"
  moreover have "length (filter (\<lambda>i. int i < off) [a..<b]) = nat (min (int b) off) - a" for a b
  proof (induction b)
    case (Suc b)
    then show ?case by (cases "a \<le> b") (auto simp: nat_add_distrib min_def)
  qed simp
  ultimately show ?thesis by (simp add: min_def)
qed

lemma undo_finish_fields [simp]:
  "co_mem (undo_finish sel c) = co_mem c" "co_n_past (undo_finish sel c) = co_n_past c"
  "tracker (undo_finish sel c) = tracker c"
  "ss_prompt_checkpoints (co_state (undo_finish sel c)) = take (sel + 1) (ss_prompt_checkpoints (co_state c))"
  by (simp_all add: undo_finish_def Let_def reset_session_state_def)

lemma undo_finish_idx [simp]:
  "ss_tool_correction_checkpoint_idx (co_state (undo_finish sel c)) = ss_tool_correction_checkpoint_idx (co_state c)"
  by (simp add: undo_finish_def Let_def reset_session_state_def)

lemma forget_slot_keeps [simp]:
  "co_mem (forget_slot c) = co_mem c" "tracker (forget_slot c) = tracker c" "co_n_past (forget_slot c) = co_n_past c"
  "ss_prompt_checkpoints (co_state (forget_slot c)) = ss_prompt_checkpoints (co_state c)"
  "ss_checkpoint_stack_offset (co_state (forget_slot c)) = ss_checkpoint_stack_offset (co_state c)"
  "ss_tool_correction_checkpoint_idx (co_state (forget_slot c)) = - 1"
  by (simp_all add: forget_slot_def)

lemma forget_undo_finish: "forget_slot (undo_finish sel c) = undo_finish sel (forget_slot c)"
  by (simp add: forget_slot_def undo_finish_def reset_session_state_def Let_def)

lemma aligned_forget_slot: "ss_tool_correction_checkpoint_idx (co_state c) < 0 \<Longrightarrow> al (forget_slot c) = al c"
  by (auto simp: forget_slot_def aligned_def Let_def synced_def)

text \<open>The bookkeeping of \<open>undo_finish\<close>, given a memory whose stack has been cut to the selected checkpoint.\<close>

lemma aligned_undo_finish:
  assumes "synced holds c" "sel + 1 < length (ss_prompt_checkpoints (co_state c))"
    and "0 \<le> ss_checkpoint_stack_offset (co_state c)" "ss_checkpoint_stack_offset (co_state c) \<le> n_cps c"
    and "n_cps c < POS_MAX" "sorted_wrt (<) (map cp_n_past (ss_prompt_checkpoints (co_state c)))"
    and "\<forall>cp \<in> set (take (sel + 1) (ss_prompt_checkpoints (co_state c))). 0 < cp_n_past cp \<and> cp_n_past cp \<le> co_n_past c"
    and "recurrent (co_mem c) \<Longrightarrow> ss_checkpoint_stack_offset (co_state c) \<le> int sel
      \<and> length (stack (co_mem c)) = Suc (sel - nat (ss_checkpoint_stack_offset (co_state c)))
      \<and> (\<forall>i \<le> sel. ss_checkpoint_stack_offset (co_state c) \<le> int i \<longrightarrow>
           stack (co_mem c) ! nat (int i - ss_checkpoint_stack_offset (co_state c))
             = Some (take (nat (cp_n_past (ss_prompt_checkpoints (co_state c) ! i))) (tracker c)))"
    and "ss_tool_correction_checkpoint_idx (co_state c) < 0"
  shows "al (undo_finish sel c)"
proof -
  let ?off = "ss_checkpoint_stack_offset (co_state c)"
  let ?off' = "max 0 (?off - max 0 (?off - int sel - 1))"
  have s: "co_state (undo_finish sel c) = (reset_session_state ((co_state c)\<lparr>
           ss_prompt_checkpoints := take (sel + 1) (ss_prompt_checkpoints (co_state c)),
           ss_checkpoint_stack_offset := ?off',
           ss_auto_continue := False, ss_prev_was_interrupted := False\<rparr>))\<lparr>
           ss_file_cache := (\<lambda>_. None), ss_last_t_count := 0, ss_last_n_past := co_n_past c,
           ss_first_turn_done := True\<rparr>"
    using erased_count [OF assms(4), of sel] by (simp add: undo_finish_def Let_def)
  have off: "0 \<le> ?off'" "?off' \<le> int sel + 1" "?off \<le> int sel \<Longrightarrow> ?off' = ?off"
    using assms(3) by auto
  have len: "int (length (take (sel + 1) (ss_prompt_checkpoints (co_state c)))) = int sel + 1"
    using assms(2) by simp
  have sorted: "sorted_wrt (<) (map cp_n_past (take (sel + 1) (ss_prompt_checkpoints (co_state c))))"
    using sorted_wrt_take [OF assms(6), of "sel + 1"] by (simp add: take_map)
  have rec: "int (length (stack (co_mem c))) = int sel + 1 - ?off' \<and> ?off' = ?off" if "recurrent (co_mem c)"
    using assms(3,8) that by (auto simp: of_nat_diff)
  have live: "stack (co_mem c) ! nat (int i - ?off')
      = Some (take (nat (cp_n_past (take (sel + 1) (ss_prompt_checkpoints (co_state c)) ! i))) (tracker c))"
    if "recurrent (co_mem c)" "i < sel + 1" "?off' \<le> int i" for i
    using assms(8) rec that by auto
  show ?thesis
    unfolding aligned_def Let_def s
    using assms(1,2,5,7,9) off(1,2) sorted rec live len by (simp add: synced_def reset_session_state_def)
qed

lemma aligned_finish_forget:
  assumes "synced holds c" "sel + 1 < length (ss_prompt_checkpoints (co_state c))"
    and "0 \<le> ss_checkpoint_stack_offset (co_state c)" "ss_checkpoint_stack_offset (co_state c) \<le> n_cps c"
    and "n_cps c < POS_MAX" "sorted_wrt (<) (map cp_n_past (ss_prompt_checkpoints (co_state c)))"
    and "\<forall>cp \<in> set (take (sel + 1) (ss_prompt_checkpoints (co_state c))). 0 < cp_n_past cp \<and> cp_n_past cp \<le> co_n_past c"
    and "recurrent (co_mem c) \<Longrightarrow> ss_checkpoint_stack_offset (co_state c) \<le> int sel
      \<and> length (stack (co_mem c)) = Suc (sel - nat (ss_checkpoint_stack_offset (co_state c)))
      \<and> (\<forall>i \<le> sel. ss_checkpoint_stack_offset (co_state c) \<le> int i \<longrightarrow>
           stack (co_mem c) ! nat (int i - ss_checkpoint_stack_offset (co_state c))
             = Some (take (nat (cp_n_past (ss_prompt_checkpoints (co_state c) ! i))) (tracker c)))"
  shows "al (forget_slot (undo_finish sel c))"
proof -
  have "synced holds (forget_slot c)" using assms(1) by (simp add: synced_def)
  then show ?thesis
    unfolding forget_undo_finish by (rule aligned_undo_finish) (use assms(2-8) in simp_all)
qed

end

context rs_memory
begin

lemma clear_keeps:
  assumes "clear_context ops mt nb ev bench loaded sys c = (sys', c')"
  shows "stack (co_mem c') = [] \<and> recurrent (co_mem c') = recurrent (co_mem c)"
proof -
  let ?c = "(upd_state (\<lambda>s. s\<lparr>ss_all_context_tokens := [], ss_prompt_checkpoints := [],
    ss_file_cache := (\<lambda>_. None)\<rparr>) c)\<lparr>co_mem := op_clear ops (co_mem c), co_n_past := 0\<rparr>"
  obtain ok c1 where f: "feed_tokens_impl ops nb ev (fst (reload_system_prompt loaded sys)) ?c = (ok, c1)"
    by fastforce
  then have "co_mem c' = co_mem c1" using assms by (auto simp: clear_context_def Let_def)
  then show ?thesis using feed_keeps [OF f] by (simp add: stack_ops recurrent_ops)
qed

lemma aligned_clear:
  assumes "holds (co_mem c) xs" "int (length (fst (reload_system_prompt (se_load se) (se_system se)))) \<le> POS_MAX"
    and "clear_session ops se ev c = (sys, c')"
  shows "al c' \<and> ss_prompt_checkpoints (co_state c') = []"
proof -
  obtain sys1 c1 where c1: "clear_context ops (se_mt se) (se_n_batch se) ev (se_benchmark se) (se_load se)
      (se_system se) c = (sys1, c1)" by fastforce
  obtain k where k: "synced holds c1" "ss_prompt_checkpoints (co_state c1) = []"
    by (rule clear_holds [OF assms(1,2) c1])
  have "c' = upd_state (\<lambda>s. (reset_session_state (s\<lparr>ss_auto_continue := False,
           ss_prev_was_interrupted := False\<rparr>))\<lparr>ss_checkpoint_stack_offset := 0,
           ss_tool_correction_checkpoint_idx := - 1, ss_rs_checkpoint_saved_this_turn := False,
           ss_last_t_count := 0, ss_last_n_past := co_n_past c1, ss_first_turn_done := True,
           ss_log_index := ss_log_index s + 1\<rparr>) c1"
    using assms(3) c1 by (simp add: clear_session_def)
  then show ?thesis
    using k clear_keeps [OF c1]
    by (simp add: aligned_def Let_def synced_def reset_session_state_def POS_MAX_def)
qed

lemma clear_slot: "clear_session ops se ev c = (sys, c') \<Longrightarrow> ss_tool_correction_checkpoint_idx (co_state c') = - 1"
  by (auto simp: clear_session_def reset_session_state_def split: prod.splits)

lemma undo_redecode_ok:
  assumes "al c0" "sel + 1 < length (ss_prompt_checkpoints (co_state c0))"
    and "c = upd_state (ss_conversation_text_update (\<lambda>_. []))
           (upd_state (ss_all_context_tokens_update (\<lambda>_. take p (tracker c0))) c0)"
    and "cp_n_past (ss_prompt_checkpoints (co_state c0) ! sel) = int p"
    and "int (length (tracker c0)) \<le> POS_MAX"
    and "int (length (fst (reload_system_prompt (se_load se) (se_system se)))) \<le> POS_MAX"
    and "undo_redecode ops se ev ev' sel (int p) c = (res, c')"
  shows "al c' \<and> ss_tool_correction_checkpoint_idx (co_state c') = - 1 \<and> res \<in> {Undo_Redecoded, Undo_Reset}
    \<and> (res = Undo_Reset \<longrightarrow> ss_prompt_checkpoints (co_state c') = []) \<and> (res = Undo_Redecoded \<longrightarrow>
    tracker c' = take p (tracker c0)
    \<and> ss_prompt_checkpoints (co_state c') = take (sel + 1) (ss_prompt_checkpoints (co_state c0)))"
proof -
  note D = alignedD [OF assms(1)]
  let ?cps = "ss_prompt_checkpoints (co_state c0)"
  have "?cps ! sel \<in> set ?cps" using assms(2) by simp
  from D(7) [OF this] assms(4) have p: "0 < p" "p \<le> length (tracker c0)" by auto
  define c1 where "c1 = (upd_state (\<lambda>s. s\<lparr>ss_checkpoint_stack_offset := int (length (ss_prompt_checkpoints s)),
      ss_tool_correction_checkpoint_idx := - 1, ss_rs_checkpoint_saved_this_turn := False,
      ss_all_context_tokens := []\<rparr>) c)\<lparr>co_mem := op_clear ops (co_mem c), co_n_past := 0\<rparr>"
  have s1: "synced holds c1" using clear [OF D(10)] by (simp add: synced_def c1_def assms(3))
  let ?prefix = "take p (tracker c0)"
  obtain fed c2 where f: "feed_tokens_impl ops (se_n_batch se) ev ?prefix c1 = (fed, c2)" by fastforce
  have b: "int (length (tracker c1 @ ?prefix)) \<le> POS_MAX" using assms(5) by (simp add: c1_def)
  obtain k where k: "synced holds c2" "tracker c2 = tracker c1 @ take k ?prefix"
    "co_state c2 = (co_state c1)\<lparr>ss_all_context_tokens := tracker c1 @ take k ?prefix\<rparr>"
    "fed \<longleftrightarrow> k = length ?prefix \<and> fed"
    by (rule feed_holds [OF s1 b f])
  have keep: "stack (co_mem c2) = []" "recurrent (co_mem c2) = recurrent (co_mem c0)"
    using feed_keeps [OF f] by (simp_all add: c1_def assms(3) stack_ops recurrent_ops)
  have e: "undo_redecode ops se ev ev' sel (int p) c = (if fed then
      (Undo_Redecoded, undo_finish sel ((upd_state (ss_checkpoint_stack_offset_update (\<lambda>_. int sel)) c2)
         \<lparr>co_mem := op_save ops (co_mem c2)\<rparr>))
      else (Undo_Reset, snd (clear_session ops se ev' (c2\<lparr>co_stop := False\<rparr>))))"
    using f p(2) by (simp add: undo_redecode_def Let_def c1_def assms(3) tok_resize_take)
  show ?thesis
  proof (cases fed)
    case False
    then have r: "res = Undo_Reset" "c' = snd (clear_session ops se ev' (c2\<lparr>co_stop := False\<rparr>))"
      using e assms(7) by auto
    have "holds (co_mem (c2\<lparr>co_stop := False\<rparr>)) (tracker c2)" using k(1) by (simp add: synced_def)
    from aligned_clear [OF this assms(6) surjective_pairing, of ev'] r clear_slot [OF surjective_pairing]
    show ?thesis by simp
  next
    case True
    let ?c = "(upd_state (ss_checkpoint_stack_offset_update (\<lambda>_. int sel)) c2)\<lparr>co_mem := op_save ops (co_mem c2)\<rparr>"
    have r: "res = Undo_Redecoded" "c' = undo_finish sel ?c" using e True assms(7) by auto
    have t: "tracker c2 = ?prefix" using k(2,4) True p(2) by (simp add: c1_def min_def)
    have h: "holds (co_mem c2) ?prefix" "?prefix \<noteq> []" using k(1) t p by (auto simp: synced_def)
    have cps: "ss_prompt_checkpoints (co_state c2) = ?cps" using k(3) by (simp add: c1_def assms(3))
    have np: "co_n_past c2 = int p" using k(1) t p(2) by (simp add: synced_def)
    have "al (undo_finish sel ?c)"
    proof (rule aligned_undo_finish)
      show "synced holds ?c" using k(1) h(1) t np by (simp add: synced_def save)
      show "\<forall>cp \<in> set (take (sel + 1) (ss_prompt_checkpoints (co_state ?c))). 0 < cp_n_past cp \<and> cp_n_past cp \<le> co_n_past ?c"
      proof
        fix cp assume "cp \<in> set (take (sel + 1) (ss_prompt_checkpoints (co_state ?c)))"
        then obtain i where i: "i \<le> sel" "cp = ?cps ! i"
          using assms(2) cps by (auto simp: in_set_conv_nth less_Suc_eq_le)
        then have "cp_n_past (?cps ! i) \<le> cp_n_past (?cps ! sel)"
          using sorted_wrt_nth_less [OF D(8), of i sel] assms(2) by (cases "i = sel") auto
        moreover have "0 < cp_n_past cp" using D(7) i assms(2) by simp
        ultimately show "0 < cp_n_past cp \<and> cp_n_past cp \<le> co_n_past ?c"
          using i(2) np assms(4) by simp
      qed
      show "ss_checkpoint_stack_offset (co_state ?c) \<le> int sel
          \<and> length (stack (co_mem ?c)) = Suc (sel - nat (ss_checkpoint_stack_offset (co_state ?c)))
          \<and> (\<forall>i \<le> sel. ss_checkpoint_stack_offset (co_state ?c) \<le> int i \<longrightarrow>
               stack (co_mem ?c) ! nat (int i - ss_checkpoint_stack_offset (co_state ?c))
                 = Some (take (nat (cp_n_past (ss_prompt_checkpoints (co_state ?c) ! i))) (tracker ?c)))"
        if "recurrent (co_mem ?c)"
      proof -
        have "recurrent (co_mem c2)" using that by (simp add: recurrent_ops)
        then have "stack (co_mem ?c) = [Some ?prefix]"
          using save(2) [OF h(1) _ h(2)] keep(1) by simp
        then show ?thesis using cps t assms(4) by (auto simp: le_antisym)
      qed
    qed (use assms(2) D(4,8) cps k(3) in \<open>simp_all add: c1_def\<close>)
    with r t cps k(3) show ?thesis by (simp add: c1_def)
  qed
qed

end

context rs_memory
begin

lemma before_selected:
  assumes "sorted_wrt (<) (map cp_n_past cps)" "sel + 1 < length cps" "cp \<in> set (take (sel + 1) cps)"
  shows "cp \<in> set cps \<and> cp_n_past cp \<le> cp_n_past (cps ! sel)"
proof -
  obtain i where i: "i \<le> sel" "cp = cps ! i"
    using assms(2,3) by (auto simp: in_set_conv_nth less_Suc_eq_le)
  then have "cp_n_past (cps ! i) \<le> cp_n_past (cps ! sel)"
    using sorted_wrt_nth_less [OF assms(1), of i sel] assms(2) by (cases "i = sel") auto
  with i assms(2) show ?thesis by simp
qed

lemma undo_any:
  assumes "al c" "sel < length (ss_prompt_checkpoints (co_state c))"
    and "int (length (tracker c)) \<le> POS_MAX"
    and "int (length (fst (reload_system_prompt (se_load se) (se_system se)))) \<le> POS_MAX"
    and "undo_to ops se ev ev' sel c = (res, c')"
  shows "(if res = Undo_Fast then al (forget_slot c')
        \<and> ss_tool_correction_checkpoint_idx (co_state c') = ss_tool_correction_checkpoint_idx (co_state c)
      else al c' \<and> (if res = Undo_Noop then True else ss_tool_correction_checkpoint_idx (co_state c') = - 1))
    \<and> (res = Undo_Reset \<longrightarrow> ss_prompt_checkpoints (co_state c') = [])
    \<and> (res \<in> {Undo_Fast, Undo_Redecoded} \<longrightarrow>
      tracker c' = take (nat (cp_n_past (ss_prompt_checkpoints (co_state c) ! sel))) (tracker c)
      \<and> ss_prompt_checkpoints (co_state c') = take (sel + 1) (ss_prompt_checkpoints (co_state c)))
    \<and> (ss_checkpoint_stack_offset (co_state c) \<le> int sel \<longrightarrow> res \<in> {Undo_Noop, Undo_Fast})"
proof (cases "sel + 1 = length (ss_prompt_checkpoints (co_state c))")
  case True
  with assms(5) have "res = Undo_Noop" "c' = c" by (auto simp: undo_to_def Let_def)
  with assms(1) show ?thesis by simp
next
  case False
  note D = alignedD [OF assms(1)]
  let ?cps = "ss_prompt_checkpoints (co_state c)" and ?off = "ss_checkpoint_stack_offset (co_state c)"
  have sel: "sel + 1 < length ?cps" using False assms(2) by simp
  define p where "p = nat (cp_n_past (?cps ! sel))"
  have mem: "?cps ! sel \<in> set ?cps" "?cps ! (sel + 1) \<in> set ?cps" using sel assms(2) by simp_all
  have p: "cp_n_past (?cps ! sel) = int p" "0 < p" using D(7) [OF mem(1)] by (auto simp: p_def)
  have before: "0 < cp_n_past cp \<and> cp_n_past cp \<le> int p" if "cp \<in> set (take (Suc sel) ?cps)" for cp
    using before_selected [OF D(8) sel, of cp] D(7) that p(1) by simp
  have "cp_n_past (?cps ! sel) < cp_n_past (?cps ! (sel + 1))"
    using sorted_wrt_nth_less [OF D(8), of sel "sel + 1"] sel by simp
  then have pl: "p < length (tracker c)" using D(7) [OF mem(2)] p(1) by simp
  have tr: "tok_resize (tracker c) (int p) = take p (tracker c)" using pl by (simp add: tok_resize_take)
  define c1 where "c1 = upd_state (ss_conversation_text_update (\<lambda>_. []))
           (upd_state (ss_all_context_tokens_update (\<lambda>_. take p (tracker c))) c)"
  define stack_idx where "stack_idx = int sel - ?off"
  define m1 where "m1 = (if stack_idx \<ge> 0 then op_restore ops (co_mem c) (to_u32 stack_idx) else co_mem c)"
  obtain ok m where rm: "op_seq_rm ops m1 (int p) (- 1) = (ok, m)" by fastforce
  have u: "0 \<le> stack_idx \<Longrightarrow> to_u32 stack_idx = nat stack_idx"
    using D(2,4) sel by (intro to_u32_id) (auto simp: stack_idx_def)
  have e: "undo_to ops se ev ev' sel c = (if ok then (Undo_Fast, undo_finish sel (c1\<lparr>co_n_past := int p,
             co_mem := (if stack_idx \<ge> 0 then op_prune ops m (to_u32 stack_idx) else m)\<rparr>))
           else undo_redecode ops se ev ev' sel (int p) (c1\<lparr>co_mem := m\<rparr>))"
  proof -
    have "drop_text (upd_state (ss_all_context_tokens_update (\<lambda>ts. tok_resize ts (int p))) c) = c1"
      "ss_checkpoint_stack_offset (co_state c1) = ?off" "co_mem c1 = co_mem c"
      by (simp_all add: c1_def tr)
    note f = this stack_idx_def [symmetric] m1_def [symmetric] rm
    show ?thesis unfolding undo_to_def Let_def p(1) f using False by simp
  qed
  consider (live) "?off \<le> int sel" | (gone) "int sel < ?off" "recurrent (co_mem c)"
    | (attn) "int sel < ?off" "\<not> recurrent (co_mem c)" by linarith
  then show ?thesis
  proof cases
    case gone
    then have "m1 = co_mem c" by (simp add: m1_def stack_idx_def)
    with rm_refused [OF gone(2) D(10) p(2) pl] rm have r: "\<not> ok" "m = co_mem c" by auto
    have "c1\<lparr>co_mem := m\<rparr> = c1" by (simp add: r(2) c1_def)
    with e r(1) assms(5) have "undo_redecode ops se ev ev' sel (int p) c1 = (res, c')" by simp
    from undo_redecode_ok [OF assms(1) sel c1_def p(1) assms(3,4) this] gone(1) show ?thesis
      by (auto simp: p_def [symmetric])
  next
    case attn
    then have m1: "m1 = co_mem c" by (simp add: m1_def stack_idx_def)
    have ok using no_stack(3) [OF attn(2), of "int p" "- 1"] rm m1 by simp
    have h: "holds m (take p (tracker c))" using seq_rm [OF D(10)] rm m1 \<open>ok\<close> pl by (simp add: less_imp_le)
    have "recurrent m = recurrent (co_mem c)" using recurrent_ops(7) rm m1 by (metis snd_conv)
    let ?c = "c1\<lparr>co_n_past := int p, co_mem := m\<rparr>"
    have "al (forget_slot (undo_finish sel ?c))"
      by (rule aligned_finish_forget)
        (use D sel h pl p attn(2) \<open>recurrent m = recurrent (co_mem c)\<close> in
          \<open>auto simp: c1_def synced_def before\<close>)
    with e \<open>ok\<close> assms(5) attn(1) show ?thesis by (auto simp: c1_def stack_idx_def p_def [symmetric])
  next
    case live
    then have s0: "0 \<le> stack_idx" by (simp add: stack_idx_def)
    have m1: "m1 = op_restore ops (co_mem c) (nat stack_idx)" using u s0 by (simp add: m1_def)
    have rs: "nat stack_idx < length (stack (co_mem c))
        \<and> stack (co_mem c) ! nat stack_idx = Some (take p (tracker c))" if r: "recurrent (co_mem c)"
      using live_index [OF assms(1) r assms(2) live] D(6) [OF assms(2) live r] p(1)
      by (simp add: stack_idx_def)
    obtain m' where m': "op_seq_rm ops m1 (int p) (- 1) = (True, m')" "holds m' (take p (tracker c))"
      "stack m' = stack m1" "recurrent m' = recurrent (co_mem c)"
      by (rule restore_truncates [OF D(10) rs p(2) pl, where ?m1.0 = m1]) (auto simp: m1)
    with rm have r: ok "m = m'" by auto
    let ?m = "op_prune ops m (nat stack_idx)"
    have st: "stack ?m = take (Suc (nat stack_idx)) (stack (co_mem c))" if rr: "recurrent (co_mem c)"
      using prune(2) [of "nat stack_idx" m] m'(3) rs [OF rr] by (simp add: r(2) m1 stack_ops(3))
    let ?c = "c1\<lparr>co_n_past := int p, co_mem := ?m\<rparr>"
    have "al (forget_slot (undo_finish sel ?c))"
    proof (rule aligned_finish_forget)
      show "ss_checkpoint_stack_offset (co_state ?c) \<le> int sel
          \<and> length (stack (co_mem ?c)) = Suc (sel - nat (ss_checkpoint_stack_offset (co_state ?c)))
          \<and> (\<forall>i \<le> sel. ss_checkpoint_stack_offset (co_state ?c) \<le> int i \<longrightarrow>
               stack (co_mem ?c) ! nat (int i - ss_checkpoint_stack_offset (co_state ?c))
                 = Some (take (nat (cp_n_past (ss_prompt_checkpoints (co_state ?c) ! i))) (tracker ?c)))"
        if "recurrent (co_mem ?c)"
      proof -
        have rr: "recurrent (co_mem c)" using that m'(4) r(2) by (simp add: recurrent_ops)
        have n: "nat stack_idx = sel - nat ?off" using D(2) live by (simp add: stack_idx_def nat_diff_distrib)
        have "stack ?m ! nat (int i - ?off) = Some (take (nat (cp_n_past (?cps ! i))) (take p (tracker c)))"
          if i: "i \<le> sel" "?off \<le> int i" for i
        proof -
          have "?cps ! i \<in> set (take (Suc sel) ?cps)"
            using i(1) sel by (auto simp: in_set_conv_nth intro!: exI [of _ i])
          then have "nat (cp_n_past (?cps ! i)) \<le> p" using before by force
          moreover have "nat (int i - ?off) < Suc (nat stack_idx)" using i by (simp add: stack_idx_def)
          ultimately show ?thesis
            using st [OF rr] D(6) [OF _ i(2) rr] i(1) sel by (simp add: min_def)
        qed
        then show ?thesis
          using st [OF rr] rs [OF rr] live n by (simp add: c1_def min_def)
      qed
    qed (use D sel pl p m'(2) r(2) in
        \<open>auto simp: c1_def synced_def prune before\<close>)
    with e r(1) assms(5) live show ?thesis by (auto simp: c1_def u s0 p_def [symmetric])
  qed
qed

lemma undo_ok:
  assumes "al c" "sel < length (ss_prompt_checkpoints (co_state c))"
    and "ss_tool_correction_checkpoint_idx (co_state c) < 0"
    and "int (length (tracker c)) \<le> POS_MAX"
    and "int (length (fst (reload_system_prompt (se_load se) (se_system se)))) \<le> POS_MAX"
    and "undo_to ops se ev ev' sel c = (res, c')"
  shows "al c' \<and> (res = Undo_Reset \<longrightarrow> ss_prompt_checkpoints (co_state c') = [])
    \<and> (res \<in> {Undo_Fast, Undo_Redecoded} \<longrightarrow>
      tracker c' = take (nat (cp_n_past (ss_prompt_checkpoints (co_state c) ! sel))) (tracker c)
      \<and> ss_prompt_checkpoints (co_state c') = take (sel + 1) (ss_prompt_checkpoints (co_state c)))
    \<and> (ss_checkpoint_stack_offset (co_state c) \<le> int sel \<longrightarrow> res \<in> {Undo_Noop, Undo_Fast})"
proof -
  note U = undo_any [OF assms(1,2,4,5,6)]
  have "al c'" using U assms(3) aligned_forget_slot [of c'] by (auto split: if_splits)
  with U show ?thesis by blast
qed

end

end
