(* ===== verification/Lim_Session.thy ===== *)
theory Lim_Session
  imports Lim_Checkpoints
begin

section \<open>The life of a session\<close>

text \<open>
  The operations of the previous theories as the steps of a session, each labelled with its event, in any
  order the main loop of \<open>session.cc\<close> can produce: feeds of any origin, the start of a generation, a turn's
  return to the prompt, the end of a resumed turn, a corrected tool call (opened, decoded, rolled back),
  \<open>/undo\<close>, \<open>/clear\<close> and the drift cut of benchmark mode 2. The memory has no rollback window, so a call always
  opens in lockstep. Two transitions of the program break the bookkeeping: an \<open>/undo\<close> while the slot of a tool
  call is in use, and a drift cut; the runs without them are the orderly ones, and the last section shows
  what the two do. A load starts a session anew and is the matter of Lim\_Restore.
\<close>

datatype session_event = Ev_Feed | Ev_Generation | Ev_Prompt | Ev_Tool_Start | Ev_Correction | Ev_Return
  | Ev_Resumed | Ev_Undo nat | Ev_Clear | Ev_Drift

inductive session_step :: "session_env \<Rightarrow> session_event \<Rightarrow> memory core \<Rightarrow> memory core \<Rightarrow> bool" for se :: session_env where
  Feed: "int (length (tracker c @ toks)) \<le> POS_MAX \<Longrightarrow>
    feed_tokens_impl memory_ops (se_n_batch se) ev toks c = (ok, c') \<Longrightarrow> session_step se Ev_Feed c c'"
| Generation: "session_step se Ev_Generation c (begin_generation correction c)"
| Prompt: "session_step se Ev_Prompt c (new_prompt c)"
| Tool_Start: "tracker c \<noteq> [] \<Longrightarrow> session_step se Ev_Tool_Start c (on_tool_start memory_ops True c)"
| Correction: "tracker c \<noteq> [] \<Longrightarrow> toks \<noteq> [] \<Longrightarrow> int (length (tracker c @ toks)) \<le> POS_MAX \<Longrightarrow>
    \<forall>cp \<in> set (ss_prompt_checkpoints (co_state c)). cp_n_past cp < co_n_past c \<Longrightarrow>
    feed_tokens_impl memory_ops (se_n_batch se) ev toks (on_tool_start memory_ops True c) = (True, c1) \<Longrightarrow>
    rollback_to_tool_checkpoint memory_ops (se_n_batch se) ev' True c1 = (rc, c') \<Longrightarrow> session_step se Ev_Correction c c'"
| Return: "tracker c \<noteq> [] \<Longrightarrow> last_input \<noteq> [] \<Longrightarrow> n_cps c + 1 < POS_MAX \<Longrightarrow>
    \<forall>cp \<in> set (ss_prompt_checkpoints (co_state c)). cp_n_past cp < co_n_past c \<Longrightarrow>
    ss_interrupted_checkpoint_idx (co_state c) < 0 \<Longrightarrow>
    session_step se Ev_Return c (snd (prompt_return memory_ops interrupted ctx_limit last_input c))"
| Resumed: "session_step se Ev_Resumed c (snd (prompt_return memory_ops interrupted ctx_limit [] c))"
| Undo: "sel < length (ss_prompt_checkpoints (co_state c)) \<Longrightarrow> int (length (tracker c)) \<le> POS_MAX \<Longrightarrow>
    int (length (fst (reload_system_prompt (se_load se) (se_system se)))) \<le> POS_MAX \<Longrightarrow>
    undo_to memory_ops se ev ev' sel c = (res, c') \<Longrightarrow> session_step se (Ev_Undo sel) c c'"
| Clear: "int (length (fst (reload_system_prompt (se_load se) (se_system se)))) \<le> POS_MAX \<Longrightarrow>
    clear_session memory_ops se ev c = (sys, c') \<Longrightarrow> session_step se Ev_Clear c c'"
| Drift: "0 \<le> match_len \<Longrightarrow> match_len \<le> full_len \<Longrightarrow>
    drift_cut memory_ops match_len full_len c = (start, c') \<Longrightarrow> session_step se Ev_Drift c c'"

text \<open>An \<open>/undo\<close> that changes something while a slot is in use is disorderly, and so is every drift cut.\<close>

fun orderly :: "session_event \<Rightarrow> memory core \<Rightarrow> bool" where
  "orderly (Ev_Undo sel) c \<longleftrightarrow> ss_tool_correction_checkpoint_idx (co_state c) < 0
     \<or> sel + 1 = length (ss_prompt_checkpoints (co_state c))"
| "orderly Ev_Drift c \<longleftrightarrow> False"
| "orderly _ c \<longleftrightarrow> True"

definition orderly_step :: "session_env \<Rightarrow> memory core \<Rightarrow> memory core \<Rightarrow> bool" where
  "orderly_step se c c' \<longleftrightarrow> (\<exists>e. session_step se e c c' \<and> orderly e c)"

inductive_cases session_stepE: "session_step se e c c'"

abbreviation mem_aligned :: "memory core \<Rightarrow> bool" where
  "mem_aligned \<equiv> aligned mem_holds mem_stack mem_recurrent"

lemma aligned_begin: "mem_aligned c \<Longrightarrow> mem_aligned (begin_generation correction c)"
  by (rule rs.aligned_flags [of c]) (auto simp: begin_generation_def)

lemma aligned_new_prompt: "mem_aligned c \<Longrightarrow> mem_aligned (new_prompt c)"
  by (rule rs.aligned_flags [of c]) (auto simp: new_prompt_def)

lemma mem_holds_bound: "mem_holds m ts \<Longrightarrow> int (length ts) \<le> POS_MAX"
  by (cases m) auto

lemma noop_undo:
  "sel + 1 = length (ss_prompt_checkpoints (co_state c)) \<Longrightarrow> undo_to ops se ev ev' sel c = (Undo_Noop, c)"
  by (simp add: undo_to_def Let_def)

lemma step_aligned:
  assumes "session_step se e c c'" "orderly e c" "mem_aligned c"
  shows "mem_aligned c'"
  using assms(1)
proof cases
  case (Feed toks ev ok)
  then show ?thesis using rs.aligned_feed [OF assms(3)] by simp
next
  case (Correction toks ev c1 ev' rc)
  have A: "mem_aligned (on_tool_start memory_ops True c)"
    by (rule rs.aligned_tool_start [OF assms(3) Correction(2)])
  have b: "int (length (tracker (on_tool_start memory_ops True c) @ toks)) \<le> POS_MAX"
    using Correction(4) by (simp add: on_tool_start_def Let_def)
  note A1 = rs.aligned_feed [OF A b Correction(6)]
  have "slot_valid mem_stack mem_recurrent c1"
    using rs.slot_tool_start [OF assms(3) Correction(2,3,6,4)] by blast
  moreover have "int (length (tracker c1)) \<le> POS_MAX"
    using rs.alignedD(10) [OF A1] mem_holds_bound by blast
  ultimately show ?thesis using rs.rollback_ok [OF A1 _ _ Correction(7)] by blast
next
  case (Undo sel ev ev' res)
  show ?thesis
  proof (cases "sel + 1 = length (ss_prompt_checkpoints (co_state c))")
    case True
    have "(Undo_Noop, c) = (res, c')" using Undo(5) unfolding noop_undo [OF True] .
    then show ?thesis using assms(3) by simp
  next
    case False
    with assms(2) Undo(1) have "ss_tool_correction_checkpoint_idx (co_state c) < 0" by simp
    then show ?thesis using rs.undo_ok [OF assms(3) Undo(2) _ Undo(3-5)] by blast
  qed
next
  case (Clear ev sys)
  then show ?thesis using rs.aligned_clear [OF rs.alignedD(10) [OF assms(3)]] by blast
next
  case (Drift match_len full_len start)
  then show ?thesis using assms(2) by simp
qed (use assms(3) in \<open>simp_all add: aligned_begin aligned_new_prompt rs.aligned_tool_start
      rs.aligned_push rs.aligned_move\<close>)

definition fresh_core :: "memory core \<Rightarrow> bool" where
  "fresh_core c \<longleftrightarrow> mem_holds (co_mem c) [] \<and> mem_stack (co_mem c) = [] \<and> co_n_past c = 0 \<and> co_state c = session_state0"

lemma fresh_aligned: "fresh_core c \<Longrightarrow> mem_aligned c"
  by (simp add: fresh_core_def aligned_def Let_def synced_def session_state0_def POS_MAX_def)

lemma reachable_aligned: "(orderly_step se)\<^sup>*\<^sup>* c c' \<Longrightarrow> mem_aligned c \<Longrightarrow> mem_aligned c'"
  by (induction rule: rtranclp_induct) (auto simp: orderly_step_def intro: step_aligned)


definition ex_session :: session_env where
  "ex_session = \<lparr>se_mt = chatml, se_n_batch = 2, se_benchmark = False, se_load = None, se_system = ([1, 2], ''s'')\<rparr>"

definition quiet :: feed_events where "quiet = \<lparr>fe_stop = (\<lambda>_. False), fe_ret = (\<lambda>_. (0, 0))\<rparr>"

definition ex_feed :: "token list \<Rightarrow> memory core \<Rightarrow> memory core" where
  "ex_feed toks c = snd (feed_tokens_impl memory_ops 2 quiet toks c)"

definition ex_turn_end :: "memory core \<Rightarrow> memory core" where
  "ex_turn_end c = snd (prompt_return memory_ops False False ''p'' c)"

lemma ex_core_fresh: "fresh_core ex_core"
  by (simp add: fresh_core_def ex_core_def ex_recurrent_def rows_of_def recr_holds_def POS_MAX_def)

lemma feed_event: "int (length (tracker c @ toks)) \<le> POS_MAX \<Longrightarrow> session_step ex_session Ev_Feed c (ex_feed toks c)"
  by (cases "feed_tokens_impl memory_ops 2 quiet toks c")
    (auto simp: ex_feed_def ex_session_def intro: session_step.Feed [where ev = quiet])

lemma feed_step: "int (length (tracker c @ toks)) \<le> POS_MAX \<Longrightarrow> orderly_step ex_session c (ex_feed toks c)"
  unfolding orderly_step_def using feed_event by fastforce

definition two_turns :: "memory core" where
  "two_turns = ex_turn_end (ex_feed [3, 4] (ex_turn_end (ex_feed [1, 2] ex_core)))"

lemma turn_end_step:
  "tracker c \<noteq> [] \<Longrightarrow> n_cps c + 1 < POS_MAX \<Longrightarrow>
     \<forall>cp \<in> set (ss_prompt_checkpoints (co_state c)). cp_n_past cp < co_n_past c \<Longrightarrow>
     ss_interrupted_checkpoint_idx (co_state c) < 0 \<Longrightarrow> orderly_step ex_session c (ex_turn_end c)"
  unfolding ex_turn_end_def orderly_step_def
  by (intro exI [of _ Ev_Return] conjI session_step.Return) simp_all

lemmas run_step = rtranclp.rtrancl_into_rtrancl [where r = "orderly_step ex_session"]

lemma two_turns_reachable: "(orderly_step ex_session)\<^sup>*\<^sup>* ex_core two_turns"
proof -
  let ?c1 = "ex_feed [1, 2] ex_core" and ?c3 = "ex_feed [3, 4] (ex_turn_end (ex_feed [1, 2] ex_core))"
  have s1: "orderly_step ex_session ex_core ?c1" by (rule feed_step) code_simp
  have s2: "orderly_step ex_session ?c1 (ex_turn_end ?c1)" by (rule turn_end_step) code_simp+
  have s3: "orderly_step ex_session (ex_turn_end ?c1) ?c3" by (rule feed_step) code_simp
  have s4: "orderly_step ex_session ?c3 two_turns"
    unfolding two_turns_def by (rule turn_end_step) code_simp+
  show ?thesis
    by (rule run_step [OF run_step [OF run_step [OF run_step [OF rtranclp.rtrancl_refl s1] s2] s3] s4])
qed


subsection \<open>What a session is: a context with marks\<close>

text \<open>
  The abstract session: the tokens of the context and the positions that can be returned to. It knows
  neither the memory nor the stack of states nor the slot of a tool call.
\<close>

type_synonym marked = "token list \<times> nat list"

inductive marked_step :: "marked \<Rightarrow> marked \<Rightarrow> bool" where
  Extend: "marked_step (ts, ms) (ts @ us, ms)"
| Mark: "marked_step (ts, ms) (ts, ms @ [length ts])"
| Move_Mark: "ms \<noteq> [] \<Longrightarrow> marked_step (ts, ms) (ts, butlast ms @ [length ts])"
| Back: "i < length ms \<Longrightarrow> marked_step (ts, ms) (take (ms ! i) ts, take (i + 1) ms)"
| Fresh: "marked_step (ts, ms) (us, [])"

definition marked_of :: "memory core \<Rightarrow> marked" where
  "marked_of c = (tracker c, map (\<lambda>cp. nat (cp_n_past cp)) (ss_prompt_checkpoints (co_state c)))"

lemma marked_flags:
  "marked_of (begin_generation b c) = marked_of c" "marked_of (new_prompt c) = marked_of c"
  "marked_of (on_tool_start memory_ops l c) = marked_of c"
  by (simp_all add: marked_of_def begin_generation_def new_prompt_def on_tool_start_def Let_def)

lemma correction_ok:
  assumes "mem_aligned c" "tracker c \<noteq> []" "toks \<noteq> []" "int (length (tracker c @ toks)) \<le> POS_MAX"
    and "\<forall>cp \<in> set (ss_prompt_checkpoints (co_state c)). cp_n_past cp < co_n_past c"
    and "feed_tokens_impl memory_ops nb ev toks (on_tool_start memory_ops True c) = (True, c1)"
    and "rollback_to_tool_checkpoint memory_ops nb ev' ej c1 = (rc, c')"
  shows "rc = 0 \<and> mem_aligned c' \<and> tracker c' = tracker c
    \<and> ss_prompt_checkpoints (co_state c') = ss_prompt_checkpoints (co_state c)"
proof -
  have A: "mem_aligned (on_tool_start memory_ops True c)"
    by (rule rs.aligned_tool_start [OF assms(1,2)])
  have t: "tracker (on_tool_start memory_ops True c) = tracker c"
    "ss_prompt_checkpoints (co_state (on_tool_start memory_ops True c)) = ss_prompt_checkpoints (co_state c)"
    "ss_has_tool_correction_checkpoint (co_state (on_tool_start memory_ops True c))"
    by (simp_all add: on_tool_start_def Let_def)
  have b: "int (length (tracker (on_tool_start memory_ops True c) @ toks)) \<le> POS_MAX"
    using assms(4) t(1) by simp
  note A1 = rs.aligned_feed [OF A b assms(6)]
  have k: "tracker c1 = tracker c @ toks"
    "co_state c1 = (co_state (on_tool_start memory_ops True c))\<lparr>ss_all_context_tokens := tracker c @ toks\<rparr>"
    by (rule mem.feed_holds [OF rs.alignedD(1) [OF A] b assms(6)]; use t in auto)+
  have s: "slot_valid mem_stack mem_recurrent c1"
    "ss_tool_correction_n_past (co_state c1) = int (length (tracker c))"
    using rs.slot_tool_start [OF assms(1,2,3,6,4)] by blast+
  have bd: "int (length (tracker c1)) \<le> POS_MAX" using rs.alignedD(10) [OF A1] mem_holds_bound by blast
  have "ss_has_tool_correction_checkpoint (co_state c1)" using k(2) t(3) by simp
  with rs.rollback_ok [OF A1 s(1) bd assms(7)] s(2) k(1) have r: "rc = 0" "mem_aligned c'" "tracker c' = tracker c"
    by auto
  have "ss_prompt_checkpoints (co_state c') = ss_prompt_checkpoints (co_state c1)"
    using assms(7) r(1) by (auto simp: rollback_to_tool_checkpoint_def redecode_suffix_def eject_def Let_def
        split: if_splits option.splits prod.splits)
  with r k(2) t(2) show ?thesis by simp
qed

lemma marked_cases:
  "marked_of c' = marked_of c \<Longrightarrow> marked_step\<^sup>=\<^sup>= (marked_of c) (marked_of c')"
  by simp

lemma nat_np: "mem_aligned c \<Longrightarrow> nat (co_n_past c) = length (tracker c)"
  by (simp add: rs.alignedD(9))

lemma prompt_return_marked:
  assumes "mem_aligned c"
  shows "marked_step\<^sup>=\<^sup>= (marked_of c) (marked_of (snd (prompt_return memory_ops i l last_input c)))"
proof (cases "last_input \<noteq> []")
  case True
  then have "marked_of (snd (prompt_return memory_ops i l last_input c))
      = (tracker c, map (\<lambda>cp. nat (cp_n_past cp)) (ss_prompt_checkpoints (co_state c)) @ [length (tracker c)])"
    using nat_np [OF assms] by (auto simp: prompt_return_def Let_def marked_of_def)
  then show ?thesis using marked_step.Mark by (simp add: marked_of_def)
next
  case False
  let ?cps = "ss_prompt_checkpoints (co_state c)" and ?idx = "ss_interrupted_checkpoint_idx (co_state c)"
  show ?thesis
  proof (cases "?idx \<ge> 0 \<and> ?idx < n_cps c \<and> \<not> i")
    case True
    then have "?idx = n_cps c - 1" "?cps \<noteq> []" using rs.alignedD(13) [OF assms] by auto
    then have "nat ?idx = length ?cps - 1" by (cases ?cps) auto
    then have "marked_of (snd (prompt_return memory_ops i l last_input c))
        = (tracker c, (map (\<lambda>cp. nat (cp_n_past cp)) ?cps)[length ?cps - 1 := length (tracker c)])"
      using True False nat_np [OF assms] by (simp add: prompt_return_def Let_def marked_of_def map_update)
    also have "\<dots> = (tracker c, butlast (map (\<lambda>cp. nat (cp_n_past cp)) ?cps) @ [length (tracker c)])"
      using \<open>?cps \<noteq> []\<close> by (cases ?cps rule: rev_cases) (simp_all add: list_update_append)
    finally show ?thesis using marked_step.Move_Mark \<open>?cps \<noteq> []\<close> by (simp add: marked_of_def)
  qed (use False in \<open>auto simp: prompt_return_def Let_def\<close>)
qed

lemma undo_marked:
  assumes "mem_aligned c" "sel < length (ss_prompt_checkpoints (co_state c))"
    and "res \<in> {Undo_Fast, Undo_Redecoded} \<longrightarrow>
      tracker c' = take (nat (cp_n_past (ss_prompt_checkpoints (co_state c) ! sel))) (tracker c)
      \<and> ss_prompt_checkpoints (co_state c') = take (sel + 1) (ss_prompt_checkpoints (co_state c))"
    and "undo_to memory_ops se ev ev' sel c = (res, c')"
    and "ss_prompt_checkpoints (co_state c') = [] \<or> res \<noteq> Undo_Reset"
  shows "marked_step\<^sup>=\<^sup>= (marked_of c) (marked_of c')"
proof (cases res)
  case Undo_Noop
  have "c' = c"
    using assms(4) unfolding Undo_Noop
    by (auto simp: undo_to_def undo_redecode_def Let_def split: if_splits prod.splits)
  then show ?thesis by simp
next
  case Undo_Reset
  with assms(5) have "marked_of c' = (tracker c', [])" by (simp add: marked_of_def)
  then show ?thesis using marked_step.Fresh by (simp add: marked_of_def)
next
  case Undo_Fast
  with assms(2,3) show ?thesis
    using marked_step.Back [of sel "map (\<lambda>cp. nat (cp_n_past cp)) (ss_prompt_checkpoints (co_state c))" "tracker c"]
    by (simp add: marked_of_def take_map)
next
  case Undo_Redecoded
  with assms(2,3) show ?thesis
    using marked_step.Back [of sel "map (\<lambda>cp. nat (cp_n_past cp)) (ss_prompt_checkpoints (co_state c))" "tracker c"]
    by (simp add: marked_of_def take_map)
qed

lemma step_marked:
  assumes "session_step se e c c'" "orderly e c" "mem_aligned c"
  shows "marked_step\<^sup>=\<^sup>= (marked_of c) (marked_of c')"
  using assms(1)
proof cases
  case (Feed toks ev ok)
  obtain k where k: "tracker c' = tracker c @ take k toks"
    "co_state c' = (co_state c)\<lparr>ss_all_context_tokens := tracker c @ take k toks\<rparr>"
    by (rule mem.feed_holds [OF rs.alignedD(1) [OF assms(3)] Feed(2,3)])
  then have "marked_of c' = (tracker c @ take k toks, snd (marked_of c))" by (simp add: marked_of_def)
  then show ?thesis using marked_step.Extend by (simp add: marked_of_def)
next
  case (Correction toks ev c1 ev' rc)
  from correction_ok [OF assms(3) Correction(2-7)] show ?thesis by (simp add: marked_of_def)
next
  case (Undo sel ev ev' res)
  show ?thesis
  proof (cases "sel + 1 = length (ss_prompt_checkpoints (co_state c))")
    case True
    have "(Undo_Noop, c) = (res, c')" using Undo(5) unfolding noop_undo [OF True] .
    then show ?thesis by simp
  next
    case False
    with assms(2) Undo(1) have i: "ss_tool_correction_checkpoint_idx (co_state c) < 0" by simp
    note U = rs.undo_ok [OF assms(3) Undo(2) i Undo(3-5)]
    have "ss_prompt_checkpoints (co_state c') = [] \<or> res \<noteq> Undo_Reset" using U by blast
    with undo_marked [OF assms(3) Undo(2) _ Undo(5)] U show ?thesis by blast
  qed
next
  case (Clear ev sys)
  have "ss_prompt_checkpoints (co_state c') = []"
    using rs.aligned_clear [OF rs.alignedD(10) [OF assms(3)] Clear(2,3)] by blast
  then have "marked_of c' = (tracker c', [])" by (simp add: marked_of_def)
  then show ?thesis using marked_step.Fresh by (simp add: marked_of_def)
next
  case (Return last_input interrupted ctx_limit)
  then show ?thesis using prompt_return_marked [OF assms(3)] by (simp only:)
next
  case (Resumed interrupted ctx_limit)
  then show ?thesis using prompt_return_marked [OF assms(3)] by (simp only:)
next
  case (Drift match_len full_len start)
  then show ?thesis using assms(2) by simp
qed (use assms(3) in \<open>simp_all add: marked_flags\<close>)





text \<open>C28: A malformed call is corrected without a trace: opened, written, answered with the correction prompt
  and regenerated (any tokens, any number), the rollback then succeeds on the slot, without decoding, and
  leaves tracker, memory, position and checkpoints as they were when the opening tag had been decoded.\<close>

theorem correction_rolls_back:
  assumes "fresh_core c0" "(orderly_step se)\<^sup>*\<^sup>* c0 c" "tracker c \<noteq> []" "toks \<noteq> []"
    and "int (length (tracker c @ toks)) \<le> POS_MAX"
    and "\<forall>cp \<in> set (ss_prompt_checkpoints (co_state c)). cp_n_past cp < co_n_past c"
    and "feed_tokens_impl memory_ops n_batch ev toks (on_tool_start memory_ops True c) = (True, c1)"
  shows "let (rc, c') = rollback_to_tool_checkpoint memory_ops n_batch ev' True c1
    in rc = 0 \<and> mem_holds (co_mem c') (tracker c) \<and> co_n_past c' = co_n_past c \<and> marked_of c' = marked_of c"
proof -
  have A: "mem_aligned c" by (rule reachable_aligned [OF assms(2) fresh_aligned [OF assms(1)]])
  obtain rc c' where r: "rollback_to_tool_checkpoint memory_ops n_batch ev' True c1 = (rc, c')" by fastforce
  have R: "rc = 0" "mem_aligned c'" "tracker c' = tracker c"
    "ss_prompt_checkpoints (co_state c') = ss_prompt_checkpoints (co_state c)"
    using correction_ok [OF A assms(3-7) r] by auto
  then show ?thesis
    unfolding r using rs.alignedD(9,10) [OF R(2)] rs.alignedD(9) [OF A] by (simp add: marked_of_def)
qed

lemma fst_True: "fst p \<Longrightarrow> p = (True, snd p)"
  by (cases p) simp

theorem correction_rolls_back_witness:
  "let (rc, c') = rollback_to_tool_checkpoint memory_ops 2 quiet True (ex_feed [6, 7] (on_tool_start memory_ops True (ex_feed [5] two_turns)))
    in rc = 0 \<and> mem_holds (co_mem c') (tracker (ex_feed [5] two_turns))
      \<and> co_n_past c' = co_n_past (ex_feed [5] two_turns) \<and> marked_of c' = marked_of (ex_feed [5] two_turns)"
proof (rule correction_rolls_back [OF ex_core_fresh])
  have s: "orderly_step ex_session two_turns (ex_feed [5] two_turns)" by (rule feed_step) code_simp
  show "(orderly_step ex_session)\<^sup>*\<^sup>* ex_core (ex_feed [5] two_turns)"
    by (rule run_step [OF two_turns_reachable s])
  show "feed_tokens_impl memory_ops 2 quiet [6, 7] (on_tool_start memory_ops True (ex_feed [5] two_turns))
      = (True, ex_feed [6, 7] (on_tool_start memory_ops True (ex_feed [5] two_turns)))"
    unfolding ex_feed_def [of "[6, 7]"] by (rule fst_True) code_simp
qed (code_simp)+

subsection \<open>Undo while a slot is in use\<close>

text \<open>
  When a turn is ejected without a prompt return (a correction that produced another invalid call, or could
  not be fed, continues the main loop directly), or when a resumed turn with a tool call has ended, the slot
  of the call stays in use at the prompt. \<open>/undo\<close> then cuts the stack and forgets that the slot was saved, but
  keeps its index, which is now beyond the stack.
\<close>

definition undo_ex :: "nat \<Rightarrow> memory core \<Rightarrow> undo_result \<times> memory core" where
  "undo_ex sel c = undo_to memory_ops ex_session quiet quiet sel c"

definition ejected :: "memory core" where
  "ejected = ex_feed [6] (on_tool_start memory_ops True (ex_feed [5] (ex_turn_end (ex_feed [3, 4] (ex_turn_end (ex_feed [1, 2] ex_core))))))"

definition tool_turn :: "token list \<Rightarrow> token list \<Rightarrow> memory core \<Rightarrow> memory core" where
  "tool_turn before after c = ex_turn_end (ex_feed after (on_tool_start memory_ops True (begin_generation False (ex_feed before (new_prompt c)))))"

definition undone :: "undo_result \<times> memory core" where
  "undone = undo_ex 1 (ex_turn_end (ex_feed [10] (new_prompt (tool_turn [7] [8, 9] (snd (undo_ex 0 ejected))))))"

lemma undone_mem:
  "co_mem (snd undone) = Hybrid (rows_of [1, 2, 7, 8, 9]) \<lparr>rc_pos = 4, rc_tail = True,
     rc_planes = [Some ([1, 2, 7], [1, 2, 7])], rc_rs_idx = 0, rc_restored = False,
     rc_stack = [Some ([1, 2], [1, 2]), Some ([1, 2, 7], [1, 2, 7])], rc_n_rs_seq = 0\<rparr>"
  by code_simp

lemma undone_state:
  "fst (undo_ex 0 ejected) = Undo_Fast \<and> fst undone = Undo_Fast \<and> tracker (snd undone) = [1, 2, 7, 8, 9]
   \<and> \<not> mem_holds (co_mem (snd undone)) (tracker (snd undone))
   \<and> (case co_mem (snd undone) of
        Hybrid kv rc \<Rightarrow> kv = rows_of [1, 2, 7, 8, 9] \<and> rs_start rc = Some ([1, 2, 7], [1, 2, 7])
      | Attention _ \<Rightarrow> False)"
proof -
  have t: "tracker (snd undone) = [1, 2, 7, 8, 9]" by code_simp
  have u: "fst (undo_ex 0 ejected) = Undo_Fast" "fst undone = Undo_Fast" by code_simp+
  show ?thesis by (simp add: u t undone_mem recr_holds_def rs_start_def)
qed

lemma undo_fast_fields:
  assumes "undo_to memory_ops se ev ev' sel c = (Undo_Fast, c')" "0 \<le> ss_checkpoint_stack_offset (co_state c)"
    and "ss_checkpoint_stack_offset (co_state c) \<le> int sel"
  shows "ss_checkpoint_stack_offset (co_state c') = ss_checkpoint_stack_offset (co_state c)"
    "mem_recurrent (co_mem c') = mem_recurrent (co_mem c)"
proof -
  have e: "filter (\<lambda>i. int i < ss_checkpoint_stack_offset (co_state c)) [sel + 1..<n] = []" for n
    using assms(3) by (auto simp: filter_empty_conv)
  have r: "mem_recurrent m' = mem_recurrent m" if "mem_seq_rm m q q' = (ok, m')" for m m' q q' ok
    using rs.recurrent_ops(7) [of m q q'] that by simp
  note ro = rs.recurrent_ops(5,6) [simplified]
  show "ss_checkpoint_stack_offset (co_state c') = ss_checkpoint_stack_offset (co_state c)"
    using assms(1,2) e by (auto simp: undo_to_def undo_redecode_def undo_finish_def reset_session_state_def Let_def
        split: if_splits prod.splits)
  show "mem_recurrent (co_mem c') = mem_recurrent (co_mem c)"
    using assms(1,3) by (auto simp: undo_to_def undo_redecode_def Let_def ro
        dest!: r split: if_splits prod.splits)
qed

lemma feed_whole:
  assumes "synced mem_holds c" "int (length (tracker c @ toks)) \<le> POS_MAX"
    and "feed_tokens_impl memory_ops nb ev toks c = (True, c')"
  shows "tracker c' = tracker c @ toks" "synced mem_holds c'" "mem_stack (co_mem c') = mem_stack (co_mem c)"
    "mem_recurrent (co_mem c') = mem_recurrent (co_mem c)"
    "co_state c' = (co_state c)\<lparr>ss_all_context_tokens := tracker c @ toks\<rparr>"
  using rs.feed_grown [OF assms] by (auto simp: grown_def)

lemma overwrite_beyond: "length (mem_stack m) \<le> i \<Longrightarrow> mem_stack (op_overwrite memory_ops m i) = mem_stack m"
  by (cases m) (simp_all add: rs_checkpoint_overwrite_def)

text \<open>C29: On a hybrid model, an undo back to a checkpoint with a live state while the slot of a tool call is in use
  succeeds, but it leaves the slot's index beyond the stack. When the next turn has a tool call, the stack gets
  the state of its opening tag, the overwriting at the end of the turn misses, and the turn's checkpoint, which
  is recorded at the turn's end, keeps the state of the opening tag: the bookkeeping is broken, and an undo to
  that checkpoint will restore a state that misses the rest of the turn.\<close>

theorem undo_with_open_slot:
  fixes interrupted ctx_limit :: bool and last_input :: string
  assumes "aligned mem_holds mem_stack mem_recurrent c" "mem_recurrent (co_mem c)"
    and "ss_tool_correction_checkpoint_idx (co_state c) \<ge> 0" "sel + 1 < length (ss_prompt_checkpoints (co_state c))"
    and "ss_checkpoint_stack_offset (co_state c) \<le> int sel"
    and "int (length (fst (reload_system_prompt (se_load se) (se_system se)))) \<le> POS_MAX"
    and "undo_to memory_ops se ev ev' sel c = (res, c1)"
    and "feed_tokens_impl memory_ops (se_n_batch se) ev1 us (new_prompt c1) = (True, c2)"
    and "feed_tokens_impl memory_ops (se_n_batch se) ev2 vs (on_tool_start memory_ops True (begin_generation False c2)) = (True, c3)"
    and "int (length (tracker c1 @ us @ vs)) \<le> POS_MAX" "vs \<noteq> []" "last_input \<noteq> []"
  defines "c4 \<equiv> snd (prompt_return memory_ops interrupted ctx_limit last_input c3)"
  shows "res = Undo_Fast \<and> tracker c4 = tracker c1 @ us @ vs \<and> mem_holds (co_mem c4) (tracker c4)
    \<and> last (ss_prompt_checkpoints (co_state c4)) = \<lparr>cp_n_past = int (length (tracker c4)),
         cp_prompt = (if interrupted \<and> ctx_limit then ctx_limit_label else last_input)\<rparr>
    \<and> mem_stack (co_mem c4) ! nat (n_cps c4 - 1 - ss_checkpoint_stack_offset (co_state c4)) = Some (tracker c1 @ us)
    \<and> \<not> aligned mem_holds mem_stack mem_recurrent c4"
proof -
  note D = rs.alignedD [OF assms(1)]
  have l: "sel < length (ss_prompt_checkpoints (co_state c))" using assms(4) by simp
  have b: "int (length (tracker c)) \<le> POS_MAX" using D(10) mem_holds_bound by blast
  note U = rs.undo_any [OF assms(1) l b assms(6,7)]
  have "res \<noteq> Undo_Noop"
    using assms(4,7) by (auto simp: undo_to_def undo_redecode_def Let_def split: if_splits prod.splits)
  then have fast: "res = Undo_Fast" using U assms(5) by blast
  note F = undo_fast_fields [OF assms(7) [unfolded fast] D(2) assms(5)]
  have A: "mem_aligned (forget_slot c1)" and idx: "ss_tool_correction_checkpoint_idx (co_state c1) = ss_tool_correction_checkpoint_idx (co_state c)"
    and cps: "length (ss_prompt_checkpoints (co_state c1)) = sel + 1" and p: "tracker c1 \<noteq> []"
    using U fast assms(4) D(7) [of "ss_prompt_checkpoints (co_state c) ! sel"] l by auto
  note E = rs.alignedD [OF A]
  have ns: "\<not> ss_rs_checkpoint_saved_this_turn (co_state c1)" using E(12) by (auto simp: forget_slot_def)
  have i: "ss_tool_correction_checkpoint_idx (co_state c1) \<ge> int sel + 2 - ss_checkpoint_stack_offset (co_state c1)"
    "0 \<le> ss_tool_correction_checkpoint_idx (co_state c1)" "ss_tool_correction_checkpoint_idx (co_state c1) \<le> POS_MAX"
    using D(2,4) D(11) [OF assms(3)] assms(3,4) idx F(1) by linarith+
  have st: "length (mem_stack (co_mem c1)) = Suc (sel - nat (ss_checkpoint_stack_offset (co_state c1)))"
    using E(2,5) F assms(2,5) ns cps by (auto simp: forget_slot_def)
  have s0: "synced mem_holds (new_prompt c1)"
    "int (length (tracker (new_prompt c1) @ us)) \<le> POS_MAX" "tracker (new_prompt c1) = tracker c1" "co_mem (new_prompt c1) = co_mem c1"
    using E(1) assms(10) by (simp_all add: synced_def new_prompt_def)
  have c2: "tracker c2 = tracker c1 @ us" "synced mem_holds c2" "mem_stack (co_mem c2) = mem_stack (co_mem c1)"
    "mem_recurrent (co_mem c2)" "co_state c2 = (co_state (new_prompt c1))\<lparr>ss_all_context_tokens := tracker c1 @ us\<rparr>"
    using feed_whole [OF s0(1,2) assms(8)] F(2) assms(2) s0(3,4) by simp_all
  define d where "d = on_tool_start memory_ops True (begin_generation False c2)"
  have bg: "begin_generation False c2 = c2" using i(2) c2(5) by (simp add: begin_generation_def new_prompt_def)
  have d: "tracker d = tracker c1 @ us" "synced mem_holds d" "mem_recurrent (co_mem d)"
    "mem_stack (co_mem d) = mem_stack (co_mem c1) @ [Some (tracker c1 @ us)]"
    "ss_tool_correction_checkpoint_idx (co_state d) = ss_tool_correction_checkpoint_idx (co_state c1)"
    "ss_rs_checkpoint_saved_this_turn (co_state d)" "ss_prompt_checkpoints (co_state d) = ss_prompt_checkpoints (co_state c1)"
    "ss_checkpoint_stack_offset (co_state d) = ss_checkpoint_stack_offset (co_state c1)"
    using c2 ns i(2) p rs.save(1) [of "co_mem c2" "tracker c2"] rs.save(2) [of "co_mem c2" "tracker c2"] rs.recurrent_ops(3)
    unfolding d_def bg by (auto simp: on_tool_start_def Let_def synced_def new_prompt_def)
  have "int (length (tracker d @ vs)) \<le> POS_MAX" using assms(10) d(1) by simp
  note c3 = feed_whole [OF d(2) this assms(9) [folded d_def]]
  have u: "to_u32 (ss_tool_correction_checkpoint_idx (co_state c1)) = nat (ss_tool_correction_checkpoint_idx (co_state c1))"
    by (rule to_u32_id [OF i(2,3)])
  have "length (mem_stack (co_mem c3)) \<le> nat (ss_tool_correction_checkpoint_idx (co_state c1))"
    using c3(3) d(4) st i(1) E(2) F(1) assms(5) by (simp add: forget_slot_def)
  note ov = overwrite_beyond [OF this]
  have h3: "mem_holds (co_mem c3) (tracker c3)" "co_n_past c3 = int (length (tracker c3))"
    using c3(2) by (simp_all add: synced_def)
  have pr: "tracker c4 = tracker c3" "mem_holds (co_mem c4) (tracker c3)" "mem_stack (co_mem c4) = mem_stack (co_mem c3)"
    "mem_recurrent (co_mem c4)"
    "ss_prompt_checkpoints (co_state c4) = ss_prompt_checkpoints (co_state c1) @ [\<lparr>cp_n_past = co_n_past c3,
         cp_prompt = (if interrupted \<and> ctx_limit then ctx_limit_label else last_input)\<rparr>]"
    "ss_checkpoint_stack_offset (co_state c4) = ss_checkpoint_stack_offset (co_state c1)"
    using c3 d i(2) u ov assms(12) rs.overwrite(1) [OF h3(1)] rs.recurrent_ops(4)
    unfolding c4_def prompt_return_def Let_def by simp_all
  have n: "nat (n_cps c4 - 1 - ss_checkpoint_stack_offset (co_state c4)) = length (mem_stack (co_mem c1))"
    using pr(5,6) cps st E(2) F(1) assms(5) by (simp add: forget_slot_def)
  have top: "mem_stack (co_mem c4) ! nat (n_cps c4 - 1 - ss_checkpoint_stack_offset (co_state c4)) = Some (tracker c1 @ us)"
    unfolding n pr(3) c3(3) d(4) by simp
  have "\<not> mem_aligned c4"
  proof
    assume Al: "mem_aligned c4"
    note G = rs.alignedD [OF Al]
    let ?k = "length (ss_prompt_checkpoints (co_state c1))"
    have "mem_stack (co_mem c4) ! nat (int ?k - ss_checkpoint_stack_offset (co_state c4))
        = Some (take (nat (cp_n_past (ss_prompt_checkpoints (co_state c4) ! ?k))) (tracker c4))"
      using G(6) [of ?k] pr(4,5,6) E(3) by (simp add: forget_slot_def)
    then have "Some (tracker c1 @ us) = Some (tracker c3)"
      using top pr(1,5) h3(2) by simp
    then show False using c3(1) d(1) assms(11) by simp
  qed
  then show ?thesis using fast pr top c3(1) d(1) h3(2) by simp
qed

lemma ejected_aligned: "mem_aligned ejected"
proof -
  have f: "orderly_step ex_session two_turns (ex_feed [5] two_turns)" by (rule feed_step) code_simp
  have t: "orderly_step ex_session (ex_feed [5] two_turns) (on_tool_start memory_ops True (ex_feed [5] two_turns))"
    unfolding orderly_step_def by (intro exI [of _ Ev_Tool_Start] conjI session_step.Tool_Start) code_simp+
  have g: "orderly_step ex_session (on_tool_start memory_ops True (ex_feed [5] two_turns)) ejected"
    unfolding ejected_def two_turns_def [symmetric] by (rule feed_step) code_simp
  show ?thesis
    by (rule reachable_aligned [OF run_step [OF run_step [OF run_step [OF two_turns_reachable f] t] g]
        fresh_aligned [OF ex_core_fresh]])
qed

lemma undo_with_open_slot_witness:
  "fst (undo_ex 0 ejected) = Undo_Fast \<and> \<not> mem_aligned (tool_turn [7] [8, 9] (snd (undo_ex 0 ejected)))"
proof -
  let ?c1 = "snd (undo_ex 0 ejected)"
  let ?c2 = "ex_feed [7] (new_prompt ?c1)"
  let ?d = "on_tool_start memory_ops True (begin_generation False ?c2)"
  have e: "se_n_batch ex_session = 2" by (simp add: ex_session_def)
  have h: "mem_recurrent (co_mem ejected)" "ss_tool_correction_checkpoint_idx (co_state ejected) \<ge> 0"
    "0 + 1 < length (ss_prompt_checkpoints (co_state ejected))"
    "ss_checkpoint_stack_offset (co_state ejected) \<le> int 0"
    "int (length (fst (reload_system_prompt (se_load ex_session) (se_system ex_session)))) \<le> POS_MAX"
    "int (length (tracker ?c1 @ [7] @ [8, 9])) \<le> POS_MAX" by code_simp+
  have u: "undo_to memory_ops ex_session quiet quiet 0 ejected = (fst (undo_ex 0 ejected), ?c1)"
    by (simp add: undo_ex_def)
  have f: "feed_tokens_impl memory_ops (se_n_batch ex_session) quiet [7] (new_prompt ?c1) = (True, ?c2)"
    unfolding e ex_feed_def by (rule fst_True) code_simp
  have g: "feed_tokens_impl memory_ops (se_n_batch ex_session) quiet [8, 9] ?d = (True, ex_feed [8, 9] ?d)"
    unfolding e ex_feed_def [of "[8, 9]"] by (rule fst_True) code_simp
  have n: "[8, 9 :: token] \<noteq> []" "''p'' \<noteq> []" by simp_all
  from undo_with_open_slot [OF ejected_aligned h(1-5) u f g h(6) n, of False False]
  show ?thesis by (simp add: tool_turn_def ex_turn_end_def)
qed

text \<open>The cut of benchmark mode 2 keeps the states up to its anchor but moves the offset past it, so that the
  stack is read one place too low: after a drift back to the first checkpoint, an undo to the second
  one restores the state of the first.\<close>

definition drifted :: "memory core" where
  "drifted = ex_turn_end (ex_feed [30, 40] (snd (drift_cut memory_ops 3 10
     (ex_turn_end (ex_feed [5, 6] (ex_turn_end (ex_feed [3, 4] (ex_turn_end (ex_feed [1, 2] ex_core)))))))))"

lemma drift_misaligns:
  "map cp_n_past (ss_prompt_checkpoints (co_state drifted)) = [2, 4, 6, 4]
   \<and> ss_checkpoint_stack_offset (co_state drifted) = 1
   \<and> mem_stack (co_mem drifted) = [Some [1, 2], Some [1, 2, 30, 40]]"
  by code_simp

end
