(* ===== verification/Lim_Executor.thy ===== *)
theory Lim_Executor
  imports Lim_Tools Lim_ToolEnd Lim_Text Lim_Checkpoints
begin

section \<open>The tool executor (tool_executor.cc)\<close>

text \<open>
  \<open>ToolExecutor::execute\<close>: the call is cut out of the generated text (with the saved part of an interrupted
  call before it), cleaned of turn markers and thinking blocks, executed, judged, and its result fed back as
  a turn. Feeding is a parameter (the session passes \<open>feed_tokens_impl\<close>), as are the tokenizer and the
  tool environment. \<open>stop_generation\<close> is one global: the stop flag of the core, lent to the tool's world.
\<close>

subsection \<open>The call\<close>

text \<open>\<open>find_tool_end_robust\<close> compares the text at its start position, which throws beyond the end.\<close>

definition joined_call :: "string \<Rightarrow> string \<Rightarrow> nat \<Rightarrow> nat option \<Rightarrow> bool \<Rightarrow> cpp_exn + (string \<times> nat option)" where
  "joined_call partial_text full_generated tool_start tool_end was_mid =
     (if partial_text = [] then Inr (full_generated, tool_end)
      else
        let full_gen = partial_text @ full_generated;
            from = (if was_mid then str_find full_gen FUNC_START 0 else Some tool_start)
        in case from of
             None \<Rightarrow> Inl Out_Of_Range
           | Some p \<Rightarrow>
               (case fst (find_tool_end_robust full_gen p) of
                  None \<Rightarrow> Inr (full_gen, None)
                | Some e \<Rightarrow>
                    if str_find full_gen FUNC_END p = None then
                      (let full_gen = repair_malformed_tool_end full_gen e
                       in Inr (full_gen, str_find full_gen FUNC_END p))
                    else Inr (full_gen, Some e)))"

definition npos :: nat where "npos = 2 ^ 64 - 1"

definition call_text :: "string \<Rightarrow> nat \<Rightarrow> nat option \<Rightarrow> string" where
  "call_text full_gen tool_start tool_end =
     (let e = (case tool_end of Some e \<Rightarrow> e | None \<Rightarrow> npos)
      in substr full_gen tool_start ((usub e tool_start + length FUNC_END) mod 2 ^ 64))"

definition strip_tags_vec :: "model_tokens \<Rightarrow> string list" where
  "strip_tags_vec mt = collect_turn_tokens_into mt
     (filter (\<lambda>m. m \<noteq> []) [mf_text (user_turn_start mt), mf_text (assistant_turn_start mt), mf_text (turn_end mt)])"

function strip_think :: "string \<Rightarrow> string \<Rightarrow> string \<Rightarrow> string" where
  "strip_think ts te s =
     (if ts = [] \<or> te = [] then s
      else case str_find s ts 0 of
        None \<Rightarrow> s
      | Some p \<Rightarrow>
          (case str_find s te p of
             Some q \<Rightarrow> strip_think ts te (str_erase s p (q + length te - p))
           | None \<Rightarrow> take p s))"
  by pat_completeness auto
termination
  by (relation "measure (\<lambda>(ts, te, s). length s)")
    (auto simp: str_erase_def length_greater_0_conv [symmetric] simp del: length_greater_0_conv
      dest!: str_find_boundsD)

declare strip_think.simps [simp del]

definition clean_call :: "model_tokens \<Rightarrow> string \<Rightarrow> string option" where
  "clean_call mt tool_call =
     map_option (strip_think (think_start mt) (think_end mt)) (strip_tags tool_call (strip_tags_vec mt))"

subsection \<open>The verdict\<close>

text \<open>
  A broken call (unknown tool, malformed XML) is corrected by the session, once until the latch is
  reset; a call that only misses parameters first gets one chance to be issued again; when the
  attempts are spent the turn is ejected.
\<close>

datatype verdict = Proceed | Self_Fix | Correct | Eject

definition structural_failure :: "tool_result \<Rightarrow> bool" where
  "structural_failure out \<longleftrightarrow> \<not> tr_recognized out \<or> tr_malformed_xml out"

definition minor_failure :: "tool_result \<Rightarrow> bool" where
  "minor_failure out \<longleftrightarrow> \<not> structural_failure out \<and> \<not> tr_params_valid out"

definition judge_call :: "tool_result \<Rightarrow> session_state \<Rightarrow> verdict \<times> session_state" where
  "judge_call out st =
     (if structural_failure out \<or> minor_failure out then
        (let st = (if structural_failure out then st\<lparr>ss_minor_tool_error_self_fix_used := False\<rparr> else st) in
         if minor_failure out \<and> \<not> ss_minor_tool_error_self_fix_used st
         then (Self_Fix, st\<lparr>ss_minor_tool_error_self_fix_used := True\<rparr>)
         else if \<not> ss_correction_attempted_this_turn st
         then (Correct, st\<lparr>ss_correction_attempted_this_turn := True\<rparr>)
         else (Eject, st))
      else (Proceed, st\<lparr>ss_minor_tool_error_self_fix_used := False\<rparr>))"

subsection \<open>The feedback\<close>

definition feedback_text :: "model_tokens \<Rightarrow> tool_result \<Rightarrow> string" where
  "feedback_text mt out =
     (let turn_content = (if tr_high_attention out then tr_content out else TOOL_RESULT_PREFIX @ tr_content out)
      in build_user_assistant_turn_text mt (escape_turn_tags mt (escape_parameter_tags turn_content)))"

definition too_large_text :: "model_tokens \<Rightarrow> nat \<Rightarrow> int \<Rightarrow> string" where
  "too_large_text mt needed available =
     (let too_large_content = TOOL_RESULT_PREFIX @ ''System Error: Tool output too large to fit in remaining context (''
            @ nat_string needed @ '' tokens needed, '' @ nat_string (nat (available mod 2 ^ 32))
            @ '' available). It was discarded. Request a smaller output (e.g., a line range, head/tail, ''
            @ ''or a narrower query) or proceed without it.''
      in build_tool_result_turn_text mt (escape_turn_tags mt (escape_parameter_tags too_large_content)))"

definition ABORT_MSG :: string where
  "ABORT_MSG = ''System Error: You are generating malformed tool calls. Your XML schema is incorrect. ''
     @ ''Stop and carefully review the required format. Do NOT wrap tool calls in markdown code blocks ''
     @ ''or other formatting.''"

definition result_tokens :: "(string \<Rightarrow> token list) \<Rightarrow> model_tokens \<Rightarrow> int \<Rightarrow> int \<Rightarrow> tool_result \<Rightarrow> token list" where
  "result_tokens tokenize mt n_ctx n_past out =
     (let t_tokens = tokenize (feedback_text mt out) in
      if n_past + int (length t_tokens) \<ge> n_ctx
      then tokenize (too_large_text mt (length t_tokens) (n_ctx - n_past)) else t_tokens)"

text \<open>The log of a web search without the page contents: each is replaced up to the next blank line.\<close>

fun skip_page :: "string \<Rightarrow> bool \<Rightarrow> string" where
  "skip_page [] past_blank = []"
| "skip_page (c # cs) past_blank =
     (if c = ch_nl then (if past_blank then c # cs else skip_page cs True) else skip_page cs False)"

lemma skip_page_length: "length (skip_page cs b) \<le> length cs"
  by (induction cs b rule: skip_page.induct) auto

definition PAGE_CONTENT :: string where "PAGE_CONTENT = ''Page Content: ''"

function filter_pages :: "string \<Rightarrow> string" where
  "filter_pages logged =
     (if logged = [] then []
      else case str_find logged PAGE_CONTENT 0 of
        Some p \<Rightarrow>
          (if p + length PAGE_CONTENT < length logged
           then take p logged @ ''[Page Content omitted from log]'' @ [ch_nl]
             @ filter_pages (skip_page (drop (p + length PAGE_CONTENT) logged) False)
           else logged)
      | None \<Rightarrow> logged)"
  by pat_completeness auto
termination
  by (relation "measure length")
    (auto simp: PAGE_CONTENT_def intro!: le_less_trans [OF skip_page_length])

declare filter_pages.simps [simp del]

definition log_result :: "tool_result \<Rightarrow> string" where
  "log_result out =
     (if tr_high_attention out then
        (if tr_content out = [] then [] else ''=== OPERATOR ==='' @ [ch_nl] @ tr_content out @ [ch_nl, ch_nl])
      else if tr_parsed_tool_name out \<noteq> ''exec_shell'' then
        (let logged = (if str_find (tr_content out) ''Search Results for:'' 0 = Some 0
             then filter_pages (tr_content out) else tr_content out)
         in if logged = [] then [] else ''=== TOOL_RESULT ==='' @ [ch_nl] @ logged @ [ch_nl, ch_nl])
      else [])"

definition browser_result :: "tool_result \<Rightarrow> string" where
  "browser_result out =
     (if tr_display out = [] then []
      else [ch_nl, ch_nl] @ ''<div class='' @ [ch_squote] @ ''tool-result'' @ [ch_squote] @ ''><pre><code>''
        @ html_escape (tr_display out) @ ''</code></pre></div>'' @ [ch_nl, ch_nl])"

subsection \<open>Execution\<close>

record 'm exec_env =
  xe_tools :: tool_env
  xe_tokenize :: "string \<Rightarrow> token list"
  xe_n_ctx :: int
  xe_max_auto_continue :: int
  xe_feed :: "nat \<Rightarrow> token list \<Rightarrow> 'm core \<Rightarrow> bool \<times> 'm core"

record exec_result =
  er_auto_continue :: bool
  er_needs_correction :: bool
  er_depth :: int
  er_text :: string
  er_log :: string
  er_browser :: string

text \<open>The tool shares \<open>stop_generation\<close> and the session state with the session.\<close>

definition run_tool ::
  "tool_env \<Rightarrow> string \<Rightarrow> 'm core \<Rightarrow> fsys \<Rightarrow> tool_result \<times> 'm core \<times> fsys" where
  "run_tool te tool_call c fs =
     (let (out, st, w) = execute_tool_call te tool_call (co_state c) \<lparr>w_fs = fs, w_stop = co_stop c\<rparr>
      in (out, c\<lparr>co_state := st, co_stop := w_stop w\<rparr>, w_fs w))"

definition judge ::
  "tool_result \<Rightarrow> 'm core \<Rightarrow> verdict \<times> 'm core" where
  "judge out c =
     (let (v, st) = judge_call out (co_state c); c = c\<lparr>co_state := st\<rparr> in
      if v = Proceed \<and> co_stop c
      then (v, upd_state (ss_reincarnate_mode_update (\<lambda>_. False)) (c\<lparr>co_stop := False\<rparr>)) else (v, c))"

definition feed_abort :: "'m exec_env \<Rightarrow> 'm core \<Rightarrow> 'm core" where
  "feed_abort xe c =
     (let abort_tokens = build_tool_result_turn (xe_tokenize xe) (te_mt (xe_tools xe)) ABORT_MSG in
      if co_n_past c + int (length abort_tokens) < xe_n_ctx xe
      then snd (xe_feed xe 1 abort_tokens c) else c)"

definition set_auto_continue :: "bool \<Rightarrow> 'm core \<Rightarrow> 'm core" where
  "set_auto_continue b c = upd_state (ss_auto_continue_update (\<lambda>_. b)) c"

text \<open>From the verdict on; the result starts with the generated text as it was.\<close>

definition deliver ::
  "'m exec_env \<Rightarrow> tool_result \<Rightarrow> verdict \<Rightarrow> exec_result \<Rightarrow> 'm core \<Rightarrow> exec_result \<times> 'm core" where
  "deliver xe out v er c =
     (case v of
        Correct \<Rightarrow> (er\<lparr>er_needs_correction := True\<rparr>, set_auto_continue False c)
      | Eject \<Rightarrow> (er\<lparr>er_text := []\<rparr>, feed_abort xe (set_auto_continue False c))
      | _ \<Rightarrow>
          (let er = er\<lparr>er_text := [], er_log := log_result out, er_browser := browser_result out\<rparr>;
               t_tokens = result_tokens (xe_tokenize xe) (te_mt (xe_tools xe)) (xe_n_ctx xe) (co_n_past c) out;
               (fed, c) = xe_feed xe 0 t_tokens c
           in if \<not> fed then (er, feed_abort xe (set_auto_continue False c))
              else if er_depth er + 1 > xe_max_auto_continue xe
              then (er\<lparr>er_depth := er_depth er + 1\<rparr>, set_auto_continue False c)
              else (er\<lparr>er_depth := er_depth er + 1, er_auto_continue := True\<rparr>, set_auto_continue True c)))"

definition execute ::
  "'m exec_env \<Rightarrow> string \<Rightarrow> nat \<Rightarrow> nat option \<Rightarrow> bool \<Rightarrow> int \<Rightarrow> 'm core \<Rightarrow> fsys
     \<Rightarrow> cpp_exn + ((exec_result \<times> 'm core) \<times> fsys) option" where
  "execute xe generated_text tool_start tool_end was_mid depth c fs =
     (case joined_call (ss_partial_tool_text (co_state c)) generated_text tool_start tool_end was_mid of
        Inl e \<Rightarrow> Inl e
      | Inr (full_gen, tool_end) \<Rightarrow>
          Inr (case clean_call (te_mt (xe_tools xe)) (call_text full_gen tool_start tool_end) of
             None \<Rightarrow> None
           | Some tool_call \<Rightarrow>
               (let c = upd_state (ss_partial_tool_text_update (\<lambda>_. [])) c;
                    (out, c, fs) = run_tool (xe_tools xe) tool_call c fs;
                    (v, c) = judge out c;
                    er = \<lparr>er_auto_continue = False, er_needs_correction = False, er_depth = depth,
                      er_text = generated_text, er_log = [], er_browser = []\<rparr>
                in Some (deliver xe out v er c, fs))))"

subsection \<open>A call always returns\<close>

lemma marker_tokens_ne: "[] \<notin> set out \<Longrightarrow> [] \<notin> set (marker_tokens m pos out)"
proof (induction m pos out rule: marker_tokens.induct)
  case (1 m pos out)
  show ?case
  proof (cases "str_find m ''<|'' pos")
    case None
    then show ?thesis using 1(2) by (simp add: marker_tokens.simps)
  next
    case (Some p)
    show ?thesis
    proof (cases "str_find m ''|>'' (p + 2)")
      case None
      then show ?thesis using 1(2) Some by (subst marker_tokens.simps) simp
    next
      case q: (Some q)
      have "substr m p (q - p + 2) \<noteq> []"
        using str_find_boundsD [OF Some] by (auto simp: substr_def)
      then have "[] \<notin> set (push_new out (substr m p (q - p + 2)))"
        using 1(2) by (auto simp: push_new_def)
      from 1(1) [OF Some q this] show ?thesis using Some q by (subst marker_tokens.simps) simp
    qed
  qed
qed

lemma collect_marker_ne: "[] \<notin> set out \<Longrightarrow> [] \<notin> set (collect_marker m out)"
  using marker_tokens_ne [of out m 0] by (auto simp: collect_marker_def Let_def push_new_def)

lemma fold_collect_ne: "[] \<notin> set out \<Longrightarrow> [] \<notin> set (fold collect_marker ms out)"
  by (induction ms arbitrary: out) (simp_all add: collect_marker_ne)

lemma clean_call_returns: "\<exists>r. clean_call mt s = Some r"
proof -
  have "[] \<notin> set (strip_tags_vec mt)"
    unfolding strip_tags_vec_def collect_turn_tokens_into_def Let_def by (rule fold_collect_ne) simp
  then show ?thesis using strip_tags_returns by (auto simp: clean_call_def)
qed

subsection \<open>What a tool does to the session state\<close>

text \<open>A tool touches the file cache and the last search path, nothing else.\<close>

definition tool_frame :: "session_state \<Rightarrow> session_state \<Rightarrow> bool" where
  "tool_frame st st' \<longleftrightarrow> st' = st\<lparr>ss_file_cache := ss_file_cache st', ss_last_search_path := ss_last_search_path st'\<rparr>"

lemma tool_frame_simps [simp]:
  "tool_frame st st" "tool_frame st (st\<lparr>ss_file_cache := fc\<rparr>)" "tool_frame st (st\<lparr>ss_last_search_path := lp\<rparr>)"
  "tool_frame st (erase_cached p st)"
  "tool_frame st (ss_last_search_path_update f st) \<longleftrightarrow> True"
  by (simp_all add: tool_frame_def erase_cached_def)

lemma tool_frame_trans:
  assumes "tool_frame a b" "tool_frame b c"
  shows "tool_frame a c"
proof -
  obtain fb lb fc lc where b: "b = a\<lparr>ss_file_cache := fb, ss_last_search_path := lb\<rparr>"
    and "c = b\<lparr>ss_file_cache := fc, ss_last_search_path := lc\<rparr>"
    using assms unfolding tool_frame_def by blast
  then have "c = a\<lparr>ss_file_cache := fc, ss_last_search_path := lc\<rparr>" by simp
  then show ?thesis by (simp add: tool_frame_def)
qed

lemma frame_read: "tool_frame st (fst (snd (run_read_files te c out st w)))"
  by (simp add: run_read_files_def Let_def case_prod_beta)

lemma frame_search: "tool_frame st (fst (snd (run_search_file te c out st w)))"
  by (cases "path_value_malformed (extract_path_arg c)"; cases "extract_path_arg c = []")
    (simp_all add: run_search_file_def Let_def case_prod_beta)

lemma frame_write: "tool_frame st (fst (snd (run_write_file te c out st w)))"
  by (cases "path_value_malformed (extract_path_arg c)"; cases "extract_path_arg c = []")
    (simp_all add: run_write_file_def Let_def case_prod_beta)

lemma frame_edit: "tool_frame st (fst (snd (run_edit_file te c out st w)))"
  by (cases "path_value_malformed (extract_path_arg c)"; cases "extract_path_arg c = []")
    (simp_all add: run_edit_file_def Let_def case_prod_beta)

lemma frame_shell: "tool_frame st (fst (snd (run_exec_shell te c out st w)))"
  by (simp add: run_exec_shell_def Let_def case_prod_beta)

lemma frame_web: "tool_frame st (fst (snd (run_web_search te c out st w)))"
  by (simp add: run_web_search_def Let_def case_prod_beta)

lemma frame_dispatch: "tool_frame st (fst (snd (dispatch_tool te n c out st w)))"
  by (simp add: dispatch_tool_def frame_read frame_search frame_write frame_edit frame_shell frame_web)

lemma frame_finish: "tool_frame st s1 \<Longrightarrow> tool_frame st (snd (finish_tool n i x s1))"
  by (auto simp: finish_tool_def Let_def case_prod_beta intro: tool_frame_trans)

lemma frame_execute: "tool_frame st (fst (snd (execute_tool_call te c st w)))"
proof -
  obtain c1 i where j: "inject_path (call_name c) (ss_last_search_path st) c = (c1, i)" by fastforce
  let ?n = "call_name c"
  consider "w_stop w \<or> \<not> is_known_tool ?n \<or> \<not> check_params ?n c1"
    | (run) "\<not> w_stop w" "is_known_tool ?n" "check_params ?n c1" by blast
  then show ?thesis
  proof cases
    case 1
    then show ?thesis by (auto simp: execute_tool_call_def Let_def j)
  next
    case run
    obtain r s1 w1 where d: "dispatch_tool te ?n c1 (tool_result0\<lparr>tr_recognized := is_known_tool ?n,
        tr_params_valid := check_params ?n c1, tr_parsed_tool_name := ?n\<rparr>) st w = (r, s1, w1)"
      by (metis prod_cases3)
    with frame_dispatch have f: "tool_frame st s1" by (metis fst_conv snd_conv)
    show ?thesis using run d f frame_finish [OF f]
      by (cases r) (simp_all add: execute_tool_call_def Let_def j case_prod_beta)
  qed
qed

subsection \<open>Properties\<close>

text \<open>A turn as a sequence of events that the latches see: a call that is executed, a generation that is stuck
  inside a call, a correction that went through (or was answered without a call), a turn that is given up,
  the start of a generation.\<close>

definition stuck_latch :: "session_state \<Rightarrow> session_state" where
  "stuck_latch s =
     (if ss_correction_attempted_this_turn s then s
      else s\<lparr>ss_correction_attempted_this_turn := True, ss_tool_correction_mode := True\<rparr>)"

definition correction_over :: "session_state \<Rightarrow> session_state" where
  "correction_over s = s\<lparr>ss_correction_attempted_this_turn := False\<rparr>"

datatype chain_event = Called tool_result | Stuck_Call | Correction_Over | Given_Up | Generating bool

fun chain_step :: "chain_event \<Rightarrow> 'm core \<Rightarrow> verdict option \<times> 'm core" where
  "chain_step (Called out) c = (let (v, c) = judge out c in (Some v, c))"
| "chain_step Stuck_Call c =
     (if ss_correction_attempted_this_turn (co_state c) then None else Some Correct, upd_state stuck_latch c)"
| "chain_step Correction_Over c = (None, upd_state correction_over c)"
| "chain_step Given_Up c = (None, upd_state reset_turn_failure_latches c)"
| "chain_step (Generating is_correction) c = (None, begin_generation is_correction c)"

definition chain :: "chain_event list \<Rightarrow> 'm core \<Rightarrow> 'm core" where
  "chain es c = fold (\<lambda>e c. snd (chain_step e c)) es c"

definition verdict_at :: "chain_event list \<Rightarrow> 'm core \<Rightarrow> nat \<Rightarrow> verdict option" where
  "verdict_at es c i = fst (chain_step (es ! i) (chain (take i es) c))"

text \<open>What the latches stand for, told from the events and verdicts before: a correction that is not over, and
  a request to complete a call after which nothing but incomplete calls came.\<close>

definition ends_correction :: "chain_event \<Rightarrow> bool" where
  "ends_correction e \<longleftrightarrow> e = Correction_Over \<or> e = Given_Up"

definition ends_self_fix :: "chain_event \<Rightarrow> bool" where
  "ends_self_fix e \<longleftrightarrow> e = Given_Up \<or> (\<exists>out. e = Called out \<and> \<not> minor_failure out)"

definition pending :: "(chain_event \<Rightarrow> bool) \<Rightarrow> verdict \<Rightarrow> bool \<Rightarrow> chain_event list \<Rightarrow> 'm core \<Rightarrow> nat \<Rightarrow> bool" where
  "pending ends v held es c j \<longleftrightarrow>
     held \<and> (\<forall>k<j. \<not> ends (es ! k))
     \<or> (\<exists>i<j. verdict_at es c i = Some v \<and> (\<forall>k. i < k \<and> k < j \<longrightarrow> \<not> ends (es ! k)))"

lemma judge_call_proceed: "fst (judge_call out st) = Proceed \<longleftrightarrow> call_accepted out"
  by (auto simp: judge_call_def structural_failure_def minor_failure_def call_accepted_def Let_def)

lemma judge_latches:
  assumes "judge out c = (v, c')"
  shows "v = (let corrected = ss_correction_attempted_this_turn (co_state c) in
      if structural_failure out then (if corrected then Eject else Correct)
      else if minor_failure out then
        (if \<not> ss_minor_tool_error_self_fix_used (co_state c) then Self_Fix else if corrected then Eject else Correct)
      else Proceed)"
    "ss_correction_attempted_this_turn (co_state c') \<longleftrightarrow> ss_correction_attempted_this_turn (co_state c) \<or> v = Correct"
    "ss_minor_tool_error_self_fix_used (co_state c') \<longleftrightarrow>
       (ss_minor_tool_error_self_fix_used (co_state c) \<and> minor_failure out) \<or> v = Self_Fix"
    "ss_tool_correction_checkpoint_idx (co_state c') = ss_tool_correction_checkpoint_idx (co_state c)"
  using assms by (auto simp: judge_def judge_call_def minor_failure_def Let_def split: if_splits)

lemma chain_latches:
  assumes "ss_tool_correction_checkpoint_idx (co_state c) \<ge> 0" "chain_step e c = (v, c')"
  shows "ss_correction_attempted_this_turn (co_state c') \<longleftrightarrow>
      (ss_correction_attempted_this_turn (co_state c) \<and> \<not> ends_correction e) \<or> v = Some Correct"
    "ss_minor_tool_error_self_fix_used (co_state c') \<longleftrightarrow>
      (ss_minor_tool_error_self_fix_used (co_state c) \<and> \<not> ends_self_fix e) \<or> v = Some Self_Fix"
    "ss_tool_correction_checkpoint_idx (co_state c') = ss_tool_correction_checkpoint_idx (co_state c)"
proof -
  have "(ss_correction_attempted_this_turn (co_state c') \<longleftrightarrow>
      (ss_correction_attempted_this_turn (co_state c) \<and> \<not> ends_correction e) \<or> v = Some Correct)
    \<and> (ss_minor_tool_error_self_fix_used (co_state c') \<longleftrightarrow>
      (ss_minor_tool_error_self_fix_used (co_state c) \<and> \<not> ends_self_fix e) \<or> v = Some Self_Fix)
    \<and> ss_tool_correction_checkpoint_idx (co_state c') = ss_tool_correction_checkpoint_idx (co_state c)"
  proof (cases e)
    case (Called out)
    obtain w c1 where j: "judge out c = (w, c1)" by fastforce
    with Called assms(2) have "v = Some w" "c' = c1" by simp_all
    then show ?thesis using judge_latches(2-4) [OF j] Called by (auto simp: ends_correction_def ends_self_fix_def)
  qed (use assms in \<open>auto simp: stuck_latch_def correction_over_def reset_turn_failure_latches_def begin_generation_def
    ends_correction_def ends_self_fix_def split: if_splits\<close>)
  then show "ss_correction_attempted_this_turn (co_state c') \<longleftrightarrow>
      (ss_correction_attempted_this_turn (co_state c) \<and> \<not> ends_correction e) \<or> v = Some Correct"
    "ss_minor_tool_error_self_fix_used (co_state c') \<longleftrightarrow>
      (ss_minor_tool_error_self_fix_used (co_state c) \<and> \<not> ends_self_fix e) \<or> v = Some Self_Fix"
    "ss_tool_correction_checkpoint_idx (co_state c') = ss_tool_correction_checkpoint_idx (co_state c)" by blast+
qed

lemma chain_Suc: "i < length es \<Longrightarrow> chain (take (Suc i) es) c = snd (chain_step (es ! i) (chain (take i es) c))"
  by (simp add: chain_def take_Suc_conv_app_nth)

text \<open>A latch that an event sets or clears is what the history says.\<close>

lemma pending_Suc:
  "pending ends v b es c (Suc j) \<longleftrightarrow> (pending ends v b es c j \<and> \<not> ends (es ! j)) \<or> verdict_at es c j = Some v"
  by (auto simp: pending_def less_Suc_eq)

lemma chain_pending:
  assumes "ss_tool_correction_checkpoint_idx (co_state c) \<ge> 0" "j \<le> length es"
  shows "ss_tool_correction_checkpoint_idx (co_state (chain (take j es) c)) \<ge> 0"
    "ss_correction_attempted_this_turn (co_state (chain (take j es) c)) \<longleftrightarrow>
      pending ends_correction Correct (ss_correction_attempted_this_turn (co_state c)) es c j"
    "ss_minor_tool_error_self_fix_used (co_state (chain (take j es) c)) \<longleftrightarrow>
      pending ends_self_fix Self_Fix (ss_minor_tool_error_self_fix_used (co_state c)) es c j"
proof -
  have "ss_tool_correction_checkpoint_idx (co_state (chain (take j es) c)) \<ge> 0
    \<and> (ss_correction_attempted_this_turn (co_state (chain (take j es) c)) \<longleftrightarrow>
      pending ends_correction Correct (ss_correction_attempted_this_turn (co_state c)) es c j)
    \<and> (ss_minor_tool_error_self_fix_used (co_state (chain (take j es) c)) \<longleftrightarrow>
      pending ends_self_fix Self_Fix (ss_minor_tool_error_self_fix_used (co_state c)) es c j)"
    using assms(2)
  proof (induction j)
    case 0
    then show ?case using assms(1) by (simp add: chain_def pending_def)
  next
    case (Suc j)
    then have j: "j < length es" by simp
    obtain v d where s: "chain_step (es ! j) (chain (take j es) c) = (v, d)" by fastforce
    have IH: "ss_tool_correction_checkpoint_idx (co_state (chain (take j es) c)) \<ge> 0" using Suc by simp
    note l = chain_latches [OF IH s]
    show ?case using Suc l s unfolding pending_Suc chain_Suc [OF j] by (simp add: verdict_at_def)
  qed
  then show "ss_tool_correction_checkpoint_idx (co_state (chain (take j es) c)) \<ge> 0"
    "ss_correction_attempted_this_turn (co_state (chain (take j es) c)) \<longleftrightarrow>
      pending ends_correction Correct (ss_correction_attempted_this_turn (co_state c)) es c j"
    "ss_minor_tool_error_self_fix_used (co_state (chain (take j es) c)) \<longleftrightarrow>
      pending ends_self_fix Self_Fix (ss_minor_tool_error_self_fix_used (co_state c)) es c j" by blast+
qed

text \<open>C30: In a turn with a slot in use, over any sequence of calls, stuck generations, corrections that end, given up
  turns and starts of generations, the verdict of a call is: for a structurally broken one the correction, or
  the ejection while an earlier correction of this chain is not over; for an incomplete one the request to
  complete it, unless it follows such a request with nothing but incomplete calls and stuck generations
  between, then as for a broken one; any other call proceeds, which are exactly the accepted ones. So every
  correction that is over gives the next broken call a fresh one, and there are never two requests in a row.\<close>

theorem verdict_chain:
  assumes "ss_tool_correction_checkpoint_idx (co_state c) \<ge> 0" "j < length es" "es ! j = Called out"
  defines "corrected \<equiv> pending ends_correction Correct (ss_correction_attempted_this_turn (co_state c)) es c j"
    and "asked \<equiv> pending ends_self_fix Self_Fix (ss_minor_tool_error_self_fix_used (co_state c)) es c j"
  shows "verdict_at es c j = Some
      (if structural_failure out then (if corrected then Eject else Correct)
       else if minor_failure out then (if \<not> asked then Self_Fix else if corrected then Eject else Correct)
       else Proceed)
    \<and> (verdict_at es c j = Some Proceed \<longleftrightarrow> call_accepted out)"
proof -
  obtain v d where j: "judge out (chain (take j es) c) = (v, d)" by fastforce
  have v: "verdict_at es c j = Some v" by (simp add: verdict_at_def assms(3) j)
  note p = chain_pending [OF assms(1), of j es]
  show ?thesis using judge_latches(1) [OF j] p(2,3) assms(2) judge_call_proceed
    unfolding v corrected_def asked_def
    by (auto simp: Let_def structural_failure_def minor_failure_def call_accepted_def)
qed

definition broken_call :: tool_result where
  "broken_call = tool_result0\<lparr>tr_malformed_xml := True\<rparr>"

lemma verdict_chain_witness:
  "map (verdict_at [Called broken_call, Generating False, Called broken_call, Correction_Over, Called broken_call]
      (upd_state (ss_tool_correction_checkpoint_idx_update (\<lambda>_. 0)) ex_core)) [0, 2, 4] = [Some Correct, Some Eject, Some Correct]"
proof -
  let ?es = "[Called broken_call, Generating False, Called broken_call, Correction_Over, Called broken_call]"
  let ?c = "upd_state (ss_tool_correction_checkpoint_idx_update (\<lambda>_. 0)) ex_core"
  have i: "ss_tool_correction_checkpoint_idx (co_state ?c) \<ge> 0" by simp
  have b: "structural_failure broken_call" by (simp add: broken_call_def structural_failure_def)
  have a: "\<not> ss_correction_attempted_this_turn (co_state ?c)" by (simp add: ex_core_def session_state0_def)
  have s: "?es ! 0 = Called broken_call" "?es ! 2 = Called broken_call" "?es ! 4 = Called broken_call" by simp_all
  have v: "verdict_at ?es ?c 0 = Some Correct"
    using verdict_chain [OF i _ s(1)] a b by (simp add: pending_def)
  have p2: "pending ends_correction Correct False ?es ?c 2"
    unfolding pending_def using v by (intro disjI2 exI [of _ 0]) (auto simp: ends_correction_def less_2_cases_iff)
  have p4: "\<not> pending ends_correction Correct False ?es ?c (Suc (Suc (Suc (Suc 0))))"
    by (simp add: pending_Suc ends_correction_def verdict_at_def)
  show ?thesis
    using v verdict_chain [OF i _ s(2)] verdict_chain [OF i _ s(3)] a b p2 p4 by (simp add: numeral_eq_Suc)
qed

lemma run_tool_frame:
  assumes "run_tool te call c fs = (out, c', fs')"
  shows "co_mem c' = co_mem c" "co_n_past c' = co_n_past c" "tool_frame (co_state c) (co_state c')"
proof -
  obtain o1 s1 w1 where e: "execute_tool_call te call (co_state c) \<lparr>w_fs = fs, w_stop = co_stop c\<rparr> = (o1, s1, w1)"
    by (metis prod_cases3)
  have "tool_frame (co_state c) s1" using frame_execute [of "co_state c" te call] e by (metis fst_conv snd_conv)
  then show "co_mem c' = co_mem c" "co_n_past c' = co_n_past c" "tool_frame (co_state c) (co_state c')"
    using assms by (auto simp: run_tool_def e)
qed

lemma frame_tracker: "tool_frame st st' \<Longrightarrow> ss_all_context_tokens st' = ss_all_context_tokens st"
  unfolding tool_frame_def by (erule ssubst) simp

lemma judge_keeps:
  assumes "judge out c = (v, c')"
  shows "co_mem c' = co_mem c" "co_n_past c' = co_n_past c" "tracker c' = tracker c" "v = fst (judge_call out (co_state c))"
  using assms by (auto simp: judge_def judge_call_def Let_def split: if_splits)

context kv_memory
begin

lemma feed_abort_holds:
  assumes "synced holds c" "xe_feed xe 1 = feed_tokens_impl ops nb ev" "xe_n_ctx xe \<le> POS_MAX"
  obtains j where "synced holds (feed_abort xe c)"
    "tracker (feed_abort xe c) = tracker c @ take j (build_tool_result_turn (xe_tokenize xe) (te_mt (xe_tools xe)) ABORT_MSG)"
    "ss_auto_continue (co_state (feed_abort xe c)) = ss_auto_continue (co_state c)"
proof (cases "co_n_past c + int (length (build_tool_result_turn (xe_tokenize xe) (te_mt (xe_tools xe)) ABORT_MSG)) < xe_n_ctx xe")
  case True
  let ?t = "build_tool_result_turn (xe_tokenize xe) (te_mt (xe_tools xe)) ABORT_MSG"
  obtain ok c1 where f: "feed_tokens_impl ops nb ev ?t c = (ok, c1)" by fastforce
  have "int (length (tracker c @ ?t)) \<le> POS_MAX" using True assms(1,3) by (simp add: synced_def)
  from feed_holds [OF assms(1) this f] obtain k where "synced holds c1" "tracker c1 = tracker c @ take k ?t"
    "co_state c1 = (co_state c)\<lparr>ss_all_context_tokens := tracker c @ take k ?t\<rparr>" by blast
  with that [of k] True f assms(2) show thesis by (simp add: feed_abort_def)
next
  case False
  with that [of 0] assms(1) show thesis by (simp add: feed_abort_def)
qed

lemma auto_continue_keeps [simp]: "synced holds (set_auto_continue b c) = synced holds c"
  "tracker (set_auto_continue b c) = tracker c" "ss_auto_continue (co_state (set_auto_continue b c)) = b"
  by (simp_all add: synced_def set_auto_continue_def)

lemma deliver_holds:
  assumes "synced holds c" "xe_feed xe = (\<lambda>i. feed_tokens_impl ops nb (ev i))" "xe_n_ctx xe \<le> POS_MAX"
    and "ts = result_tokens (xe_tokenize xe) (te_mt (xe_tools xe)) (xe_n_ctx xe) (co_n_past c) out"
    and "int (length (tracker c @ ts)) \<le> POS_MAX"
    and "deliver xe out v er c = (er', c')" "\<not> er_auto_continue er" "er_depth er = d" "\<not> er_needs_correction er"
  obtains k j where "k \<le> length ts" "synced holds c'"
    "tracker c' = tracker c @ take k ts @ take j (build_tool_result_turn (xe_tokenize xe) (te_mt (xe_tools xe)) ABORT_MSG)"
    "ss_auto_continue (co_state c') = er_auto_continue er'" "er_needs_correction er' \<longleftrightarrow> v = Correct"
    "v = Correct \<Longrightarrow> k = 0 \<and> j = 0" "v = Eject \<Longrightarrow> k = 0"
    "er_auto_continue er' \<Longrightarrow> v \<in> {Proceed, Self_Fix} \<and> k = length ts \<and> j = 0
       \<and> er_depth er' = d + 1 \<and> d + 1 \<le> xe_max_auto_continue xe"
proof (cases "v \<in> {Correct, Eject}")
  case True
  have f: "xe_feed xe 1 = feed_tokens_impl ops nb (ev 1)" by (simp add: assms(2))
  have s: "synced holds (set_auto_continue False c)" using assms(1) by simp
  obtain j where "synced holds (feed_abort xe (set_auto_continue False c))"
    "tracker (feed_abort xe (set_auto_continue False c)) = tracker (set_auto_continue False c)
       @ take j (build_tool_result_turn (xe_tokenize xe) (te_mt (xe_tools xe)) ABORT_MSG)"
    "ss_auto_continue (co_state (feed_abort xe (set_auto_continue False c))) = False"
    by (rule feed_abort_holds [OF s f assms(3)]) simp
  then show thesis
    using that [of 0 "if v = Correct then 0 else j"] True assms(1,6-9) by (auto simp: deliver_def)
next
  case False
  obtain fed c1 where f: "feed_tokens_impl ops nb (ev 0) ts c = (fed, c1)" by fastforce
  from feed_holds [OF assms(1,5) f] obtain k where k: "k \<le> length ts" "synced holds c1"
    "tracker c1 = tracker c @ take k ts" "fed \<Longrightarrow> k = length ts" by blast
  have g: "xe_feed xe 1 = feed_tokens_impl ops nb (ev 1)" by (simp add: assms(2))
  have s: "synced holds (set_auto_continue False c1)" using k(2) by simp
  obtain j where j: "synced holds (feed_abort xe (set_auto_continue False c1))"
    "tracker (feed_abort xe (set_auto_continue False c1)) = tracker (set_auto_continue False c1)
       @ take j (build_tool_result_turn (xe_tokenize xe) (te_mt (xe_tools xe)) ABORT_MSG)"
    "ss_auto_continue (co_state (feed_abort xe (set_auto_continue False c1))) = False"
    by (rule feed_abort_holds [OF s g assms(3)]) simp
  have v: "v = Proceed \<or> v = Self_Fix" using False by (cases v) auto
  let ?er = "er\<lparr>er_text := [], er_log := log_result out, er_browser := browser_result out\<rparr>"
  have d: "(er', c') = (if \<not> fed then (?er, feed_abort xe (set_auto_continue False c1))
     else if d + 1 > xe_max_auto_continue xe then (?er\<lparr>er_depth := d + 1\<rparr>, set_auto_continue False c1)
     else (?er\<lparr>er_depth := d + 1, er_auto_continue := True\<rparr>, set_auto_continue True c1))"
    using v f assms(2,4,6,8) by (auto simp: deliver_def Let_def)
  consider (no) "\<not> fed" | (deep) "fed" "d + 1 > xe_max_auto_continue xe" | (go) "fed" "\<not> d + 1 > xe_max_auto_continue xe"
    by blast
  then show thesis
  proof cases
    case no
    with d have e: "er' = ?er" "c' = feed_abort xe (set_auto_continue False c1)" by simp_all
    show ?thesis by (rule that [of k j]) (use e j k False assms(7,9) in simp_all)
  next
    case deep
    with d have e: "er' = ?er\<lparr>er_depth := d + 1\<rparr>" "c' = set_auto_continue False c1" by simp_all
    show ?thesis by (rule that [of k 0]) (use e k deep False assms(7,9) in simp_all)
  next
    case go
    with d have e: "er' = ?er\<lparr>er_depth := d + 1, er_auto_continue := True\<rparr>" "c' = set_auto_continue True c1"
      by simp_all
    show ?thesis by (rule that [of k 0]) (use e k v go False assms(9) in simp_all)
  qed
qed

end

text \<open>C31: Executing a call keeps tracker, memory and position in agreement, whatever the call, the tool and the
  feeds do: the context grows by a prefix of the result turn and a prefix of the abort notice, by nothing
  when a correction is to follow; the session goes on by itself only when the whole result was fed and
  the limit is not reached, and the depth is then one higher.\<close>

theorem execute_context:
  assumes "synced mem_holds c" "xe_feed xe = (\<lambda>i. feed_tokens_impl memory_ops nb (ev i))" "xe_n_ctx xe \<le> POS_MAX"
    and "joined_call (ss_partial_tool_text (co_state c)) generated tool_start tool_end was_mid = Inr (full, e)"
    and "clean_call (te_mt (xe_tools xe)) (call_text full tool_start e) = Some call"
    and "run_tool (xe_tools xe) call (upd_state (ss_partial_tool_text_update (\<lambda>_. [])) c) fs = (out, c1, fs')"
    and "ts = result_tokens (xe_tokenize xe) (te_mt (xe_tools xe)) (xe_n_ctx xe) (co_n_past c) out"
    and "int (length (tracker c @ ts)) \<le> POS_MAX"
  shows "\<exists>er c' k j. execute xe generated tool_start tool_end was_mid depth c fs = Inr (Some ((er, c'), fs'))
    \<and> k \<le> length ts \<and> synced mem_holds c'
    \<and> tracker c' = tracker c @ take k ts
        @ take j (build_tool_result_turn (xe_tokenize xe) (te_mt (xe_tools xe)) ABORT_MSG)
    \<and> ss_auto_continue (co_state c') = er_auto_continue er
    \<and> er_needs_correction er = (fst (judge_call out (co_state c1)) = Correct)
    \<and> (if er_needs_correction er then k = 0 \<and> j = 0 else True)
    \<and> (if er_auto_continue er then k = length ts \<and> j = 0 \<and> er_depth er = depth + 1
         \<and> depth + 1 \<le> xe_max_auto_continue xe else True)"
proof -
  let ?er = "\<lparr>er_auto_continue = False, er_needs_correction = False, er_depth = depth,
    er_text = generated, er_log = [], er_browser = []\<rparr>"
  note r = run_tool_frame [OF assms(6)]
  obtain v c2 where v: "judge out c1 = (v, c2)" by fastforce
  note j = judge_keeps [OF v]
  have t: "tracker c2 = tracker c" "co_n_past c2 = co_n_past c" "co_mem c2 = co_mem c"
    using r j frame_tracker [OF r(3)] by simp_all
  with assms(1) have s: "synced mem_holds c2" by (simp add: synced_def)
  obtain er c' where d: "deliver xe out v ?er c2 = (er, c')" by fastforce
  obtain k n where k: "k \<le> length ts" "synced mem_holds c'"
    "tracker c' = tracker c2 @ take k ts
      @ take n (build_tool_result_turn (xe_tokenize xe) (te_mt (xe_tools xe)) ABORT_MSG)"
    "ss_auto_continue (co_state c') = er_auto_continue er" "er_needs_correction er \<longleftrightarrow> v = Correct"
    "v = Correct \<Longrightarrow> k = 0 \<and> n = 0"
    "er_auto_continue er \<Longrightarrow> v \<in> {Proceed, Self_Fix} \<and> k = length ts \<and> n = 0
       \<and> er_depth er = depth + 1 \<and> depth + 1 \<le> xe_max_auto_continue xe"
    by (rule mem.deliver_holds [OF s assms(2,3) _ _ d, where ts = ts and d = depth])
      (use assms(7,8) t in simp_all)
  have x: "execute xe generated tool_start tool_end was_mid depth c fs = Inr (Some ((er, c'), fs'))"
    by (simp add: execute_def assms(4-6) v d)
  show ?thesis
    by (rule exI [of _ er], rule exI [of _ c'], rule exI [of _ k], rule exI [of _ n])
      (use x k t(1) j(4) in simp)
qed

definition ex_xe :: "memory exec_env" where
  "ex_xe = \<lparr>xe_tools = ex_te, xe_tokenize = (\<lambda>_. [9]), xe_n_ctx = 100, xe_max_auto_continue = 5,
     xe_feed = (\<lambda>i. feed_tokens_impl memory_ops 2 \<lparr>fe_stop = (\<lambda>_. False), fe_ret = (\<lambda>_. (0, 0))\<rparr>)\<rparr>"

theorem execute_context_witness:
  "\<exists>out (c1 :: memory core) fs' er c' k j. execute ex_xe ''hello'' 0 None False 0 ex_core ex_fs = Inr (Some ((er, c'), fs'))
    \<and> k \<le> length [9 :: token] \<and> synced mem_holds c'
    \<and> tracker c' = tracker ex_core @ take k [9]
        @ take j (build_tool_result_turn (xe_tokenize ex_xe) (te_mt (xe_tools ex_xe)) ABORT_MSG)
    \<and> ss_auto_continue (co_state c') = er_auto_continue er
    \<and> er_needs_correction er = (fst (judge_call out (co_state c1)) = Correct)
    \<and> (if er_needs_correction er then k = 0 \<and> j = 0 else True)
    \<and> (if er_auto_continue er then k = length [9 :: token] \<and> j = 0 \<and> er_depth er = 0 + 1
         \<and> 0 + 1 \<le> xe_max_auto_continue ex_xe else True)"
proof -
  have p: "joined_call (ss_partial_tool_text (co_state ex_core)) ''hello'' 0 None False = Inr (''hello'', None)"
    by (simp add: joined_call_def ex_core_def session_state0_def)
  obtain call where call: "clean_call (te_mt (xe_tools ex_xe)) (call_text ''hello'' 0 None) = Some call"
    using clean_call_returns by blast
  obtain out c1 fs' where r: "run_tool (xe_tools ex_xe) call
      (upd_state (ss_partial_tool_text_update (\<lambda>_. [])) ex_core) ex_fs = (out, c1, fs')"
    by (metis prod_cases3)
  have f: "xe_feed ex_xe = (\<lambda>i. feed_tokens_impl memory_ops 2
      ((\<lambda>_. \<lparr>fe_stop = (\<lambda>_. False), fe_ret = (\<lambda>_. (0, 0))\<rparr>) i))"
    by (simp add: ex_xe_def)
  have t: "[9] = result_tokens (xe_tokenize ex_xe) (te_mt (xe_tools ex_xe)) (xe_n_ctx ex_xe) (co_n_past ex_core) out"
    by (simp add: ex_xe_def result_tokens_def Let_def)
  have n: "xe_n_ctx ex_xe \<le> POS_MAX" "int (length (tracker ex_core @ [9])) \<le> POS_MAX"
    by (simp_all add: ex_xe_def POS_MAX_def)
  show ?thesis
    by (rule exI [of _ out], rule exI [of _ c1], rule exI [of _ fs'])
      (rule execute_context [OF ex_core_synced f n(1) p call r t n(2)])
qed

end
