(* ===== verification/Lim_GenText.thy ===== *)
theory Lim_GenText
  imports Lim_ToolEnd
begin

section \<open>The text of a generation (token\_generator.cc)\<close>

text \<open>
  What \<open>TokenGenerator::generate\<close> does with the text after each sampled token: it tracks the thinking
  block, finds the opening tag of a call outside of it, the end of the call, and the degenerate
  endings. All scans are incremental; Lim\_Scan shows that they find what a scan of the whole
  text would find. Rendering (\<open>print_pos_\<close>, \<open>unprinted_text_\<close>) does not influence the rest and is left out.
\<close>

subsection \<open>State\<close>

record gtext =
  gt_text :: string
  gt_tool_start :: "nat option"
  gt_tool_end :: "nat option"
  gt_trigger :: bool
  gt_func_search_pos :: nat
  gt_in_parameter :: bool
  gt_in_tool_stream :: bool
  gt_think_start :: "nat option"
  gt_think_end :: "nat option"
  gt_think_depth :: int
  gt_think_scan_pos :: nat
  gt_in_thinking :: bool
  gt_t_count :: int
  gt_outside_count :: int
  gt_seen_parameter :: bool
  gt_hook_pending :: bool

definition gtext_init :: "bool \<Rightarrow> bool \<Rightarrow> gtext" where
  "gtext_init was_mid_tool_call was_mid_thinking_block =
     \<lparr>gt_text = [], gt_tool_start = (if was_mid_tool_call then Some 0 else None), gt_tool_end = None,
      gt_trigger = False, gt_func_search_pos = 0, gt_in_parameter = False,
      gt_in_tool_stream = was_mid_tool_call,
      gt_think_start = (if was_mid_thinking_block then Some 0 else None), gt_think_end = None,
      gt_think_depth = 1, gt_think_scan_pos = 0, gt_in_thinking = was_mid_thinking_block,
      gt_t_count = 0, gt_outside_count = 0, gt_seen_parameter = False, gt_hook_pending = False\<rparr>"

definition FUNC_SEARCH_TAIL :: nat where "FUNC_SEARCH_TAIL = 2 * length FUNC_START"

text \<open>The start of the last \<open>n\<close> characters (0 for a shorter text).\<close>

definition tail_pos :: "string \<Rightarrow> nat \<Rightarrow> nat" where
  "tail_pos s n = (if length s > n then length s - n else 0)"

subsection \<open>The thinking block\<close>

text \<open>The scan for the tag that closes the outer block: whether a nested opening tag was met (not in a
  silent probe), the depth, the end and the position where the scan stopped.\<close>

function think_loop :: "string \<Rightarrow> string \<Rightarrow> bool \<Rightarrow> string \<Rightarrow> nat \<Rightarrow> int \<Rightarrow> bool \<times> int \<times> nat option \<times> nat" where
  "think_loop ts te silent tx scan depth =
     (let p_open = str_find tx ts scan; p_close = str_find tx te scan;
          is_open = (case p_open of None \<Rightarrow> False
            | Some a \<Rightarrow> (case p_close of None \<Rightarrow> True | Some b \<Rightarrow> a < b))
      in case (if is_open then p_open else p_close) of
           None \<Rightarrow> (False, depth, None, scan)
         | Some p \<Rightarrow>
             (if is_open \<and> \<not> silent then (True, depth, None, scan)
              else let depth = depth + (if is_open then 1 else - 1) in
                if \<not> is_open \<and> depth \<le> 0 then (False, depth, Some p, scan)
                else think_loop ts te silent tx (p + 1) depth))"
  by pat_completeness auto
termination
proof (relation "measure (\<lambda>(ts, te, silent, tx, scan, depth). length tx + 1 - scan)", goal_cases)
  case (2 ts te silent tx scan depth p_open p_close is_open p depth')
  then have "str_find tx (if is_open then ts else te) scan = Some p" by (simp split: if_splits)
  then have "scan \<le> p \<and> p \<le> length tx" using str_find_boundsD by fastforce
  then show ?case by simp linarith
qed simp

declare think_loop.simps [simp del]

definition detect_think :: "string \<Rightarrow> string \<Rightarrow> bool \<Rightarrow> gtext \<Rightarrow> bool \<times> gtext" where
  "detect_think ts te silent g =
     (let (tripped, g) =
        (if ts \<noteq> [] \<and> te \<noteq> [] then
           (let g = (if gt_think_start g = None then
                       (case str_find (gt_text g) ts 0 of
                          None \<Rightarrow> g
                        | Some p \<Rightarrow> g\<lparr>gt_think_start := Some p, gt_think_depth := 1,
                            gt_think_scan_pos := p + length ts\<rparr>)
                     else g)
            in if gt_think_start g \<noteq> None \<and> gt_think_end g = None then
                 (let (tripped, depth, e, scan) = think_loop ts te silent (gt_text g)
                        (min (gt_think_scan_pos g) (length (gt_text g))) (gt_think_depth g);
                      tl = tail_pos (gt_text g) (max (length ts) (length te) - 1)
                  in (tripped, g\<lparr>gt_think_depth := depth, gt_think_end := e, gt_think_scan_pos := max scan tl\<rparr>))
               else (False, g))
         else (False, g))
      in (tripped, g\<lparr>gt_in_thinking := (gt_think_start g \<noteq> None \<and> gt_think_end g = None)\<rparr>))"

subsection \<open>The call\<close>

definition in_think_block :: "string \<Rightarrow> gtext \<Rightarrow> nat \<Rightarrow> bool" where
  "in_think_block te g p =
     (case gt_think_start g of None \<Rightarrow> False
      | Some s \<Rightarrow> s \<le> p \<and> (case gt_think_end g of None \<Rightarrow> True | Some e \<Rightarrow> p < e + length te))"

function find_func_start :: "(nat \<Rightarrow> bool) \<Rightarrow> string \<Rightarrow> nat \<Rightarrow> nat option" where
  "find_func_start skip tx search_from =
     (case str_find tx FUNC_START search_from of
        None \<Rightarrow> None
      | Some found \<Rightarrow> if skip found then find_func_start skip tx (found + length FUNC_START) else Some found)"
  by pat_completeness auto
termination
  by (relation "measure (\<lambda>(skip, tx, from). length tx + 1 - from)")
    (auto simp: FUNC_START_def dest!: str_find_boundsD)

declare find_func_start.simps [simp del]

definition detect_tool_start :: "string \<Rightarrow> gtext \<Rightarrow> gtext" where
  "detect_tool_start te g =
     (if gt_tool_start g \<noteq> None then g
      else case find_func_start (in_think_block te g) (gt_text g) (gt_func_search_pos g) of
        Some p \<Rightarrow> g\<lparr>gt_tool_start := Some p, gt_hook_pending := True\<rparr>
      | None \<Rightarrow> g\<lparr>gt_func_search_pos := tail_pos (gt_text g) FUNC_SEARCH_TAIL\<rparr>)"

definition search_tool_end :: "bool \<Rightarrow> gtext \<Rightarrow> gtext" where
  "search_tool_end was_mid g =
     (case gt_tool_start g of
        Some s \<Rightarrow>
          (if gt_tool_end g = None then
             (let (tx, e, inp) = detect_tool_end (gt_text g) (if was_mid then 0 else s)
              in g\<lparr>gt_text := tx, gt_tool_end := e, gt_in_parameter := inp\<rparr>)
           else g)
      | None \<Rightarrow> g)"

text \<open>What follows: the repeated \<open></\<close>, the completed call, the call that makes no progress, or the next
  token. In the first case the text of the forced closing tag is built but never appended.\<close>

datatype text_outcome = Slash_Loop | Tool_Done | Stuck | Go_On

definition slash_loop :: "gtext \<Rightarrow> bool" where
  "slash_loop g \<longleftrightarrow> gt_in_tool_stream g \<and> \<not> gt_in_parameter g \<and> length (gt_text g) \<ge> length DOUBLE_OPEN
     \<and> drop (length (gt_text g) - length DOUBLE_OPEN) (gt_text g) = DOUBLE_OPEN"

definition cut_slash_loop :: "gtext \<Rightarrow> gtext" where
  "cut_slash_loop g =
     (let tx = (case str_rfind (gt_text g) DOUBLE_OPEN of
                  Some p \<Rightarrow> if (case gt_tool_start g of Some s \<Rightarrow> p > s | None \<Rightarrow> False) then take p (gt_text g)
                    else gt_text g
                | None \<Rightarrow> gt_text g)
      in g\<lparr>gt_text := tx, gt_trigger := True\<rparr>)"

definition text_event :: "int \<Rightarrow> gtext \<Rightarrow> text_outcome \<times> gtext" where
  "text_event outside_limit g =
     (let g = g\<lparr>gt_in_tool_stream := (gt_tool_start g \<noteq> None \<and> gt_tool_end g = None)\<rparr> in
      if slash_loop g then (Slash_Loop, cut_slash_loop g)
      else case gt_tool_end g of
        Some e \<Rightarrow> (Tool_Done, g\<lparr>gt_text := truncate_at_tool_end (gt_text g) e, gt_trigger := True\<rparr>)
      | None \<Rightarrow> if gt_outside_count g \<ge> outside_limit then (Stuck, g) else (Go_On, g))"

text \<open>\<open>llama_token_to_piece\<close> answers the negated size for a piece that does not fit its buffer; the count
  then looks at one character less.\<close>

definition TOKEN_BUF_SIZE :: nat where "TOKEN_BUF_SIZE = 128"

definition piece_len :: "string \<Rightarrow> nat" where
  "piece_len piece = (if length piece \<le> TOKEN_BUF_SIZE then length piece else length piece - 1)"

definition count_token :: "string \<Rightarrow> bool \<Rightarrow> gtext \<Rightarrow> gtext" where
  "count_token piece eog_recovered g =
     (let g = g\<lparr>gt_t_count := gt_t_count g + 1\<rparr> in
      if gt_in_tool_stream g then
        (let g = (if gt_in_parameter g then g\<lparr>gt_seen_parameter := True\<rparr> else g) in
         if gt_seen_parameter g \<and> \<not> gt_in_parameter g
            \<and> \<not> list_all is_space (drop (length (gt_text g) - piece_len piece) (gt_text g)) \<and> \<not> eog_recovered
         then g\<lparr>gt_outside_count := gt_outside_count g + 1\<rparr> else g)
      else g)"

text \<open>An EOG that is not recovered inside an open call closes the call.\<close>

definition close_open_call :: "gtext \<Rightarrow> gtext" where
  "close_open_call g =
     (case gt_tool_start g of
        Some s \<Rightarrow>
          (if gt_tool_end g = None then
             (let tx = (case str_rfind (gt_text g) ''</'' of
                          Some p \<Rightarrow> if p > s then take p (gt_text g) else gt_text g | None \<Rightarrow> gt_text g)
                    @ [ch_nl] @ FUNC_END @ [ch_nl]
              in g\<lparr>gt_text := tx, gt_tool_end := Some (length tx - length FUNC_END), gt_trigger := True\<rparr>)
           else g)
      | None \<Rightarrow> g)"

end
