(* ===== verification/Lim_Window.thy ===== *)
theory Lim_Window
  imports Lim_Memory
begin

section \<open>The memory under speculative decoding\<close>

text \<open>
  With a draft head the recurrent memory keeps the states of the last \<open>n_rs_seq\<close> tokens of a batch, so that
  rejected drafts can be removed without a checkpoint. The contract of this use is its own interface:
  \<open>holds m ts w\<close> says that the memory is that of the tokens \<open>ts\<close> and that up to \<open>w\<close> of them can be
  removed. A batch of \<open>n\<close> tokens opens a window of \<open>n - 1\<close> (as far as \<open>cap\<close> allows), a removal closes it.
  \<open>view m p us\<close> is what the logits of the last row of \<open>us\<close> depend on.
\<close>

subsection \<open>Interface\<close>

locale window_memory =
  fixes ops :: "'m mem_ops" and holds :: "'m \<Rightarrow> token list \<Rightarrow> nat \<Rightarrow> bool" and cap :: "'m \<Rightarrow> nat"
    and kind :: "'m \<Rightarrow> bool" and view :: "'m \<Rightarrow> int \<Rightarrow> token list \<Rightarrow> 'v" and ideal :: "bool \<Rightarrow> token list \<Rightarrow> 'v"
  assumes pos_max: "holds m ts w \<Longrightarrow> op_pos_max ops m = int (length ts) - 1"
    and bound: "holds m ts w \<Longrightarrow> int (length ts) \<le> POS_MAX"
    and weaken: "holds m ts w \<Longrightarrow> w' \<le> w \<Longrightarrow> holds m ts w'"
    and decode: "holds m ts w \<Longrightarrow> int (length (ts @ us)) \<le> POS_MAX \<Longrightarrow> w' < length us \<Longrightarrow> w' \<le> cap m \<Longrightarrow>
      holds (op_decode ops m (int (length ts)) us) (ts @ us) w'"
    and decode_nil: "op_decode ops m p [] = m"
    and remove: "holds m ts w \<Longrightarrow> r \<le> w \<Longrightarrow>
      \<exists>m'. op_seq_rm ops m (int (length ts - r)) (- 1) = (True, m') \<and> holds m' (take (length ts - r) ts) 0"
    and beyond: "holds m ts w \<Longrightarrow> int (length ts) \<le> p \<Longrightarrow> \<exists>m'. op_seq_rm ops m p (- 1) = (True, m') \<and> holds m' ts w"
    and clear: "holds m ts w \<Longrightarrow> holds (op_clear ops m) [] 0"
    and checkpoint: "holds m ts w \<Longrightarrow> holds (op_save ops m) ts w" "holds m ts w \<Longrightarrow> holds (op_overwrite ops m i) ts w"
    and view: "holds m ts w \<Longrightarrow> view m (int (length ts)) us = ideal (kind m) (ts @ us)"
    and same_kind: "kind (op_decode ops m p us) = kind m" "kind (snd (op_seq_rm ops m p q)) = kind m"
      "kind (op_clear ops m) = kind m" "kind (op_save ops m) = kind m" "kind (op_overwrite ops m i) = kind m"
    and same_cap: "cap (op_decode ops m p us) = cap m" "cap (snd (op_seq_rm ops m p q)) = cap m"
      "cap (op_clear ops m) = cap m" "cap (op_save ops m) = cap m" "cap (op_overwrite ops m i) = cap m"
begin

lemma holds_0: "holds m ts w \<Longrightarrow> holds m ts 0"
  using weaken by blast

lemma removeE:
  assumes "holds m ts w" "n \<le> length ts" "length ts - n \<le> w"
  obtains m' where "op_seq_rm ops m (int n) (- 1) = (True, m')" "holds m' (take n ts) 0"
    "kind m' = kind m" "cap m' = cap m"
proof -
  have "length ts - (length ts - n) = n" using assms(2) by simp
  with remove [OF assms(1,3)] obtain m' where m: "op_seq_rm ops m (int n) (- 1) = (True, m')" "holds m' (take n ts) 0"
    by auto
  then have "kind m' = kind m" "cap m' = cap m" using same_kind(2) same_cap(2) by (metis snd_conv)+
  with m that show thesis by blast
qed

end

subsection \<open>The memory of a model keeps it\<close>

definition recr_window :: "recurrent \<Rightarrow> token list \<Rightarrow> nat \<Rightarrow> bool" where
  "recr_window rc ts w \<longleftrightarrow>
     length (rc_planes rc) = rc_n_rs_seq rc + 1 \<and> rc_rs_idx rc \<le> rc_n_rs_seq rc
     \<and> rs_start rc = Some (ts, ts)
     \<and> (if ts = [] then \<not> rc_tail rc \<and> rc_rs_idx rc = 0 \<and> w = 0
        else rc_tail rc \<and> rc_pos rc = int (length ts) - 1)
     \<and> (0 < w \<longrightarrow> rc_rs_idx rc = 0 \<and> w \<le> rc_n_rs_seq rc \<and> w < length ts
          \<and> (\<forall>r\<le>w. rc_planes rc ! r = Some (take (length ts - r) ts, take (length ts - r) ts)))"

fun mem_window :: "memory \<Rightarrow> token list \<Rightarrow> nat \<Rightarrow> bool" where
  "mem_window (Attention kv) ts w \<longleftrightarrow> kv = rows_of ts \<and> int (length ts) \<le> POS_MAX \<and> w \<le> length ts"
| "mem_window (Hybrid kv rc) ts w \<longleftrightarrow> kv = rows_of ts \<and> int (length ts) \<le> POS_MAX \<and> recr_window rc ts w"

fun mem_cap :: "memory \<Rightarrow> nat" where
  "mem_cap (Attention kv) = nat POS_MAX"
| "mem_cap (Hybrid kv rc) = rc_n_rs_seq rc"

type_synonym view = "rows \<times> rs_state"

text \<open>What the logits of the row of the last token depend on: the attention rows and the state after it.\<close>

fun mem_view :: "memory \<Rightarrow> int \<Rightarrow> token list \<Rightarrow> view" where
  "mem_view (Attention kv) p us = (attn_decode kv p us, None)"
| "mem_view (Hybrid kv rc) p us =
     (attn_decode kv p us, map_option (\<lambda>(r, s). (r @ us, s @ us)) (rs_start rc))"

definition ideal_view :: "bool \<Rightarrow> token list \<Rightarrow> view" where
  "ideal_view hybrid ts = (rows_of ts, if hybrid then Some (ts, ts) else None)"

lemma recr_window_decode:
  assumes "recr_window rc ts w" "w' < length us" "w' \<le> rc_n_rs_seq rc"
  shows "recr_window (recr_decode rc (int (length ts)) us) (ts @ us) w'"
proof -
  have us: "us \<noteq> []" using assms(2) by auto
  let ?m = "recr_decode rc (int (length ts)) us"
  have pl: "rc_planes ?m ! r = Some (ts @ take (length us - r) us, ts @ take (length us - r) us)"
    if "r < length us" "r \<le> rc_n_rs_seq rc" for r
    using that us assms(1) by (simp add: recr_decode_def recr_window_def plane_after_def Let_def del: upt_Suc)
  have "rc_planes ?m ! 0 = Some (ts @ us, ts @ us)" using pl [of 0] us by simp
  with us pl assms show ?thesis
    by (auto simp: recr_window_def recr_decode_def rs_start_def of_nat_diff simp del: upt_Suc)
qed

lemma recr_window_remove:
  assumes "recr_window rc ts w" "r \<le> w" "int (length ts) \<le> POS_MAX"
  shows "\<exists>rc'. recr_seq_rm rc (int (length ts - r)) (- 1) = (True, rc') \<and> recr_window rc' (take (length ts - r) ts) 0"
proof (cases "r = 0 \<or> ts = []")
  case True
  then show ?thesis
    using assms by (auto simp: recr_window_def recr_seq_rm_def Let_def rs_start_def split: if_splits)
next
  case False
  then have w: "0 < w" "rc_rs_idx rc = 0" "w \<le> rc_n_rs_seq rc" "w < length ts" "rc_tail rc"
    "rc_pos rc = int (length ts) - 1" "rc_planes rc ! r = Some (take (length ts - r) ts, take (length ts - r) ts)"
    "length (rc_planes rc) = rc_n_rs_seq rc + 1"
    using assms(1,2) by (auto simp: recr_window_def)
  have "recr_seq_rm rc (int (length ts - r)) (- 1)
      = (True, rc\<lparr>rc_rs_idx := r, rc_pos := int (length ts - r) - 1\<rparr>)"
    using w False assms(2,3) by (auto simp: recr_seq_rm_def Let_def of_nat_diff)
  then show ?thesis
    using w False assms(2) by (auto simp: recr_window_def rs_start_def of_nat_diff)
qed

lemma mem_window_remove:
  assumes "mem_window m ts w" "r \<le> w"
  shows "\<exists>m'. mem_seq_rm m (int (length ts - r)) (- 1) = (True, m') \<and> mem_window m' (take (length ts - r) ts) 0"
proof (cases m)
  case (Attention kv)
  then show ?thesis using assms attn_rm_rows [of "length ts - r" ts] by simp
next
  case (Hybrid kv rc)
  then obtain rc' where "recr_seq_rm rc (int (length ts - r)) (- 1) = (True, rc')"
    "recr_window rc' (take (length ts - r) ts) 0"
    using assms recr_window_remove [of rc ts w r] by auto
  moreover have "int (length ts - r) \<le> int (length ts)" by simp
  then have "int (length ts - r) \<le> POS_MAX" using Hybrid assms(1) by (meson mem_window.simps(2) order_trans)
  ultimately show ?thesis using Hybrid assms attn_rm_rows [of "length ts - r" ts] by simp
qed

lemma mem_window_beyond:
  assumes "mem_window m ts w" "int (length ts) \<le> p"
  shows "\<exists>m'. mem_seq_rm m p (- 1) = (True, m') \<and> mem_window m' ts w"
proof -
  have p: "\<not> p < 0" using assms(2) by linarith
  have a: "attn_seq_rm (rows_of ts) p (- 1) = (True, rows_of ts)"
    using assms(2) p by (simp add: attn_seq_rm_def Let_def rows_of_def filter_id_conv)
  show ?thesis
  proof (cases m)
    case (Attention kv)
    then show ?thesis using assms a by simp
  next
    case (Hybrid kv rc)
    have "recr_seq_rm rc p (- 1) = (True, rc)"
    proof (cases "ts = []")
      case True
      then show ?thesis using Hybrid assms(1) p by (simp add: recr_seq_rm_def Let_def recr_window_def)
    next
      case False
      then have "0 < int (length ts)" by simp
      with assms(2) have "0 < p" by linarith
      with False show ?thesis
        using Hybrid assms p by (simp add: recr_seq_rm_def Let_def recr_window_def)
    qed
    with Hybrid assms a show ?thesis by simp
  qed
qed

lemma mem_window_max: "mem_window m ts w \<Longrightarrow> mem_pos_max m = int (length ts) - 1"
  by (cases m) (auto simp: rows_of_max recr_pos_max_def recr_window_def split: if_splits)

lemma mem_window_weaken: "mem_window m ts w \<Longrightarrow> w' \<le> w \<Longrightarrow> mem_window m ts w'"
  by (cases m) (auto simp: recr_window_def)

lemma mem_window_decode:
  "mem_window m ts w \<Longrightarrow> int (length (ts @ us)) \<le> POS_MAX \<Longrightarrow> w' < length us \<Longrightarrow> w' \<le> mem_cap m \<Longrightarrow>
     mem_window (mem_decode m (int (length ts)) us) (ts @ us) w'"
  by (cases m) (auto simp: rows_of_decode recr_window_decode)

lemma mem_window_clear: "mem_window m ts w \<Longrightarrow> mem_window (mem_clear m) [] 0"
  by (cases m) (auto simp: rows_of_def recr_window_def recr_clear_def rs_start_def POS_MAX_def)

lemma recr_window_stack: "recr_window (rc\<lparr>rc_stack := st\<rparr>) ts w = recr_window rc ts w"
proof -
  have "rs_start (rc\<lparr>rc_stack := st\<rparr>) = rs_start rc" by (simp add: rs_start_def)
  then show ?thesis unfolding recr_window_def by simp
qed

lemma mem_window_checkpoint:
  "mem_window m ts w \<Longrightarrow> mem_window (mem_save m) ts w" "mem_window m ts w \<Longrightarrow> mem_window (mem_overwrite m i) ts w"
  by (cases m; simp add: recr_window_stack rs_checkpoint_save_def rs_checkpoint_overwrite_def)+

lemma mem_window_view: "mem_window m ts w \<Longrightarrow> mem_view m (int (length ts)) us = ideal_view (mem_recurrent m) (ts @ us)"
  by (cases m) (simp_all add: rows_of_decode ideal_view_def recr_window_def)

lemma mem_cap_ops: "mem_cap (mem_decode m p us) = mem_cap m" "mem_cap (mem_clear m) = mem_cap m"
    "mem_cap (mem_save m) = mem_cap m" "mem_cap (mem_overwrite m i) = mem_cap m"
    "mem_cap (snd (mem_seq_rm m p q)) = mem_cap m"
proof -
  have "rc_n_rs_seq (snd (recr_seq_rm rc p q)) = rc_n_rs_seq rc" for rc by (simp add: recr_seq_rm_def Let_def)
  then show "mem_cap (snd (mem_seq_rm m p q)) = mem_cap m"
    by (cases m) (simp_all add: Let_def case_prod_beta)
qed (cases m; simp add: recr_decode_def recr_clear_def rs_checkpoint_save_def rs_checkpoint_overwrite_def)+

interpretation win: window_memory memory_ops mem_window mem_cap mem_recurrent mem_view ideal_view
proof unfold_locales
  fix m :: memory and ts :: "token list" and w :: nat and p :: int
  show "mem_window m ts w \<Longrightarrow> int (length ts) \<le> POS_MAX" by (cases m) simp_all
  show "op_decode memory_ops m p [] = m"
    by (cases m) (simp_all add: attn_decode_def recr_decode_def)
qed (simp_all add: mem_window_max mem_window_weaken mem_window_decode mem_window_remove mem_window_beyond mem_window_clear
      mem_window_checkpoint mem_window_view rs.recurrent_ops [simplified] mem_cap_ops)

end
