(* ===== verification/Lim_Generator.thy ===== *)
theory Lim_Generator
  imports Lim_GenText Lim_Checkpoints Lim_Window
begin

section \<open>Token generation with speculative decoding (token\_generator.cc)\<close>

text \<open>
  \<open>TokenGenerator::generate\<close>. One iteration samples one token from a row of the batch decoded last,
  updates the text, and feeds the token. With a draft head (MTP) the iterations are grouped into rounds:
  the draft \<open>d1..dk\<close> is decoded in one verify batch once the sampled token equals \<open>d1\<close>, and the following
  iterations sample its rows as long as they match the draft. What the world does is in the environment:
  the sampler with its state, the signals seen by iteration, the answers of \<open>llama_decode\<close> and the
  drafts (mtp.cc is modelled in Lim\_Mtp; here every draft is allowed). The logits of a row
  are represented by a view of what the memory held when the row was decoded; a row without valid logits
  is \<^const>\<open>None\<close>. Console output, timing and rendering are left out.
\<close>

subsection \<open>State\<close>

record spec =
  sp_draft :: "token list"
  sp_origin_pending :: bool
  sp_in_progress :: bool
  sp_bonus_pending :: bool
  sp_verify_pending :: bool
  sp_round_complete :: bool
  sp_no_feed :: bool
  sp_verify_row :: nat
  sp_verify_rows :: nat
  sp_draft_idx :: nat
  sp_committed :: nat

definition spec_init :: spec where
  "spec_init = \<lparr>sp_draft = [], sp_origin_pending = False, sp_in_progress = False, sp_bonus_pending = False,
     sp_verify_pending = False, sp_round_complete = False, sp_no_feed = False, sp_verify_row = 0,
     sp_verify_rows = 0, sp_draft_idx = 0, sp_committed = 0\<rparr>"

text \<open>The calls into the speculator's round bookkeeping, in order.\<close>

datatype mtp_call = On_Origin_Match | On_Origin_Mismatch | On_Verify_Match | On_Verify_Mismatch nat
  | On_Bonus | Note_Round nat | On_Abort nat nat

record flags =
  fl_interrupted :: bool
  fl_ctx_limit :: bool
  fl_early_exit :: bool
  fl_stuck :: bool
  fl_ended_on_eog :: bool
  fl_sim_abort :: bool
  fl_unfed_tail :: nat

record ('m, 's, 'v) gen =
  gn_core :: "'m core"
  gn_smpl :: 's
  gn_rows :: "'v option list"
  gn_text :: gtext
  gn_spec :: spec
  gn_flags :: flags
  gn_last_context :: int
  gn_warned :: bool
  gn_recovered :: bool
  gn_think_eog :: int
  gn_canary_round :: int
  gn_canary_match :: int
  gn_canary_total :: int
  gn_calls :: "mtp_call list"

record ('m, 's, 'v) gen_env =
  ge_ops :: "'m mem_ops"
  ge_view :: "'m \<Rightarrow> int \<Rightarrow> token list \<Rightarrow> 'v"
  ge_sample :: "'s \<Rightarrow> 'v option \<Rightarrow> token \<times> 's"
  ge_reset :: "'s \<Rightarrow> 's"
  ge_is_eog :: "token \<Rightarrow> bool"
  ge_piece :: "token \<Rightarrow> string"
  ge_think :: "string \<times> string"
  ge_n_ctx :: int
  ge_n_batch :: nat
  ge_eog_max :: nat
  ge_outside_limit :: int
  ge_was_mid :: bool
  ge_reincarnating :: bool
  ge_hook :: bool
  ge_canary_max :: int
  ge_canary_silent :: bool
  ge_stop :: "nat \<Rightarrow> bool"
  ge_timeout :: "nat \<Rightarrow> bool"
  ge_stop_poll :: "nat \<Rightarrow> nat \<Rightarrow> bool"
  ge_stop_trip :: "nat \<Rightarrow> bool"
  ge_answer :: "nat \<Rightarrow> int \<times> nat"
  ge_verify_answer :: "nat \<Rightarrow> int \<times> nat"
  ge_close_answer :: "int \<times> nat"
  ge_redecode :: "nat \<Rightarrow> nat \<Rightarrow> int \<times> nat"
  ge_draft :: "nat \<Rightarrow> token list"

text \<open>An iteration is left by \<open>break\<close> (\<^const>\<open>Inl\<close>) or goes on (\<^const>\<open>Inr\<close>).\<close>

abbreviation upd_core :: "('m core \<Rightarrow> 'm core) \<Rightarrow> ('m, 's, 'v) gen \<Rightarrow> ('m, 's, 'v) gen" where
  "upd_core f g \<equiv> g\<lparr>gn_core := f (gn_core g)\<rparr>"

abbreviation upd_spec :: "(spec \<Rightarrow> spec) \<Rightarrow> ('m, 's, 'v) gen \<Rightarrow> ('m, 's, 'v) gen" where
  "upd_spec f g \<equiv> g\<lparr>gn_spec := f (gn_spec g)\<rparr>"

abbreviation upd_flags :: "(flags \<Rightarrow> flags) \<Rightarrow> ('m, 's, 'v) gen \<Rightarrow> ('m, 's, 'v) gen" where
  "upd_flags f g \<equiv> g\<lparr>gn_flags := f (gn_flags g)\<rparr>"

definition mtp_note :: "mtp_call list \<Rightarrow> ('m, 's, 'v) gen \<Rightarrow> ('m, 's, 'v) gen" where
  "mtp_note calls g = g\<lparr>gn_calls := gn_calls g @ calls\<rparr>"

definition push_token :: "token \<Rightarrow> 'm core \<Rightarrow> 'm core" where
  "push_token t c = upd_state (ss_all_context_tokens_update (\<lambda>ts. ts @ [t])) c"

subsection \<open>Before the sample\<close>

definition early_exit :: "('m, 's, 'v) gen \<Rightarrow> ('m, 's, 'v) gen" where
  "early_exit g = upd_flags (fl_early_exit_update (\<lambda>_. True)) g"

definition interrupted :: "('m, 's, 'v) gen \<Rightarrow> ('m, 's, 'v) gen" where
  "interrupted g = upd_core (co_stop_update (\<lambda>_. False)) (upd_flags (fl_interrupted_update (\<lambda>_. True)) g)"

definition context_90pct :: "int \<Rightarrow> int" where
  "context_90pct n_ctx = n_ctx * 9 div 10"

text \<open>The crossing of the 90 percent line ends the turn like an interrupt, once per generation.\<close>

definition check_context :: "('m, 's, 'v) gen_env \<Rightarrow> ('m, 's, 'v) gen
    \<Rightarrow> ('m, 's, 'v) gen + ('m, 's, 'v) gen" where
  "check_context env g =
     (let line = context_90pct (ge_n_ctx env); np = co_n_past (gn_core g);
          crossed = gn_last_context g < line \<and> np \<ge> line;
          g = g\<lparr>gn_last_context := np\<rparr>
      in if np \<ge> line \<and> \<not> gn_warned g \<and> \<not> ge_reincarnating env then
           (let g = g\<lparr>gn_warned := True\<rparr> in
            if crossed then Inl (upd_flags (\<lambda>f. f\<lparr>fl_interrupted := True, fl_ctx_limit := True\<rparr>) g) else Inr g)
         else Inr g)"

definition top_checks :: "('m, 's, 'v) gen_env \<Rightarrow> nat \<Rightarrow> ('m, 's, 'v) gen
    \<Rightarrow> ('m, 's, 'v) gen + ('m, 's, 'v) gen" where
  "top_checks env i g =
     (if co_stop (gn_core g) \<or> ge_stop env i then
        Inl (if ge_canary_silent env then upd_core (co_stop_update (\<lambda>_. False)) g else interrupted g)
      else if ge_canary_max env > 0 \<and> gt_t_count (gn_text g) \<ge> ge_canary_max env then Inl g
      else if \<not> ge_canary_silent env \<and> ge_timeout env i then Inl (interrupted g)
      else res_bind (if ge_canary_silent env then Inr g else check_context env g) (\<lambda>g.
        if \<not> ge_canary_silent env \<and> co_n_past (gn_core g) \<ge> ge_n_ctx env - 10 then Inl (early_exit g)
        else if gn_rows g = [] then Inl (early_exit g)
        else Inr g))"

definition sample_row :: "('m, 's, 'v) gen \<Rightarrow> 'v option" where
  "sample_row g = gn_rows g ! (if sp_in_progress (gn_spec g) then sp_verify_row (gn_spec g)
     else length (gn_rows g) - 1)"

subsection \<open>Feeding the sampled token\<close>

definition feed_token :: "('m, 's, 'v) gen_env \<Rightarrow> nat \<Rightarrow> token \<Rightarrow> ('m, 's, 'v) gen \<Rightarrow> bool \<times> ('m, 's, 'v) gen" where
  "feed_token env i t g =
     (let c = gn_core g in
      if sp_no_feed (gn_spec g) then
        (True, upd_spec (sp_no_feed_update (\<lambda>_. False))
           (g\<lparr>gn_core := push_token t (c\<lparr>co_n_past := co_n_past c + 1\<rparr>)\<rparr>))
      else
        (let (ret, m) = llama_decode (ge_ops env) (ge_answer env i) (co_mem c) (co_n_past c) [t];
             ok = fst (handle_decode_result ret True);
             np = (if ok then co_n_past c + 1 else sync_n_past (op_pos_max (ge_ops env) m));
             c = push_token t (c\<lparr>co_mem := m, co_n_past := np\<rparr>);
             c = (if \<not> ok \<and> int (length (tracker c)) > np
                  then upd_state (ss_all_context_tokens_update (take (nat np))) c else c);
             view = (if ok then Some (ge_view env (co_mem (gn_core g)) (co_n_past (gn_core g)) [t]) else None)
         in (ok, g\<lparr>gn_core := c, gn_rows := [view]\<rparr>)))"

text \<open>A feed before a \<open>break\<close>.\<close>

definition feed_break :: "('m, 's, 'v) gen_env \<Rightarrow> nat \<Rightarrow> token \<Rightarrow> ('m, 's, 'v) gen \<Rightarrow> ('m, 's, 'v) gen" where
  "feed_break env i t g = (let (ok, g) = feed_token env i t g in if ok then g else early_exit g)"

text \<open>\<open>spec_rollback_redecode\<close>: the committed prefix is decoded again from scratch.\<close>

function redecode_chunks :: "'m mem_ops \<Rightarrow> nat \<Rightarrow> (nat \<Rightarrow> int \<times> nat) \<Rightarrow> nat \<Rightarrow> token list \<Rightarrow> 'm \<Rightarrow> int
    \<Rightarrow> bool \<times> nat \<times> 'm \<times> int" where
  "redecode_chunks ops n_batch ans j rest m np =
     (if rest = [] \<or> n_batch = 0 then (True, 0, m, np)
      else let chunk = take n_batch rest;
               (ret, m) = llama_decode ops (ans j) m np chunk
           in if fst (handle_decode_result ret True)
              then redecode_chunks ops n_batch ans (j + 1) (drop n_batch rest) m (np + int (length chunk))
              else (False, length chunk, m, sync_n_past (op_pos_max ops m)))"
  by pat_completeness auto
termination by (relation "measure (\<lambda>(_, _, _, _, rest, _, _). length rest)") auto

declare redecode_chunks.simps [simp del]

definition spec_rollback_redecode :: "('m, 's, 'v) gen_env \<Rightarrow> nat \<Rightarrow> ('m, 's, 'v) gen \<Rightarrow> bool \<times> ('m, 's, 'v) gen" where
  "spec_rollback_redecode env i g =
     (let c = gn_core g;
          (ok, n, m, np) = redecode_chunks (ge_ops env) (ge_n_batch env) (ge_redecode env i) 0 (tracker c)
            (op_clear (ge_ops env) (co_mem c)) 0
      in (ok \<and> np = int (length (tracker c)),
          g\<lparr>gn_core := c\<lparr>co_mem := m, co_n_past := np\<rparr>, gn_rows := replicate n None\<rparr>))"

text \<open>Removing the uncommitted draft cells, with that fallback.\<close>

definition drop_cells :: "('m, 's, 'v) gen_env \<Rightarrow> nat \<Rightarrow> ('m, 's, 'v) gen \<Rightarrow> bool \<times> ('m, 's, 'v) gen" where
  "drop_cells env i g =
     (let (ok, m) = op_seq_rm (ge_ops env) (co_mem (gn_core g)) (co_n_past (gn_core g)) (- 1);
          g = upd_core (co_mem_update (\<lambda>_. m)) g
      in if ok then (True, g) else spec_rollback_redecode env i g)"

subsection \<open>An end-of-generation token\<close>

text \<open>The same row is sampled again, at most \<open>LIM_EOG_RESAMPLE_MAX\<close> times after the first; the answer is
  the first token that is no EOG, and whether a signal was seen.\<close>

fun eog_polls :: "('m, 's, 'v) gen_env \<Rightarrow> nat \<Rightarrow> 'v option \<Rightarrow> nat \<Rightarrow> nat \<Rightarrow> 's \<Rightarrow> token option \<times> bool \<times> 's" where
  "eog_polls env i v j 0 s = (None, False, s)"
| "eog_polls env i v j (Suc n) s =
     (if ge_stop_poll env i j then (None, True, s)
      else let (t, s) = ge_sample env s v in
        if \<not> ge_is_eog env t then (Some t, False, s) else eog_polls env i v (j + 1) n s)"

definition poll_row :: "('m, 's, 'v) gen_env \<Rightarrow> nat \<Rightarrow> 'v option \<Rightarrow> 's \<Rightarrow> token option \<times> bool \<times> 's" where
  "poll_row env i v s =
     (let (t, s) = ge_sample env s v in
      if \<not> ge_is_eog env t then (Some t, False, s) else eog_polls env i v 0 (ge_eog_max env) s)"

text \<open>The draft cells of a round whose next draft was not matched.\<close>

definition reject_draft :: "('m, 's, 'v) gen_env \<Rightarrow> nat \<Rightarrow> ('m, 's, 'v) gen \<Rightarrow> bool \<times> ('m, 's, 'v) gen" where
  "reject_draft env i g =
     (let (ok, g') = drop_cells env i g;
          sp = gn_spec g
      in (ok, upd_spec (\<lambda>s. s\<lparr>sp_in_progress := False, sp_no_feed := False, sp_verify_row := 0, sp_draft := []\<rparr>)
           (mtp_note [On_Verify_Mismatch (sp_draft_idx sp), Note_Round (1 + sp_committed sp + 1)] g')))"

definition eog_break :: "('m, 's, 'v) gen_env \<Rightarrow> nat \<Rightarrow> token \<Rightarrow> ('m, 's, 'v) gen \<Rightarrow> ('m, 's, 'v) gen" where
  "eog_break env i t g =
     (let g = upd_flags (fl_ended_on_eog_update (\<lambda>_. True)) (g\<lparr>gn_text := close_open_call (gn_text g)\<rparr>);
          sp = gn_spec g
      in if sp_in_progress sp \<and> sp_verify_row sp < sp_verify_rows sp then
           (if t = sp_draft sp ! (sp_draft_idx sp - 1) then
              feed_break env i t (mtp_note [On_Verify_Match]
                (upd_spec (\<lambda>s. s\<lparr>sp_no_feed := True, sp_committed := sp_verify_row s + 1\<rparr>) g))
            else let (ok, g) = reject_draft env i g in
              if ok then feed_break env i t g else early_exit g)
         else if sp_bonus_pending sp then
           feed_break env i t (mtp_note [On_Bonus, Note_Round (1 + sp_verify_rows sp + 1)]
             (upd_spec (sp_bonus_pending_update (\<lambda>_. False)) g))
         else feed_break env i t g)"

definition eog_phase :: "('m, 's, 'v) gen_env \<Rightarrow> nat \<Rightarrow> 'v option \<Rightarrow> token \<Rightarrow> ('m, 's, 'v) gen
    \<Rightarrow> ('m, 's, 'v) gen + (token \<times> ('m, 's, 'v) gen)" where
  "eog_phase env i v t g =
     (if \<not> ge_is_eog env t then Inr (t, g)
      else let n = (if gt_in_thinking (gn_text g) then gn_think_eog g + 1 else 0);
               swallow = gt_in_thinking (gn_text g) \<and> n \<le> int (ge_eog_max env);
               g = g\<lparr>gn_think_eog := n\<rparr>
        in if swallow then Inr (t, g)
           else (let (p, stopped, s) = poll_row env i v (gn_smpl g);
                     g = upd_core (\<lambda>c. c\<lparr>co_stop := co_stop c \<or> stopped\<rparr>) g
                 in case p of
                      Some t' \<Rightarrow> Inr (t', g\<lparr>gn_smpl := ge_reset env s, gn_recovered := True\<rparr>)
                    | None \<Rightarrow> Inl (eog_break env i t (g\<lparr>gn_smpl := s\<rparr>))))"

subsection \<open>The comparison with the draft\<close>

definition judge_canary :: "('m, 's, 'v) gen_env \<Rightarrow> bool \<Rightarrow> ('m, 's, 'v) gen \<Rightarrow> ('m, 's, 'v) gen" where
  "judge_canary env matched g =
     (if ge_canary_max env > 0 then
        (let g = g\<lparr>gn_canary_round := gn_canary_round g + 1\<rparr> in
         if gn_canary_round g \<ge> 2 \<and> \<not> gn_recovered g
         then g\<lparr>gn_canary_total := gn_canary_total g + 1,
                gn_canary_match := gn_canary_match g + (if matched then 1 else 0)\<rparr>
         else g)
      else g)"

definition compare_draft :: "('m, 's, 'v) gen_env \<Rightarrow> nat \<Rightarrow> token \<Rightarrow> ('m, 's, 'v) gen
    \<Rightarrow> ('m, 's, 'v) gen + ('m, 's, 'v) gen" where
  "compare_draft env i t g =
     (let sp = gn_spec g in
      if sp_bonus_pending sp then
        Inr (mtp_note [On_Bonus] (upd_spec (\<lambda>s. s\<lparr>sp_bonus_pending := False, sp_round_complete := True\<rparr>) g))
      else if sp_origin_pending sp then
        (let matched = (t = sp_draft sp ! 0);
             g = judge_canary env matched (upd_spec (sp_origin_pending_update (\<lambda>_. False)) g)
         in if matched then
              Inr (mtp_note [On_Origin_Match] (upd_spec (\<lambda>s. s\<lparr>sp_no_feed := True, sp_verify_pending := True,
                sp_in_progress := True, sp_verify_row := 0, sp_verify_rows := length (sp_draft s) - 1,
                sp_committed := 0, sp_draft_idx := 2\<rparr>) g))
            else Inr (mtp_note [On_Origin_Mismatch, Note_Round 1] (upd_spec (sp_draft_update (\<lambda>_. [])) g)))
      else if sp_in_progress sp \<and> sp_verify_row sp < sp_verify_rows sp then
        (if t = sp_draft sp ! (sp_draft_idx sp - 1) then
           (let last = sp_verify_row sp + 1 \<ge> sp_verify_rows sp in
            Inr (mtp_note [On_Verify_Match] (upd_spec (\<lambda>s. s\<lparr>sp_no_feed := True, sp_committed := sp_verify_row s + 1,
              sp_verify_row := sp_verify_row s + 1, sp_draft_idx := sp_draft_idx s + 1,
              sp_in_progress := \<not> last, sp_bonus_pending := last\<rparr>) g)))
         else let (ok, g') = drop_cells env i g in
           if ok then Inr (snd (reject_draft env i g)) else Inl (early_exit g'))
      else Inr g)"

subsection \<open>After the feed\<close>

definition end_round :: "spec \<Rightarrow> spec" where
  "end_round s = s\<lparr>sp_in_progress := False, sp_bonus_pending := False, sp_round_complete := False, sp_draft := []\<rparr>"

text \<open>The verify batch \<open>d1..dk\<close> at the position of \<open>d1\<close>, which is tracked already. Row \<open>j\<close> sees the draft up
  to \<open>d(j+1)\<close>. When the decode fails, what it left behind is removed and \<open>d1\<close> stays only if its cell does.\<close>

definition verify_rows :: "('m, 's, 'v) gen_env \<Rightarrow> 'm \<Rightarrow> int \<Rightarrow> token list \<Rightarrow> 'v option list" where
  "verify_rows env m p ds = map (\<lambda>j. Some (ge_view env m p (take (j + 1) ds))) [0..<length ds]"

definition decode_verify :: "('m, 's, 'v) gen_env \<Rightarrow> nat \<Rightarrow> ('m, 's, 'v) gen
    \<Rightarrow> ('m, 's, 'v) gen + ('m, 's, 'v) gen" where
  "decode_verify env i g0 =
     (let g = upd_spec (sp_verify_pending_update (\<lambda>_. False)) g0;
          c = gn_core g; ds = sp_draft (gn_spec g);
          (ret, m) = llama_decode (ge_ops env) (ge_verify_answer env i) (co_mem c) (co_n_past c - 1) ds;
          rows = verify_rows env (co_mem c) (co_n_past c - 1) ds;
          g = g\<lparr>gn_core := c\<lparr>co_mem := m\<rparr>, gn_rows := rows\<rparr>
      in if fst (handle_decode_result ret True) then
           Inr (if sp_verify_rows (gn_spec g) > 0 then g
                else upd_spec (\<lambda>s. s\<lparr>sp_in_progress := False, sp_bonus_pending := True, sp_round_complete := True\<rparr>) g)
         else
           (let (ok, m) = op_seq_rm (ge_ops env) (co_mem (gn_core g)) (co_n_past c) (- 1);
                g = upd_core (co_mem_update (\<lambda>_. m)) g
            in if \<not> ok then
                 Inl (early_exit (upd_spec end_round (mtp_note [Note_Round 1] (snd (spec_rollback_redecode env i g)))))
               else if op_pos_max (ge_ops env) m \<ge> co_n_past c - 1 then
                 Inl (early_exit (upd_spec end_round (mtp_note [Note_Round 1] (g\<lparr>gn_rows := take 1 rows\<rparr>))))
               else
                 Inl (early_exit (upd_spec end_round (mtp_note [Note_Round 0]
                   (upd_core (\<lambda>c. upd_state (ss_all_context_tokens_update butlast) (c\<lparr>co_n_past := co_n_past c - 1\<rparr>))
                      (g\<lparr>gn_rows := []\<rparr>)))))))"

definition advance_round :: "('m, 's, 'v) gen_env \<Rightarrow> nat \<Rightarrow> ('m, 's, 'v) gen
    \<Rightarrow> ('m, 's, 'v) gen + ('m, 's, 'v) gen" where
  "advance_round env i g =
     (let sp = gn_spec g in
      if sp_verify_pending sp then decode_verify env i g
      else if sp_round_complete sp then
        Inr (mtp_note [Note_Round (1 + sp_verify_rows sp + 1)] (upd_spec (sp_round_complete_update (\<lambda>_. False)) g))
      else if \<not> sp_in_progress sp \<and> \<not> sp_bonus_pending sp \<and> length (gn_rows g) = 1 \<and> ge_draft env i \<noteq> [] then
        Inr (upd_spec (\<lambda>s. s\<lparr>sp_draft := ge_draft env i, sp_origin_pending := True\<rparr>) g)
      else Inr g)"

text \<open>The hook of the session, which only a correction's own generation goes without.\<close>

definition fire_hook :: "('m, 's, 'v) gen_env \<Rightarrow> ('m, 's, 'v) gen \<Rightarrow> ('m, 's, 'v) gen" where
  "fire_hook env g =
     (if gt_hook_pending (gn_text g) then
        (let g = g\<lparr>gn_text := (gn_text g)\<lparr>gt_hook_pending := False\<rparr>\<rparr>; sp = gn_spec g in
         if ge_hook env
         then upd_core (on_tool_start (ge_ops env) (\<not> (sp_in_progress sp \<and> sp_committed sp < sp_verify_rows sp))) g
         else g)
      else g)"

subsection \<open>One iteration\<close>

text \<open>The piece of the token is appended; a nested opening tag ends the generation without a feed, unless
  a signal came first.\<close>

definition think_phase :: "('m, 's, 'v) gen_env \<Rightarrow> nat \<Rightarrow> token \<Rightarrow> ('m, 's, 'v) gen
    \<Rightarrow> ('m, 's, 'v) gen + ('m, 's, 'v) gen" where
  "think_phase env i t g =
     (let piece = ge_piece env t; tx = gn_text g;
          (tripped, tx) = detect_think (fst (ge_think env)) (snd (ge_think env)) (ge_canary_silent env)
            (tx\<lparr>gt_text := gt_text tx @ piece\<rparr>);
          g = g\<lparr>gn_text := tx\<rparr>
      in if \<not> tripped then Inr g
         else (let g = upd_flags (fl_unfed_tail_update (\<lambda>_. length piece)) g in
           if co_stop (gn_core g) \<or> ge_stop_trip env i then Inl (interrupted g)
           else Inl (upd_flags (fl_sim_abort_update (\<lambda>_. True)) g)))"

definition call_phase :: "('m, 's, 'v) gen_env \<Rightarrow> nat \<Rightarrow> token \<Rightarrow> ('m, 's, 'v) gen
    \<Rightarrow> ('m, 's, 'v) gen + ('m, 's, 'v) gen" where
  "call_phase env i t g =
     (let (ev, tx) = text_event (ge_outside_limit env)
            (search_tool_end (ge_was_mid env) (detect_tool_start (snd (ge_think env)) (gn_text g)));
          g = g\<lparr>gn_text := tx\<rparr>
      in case ev of
           Stuck \<Rightarrow> Inl (feed_break env i t (upd_flags (fl_stuck_update (\<lambda>_. True)) (upd_core (co_stop_update (\<lambda>_. True)) g)))
         | Go_On \<Rightarrow> Inr (g\<lparr>gn_text := count_token (ge_piece env t) (gn_recovered g) tx, gn_recovered := False\<rparr>)
         | _ \<Rightarrow> Inl (feed_break env i t g))"

definition feed_phase :: "('m, 's, 'v) gen_env \<Rightarrow> nat \<Rightarrow> token \<Rightarrow> ('m, 's, 'v) gen
    \<Rightarrow> ('m, 's, 'v) gen + ('m, 's, 'v) gen" where
  "feed_phase env i t g = (let (ok, g) = feed_token env i t g in if ok then Inr g else Inl (early_exit g))"

definition sample_phase :: "('m, 's, 'v) gen_env \<Rightarrow> ('m, 's, 'v) gen \<Rightarrow> token \<times> ('m, 's, 'v) gen" where
  "sample_phase env g = (let (t, s) = ge_sample env (gn_smpl g) (sample_row g) in (t, g\<lparr>gn_smpl := s\<rparr>))"

text \<open>What is done with the token, once it is chosen.\<close>

definition take_token :: "('m, 's, 'v) gen_env \<Rightarrow> nat \<Rightarrow> token \<Rightarrow> ('m, 's, 'v) gen
    \<Rightarrow> ('m, 's, 'v) gen + ('m, 's, 'v) gen" where
  "take_token env i t g =
     res_bind (compare_draft env i t g) (\<lambda>g.
     res_bind (think_phase env i t g) (\<lambda>g.
     res_bind (call_phase env i t g) (\<lambda>g.
     res_bind (feed_phase env i t g) (\<lambda>g.
     res_bind (advance_round env i g) (\<lambda>g.
     Inr (fire_hook env g))))))"

definition gen_iter :: "('m, 's, 'v) gen_env \<Rightarrow> nat \<Rightarrow> ('m, 's, 'v) gen \<Rightarrow> ('m, 's, 'v) gen + ('m, 's, 'v) gen" where
  "gen_iter env i g =
     res_bind (top_checks env i g) (\<lambda>g.
     let (t, g') = sample_phase env g in
     res_bind (eog_phase env i (sample_row g) t g') (\<lambda>(t, g). take_token env i t g))"

text \<open>The loop ends by \<open>break\<close> only: \<^const>\<open>None\<close> is a loop that does not end. The index of the last
  iteration is returned with the state.\<close>

partial_function (option) gen_loop :: "('m, 's, 'v) gen_env \<Rightarrow> nat \<Rightarrow> ('m, 's, 'v) gen
    \<Rightarrow> (nat \<times> ('m, 's, 'v) gen) option" where
  "gen_loop env i g = (case gen_iter env i g of Inl g' \<Rightarrow> Some (i, g') | Inr g' \<Rightarrow> gen_loop env (i + 1) g')"

declare gen_loop.simps [code]

subsection \<open>The end of a generation\<close>

text \<open>A matched origin whose verify batch was never decoded: when it is tracked it gets its cell now.\<close>

definition settle_origin :: "('m, 's, 'v) gen_env \<Rightarrow> nat \<Rightarrow> ('m, 's, 'v) gen \<Rightarrow> ('m, 's, 'v) gen" where
  "settle_origin env i g0 =
     (let c = gn_core g0; d1 = sp_draft (gn_spec g0) ! 0 in
      if co_n_past c > op_pos_max (ge_ops env) (co_mem c) + 1 then
        (let g = upd_spec (\<lambda>s. s\<lparr>sp_verify_pending := False, sp_in_progress := False\<rparr>) g0;
             (ret, m) = llama_decode (ge_ops env) (ge_close_answer env) (co_mem c) (co_n_past c - 1) [d1]
         in if fst (handle_decode_result ret True) then
              upd_spec end_round (g\<lparr>gn_core := c\<lparr>co_mem := m\<rparr>,
                gn_rows := [Some (ge_view env (co_mem c) (co_n_past c - 1) [d1])]\<rparr>)
            else
              (let g = g\<lparr>gn_core := upd_state (ss_all_context_tokens_update butlast)
                           (c\<lparr>co_mem := m, co_n_past := co_n_past c - 1\<rparr>), gn_rows := [None]\<rparr>
               in early_exit (upd_spec end_round (snd (drop_cells env i g)))))
      else upd_spec (\<lambda>s. s\<lparr>sp_in_progress := False, sp_draft := []\<rparr>) g0)"

definition drop_uncommitted :: "('m, 's, 'v) gen_env \<Rightarrow> nat \<Rightarrow> ('m, 's, 'v) gen \<Rightarrow> ('m, 's, 'v) gen" where
  "drop_uncommitted env i g =
     (let sp = gn_spec g in
      if sp_in_progress sp \<and> sp_committed sp < sp_verify_rows sp then
        (let (ok, m) = op_seq_rm (ge_ops env) (co_mem (gn_core g)) (co_n_past (gn_core g)) (- 1);
             g = upd_core (co_mem_update (\<lambda>_. m)) g
         in if ok then g\<lparr>gn_rows := take (sp_committed sp + 1) (gn_rows g)\<rparr>
            else let (ok, g) = spec_rollback_redecode env i g in if ok then g else early_exit g)
      else g)"

definition close_calls :: "spec \<Rightarrow> mtp_call list" where
  "close_calls sp =
     (if sp_origin_pending sp then [On_Origin_Mismatch] else [])
     @ [if sp_round_complete sp then Note_Round (1 + sp_verify_rows sp)
        else if sp_verify_pending sp then Note_Round 0
        else Note_Round (1 + sp_committed sp),
        On_Abort (sp_committed sp) (sp_verify_rows sp)]"

definition close_round :: "('m, 's, 'v) gen_env \<Rightarrow> nat \<Rightarrow> ('m, 's, 'v) gen \<Rightarrow> ('m, 's, 'v) gen" where
  "close_round env i g =
     (let sp = gn_spec g in
      if sp_verify_pending sp \<or> sp_in_progress sp \<or> sp_bonus_pending sp \<or> sp_round_complete sp \<or> sp_origin_pending sp
      then (let g = (if sp_verify_pending sp then settle_origin env i g else g);
                g = drop_uncommitted env i g;
                g = mtp_note (close_calls (gn_spec g)) g
            in upd_spec (\<lambda>s. spec_init\<lparr>sp_verify_rows := sp_verify_rows s\<rparr>) g)
      else g)"

record gen_result =
  gr_text :: string
  gr_has_tool_call :: bool
  gr_tool_start :: "nat option"
  gr_tool_end :: "nat option"
  gr_was_interrupted :: bool
  gr_ctx_limit_interrupt :: bool
  gr_token_count :: int
  gr_early_exit :: bool
  gr_stuck_in_tool_call :: bool
  gr_thinking_sim_abort :: bool
  gr_unfed_tail_len :: nat
  gr_ended_on_eog :: bool
  gr_was_in_thinking_block :: bool
  gr_canary_ran :: bool
  gr_canary_origin_match :: int
  gr_canary_origin_total :: int

definition build_result :: "('m, 's, 'v) gen_env \<Rightarrow> ('m, 's, 'v) gen \<Rightarrow> gen_result" where
  "build_result env g =
     (let tx = gn_text g; fl = gn_flags g; canary = ge_canary_max env > 0 in
      \<lparr>gr_text = gt_text tx,
       gr_has_tool_call = (gt_trigger tx \<and> gt_tool_start tx \<noteq> None \<and> gt_tool_end tx \<noteq> None),
       gr_tool_start = gt_tool_start tx, gr_tool_end = gt_tool_end tx,
       gr_was_interrupted = fl_interrupted fl, gr_ctx_limit_interrupt = fl_ctx_limit fl,
       gr_token_count = gt_t_count tx, gr_early_exit = fl_early_exit fl,
       gr_stuck_in_tool_call = fl_stuck fl, gr_thinking_sim_abort = fl_sim_abort fl,
       gr_unfed_tail_len = fl_unfed_tail fl, gr_ended_on_eog = fl_ended_on_eog fl,
       gr_was_in_thinking_block = gt_in_thinking tx,
       gr_canary_ran = (canary \<and> \<not> fl_early_exit fl \<and> \<not> fl_interrupted fl \<and> \<not> fl_ctx_limit fl),
       gr_canary_origin_match = (if canary then gn_canary_match g else 0),
       gr_canary_origin_total = (if canary then gn_canary_total g else 0)\<rparr>)"

definition flags_init :: flags where
  "flags_init = \<lparr>fl_interrupted = False, fl_ctx_limit = False, fl_early_exit = False, fl_stuck = False,
     fl_ended_on_eog = False, fl_sim_abort = False, fl_unfed_tail = 0\<rparr>"

definition gen_init :: "('m, 's, 'v) gen_env \<Rightarrow> bool \<Rightarrow> int \<Rightarrow> 's \<Rightarrow> 'v option list \<Rightarrow> 'm core \<Rightarrow> ('m, 's, 'v) gen" where
  "gen_init env was_mid_think last_context smpl rows c =
     \<lparr>gn_core = c, gn_smpl = smpl, gn_rows = rows, gn_text = gtext_init (ge_was_mid env) was_mid_think,
      gn_spec = spec_init, gn_flags = flags_init, gn_last_context = last_context, gn_warned = False,
      gn_recovered = False, gn_think_eog = 0, gn_canary_round = 0, gn_canary_match = 0, gn_canary_total = 0,
      gn_calls = []\<rparr>"

definition generate :: "('m, 's, 'v) gen_env \<Rightarrow> bool \<Rightarrow> int \<Rightarrow> 's \<Rightarrow> 'v option list \<Rightarrow> 'm core
    \<Rightarrow> (gen_result \<times> ('m, 's, 'v) gen) option" where
  "generate env was_mid_think last_context smpl rows c =
     (case gen_loop env 0 (gen_init env was_mid_think last_context smpl rows c) of
        None \<Rightarrow> None
      | Some (i, g) \<Rightarrow> (let g = close_round env i g in Some (build_result env g, g)))"

end
