(* ===== verification/Lim_Speculation.thy ===== *)
theory Lim_Speculation
  imports Lim_Generator
begin

section \<open>Generation keeps the context consistent\<close>

text \<open>
  During a round the memory is ahead of the tracker (a decoded verify batch) or behind it (a matched origin
  whose verify batch is still to come). The relations below say how far, at the points of an iteration;
  every generation ends with tracker, position and memory in agreement, with one exception that is
  shown at the end.
\<close>

subsection \<open>The relation of tracker and memory\<close>

text \<open>With nothing left to feed, and with the token \<open>t\<close> still to be fed. \<open>ts0\<close> is the tracker at the start.\<close>

definition kv_rel :: "('m \<Rightarrow> token list \<Rightarrow> nat \<Rightarrow> bool) \<Rightarrow> token list \<Rightarrow> 'm core \<Rightarrow> spec \<Rightarrow> bool" where
  "kv_rel holds ts0 c sp \<longleftrightarrow> co_n_past c = int (length (tracker c)) \<and> \<not> sp_no_feed sp \<and>
     (if sp_verify_pending sp then
        (\<exists>base. prefix ts0 base \<and> tracker c = base @ [hd (sp_draft sp)] \<and> holds (co_mem c) base 0)
      else prefix ts0 (tracker c) \<and>
        (if sp_in_progress sp then
           (\<exists>base. sp_committed sp < length (sp_draft sp) \<and> tracker c = base @ take (sp_committed sp + 1) (sp_draft sp)
              \<and> holds (co_mem c) (base @ sp_draft sp) (length (sp_draft sp) - 1))
         else holds (co_mem c) (tracker c) 0))"

definition mid_rel :: "('m \<Rightarrow> token list \<Rightarrow> nat \<Rightarrow> bool) \<Rightarrow> token list \<Rightarrow> token \<Rightarrow> 'm core \<Rightarrow> spec \<Rightarrow> bool" where
  "mid_rel holds ts0 t c sp \<longleftrightarrow> co_n_past c = int (length (tracker c)) \<and> prefix ts0 (tracker c) \<and>
     (if \<not> sp_no_feed sp then \<not> sp_verify_pending sp \<and> \<not> sp_in_progress sp \<and> holds (co_mem c) (tracker c) 0
      else if sp_verify_pending sp then t = hd (sp_draft sp) \<and> holds (co_mem c) (tracker c) 0
      else 0 < sp_committed sp
        \<and> (\<exists>base. sp_committed sp < length (sp_draft sp) \<and> tracker c = base @ take (sp_committed sp) (sp_draft sp)
        \<and> t = sp_draft sp ! sp_committed sp \<and> holds (co_mem c) (base @ sp_draft sp) (length (sp_draft sp) - 1)
        \<and> (\<not> sp_in_progress sp \<longrightarrow> sp_committed sp + 1 = length (sp_draft sp))))"

definition settled :: "('m \<Rightarrow> token list \<Rightarrow> nat \<Rightarrow> bool) \<Rightarrow> token list \<Rightarrow> 'm core \<Rightarrow> bool" where
  "settled holds ts0 c \<longleftrightarrow> co_n_past c = int (length (tracker c)) \<and> prefix ts0 (tracker c)
     \<and> holds (co_mem c) (tracker c) 0"

text \<open>The memory is one token ahead of the tracker and of the position.\<close>

definition one_ahead :: "('m \<Rightarrow> token list \<Rightarrow> nat \<Rightarrow> bool) \<Rightarrow> token list \<Rightarrow> token \<Rightarrow> 'm core \<Rightarrow> bool" where
  "one_ahead holds ts0 t c \<longleftrightarrow> co_n_past c = int (length (tracker c)) \<and> prefix ts0 (tracker c)
     \<and> holds (co_mem c) (tracker c @ [t]) 0"

text \<open>The bookkeeping of the round alone: at any point, and at the top of the loop.\<close>

definition round_ok :: "nat \<Rightarrow> spec \<Rightarrow> bool" where
  "round_ok K sp \<longleftrightarrow>
     (sp_verify_pending sp \<longrightarrow> sp_in_progress sp \<and> sp_committed sp = 0)
     \<and> (sp_in_progress sp \<longrightarrow> \<not> sp_origin_pending sp \<and> \<not> sp_bonus_pending sp \<and> \<not> sp_round_complete sp
          \<and> sp_verify_rows sp = length (sp_draft sp) - 1)
     \<and> (sp_in_progress sp \<or> sp_origin_pending sp \<longrightarrow> sp_draft sp \<noteq> [] \<and> length (sp_draft sp) \<le> Suc K)
     \<and> (sp_origin_pending sp \<longrightarrow> \<not> sp_bonus_pending sp \<and> \<not> sp_round_complete sp)"

definition top_ok :: "nat \<Rightarrow> spec \<Rightarrow> bool" where
  "top_ok K sp \<longleftrightarrow> round_ok K sp \<and> \<not> sp_no_feed sp \<and> \<not> sp_verify_pending sp
     \<and> (sp_round_complete sp \<longrightarrow> sp_bonus_pending sp)
     \<and> (sp_in_progress sp \<longrightarrow> sp_verify_row sp = sp_committed sp \<and> sp_committed sp < sp_verify_rows sp
          \<and> sp_draft_idx sp = sp_committed sp + 2)"

text \<open>After the feed, and between the comparison and the feed.\<close>

definition fed_ok :: "nat \<Rightarrow> spec \<Rightarrow> bool" where
  "fed_ok K sp \<longleftrightarrow> round_ok K sp \<and> \<not> sp_origin_pending sp
     \<and> (sp_verify_pending sp \<longrightarrow> sp_verify_row sp = 0 \<and> sp_draft_idx sp = 2)
     \<and> (sp_in_progress sp \<and> \<not> sp_verify_pending sp \<longrightarrow> sp_verify_row sp = sp_committed sp
          \<and> sp_committed sp < sp_verify_rows sp \<and> sp_draft_idx sp = sp_committed sp + 2)
     \<and> (sp_round_complete sp \<longrightarrow> \<not> sp_bonus_pending sp)"

definition mid_ok :: "nat \<Rightarrow> spec \<Rightarrow> bool" where
  "mid_ok K sp \<longleftrightarrow> fed_ok K sp
     \<and> (if sp_no_feed sp then sp_in_progress sp \<or> sp_bonus_pending sp
        else \<not> sp_in_progress sp \<and> \<not> sp_bonus_pending sp)"

lemma fed_ok_no_feed: "fed_ok K (sp\<lparr>sp_no_feed := b\<rparr>) = fed_ok K sp"
  by (simp add: fed_ok_def round_ok_def)

definition flags_kept :: "('m, 's, 'v) gen \<Rightarrow> ('m, 's, 'v) gen \<Rightarrow> bool" where
  "flags_kept g g' \<longleftrightarrow> gn_text g' = gn_text g \<and> gn_flags g' \<in> {gn_flags g, (gn_flags g)\<lparr>fl_early_exit := True\<rparr>}"

text \<open>What a generation is observed by: everything but the memory's contents, the round and the checkpoints.\<close>

record 's obs =
  ob_tokens :: "token list"
  ob_n_past :: int
  ob_stop :: bool
  ob_kind :: bool
  ob_smpl :: 's
  ob_text :: gtext
  ob_flags :: flags
  ob_last_context :: int
  ob_warned :: bool
  ob_recovered :: bool
  ob_think_eog :: int

definition obs :: "('m \<Rightarrow> bool) \<Rightarrow> ('m, 's, 'v) gen \<Rightarrow> 's obs" where
  "obs kind g = \<lparr>ob_tokens = tracker (gn_core g), ob_n_past = co_n_past (gn_core g), ob_stop = co_stop (gn_core g),
     ob_kind = kind (co_mem (gn_core g)), ob_smpl = gn_smpl g, ob_text = gn_text g, ob_flags = gn_flags g,
     ob_last_context = gn_last_context g, ob_warned = gn_warned g, ob_recovered = gn_recovered g,
     ob_think_eog = gn_think_eog g\<rparr>"

text \<open>The rows that are still to be sampled are those of the tracked tokens; \<open>f\<close> is what a row depends on.\<close>

definition row_rel :: "(token list \<Rightarrow> 'v) \<Rightarrow> ('m, 's, 'v) gen \<Rightarrow> bool" where
  "row_rel f g \<longleftrightarrow>
     (let sp = gn_spec g; ts = tracker (gn_core g) in
      sp_verify_pending sp
      \<or> (if sp_in_progress sp then \<exists>base. ts = base @ take (sp_committed sp + 1) (sp_draft sp)
           \<and> gn_rows g = map (\<lambda>j. Some (f (base @ take (j + 1) (sp_draft sp)))) [0..<length (sp_draft sp)]
         else gn_rows g \<noteq> [] \<and> last (gn_rows g) = Some (f ts)))"

definition mid_rows :: "(token list \<Rightarrow> 'v) \<Rightarrow> ('m, 's, 'v) gen \<Rightarrow> bool" where
  "mid_rows f g \<longleftrightarrow>
     (let sp = gn_spec g; ts = tracker (gn_core g) in
      sp_no_feed sp \<and> \<not> sp_verify_pending sp \<longrightarrow> (\<exists>base. ts = base @ take (sp_committed sp) (sp_draft sp)
        \<and> gn_rows g = map (\<lambda>j. Some (f (base @ take (j + 1) (sp_draft sp)))) [0..<length (sp_draft sp)]))"

lemma push_token_simps [simp]:
  "tracker (push_token t c) = tracker c @ [t]" "co_mem (push_token t c) = co_mem c"
  "co_n_past (push_token t c) = co_n_past c" "co_stop (push_token t c) = co_stop c"
  by (simp_all add: push_token_def)

lemma mtp_note_simps [simp]:
  "gn_core (mtp_note cs g) = gn_core g" "gn_spec (mtp_note cs g) = gn_spec g" "gn_text (mtp_note cs g) = gn_text g"
  "gn_flags (mtp_note cs g) = gn_flags g" "gn_rows (mtp_note cs g) = gn_rows g" "gn_smpl (mtp_note cs g) = gn_smpl g"
  "gn_last_context (mtp_note cs g) = gn_last_context g" "gn_warned (mtp_note cs g) = gn_warned g"
  "gn_recovered (mtp_note cs g) = gn_recovered g" "gn_think_eog (mtp_note cs g) = gn_think_eog g"
  by (simp_all add: mtp_note_def)

lemma early_exit_simps [simp]:
  "gn_core (early_exit g) = gn_core g" "gn_spec (early_exit g) = gn_spec g"
  "fl_unfed_tail (gn_flags (early_exit g)) = fl_unfed_tail (gn_flags g)"
  by (simp_all add: early_exit_def)

lemma judge_canary_simps [simp]:
  "gn_core (judge_canary env b g) = gn_core g" "gn_spec (judge_canary env b g) = gn_spec g"
  "gn_text (judge_canary env b g) = gn_text g" "gn_flags (judge_canary env b g) = gn_flags g"
  "gn_rows (judge_canary env b g) = gn_rows g" "gn_smpl (judge_canary env b g) = gn_smpl g"
  "gn_last_context (judge_canary env b g) = gn_last_context g" "gn_warned (judge_canary env b g) = gn_warned g"
  "gn_recovered (judge_canary env b g) = gn_recovered g" "gn_think_eog (judge_canary env b g) = gn_think_eog g"
  by (simp_all add: judge_canary_def Let_def)

lemma reject_draft_ok:
  "drop_cells env i g = (ok, g') \<Longrightarrow> reject_draft env i g = (ok,
     upd_spec (\<lambda>s. s\<lparr>sp_in_progress := False, sp_no_feed := False, sp_verify_row := 0, sp_draft := []\<rparr>)
       (mtp_note [On_Verify_Mismatch (sp_draft_idx (gn_spec g)), Note_Round (1 + sp_committed (gn_spec g) + 1)] g'))"
  by (simp add: reject_draft_def Let_def)

lemma decode_result_ok: "fst (handle_decode_result ret True) \<longleftrightarrow> ret = 0 \<or> ret > 2"
  by (auto simp: handle_decode_result_def)

context window_memory
begin

lemma llama_any:
  assumes "holds m ts w" "int (length (ts @ us)) \<le> POS_MAX" "llama_decode ops a m (int (length ts)) us = (ret, m')"
  obtains k where "k \<le> length us" "\<And>w'. w' < k \<Longrightarrow> w' \<le> cap m \<Longrightarrow> holds m' (ts @ take k us) w'"
    "k = 0 \<Longrightarrow> m' = m" "ret = 0 \<or> ret > 2 \<Longrightarrow> k = length us" "\<not> (ret = 0 \<or> ret > 2) \<Longrightarrow> snd a = 0 \<Longrightarrow> k = 0"
    "kind m' = kind m" "cap m' = cap m"
proof -
  obtain r n where a: "a = (r, n)" by fastforce
  have d: "holds (op_decode ops m (int (length ts)) (take n us)) (ts @ take n us) w'"
    if "w' < length (take n us)" "w' \<le> cap m" for n w'
    using assms(1,2) that by (intro decode) (auto simp: min_def split: if_splits)
  have n: "op_decode ops m (int (length ts)) [] = m" by (rule decode_nil)
  consider (keep) "ret = 1 \<or> ret = - 1" | (part) "\<not> (ret = 1 \<or> ret = - 1)" "ret = 2 \<or> ret < 0"
    | (full) "\<not> (ret = 1 \<or> ret = - 1)" "\<not> (ret = 2 \<or> ret < 0)" by blast
  then show thesis
  proof cases
    case keep
    then have "m' = m" using assms(3) a by (auto simp: llama_decode_def split: if_splits)
    with that [of 0] keep show thesis by auto
  next
    case part
    then have m': "ret = r" "m' = op_decode ops m (int (length ts)) (take n us)"
      using assms(3) a by (auto simp: llama_decode_def split: if_splits)
    have t: "take n us = take (min n (length us)) us" by (simp add: min_def)
    show thesis
    proof (rule that [of "min n (length us)"])
      show "w' < min n (length us) \<Longrightarrow> w' \<le> cap m \<Longrightarrow> holds m' (ts @ take (min n (length us)) us) w'" for w'
        using d [of w' n] m'(2) t by (simp add: min.commute)
      show "min n (length us) = 0 \<Longrightarrow> m' = m" by (simp add: m'(2) n t)
      show "ret = 0 \<or> 2 < ret \<Longrightarrow> min n (length us) = length us" using part by auto
      show "\<not> (ret = 0 \<or> 2 < ret) \<Longrightarrow> snd a = 0 \<Longrightarrow> min n (length us) = 0" using a by simp
    qed (simp_all add: m' same_kind same_cap)
  next
    case full
    then have m': "m' = op_decode ops m (int (length ts)) us"
      using assms(3) a by (auto simp: llama_decode_def split: if_splits)
    have r: "ret = 0 \<or> ret > 2" using full by linarith
    show thesis
    proof (rule that [of "length us"])
      show "w' < length us \<Longrightarrow> w' \<le> cap m \<Longrightarrow> holds m' (ts @ take (length us) us) w'" for w'
        using d [of w' "length us"] m' by simp
      show "length us = 0 \<Longrightarrow> m' = m" using m' n by simp
    qed (use r in \<open>simp_all add: m' same_kind same_cap\<close>)
  qed
qed

lemma feed_kept:
  assumes "mid_rel holds ts0 t (gn_core g) (gn_spec g)" "sp_no_feed (gn_spec g)" "feed_token env i t g = (ok, g')"
  shows "kv_rel holds ts0 (gn_core g') (gn_spec g')" "ok"
    "g' = upd_spec (sp_no_feed_update (\<lambda>_. False)) (upd_core (\<lambda>c. push_token t (c\<lparr>co_n_past := co_n_past c + 1\<rparr>)) g)"
proof -
  let ?c = "gn_core g" and ?sp = "gn_spec g"
  show g': "ok"
    "g' = upd_spec (sp_no_feed_update (\<lambda>_. False)) (upd_core (\<lambda>c. push_token t (c\<lparr>co_n_past := co_n_past c + 1\<rparr>)) g)"
    using assms(2,3) by (simp_all add: feed_token_def Let_def)
  note m = assms(1) [unfolded mid_rel_def]
  have n: "tracker (gn_core g') = tracker ?c @ [t]" "co_mem (gn_core g') = co_mem ?c"
    "co_n_past (gn_core g') = int (length (tracker ?c @ [t]))" "gn_spec g' = ?sp\<lparr>sp_no_feed := False\<rparr>"
    using g' m by simp_all
  have p: "prefix ts0 (tracker ?c @ [t])" using m by simp
  consider (v) "sp_verify_pending ?sp" | (d) "\<not> sp_verify_pending ?sp" by blast
  then show "kv_rel holds ts0 (gn_core g') (gn_spec g')"
  proof cases
    case v
    with m assms(2) have "t = hd (sp_draft ?sp)" "holds (co_mem ?c) (tracker ?c) 0" "prefix ts0 (tracker ?c)" by simp_all
    then show ?thesis unfolding kv_rel_def n using v by simp
  next
    case d
    with m assms(2) obtain base where b: "sp_committed ?sp < length (sp_draft ?sp)"
      "tracker ?c = base @ take (sp_committed ?sp) (sp_draft ?sp)" "t = sp_draft ?sp ! sp_committed ?sp"
      "holds (co_mem ?c) (base @ sp_draft ?sp) (length (sp_draft ?sp) - 1)"
      "\<not> sp_in_progress ?sp \<longrightarrow> sp_committed ?sp + 1 = length (sp_draft ?sp)" by auto
    have t: "tracker ?c @ [t] = base @ take (sp_committed ?sp + 1) (sp_draft ?sp)"
      using b(1-3) by (simp add: take_Suc_conv_app_nth)
    show ?thesis
    proof (cases "sp_in_progress ?sp")
      case True
      have "\<exists>base. sp_committed ?sp < length (sp_draft ?sp) \<and> tracker ?c @ [t] = base @ take (sp_committed ?sp + 1) (sp_draft ?sp)
          \<and> holds (co_mem ?c) (base @ sp_draft ?sp) (length (sp_draft ?sp) - 1)"
        using b(1,4) t by blast
      then show ?thesis unfolding kv_rel_def n using True d p by simp
    next
      case False
      then have "tracker ?c @ [t] = base @ sp_draft ?sp" using b(5) t by simp
      then show ?thesis unfolding kv_rel_def n using d False p holds_0 [OF b(4)] by simp
    qed
  qed
qed

lemma feed_decoded:
  assumes "mid_rel holds ts0 t (gn_core g) (gn_spec g)" "\<not> sp_no_feed (gn_spec g)" "ge_ops env = ops"
    and "int (length (tracker (gn_core g))) + 1 \<le> POS_MAX" "feed_token env i t g = (ok, g')"
  obtains k m' v where "k \<le> 1" "ok \<longrightarrow> k = 1" "holds m' (tracker (gn_core g) @ take k [t]) 0"
    "cap m' = cap (co_mem (gn_core g))" "kind m' = kind (co_mem (gn_core g))"
    "tracker (gn_core g') = tracker (gn_core g) @ take k [t]" "co_mem (gn_core g') = m'"
    "co_n_past (gn_core g') = int (length (tracker (gn_core g')))" "co_stop (gn_core g') = co_stop (gn_core g)"
    "g' = g\<lparr>gn_core := gn_core g', gn_rows := [v]\<rparr>"
    "ok \<longrightarrow> v = Some (ge_view env (co_mem (gn_core g)) (co_n_past (gn_core g)) [t])"
proof -
  let ?c = "gn_core g"
  from assms(1,2) have h: "holds (co_mem ?c) (tracker ?c) 0" "co_n_past ?c = int (length (tracker ?c))"
    by (simp_all add: mid_rel_def)
  obtain ret m' where d: "llama_decode ops (ge_answer env i) (co_mem ?c) (co_n_past ?c) [t] = (ret, m')"
    by fastforce
  obtain k where k: "k \<le> length [t]" "\<And>w'. w' < k \<Longrightarrow> w' \<le> cap (co_mem ?c) \<Longrightarrow> holds m' (tracker ?c @ take k [t]) w'"
    "k = 0 \<Longrightarrow> m' = co_mem ?c" "ret = 0 \<or> ret > 2 \<Longrightarrow> k = length [t]" "kind m' = kind (co_mem ?c)"
    "cap m' = cap (co_mem ?c)"
    by (rule llama_any [OF h(1) _ d [unfolded h(2)]]) (use assms(4) in simp_all)
  have hk: "holds m' (tracker ?c @ take k [t]) 0"
    using k(2) [of 0] k(3) h(1) by (cases k) simp_all
  have p: "sync_n_past (op_pos_max ops m') = int (length (tracker ?c) + k)"
    using pos_max [OF hk] k(1) by (cases k) (simp_all add: sync_n_past_def)
  have k01: "k = 0 \<or> k = 1" using k(1) by auto
  show thesis
  proof (cases "fst (handle_decode_result ret True)")
    case True
    then have k1: "k = 1" using k(4) by (simp add: decode_result_ok)
    have g': "ok" "g' = g\<lparr>gn_core := push_token t (?c\<lparr>co_mem := m', co_n_past := co_n_past ?c + 1\<rparr>),
        gn_rows := [Some (ge_view env (co_mem ?c) (co_n_past ?c) [t])]\<rparr>"
      using assms(2,3,5) d True by (simp_all add: feed_token_def Let_def)
    show thesis
      by (rule that [of k m' "Some (ge_view env (co_mem ?c) (co_n_past ?c) [t])"])
        (use g' k1 k(5,6) hk h(2) in simp_all)
  next
    case False
    from k01 show thesis
    proof
      assume z: "k = 0"
      have g': "\<not> ok" "g' = g\<lparr>gn_core := upd_state (ss_all_context_tokens_update (take (length (tracker ?c))))
          (push_token t (?c\<lparr>co_mem := m', co_n_past := int (length (tracker ?c))\<rparr>)), gn_rows := [None]\<rparr>"
        using assms(2,3,5) d False p z by (simp_all add: feed_token_def Let_def)
      show thesis by (rule that [of k m' None]) (use g' z k(5,6) hk in simp_all)
    next
      assume o: "k = 1"
      have g': "\<not> ok" "g' = g\<lparr>gn_core := push_token t (?c\<lparr>co_mem := m', co_n_past := 1 + int (length (tracker ?c))\<rparr>),
          gn_rows := [None]\<rparr>"
        using assms(2,3,5) d False p o by (simp_all add: feed_token_def Let_def)
      show thesis by (rule that [of k m' None]) (use g' o k(5,6) hk in simp_all)
    qed
  qed
qed

lemma feed_rel:
  assumes "mid_rel holds ts0 t (gn_core g) (gn_spec g)" "ge_ops env = ops"
    and "int (length (tracker (gn_core g))) + 1 \<le> POS_MAX" "feed_token env i t g = (ok, g')"
  shows "kv_rel holds ts0 (gn_core g') (gn_spec g')" "gn_spec g' = (gn_spec g)\<lparr>sp_no_feed := False\<rparr>"
    "gn_text g' = gn_text g" "gn_flags g' = gn_flags g" "cap (co_mem (gn_core g')) = cap (co_mem (gn_core g))"
    "length (tracker (gn_core g')) \<le> length (tracker (gn_core g)) + 1"
    "ok \<Longrightarrow> tracker (gn_core g') = tracker (gn_core g) @ [t]"
proof -
  have "kv_rel holds ts0 (gn_core g') (gn_spec g') \<and> gn_spec g' = (gn_spec g)\<lparr>sp_no_feed := False\<rparr>
    \<and> gn_text g' = gn_text g \<and> gn_flags g' = gn_flags g \<and> cap (co_mem (gn_core g')) = cap (co_mem (gn_core g))
    \<and> length (tracker (gn_core g')) \<le> length (tracker (gn_core g)) + 1
    \<and> (ok \<longrightarrow> tracker (gn_core g') = tracker (gn_core g) @ [t])"
  proof (cases "sp_no_feed (gn_spec g)")
    case True
    from feed_kept [OF assms(1) True assms(4)] show ?thesis by simp
  next
    case False
    obtain k m' v where k: "k \<le> 1" "ok \<longrightarrow> k = 1" "holds m' (tracker (gn_core g) @ take k [t]) 0"
      "cap m' = cap (co_mem (gn_core g))" "kind m' = kind (co_mem (gn_core g))"
      "tracker (gn_core g') = tracker (gn_core g) @ take k [t]" "co_mem (gn_core g') = m'"
      "co_n_past (gn_core g') = int (length (tracker (gn_core g')))" "co_stop (gn_core g') = co_stop (gn_core g)"
      "g' = g\<lparr>gn_core := gn_core g', gn_rows := [v]\<rparr>"
      "ok \<longrightarrow> v = Some (ge_view env (co_mem (gn_core g)) (co_n_past (gn_core g)) [t])"
      by (rule feed_decoded [OF assms(1) False assms(2-4)])
    have g: "gn_spec g' = gn_spec g" "gn_text g' = gn_text g" "gn_flags g' = gn_flags g"
      by (subst k(10), simp)+
    have "kv_rel holds ts0 (gn_core g') (gn_spec g)"
      using assms(1) False k(3,6-8) by (simp add: kv_rel_def mid_rel_def)
    moreover have "gn_spec g = (gn_spec g)\<lparr>sp_no_feed := False\<rparr>" using False by simp
    ultimately show ?thesis using g k(1,2,4,6,7) by auto
  qed
  then show "kv_rel holds ts0 (gn_core g') (gn_spec g')" "gn_spec g' = (gn_spec g)\<lparr>sp_no_feed := False\<rparr>"
    "gn_text g' = gn_text g" "gn_flags g' = gn_flags g" "cap (co_mem (gn_core g')) = cap (co_mem (gn_core g))"
    "length (tracker (gn_core g')) \<le> length (tracker (gn_core g)) + 1"
    "ok \<Longrightarrow> tracker (gn_core g') = tracker (gn_core g) @ [t]" by blast+
qed

text \<open>Removing what the memory has beyond the tracker.\<close>

lemma drop_rest:
  assumes "holds (co_mem c) (tracker c @ rest) w" "length rest \<le> w" "co_n_past c = int (length (tracker c))"
  obtains m' where "op_seq_rm ops (co_mem c) (co_n_past c) (- 1) = (True, m')" "holds m' (tracker c) 0"
    "kind m' = kind (co_mem c)" "cap m' = cap (co_mem c)"
  by (rule removeE [OF assms(1), of "length (tracker c)"]) (use assms(2,3) in simp_all)

lemma drop_round:
  assumes "holds (co_mem c) (base @ ds) (length ds - 1)" "tracker c = base @ take (n + 1) ds" "n < length ds"
    and "co_n_past c = int (length (tracker c))"
  obtains m' where "op_seq_rm ops (co_mem c) (co_n_past c) (- 1) = (True, m')" "holds m' (tracker c) 0"
    "kind m' = kind (co_mem c)" "cap m' = cap (co_mem c)"
proof (rule drop_rest [OF _ _ assms(4)])
  show "holds (co_mem c) (tracker c @ drop (n + 1) ds) (length ds - 1)" using assms(1,2) by simp
qed (use assms(3) in simp_all)

lemma compare_ok:
  assumes "top_ok K (gn_spec g)" "kv_rel holds ts0 (gn_core g) (gn_spec g)" "ge_ops env = ops"
  obtains g' where "compare_draft env i t g = Inr g'" "mid_rel holds ts0 t (gn_core g') (gn_spec g')"
    "mid_ok K (gn_spec g')" "gn_text g' = gn_text g" "gn_flags g' = gn_flags g"
    "tracker (gn_core g') = tracker (gn_core g)" "co_stop (gn_core g') = co_stop (gn_core g)"
    "co_n_past (gn_core g') = co_n_past (gn_core g)" "cap (co_mem (gn_core g')) = cap (co_mem (gn_core g))"
    "obs kind g' = obs kind g" "\<forall>f. row_rel f g \<longrightarrow> mid_rows f g'"
proof -
  let ?sp = "gn_spec g" and ?c = "gn_core g"
  have sp: "\<not> sp_no_feed ?sp" "\<not> sp_verify_pending ?sp" "round_ok K ?sp" using assms(1) by (simp_all add: top_ok_def)
  have c: "co_n_past ?c = int (length (tracker ?c))" "prefix ts0 (tracker ?c)"
    using assms(2) sp by (simp_all add: kv_rel_def)
  have idle: "holds (co_mem ?c) (tracker ?c) 0" if "\<not> sp_in_progress ?sp"
    using assms(2) sp that by (simp add: kv_rel_def)
  consider (bonus) "sp_bonus_pending ?sp" "\<not> sp_in_progress ?sp" "\<not> sp_origin_pending ?sp"
    | (origin) "\<not> sp_bonus_pending ?sp" "sp_origin_pending ?sp" "\<not> sp_in_progress ?sp"
    | (verify) "\<not> sp_bonus_pending ?sp" "\<not> sp_origin_pending ?sp" "sp_in_progress ?sp"
    | (none) "\<not> sp_bonus_pending ?sp" "\<not> sp_origin_pending ?sp" "\<not> sp_in_progress ?sp"
    using sp(3) by (auto simp: round_ok_def)
  then show thesis
  proof cases
    case bonus
    have e: "compare_draft env i t g = Inr (mtp_note [On_Bonus]
        (upd_spec (\<lambda>s. s\<lparr>sp_bonus_pending := False, sp_round_complete := True\<rparr>) g))"
      unfolding compare_draft_def Let_def using bonus by simp
    show thesis
      by (rule that [OF e]) (use bonus sp c idle in \<open>simp_all add: obs_def mid_rows_def row_rel_def Let_def mid_rel_def mid_ok_def fed_ok_def round_ok_def\<close>)
  next
    case origin
    have d: "sp_draft ?sp \<noteq> []" "length (sp_draft ?sp) \<le> Suc K" "\<not> sp_round_complete ?sp"
      using sp(3) origin by (simp_all add: round_ok_def)
    show thesis
    proof (cases "t = sp_draft ?sp ! 0")
      case True
      have e: "compare_draft env i t g = Inr (mtp_note [On_Origin_Match] (upd_spec (\<lambda>s. s\<lparr>sp_no_feed := True,
          sp_verify_pending := True, sp_in_progress := True, sp_verify_row := 0,
          sp_verify_rows := length (sp_draft s) - 1, sp_committed := 0, sp_draft_idx := 2\<rparr>)
          (judge_canary env True (upd_spec (sp_origin_pending_update (\<lambda>_. False)) g))))"
        unfolding compare_draft_def Let_def using origin True by simp
      show thesis
        by (rule that [OF e])
          (use origin sp c idle d True in \<open>simp_all add: obs_def mid_rows_def row_rel_def Let_def mid_rel_def mid_ok_def fed_ok_def round_ok_def hd_conv_nth\<close>)
    next
      case False
      have e: "compare_draft env i t g = Inr (mtp_note [On_Origin_Mismatch, Note_Round 1] (upd_spec (sp_draft_update (\<lambda>_. []))
          (judge_canary env False (upd_spec (sp_origin_pending_update (\<lambda>_. False)) g))))"
        unfolding compare_draft_def Let_def using origin False by simp
      show thesis
        by (rule that [OF e])
          (use origin sp c idle d False in \<open>simp_all add: obs_def mid_rows_def row_rel_def Let_def mid_rel_def mid_ok_def fed_ok_def round_ok_def\<close>)
    qed
  next
    case verify
    have v: "sp_verify_row ?sp = sp_committed ?sp" "sp_committed ?sp < sp_verify_rows ?sp"
      "sp_draft_idx ?sp = sp_committed ?sp + 2" "sp_verify_rows ?sp = length (sp_draft ?sp) - 1"
      "length (sp_draft ?sp) \<le> Suc K" "sp_draft ?sp \<noteq> []" "\<not> sp_round_complete ?sp"
      using assms(1) verify by (simp_all add: top_ok_def round_ok_def)
    obtain base where b: "sp_committed ?sp < length (sp_draft ?sp)"
      "tracker ?c = base @ take (sp_committed ?sp + 1) (sp_draft ?sp)"
      "holds (co_mem ?c) (base @ sp_draft ?sp) (length (sp_draft ?sp) - 1)"
      using assms(2) sp verify by (auto simp: kv_rel_def)
    have i: "sp_draft_idx ?sp - 1 = sp_committed ?sp + 1" "sp_verify_row ?sp < sp_verify_rows ?sp" using v by simp_all
    show thesis
    proof (cases "t = sp_draft ?sp ! (sp_committed ?sp + 1)")
      case True
      have m: "\<exists>base. sp_committed ?sp + 1 < length (sp_draft ?sp) \<and> tracker ?c = base @ take (sp_committed ?sp + 1) (sp_draft ?sp)
          \<and> t = sp_draft ?sp ! (sp_committed ?sp + 1)
          \<and> holds (co_mem ?c) (base @ sp_draft ?sp) (length (sp_draft ?sp) - 1)"
        using b v(2,4) True by (intro exI [of _ base]) simp
      let ?last = "sp_committed ?sp + 1 \<ge> sp_verify_rows ?sp"
      have e: "compare_draft env i t g = Inr (mtp_note [On_Verify_Match] (upd_spec (\<lambda>s. s\<lparr>sp_no_feed := True,
          sp_committed := sp_committed ?sp + 1, sp_verify_row := sp_committed ?sp + 1,
          sp_draft_idx := Suc (Suc (Suc (sp_committed ?sp))), sp_in_progress := \<not> ?last, sp_bonus_pending := ?last\<rparr>) g))"
        unfolding compare_draft_def Let_def using verify i v True by simp
      have l: "?last \<Longrightarrow> sp_committed ?sp + 2 = length (sp_draft ?sp)" using v(2,4) by linarith
      show thesis
        by (rule that [OF e]; cases ?last)
          (use verify sp c v m l in \<open>simp_all add: obs_def mid_rows_def row_rel_def Let_def mid_rel_def mid_ok_def fed_ok_def round_ok_def\<close>)
    next
      case False
      obtain m' where m': "op_seq_rm ops (co_mem ?c) (co_n_past ?c) (- 1) = (True, m')" "holds m' (tracker ?c) 0"
        "kind m' = kind (co_mem ?c)" "cap m' = cap (co_mem ?c)"
        by (rule drop_round [OF b(3,2,1) c(1)])
      have dc: "drop_cells env i g = (True, upd_core (co_mem_update (\<lambda>_. m')) g)"
        by (simp add: drop_cells_def assms(3) m'(1))
      have e: "compare_draft env i t g = Inr (snd (reject_draft env i g))"
        unfolding compare_draft_def Let_def using verify i False dc by simp
      show thesis
        by (rule that [OF e])
          (use verify sp c v m' in \<open>simp_all add: reject_draft_ok [OF dc] obs_def mid_rows_def row_rel_def Let_def mid_rel_def mid_ok_def fed_ok_def round_ok_def\<close>)
    qed
  next
    case none
    have e: "compare_draft env i t g = Inr g" unfolding compare_draft_def Let_def using none by simp
    show thesis
      by (rule that [OF e])
        (use none sp c idle assms(1) in \<open>simp_all add: obs_def mid_rows_def row_rel_def Let_def mid_rel_def mid_ok_def fed_ok_def round_ok_def top_ok_def\<close>)
  qed
qed

lemma feed_break_ok:
  assumes "mid_rel holds ts0 t (gn_core g) (gn_spec g)" "ge_ops env = ops"
    and "int (length (tracker (gn_core g))) + 1 \<le> POS_MAX" "round_ok K (gn_spec g)"
  shows "kv_rel holds ts0 (gn_core (feed_break env i t g)) (gn_spec (feed_break env i t g))"
    "round_ok K (gn_spec (feed_break env i t g))"
    "cap (co_mem (gn_core (feed_break env i t g))) = cap (co_mem (gn_core g))"
    "fl_unfed_tail (gn_flags (feed_break env i t g)) = fl_unfed_tail (gn_flags g)"
    "length (tracker (gn_core (feed_break env i t g))) \<le> length (tracker (gn_core g)) + 1"
proof -
  obtain ok g' where f: "feed_token env i t g = (ok, g')" by fastforce
  note r = feed_rel [OF assms(1-3) f]
  have e: "gn_core (feed_break env i t g) = gn_core g'" "gn_spec (feed_break env i t g) = gn_spec g'"
    "fl_unfed_tail (gn_flags (feed_break env i t g)) = fl_unfed_tail (gn_flags g')"
    by (simp_all add: feed_break_def f)
  show "kv_rel holds ts0 (gn_core (feed_break env i t g)) (gn_spec (feed_break env i t g))"
    "cap (co_mem (gn_core (feed_break env i t g))) = cap (co_mem (gn_core g))"
    "fl_unfed_tail (gn_flags (feed_break env i t g)) = fl_unfed_tail (gn_flags g)"
    "length (tracker (gn_core (feed_break env i t g))) \<le> length (tracker (gn_core g)) + 1"
    unfolding e using r by simp_all
  show "round_ok K (gn_spec (feed_break env i t g))"
    unfolding e r(2) using assms(4) by (simp add: round_ok_def)
qed

lemma eog_break_feed:
  assumes "top_ok K (gn_spec g)" "kv_rel holds ts0 (gn_core g) (gn_spec g)" "ge_ops env = ops"
  obtains g1 where "eog_break env i t g = feed_break env i t g1" "mid_rel holds ts0 t (gn_core g1) (gn_spec g1)"
    "round_ok K (gn_spec g1)" "cap (co_mem (gn_core g1)) = cap (co_mem (gn_core g))"
    "obs kind g1 = (obs kind g)\<lparr>ob_text := close_open_call (gn_text g), ob_flags := (gn_flags g)\<lparr>fl_ended_on_eog := True\<rparr>\<rparr>"
proof -
  let ?g = "upd_flags (fl_ended_on_eog_update (\<lambda>_. True)) (g\<lparr>gn_text := close_open_call (gn_text g)\<rparr>)"
  let ?sp = "gn_spec g" and ?c = "gn_core g"
  have sp: "\<not> sp_no_feed ?sp" "\<not> sp_verify_pending ?sp" "round_ok K ?sp" using assms(1) by (simp_all add: top_ok_def)
  have c: "co_n_past ?c = int (length (tracker ?c))" "prefix ts0 (tracker ?c)"
    using assms(2) sp by (simp_all add: kv_rel_def)
  have idle: "holds (co_mem ?c) (tracker ?c) 0" if "\<not> sp_in_progress ?sp"
    using assms(2) sp that by (simp add: kv_rel_def)
  consider (verify) "sp_in_progress ?sp" | (bonus) "\<not> sp_in_progress ?sp" "sp_bonus_pending ?sp"
    | (none) "\<not> sp_in_progress ?sp" "\<not> sp_bonus_pending ?sp" by blast
  then show thesis
  proof cases
    case verify
    have v: "sp_verify_row ?sp = sp_committed ?sp" "sp_committed ?sp < sp_verify_rows ?sp"
      "sp_draft_idx ?sp = sp_committed ?sp + 2" "sp_verify_rows ?sp = length (sp_draft ?sp) - 1"
      using assms(1) verify by (simp_all add: top_ok_def round_ok_def)
    obtain base where b: "sp_committed ?sp < length (sp_draft ?sp)"
      "tracker ?c = base @ take (sp_committed ?sp + 1) (sp_draft ?sp)"
      "holds (co_mem ?c) (base @ sp_draft ?sp) (length (sp_draft ?sp) - 1)"
      using assms(2) sp verify by (auto simp: kv_rel_def)
    have i: "sp_draft_idx ?sp - 1 = sp_committed ?sp + 1" "sp_verify_row ?sp < sp_verify_rows ?sp" using v by simp_all
    show thesis
    proof (cases "t = sp_draft ?sp ! (sp_committed ?sp + 1)")
      case True
      let ?g1 = "mtp_note [On_Verify_Match] (upd_spec (\<lambda>s. s\<lparr>sp_no_feed := True, sp_committed := sp_committed ?sp + 1\<rparr>) ?g)"
      have m: "\<exists>base. sp_committed ?sp + 1 < length (sp_draft ?sp) \<and> tracker ?c = base @ take (sp_committed ?sp + 1) (sp_draft ?sp)
          \<and> t = sp_draft ?sp ! (sp_committed ?sp + 1)
          \<and> holds (co_mem ?c) (base @ sp_draft ?sp) (length (sp_draft ?sp) - 1)"
        using b v(2,4) True by (intro exI [of _ base]) simp
      have e: "eog_break env i t g = feed_break env i t ?g1"
        unfolding eog_break_def Let_def using verify i v True by simp
      show thesis
        by (rule that [OF e]) (use verify sp c m in \<open>simp_all add: mid_rel_def round_ok_def obs_def\<close>)
    next
      case False
      obtain m' where m': "op_seq_rm ops (co_mem ?c) (co_n_past ?c) (- 1) = (True, m')" "holds m' (tracker ?c) 0"
        "kind m' = kind (co_mem ?c)" "cap m' = cap (co_mem ?c)"
        by (rule drop_round [OF b(3,2,1) c(1)])
      have dc: "drop_cells env i ?g = (True, upd_core (co_mem_update (\<lambda>_. m')) ?g)"
        by (simp add: drop_cells_def assms(3) m'(1))
      have e: "eog_break env i t g = feed_break env i t (snd (reject_draft env i ?g))"
        unfolding eog_break_def Let_def using verify i False reject_draft_ok [OF dc] by simp
      show thesis
        by (rule that [OF e], unfold reject_draft_ok [OF dc] snd_conv)
          (use verify sp c m' in \<open>simp_all add: mid_rel_def round_ok_def obs_def\<close>)
    qed
  next
    case bonus
    have e: "eog_break env i t g = feed_break env i t (mtp_note [On_Bonus, Note_Round (1 + sp_verify_rows ?sp + 1)]
        (upd_spec (sp_bonus_pending_update (\<lambda>_. False)) ?g))"
      unfolding eog_break_def Let_def using bonus by simp
    show thesis
      by (rule that [OF e]) (use bonus sp c idle in \<open>simp_all add: mid_rel_def round_ok_def obs_def\<close>)
  next
    case none
    have e: "eog_break env i t g = feed_break env i t ?g"
      unfolding eog_break_def Let_def using none by simp
    show thesis
      by (rule that [OF e]) (use none sp c idle in \<open>simp_all add: mid_rel_def obs_def\<close>)
  qed
qed

lemma eog_break_ok:
  assumes "top_ok K (gn_spec g)" "kv_rel holds ts0 (gn_core g) (gn_spec g)" "ge_ops env = ops"
    and "int (length (tracker (gn_core g))) + 1 \<le> POS_MAX"
  shows "kv_rel holds ts0 (gn_core (eog_break env i t g)) (gn_spec (eog_break env i t g))
    \<and> round_ok K (gn_spec (eog_break env i t g))
    \<and> cap (co_mem (gn_core (eog_break env i t g))) = cap (co_mem (gn_core g))
    \<and> fl_unfed_tail (gn_flags (eog_break env i t g)) = fl_unfed_tail (gn_flags g)
    \<and> length (tracker (gn_core (eog_break env i t g))) \<le> length (tracker (gn_core g)) + 1"
proof -
  obtain g1 where g1: "eog_break env i t g = feed_break env i t g1" "mid_rel holds ts0 t (gn_core g1) (gn_spec g1)"
    "round_ok K (gn_spec g1)" "cap (co_mem (gn_core g1)) = cap (co_mem (gn_core g))"
    "obs kind g1 = (obs kind g)\<lparr>ob_text := close_open_call (gn_text g), ob_flags := (gn_flags g)\<lparr>fl_ended_on_eog := True\<rparr>\<rparr>"
    by (rule eog_break_feed [OF assms(1-3)])
  have o: "tracker (gn_core g1) = tracker (gn_core g)" "fl_unfed_tail (gn_flags g1) = fl_unfed_tail (gn_flags g)"
    using g1(5) by (simp_all add: obs_def)
  show ?thesis unfolding g1(1) using feed_break_ok [OF g1(2) assms(3) _ g1(3), of i] assms(4) g1(4) o by simp
qed

lemma advance_ok:
  assumes "fed_ok K (gn_spec g)" "kv_rel holds ts0 (gn_core g) (gn_spec g)" "ge_ops env = ops"
    and "\<forall>i. length (ge_draft env i) \<le> Suc K" "K \<le> cap (co_mem (gn_core g))"
    and "int (length (tracker (gn_core g))) + int K \<le> POS_MAX"
  shows "case advance_round env i g of
      Inr g' \<Rightarrow> top_ok K (gn_spec g') \<and> kv_rel holds ts0 (gn_core g') (gn_spec g') \<and> gn_text g' = gn_text g
        \<and> gn_flags g' = gn_flags g \<and> tracker (gn_core g') = tracker (gn_core g)
        \<and> cap (co_mem (gn_core g')) = cap (co_mem (gn_core g)) \<and> co_n_past (gn_core g') = co_n_past (gn_core g)
    | Inl g' \<Rightarrow> kv_rel holds ts0 (gn_core g') (gn_spec g') \<and> round_ok K (gn_spec g')
        \<and> fl_unfed_tail (gn_flags g') = fl_unfed_tail (gn_flags g)
        \<and> length (tracker (gn_core g')) \<le> length (tracker (gn_core g))"
proof -
  let ?sp = "gn_spec g" and ?c = "gn_core g"
  have nf: "\<not> sp_no_feed ?sp" "co_n_past ?c = int (length (tracker ?c))" using assms(2) by (simp_all add: kv_rel_def)
  consider (verify) "sp_verify_pending ?sp" | (complete) "\<not> sp_verify_pending ?sp" "sp_round_complete ?sp"
    | (idle) "\<not> sp_verify_pending ?sp" "\<not> sp_round_complete ?sp" by blast
  then show ?thesis
  proof cases
    case complete
    have e: "advance_round env i g = Inr (mtp_note [Note_Round (1 + sp_verify_rows ?sp + 1)]
        (upd_spec (sp_round_complete_update (\<lambda>_. False)) g))"
      unfolding advance_round_def Let_def using complete by simp
    show ?thesis unfolding e
      using complete assms(1,2) nf by (simp add: top_ok_def fed_ok_def round_ok_def kv_rel_def)
  next
    case idle
    show ?thesis
    proof (cases "\<not> sp_in_progress ?sp \<and> \<not> sp_bonus_pending ?sp \<and> length (gn_rows g) = 1 \<and> ge_draft env i \<noteq> []")
      case True
      have e: "advance_round env i g = Inr (upd_spec (\<lambda>s. s\<lparr>sp_draft := ge_draft env i, sp_origin_pending := True\<rparr>) g)"
        unfolding advance_round_def Let_def using idle True by simp
      show ?thesis unfolding e
        using idle True assms(1,2,4) nf by (simp add: top_ok_def fed_ok_def round_ok_def kv_rel_def)
    next
      case False
      have e: "advance_round env i g = Inr g" unfolding advance_round_def Let_def using idle False by auto
      show ?thesis unfolding e
        using idle assms(1,2) nf by (auto simp: top_ok_def fed_ok_def round_ok_def)
    qed
  next
    case verify
    have v: "sp_in_progress ?sp" "sp_committed ?sp = 0" "\<not> sp_origin_pending ?sp" "\<not> sp_bonus_pending ?sp"
      "\<not> sp_round_complete ?sp" "sp_verify_rows ?sp = length (sp_draft ?sp) - 1" "sp_draft ?sp \<noteq> []"
      "length (sp_draft ?sp) \<le> Suc K" "sp_verify_row ?sp = 0" "sp_draft_idx ?sp = 2"
      using assms(1) verify by (simp_all add: fed_ok_def round_ok_def)
    obtain base where b: "prefix ts0 base" "tracker ?c = base @ [hd (sp_draft ?sp)]" "holds (co_mem ?c) base 0"
      using assms(2) verify by (auto simp: kv_rel_def)
    let ?ds = "sp_draft ?sp" and ?g1 = "upd_spec (sp_verify_pending_update (\<lambda>_. False)) g"
    let ?rows = "verify_rows env (co_mem ?c) (co_n_past ?c - 1) ?ds"
    obtain ret m where d: "llama_decode ops (ge_verify_answer env i) (co_mem ?c) (co_n_past ?c - 1) ?ds = (ret, m)"
      by fastforce
    have p: "co_n_past ?c - 1 = int (length base)" "int (length (base @ ?ds)) \<le> POS_MAX"
      using nf(2) b(2) v(8) assms(6) by simp_all
    obtain k where k: "k \<le> length ?ds" "\<And>w'. w' < k \<Longrightarrow> w' \<le> cap (co_mem ?c) \<Longrightarrow> holds m (base @ take k ?ds) w'"
      "k = 0 \<Longrightarrow> m = co_mem ?c" "ret = 0 \<or> ret > 2 \<Longrightarrow> k = length ?ds" "cap m = cap (co_mem ?c)"
      using llama_any [OF b(3) p(2) d [unfolded p(1)]] by metis
    let ?g2 = "?g1\<lparr>gn_core := ?c\<lparr>co_mem := m\<rparr>, gn_rows := ?rows\<rparr>"
    show ?thesis
    proof (cases "fst (handle_decode_result ret True)")
      case True
      have "holds m (base @ ?ds) (length ?ds - 1)"
        using k(2) [of "length ?ds - 1"] k(4) True v(7,8) assms(5) by (simp add: decode_result_ok)
      moreover have "tracker ?c = base @ take 1 ?ds" using b(2) v(7) by (cases ?ds) simp_all
      ultimately have h: "\<exists>base. tracker ?c = base @ take 1 ?ds \<and> holds m (base @ ?ds) (length ?ds - 1)" by blast
      have e: "advance_round env i g = Inr (if sp_verify_rows ?sp > 0 then ?g2
          else upd_spec (\<lambda>s. s\<lparr>sp_in_progress := False, sp_bonus_pending := True, sp_round_complete := True\<rparr>) ?g2)"
        unfolding advance_round_def decode_verify_def Let_def using verify True d assms(3) by simp
      show ?thesis
      proof (cases "sp_verify_rows ?sp > 0")
        case True
        then show ?thesis unfolding e
          using v h nf b(1,2) k(5) by (simp add: top_ok_def round_ok_def kv_rel_def)
      next
        case False
        then have "length ?ds = 1" using v(6,7) by (cases ?ds) simp_all
        then have "holds m (tracker ?c) 0" using h by (cases ?ds) auto
        then show ?thesis unfolding e
          using False v nf b(1,2) k(5) by (simp add: top_ok_def round_ok_def kv_rel_def)
      qed
    next
      case nok: False
      let ?g3 = "\<lambda>m'. upd_core (co_mem_update (\<lambda>_. m')) ?g2"
      show ?thesis
      proof (cases "k = 0")
        case True
        then have "m = co_mem ?c" by (rule k(3))
        with beyond [OF b(3), of "co_n_past ?c"] p(1) obtain m' where
          m': "op_seq_rm ops m (co_n_past ?c) (- 1) = (True, m')" "holds m' base 0" by auto
        have n: "\<not> op_pos_max ops m' \<ge> co_n_past ?c - 1" using pos_max [OF m'(2)] p(1) by simp
        have e: "advance_round env i g = Inl (early_exit (upd_spec end_round (mtp_note [Note_Round 0]
            (upd_core (\<lambda>c. upd_state (ss_all_context_tokens_update butlast) (c\<lparr>co_n_past := co_n_past c - 1\<rparr>))
              ((?g3 m')\<lparr>gn_rows := []\<rparr>)))))"
          unfolding advance_round_def decode_verify_def Let_def using verify nok d assms(3) m'(1) n by simp
        show ?thesis unfolding e
          using v nf b m'(2) by (simp add: kv_rel_def round_ok_def end_round_def)
      next
        case False
        have t: "base @ take k ?ds = tracker ?c @ drop 1 (take k ?ds)"
          using b(2) v(7) False by (cases ?ds; cases k) simp_all
        have "holds m (base @ take k ?ds) (k - 1)"
          using False k(1) v(8) assms(5) by (intro k(2)) simp_all
        with t have "holds (co_mem (?c\<lparr>co_mem := m\<rparr>)) (tracker (?c\<lparr>co_mem := m\<rparr>) @ drop 1 (take k ?ds)) (k - 1)" by simp
        then obtain m' where m': "op_seq_rm ops (co_mem (?c\<lparr>co_mem := m\<rparr>)) (co_n_past (?c\<lparr>co_mem := m\<rparr>)) (- 1) = (True, m')"
          "holds m' (tracker (?c\<lparr>co_mem := m\<rparr>)) 0"
          "kind m' = kind (co_mem (?c\<lparr>co_mem := m\<rparr>))" "cap m' = cap (co_mem (?c\<lparr>co_mem := m\<rparr>))"
          by (rule drop_rest) (use nf(2) in simp_all)
        then have s: "op_seq_rm ops m (co_n_past ?c) (- 1) = (True, m')" "holds m' (tracker ?c) 0" by simp_all
        have n: "op_pos_max ops m' \<ge> co_n_past ?c - 1" using pos_max [OF s(2)] nf(2) by simp
        have e: "advance_round env i g = Inl (early_exit (upd_spec end_round (mtp_note [Note_Round 1]
            ((?g3 m')\<lparr>gn_rows := take 1 ?rows\<rparr>))))"
          unfolding advance_round_def decode_verify_def Let_def using verify nok d assms(3) s(1) n by simp
        show ?thesis unfolding e
          using v nf b(1,2) s(2) by (simp add: kv_rel_def round_ok_def end_round_def)
      qed
    qed
  qed
qed

text \<open>The end of a generation settles every state in which the loop can be left, unless it is left
  between the last matching draft and its feed.\<close>

lemma close_idle:
  assumes "settled holds ts0 (gn_core g)" "\<not> sp_verify_pending (gn_spec g)" "\<not> sp_in_progress (gn_spec g)"
  shows "settled holds ts0 (gn_core (close_round env i g)) \<and> flags_kept g (close_round env i g)"
  using assms by (simp add: close_round_def drop_uncommitted_def Let_def flags_kept_def)

lemma close_ok:
  assumes "kv_rel holds ts0 (gn_core g) (gn_spec g)" "round_ok K (gn_spec g)" "ge_ops env = ops"
    and "snd (ge_close_answer env) = 0" "int (length (tracker (gn_core g))) \<le> POS_MAX"
  shows "settled holds ts0 (gn_core (close_round env i g)) \<and> flags_kept g (close_round env i g)"
proof -
  let ?sp = "gn_spec g" and ?c = "gn_core g"
  have nf: "\<not> sp_no_feed ?sp" "co_n_past ?c = int (length (tracker ?c))" using assms(1) by (simp_all add: kv_rel_def)
  consider (verify) "sp_verify_pending ?sp" | (round) "\<not> sp_verify_pending ?sp" "sp_in_progress ?sp"
    | (idle) "\<not> sp_verify_pending ?sp" "\<not> sp_in_progress ?sp" by blast
  then show ?thesis
  proof cases
    case idle
    then show ?thesis using assms(1) by (intro close_idle) (simp_all add: kv_rel_def settled_def)
  next
    case round
    obtain base where b: "prefix ts0 (tracker ?c)" "sp_committed ?sp < length (sp_draft ?sp)"
      "tracker ?c = base @ take (sp_committed ?sp + 1) (sp_draft ?sp)"
      "holds (co_mem ?c) (base @ sp_draft ?sp) (length (sp_draft ?sp) - 1)"
      using assms(1) round by (auto simp: kv_rel_def)
    obtain m' where m': "op_seq_rm ops (co_mem ?c) (co_n_past ?c) (- 1) = (True, m')" "holds m' (tracker ?c) 0"
        "kind m' = kind (co_mem ?c)" "cap m' = cap (co_mem ?c)"
      by (rule drop_round [OF b(4,3,2) nf(2)])
    show ?thesis
    proof (cases "sp_committed ?sp < sp_verify_rows ?sp")
      case True
      then show ?thesis
        using round b(1) m' nf(2) assms(3)
        by (simp add: close_round_def drop_uncommitted_def Let_def flags_kept_def settled_def)
    next
      case False
      then have "sp_committed ?sp + 1 = length (sp_draft ?sp)" using assms(2) round b(2) by (simp add: round_ok_def)
      then have "tracker ?c = base @ sp_draft ?sp" using b(3) by simp
      then have "holds (co_mem ?c) (tracker ?c) 0" using holds_0 [OF b(4)] by simp
      then show ?thesis
        using round False b(1) nf(2)
        by (simp add: close_round_def drop_uncommitted_def Let_def flags_kept_def settled_def)
    qed
  next
    case verify
    obtain base where b: "prefix ts0 base" "tracker ?c = base @ [hd (sp_draft ?sp)]" "holds (co_mem ?c) base 0"
      using assms(1) verify by (auto simp: kv_rel_def)
    have d: "sp_draft ?sp ! 0 = hd (sp_draft ?sp)"
      using assms(2) verify by (simp add: round_ok_def hd_conv_nth)
    let ?d = "hd (sp_draft ?sp)"
    obtain ret m where l: "llama_decode ops (ge_close_answer env) (co_mem ?c) (co_n_past ?c - 1) [?d] = (ret, m)"
      by fastforce
    have p: "co_n_past ?c - 1 = int (length base)" "int (length (base @ [?d])) \<le> POS_MAX"
      "co_n_past ?c > op_pos_max ops (co_mem ?c) + 1"
      using nf(2) b(2) assms(5) pos_max [OF b(3)] by simp_all
    obtain k where k: "k \<le> length [?d]" "\<And>w'. w' < k \<Longrightarrow> w' \<le> cap (co_mem ?c) \<Longrightarrow> holds m (base @ take k [?d]) w'"
      "k = 0 \<Longrightarrow> m = co_mem ?c" "ret = 0 \<or> ret > 2 \<Longrightarrow> k = length [?d]"
      "\<not> (ret = 0 \<or> ret > 2) \<Longrightarrow> snd (ge_close_answer env) = 0 \<Longrightarrow> k = 0"
      using llama_any [OF b(3) p(2) l [unfolded p(1)]] by metis
    let ?g1 = "upd_spec (\<lambda>s. s\<lparr>sp_verify_pending := False, sp_in_progress := False\<rparr>) g"
    have settle: "settled holds ts0 (gn_core (settle_origin env i g)) \<and> flags_kept g (settle_origin env i g)
      \<and> \<not> sp_in_progress (gn_spec (settle_origin env i g))"
    proof (cases "fst (handle_decode_result ret True)")
      case True
      have e: "settle_origin env i g = upd_spec end_round (?g1\<lparr>gn_core := ?c\<lparr>co_mem := m\<rparr>,
          gn_rows := [Some (ge_view env (co_mem ?c) (co_n_past ?c - 1) [?d])]\<rparr>)"
        unfolding settle_origin_def Let_def using True d l p(3) assms(3) by simp
      have "holds m (tracker ?c) 0" using k(2) [of 0] k(4) True b(2) by (simp add: decode_result_ok)
      then show ?thesis unfolding e
        using nf(2) b(1,2) by (simp add: settled_def flags_kept_def end_round_def)
    next
      case False
      then have "m = co_mem ?c" using k(3,5) assms(4) by (simp add: decode_result_ok)
      then have h: "holds m base 0" using b(3) by simp
      let ?g2 = "?g1\<lparr>gn_core := upd_state (ss_all_context_tokens_update butlast)
          (?c\<lparr>co_mem := m, co_n_past := co_n_past ?c - 1\<rparr>), gn_rows := [None]\<rparr>"
      from beyond [OF h, of "co_n_past ?c - 1"] p(1) obtain m' where
        m': "op_seq_rm ops m (co_n_past ?c - 1) (- 1) = (True, m')" "holds m' base 0" by auto
      have dc: "drop_cells env i ?g2 = (True, upd_core (co_mem_update (\<lambda>_. m')) ?g2)"
        by (simp add: drop_cells_def assms(3) m'(1))
      have e: "settle_origin env i g = early_exit (upd_spec end_round (snd (drop_cells env i ?g2)))"
        unfolding settle_origin_def Let_def using False d l p(3) assms(3) by simp
      show ?thesis unfolding e dc snd_conv
        using nf(2) b(1,2) m'(2) by (simp add: settled_def flags_kept_def end_round_def early_exit_def)
    qed
    let ?g3 = "settle_origin env i g"
    have e: "close_round env i g = upd_spec (\<lambda>s. spec_init\<lparr>sp_verify_rows := sp_verify_rows s\<rparr>)
        (mtp_note (close_calls (gn_spec ?g3)) ?g3)"
      unfolding close_round_def drop_uncommitted_def Let_def using verify settle by simp
    show ?thesis unfolding e using settle by (simp add: flags_kept_def)
  qed
qed

text \<open>Left before the feed: the token is dropped again unless the whole draft had been matched.\<close>

lemma close_mid:
  assumes "mid_rel holds ts0 t (gn_core g) (gn_spec g)" "mid_ok K (gn_spec g)" "ge_ops env = ops"
  shows "(if sp_no_feed (gn_spec g) \<and> \<not> sp_in_progress (gn_spec g)
      then one_ahead holds ts0 t (gn_core (close_round env i g))
      else settled holds ts0 (gn_core (close_round env i g)))
    \<and> flags_kept g (close_round env i g)"
proof -
  let ?sp = "gn_spec g" and ?c = "gn_core g"
  have c: "co_n_past ?c = int (length (tracker ?c))" "prefix ts0 (tracker ?c)" using assms(1) by (simp_all add: mid_rel_def)
  consider (none) "\<not> sp_no_feed ?sp" | (verify) "sp_no_feed ?sp" "sp_verify_pending ?sp"
    | (round) "sp_no_feed ?sp" "\<not> sp_verify_pending ?sp" "sp_in_progress ?sp"
    | (last) "sp_no_feed ?sp" "\<not> sp_verify_pending ?sp" "\<not> sp_in_progress ?sp" by blast
  then show ?thesis
  proof cases
    case none
    then have "settled holds ts0 ?c" "\<not> sp_verify_pending ?sp" "\<not> sp_in_progress ?sp"
      using assms(1) by (simp_all add: mid_rel_def settled_def)
    from close_idle [OF this] none show ?thesis by simp
  next
    case verify
    then have h: "holds (co_mem ?c) (tracker ?c) 0" using assms(1) by (simp add: mid_rel_def)
    have ip: "sp_in_progress ?sp" using assms(2) verify by (simp add: mid_ok_def fed_ok_def round_ok_def)
    have "\<not> co_n_past ?c > op_pos_max ops (co_mem ?c) + 1" using pos_max [OF h] c(1) by simp
    then show ?thesis
      using verify ip h c assms(3)
      by (simp add: close_round_def settle_origin_def drop_uncommitted_def Let_def settled_def flags_kept_def)
  next
    case round
    obtain base where b: "sp_committed ?sp < length (sp_draft ?sp)"
      "tracker ?c = base @ take (sp_committed ?sp) (sp_draft ?sp)"
      "holds (co_mem ?c) (base @ sp_draft ?sp) (length (sp_draft ?sp) - 1)"
      using assms(1) round by (auto simp: mid_rel_def)
    have v: "sp_committed ?sp < sp_verify_rows ?sp" "sp_verify_rows ?sp = length (sp_draft ?sp) - 1"
      using assms(2) round by (simp_all add: mid_ok_def fed_ok_def round_ok_def)
    show ?thesis
    proof (cases "sp_committed ?sp")
      case 0
      then show ?thesis using assms(1) round by (simp add: mid_rel_def)
    next
      case (Suc n)
      obtain m' where m': "op_seq_rm ops (co_mem ?c) (co_n_past ?c) (- 1) = (True, m')" "holds m' (tracker ?c) 0"
          "kind m' = kind (co_mem ?c)" "cap m' = cap (co_mem ?c)"
        by (rule drop_round [OF b(3), of n]) (use b(1,2) c(1) Suc in simp_all)
      then show ?thesis
        using round v(1) c assms(3)
        by (simp add: close_round_def drop_uncommitted_def Let_def settled_def flags_kept_def)
    qed
  next
    case last
    obtain base where b: "sp_committed ?sp < length (sp_draft ?sp)"
      "tracker ?c = base @ take (sp_committed ?sp) (sp_draft ?sp)" "t = sp_draft ?sp ! sp_committed ?sp"
      "holds (co_mem ?c) (base @ sp_draft ?sp) (length (sp_draft ?sp) - 1)"
      "sp_committed ?sp + 1 = length (sp_draft ?sp)"
      using assms(1) last by (auto simp: mid_rel_def)
    have "tracker ?c @ [t] = base @ sp_draft ?sp"
      using b take_Suc_conv_app_nth [OF b(1)] by simp
    with holds_0 [OF b(4)] have "holds (co_mem ?c) (tracker ?c @ [t]) 0" by simp
    then show ?thesis
      using last c by (simp add: close_round_def drop_uncommitted_def Let_def flags_kept_def one_ahead_def)
  qed
qed

end

subsection \<open>One iteration\<close>

text \<open>The memory, the tracker and the position are what the relations look at.\<close>

definition same_context :: "'m core \<Rightarrow> 'm core \<Rightarrow> bool" where
  "same_context c c' \<longleftrightarrow> co_mem c' = co_mem c \<and> tracker c' = tracker c \<and> co_n_past c' = co_n_past c"

lemma same_context_rel:
  assumes "same_context c c'"
  shows "kv_rel holds ts0 c sp \<Longrightarrow> kv_rel holds ts0 c' sp" "mid_rel holds ts0 t c sp \<Longrightarrow> mid_rel holds ts0 t c' sp"
proof -
  have e: "co_mem c' = co_mem c" "tracker c' = tracker c" "co_n_past c' = co_n_past c"
    using assms by (simp_all add: same_context_def)
  show "kv_rel holds ts0 c sp \<Longrightarrow> kv_rel holds ts0 c' sp" unfolding kv_rel_def e by assumption
  show "mid_rel holds ts0 t c sp \<Longrightarrow> mid_rel holds ts0 t c' sp" unfolding mid_rel_def e by assumption
qed

lemma check_context_ok:
  "case check_context env g of
     Inr g' \<Rightarrow> gn_core g' = gn_core g \<and> gn_spec g' = gn_spec g \<and> gn_flags g' = gn_flags g \<and> gn_text g' = gn_text g
       \<and> gn_rows g' = gn_rows g \<and> gn_smpl g' = gn_smpl g
   | Inl g' \<Rightarrow> gn_core g' = gn_core g \<and> gn_spec g' = gn_spec g \<and> fl_unfed_tail (gn_flags g') = fl_unfed_tail (gn_flags g)"
  by (simp add: check_context_def Let_def)

lemma top_checks_ok:
  "case top_checks env i g of
     Inr g' \<Rightarrow> gn_core g' = gn_core g \<and> gn_spec g' = gn_spec g \<and> gn_flags g' = gn_flags g \<and> gn_text g' = gn_text g
       \<and> gn_rows g' = gn_rows g \<and> gn_smpl g' = gn_smpl g \<and> gn_rows g \<noteq> [] \<and> \<not> co_stop (gn_core g)
       \<and> (ge_canary_silent env \<or> co_n_past (gn_core g) < ge_n_ctx env - 10)
   | Inl g' \<Rightarrow> same_context (gn_core g) (gn_core g') \<and> gn_spec g' = gn_spec g
       \<and> fl_unfed_tail (gn_flags g') = fl_unfed_tail (gn_flags g)"
proof -
  consider (stop) "co_stop (gn_core g) \<or> ge_stop env i"
    | (cap) "\<not> (co_stop (gn_core g) \<or> ge_stop env i)" "ge_canary_max env > 0 \<and> gt_t_count (gn_text g) \<ge> ge_canary_max env"
    | (timeout) "\<not> (co_stop (gn_core g) \<or> ge_stop env i)"
        "\<not> (ge_canary_max env > 0 \<and> gt_t_count (gn_text g) \<ge> ge_canary_max env)" "\<not> ge_canary_silent env \<and> ge_timeout env i"
    | (go) "\<not> (co_stop (gn_core g) \<or> ge_stop env i)"
        "\<not> (ge_canary_max env > 0 \<and> gt_t_count (gn_text g) \<ge> ge_canary_max env)" "\<not> (\<not> ge_canary_silent env \<and> ge_timeout env i)"
    by blast
  then show ?thesis
  proof cases
    case stop
    then show ?thesis by (simp add: top_checks_def interrupted_def same_context_def)
  next
    case cap
    then show ?thesis unfolding top_checks_def by (simp add: same_context_def)
  next
    case timeout
    then show ?thesis unfolding top_checks_def by (simp add: interrupted_def same_context_def)
  next
    case go
    let ?r = "if ge_canary_silent env then Inr g else check_context env g"
    have e: "top_checks env i g = res_bind ?r (\<lambda>g.
        if \<not> ge_canary_silent env \<and> co_n_past (gn_core g) \<ge> ge_n_ctx env - 10 then Inl (early_exit g)
        else if gn_rows g = [] then Inl (early_exit g) else Inr g)"
      unfolding top_checks_def if_not_P [OF go(1)] if_not_P [OF go(2)] if_not_P [OF go(3)] by (rule refl)
    show ?thesis
    proof (cases ?r)
      case (Inl g1)
      then have "\<not> ge_canary_silent env" "check_context env g = Inl g1" by (auto split: if_splits)
      with check_context_ok [where env = env and g = g] show ?thesis unfolding e by (simp add: same_context_def)
    next
      case (Inr g1)
      then have "gn_core g1 = gn_core g \<and> gn_spec g1 = gn_spec g \<and> gn_flags g1 = gn_flags g \<and> gn_text g1 = gn_text g
        \<and> gn_rows g1 = gn_rows g \<and> gn_smpl g1 = gn_smpl g"
        using check_context_ok [where env = env and g = g] by (auto split: if_splits)
      with go(1) show ?thesis unfolding e Inr by (auto simp: same_context_def)
    qed
  qed
qed

lemma think_phase_ok:
  "case think_phase env i t g of
     Inr g' \<Rightarrow> gn_core g' = gn_core g \<and> gn_spec g' = gn_spec g \<and> gn_flags g' = gn_flags g
       \<and> gn_rows g' = gn_rows g \<and> gn_smpl g' = gn_smpl g
   | Inl g' \<Rightarrow> same_context (gn_core g) (gn_core g') \<and> gn_spec g' = gn_spec g
       \<and> fl_unfed_tail (gn_flags g') = length (ge_piece env t)
       \<and> (fl_sim_abort (gn_flags g') \<or> fl_interrupted (gn_flags g'))"
proof -
  obtain b tx where d: "detect_think (fst (ge_think env)) (snd (ge_think env)) (ge_canary_silent env)
      ((gn_text g)\<lparr>gt_text := gt_text (gn_text g) @ ge_piece env t\<rparr>) = (b, tx)" by fastforce
  show ?thesis
    by (cases b) (simp_all add: think_phase_def Let_def d interrupted_def same_context_def)
qed

lemma call_phase_ok:
  "case call_phase env i t g of
     Inr g' \<Rightarrow> gn_core g' = gn_core g \<and> gn_spec g' = gn_spec g \<and> gn_flags g' = gn_flags g
       \<and> gn_rows g' = gn_rows g \<and> gn_smpl g' = gn_smpl g
   | Inl g' \<Rightarrow> \<exists>g1. g' = feed_break env i t g1 \<and> same_context (gn_core g) (gn_core g1) \<and> gn_spec g1 = gn_spec g
       \<and> fl_unfed_tail (gn_flags g1) = fl_unfed_tail (gn_flags g)"
proof -
  obtain ev tx where d: "text_event (ge_outside_limit env)
      (search_tool_end (ge_was_mid env) (detect_tool_start (snd (ge_think env)) (gn_text g))) = (ev, tx)" by fastforce
  show ?thesis
    by (cases ev) (force simp: call_phase_def Let_def d same_context_def)+
qed

lemma eog_phase_ok:
  "case eog_phase env i v t g of
     Inr (t', g') \<Rightarrow> gn_core g' = gn_core g \<and> gn_spec g' = gn_spec g \<and> gn_flags g' = gn_flags g
       \<and> gn_text g' = gn_text g \<and> gn_rows g' = gn_rows g
   | Inl g' \<Rightarrow> \<exists>g1. g' = eog_break env i t g1 \<and> same_context (gn_core g) (gn_core g1) \<and> gn_spec g1 = gn_spec g
       \<and> fl_unfed_tail (gn_flags g1) = fl_unfed_tail (gn_flags g)"
proof -
  have stop: "\<not> st" if "eog_polls env i v j n s = (Some t', st, s')" for j n s t' st s'
    using that by (induction n arbitrary: j s) (auto simp: case_prod_beta Let_def split: if_splits)
  obtain p st s where r: "poll_row env i v (gn_smpl g) = (p, st, s)" by (metis prod_cases3)
  have st: "\<not> st" if "p = Some t'" for t'
  proof (cases "ge_is_eog env (fst (ge_sample env (gn_smpl g) v))")
    case True
    then have "eog_polls env i v 0 (ge_eog_max env) (snd (ge_sample env (gn_smpl g) v)) = (Some t', st, s)"
      using r that by (simp add: poll_row_def case_prod_beta)
    then show ?thesis by (rule stop)
  next
    case False
    then show ?thesis using r that by (simp add: poll_row_def case_prod_beta)
  qed
  show ?thesis
  proof (cases p)
    case None
    then show ?thesis by (force simp: eog_phase_def Let_def r same_context_def)
  next
    case (Some t')
    then show ?thesis using st by (simp add: eog_phase_def Let_def r)
  qed
qed

text \<open>What a generation runs on: drafts within the rollback window, room for a verify batch behind the context,
  no silent probe, and a decode of one token that leaves nothing behind when it fails (it is a single
  micro-batch).\<close>

definition env_ok :: "'m mem_ops \<Rightarrow> nat \<Rightarrow> ('m, 's, 'v) gen_env \<Rightarrow> bool" where
  "env_ok ops K env \<longleftrightarrow> ge_ops env = ops \<and> (\<forall>i. length (ge_draft env i) \<le> Suc K)
     \<and> ge_n_ctx env + int K \<le> POS_MAX \<and> \<not> ge_canary_silent env \<and> snd (ge_close_answer env) = 0"

definition loop_inv :: "('m \<Rightarrow> token list \<Rightarrow> nat \<Rightarrow> bool) \<Rightarrow> ('m \<Rightarrow> nat) \<Rightarrow> nat \<Rightarrow> token list \<Rightarrow> ('m, 's, 'v) gen \<Rightarrow> bool" where
  "loop_inv holds cap K ts0 g \<longleftrightarrow> top_ok K (gn_spec g) \<and> kv_rel holds ts0 (gn_core g) (gn_spec g)
     \<and> K \<le> cap (co_mem (gn_core g)) \<and> fl_unfed_tail (gn_flags g) = 0"

definition left_ok :: "('m \<Rightarrow> token list \<Rightarrow> nat \<Rightarrow> bool) \<Rightarrow> nat \<Rightarrow> ('m, 's, 'v) gen_env \<Rightarrow> token list \<Rightarrow> ('m, 's, 'v) gen \<Rightarrow> bool" where
  "left_ok holds K env ts0 g \<longleftrightarrow>
     (kv_rel holds ts0 (gn_core g) (gn_spec g) \<and> round_ok K (gn_spec g)
        \<and> int (length (tracker (gn_core g))) \<le> POS_MAX \<and> fl_unfed_tail (gn_flags g) = 0)
     \<or> (\<exists>t. mid_rel holds ts0 t (gn_core g) (gn_spec g) \<and> mid_ok K (gn_spec g)
        \<and> fl_unfed_tail (gn_flags g) = length (ge_piece env t)
        \<and> (fl_sim_abort (gn_flags g) \<or> fl_interrupted (gn_flags g)))"

context window_memory
begin

lemma hook_keeps:
  "holds (co_mem c) ts w \<Longrightarrow> holds (co_mem (on_tool_start ops b c)) ts w"
  "tracker (on_tool_start ops b c) = tracker c" "co_n_past (on_tool_start ops b c) = co_n_past c"
  "cap (co_mem (on_tool_start ops b c)) = cap (co_mem c)" "kind (co_mem (on_tool_start ops b c)) = kind (co_mem c)"
  by (simp_all add: on_tool_start_def Let_def checkpoint same_cap same_kind)

lemma fire_hook_ok:
  assumes "ge_ops env = ops"
  shows "kv_rel holds ts0 (gn_core g) (gn_spec g) \<Longrightarrow> kv_rel holds ts0 (gn_core (fire_hook env g)) (gn_spec (fire_hook env g))"
    "gn_spec (fire_hook env g) = gn_spec g" "gn_flags (fire_hook env g) = gn_flags g"
    "cap (co_mem (gn_core (fire_hook env g))) = cap (co_mem (gn_core g))"
    "co_n_past (gn_core (fire_hook env g)) = co_n_past (gn_core g)"
proof -
  have "gn_core (fire_hook env g) = gn_core g \<or> (\<exists>b. gn_core (fire_hook env g) = on_tool_start ops b (gn_core g))"
    by (auto simp: fire_hook_def Let_def assms)
  then have k: "(\<forall>ts w. holds (co_mem (gn_core g)) ts w \<longrightarrow> holds (co_mem (gn_core (fire_hook env g))) ts w)
    \<and> tracker (gn_core (fire_hook env g)) = tracker (gn_core g)
    \<and> co_n_past (gn_core (fire_hook env g)) = co_n_past (gn_core g)
    \<and> cap (co_mem (gn_core (fire_hook env g))) = cap (co_mem (gn_core g))"
    by (elim disjE exE) (simp_all add: hook_keeps)
  show s: "gn_spec (fire_hook env g) = gn_spec g" "gn_flags (fire_hook env g) = gn_flags g"
    by (simp_all add: fire_hook_def Let_def)
  show "kv_rel holds ts0 (gn_core g) (gn_spec g) \<Longrightarrow> kv_rel holds ts0 (gn_core (fire_hook env g)) (gn_spec (fire_hook env g))"
    unfolding s kv_rel_def using k by (auto split: if_splits)
  show "cap (co_mem (gn_core (fire_hook env g))) = cap (co_mem (gn_core g))"
    "co_n_past (gn_core (fire_hook env g)) = co_n_past (gn_core g)" using k by simp_all
qed

lemma kv_bound:
  assumes "kv_rel holds ts0 c sp" "\<not> sp_verify_pending sp"
  shows "int (length (tracker c)) \<le> POS_MAX"
proof (cases "sp_in_progress sp")
  case True
  then obtain base where "tracker c = base @ take (sp_committed sp + 1) (sp_draft sp)"
    "holds (co_mem c) (base @ sp_draft sp) (length (sp_draft sp) - 1)"
    using assms by (auto simp: kv_rel_def)
  with bound [OF this(2)] show ?thesis by simp
next
  case False
  then have "holds (co_mem c) (tracker c) 0" using assms by (simp add: kv_rel_def)
  then show ?thesis by (rule bound)
qed

lemma feed_and_advance_ok:
  assumes m: "mid_rel holds ts0 t (gn_core g) (gn_spec g)" "mid_ok K (gn_spec g)" "fl_unfed_tail (gn_flags g) = 0"
    and k: "K \<le> cap (co_mem (gn_core g))" and o: "env_ok ops K env"
    and len: "int (length (tracker (gn_core g))) + 1 + int K \<le> POS_MAX"
  shows "case res_bind (feed_phase env i t g) (\<lambda>g. res_bind (advance_round env i g) (\<lambda>g. Inr (fire_hook env g))) of
      Inr g' \<Rightarrow> loop_inv holds cap K ts0 g' \<and> co_n_past (gn_core g') = co_n_past (gn_core g) + 1
    | Inl g' \<Rightarrow> left_ok holds K env ts0 g'"
proof -
  note env = o [unfolded env_ok_def]
  obtain ok g7 where f: "feed_token env i t g = (ok, g7)" by fastforce
  have r: "kv_rel holds ts0 (gn_core g7) (gn_spec g7)" "gn_spec g7 = (gn_spec g)\<lparr>sp_no_feed := False\<rparr>"
    "gn_flags g7 = gn_flags g" "cap (co_mem (gn_core g7)) = cap (co_mem (gn_core g))"
    "length (tracker (gn_core g7)) \<le> length (tracker (gn_core g)) + 1"
    "ok \<Longrightarrow> tracker (gn_core g7) = tracker (gn_core g) @ [t]"
    using feed_rel [OF m(1) _ _ f] env len by simp_all
  have f7: "fed_ok K (gn_spec g7)" unfolding r(2) fed_ok_no_feed using m(2) by (simp add: mid_ok_def)
  have u7: "fl_unfed_tail (gn_flags g7) = 0" using r(3) m(3) by simp
  show ?thesis
  proof (cases ok)
    case False
    then have fp: "feed_phase env i t g = Inl (early_exit g7)" by (simp add: feed_phase_def f)
    have "left_ok holds K env ts0 (early_exit g7)"
      using r(1,5) f7 u7 len by (simp add: left_ok_def fed_ok_def)
    then show ?thesis by (simp add: fp)
  next
    case True
    then have fp: "feed_phase env i t g = Inr g7" by (simp add: feed_phase_def f)
    have c7: "K \<le> cap (co_mem (gn_core g7))" using r(4) k by simp
    have n7: "co_n_past (gn_core g7) = co_n_past (gn_core g) + 1"
      using r(1) r(6) [OF True] m(1) by (simp add: kv_rel_def mid_rel_def)
    have "int (length (tracker (gn_core g7))) + int K \<le> POS_MAX" using r(5) len by simp
    note adv = advance_ok [OF f7 r(1) _ _ c7 this, where env = env and i = i]
    show ?thesis
    proof (cases "advance_round env i g7")
      case (Inl g8)
      then have "left_ok holds K env ts0 g8"
        using adv env u7 r(5) len by (simp add: left_ok_def)
      then show ?thesis by (simp add: fp Inl)
    next
      case (Inr g8)
      then have g8: "top_ok K (gn_spec g8)" "kv_rel holds ts0 (gn_core g8) (gn_spec g8)" "gn_flags g8 = gn_flags g7"
        "cap (co_mem (gn_core g8)) = cap (co_mem (gn_core g7))" "co_n_past (gn_core g8) = co_n_past (gn_core g7)"
        using adv env by simp_all
      have o: "ge_ops env = ops" using env by simp
      have "loop_inv holds cap K ts0 (fire_hook env g8) \<and> co_n_past (gn_core (fire_hook env g8)) = co_n_past (gn_core g) + 1"
        using g8 c7 u7 n7 fire_hook_ok [OF o] by (simp add: loop_inv_def)
      then show ?thesis by (simp add: fp Inr)
    qed
  qed
qed

lemma take_token_ok:
  assumes "top_ok K (gn_spec g)" "kv_rel holds ts0 (gn_core g) (gn_spec g)" "K \<le> cap (co_mem (gn_core g))"
    and "fl_unfed_tail (gn_flags g) = 0" "env_ok ops K env" "int (length (tracker (gn_core g))) + 1 + int K \<le> POS_MAX"
  shows "case take_token env i t g of
      Inr g' \<Rightarrow> loop_inv holds cap K ts0 g' \<and> co_n_past (gn_core g') = co_n_past (gn_core g) + 1
    | Inl g' \<Rightarrow> left_ok holds K env ts0 g'"
proof -
  note env = assms(5) [unfolded env_ok_def]
  have len1: "int (length (tracker (gn_core g))) + 1 \<le> POS_MAX" using assms(6) by simp
  obtain g4 where c: "compare_draft env i t g = Inr g4" "mid_rel holds ts0 t (gn_core g4) (gn_spec g4)"
    "mid_ok K (gn_spec g4)" "gn_text g4 = gn_text g" "gn_flags g4 = gn_flags g"
    "tracker (gn_core g4) = tracker (gn_core g)" "co_stop (gn_core g4) = co_stop (gn_core g)"
    "co_n_past (gn_core g4) = co_n_past (gn_core g)" "cap (co_mem (gn_core g4)) = cap (co_mem (gn_core g))"
    "obs kind g4 = obs kind g" "\<forall>f. row_rel f g \<longrightarrow> mid_rows f g4"
    by (rule compare_ok [of K g ts0 env i t]) (use assms env in simp_all)
  have ru: "round_ok K (gn_spec g4)" using c(3) by (simp add: mid_ok_def fed_ok_def)
  show ?thesis
  proof (cases "think_phase env i t g4")
    case (Inl g5)
    then have t: "same_context (gn_core g4) (gn_core g5)" "gn_spec g5 = gn_spec g4"
      "fl_unfed_tail (gn_flags g5) = length (ge_piece env t)" "fl_sim_abort (gn_flags g5) \<or> fl_interrupted (gn_flags g5)"
      using think_phase_ok [where env = env and i = i and t = t and g = g4] by simp_all
    have "left_ok holds K env ts0 g5"
      unfolding left_ok_def using t(2-4) c(3) same_context_rel(2) [OF t(1) c(2)]
      by (intro disjI2 exI [of _ t]) simp
    then show ?thesis by (simp add: take_token_def c(1) Inl)
  next
    case think: (Inr g5)
    then have g5: "gn_core g5 = gn_core g4" "gn_spec g5 = gn_spec g4" "gn_flags g5 = gn_flags g4"
      using think_phase_ok [where env = env and i = i and t = t and g = g4] by simp_all
    show ?thesis
    proof (cases "call_phase env i t g5")
      case (Inl g6)
      then obtain h where h: "g6 = feed_break env i t h" "same_context (gn_core g4) (gn_core h)"
        "gn_spec h = gn_spec g4" "fl_unfed_tail (gn_flags h) = 0"
        using call_phase_ok [where env = env and i = i and t = t and g = g5] g5 c(5) assms(4) by auto
      have m: "mid_rel holds ts0 t (gn_core h) (gn_spec h)" using same_context_rel(2) [OF h(2) c(2)] h(3) by simp
      have "left_ok holds K env ts0 g6"
        using feed_break_ok [OF m, of env K i] h ru env len1 c(6) by (simp add: left_ok_def same_context_def)
      then show ?thesis by (simp add: take_token_def c(1) think Inl)
    next
      case call: (Inr g6)
      then have g6: "gn_core g6 = gn_core g4" "gn_spec g6 = gn_spec g4" "gn_flags g6 = gn_flags g4"
        using call_phase_ok [where env = env and i = i and t = t and g = g5] g5 by simp_all
      have e: "take_token env i t g = res_bind (feed_phase env i t g6) (\<lambda>g.
          res_bind (advance_round env i g) (\<lambda>g. Inr (fire_hook env g)))"
        by (simp add: take_token_def c(1) think call)
      have n: "co_n_past (gn_core g) = co_n_past (gn_core g6)" using g6 c(8) by simp
      show ?thesis unfolding e n by (rule feed_and_advance_ok) (use g6 c(2,3,5,6,9) assms in simp_all)
    qed
  qed
qed

lemma gen_iter_ok:
  assumes "loop_inv holds cap K ts0 g" "env_ok ops K env"
  shows "case gen_iter env i g of
      Inr g' \<Rightarrow> loop_inv holds cap K ts0 g' \<and> co_n_past (gn_core g') = co_n_past (gn_core g) + 1
        \<and> co_n_past (gn_core g) < ge_n_ctx env
    | Inl g' \<Rightarrow> left_ok holds K env ts0 g'"
proof -
  note inv = assms(1) [unfolded loop_inv_def]
  note env = assms(2) [unfolded env_ok_def]
  have nv: "\<not> sp_verify_pending (gn_spec g)" using inv by (simp add: top_ok_def)
  show ?thesis
  proof (cases "top_checks env i g")
    case (Inl g1)
    then have t: "same_context (gn_core g) (gn_core g1)" "gn_spec g1 = gn_spec g" "fl_unfed_tail (gn_flags g1) = 0"
      using top_checks_ok [where env = env and i = i and g = g] inv by simp_all
    then have k: "kv_rel holds ts0 (gn_core g1) (gn_spec g1)" "gn_spec g1 = gn_spec g" "fl_unfed_tail (gn_flags g1) = 0"
      using same_context_rel(1) [OF t(1)] inv by simp_all
    then have "left_ok holds K env ts0 g1"
      using kv_bound [OF k(1)] nv inv by (simp add: left_ok_def top_ok_def)
    then show ?thesis by (simp add: gen_iter_def Inl)
  next
    case top: (Inr g1)
    then have g1: "gn_core g1 = gn_core g" "gn_spec g1 = gn_spec g" "gn_flags g1 = gn_flags g"
      "co_n_past (gn_core g) < ge_n_ctx env - 10"
      using top_checks_ok [where env = env and i = i and g = g] env by simp_all
    have len: "int (length (tracker (gn_core g))) + 1 + int K \<le> POS_MAX"
      using g1(4) env inv by (simp add: kv_rel_def)
    obtain t g2 where s: "sample_phase env g1 = (t, g2)" by fastforce
    then have g2: "gn_core g2 = gn_core g" "gn_spec g2 = gn_spec g" "gn_flags g2 = gn_flags g"
      using g1 by (auto simp: sample_phase_def case_prod_beta Let_def)
    show ?thesis
    proof (cases "eog_phase env i (sample_row g1) t g2")
      case (Inl g3)
      then obtain h where h: "g3 = eog_break env i t h" "same_context (gn_core g) (gn_core h)" "gn_spec h = gn_spec g"
        "fl_unfed_tail (gn_flags h) = 0"
        using eog_phase_ok [where env = env and i = i and v = "sample_row g1" and t = t and g = g2] g2 inv by auto
      have "kv_rel holds ts0 (gn_core h) (gn_spec h)" using same_context_rel(1) [OF h(2)] h(3) inv by simp
      from eog_break_ok [OF _ this, of K env i t] have "left_ok holds K env ts0 g3"
        using h inv env len by (simp add: left_ok_def same_context_def)
      then show ?thesis by (simp add: gen_iter_def top s Inl)
    next
      case eog: (Inr p)
      obtain t' g3 where p: "p = (t', g3)" by fastforce
      have g3: "gn_core g3 = gn_core g" "gn_spec g3 = gn_spec g" "gn_flags g3 = gn_flags g"
        using eog_phase_ok [where env = env and i = i and v = "sample_row g1" and t = t and g = g2] g2 eog p by auto
      have e: "gen_iter env i g = take_token env i t' g3" by (simp add: gen_iter_def top s eog p)
      show ?thesis unfolding e
        using take_token_ok [of K g3 ts0 env i t'] g3 inv assms(2) len g1(4) by (cases "take_token env i t' g3") simp_all
    qed
  qed
qed

end

subsection \<open>A whole generation\<close>

context window_memory
begin

lemma gen_loop_ok:
  assumes "loop_inv holds cap K ts0 g" "env_ok ops K env"
  shows "\<exists>j g'. gen_loop env i g = Some (j, g') \<and> left_ok holds K env ts0 g'"
  using assms(1)
proof (induction "nat (ge_n_ctx env - co_n_past (gn_core g))" arbitrary: i g rule: less_induct)
  case less
  show ?case
  proof (cases "gen_iter env i g")
    case (Inl g')
    then show ?thesis using gen_iter_ok [OF less.prems assms(2), of i] by (simp add: gen_loop.simps [of env i])
  next
    case (Inr g')
    then have g': "loop_inv holds cap K ts0 g'" "co_n_past (gn_core g') = co_n_past (gn_core g) + 1"
      "co_n_past (gn_core g) < ge_n_ctx env"
      using gen_iter_ok [OF less.prems assms(2), of i] by simp_all
    have "nat (ge_n_ctx env - co_n_past (gn_core g')) < nat (ge_n_ctx env - co_n_past (gn_core g))"
      using g'(2,3) by simp
    from less.hyps [OF this g'(1)] show ?thesis by (simp add: gen_loop.simps [of env i] Inr)
  qed
qed

lemma generate_ok:
  assumes "holds (co_mem c) (tracker c) 0" "co_n_past c = int (length (tracker c))" "K \<le> cap (co_mem c)" "env_ok ops K env"
  obtains r g where "generate env wt lc s rows c = Some (r, g)"
    "settled holds (tracker c) (gn_core g)
     \<or> (gr_thinking_sim_abort r \<or> gr_was_interrupted r)
       \<and> (\<exists>t. gr_unfed_tail_len r = length (ge_piece env t) \<and> one_ahead holds (tracker c) t (gn_core g))"
proof -
  let ?g0 = "gen_init env wt lc s rows c"
  have "loop_inv holds cap K (tracker c) ?g0"
    using assms(1-3) by (simp add: loop_inv_def gen_init_def flags_init_def spec_init_def top_ok_def round_ok_def kv_rel_def)
  from gen_loop_ok [OF this assms(4)] obtain i g where
    g: "gen_loop env 0 ?g0 = Some (i, g)" "left_ok holds K env (tracker c) g" by blast
  have e: "generate env wt lc s rows c = Some (build_result env (close_round env i g), close_round env i g)"
    by (simp add: generate_def g(1) Let_def)
  have u: "gr_unfed_tail_len (build_result env h) = fl_unfed_tail (gn_flags h)"
    "gr_thinking_sim_abort (build_result env h) = fl_sim_abort (gn_flags h)"
    "gr_was_interrupted (build_result env h) = fl_interrupted (gn_flags h)" for h :: "('m, 'a, 'b) gen"
    by (simp_all add: build_result_def Let_def)
  have fk: "fl_unfed_tail (gn_flags (close_round env i g)) = fl_unfed_tail (gn_flags g)"
    "fl_sim_abort (gn_flags (close_round env i g)) = fl_sim_abort (gn_flags g)"
    "fl_interrupted (gn_flags (close_round env i g)) = fl_interrupted (gn_flags g)"
    if "flags_kept g (close_round env i g)" using that by (auto simp: flags_kept_def)
  from g(2) [unfolded left_ok_def] consider
      (fed) "kv_rel holds (tracker c) (gn_core g) (gn_spec g)" "round_ok K (gn_spec g)"
        "int (length (tracker (gn_core g))) \<le> POS_MAX" "fl_unfed_tail (gn_flags g) = 0"
    | (mid) t where "mid_rel holds (tracker c) t (gn_core g) (gn_spec g)" "mid_ok K (gn_spec g)"
        "fl_unfed_tail (gn_flags g) = length (ge_piece env t)" "fl_sim_abort (gn_flags g) \<or> fl_interrupted (gn_flags g)"
    by (auto simp del: disj_not1)
  then show thesis
  proof cases
    case fed
    with close_ok [of "tracker c" g K env i] assms(4) have "settled holds (tracker c) (gn_core (close_round env i g))"
      by (simp add: env_ok_def)
    then show thesis by (intro that [OF e]) simp
  next
    case (mid t)
    note m = mid
    have "ge_ops env = ops" using assms(4) by (simp add: env_ok_def)
    note cl = close_mid [OF m(1,2) this, of i]
    then have k: "flags_kept g (close_round env i g)" by simp
    note f = fk [OF k] u [of "close_round env i g"]
    show thesis
    proof (cases "sp_no_feed (gn_spec g) \<and> \<not> sp_in_progress (gn_spec g)")
      case True
      then have "one_ahead holds (tracker c) t (gn_core (close_round env i g))" using cl by simp
      then show thesis using m(3,4) by (intro that [OF e]) (auto simp: f)
    next
      case False
      then show thesis using cl by (intro that [OF e]) (simp split: if_splits)
    qed
  qed
qed

end

section \<open>Properties of a generation\<close>

text \<open>C4: A generation always returns: every iteration that is not the last moves the position one step
  towards the end of the context, whatever the sampler, the drafts and the answers of the decodes are.\<close>

theorem generate_returns:
  assumes "mem_window (co_mem c) (tracker c) 0" "co_n_past c = int (length (tracker c))"
    and "K \<le> mem_cap (co_mem c)" "env_ok memory_ops K env"
  shows "\<exists>r g. generate env was_mid_think last_context smpl rows c = Some (r, g)"
  by (rule win.generate_ok [OF assms, of was_mid_think last_context smpl rows]) blast

text \<open>C3: After every generation the position is the length of the tracker, and the tracker extends the old one;
  the memory is that of the tracker, for every sampler, every draft within the window, every signal and every
  failure of a decode, including failures in the middle of a verify batch. There is one exception: when the
  tripwire (or an interrupt at the tripwire) ends the generation, the memory may be one token ahead, the token
  whose text is then the unfed tail of the result. Assumed are room for a batch behind the context, no silent
  probe, and that a decode of one token that fails leaves nothing behind.\<close>

theorem generate_settles:
  assumes "mem_window (co_mem c) (tracker c) 0" "co_n_past c = int (length (tracker c))"
    and "K \<le> mem_cap (co_mem c)" "env_ok memory_ops K env"
    and "generate env was_mid_think last_context smpl rows c = Some (r, g)"
  shows "co_n_past (gn_core g) = int (length (tracker (gn_core g))) \<and> prefix (tracker c) (tracker (gn_core g))
    \<and> (mem_window (co_mem (gn_core g)) (tracker (gn_core g)) 0
       \<or> (gr_thinking_sim_abort r \<or> gr_was_interrupted r)
         \<and> (\<exists>t. gr_unfed_tail_len r = length (ge_piece env t)
              \<and> mem_window (co_mem (gn_core g)) (tracker (gn_core g) @ [t]) 0))"
  by (rule win.generate_ok [OF assms(1-4), of was_mid_think last_context smpl rows])
    (use assms(5) in \<open>auto simp: settled_def one_ahead_def\<close>)

subsection \<open>An example run\<close>

text \<open>A sampler that follows a script, and a draft that is right in one of three tokens.\<close>

definition ex_gen_env :: "token list \<Rightarrow> (nat \<Rightarrow> token list) \<Rightarrow> (memory, nat, view) gen_env" where
  "ex_gen_env script draft =
     \<lparr>ge_ops = memory_ops, ge_view = mem_view,
      ge_sample = (\<lambda>n v. (if n < length script then script ! n else 0, n + 1)), ge_reset = id,
      ge_is_eog = (\<lambda>t. t = 0), ge_piece = (\<lambda>t. ''x''), ge_think = (''<think>'', ''</think>''),
      ge_n_ctx = 100, ge_n_batch = 4, ge_eog_max = 1, ge_outside_limit = 100, ge_was_mid = False,
      ge_reincarnating = False, ge_hook = True, ge_canary_max = 0, ge_canary_silent = False,
      ge_stop = (\<lambda>_. False), ge_timeout = (\<lambda>_. False), ge_stop_poll = (\<lambda>_ _. False), ge_stop_trip = (\<lambda>_. False),
      ge_answer = (\<lambda>_. (0, 0)), ge_verify_answer = (\<lambda>_. (0, 0)), ge_close_answer = (0, 0),
      ge_redecode = (\<lambda>_ _. (0, 0)), ge_draft = draft\<rparr>"

definition ex_spec_core :: "nat \<Rightarrow> memory core" where
  "ex_spec_core n = upd_state (ss_all_context_tokens_update (\<lambda>_. [1, 2]))
     (ex_core\<lparr>co_mem := mem_decode (Hybrid [] (ex_recurrent n)) 0 [1, 2], co_n_past := 2\<rparr>)"

definition ex_draft :: "nat \<Rightarrow> token list" where
  "ex_draft i = (if i = 0 then [6, 7, 8] else [])"

lemma ex_run:
  "case generate (ex_gen_env [5, 6, 7, 9] ex_draft) False 0 0 [None] (ex_spec_core 2) of
     Some (r, g) \<Rightarrow> \<not> gr_thinking_sim_abort r \<and> \<not> gr_was_interrupted r \<and> tracker (gn_core g) = [1, 2, 5, 6, 7, 9, 0]
   | None \<Rightarrow> False"
  by code_simp

lemma ex_window:
  "mem_window (co_mem (ex_spec_core 2)) (tracker (ex_spec_core 2)) 0"
  by code_simp

lemma ex_env_ok: "env_ok memory_ops 2 (ex_gen_env script ex_draft)"
  by (simp add: env_ok_def ex_gen_env_def ex_draft_def POS_MAX_def)

lemma generate_returns_witness:
  "\<exists>r g. generate (ex_gen_env [5, 6, 7, 9] ex_draft) False 0 0 [None] (ex_spec_core 2) = Some (r, g)"
  by (rule generate_returns [OF ex_window _ _ ex_env_ok]) code_simp+

lemma generate_settles_witness:
  "\<exists>r g. generate (ex_gen_env [5, 6, 7, 9] ex_draft) False 0 0 [None] (ex_spec_core 2) = Some (r, g)
    \<and> tracker (gn_core g) = [1, 2, 5, 6, 7, 9, 0] \<and> mem_window (co_mem (gn_core g)) (tracker (gn_core g)) 0"
proof -
  obtain r g where g: "generate (ex_gen_env [5, 6, 7, 9] ex_draft) False 0 0 [None] (ex_spec_core 2) = Some (r, g)"
    "\<not> gr_thinking_sim_abort r" "\<not> gr_was_interrupted r" "tracker (gn_core g) = [1, 2, 5, 6, 7, 9, 0]"
    using ex_run by (auto split: option.splits)
  have "co_n_past (ex_spec_core 2) = int (length (tracker (ex_spec_core 2)))" "2 \<le> mem_cap (co_mem (ex_spec_core 2))"
    by code_simp+
  from generate_settles [OF ex_window this ex_env_ok g(1)] g show ?thesis by blast
qed

subsection \<open>Where a generation does not settle\<close>

definition ex_trip_env :: "(memory, nat, view) gen_env" where
  "ex_trip_env = (ex_gen_env [5, 6, 7, 7] (\<lambda>i. if i = 0 then [6, 7, 7] else []))
     \<lparr>ge_piece := (\<lambda>t. if t = 7 then ''<think>'' else ''x''), ge_stop_trip := (\<lambda>_. False)\<rparr>"

text \<open>The exception is real: a generation that the tripwire ends on the last draft of a fully matched round leaves the memory one
  token ahead of the tracker and of the position.\<close>

lemma tripwire_leaves_memory_ahead:
  "case generate ex_trip_env False 0 0 [None] (ex_spec_core 2) of
     Some (r, g) \<Rightarrow> gr_thinking_sim_abort r \<and> tracker (gn_core g) = [1, 2, 5, 6, 7] \<and> co_n_past (gn_core g) = 5
       \<and> mem_pos_max (co_mem (gn_core g)) = 5 \<and> mem_window (co_mem (gn_core g)) [1, 2, 5, 6, 7, 7] 0
   | None \<Rightarrow> False"
  by code_simp

text \<open>C39: A turn that ends on an end-of-generation token which matched a draft leaves rejected drafts behind
  in the snapshot planes; they are removed by selecting an older plane, but the checkpoint of the next
  prompt copies the newest: it is the state of tokens the conversation does not contain.\<close>

theorem checkpoint_of_rejected_drafts:
  assumes "mem_window (Hybrid kv rc) ts w" "0 < r" "r \<le> w"
  shows "\<exists>kv' rc'. mem_seq_rm (Hybrid kv rc) (int (length ts - r)) (- 1) = (True, Hybrid kv' rc')
    \<and> mem_window (Hybrid kv' rc') (take (length ts - r) ts) 0
    \<and> last (rc_stack (rs_checkpoint_save rc')) = Some (ts, ts)"
proof -
  obtain m' where m': "mem_seq_rm (Hybrid kv rc) (int (length ts - r)) (- 1) = (True, m')"
    "mem_window m' (take (length ts - r) ts) 0"
    using mem_window_remove [OF assms(1,3)] by blast
  then obtain kv' rc' where h: "m' = Hybrid kv' rc'" by (auto simp: Let_def split: prod.splits if_splits)
  have w: "rc_planes rc ! 0 = Some (ts, ts)" "w < length ts" "r < length ts"
    using assms by (auto simp: recr_window_def)
  have p: "rc_planes (snd (recr_seq_rm rc q q')) = rc_planes rc" for q q' by (simp add: recr_seq_rm_def Let_def)
  have "rc' = snd (recr_seq_rm rc (int (length ts - r)) (- 1))"
    using m'(1) h by (auto simp: Let_def split: prod.splits if_splits)
  then have "rc_planes rc' = rc_planes rc" using p by simp
  moreover have "rc_tail rc'" using m'(2) h w by (auto simp: recr_window_def split: if_splits)
  ultimately show ?thesis using m' h w(1) by (auto simp: rs_checkpoint_save_def)
qed

lemma checkpoint_of_rejected_drafts_witness:
  "\<exists>kv' rc'. mem_seq_rm (mem_decode (Hybrid [] (ex_recurrent 2)) 0 [1, 2, 3]) 2 (- 1) = (True, Hybrid kv' rc')
    \<and> last (rc_stack (rs_checkpoint_save rc')) = Some ([1, 2, 3], [1, 2, 3])"
proof -
  let ?m = "mem_decode (Hybrid [] (ex_recurrent 2)) 0 [1, 2, 3]"
  obtain kv rc where m: "?m = Hybrid kv rc" by simp
  have "mem_window ?m [1, 2, 3] 1" by code_simp
  then have "\<exists>kv' rc'. mem_seq_rm (Hybrid kv rc) (int (length [1, 2, 3::token] - 1)) (- 1) = (True, Hybrid kv' rc')
    \<and> mem_window (Hybrid kv' rc') (take (length [1, 2, 3::token] - 1) [1, 2, 3]) 0
    \<and> last (rc_stack (rs_checkpoint_save rc')) = Some ([1, 2, 3], [1, 2, 3])"
    unfolding m by (rule checkpoint_of_rejected_drafts) simp_all
  then show ?thesis unfolding m by auto
qed

text \<open>The accounting of a round: with a draft of one token the flag that closes the round is set together with
  the one for the bonus token, and an end-of-generation token as the bonus reports the round twice.\<close>

lemma single_draft_noted_twice:
  "case generate (ex_gen_env [5, 6, 0] (\<lambda>i. if i = 0 then [6] else [])) False 0 0 [None] (ex_spec_core 2) of
     Some (r, g) \<Rightarrow> gn_calls g = [On_Origin_Match, On_Bonus, Note_Round 2, Note_Round 1, On_Abort 0 0]
   | None \<Rightarrow> False"
  by code_simp

end
