(* ===== verification/Lim_Lossless.thy ===== *)
theory Lim_Lossless
  imports Lim_Speculation
begin

section \<open>Drafts do not change what is generated\<close>

text \<open>
  The claim of speculative decoding: as long as no decode fails, a generation with a draft head produces
  what it produces without one, token by token and with the same flags, because every sampled row is the
  row of exactly the tracked tokens. Each phase is shown to act on the observed part of the
  state (\<^const>\<open>obs\<close>) by itself, whatever the round and the memory are.
\<close>

definition quiet :: "('m, 's, 'v) gen_env \<Rightarrow> bool" where
  "quiet env \<longleftrightarrow> (\<forall>i. fst (ge_answer env i) = 0 \<and> fst (ge_verify_answer env i) = 0) \<and> fst (ge_close_answer env) = 0"

lemma llama_decode_0: "fst a = 0 \<Longrightarrow> llama_decode ops a m p ts = (0, op_decode ops m p ts)"
  by (cases a) (simp add: llama_decode_def)

lemma decode_result_0: "fst (handle_decode_result 0 b)"
  by (simp add: handle_decode_result_def)

definition fed :: "token \<Rightarrow> 's obs \<Rightarrow> 's obs" where
  "fed t ob = ob\<lparr>ob_tokens := ob_tokens ob @ [t], ob_n_past := ob_n_past ob + 1\<rparr>"

definition row_of :: "(bool \<Rightarrow> token list \<Rightarrow> 'v) \<Rightarrow> ('m \<Rightarrow> bool) \<Rightarrow> ('m, 's, 'v) gen \<Rightarrow> token list \<Rightarrow> 'v" where
  "row_of ideal kind g = ideal (kind (co_mem (gn_core g)))"

lemma row_rel_rows:
  assumes "top_ok K (gn_spec g)" "row_rel f g"
  shows "gn_rows g \<noteq> []"
  using assms by (auto simp: row_rel_def Let_def top_ok_def round_ok_def split: if_splits)

lemma sample_row_ideal:
  assumes "top_ok K (gn_spec g)" "row_rel f g"
  shows "sample_row g = Some (f (tracker (gn_core g)))"
proof (cases "sp_in_progress (gn_spec g)")
  case True
  then have v: "sp_verify_row (gn_spec g) = sp_committed (gn_spec g)" "sp_committed (gn_spec g) < sp_verify_rows (gn_spec g)"
    "sp_verify_rows (gn_spec g) = length (sp_draft (gn_spec g)) - 1" "\<not> sp_verify_pending (gn_spec g)"
    using assms(1) by (simp_all add: top_ok_def round_ok_def)
  obtain base where "tracker (gn_core g) = base @ take (sp_committed (gn_spec g) + 1) (sp_draft (gn_spec g))"
    "gn_rows g = map (\<lambda>j. Some (f (base @ take (j + 1) (sp_draft (gn_spec g))))) [0..<length (sp_draft (gn_spec g))]"
    using assms(2) True v(4) by (auto simp: row_rel_def Let_def)
  moreover have "sp_committed (gn_spec g) < length (sp_draft (gn_spec g))" using v(2,3) by linarith
  ultimately show ?thesis using True v by (simp add: sample_row_def del: upt_Suc)
next
  case False
  with assms have "gn_rows g \<noteq> []" "last (gn_rows g) = Some (f (tracker (gn_core g)))"
    by (simp_all add: row_rel_def Let_def top_ok_def)
  with False show ?thesis by (simp add: sample_row_def last_conv_nth)
qed

subsection \<open>Plain generation\<close>

text \<open>
  The specification: one token after the other, sampled from what the model says about all tokens so far.
  There is no memory, no batch and no round; \<open>ideal hybrid ts\<close> stands for the logits after \<open>ts\<close>.
\<close>

definition plain_context :: "('m, 's, 'v) gen_env \<Rightarrow> 's obs \<Rightarrow> 's obs + 's obs" where
  "plain_context env ob =
     (let line = context_90pct (ge_n_ctx env); np = ob_n_past ob; crossed = ob_last_context ob < line \<and> np \<ge> line;
          ob = ob\<lparr>ob_last_context := np\<rparr>
      in if np \<ge> line \<and> \<not> ob_warned ob \<and> \<not> ge_reincarnating env
         then if crossed
           then Inl (ob\<lparr>ob_warned := True, ob_flags := (ob_flags ob)\<lparr>fl_interrupted := True, fl_ctx_limit := True\<rparr>\<rparr>)
           else Inr (ob\<lparr>ob_warned := True\<rparr>)
         else Inr ob)"

definition plain_interrupted :: "'s obs \<Rightarrow> 's obs" where
  "plain_interrupted ob = ob\<lparr>ob_stop := False, ob_flags := (ob_flags ob)\<lparr>fl_interrupted := True\<rparr>\<rparr>"

definition plain_early :: "'s obs \<Rightarrow> 's obs" where
  "plain_early ob = ob\<lparr>ob_flags := (ob_flags ob)\<lparr>fl_early_exit := True\<rparr>\<rparr>"

definition plain_top :: "('m, 's, 'v) gen_env \<Rightarrow> nat \<Rightarrow> 's obs \<Rightarrow> 's obs + 's obs" where
  "plain_top env i ob =
     (if ob_stop ob \<or> ge_stop env i
      then Inl (if ge_canary_silent env then ob\<lparr>ob_stop := False\<rparr> else plain_interrupted ob)
      else if ge_canary_max env > 0 \<and> gt_t_count (ob_text ob) \<ge> ge_canary_max env then Inl ob
      else if \<not> ge_canary_silent env \<and> ge_timeout env i then Inl (plain_interrupted ob)
      else res_bind (if ge_canary_silent env then Inr ob else plain_context env ob) (\<lambda>ob.
        if \<not> ge_canary_silent env \<and> ob_n_past ob \<ge> ge_n_ctx env - 10 then Inl (plain_early ob) else Inr ob))"

definition plain_eog :: "('m, 's, 'v) gen_env \<Rightarrow> nat \<Rightarrow> 'v option \<Rightarrow> token \<Rightarrow> 's obs \<Rightarrow> 's obs + (token \<times> 's obs)" where
  "plain_eog env i v t ob =
     (if \<not> ge_is_eog env t then Inr (t, ob)
      else let think = gt_in_thinking (ob_text ob); n = (if think then ob_think_eog ob + 1 else 0);
               ob = ob\<lparr>ob_think_eog := n\<rparr>
        in if think \<and> n \<le> int (ge_eog_max env) then Inr (t, ob)
           else (let (p, stopped, s) = poll_row env i v (ob_smpl ob);
                     ob = ob\<lparr>ob_stop := ob_stop ob \<or> stopped\<rparr>
                 in case p of
                      Some t' \<Rightarrow> Inr (t', ob\<lparr>ob_smpl := ge_reset env s, ob_recovered := True\<rparr>)
                    | None \<Rightarrow> Inl (fed t (ob\<lparr>ob_smpl := s, ob_text := close_open_call (ob_text ob),
                        ob_flags := (ob_flags ob)\<lparr>fl_ended_on_eog := True\<rparr>\<rparr>))))"

definition plain_think :: "('m, 's, 'v) gen_env \<Rightarrow> nat \<Rightarrow> token \<Rightarrow> 's obs \<Rightarrow> 's obs + 's obs" where
  "plain_think env i t ob =
     (let (tripped, tx) = detect_think (fst (ge_think env)) (snd (ge_think env)) (ge_canary_silent env)
            ((ob_text ob)\<lparr>gt_text := gt_text (ob_text ob) @ ge_piece env t\<rparr>);
          ob = ob\<lparr>ob_text := tx\<rparr>; cut = (ob_flags ob)\<lparr>fl_unfed_tail := length (ge_piece env t)\<rparr>
      in if \<not> tripped then Inr ob
         else if ob_stop ob \<or> ge_stop_trip env i then Inl (plain_interrupted (ob\<lparr>ob_flags := cut\<rparr>))
         else Inl (ob\<lparr>ob_flags := cut\<lparr>fl_sim_abort := True\<rparr>\<rparr>))"

definition plain_call :: "('m, 's, 'v) gen_env \<Rightarrow> nat \<Rightarrow> token \<Rightarrow> 's obs \<Rightarrow> 's obs + 's obs" where
  "plain_call env i t ob =
     (let (ev, tx) = text_event (ge_outside_limit env)
            (search_tool_end (ge_was_mid env) (detect_tool_start (snd (ge_think env)) (ob_text ob)));
          ob = ob\<lparr>ob_text := tx\<rparr>
      in case ev of
           Stuck \<Rightarrow> Inl (fed t (ob\<lparr>ob_stop := True, ob_flags := (ob_flags ob)\<lparr>fl_stuck := True\<rparr>\<rparr>))
         | Go_On \<Rightarrow> Inr (ob\<lparr>ob_text := count_token (ge_piece env t) (ob_recovered ob) tx, ob_recovered := False\<rparr>)
         | _ \<Rightarrow> Inl (fed t ob))"

definition plain_take :: "('m, 's, 'v) gen_env \<Rightarrow> nat \<Rightarrow> token \<Rightarrow> 's obs \<Rightarrow> 's obs + 's obs" where
  "plain_take env i t ob =
     res_bind (plain_think env i t ob) (\<lambda>ob.
     res_bind (plain_call env i t ob) (\<lambda>ob.
     Inr ((\<lambda>ob. ob\<lparr>ob_text := (ob_text ob)\<lparr>gt_hook_pending := False\<rparr>\<rparr>) (fed t ob))))"

definition plain_step :: "('m, 's, 'v) gen_env \<Rightarrow> (bool \<Rightarrow> token list \<Rightarrow> 'v) \<Rightarrow> nat \<Rightarrow> 's obs \<Rightarrow> 's obs + 's obs" where
  "plain_step env ideal i ob =
     res_bind (plain_top env i ob) (\<lambda>ob.
     let v = Some (ideal (ob_kind ob) (ob_tokens ob)); (t, s) = ge_sample env (ob_smpl ob) v in
     res_bind (plain_eog env i v t (ob\<lparr>ob_smpl := s\<rparr>)) (\<lambda>(t, ob). plain_take env i t ob))"

partial_function (option) plain_loop :: "('m, 's, 'v) gen_env \<Rightarrow> (bool \<Rightarrow> token list \<Rightarrow> 'v) \<Rightarrow> nat \<Rightarrow> 's obs
    \<Rightarrow> 's obs option" where
  "plain_loop env ideal i ob =
     (case plain_step env ideal i ob of Inl ob' \<Rightarrow> Some ob' | Inr ob' \<Rightarrow> plain_loop env ideal (i + 1) ob')"

definition plain_result :: "'s obs \<Rightarrow> gen_result" where
  "plain_result ob =
     (let tx = ob_text ob; fl = ob_flags ob in
      \<lparr>gr_text = gt_text tx,
       gr_has_tool_call = (gt_trigger tx \<and> gt_tool_start tx \<noteq> None \<and> gt_tool_end tx \<noteq> None),
       gr_tool_start = gt_tool_start tx, gr_tool_end = gt_tool_end tx,
       gr_was_interrupted = fl_interrupted fl, gr_ctx_limit_interrupt = fl_ctx_limit fl,
       gr_token_count = gt_t_count tx, gr_early_exit = fl_early_exit fl,
       gr_stuck_in_tool_call = fl_stuck fl, gr_thinking_sim_abort = fl_sim_abort fl,
       gr_unfed_tail_len = fl_unfed_tail fl, gr_ended_on_eog = fl_ended_on_eog fl,
       gr_was_in_thinking_block = gt_in_thinking tx,
       gr_canary_ran = False, gr_canary_origin_match = 0, gr_canary_origin_total = 0\<rparr>)"

lemma fed_simps [simp]:
  "ob_kind (fed t ob) = ob_kind ob" "ob_text (fed t ob) = ob_text ob"
  by (simp_all add: fed_def)

lemma plain_top_kind: "plain_top env i ob = Inr ob' \<Longrightarrow> ob_kind ob' = ob_kind ob"
  by (auto simp: plain_top_def plain_context_def Let_def split: if_splits)

lemma plain_eog_kind: "plain_eog env i v t ob = Inr (t', ob') \<Longrightarrow> ob_kind ob' = ob_kind ob"
  by (auto simp: plain_eog_def Let_def split: if_splits prod.splits option.splits)

lemma plain_take_kind: "plain_take env i t ob = Inr ob' \<Longrightarrow> ob_kind ob' = ob_kind ob"
  by (auto simp: plain_take_def plain_think_def plain_call_def Let_def case_prod_beta res_iff
      split: if_splits text_outcome.splits)

lemma plain_step_kind: "plain_step env ideal i ob = Inr ob' \<Longrightarrow> ob_kind ob' = ob_kind ob"
  by (auto simp: plain_step_def Let_def res_iff case_prod_beta dest!: plain_top_kind plain_eog_kind plain_take_kind)

text \<open>The phases that do not touch the memory are those of plain generation.\<close>

lemma obs_simps [simp]:
  "ob_tokens (obs kind g) = tracker (gn_core g)" "ob_n_past (obs kind g) = co_n_past (gn_core g)"
  "ob_stop (obs kind g) = co_stop (gn_core g)" "ob_kind (obs kind g) = kind (co_mem (gn_core g))"
  "ob_smpl (obs kind g) = gn_smpl g" "ob_text (obs kind g) = gn_text g" "ob_flags (obs kind g) = gn_flags g"
  "ob_last_context (obs kind g) = gn_last_context g" "ob_warned (obs kind g) = gn_warned g"
  "ob_recovered (obs kind g) = gn_recovered g" "ob_think_eog (obs kind g) = gn_think_eog g"
  by (simp_all add: obs_def)

lemma plain_context_obs: "plain_context env (obs kind g) = map_sum (obs kind) (obs kind) (check_context env g)"
  by (simp add: plain_context_def check_context_def Let_def obs_def)

lemma plain_top_obs:
  assumes "gn_rows g \<noteq> []"
  shows "plain_top env i (obs kind g) = map_sum (obs kind) (obs kind) (top_checks env i g)"
proof (cases "check_context env g")
  case (Inl g')
  then show ?thesis using assms
    by (simp add: plain_top_def top_checks_def plain_context_obs plain_interrupted_def interrupted_def plain_early_def
        early_exit_def)
next
  case (Inr g')
  then have "gn_rows g' = gn_rows g" using check_context_ok [where env = env and g = g] by simp
  with Inr show ?thesis using assms
    by (simp add: plain_top_def top_checks_def plain_context_obs plain_interrupted_def interrupted_def plain_early_def
        early_exit_def)
qed

lemma plain_think_obs: "plain_think env i t (obs kind g) = map_sum (obs kind) (obs kind) (think_phase env i t g)"
  by (simp add: plain_think_def think_phase_def Let_def plain_interrupted_def interrupted_def case_prod_beta)

lemma plain_eog_obs:
  "case eog_phase env i v t g of
     Inr (t', g') \<Rightarrow> plain_eog env i v t (obs kind g) = Inr (t', obs kind g')
   | Inl g' \<Rightarrow> \<exists>g1. g' = eog_break env i t g1 \<and> same_context (gn_core g) (gn_core g1) \<and> gn_spec g1 = gn_spec g
       \<and> plain_eog env i v t (obs kind g) = Inl (fed t ((obs kind g1)\<lparr>ob_text := close_open_call (gn_text g1),
           ob_flags := (gn_flags g1)\<lparr>fl_ended_on_eog := True\<rparr>\<rparr>))"
proof (cases "\<not> ge_is_eog env t \<or> gt_in_thinking (gn_text g) \<and> gn_think_eog g + 1 \<le> int (ge_eog_max env)")
  case True
  then show ?thesis by (auto simp: eog_phase_def plain_eog_def Let_def obs_def)
next
  case False
  obtain p st s where r: "poll_row env i v (gn_smpl g) = (p, st, s)" by (metis prod_cases3)
  show ?thesis
  proof (cases p)
    case None
    let ?g1 = "(upd_core (\<lambda>c. c\<lparr>co_stop := co_stop c \<or> st\<rparr>)
      (g\<lparr>gn_think_eog := if gt_in_thinking (gn_text g) then gn_think_eog g + 1 else 0\<rparr>))\<lparr>gn_smpl := s\<rparr>"
    have "eog_phase env i v t g = Inl (eog_break env i t ?g1)"
      using False r None by (simp add: eog_phase_def Let_def)
    moreover have "plain_eog env i v t (obs kind g) = Inl (fed t ((obs kind ?g1)\<lparr>ob_text := close_open_call (gn_text ?g1),
        ob_flags := (gn_flags ?g1)\<lparr>fl_ended_on_eog := True\<rparr>\<rparr>))"
      using False r None by (simp add: plain_eog_def Let_def obs_def)
    moreover have "same_context (gn_core g) (gn_core ?g1)" "gn_spec ?g1 = gn_spec g" by (simp_all add: same_context_def)
    ultimately show ?thesis by auto
  next
    case (Some t')
    then show ?thesis using False r
      by (simp add: eog_phase_def plain_eog_def Let_def)
  qed
qed

lemma plain_call_obs:
  "case call_phase env i t g of
     Inr g' \<Rightarrow> plain_call env i t (obs kind g) = Inr (obs kind g')
   | Inl g' \<Rightarrow> \<exists>g1. g' = feed_break env i t g1 \<and> same_context (gn_core g) (gn_core g1) \<and> gn_spec g1 = gn_spec g
       \<and> gn_rows g1 = gn_rows g \<and> plain_call env i t (obs kind g) = Inl (fed t (obs kind g1))"
proof -
  obtain ev tx where d: "text_event (ge_outside_limit env)
      (search_tool_end (ge_was_mid env) (detect_tool_start (snd (ge_think env)) (gn_text g))) = (ev, tx)" by fastforce
  show ?thesis
    by (cases ev) (force simp: call_phase_def plain_call_def Let_def d same_context_def obs_def)+
qed

context window_memory
begin

lemma feed_quiet:
  assumes "mid_rel holds ts0 t (gn_core g) (gn_spec g)" "ge_ops env = ops" "ge_view env = view" "quiet env"
  shows "\<exists>g'. feed_token env i t g = (True, g') \<and> obs kind g' = fed t (obs kind g)
    \<and> (mid_rows (row_of ideal kind g) g \<longrightarrow> row_rel (row_of ideal kind g) g')"
proof (cases "sp_no_feed (gn_spec g)")
  case True
  let ?g' = "upd_spec (sp_no_feed_update (\<lambda>_. False)) (upd_core (\<lambda>c. push_token t (c\<lparr>co_n_past := co_n_past c + 1\<rparr>)) g)"
  let ?sp = "gn_spec g"
  have e: "feed_token env i t g = (True, ?g')" using True by (simp add: feed_token_def Let_def)
  have r: "row_rel f ?g'" if mr: "mid_rows f g" for f
  proof (cases "sp_verify_pending ?sp")
    case False
    obtain base where b: "tracker (gn_core g) = base @ take (sp_committed ?sp) (sp_draft ?sp)"
      "gn_rows g = map (\<lambda>j. Some (f (base @ take (j + 1) (sp_draft ?sp)))) [0..<length (sp_draft ?sp)]"
      using mr True False by (auto simp: mid_rows_def Let_def)
    have m: "sp_committed ?sp < length (sp_draft ?sp)" "t = sp_draft ?sp ! sp_committed ?sp"
      "\<not> sp_in_progress ?sp \<Longrightarrow> sp_committed ?sp + 1 = length (sp_draft ?sp)"
      using assms(1) True False by (auto simp: mid_rel_def)
    have t: "tracker (gn_core g) @ [t] = base @ take (sp_committed ?sp + 1) (sp_draft ?sp)"
      using b(1) m(1,2) by (simp add: take_Suc_conv_app_nth)
    have l: "last (gn_rows g) = Some (f (base @ sp_draft ?sp))" using b(2) m(1) by (cases "sp_draft ?sp" rule: rev_cases) (simp_all add: last_map)
    show ?thesis
    proof (cases "sp_in_progress ?sp")
      case True
      with t b(2) show ?thesis by (simp add: row_rel_def Let_def)
    next
      case False
      with t m(3) have "tracker (gn_core g) @ [t] = base @ sp_draft ?sp" by simp
      moreover have "sp_draft ?sp \<noteq> []" using m(1) by auto
      ultimately show ?thesis using False l b(2) by (simp add: row_rel_def Let_def)
    qed
  qed (simp add: row_rel_def Let_def)
  have "obs kind ?g' = fed t (obs kind g)" by (simp add: obs_def fed_def)
  with e r show ?thesis by blast
next
  case False
  let ?c = "gn_core g"
  from assms(1) False have h: "holds (co_mem ?c) (tracker ?c) 0" "co_n_past ?c = int (length (tracker ?c))"
    "\<not> sp_verify_pending (gn_spec g)" "\<not> sp_in_progress (gn_spec g)" by (simp_all add: mid_rel_def)
  let ?m = "op_decode ops (co_mem ?c) (co_n_past ?c) [t]"
  let ?g' = "g\<lparr>gn_core := push_token t (?c\<lparr>co_mem := ?m, co_n_past := co_n_past ?c + 1\<rparr>),
    gn_rows := [Some (view (co_mem ?c) (co_n_past ?c) [t])]\<rparr>"
  have "llama_decode ops (ge_answer env i) (co_mem ?c) (co_n_past ?c) [t]
      = (0, op_decode ops (co_mem ?c) (co_n_past ?c) [t])"
    by (rule llama_decode_0) (use assms(4) in \<open>simp add: quiet_def\<close>)
  then have e: "feed_token env i t g = (True, ?g')"
    using False assms(2,3) by (simp add: feed_token_def Let_def decode_result_0)
  have "obs kind ?g' = fed t (obs kind g)" by (simp add: obs_def fed_def same_kind)
  moreover have "row_rel (row_of ideal kind g) ?g'"
    using h(3,4) view [OF h(1)] by (simp add: row_rel_def Let_def row_of_def h(2))
  ultimately show ?thesis using e by blast
qed

lemma feed_break_quiet:
  assumes "mid_rel holds ts0 t (gn_core g) (gn_spec g)" "ge_ops env = ops" "ge_view env = view" "quiet env"
  shows "obs kind (feed_break env i t g) = fed t (obs kind g)"
  using feed_quiet [OF assms, of i] by (auto simp: feed_break_def)

lemma eog_break_quiet:
  assumes "top_ok K (gn_spec g)" "kv_rel holds ts0 (gn_core g) (gn_spec g)" "ge_ops env = ops" "ge_view env = view" "quiet env"
  shows "obs kind (eog_break env i t g) = fed t ((obs kind g)\<lparr>ob_text := close_open_call (ob_text (obs kind g)),
    ob_flags := (ob_flags (obs kind g))\<lparr>fl_ended_on_eog := True\<rparr>\<rparr>)"
proof (rule eog_break_feed [OF assms(1-3), of i t])
  fix g1
  assume "eog_break env i t g = feed_break env i t g1" "mid_rel holds ts0 t (gn_core g1) (gn_spec g1)"
    "obs kind g1 = (obs kind g)\<lparr>ob_text := close_open_call (gn_text g), ob_flags := (gn_flags g)\<lparr>fl_ended_on_eog := True\<rparr>\<rparr>"
  with feed_break_quiet [OF this(2) assms(3-5)] show ?thesis by (simp add: obs_def)
qed

lemma advance_quiet:
  assumes "fed_ok K (gn_spec g)" "kv_rel holds ts0 (gn_core g) (gn_spec g)" "ge_ops env = ops" "ge_view env = view" "quiet env"
  shows "\<exists>g'. advance_round env i g = Inr g' \<and> obs kind g' = obs kind g
    \<and> (row_rel (row_of ideal kind g) g \<longrightarrow> row_rel (row_of ideal kind g) g')"
proof (cases "sp_verify_pending (gn_spec g)")
  case False
  let ?sp = "gn_spec g"
  consider (complete) "sp_round_complete ?sp"
    | (draft) "\<not> sp_round_complete ?sp" "\<not> sp_in_progress ?sp \<and> \<not> sp_bonus_pending ?sp \<and> length (gn_rows g) = 1 \<and> ge_draft env i \<noteq> []"
    | (none) "\<not> sp_round_complete ?sp" "\<not> (\<not> sp_in_progress ?sp \<and> \<not> sp_bonus_pending ?sp \<and> length (gn_rows g) = 1 \<and> ge_draft env i \<noteq> [])"
    by blast
  then show ?thesis
  proof cases
    case complete
    with False show ?thesis by (simp add: advance_round_def Let_def obs_def row_rel_def)
  next
    case draft
    with False show ?thesis by (simp add: advance_round_def Let_def obs_def row_rel_def)
  next
    case none
    then have "advance_round env i g = Inr g" using False unfolding advance_round_def Let_def by auto
    then show ?thesis by simp
  qed
next
  case True
  let ?sp = "gn_spec g" and ?c = "gn_core g" and ?ds = "sp_draft (gn_spec g)"
  obtain base where b: "tracker ?c = base @ [hd ?ds]" "holds (co_mem ?c) base 0" "co_n_past ?c = int (length (tracker ?c))"
    using assms(2) True by (auto simp: kv_rel_def)
  have d: "?ds \<noteq> []" "sp_in_progress ?sp" "sp_committed ?sp = 0" "sp_verify_rows ?sp = length ?ds - 1"
    using assms(1) True by (simp_all add: fed_ok_def round_ok_def)
  let ?f = "row_of ideal kind g"
  have p: "co_n_past ?c - 1 = int (length base)" using b(1,3) by simp
  have rows: "verify_rows env (co_mem ?c) (co_n_past ?c - 1) ?ds = map (\<lambda>j. Some (?f (base @ take (j + 1) ?ds))) [0..<length ?ds]"
    unfolding verify_rows_def row_of_def assms(4) p using view [OF b(2)] by simp
  let ?g2 = "(upd_spec (sp_verify_pending_update (\<lambda>_. False)) g)\<lparr>gn_core := ?c\<lparr>co_mem := op_decode ops (co_mem ?c) (co_n_past ?c - 1) ?ds\<rparr>,
    gn_rows := verify_rows env (co_mem ?c) (co_n_past ?c - 1) ?ds\<rparr>"
  have "llama_decode ops (ge_verify_answer env i) (co_mem ?c) (co_n_past ?c - 1) ?ds
      = (0, op_decode ops (co_mem ?c) (co_n_past ?c - 1) ?ds)"
    by (rule llama_decode_0) (use assms(5) in \<open>simp add: quiet_def\<close>)
  then have e: "advance_round env i g = Inr (if sp_verify_rows ?sp > 0 then ?g2
      else upd_spec (\<lambda>s. s\<lparr>sp_in_progress := False, sp_bonus_pending := True, sp_round_complete := True\<rparr>) ?g2)"
    unfolding advance_round_def decode_verify_def Let_def using True assms(3) by (simp add: decode_result_0)
  have t: "tracker ?c = base @ take 1 ?ds" using b(1) d(1) by (cases ?ds) simp_all
  show ?thesis
  proof (cases "sp_verify_rows ?sp > 0")
    case True
    have "row_rel ?f ?g2" unfolding row_rel_def Let_def rows using d t by auto
    moreover have "obs kind ?g2 = obs kind g" by (simp add: obs_def same_kind)
    ultimately show ?thesis unfolding e using True by simp
  next
    case False
    then have l: "length ?ds = 1" using d(1,4) by (cases ?ds) simp_all
    then have "?ds = take 1 ?ds" by simp
    with t have t': "tracker ?c = base @ ?ds" by simp
    let ?g3 = "upd_spec (\<lambda>s. s\<lparr>sp_in_progress := False, sp_bonus_pending := True, sp_round_complete := True\<rparr>) ?g2"
    have "row_rel ?f ?g3" unfolding row_rel_def Let_def rows using l t' by simp
    moreover have "obs kind ?g3 = obs kind g" by (simp add: obs_def same_kind)
    ultimately show ?thesis unfolding e using False by simp
  qed
qed

lemma hook_quiet:
  assumes "ge_ops env = ops"
  shows "obs kind (fire_hook env g) = (obs kind g)\<lparr>ob_text := (gn_text g)\<lparr>gt_hook_pending := False\<rparr>\<rparr>"
    "row_rel f (fire_hook env g) = row_rel f g"
  by (auto simp: fire_hook_def Let_def assms obs_def row_rel_def hook_keeps)
     (simp_all add: on_tool_start_def Let_def)

lemma close_quiet:
  assumes "quiet env" "ge_ops env = ops"
    and "sp_in_progress (gn_spec g) \<Longrightarrow> \<not> sp_verify_pending (gn_spec g) \<Longrightarrow>
      fst (op_seq_rm ops (co_mem (gn_core g)) (co_n_past (gn_core g)) (- 1))"
  shows "obs kind (close_round env i g) = obs kind g"
proof -
  have a: "fst (ge_close_answer env) = 0" using assms(1) by (simp add: quiet_def)
  have s: "obs kind (settle_origin env i g) = obs kind g \<and> \<not> sp_in_progress (gn_spec (settle_origin env i g))"
    unfolding settle_origin_def Let_def llama_decode_0 [OF a]
    by (simp add: decode_result_0 obs_def same_kind end_round_def assms(2))
  let ?g = "if sp_verify_pending (gn_spec g) then settle_origin env i g else g"
  have d: "obs kind (drop_uncommitted env i ?g) = obs kind g"
  proof (cases "sp_verify_pending (gn_spec g)")
    case True
    with s show ?thesis by (simp add: drop_uncommitted_def Let_def)
  next
    case False
    show ?thesis
    proof (cases "sp_in_progress (gn_spec g)")
      case True
      obtain m where m: "op_seq_rm ops (co_mem (gn_core g)) (co_n_past (gn_core g)) (- 1) = (True, m)"
        using assms(3) [OF True False] by (metis prod.collapse)
      have "kind m = kind (co_mem (gn_core g))" using same_kind(2) m by (metis snd_conv)
      with False m assms(2) show ?thesis by (simp add: drop_uncommitted_def Let_def obs_def)
    next
      case no: False
      with False show ?thesis by (simp add: drop_uncommitted_def Let_def)
    qed
  qed
  then show ?thesis unfolding close_round_def Let_def by (simp add: obs_def)
qed

end

subsection \<open>Refinement\<close>

text \<open>A run of the generator that is observed like plain generation, whatever is drafted.\<close>

context window_memory
begin

definition lockstep :: "nat \<Rightarrow> token list \<Rightarrow> ('m, 's, 'v) gen \<Rightarrow> bool" where
  "lockstep K ts0 g \<longleftrightarrow> loop_inv holds cap K ts0 g \<and> row_rel (row_of ideal kind g) g"

text \<open>When the loop is left, what the end of the generation removes can be removed.\<close>

definition removable :: "('m, 's, 'v) gen \<Rightarrow> bool" where
  "removable g \<longleftrightarrow> (sp_in_progress (gn_spec g) \<and> \<not> sp_verify_pending (gn_spec g) \<longrightarrow>
     fst (op_seq_rm ops (co_mem (gn_core g)) (co_n_past (gn_core g)) (- 1)))"

lemma removable_kv:
  assumes "kv_rel holds ts0 (gn_core g) (gn_spec g)"
  shows "removable g"
  unfolding removable_def
proof (rule impI)
  assume p: "sp_in_progress (gn_spec g) \<and> \<not> sp_verify_pending (gn_spec g)"
  with assms obtain base where b: "sp_committed (gn_spec g) < length (sp_draft (gn_spec g))"
    "tracker (gn_core g) = base @ take (sp_committed (gn_spec g) + 1) (sp_draft (gn_spec g))"
    "holds (co_mem (gn_core g)) (base @ sp_draft (gn_spec g)) (length (sp_draft (gn_spec g)) - 1)"
    by (auto simp: kv_rel_def)
  have "co_n_past (gn_core g) = int (length (tracker (gn_core g)))" using assms by (simp add: kv_rel_def)
  from drop_round [OF b(3,2,1) this] show "fst (op_seq_rm ops (co_mem (gn_core g)) (co_n_past (gn_core g)) (- 1))"
    by (metis fst_conv)
qed

lemma removable_mid:
  assumes "mid_rel holds ts0 t (gn_core g) (gn_spec g)"
  shows "removable g"
  unfolding removable_def
proof (rule impI)
  assume p: "sp_in_progress (gn_spec g) \<and> \<not> sp_verify_pending (gn_spec g)"
  with assms have "0 < sp_committed (gn_spec g)" by (auto simp: mid_rel_def split: if_splits)
  then obtain n where n: "sp_committed (gn_spec g) = n + 1" by (cases "sp_committed (gn_spec g)") simp_all
  from assms p obtain base where b: "sp_committed (gn_spec g) < length (sp_draft (gn_spec g))"
    "tracker (gn_core g) = base @ take (sp_committed (gn_spec g)) (sp_draft (gn_spec g))"
    "holds (co_mem (gn_core g)) (base @ sp_draft (gn_spec g)) (length (sp_draft (gn_spec g)) - 1)"
    by (auto simp: mid_rel_def split: if_splits)
  have "co_n_past (gn_core g) = int (length (tracker (gn_core g)))" using assms by (simp add: mid_rel_def)
  from drop_round [OF b(3) b(2) [unfolded n] _ this] b(1) n
  show "fst (op_seq_rm ops (co_mem (gn_core g)) (co_n_past (gn_core g)) (- 1))" by (metis fst_conv add_lessD1)
qed

lemma row_of_obs: "row_of ideal kind g = ideal (ob_kind (obs kind g))"
  by (simp add: row_of_def)

lemma take_token_refines:
  assumes "top_ok K (gn_spec g)" "kv_rel holds ts0 (gn_core g) (gn_spec g)" "row_rel (row_of ideal kind g) g"
    and env: "ge_ops env = ops" "ge_view env = view" "quiet env"
    and len: "int (length (tracker (gn_core g))) + 1 \<le> POS_MAX"
  shows "case take_token env i t g of
      Inr g' \<Rightarrow> plain_take env i t (obs kind g) = Inr (obs kind g') \<and> row_rel (row_of ideal kind g) g'
    | Inl g' \<Rightarrow> plain_take env i t (obs kind g) = Inl (obs kind g')"
proof -
  obtain g4 where c: "compare_draft env i t g = Inr g4" "mid_rel holds ts0 t (gn_core g4) (gn_spec g4)"
    "mid_ok K (gn_spec g4)" "gn_text g4 = gn_text g" "gn_flags g4 = gn_flags g"
    "tracker (gn_core g4) = tracker (gn_core g)" "co_stop (gn_core g4) = co_stop (gn_core g)"
    "co_n_past (gn_core g4) = co_n_past (gn_core g)" "cap (co_mem (gn_core g4)) = cap (co_mem (gn_core g))"
    "obs kind g4 = obs kind g" "\<forall>f. row_rel f g \<longrightarrow> mid_rows f g4"
    by (rule compare_ok [of K g ts0 env i t]) (use assms in simp_all)
  show ?thesis
  proof (cases "think_phase env i t g4")
    case (Inl g5)
    then show ?thesis using plain_think_obs [of env i t kind g4] by (simp add: take_token_def plain_take_def c(1,10))
  next
    case think: (Inr g5)
    have p5: "plain_think env i t (obs kind g) = Inr (obs kind g5)"
      using plain_think_obs [of env i t kind g4] think by (simp add: c(10))
    have g5: "gn_core g5 = gn_core g4" "gn_spec g5 = gn_spec g4" "gn_rows g5 = gn_rows g4"
      using think_phase_ok [where env = env and i = i and t = t and g = g4] think by simp_all
    show ?thesis
    proof (cases "call_phase env i t g5")
      case (Inl g6)
      then obtain h where h: "g6 = feed_break env i t h" "same_context (gn_core g5) (gn_core h)" "gn_spec h = gn_spec g5"
        "plain_call env i t (obs kind g5) = Inl (fed t (obs kind h))"
        using plain_call_obs [where env = env and i = i and t = t and g = g5 and kind = kind] by auto
      have m: "mid_rel holds ts0 t (gn_core h) (gn_spec h)"
        using same_context_rel(2) [OF h(2)] c(2) g5 h(3) by simp
      show ?thesis
        using h feed_break_quiet [OF m env] p5 by (simp add: take_token_def plain_take_def c(1) think Inl)
    next
      case call: (Inr g6)
      have p6: "plain_call env i t (obs kind g5) = Inr (obs kind g6)"
        using plain_call_obs [where env = env and i = i and t = t and g = g5 and kind = kind] call by simp
      have g6: "gn_core g6 = gn_core g4" "gn_spec g6 = gn_spec g4" "gn_rows g6 = gn_rows g4"
        using call_phase_ok [where env = env and i = i and t = t and g = g5] call g5 by simp_all
      have m: "mid_rel holds ts0 t (gn_core g6) (gn_spec g6)" "mid_rows (row_of ideal kind g) g6"
        using c(2,11) assms(3) g6 by (simp_all add: mid_rows_def)
      have k: "row_of ideal kind g6 = row_of ideal kind g" using c(10) g6 by (simp add: row_of_def obs_def)
      obtain g7 where f: "feed_token env i t g6 = (True, g7)" "obs kind g7 = fed t (obs kind g6)"
        "row_rel (row_of ideal kind g) g7"
        using feed_quiet [OF m(1) env, of i] m(2) k by auto
      have l6: "int (length (tracker (gn_core g6))) + 1 \<le> POS_MAX" using len c(6) g6(1) by simp
      note r = feed_rel [OF m(1) env(1) l6 f(1)]
      have "fed_ok K (gn_spec g7)" unfolding r(2) fed_ok_no_feed using c(3) g6(2) by (simp add: mid_ok_def)
      moreover have k7: "row_of ideal kind g7 = row_of ideal kind g"
        unfolding row_of_obs f(2) using k by (simp add: row_of_def fed_def)
      ultimately obtain g8 where a: "advance_round env i g7 = Inr g8" "obs kind g8 = obs kind g7"
        "row_rel (row_of ideal kind g) g8"
        using advance_quiet [OF _ r(1) env, of K i] f(3) by auto
      have h: "obs kind (fire_hook env g8) = (fed t (obs kind g6))\<lparr>ob_text := (ob_text (fed t (obs kind g6)))\<lparr>gt_hook_pending := False\<rparr>\<rparr>"
        using hook_quiet(1) [OF env(1), of g8] a(2) f(2) by (metis obs_simps(6))
      show ?thesis
        using p5 p6 h a hook_quiet(2) [OF env(1)]
        by (simp add: take_token_def plain_take_def c(1) think call feed_phase_def f(1))
    qed
  qed
qed

lemma gen_iter_refines:
  assumes "lockstep K ts0 g" "env_ok ops K env" "ge_view env = view" "quiet env"
  shows "case gen_iter env i g of
      Inr g' \<Rightarrow> plain_step env ideal i (obs kind g) = Inr (obs kind g') \<and> lockstep K ts0 g'
    | Inl g' \<Rightarrow> plain_step env ideal i (obs kind g) = Inl (obs kind g') \<and> removable g'"
proof -
  note inv = assms(1) [unfolded lockstep_def loop_inv_def]
  note env = assms(2) [unfolded env_ok_def]
  let ?F = "row_of ideal kind g"
  have ok: "case gen_iter env i g of Inr g' \<Rightarrow> loop_inv holds cap K ts0 g'
    \<and> co_n_past (gn_core g') = co_n_past (gn_core g) + 1 \<and> co_n_past (gn_core g) < ge_n_ctx env
    | Inl g' \<Rightarrow> left_ok holds K env ts0 g'"
    by (rule gen_iter_ok [OF _ assms(2)]) (use assms(1) in \<open>simp add: lockstep_def\<close>)
  have left: "removable g'" if "left_ok holds K env ts0 g'" for g' :: "('m, 'a, 'v) gen"
    using that removable_kv removable_mid by (auto simp: left_ok_def)
  have rows: "gn_rows g \<noteq> []" "sample_row g = Some (ideal (kind (co_mem (gn_core g))) (tracker (gn_core g)))"
    using inv row_rel_rows [of K g ?F] sample_row_ideal [of K g ?F] by (simp_all add: row_of_def)
  have step: "case gen_iter env i g of
      Inr g' \<Rightarrow> plain_step env ideal i (obs kind g) = Inr (obs kind g') \<and> row_rel ?F g'
    | Inl g' \<Rightarrow> plain_step env ideal i (obs kind g) = Inl (obs kind g')"
  proof (cases "top_checks env i g")
    case (Inl g1)
    then show ?thesis using plain_top_obs [OF rows(1), of env i kind] by (simp add: gen_iter_def plain_step_def)
  next
    case top: (Inr g1)
    then have g1: "gn_core g1 = gn_core g" "gn_spec g1 = gn_spec g" "gn_rows g1 = gn_rows g" "gn_flags g1 = gn_flags g"
      "co_n_past (gn_core g) < ge_n_ctx env - 10"
      using top_checks_ok [where env = env and i = i and g = g] env by simp_all
    have p1: "plain_top env i (obs kind g) = Inr (obs kind g1)" using plain_top_obs [OF rows(1), of env i kind] top by simp
    have v: "sample_row g1 = Some (ideal (ob_kind (obs kind g1)) (ob_tokens (obs kind g1)))"
    proof -
      have "sample_row g1 = sample_row g" by (simp only: sample_row_def g1)
      with rows(2) g1(1) show ?thesis by simp
    qed
    obtain t s where ts: "ge_sample env (gn_smpl g1) (sample_row g1) = (t, s)" by fastforce
    let ?g2 = "g1\<lparr>gn_smpl := s\<rparr>"
    have s: "sample_phase env g1 = (t, ?g2)" by (simp add: sample_phase_def ts)
    have o2: "(obs kind g1)\<lparr>ob_smpl := s\<rparr> = obs kind ?g2" by (simp add: obs_def)
    have ts': "ge_sample env (ob_smpl (obs kind g1)) (sample_row g1) = (t, s)" using ts by simp
    have p: "plain_step env ideal i (obs kind g) = res_bind (plain_eog env i (sample_row g1) t (obs kind ?g2))
        (\<lambda>(t, ob). plain_take env i t ob)"
      by (simp add: plain_step_def p1 Let_def v [symmetric] ts' o2 del: obs_simps)
    note eo = eog_phase_ok [where env = env and i = i and v = "sample_row g1" and t = t and g = ?g2]
      plain_eog_obs [where env = env and i = i and v = "sample_row g1" and t = t and g = ?g2 and kind = kind]
    show ?thesis
    proof (cases "eog_phase env i (sample_row g1) t ?g2")
      case (Inl g3)
      then obtain h where h: "g3 = eog_break env i t h" "same_context (gn_core g) (gn_core h)" "gn_spec h = gn_spec g"
        "plain_eog env i (sample_row g1) t (obs kind ?g2) = Inl (fed t ((obs kind h)\<lparr>ob_text := close_open_call (gn_text h),
           ob_flags := (gn_flags h)\<lparr>fl_ended_on_eog := True\<rparr>\<rparr>))"
        using eo(2) g1 by auto
      have "kv_rel holds ts0 (gn_core h) (gn_spec h)" using same_context_rel(1) [OF h(2)] h(3) inv by simp
      with h inv env assms(3,4) show ?thesis
        by (simp add: gen_iter_def top s Inl p eog_break_quiet [of K h ts0 env])
    next
      case eog: (Inr q)
      obtain t' g3 where q: "q = (t', g3)" by fastforce
      have g3: "gn_core g3 = gn_core g" "gn_spec g3 = gn_spec g" "gn_rows g3 = gn_rows g"
        "plain_eog env i (sample_row g1) t (obs kind ?g2) = Inr (t', obs kind g3)"
        using eo eog q g1 by auto
      have len: "int (length (tracker (gn_core g3))) + 1 \<le> POS_MAX"
        using g1(5) env inv g3(1) by (simp add: kv_rel_def)
      have f: "row_of ideal kind g3 = ?F" "row_rel ?F g3"
        unfolding row_of_def row_rel_def g3(1-3)
        using assms(1) [unfolded lockstep_def row_rel_def row_of_def] by blast+
      have e: "gen_iter env i g = take_token env i t' g3" "plain_step env ideal i (obs kind g) = plain_take env i t' (obs kind g3)"
        using g3(4) by (simp_all add: gen_iter_def top s eog q p)
      show ?thesis unfolding e
        using take_token_refines [of K g3 ts0 env i t'] len f g3(1,2) inv env assms(3,4)
        by (cases "take_token env i t' g3") simp_all
    qed
  qed
  show ?thesis
  proof (cases "gen_iter env i g")
    case (Inl g')
    with step ok left show ?thesis by simp
  next
    case (Inr g')
    with step ok have s: "plain_step env ideal i (obs kind g) = Inr (obs kind g')" "row_rel ?F g'" "loop_inv holds cap K ts0 g'"
      by simp_all
    have "row_of ideal kind g' = ?F" unfolding row_of_obs plain_step_kind [OF s(1)] by (rule refl)
    with s Inr show ?thesis by (simp add: lockstep_def)
  qed
qed

lemma gen_loop_refines:
  assumes "lockstep K ts0 g" "env_ok ops K env" "ge_view env = view" "quiet env"
  shows "\<exists>j g'. gen_loop env i g = Some (j, g') \<and> plain_loop env ideal i (obs kind g) = Some (obs kind g') \<and> removable g'"
  using assms(1)
proof (induction "nat (ge_n_ctx env - co_n_past (gn_core g))" arbitrary: i g rule: less_induct)
  case less
  note step = gen_iter_refines [OF less.prems assms(2-4), of i]
  show ?case
  proof (cases "gen_iter env i g")
    case (Inl g')
    with step show ?thesis by (simp add: gen_loop.simps [of env i] plain_loop.simps [of env ideal i])
  next
    case (Inr g')
    have inv: "loop_inv holds cap K ts0 g" using less.prems by (simp add: lockstep_def)
    from gen_iter_ok [OF inv assms(2), of i] Inr
    have "nat (ge_n_ctx env - co_n_past (gn_core g')) < nat (ge_n_ctx env - co_n_past (gn_core g))" by simp
    with less.hyps [of g' "i + 1"] step Inr show ?thesis
      by (simp add: gen_loop.simps [of env i] plain_loop.simps [of env ideal i])
  qed
qed

lemma generate_plain:
  assumes "holds (co_mem c) (tracker c) 0" "co_n_past c = int (length (tracker c))" "K \<le> cap (co_mem c)"
    and "env_ok ops K env" "ge_view env = view" "quiet env" "\<not> ge_canary_max env > 0"
    and "rows \<noteq> []" "last rows = Some (ideal (kind (co_mem c)) (tracker c))"
  shows "\<exists>r g. generate env wt lc s rows c = Some (r, g)
    \<and> plain_loop env ideal 0 (obs kind (gen_init env wt lc s rows c)) = Some (obs kind g) \<and> r = plain_result (obs kind g)"
proof -
  let ?g0 = "gen_init env wt lc s rows c"
  have "loop_inv holds cap K (tracker c) ?g0"
    using assms(1-3) by (simp add: loop_inv_def gen_init_def flags_init_def spec_init_def top_ok_def round_ok_def kv_rel_def)
  then have "lockstep K (tracker c) ?g0"
    using assms(8,9) by (simp add: lockstep_def row_rel_def row_of_def gen_init_def spec_init_def)
  from gen_loop_refines [OF this assms(4-6)] obtain i g where
    g: "gen_loop env 0 ?g0 = Some (i, g)" "plain_loop env ideal 0 (obs kind ?g0) = Some (obs kind g)" "removable g" by blast
  have o: "obs kind (close_round env i g) = obs kind g"
    by (rule close_quiet) (use assms(4,6) g(3) in \<open>simp_all add: env_ok_def removable_def\<close>)
  have "build_result env h = plain_result (obs kind h)" for h :: "('m, 'a, 'v) gen"
    using assms(7) by (simp add: build_result_def plain_result_def Let_def)
  with g(1,2) o show ?thesis by (simp add: generate_def Let_def)
qed

end

lemma plain_step_draft: "plain_step (env\<lparr>ge_draft := d\<rparr>) = plain_step env"
proof -
  have p: "eog_polls (env\<lparr>ge_draft := d\<rparr>) i v j n s = eog_polls env i v j n s" for i v j n s
    by (induction n arbitrary: j s) (simp_all cong: if_cong)
  have r: "poll_row (env\<lparr>ge_draft := d\<rparr>) = poll_row env"
    by (intro ext) (simp add: poll_row_def p case_prod_beta cong: if_cong)
  have top: "plain_top (env\<lparr>ge_draft := d\<rparr>) = plain_top env"
    by (intro ext) (simp add: plain_top_def plain_context_def Let_def cong: if_cong)
  have eog: "plain_eog (env\<lparr>ge_draft := d\<rparr>) = plain_eog env"
    by (intro ext) (simp add: plain_eog_def r Let_def cong: if_cong option.case_cong)
  have "plain_take (env\<lparr>ge_draft := d\<rparr>) = plain_take env"
    by (intro ext) (simp add: plain_take_def plain_think_def plain_call_def Let_def cong: if_cong text_outcome.case_cong)
  then show ?thesis by (intro ext) (simp add: plain_step_def top eog)
qed

lemma plain_loop_draft:
  fixes env :: "('m, 's, 'v) gen_env"
  assumes "plain_loop env ideal i ob = Some ob'"
  shows "plain_loop (env\<lparr>ge_draft := d\<rparr>) ideal i ob = Some ob'"
proof (rule plain_loop.raw_induct [where P = "\<lambda>e ideal i ob ob'. plain_loop (e\<lparr>ge_draft := d\<rparr>) ideal i ob = Some ob'", OF _ assms])
  fix pl and e :: "('m, 's, 'v) gen_env" and ideal :: "bool \<Rightarrow> token list \<Rightarrow> 'v" and i ob and ob' :: "'s obs"
  assume "\<And>e ideal i ob ob'. pl e ideal i ob = Some ob' \<Longrightarrow> plain_loop (e\<lparr>ge_draft := d\<rparr>) ideal i ob = Some ob'"
    and "(case plain_step e ideal i ob of Inl ob' \<Rightarrow> Some ob' | Inr ob' \<Rightarrow> pl e ideal (i + 1) ob') = Some ob'"
  then show "plain_loop (e\<lparr>ge_draft := d\<rparr>) ideal i ob = Some ob'"
    by (subst plain_loop.simps) (simp add: plain_step_draft split: sum.splits)
qed

section \<open>Properties\<close>

text \<open>C1: Lossless speculation. When no decode fails, a generation with any drafts is plain generation: the
  result, the tokens and the state of the sampler are those of sampling one token after the other from
  the logits of all tokens so far.\<close>

theorem generate_refines_plain:
  assumes "mem_window (co_mem c) (tracker c) 0" "co_n_past c = int (length (tracker c))" "K \<le> mem_cap (co_mem c)"
    and "env_ok memory_ops K env" "ge_view env = mem_view" "quiet env" "\<not> ge_canary_max env > 0"
    and "rows \<noteq> []" "last rows = Some (ideal_view (mem_recurrent (co_mem c)) (tracker c))"
  shows "\<exists>r g. generate env was_mid_think last_context smpl rows c = Some (r, g)
    \<and> plain_loop env ideal_view 0 (obs mem_recurrent (gen_init env was_mid_think last_context smpl rows c))
        = Some (obs mem_recurrent g)
    \<and> r = plain_result (obs mem_recurrent g)"
  by (rule win.generate_plain [OF assms])

text \<open>C2: Two drafting heads, and so a head and none, give the same generation.\<close>

theorem drafts_do_not_matter:
  assumes "mem_window (co_mem c) (tracker c) 0" "co_n_past c = int (length (tracker c))" "K \<le> mem_cap (co_mem c)"
    and "env_ok memory_ops K env" "\<forall>i. length (d i) \<le> Suc K" "ge_view env = mem_view" "quiet env"
    and "\<not> ge_canary_max env > 0" "rows \<noteq> []" "last rows = Some (ideal_view (mem_recurrent (co_mem c)) (tracker c))"
  shows "\<exists>r g g'. generate env was_mid_think last_context smpl rows c = Some (r, g)
    \<and> generate (env\<lparr>ge_draft := d\<rparr>) was_mid_think last_context smpl rows c = Some (r, g')
    \<and> obs mem_recurrent g' = obs mem_recurrent g"
proof -
  let ?e = "env\<lparr>ge_draft := d\<rparr>"
  obtain r g where g: "generate env was_mid_think last_context smpl rows c = Some (r, g)"
    "plain_loop env ideal_view 0 (obs mem_recurrent (gen_init env was_mid_think last_context smpl rows c)) = Some (obs mem_recurrent g)"
    "r = plain_result (obs mem_recurrent g)"
    using win.generate_plain [OF assms(1-4,6-10)] by blast
  have "env_ok memory_ops K ?e" "ge_view ?e = mem_view" "quiet ?e" "\<not> ge_canary_max ?e > 0"
    using assms(4-8) by (simp_all add: env_ok_def quiet_def)
  from win.generate_plain [OF assms(1-3) this assms(9,10)] obtain r' g' where
    g': "generate ?e was_mid_think last_context smpl rows c = Some (r', g')"
    "plain_loop ?e ideal_view 0 (obs mem_recurrent (gen_init ?e was_mid_think last_context smpl rows c)) = Some (obs mem_recurrent g')"
    "r' = plain_result (obs mem_recurrent g')" by blast
  have "gen_init ?e was_mid_think last_context smpl rows c = gen_init env was_mid_think last_context smpl rows c"
    by (simp add: gen_init_def)
  with plain_loop_draft [OF g(2), of d] g'(2) have "obs mem_recurrent g' = obs mem_recurrent g" by simp
  with g g' show ?thesis by simp
qed

definition ex_rows :: "view option list" where
  "ex_rows = [Some (ideal_view True [1, 2])]"

lemma ex_lossless:
  "co_n_past (ex_spec_core 2) = int (length (tracker (ex_spec_core 2)))" "2 \<le> mem_cap (co_mem (ex_spec_core 2))"
  "ge_view (ex_gen_env script d) = mem_view" "quiet (ex_gen_env script d)" "\<not> ge_canary_max (ex_gen_env script d) > 0"
  "ex_rows \<noteq> []" "last ex_rows = Some (ideal_view (mem_recurrent (co_mem (ex_spec_core 2))) (tracker (ex_spec_core 2)))"
proof -
  show "co_n_past (ex_spec_core 2) = int (length (tracker (ex_spec_core 2)))" "2 \<le> mem_cap (co_mem (ex_spec_core 2))"
    "last ex_rows = Some (ideal_view (mem_recurrent (co_mem (ex_spec_core 2))) (tracker (ex_spec_core 2)))"
    by code_simp+
qed (simp_all add: ex_gen_env_def quiet_def ex_rows_def)

lemma generate_refines_plain_witness:
  "\<exists>r g. generate (ex_gen_env [5, 6, 7, 9] ex_draft) False 0 0 ex_rows (ex_spec_core 2) = Some (r, g)
    \<and> plain_loop (ex_gen_env [5, 6, 7, 9] ex_draft) ideal_view 0
        (obs mem_recurrent (gen_init (ex_gen_env [5, 6, 7, 9] ex_draft) False 0 0 ex_rows (ex_spec_core 2))) = Some (obs mem_recurrent g)
    \<and> r = plain_result (obs mem_recurrent g)"
  by (rule generate_refines_plain [OF ex_window ex_lossless(1,2) ex_env_ok ex_lossless(3-7)])

lemma drafts_do_not_matter_witness:
  "\<exists>r g g'. generate (ex_gen_env [5, 6, 7, 9] ex_draft) False 0 0 ex_rows (ex_spec_core 2) = Some (r, g)
    \<and> generate ((ex_gen_env [5, 6, 7, 9] ex_draft)\<lparr>ge_draft := (\<lambda>_. [])\<rparr>) False 0 0 ex_rows (ex_spec_core 2) = Some (r, g')
    \<and> obs mem_recurrent g' = obs mem_recurrent g"
  by (rule drafts_do_not_matter [OF ex_window ex_lossless(1,2) ex_env_ok _ ex_lossless(3-7)]) simp

end
