(* ===== verification/Lim_Mtp.thy ===== *)
theory Lim_Mtp
  imports Lim_Generator
begin

section \<open>The draft head (mtp.cc)\<close>

text \<open>
  The speculator keeps a mirror of the context in a second, attention-only memory: the cell at position \<open>p\<close>
  holds the token there and the hidden state of the main model's row before it. Hidden states and
  what the head computes from them are parameters; so are the answers of \<open>llama_decode\<close> on the draft
  context. Vectors of the model's width are one value each, so the size checks of the code hold by
  construction. Messages and the sizing estimate are left out.
\<close>

subsection \<open>State\<close>

type_synonym 'h cell = "int \<times> token \<times> 'h"

record 'h mtp =
  mp_cells :: "'h cell list"
  mp_mirror_pos :: int
  mp_last_token :: token
  mp_origin :: bool
  mp_origin_row :: nat
  mp_pending_h :: 'h
  mp_h_last :: 'h
  mp_last_embd :: 'h
  mp_valid :: bool
  mp_warned :: bool
  mp_kv_exhausted :: bool

record mtp_stats =
  ms_rounds :: nat
  ms_drafted :: nat
  ms_origin_match :: nat
  ms_origin_mismatch :: nat
  ms_verify_match :: nat
  ms_verify_mismatch :: nat
  ms_bonus :: nat
  ms_aborted :: nat
  ms_committed :: int
  ms_trailing_committed :: int
  ms_trailing_rounds :: nat
  ms_low_streak :: nat

definition cells_max :: "'h cell list \<Rightarrow> int" where
  "cells_max cs = fold (\<lambda>c a. max a (fst c)) cs (- 1)"

definition cells_rm :: "int \<Rightarrow> 'h cell list \<Rightarrow> 'h cell list" where
  "cells_rm p cs = filter (\<lambda>c. fst c < p) cs"

subsection \<open>Creation\<close>

text \<open>The checks before the draft context is made: the length of the drafts, or none.\<close>

definition create_draft_len :: "int \<Rightarrow> nat \<Rightarrow> int \<Rightarrow> int \<Rightarrow> int option" where
  "create_draft_len n_layer_nextn n_rs_seq n_embd draft_len =
     (if n_layer_nextn < 1 then None
      else if n_rs_seq < 1 then None
      else let draft_len = max 1 (min 32 draft_len) in
        if draft_len > int n_rs_seq then None
        else if n_embd \<le> 0 then None
        else Some draft_len)"

definition create_batch :: "nat \<Rightarrow> nat \<Rightarrow> nat" where
  "create_batch n_batch draft_batch = min n_batch draft_batch"

definition stats_init :: mtp_stats where
  "stats_init = \<lparr>ms_rounds = 0, ms_drafted = 0, ms_origin_match = 0, ms_origin_mismatch = 0, ms_verify_match = 0,
     ms_verify_mismatch = 0, ms_bonus = 0, ms_aborted = 0, ms_committed = 0, ms_trailing_committed = 0,
     ms_trailing_rounds = 0, ms_low_streak = 0\<rparr>"

definition mtp_init :: "'h \<Rightarrow> 'h mtp" where
  "mtp_init zero = \<lparr>mp_cells = [], mp_mirror_pos = - 1, mp_last_token = 0, mp_origin = False, mp_origin_row = 0,
     mp_pending_h = zero, mp_h_last = zero, mp_last_embd = zero, mp_valid = True, mp_warned = False,
     mp_kv_exhausted = False\<rparr>"

subsection \<open>Switching off and on\<close>

definition invalidate :: "'h mtp \<Rightarrow> 'h mtp" where
  "invalidate s = (if \<not> mp_valid s then s else s\<lparr>mp_valid := False, mp_warned := True\<rparr>)"

definition invalidate_kv_exhausted :: "'h mtp \<Rightarrow> 'h mtp" where
  "invalidate_kv_exhausted s = (if \<not> mp_valid s then s else invalidate (s\<lparr>mp_kv_exhausted := True\<rparr>))"

definition rearm_if_kv_exhausted :: "int \<Rightarrow> 'h mtp \<Rightarrow> bool \<times> 'h mtp" where
  "rearm_if_kv_exhausted undo_n_past s =
     (if mp_valid s \<or> \<not> mp_kv_exhausted s \<or> undo_n_past > mp_mirror_pos s + 1 then (False, s)
      else (True, s\<lparr>mp_kv_exhausted := False, mp_valid := True, mp_warned := False\<rparr>))"

definition mtp_clear :: "'h \<Rightarrow> 'h mtp \<Rightarrow> 'h mtp" where
  "mtp_clear zero s = s\<lparr>mp_cells := [], mp_mirror_pos := - 1, mp_origin := False, mp_origin_row := 0,
     mp_pending_h := zero, mp_h_last := zero, mp_last_embd := zero, mp_valid := True, mp_warned := False,
     mp_kv_exhausted := False\<rparr>"

text \<open>The cells have been read from a cache file.\<close>

definition on_mirror_loaded :: "'h cell list \<Rightarrow> 'h mtp \<Rightarrow> 'h mtp" where
  "on_mirror_loaded cells s = s\<lparr>mp_cells := cells, mp_mirror_pos := cells_max cells, mp_origin := False,
     mp_origin_row := 0, mp_valid := True, mp_warned := False, mp_kv_exhausted := False\<rparr>"

definition can_draft :: "'h mtp \<Rightarrow> bool" where
  "can_draft s \<longleftrightarrow> mp_valid s \<and> mp_origin s \<and> mp_mirror_pos s \<ge> 0"

subsection \<open>The mirror hook\<close>

text \<open>The rows of a batch with the hidden state each cell gets: that of the row before, for the first row the
  one kept from the batch before.\<close>

definition mirror_rows :: "(token \<times> int) list \<Rightarrow> 'h list \<Rightarrow> 'h \<Rightarrow> 'h cell list" where
  "mirror_rows batch hs pending =
     map (\<lambda>g. (snd (batch ! g), fst (batch ! g), if g = 0 then pending else hs ! (g - 1))) [0..<length batch]"

text \<open>The answer of a decode of the draft context, and how much of a failed batch it kept. A batch of no
  rows is refused.\<close>

function mirror_chunks :: "nat \<Rightarrow> (nat \<Rightarrow> int \<times> nat) \<Rightarrow> nat \<Rightarrow> 'h cell list \<Rightarrow> 'h cell list
    \<Rightarrow> bool \<times> nat \<times> 'h cell list" where
  "mirror_chunks n_batch ans j rest cells =
     (if rest = [] then (True, 0, cells)
      else if n_batch = 0 then (False, 0, cells)
      else let chunk = take n_batch rest; (rc, kept) = ans j in
        if rc \<noteq> 0 then (False, 0, cells @ take kept chunk)
        else if drop n_batch rest = [] then (True, length chunk - 1, cells @ chunk)
        else mirror_chunks n_batch ans (j + 1) (drop n_batch rest) (cells @ chunk))"
  by pat_completeness auto
termination by (relation "measure (\<lambda>(_, _, _, rest, _). length rest)") auto

declare mirror_chunks.simps [simp del]

record 'h mirror_env =
  me_hidden :: "'h list option"
  me_seq_rm :: bool
  me_answer :: "nat \<Rightarrow> int \<times> nat"
  me_head :: "'h option"

text \<open>The guard: a batch that starts at or before the newest mirrored position first removes the rows from
  there on.\<close>

definition mirror_guard :: "'h mirror_env \<Rightarrow> (token \<times> int) list \<Rightarrow> 'h cell list \<Rightarrow> 'h cell list option" where
  "mirror_guard me batch cells =
     (let min_pos = fold (\<lambda>r a. min a (snd r)) (tl batch) (snd (hd batch)) in
      if min_pos \<le> cells_max cells then (if me_seq_rm me then Some (cells_rm min_pos cells) else None)
      else Some cells)"

definition mirror_process :: "nat \<Rightarrow> 'h mirror_env \<Rightarrow> (token \<times> int) list \<Rightarrow> 'h mtp \<Rightarrow> 'h mtp" where
  "mirror_process n_batch me batch s =
     (if \<not> mp_valid s \<or> batch = [] then s
      else case me_hidden me of
        None \<Rightarrow> invalidate s
      | Some hs \<Rightarrow>
          (case mirror_guard me batch (mp_cells s) of
             None \<Rightarrow> invalidate s
           | Some cells \<Rightarrow>
               (let (ok, row, cells) = mirror_chunks n_batch (me_answer me) 0
                      (mirror_rows batch hs (mp_pending_h s)) cells;
                    s = s\<lparr>mp_cells := cells, mp_origin := False\<rparr>;
                    n = length batch
                in if \<not> ok then invalidate s
                   else s\<lparr>mp_origin := True, mp_origin_row := row,
                       mp_h_last := (case me_head me of Some h \<Rightarrow> h | None \<Rightarrow> mp_h_last s),
                       mp_last_embd := (if n \<ge> 2 then hs ! (n - 2) else mp_pending_h s),
                       mp_pending_h := hs ! (n - 1),
                       mp_mirror_pos := snd (batch ! (n - 1)), mp_last_token := fst (batch ! (n - 1))\<rparr>)))"

subsection \<open>Drafting\<close>

text \<open>What the head answers: the token sampled from the row of the last main token and its hidden state, then
  for each chained row the answer of its decode, the token and the hidden state (\<^const>\<open>None\<close> is the null token or pointer).\<close>

record 'h head_env =
  he_first :: "token option"
  he_first_h :: "'h option"
  he_redecode :: int
  he_rc :: "nat \<Rightarrow> int"
  he_token :: "nat \<Rightarrow> token option"
  he_hidden :: "nat \<Rightarrow> 'h option"

fun draft_chain :: "'h head_env \<Rightarrow> nat \<Rightarrow> nat \<Rightarrow> token \<Rightarrow> 'h \<Rightarrow> int \<Rightarrow> token list \<Rightarrow> 'h cell list
    \<Rightarrow> token list option \<times> 'h cell list" where
  "draft_chain he 0 j d h pos out cells = (Some out, cells)"
| "draft_chain he (Suc n) j d h pos out cells =
     (if he_rc he j \<noteq> 0 then (None, cells)
      else let cells = cells @ [(pos, d, h)] in
        case (he_token he j, he_hidden he j) of
          (Some d2, Some h2) \<Rightarrow> draft_chain he n (j + 1) d2 h2 (pos + 1) (out @ [d2]) cells
        | _ \<Rightarrow> (None, cells))"

definition mtp_draft :: "nat \<Rightarrow> 'h head_env \<Rightarrow> 'h mtp \<times> mtp_stats \<Rightarrow> token list \<times> 'h mtp \<times> mtp_stats" where
  "mtp_draft draft_len he st =
     (let (s, ms) = st in
      if \<not> can_draft s then ([], s, ms)
      else if \<not> mp_origin s \<and> he_redecode he \<noteq> 0 then ([], invalidate s, ms)
      else case (he_first he, he_first_h he) of
        (Some d, Some h) \<Rightarrow>
          (case draft_chain he (draft_len - 1) 0 d h (mp_mirror_pos s + 1) [d] (mp_cells s) of
             (None, cells) \<Rightarrow> ([], invalidate (s\<lparr>mp_cells := cells\<rparr>), ms)
           | (Some out, cells) \<Rightarrow> (out, s\<lparr>mp_cells := cells\<rparr>,
               ms\<lparr>ms_rounds := ms_rounds ms + 1, ms_drafted := ms_drafted ms + length out\<rparr>))
      | _ \<Rightarrow> ([], invalidate s, ms))"

subsection \<open>The rounds\<close>

definition ADAPT_WINDOW :: nat where "ADAPT_WINDOW = 32"
definition ADAPT_STREAK :: nat where "ADAPT_STREAK = 2"

text \<open>\<open>avg < ADAPT_MIN\<close> with \<open>ADAPT_MIN = 1.25\<close>: the division by 32 and the comparison are exact in doubles.\<close>

definition low_window :: "int \<Rightarrow> bool" where
  "low_window committed \<longleftrightarrow> 4 * committed < 5 * int ADAPT_WINDOW"

definition note_round :: "int \<Rightarrow> 'h mtp \<times> mtp_stats \<Rightarrow> 'h mtp \<times> mtp_stats" where
  "note_round committed st =
     (let (s, ms) = st;
          ms = ms\<lparr>ms_committed := ms_committed ms + committed,
            ms_trailing_committed := ms_trailing_committed ms + committed,
            ms_trailing_rounds := ms_trailing_rounds ms + 1\<rparr>
      in if ms_trailing_rounds ms \<ge> ADAPT_WINDOW then
           (let low = low_window (ms_trailing_committed ms);
                ms = ms\<lparr>ms_trailing_committed := 0, ms_trailing_rounds := 0,
                  ms_low_streak := (if low then ms_low_streak ms + 1 else 0)\<rparr>
            in (if low \<and> ms_low_streak ms \<ge> ADAPT_STREAK then invalidate s else s, ms))
         else (s, ms))"

definition mtp_event :: "mtp_call \<Rightarrow> 'h mtp \<times> mtp_stats \<Rightarrow> 'h mtp \<times> mtp_stats" where
  "mtp_event e st =
     (let (s, ms) = st in
      case e of
        On_Origin_Match \<Rightarrow> (s, ms\<lparr>ms_origin_match := ms_origin_match ms + 1\<rparr>)
      | On_Origin_Mismatch \<Rightarrow> (s, ms\<lparr>ms_origin_mismatch := ms_origin_mismatch ms + 1\<rparr>)
      | On_Verify_Match \<Rightarrow> (s, ms\<lparr>ms_verify_match := ms_verify_match ms + 1\<rparr>)
      | On_Verify_Mismatch i \<Rightarrow> (s, ms)
      | On_Bonus \<Rightarrow> (s, ms\<lparr>ms_bonus := ms_bonus ms + 1\<rparr>)
      | On_Abort c r \<Rightarrow> (s, ms\<lparr>ms_aborted := ms_aborted ms + 1\<rparr>)
      | Note_Round c \<Rightarrow> note_round (int c) (s, ms))"

definition reset_stats :: "mtp_stats \<Rightarrow> mtp_stats" where
  "reset_stats ms = stats_init"

text \<open>What \<open>handle_llama_decode_error\<close> asks of the mirror after a decode of the main context.\<close>

definition mirror_hook :: "nat \<Rightarrow> 'h mirror_env \<Rightarrow> (token \<times> int) list \<Rightarrow> mirror_action \<Rightarrow> 'h mtp \<Rightarrow> 'h mtp" where
  "mirror_hook n_batch me batch act s =
     (case act of
        Mirror_Process \<Rightarrow> mirror_process n_batch me batch s
      | Mirror_Invalidate \<Rightarrow> invalidate_kv_exhausted s
      | Mirror_None \<Rightarrow> s)"

section \<open>The mirror follows the context\<close>

text \<open>\<open>hid ts\<close> is the hidden state of the last row of \<open>ts\<close>, the zero vector for no row. The first cells are
  those of the context; at the positions in \<open>bad\<close> the hidden state may be another one. What comes after
  are stale rows of drafts and of removed tokens.\<close>

definition mirrors :: "(token list \<Rightarrow> 'h) \<Rightarrow> token list \<Rightarrow> nat set \<Rightarrow> 'h cell list \<Rightarrow> bool" where
  "mirrors hid ts bad cells \<longleftrightarrow>
     length ts \<le> length cells
     \<and> (\<forall>p < length ts. fst (cells ! p) = int p \<and> fst (snd (cells ! p)) = ts ! p
          \<and> (p \<notin> bad \<longrightarrow> snd (snd (cells ! p)) = hid (take p ts)))
     \<and> (\<forall>c \<in> set (drop (length ts) cells). int (length ts) \<le> fst c)"

definition batch_at :: "nat \<Rightarrow> token list \<Rightarrow> (token \<times> int) list" where
  "batch_at p us = map (\<lambda>i. (us ! i, int (p + i))) [0..<length us]"

definition hidden_rows :: "(token list \<Rightarrow> 'h) \<Rightarrow> token list \<Rightarrow> token list \<Rightarrow> 'h list" where
  "hidden_rows hid ts us = map (\<lambda>i. hid (ts @ take (i + 1) us)) [0..<length us]"

lemma mirror_chunks_ok: "mirror_chunks nb ans j rest cells = (True, row, cells') \<Longrightarrow> cells' = cells @ rest"
proof (induction nb ans j rest cells rule: mirror_chunks.induct)
  case (1 nb ans j rest cells)
  obtain rc kept where a: "ans j = (rc, kept)" by fastforce
  show ?case
  proof (cases "rest = [] \<or> nb = 0 \<or> rc \<noteq> 0")
    case True
    then show ?thesis using 1(2) a by (simp add: mirror_chunks.simps [of nb ans j rest] Let_def split: if_splits)
  next
    case False
    show ?thesis
    proof (cases "drop nb rest = []")
      case True
      then show ?thesis using 1(2) a False by (simp add: mirror_chunks.simps [of nb ans j rest] Let_def)
    next
      case drop: False
      have "mirror_chunks nb ans (j + 1) (drop nb rest) (cells @ take nb rest) = (True, row, cells')"
        using 1(2) a False drop by (simp add: mirror_chunks.simps [of nb ans j rest] Let_def)
      with 1(1) [OF _ _ refl a [symmetric] refl _ drop] False have "cells' = (cells @ take nb rest) @ drop nb rest" by simp
      then show ?thesis by simp
    qed
  qed
qed

lemma mirror_chunks_quiet:
  assumes "0 < nb" "\<forall>j. fst (ans j) = 0"
  shows "fst (mirror_chunks nb ans j rest cells)"
  using assms
proof (induction nb ans j rest cells rule: mirror_chunks.induct)
  case (1 nb ans j rest cells)
  obtain rc kept where a: "ans j = (rc, kept)" by fastforce
  with 1(3) have "rc = 0" by (metis fst_conv)
  with 1 a show ?case by (simp add: mirror_chunks.simps [of nb ans j rest] Let_def)
qed

lemma cells_max_bound: "(\<forall>c \<in> set cs. fst c < p) \<Longrightarrow> 0 \<le> p \<Longrightarrow> cells_max cs < p"
proof -
  have "fold (\<lambda>c a. max a (fst c)) cs a < p" if "\<forall>c \<in> set cs. fst c < p" "a < p" for a
    using that by (induction cs arbitrary: a) auto
  then show "(\<forall>c \<in> set cs. fst c < p) \<Longrightarrow> 0 \<le> p \<Longrightarrow> cells_max cs < p" by (simp add: cells_max_def)
qed

lemma cells_max_ge: "c \<in> set cs \<Longrightarrow> fst c \<le> cells_max cs"
proof -
  have mono: "a \<le> fold (\<lambda>c a. max a (fst c)) cs a" for a and cs :: "'a cell list"
  proof (induction cs arbitrary: a)
    case (Cons x cs)
    from Cons.IH [of "max a (fst x)"] show ?case by simp
  qed simp
  have "fst c \<le> fold (\<lambda>c a. max a (fst c)) cs a" if "c \<in> set cs" for a
    using that
  proof (induction cs arbitrary: a)
    case (Cons x cs)
    show ?case
    proof (cases "c = x")
      case True
      then show ?thesis using mono [of "max a (fst x)" cs] by simp
    next
      case False
      then show ?thesis using Cons by simp
    qed
  qed simp
  then show "c \<in> set cs \<Longrightarrow> fst c \<le> cells_max cs" by (simp add: cells_max_def)
qed

lemma guard_cells:
  assumes "mirrors hid ts bad cells" "us \<noteq> []" "mirror_guard me (batch_at (length ts) us) cells = Some cells'"
  shows "cells' = take (length ts) cells"
proof -
  let ?b = "batch_at (length ts) us"
  have b: "snd (hd ?b) = int (length ts)" using assms(2) by (simp add: batch_at_def hd_map)
  have f: "fold (\<lambda>r a. min a (snd r)) rs a = a" if "\<forall>r \<in> set rs. a \<le> snd r" for rs :: "(token \<times> int) list" and a
    using that by (induction rs) (simp_all add: min_def)
  have "\<forall>r \<in> set ?b. int (length ts) \<le> snd r" by (auto simp: batch_at_def)
  then have "\<forall>r \<in> set (tl ?b). int (length ts) \<le> snd r" by (cases ?b) simp_all
  from f [OF this] have m: "fold (\<lambda>r a. min a (snd r)) (tl ?b) (snd (hd ?b)) = int (length ts)" by (simp add: b)
  have pre: "fst c < int (length ts)" if "c \<in> set (take (length ts) cells)" for c
    using that assms(1) by (auto simp: mirrors_def in_set_conv_nth)
  have post: "int (length ts) \<le> fst c" if "c \<in> set (drop (length ts) cells)" for c
    using that assms(1) by (simp add: mirrors_def)
  show ?thesis
  proof (cases "int (length ts) \<le> cells_max cells")
    case True
    then have "cells' = cells_rm (int (length ts)) cells"
      using assms(3) m by (simp add: mirror_guard_def Let_def split: if_splits)
    also have "\<dots> = cells_rm (int (length ts)) (take (length ts) cells @ drop (length ts) cells)" by simp
    also have "\<dots> = take (length ts) cells"
      unfolding cells_rm_def filter_append using pre post by (simp add: filter_empty_conv not_less)
    finally show ?thesis .
  next
    case False
    then have "cells' = cells" using assms(3) m by (simp add: mirror_guard_def Let_def)
    moreover have "drop (length ts) cells = []"
    proof (rule ccontr)
      assume "drop (length ts) cells \<noteq> []"
      then obtain c where c: "c \<in> set (drop (length ts) cells)" using hd_in_set by blast
      then have "c \<in> set cells" by (rule in_set_dropD)
      from cells_max_ge [OF this] post [OF c] False show False by simp
    qed
    ultimately show ?thesis by simp
  qed
qed

lemma process_mirrors:
  assumes "mirrors hid ts bad (mp_cells s)" "us \<noteq> []" "mp_valid s"
    and "s' = mirror_process nb me (batch_at (length ts) us) s" "mp_valid s'"
    and "me_hidden me = Some (hidden_rows hid ts us)"
  shows "mirrors hid (ts @ us) (if mp_pending_h s = hid ts then bad else insert (length ts) bad) (mp_cells s')"
    "mp_pending_h s' = hid (ts @ us)" "mp_mirror_pos s' = int (length (ts @ us)) - 1" "can_draft s'"
proof -
  let ?b = "batch_at (length ts) us" and ?hs = "hidden_rows hid ts us"
  have bl: "length ?b = length us" "?b \<noteq> []" using assms(2) by (auto simp: batch_at_def)
  obtain cells where g: "mirror_guard me ?b (mp_cells s) = Some cells"
    using assms(3-6) bl by (cases "mirror_guard me ?b (mp_cells s)") (simp_all add: mirror_process_def invalidate_def)
  have cells: "cells = take (length ts) (mp_cells s)" by (rule guard_cells [OF assms(1,2) g])
  let ?rows = "mirror_rows ?b ?hs (mp_pending_h s)"
  obtain ok row cells' where c: "mirror_chunks nb (me_answer me) 0 ?rows cells = (ok, row, cells')" by (metis prod_cases3)
  have ok: "ok" using assms(3-6) g bl c by (auto simp: mirror_process_def Let_def invalidate_def split: if_splits)
  from c ok have "mirror_chunks nb (me_answer me) 0 ?rows cells = (True, row, cells')" by simp
  from mirror_chunks_ok [OF this] have cells': "cells' = cells @ ?rows" .
  let ?n = "length us"
  have s': "mp_cells s' = cells @ ?rows" "mp_pending_h s' = ?hs ! (?n - 1)" "mp_mirror_pos s' = snd (?b ! (?n - 1))"
    "mp_valid s'" "mp_origin s'"
    using assms(3-6) g bl c ok cells' by (simp_all add: mirror_process_def Let_def)
  have n: "?n - 1 < ?n" using assms(2) by simp
  then show "mp_pending_h s' = hid (ts @ us)" using s'(2) by (simp add: hidden_rows_def)
  show p: "mp_mirror_pos s' = int (length (ts @ us)) - 1" using s'(3) n by (simp add: batch_at_def)
  with n s'(4,5) show "can_draft s'" by (simp add: can_draft_def)
  have rows: "length ?rows = ?n" by (simp add: mirror_rows_def bl)
  have lc: "length cells = length ts" using cells assms(1) by (simp add: mirrors_def)
  have old: "fst (cells ! q) = int q \<and> fst (snd (cells ! q)) = ts ! q \<and> (q \<notin> bad \<longrightarrow> snd (snd (cells ! q)) = hid (take q ts))"
    if "q < length ts" for q using that assms(1) cells by (simp add: mirrors_def)
  have new: "fst (?rows ! i) = int (length ts + i) \<and> fst (snd (?rows ! i)) = us ! i
      \<and> (i = 0 \<longrightarrow> snd (snd (?rows ! i)) = mp_pending_h s)
      \<and> (0 < i \<longrightarrow> snd (snd (?rows ! i)) = hid (ts @ take i us))" if "i < ?n" for i
    using that by (cases i) (simp_all add: mirror_rows_def batch_at_def hidden_rows_def bl)
  let ?bad = "if mp_pending_h s = hid ts then bad else insert (length ts) bad"
  have all: "fst (mp_cells s' ! q) = int q \<and> fst (snd (mp_cells s' ! q)) = (ts @ us) ! q
      \<and> (q \<notin> ?bad \<longrightarrow> snd (snd (mp_cells s' ! q)) = hid (take q (ts @ us)))" if q: "q < length (ts @ us)" for q
  proof (cases "q < length ts")
    case True
    then show ?thesis using old [OF True] lc unfolding s'(1) by (simp add: nth_append)
  next
    case False
    then obtain i where i: "q = length ts + i" "i < ?n" using q by (metis add.commute length_append less_diff_conv2 le_add_diff_inverse linorder_not_less)
    then show ?thesis using new [OF i(2)] lc unfolding s'(1) by (cases "i = 0") (simp_all add: nth_append)
  qed
  show "mirrors hid (ts @ us) ?bad (mp_cells s')"
    unfolding mirrors_def using all lc rows by (simp add: s'(1))
qed

subsection \<open>Steps of a run\<close>

lemma mirrors_take: "mirrors hid ts bad cells \<Longrightarrow> n \<le> length ts \<Longrightarrow> mirrors hid (take n ts) (bad \<inter> {..<n}) cells"
proof -
  assume m: "mirrors hid ts bad cells" and n: "n \<le> length ts"
  have "int n \<le> fst c" if c: "c \<in> set (drop n cells)" for c
  proof -
    obtain i where i: "c = cells ! i" "n \<le> i" "i < length cells"
      using c by (auto simp: in_set_conv_nth)
    show ?thesis
    proof (cases "i < length ts")
      case True
      then show ?thesis using m i by (simp add: mirrors_def)
    next
      case False
      then have "c \<in> set (drop (length ts) cells)" using i by (auto simp: in_set_conv_nth intro!: exI [of _ "i - length ts"])
      then show ?thesis using m n by (fastforce simp: mirrors_def)
    qed
  qed
  with m n show ?thesis by (auto simp: mirrors_def min_def)
qed

lemma chain_cells:
  assumes "draft_chain he n j d h pos out cells = (res, cells')"
  obtains new where "cells' = cells @ new" "\<forall>c \<in> set new. pos \<le> fst c"
    "\<forall>out'. res = Some out' \<longrightarrow> length out' = length out + n"
  using assms
proof (induction n arbitrary: j d h pos out cells thesis)
  case (Suc n)
  show ?case
  proof (cases "he_rc he j = 0 \<and> (\<exists>d2 h2. he_token he j = Some d2 \<and> he_hidden he j = Some h2)")
    case True
    then obtain d2 h2 where d2: "he_token he j = Some d2" "he_hidden he j = Some h2" by blast
    with True Suc.prems(2) have r: "draft_chain he n (j + 1) d2 h2 (pos + 1) (out @ [d2]) (cells @ [(pos, d, h)]) = (res, cells')"
      by simp
    obtain new where n: "cells' = (cells @ [(pos, d, h)]) @ new" "\<forall>c \<in> set new. pos + 1 \<le> fst c"
      "\<forall>out'. res = Some out' \<longrightarrow> length out' = length (out @ [d2]) + n"
      by (rule Suc.IH [OF _ r])
    show ?thesis
    proof (rule Suc.prems(1))
      show "cells' = cells @ ((pos, d, h) # new)" using n(1) by simp
      show "\<forall>c \<in> set ((pos, d, h) # new). pos \<le> fst c" using n(2) by fastforce
      show "\<forall>out'. res = Some out' \<longrightarrow> length out' = length out + Suc n" using n(3) by simp
    qed
  next
    case False
    then have "res = None \<and> (cells' = cells \<or> cells' = cells @ [(pos, d, h)])"
      using Suc.prems(2) by (auto simp: Let_def split: if_splits option.splits)
    then show ?thesis using Suc.prems(1) [of "[]"] Suc.prems(1) [of "[(pos, d, h)]"] by auto
  qed
qed auto

lemma draft_keeps:
  assumes "mtp_draft dl he (s, ms) = (out, s', ms')"
  obtains new where "mp_cells s' = mp_cells s @ new" "\<forall>c \<in> set new. mp_mirror_pos s + 1 \<le> fst c"
    "mp_pending_h s' = mp_pending_h s" "mp_mirror_pos s' = mp_mirror_pos s" "mp_valid s' \<longrightarrow> mp_valid s"
    "length out \<le> max 1 dl"
proof -
  have same: "mp_cells (invalidate s) = mp_cells s" "mp_pending_h (invalidate s) = mp_pending_h s"
    "mp_mirror_pos (invalidate s) = mp_mirror_pos s" "\<not> mp_valid (invalidate s)" for s :: "'a mtp"
    by (simp_all add: invalidate_def)
  show thesis
  proof (cases "can_draft s \<and> \<not> (\<not> mp_origin s \<and> he_redecode he \<noteq> 0) \<and> he_first he \<noteq> None \<and> he_first_h he \<noteq> None")
    case False
    then have "out = [] \<and> (s' = s \<or> s' = invalidate s)"
      using assms by (auto simp: mtp_draft_def split: if_splits option.splits)
    then show thesis using that [of "[]"] same by auto
  next
    case True
    then obtain d h where dh: "he_first he = Some d" "he_first_h he = Some h" by blast
    obtain res cells where c: "draft_chain he (dl - 1) 0 d h (mp_mirror_pos s + 1) [d] (mp_cells s) = (res, cells)" by fastforce
    obtain new where n: "cells = mp_cells s @ new" "\<forall>c \<in> set new. mp_mirror_pos s + 1 \<le> fst c"
      "\<forall>out'. res = Some out' \<longrightarrow> length out' = length [d] + (dl - 1)"
      by (rule chain_cells [OF c])
    show thesis
    proof (cases res)
      case None
      then have "out = []" "s' = invalidate (s\<lparr>mp_cells := cells\<rparr>)" using assms True dh c by (auto simp: mtp_draft_def)
      then show thesis using that [of new] n same [of "s\<lparr>mp_cells := cells\<rparr>"] by simp
    next
      case (Some o')
      then have "out = o'" "s' = s\<lparr>mp_cells := cells\<rparr>" using assms True dh c by (auto simp: mtp_draft_def)
      then show thesis using that [of new] n Some by auto
    qed
  qed
qed

lemma mirrors_mono: "mirrors hid ts bad cells \<Longrightarrow> bad \<subseteq> bad' \<Longrightarrow> mirrors hid ts bad' cells"
  by (auto simp: mirrors_def)

text \<open>
  A run: the main context decodes a batch (and the hook runs), drafts are made, the main context is cut
  back without the mirror being told, cleared, replaced together with the cells by a cached session, or an
  exhausted memory switches the head off until the undo that follows switches it on again. Beside the
  mirror's state a run has the tokens of the main context, whether the mirror has seen the last of them
  decoded (\<open>sync\<close>: not after a cut or a load), and the positions that were decoded out of sync. Both
  are told by the steps alone, not by the mirror's state. A decode that fails half-way and keeps rows is no step of a
  run (\<open>abort_leaves_gap\<close>), and neither are decodes between the exhaustion and the undo
  (\<open>rearm_keeps_removed_tokens\<close>).
\<close>

inductive mirror_run :: "(token list \<Rightarrow> 'h) \<Rightarrow> token list \<Rightarrow> nat set \<Rightarrow> bool \<Rightarrow> 'h mtp \<Rightarrow> bool" for hid where
  start: "mirror_run hid [] {} True (mtp_init (hid []))"
| decode: "mirror_run hid ts bad sync s \<Longrightarrow> us \<noteq> [] \<Longrightarrow> me_hidden me = Some (hidden_rows hid ts us) \<Longrightarrow>
    mirror_run hid (ts @ us) (if sync then bad else insert (length ts) bad) True
      (mirror_hook nb me (batch_at (length ts) us) Mirror_Process s)"
| draft: "mirror_run hid ts bad sync s \<Longrightarrow> can_draft s \<longrightarrow> mp_mirror_pos s = int (length ts) - 1 \<Longrightarrow>
    mtp_draft dl he (s, ms) = (out, s', ms') \<Longrightarrow> mirror_run hid ts bad sync s'"
| cut: "mirror_run hid ts bad sync s \<Longrightarrow> n \<le> length ts \<Longrightarrow>
    mirror_run hid (take n ts) (bad \<inter> {..<n}) (sync \<and> n = length ts) s"
| clear: "mirror_run hid ts bad sync s \<Longrightarrow> mirror_run hid [] {} True (mtp_clear (hid []) s)"
| load: "mirror_run hid ts bad sync s \<Longrightarrow> mirror_run hid ts' bad' sync' s' \<Longrightarrow> mp_valid s' \<Longrightarrow>
    mirror_run hid ts' bad' False (on_mirror_loaded (mp_cells s') s)"
| rearm: "mirror_run hid ts bad sync s \<Longrightarrow> mp_valid s \<Longrightarrow> n \<le> length ts \<Longrightarrow>
    mirror_run hid (take n ts) (bad \<inter> {..<n}) (sync \<and> n = length ts)
      (snd (rearm_if_kv_exhausted (int n) (mirror_hook nb me b Mirror_Invalidate s)))"

lemma rearm_keeps:
  "mp_cells (snd (rearm_if_kv_exhausted n (mirror_hook nb me b Mirror_Invalidate s))) = mp_cells s"
  "mp_pending_h (snd (rearm_if_kv_exhausted n (mirror_hook nb me b Mirror_Invalidate s))) = mp_pending_h s"
  by (simp_all add: rearm_if_kv_exhausted_def mirror_hook_def invalidate_kv_exhausted_def invalidate_def)

theorem mirror_run_mirrors:
  "mirror_run hid ts bad sync s \<Longrightarrow> mp_valid s \<Longrightarrow>
     mirrors hid ts bad (mp_cells s) \<and> (sync \<longrightarrow> mp_pending_h s = hid ts)"
proof (induction rule: mirror_run.induct)
  case start
  then show ?case by (simp add: mirrors_def mtp_init_def)
next
  case (decode ts bad sync s us me nb)
  then have v: "mp_valid s" by (auto simp: mirror_hook_def mirror_process_def split: if_splits)
  let ?s = "mirror_process nb me (batch_at (length ts) us) s"
  have v': "mp_valid ?s" using decode.prems by (simp add: mirror_hook_def)
  have m: "mirrors hid ts bad (mp_cells s)" and p: "sync \<longrightarrow> mp_pending_h s = hid ts" using decode.IH [OF v] by simp_all
  note q = process_mirrors [OF m decode.hyps(2) v refl v' decode.hyps(3)]
  have "mirrors hid (ts @ us) (if sync then bad else insert (length ts) bad) (mp_cells ?s)"
    by (rule mirrors_mono [OF q(1)]) (use p in auto)
  with q(2) show ?case by (simp add: mirror_hook_def)
next
  case (draft ts bad sync s dl he ms out s' ms')
  show ?case
  proof (cases "can_draft s")
    case False
    then show ?thesis using draft by (simp add: mtp_draft_def)
  next
    case True
    obtain new where n: "mp_cells s' = mp_cells s @ new" "\<forall>c \<in> set new. mp_mirror_pos s + 1 \<le> fst c"
      "mp_pending_h s' = mp_pending_h s" "mp_mirror_pos s' = mp_mirror_pos s" "mp_valid s' \<longrightarrow> mp_valid s"
      "length out \<le> max 1 dl"
      by (rule draft_keeps [OF draft.hyps(3)])
    then have "mirrors hid ts bad (mp_cells s) \<and> (sync \<longrightarrow> mp_pending_h s = hid ts)" using draft.IH draft.prems by simp
    then show ?thesis using n(1-3) draft.hyps(2) True by (auto simp: mirrors_def nth_append)
  qed
next
  case (cut ts bad sync s n)
  then show ?case using mirrors_take by auto
next
  case (clear ts bad sync s)
  then show ?case by (simp add: mirrors_def mtp_clear_def)
next
  case (load ts bad sync s ts' bad' sync' s')
  then show ?case by (simp add: on_mirror_loaded_def)
next
  case (rearm ts bad sync s n nb me b)
  then show ?case by (auto simp: rearm_keeps mirrors_take)
qed

subsection \<open>When the head switches itself off\<close>

lemma note_round_partial:
  "ms_trailing_rounds ms + length cs < ADAPT_WINDOW \<Longrightarrow>
     fold (\<lambda>c. note_round c) cs (s, ms) = (s, ms\<lparr>ms_committed := ms_committed ms + sum_list cs,
       ms_trailing_committed := ms_trailing_committed ms + sum_list cs,
       ms_trailing_rounds := ms_trailing_rounds ms + length cs\<rparr>)"
  by (induction cs arbitrary: ms) (simp_all add: note_round_def Let_def)

lemma note_round_window:
  assumes "length w = ADAPT_WINDOW" "ms_trailing_rounds ms = 0" "ms_trailing_committed ms = 0"
  shows "fold (\<lambda>c. note_round c) w (s, ms) =
    (if low_window (sum_list w) \<and> ms_low_streak ms \<ge> 1 then invalidate s else s,
     ms\<lparr>ms_committed := ms_committed ms + sum_list w, ms_trailing_committed := 0, ms_trailing_rounds := 0,
       ms_low_streak := if low_window (sum_list w) then ms_low_streak ms + 1 else 0\<rparr>)"
proof -
  have "w \<noteq> []" using assms(1) by (auto simp: ADAPT_WINDOW_def)
  then obtain cs c where w: "w = cs @ [c]" by (metis rev_exhaust)
  then have "ms_trailing_rounds ms + length cs < ADAPT_WINDOW" using assms by (simp add: ADAPT_WINDOW_def)
  from note_round_partial [OF this, of s] show ?thesis
    using assms w by (auto simp: note_round_def Let_def ADAPT_STREAK_def add.assoc)
qed

fun low_pair :: "bool list \<Rightarrow> bool" where
  "low_pair (b # c # bs) = (b \<and> c \<or> low_pair (c # bs))"
| "low_pair _ = False"

lemma note_round_windows:
  assumes "\<forall>w \<in> set ws. length w = ADAPT_WINDOW" "ms_trailing_rounds ms = 0" "ms_trailing_committed ms = 0"
  shows "\<exists>s' ms'. fold (\<lambda>c. note_round c) (concat ws) (s, ms) = (s', ms') \<and> ms_trailing_rounds ms' = 0
    \<and> ms_trailing_committed ms' = 0 \<and> ms_committed ms' = ms_committed ms + sum_list (concat ws)
    \<and> (mp_valid s' \<longleftrightarrow> mp_valid s \<and> \<not> low_pair ((ms_low_streak ms \<ge> 1) # map (\<lambda>w. low_window (sum_list w)) ws))"
  using assms
proof (induction ws arbitrary: s ms)
  case (Cons w ws)
  let ?low = "low_window (sum_list w)"
  let ?s = "if ?low \<and> ms_low_streak ms \<ge> 1 then invalidate s else s"
  let ?ms = "ms\<lparr>ms_committed := ms_committed ms + sum_list w, ms_trailing_committed := 0, ms_trailing_rounds := 0,
       ms_low_streak := if ?low then ms_low_streak ms + 1 else 0\<rparr>"
  have w: "fold (\<lambda>c. note_round c) w (s, ms) = (?s, ?ms)" using Cons.prems by (intro note_round_window) simp_all
  have v: "mp_valid ?s \<longleftrightarrow> mp_valid s \<and> \<not> (?low \<and> ms_low_streak ms \<ge> 1)" by (simp add: invalidate_def)
  obtain s' ms' where i: "fold (\<lambda>c. note_round c) (concat ws) (?s, ?ms) = (s', ms')" "ms_trailing_rounds ms' = 0"
    "ms_trailing_committed ms' = 0" "ms_committed ms' = ms_committed ?ms + sum_list (concat ws)"
    "mp_valid s' \<longleftrightarrow> mp_valid ?s \<and> \<not> low_pair ((ms_low_streak ?ms \<ge> 1) # map (\<lambda>w. low_window (sum_list w)) ws)"
    using Cons.IH [of ?ms ?s] Cons.prems by auto
  then show ?case using w v by (auto split: if_splits)
qed simp

section \<open>Properties\<close>

text \<open>C8: The mirror is positionally one to one with the context: while the head is on, the cell of every
  position of the context holds its token and the hidden state of the row before. Only the first row that
  is decoded after the context was cut back, or after the mirror was loaded from a cache, may hold another
  hidden state. Rejected drafts, undone turns and rollbacks leave rows behind that the next decode
  removes.\<close>

theorem mirror_follows_context:
  assumes "mirror_run hid ts bad sync s" "mp_valid s"
  shows "mirrors hid ts bad (mp_cells s)"
  using mirror_run_mirrors [OF assms] by simp

definition ex_mirror_env :: "token list \<Rightarrow> token list \<Rightarrow> token list mirror_env" where
  "ex_mirror_env ts us = \<lparr>me_hidden = Some (hidden_rows (\<lambda>x. x) ts us), me_seq_rm = True, me_answer = (\<lambda>_. (0, 0)),
     me_head = None\<rparr>"

definition ex_head :: "token list head_env" where
  "ex_head = \<lparr>he_first = Some 4, he_first_h = Some [9], he_redecode = 0, he_rc = (\<lambda>_. 0),
     he_token = (\<lambda>_. Some 5), he_hidden = (\<lambda>_. Some [9])\<rparr>"

text \<open>Three tokens, a draft of two, of which one is cut again, then another token.\<close>

definition ex_mirror1 :: "token list mtp" where
  "ex_mirror1 = mirror_hook 2 (ex_mirror_env [] [1, 2, 3]) (batch_at 0 [1, 2, 3]) Mirror_Process (mtp_init [])"

definition ex_mirror2 :: "token list mtp" where
  "ex_mirror2 = fst (snd (mtp_draft 2 ex_head (ex_mirror1, stats_init)))"

definition ex_mirror3 :: "token list mtp" where
  "ex_mirror3 = mirror_hook 2 (ex_mirror_env [1, 2, 3] [4, 5]) (batch_at 3 [4, 5]) Mirror_Process ex_mirror2"

definition ex_mirror4 :: "token list mtp" where
  "ex_mirror4 = mirror_hook 2 (ex_mirror_env [1, 2, 3, 4] [6]) (batch_at 4 [6]) Mirror_Process ex_mirror3"

text \<open>After the cut the session is cleared, and another token decoded behind the loaded mirror.\<close>

definition ex_mirror5 :: "token list mtp" where
  "ex_mirror5 = mirror_hook 2 (ex_mirror_env [1, 2, 3, 4, 6] [7, 8]) (batch_at 5 [7, 8]) Mirror_Process
     (on_mirror_loaded (mp_cells ex_mirror4) (mtp_clear [] ex_mirror4))"

lemma mirror_decodeI:
  assumes "mirror_run hid ts bad sync s" "us \<noteq> []" "me_hidden me = Some (hidden_rows hid ts us)" "ts' = ts @ us"
    and "s' = mirror_hook nb me (batch_at (length ts) us) Mirror_Process s"
    and "bad' = (if sync then bad else insert (length ts) bad)"
  shows "mirror_run hid ts' bad' True s'"
  unfolding assms(4-6) using assms(1-3) by (rule mirror_run.decode)

lemma mirror_follows_context_witness:
  "mirrors (\<lambda>x. x) [1, 2, 3, 4, 6, 7, 8] {4, 5} (mp_cells ex_mirror5)"
proof -
  have 1: "mirror_run (\<lambda>x. x) [1, 2, 3] {} True ex_mirror1"
    by (rule mirror_decodeI [OF mirror_run.start, where us = "[1, 2, 3]" and me = "ex_mirror_env [] [1, 2, 3]" and nb = 2])
      (simp_all add: ex_mirror1_def ex_mirror_env_def mtp_init_def)
  have 2: "mirror_run (\<lambda>x. x) [1, 2, 3] {} True ex_mirror2"
  proof (rule mirror_run.draft [OF 1])
    show "can_draft ex_mirror1 \<longrightarrow> mp_mirror_pos ex_mirror1 = int (length [1, 2, 3::token]) - 1" by code_simp
    show "mtp_draft 2 ex_head (ex_mirror1, stats_init) = (fst (mtp_draft 2 ex_head (ex_mirror1, stats_init)), ex_mirror2,
        snd (snd (mtp_draft 2 ex_head (ex_mirror1, stats_init))))" by (simp add: ex_mirror2_def)
  qed
  have 3: "mirror_run (\<lambda>x. x) [1, 2, 3, 4, 5] {} True ex_mirror3"
    by (rule mirror_decodeI [OF 2, where us = "[4, 5]" and me = "ex_mirror_env [1, 2, 3] [4, 5]" and nb = 2])
      (simp_all add: ex_mirror3_def ex_mirror_env_def eval_nat_numeral)
  have "mirror_run (\<lambda>x. x) (take 4 [1, 2, 3, 4, 5]) ({} \<inter> {..<4}) (True \<and> 4 = length [1, 2, 3, 4, 5 :: token]) ex_mirror3"
    by (rule mirror_run.cut [OF 3]) simp
  then have cut: "mirror_run (\<lambda>x. x) [1, 2, 3, 4] {} False ex_mirror3" by simp
  have 4: "mirror_run (\<lambda>x. x) [1, 2, 3, 4, 6] {4} True ex_mirror4"
    by (rule mirror_decodeI [OF cut, where us = "[6]" and me = "ex_mirror_env [1, 2, 3, 4] [6]" and nb = 2])
      (simp_all add: ex_mirror4_def ex_mirror_env_def eval_nat_numeral)
  have v4: "mp_valid ex_mirror4" by code_simp
  note loaded = mirror_run.load [OF mirror_run.clear [OF 4] 4 v4]
  have 5: "mirror_run (\<lambda>x. x) [1, 2, 3, 4, 6, 7, 8] {4, 5} True ex_mirror5"
    by (rule mirror_decodeI [OF loaded, where us = "[7, 8]" and me = "ex_mirror_env [1, 2, 3, 4, 6] [7, 8]" and nb = 2])
      (auto simp: ex_mirror5_def ex_mirror_env_def eval_nat_numeral)
  show ?thesis by (rule mirror_follows_context [OF 5]) code_simp
qed

text \<open>C37: A decode that is aborted or fails on the device (answer 2 or below -1) may have kept some of its
  rows, and the mirror is not told. When the mirror has no rows beyond the context, the decode that continues
  behind the kept rows leaves it with a gap: the head stays on and ready to draft, and the cells no longer belong
  to the positions of the context, whatever hidden states one would allow.\<close>

theorem abort_leaves_gap:
  assumes "mirrors hid ts bad (mp_cells s)" "length (mp_cells s) = length ts" "mp_valid s"
    and "0 < k" "k \<le> length us" "vs \<noteq> []" "0 < nb" "\<forall>j. fst (me_answer me j) = 0"
    and "me_hidden me = Some (hidden_rows hid (ts @ take k us) vs)"
    and "rc = 2 \<or> rc < - 1"
    and "s1 = mirror_hook nb me1 (batch_at (length ts) us) (snd (handle_decode_result rc should_break)) s"
    and "s2 = mirror_hook nb me (batch_at (length ts + k) vs) (snd (handle_decode_result 0 should_break)) s1"
  shows "can_draft s2 \<and> \<not> mirrors hid (ts @ take k us @ vs) bad' (mp_cells s2)"
proof -
  let ?b = "batch_at (length ts + k) vs" and ?hs = "hidden_rows hid (ts @ take k us) vs"
  have s1: "s1 = s" using assms(10,11) by (auto simp: handle_decode_result_def mirror_hook_def)
  then have s2: "s2 = mirror_process nb me ?b s" using assms(12) by (simp add: handle_decode_result_def mirror_hook_def)
  have b: "?b \<noteq> []" "length ?b = length vs" using assms(6) by (auto simp: batch_at_def)
  have pos: "fst c < int (length ts)" if "c \<in> set (mp_cells s)" for c
    using that assms(1,2) by (auto simp: mirrors_def in_set_conv_nth)
  have mx: "cells_max (mp_cells s) < int (length ts)" using pos by (intro cells_max_bound) auto
  have f: "int (length ts) \<le> fold (\<lambda>r a. min a (snd r)) rs a"
    if "\<forall>r \<in> set rs. int (length ts) \<le> snd r" "int (length ts) \<le> a" for rs :: "(token \<times> int) list" and a
    using that by (induction rs arbitrary: a) simp_all
  have r: "\<forall>r \<in> set ?b. int (length ts) \<le> snd r" by (auto simp: batch_at_def)
  then have "int (length ts) \<le> fold (\<lambda>r a. min a (snd r)) (tl ?b) (snd (hd ?b))"
    using b(1) by (intro f) (auto dest: list.set_sel(2) intro: list.set_sel(1))
  then have "\<not> fold (\<lambda>r a. min a (snd r)) (tl ?b) (snd (hd ?b)) \<le> cells_max (mp_cells s)" using mx by linarith
  then have g: "mirror_guard me ?b (mp_cells s) = Some (mp_cells s)" by (simp add: mirror_guard_def Let_def)
  let ?rows = "mirror_rows ?b ?hs (mp_pending_h s)"
  obtain row cells where c: "mirror_chunks nb (me_answer me) 0 ?rows (mp_cells s) = (True, row, cells)"
    using mirror_chunks_quiet [OF assms(7,8), of 0 ?rows "mp_cells s"] by (metis prod_cases3 fst_conv)
  from mirror_chunks_ok [OF c] have cells: "cells = mp_cells s @ ?rows" .
  have cs: "mp_cells s2 = mp_cells s @ ?rows" "can_draft s2"
    using s2 assms(3,9) b g c cells by (simp_all add: mirror_process_def can_draft_def Let_def batch_at_def)
  have n: "0 < length vs" using assms(6) by simp
  have "fst (mp_cells s2 ! length ts) = int (length ts + k)"
    using n b(2) by (simp add: cs(1) nth_append assms(2) mirror_rows_def batch_at_def)
  moreover have "length ts < length (ts @ take k us @ vs)" using n by simp
  ultimately show ?thesis using cs(2) assms(4) by (force simp: mirrors_def)
qed

lemma abort_leaves_gap_witness:
  "can_draft (mirror_hook 2 (ex_mirror_env [1, 2, 3, 4] [6]) (batch_at 4 [6]) Mirror_Process ex_mirror1)
   \<and> \<not> mirrors (\<lambda>x. x) [1, 2, 3, 4, 6] {3, 4} (mp_cells (mirror_hook 2 (ex_mirror_env [1, 2, 3, 4] [6])
        (batch_at 4 [6]) Mirror_Process ex_mirror1))"
proof -
  have m: "mirrors (\<lambda>x. x) [1, 2, 3] {} (mp_cells ex_mirror1)"
    and l: "length (mp_cells ex_mirror1) = length [1, 2, 3 :: token]" and v: "mp_valid ex_mirror1" by code_simp+
  show ?thesis
    using abort_leaves_gap [OF m l v, of 1 "[4, 5]" "[6]" 2 "ex_mirror_env [1, 2, 3, 4] [6]" "- 3"]
    by (simp add: ex_mirror_env_def handle_decode_result_def mirror_hook_def eval_nat_numeral)
qed

text \<open>C38: An exhausted memory switches the head off; tokens that the main context decodes then are not
  mirrored. If the context had been cut back to \<open>n\<close> tokens before, the mirror's newest position is still
  the old one, and an undo into the tokens that followed switches the head on again over cells of
  removed tokens.\<close>

theorem rearm_keeps_removed_tokens:
  assumes "mirrors hid ts bad (mp_cells s)" "mp_valid s" "mp_mirror_pos s = int (length ts) - 1"
    and "n < length ts" "0 < j" "j \<le> length us" "n + j \<le> length ts" "us ! 0 \<noteq> ts ! n"
    and "s1 = mirror_hook nb me b (snd (handle_decode_result 1 should_break)) s"
    and "s2 = mirror_hook nb me' (batch_at n us) (snd (handle_decode_result 0 should_break)) s1"
    and "(on, s3) = rearm_if_kv_exhausted (int (n + j)) s2"
  shows "on \<and> mp_valid s3 \<and> \<not> mirrors hid (take n ts @ take j us) bad' (mp_cells s3)"
proof -
  have s1: "s1 = s\<lparr>mp_kv_exhausted := True, mp_valid := False, mp_warned := True\<rparr>"
    using assms(2,9) by (simp add: handle_decode_result_def mirror_hook_def invalidate_kv_exhausted_def invalidate_def)
  have s2: "s2 = s1"
    using assms(10) s1 by (simp add: handle_decode_result_def mirror_hook_def mirror_process_def)
  have s3: "on" "s3 = s1\<lparr>mp_kv_exhausted := False, mp_valid := True, mp_warned := False\<rparr>"
    using assms(3,7,11) s1 s2 by (simp_all add: rearm_if_kv_exhausted_def)
  have "fst (snd (mp_cells s3 ! n)) = ts ! n" using assms(1,4) s1 s3(2) by (simp add: mirrors_def)
  moreover have "(take n ts @ take j us) ! n = us ! 0" "n < length (take n ts @ take j us)"
    using assms(4-6) by (simp_all add: nth_append)
  ultimately show ?thesis using assms(8) s3 by (auto simp: mirrors_def)
qed

lemma rearm_keeps_removed_tokens_witness:
  "mp_valid (snd (rearm_if_kv_exhausted 2 (invalidate_kv_exhausted ex_mirror1)))
   \<and> \<not> mirrors (\<lambda>x. x) [1, 9] {1} (mp_cells (snd (rearm_if_kv_exhausted 2 (invalidate_kv_exhausted ex_mirror1))))"
proof -
  let ?e = "ex_mirror_env [1] [9]" and ?s1 = "invalidate_kv_exhausted ex_mirror1"
  let ?r = "rearm_if_kv_exhausted 2 (invalidate_kv_exhausted ex_mirror1)"
  have m: "mirrors (\<lambda>x. x) [1, 2, 3] {} (mp_cells ex_mirror1)" and v: "mp_valid ex_mirror1"
    and q: "mp_mirror_pos ex_mirror1 = int (length [1, 2, 3 :: token]) - 1" by code_simp+
  have n: "(1::nat) < length [1, 2, 3 :: token]" "(0::nat) < 1" "1 \<le> length [9 :: token]"
    "1 + 1 \<le> length [1, 2, 3 :: token]" "[9 :: token] ! 0 \<noteq> [1, 2, 3] ! 1" by code_simp+
  have e1: "?s1 = mirror_hook 2 ?e [] (snd (handle_decode_result 1 True)) ex_mirror1"
    by (simp add: handle_decode_result_def mirror_hook_def)
  have e2: "?s1 = mirror_hook 2 ?e (batch_at 1 [9]) (snd (handle_decode_result 0 True)) ?s1"
    by (simp add: handle_decode_result_def mirror_hook_def mirror_process_def invalidate_kv_exhausted_def invalidate_def)
  have e3: "(fst ?r, snd ?r) = rearm_if_kv_exhausted (int (1 + 1)) ?s1" by simp
  have t: "take 1 [1, 2, 3] @ take 1 [9] = [1, 9 :: token]" by simp
  show ?thesis using rearm_keeps_removed_tokens [OF m v q n e1 e2 e3, of "{1}"] unfolding t by blast
qed

text \<open>The head switches itself off exactly when two windows of 32 rounds in a row commit fewer than 1.25
  tokens per round; the rounds of an unfinished window do not count.\<close>

theorem adaptive_switch_off:
  assumes "\<forall>w \<in> set ws. length w = ADAPT_WINDOW" "length rest < ADAPT_WINDOW"
  shows "\<exists>s' ms'. fold (\<lambda>c. note_round c) (concat ws @ rest) (s, reset_stats ms) = (s', ms')
    \<and> ms_committed ms' = sum_list (concat ws @ rest)
    \<and> (mp_valid s' \<longleftrightarrow> mp_valid s \<and> \<not> low_pair (map (\<lambda>w. low_window (sum_list w)) ws))"
proof -
  obtain s1 ms1 where w: "fold (\<lambda>c. note_round c) (concat ws) (s, reset_stats ms) = (s1, ms1)" "ms_trailing_rounds ms1 = 0"
    "ms_committed ms1 = sum_list (concat ws)"
    "mp_valid s1 \<longleftrightarrow> mp_valid s \<and> \<not> low_pair (False # map (\<lambda>w. low_window (sum_list w)) ws)"
    using note_round_windows [OF assms(1), of "reset_stats ms" s] by (auto simp: reset_stats_def stats_init_def)
  have "low_pair (False # bs) = low_pair bs" for bs by (cases bs) simp_all
  moreover have "fold (\<lambda>c. note_round c) rest (s1, ms1) = (s1, ms1\<lparr>ms_committed := ms_committed ms1 + sum_list rest,
       ms_trailing_committed := ms_trailing_committed ms1 + sum_list rest,
       ms_trailing_rounds := ms_trailing_rounds ms1 + length rest\<rparr>)"
    by (rule note_round_partial) (use w(2) assms(2) in simp)
  ultimately show ?thesis using w by simp
qed

lemma adaptive_switch_off_witness:
  "\<exists>s' ms'. fold (\<lambda>c. note_round c) (replicate 64 1 @ [3]) (mtp_init (), reset_stats stats_init) = (s', ms')
    \<and> ms_committed ms' = 67 \<and> \<not> mp_valid s'"
proof -
  have r: "replicate 64 1 @ [3] = concat (replicate 2 (replicate 32 (1::int))) @ [3]" by code_simp
  have "\<forall>w \<in> set (replicate 2 (replicate 32 (1::int))). length w = ADAPT_WINDOW" by (simp add: ADAPT_WINDOW_def)
  from adaptive_switch_off [OF this, of "[3]" "mtp_init ()" stats_init] obtain s' ms' where
    "fold (\<lambda>c. note_round c) (concat (replicate 2 (replicate 32 1)) @ [3]) (mtp_init (), reset_stats stats_init) = (s', ms')"
    "ms_committed ms' = sum_list (concat (replicate 2 (replicate 32 1)) @ [3])"
    "\<not> (mp_valid (mtp_init ()) \<and> \<not> low_pair (map (\<lambda>w. low_window (sum_list w)) (replicate 2 (replicate 32 (1::int))))) \<longrightarrow> \<not> mp_valid s'"
    by (auto simp: ADAPT_WINDOW_def)
  moreover have "low_pair (map (\<lambda>w. low_window (sum_list w)) (replicate 2 (replicate 32 (1::int))))" by code_simp
  moreover have "sum_list (concat (replicate 2 (replicate 32 1)) @ [3]) = (67::int)" by code_simp
  ultimately show ?thesis unfolding r by auto
qed

text \<open>A created head drafts at most as many tokens as the snapshot window of the main context holds, so
  that every rejected draft can be removed again.\<close>

theorem draft_fits_window:
  assumes "create_draft_len n_layer_nextn n_rs_seq n_embd draft_len = Some n"
    and "mtp_draft (nat n) he (s, ms) = (out, s', ms')"
  shows "1 \<le> n \<and> n \<le> 32 \<and> length out \<le> n_rs_seq"
proof -
  have n: "1 \<le> n" "n \<le> 32" "n \<le> int n_rs_seq"
    using assms(1) by (auto simp: create_draft_len_def Let_def split: if_splits)
  obtain new where "length out \<le> max 1 (nat n)" by (rule draft_keeps [OF assms(2)])
  with n show ?thesis by auto
qed

lemma draft_fits_window_witness:
  "create_draft_len 1 2 8 2 = Some 2 \<and> length (fst (mtp_draft (nat 2) ex_head (ex_mirror1, stats_init))) \<le> 2"
proof -
  have c: "create_draft_len 1 2 8 2 = Some 2" by (simp add: create_draft_len_def)
  obtain out s' ms' where d: "mtp_draft (nat 2) ex_head (ex_mirror1, stats_init) = (out, s', ms')" by (metis prod_cases3)
  from draft_fits_window [OF c d] show ?thesis using c d by simp
qed

end
