(* ===== verification/Lim_Turn.thy ===== *)
theory Lim_Turn
  imports Lim_Session Lim_Executor Lim_Speculation
begin

section \<open>The turn loop of a session (session.cc)\<close>

text \<open>
  One iteration of \<open>ChatSession::run\<close> after the commands: the user's input is fed (three modes), a response
  is generated, a simulated conversation is recovered from, a tool call is executed, and a malformed one
  is corrected. The operations are composed exactly as the loop composes them from the models of the
  generator, the tool executor, the feeds and the checkpoints. Display, logging, speed statistics and the
  turn's time limit (an event of the generator) are left out.
\<close>

subsection \<open>State\<close>

text \<open>The members of \<open>ChatSession\<close> besides \<open>SessionState\<close>. The clock numbers the calls into the outside world.\<close>

record ('m, 's, 'v) chat =
  ch_core :: "'m core"
  ch_smpl :: 's
  ch_rows :: "'v option list"
  ch_last_context :: int
  ch_last_input :: string
  ch_depth :: int
  ch_was_mid :: bool
  ch_text :: string
  ch_gen :: gen_result
  ch_system :: "token list \<times> string"
  ch_fs :: fsys
  ch_clock :: nat

text \<open>What is fixed for the session, and the outside world by the number of the call: signals and answers
  of a feed, the events of a generation, the logits that stand after a feed, the tools.\<close>

record ('m, 's, 'v) turn_env =
  tu_ops :: "'m mem_ops"
  tu_n_batch :: nat
  tu_n_ctx :: int
  tu_mt :: model_tokens
  tu_tokenize :: "bool \<Rightarrow> string \<Rightarrow> token list"
  tu_is_eog :: "token \<Rightarrow> bool"
  tu_piece :: "token \<Rightarrow> string"
  tu_special :: "token \<Rightarrow> bool"
  tu_bos :: token
  tu_eot :: token
  tu_mode :: int
  tu_dummy :: "string option"
  tu_max_auto :: "string option"
  tu_load :: "(token list \<times> string) option"
  tu_prompt_file :: string
  tu_config_dir :: string
  tu_userprompt :: "nat \<Rightarrow> string option"
  tu_tools :: "nat \<Rightarrow> tool_env"
  tu_feed :: "nat \<Rightarrow> feed_events"
  tu_rows :: "nat \<Rightarrow> bool \<Rightarrow> 'm \<Rightarrow> 'v option list"
  tu_gen :: "nat \<Rightarrow> ('m, 's, 'v) gen_env"

text \<open>What a step of the loop raises: an uncaught C++ exception, or a call that does not return.\<close>

datatype turn_fault = Faulted cpp_exn | Diverged

abbreviation upd_chat :: "(session_state \<Rightarrow> session_state) \<Rightarrow> ('m, 's, 'v) chat \<Rightarrow> ('m, 's, 'v) chat" where
  "upd_chat f ch \<equiv> ch\<lparr>ch_core := upd_state f (ch_core ch)\<rparr>"

abbreviation chat_state :: "('m, 's, 'v) chat \<Rightarrow> session_state" where
  "chat_state ch \<equiv> co_state (ch_core ch)"

abbreviation chat_n_past :: "('m, 's, 'v) chat \<Rightarrow> int" where
  "chat_n_past ch \<equiv> co_n_past (ch_core ch)"

abbreviation set_auto :: "bool \<Rightarrow> ('m, 's, 'v) chat \<Rightarrow> ('m, 's, 'v) chat" where
  "set_auto b ch \<equiv> upd_chat (ss_auto_continue_update (\<lambda>_. b)) ch"

abbreviation set_conv :: "string \<Rightarrow> ('m, 's, 'v) chat \<Rightarrow> ('m, 's, 'v) chat" where
  "set_conv t ch \<equiv> upd_chat (ss_conversation_text_update (\<lambda>_. t)) ch"

definition maintains_conversation_text :: "('m, 's, 'v) turn_env \<Rightarrow> bool" where
  "maintains_conversation_text env \<longleftrightarrow> tu_mode env = 1 \<or> tu_mode env = 2"

text \<open>The canonical text of the benchmark modes grows only while it is valid (not empty).\<close>

definition add_conv :: "('m, 's, 'v) turn_env \<Rightarrow> string \<Rightarrow> ('m, 's, 'v) chat \<Rightarrow> ('m, 's, 'v) chat" where
  "add_conv env t ch =
     (if maintains_conversation_text env \<and> ss_conversation_text (chat_state ch) \<noteq> []
      then set_conv (ss_conversation_text (chat_state ch) @ t) ch else ch)"

definition chat_feed :: "('m, 's, 'v) turn_env \<Rightarrow> nat \<Rightarrow> token list \<Rightarrow> 'm core \<Rightarrow> bool \<times> 'm core" where
  "chat_feed env clock toks c =
     feed_tokens_impl (tu_ops env) (tu_n_batch env)
       (slot_events (tu_n_ctx env) (tu_n_batch env) (co_n_past c) (length toks) (tu_feed env clock)) toks c"

definition feed_chat :: "('m, 's, 'v) turn_env \<Rightarrow> token list \<Rightarrow> ('m, 's, 'v) chat \<Rightarrow> bool \<times> ('m, 's, 'v) chat" where
  "feed_chat env toks ch =
     (let (ok, c) = chat_feed env (ch_clock ch) toks (ch_core ch)
      in (ok, ch\<lparr>ch_core := c, ch_rows := tu_rows env (ch_clock ch) ok (co_mem c), ch_clock := ch_clock ch + 1\<rparr>))"

subsection \<open>The user's turn\<close>

definition position_ends_mid_turn :: "('m, 's, 'v) turn_env \<Rightarrow> ('m, 's, 'v) chat \<Rightarrow> bool" where
  "position_ends_mid_turn env ch =
     (if length (tracker (ch_core ch)) \<le> length (fst (ch_system ch)) then False
      else \<not> tu_is_eog env (last (tracker (ch_core ch))))"

definition turn_was_closed :: "('m, 's, 'v) turn_env \<Rightarrow> ('m, 's, 'v) chat \<Rightarrow> bool" where
  "turn_was_closed env ch \<longleftrightarrow> ss_prev_was_interrupted (chat_state ch) \<or> position_ends_mid_turn env ch"

definition new_user_turn_text :: "model_tokens \<Rightarrow> bool \<Rightarrow> string \<Rightarrow> string" where
  "new_user_turn_text mt prev_was_interrupted input =
     (if prev_was_interrupted then mf_text (turn_end mt) else []) @ build_user_assistant_turn_text mt input"

definition build_user_assistant_turn :: "('m, 's, 'v) turn_env \<Rightarrow> string \<Rightarrow> token list" where
  "build_user_assistant_turn env content =
     tu_tokenize env False (build_user_assistant_turn_text (tu_mt env) content)"

definition build_new_user_turn_tokens ::
  "('m, 's, 'v) turn_env \<Rightarrow> string \<Rightarrow> ('m, 's, 'v) chat \<Rightarrow> token list \<times> ('m, 's, 'v) chat" where
  "build_new_user_turn_tokens env input ch =
     (let turn_close_str = (if turn_was_closed env ch then mf_text (turn_end (tu_mt env)) else [])
      in ((if turn_close_str \<noteq> [] then tu_tokenize env False turn_close_str else [])
            @ build_user_assistant_turn env input,
          upd_chat (ss_prev_was_interrupted_update (\<lambda>_. False)) ch))"

definition think_block :: "('m, 's, 'v) turn_env \<Rightarrow> string \<Rightarrow> string" where
  "think_block env dummy =
     think_start (tu_mt env) @ [ch_nl] @ dummy @ [ch_nl] @ think_end (tu_mt env) @ [ch_nl]"

definition feed_new_user_turn ::
  "('m, 's, 'v) turn_env \<Rightarrow> string \<Rightarrow> ('m, 's, 'v) chat \<Rightarrow> bool \<times> ('m, 's, 'v) chat" where
  "feed_new_user_turn env input ch =
     (let closed = turn_was_closed env ch;
          (tokens, ch) = build_new_user_turn_tokens env input ch;
          turn_text = new_user_turn_text (tu_mt env) closed input;
          (tokens, turn_text) = (case tu_dummy env of
              None \<Rightarrow> (tokens, turn_text)
            | Some d \<Rightarrow> (tokens @ tu_tokenize env False (think_block env d), turn_text @ think_block env d))
      in if chat_n_past ch + int (length tokens) \<ge> tu_n_ctx env then (False, ch)
         else let (ok, ch) = feed_chat env tokens ch in
           if \<not> ok then (False, ch\<lparr>ch_core := (ch_core ch)\<lparr>co_stop := False\<rparr>\<rparr>)
           else (True, add_conv env turn_text ch))"

definition feed_user_message ::
  "('m, 's, 'v) turn_env \<Rightarrow> string \<Rightarrow> ('m, 's, 'v) chat \<Rightarrow> bool \<times> ('m, 's, 'v) chat" where
  "feed_user_message env input ch =
     feed_new_user_turn env input
       (if ss_auto_continue (chat_state ch) then ch
        else upd_chat (\<lambda>s. s\<lparr>ss_tool_interrupt_pending := False, ss_partial_tool_text := [],
               ss_thinking_block_open := False\<rparr>) ch)"

subsection \<open>The benchmark modes\<close>

definition vocab_space_prefixes :: "('m, 's, 'v) turn_env \<Rightarrow> bool" where
  "vocab_space_prefixes env =
     (case tu_tokenize env False ''ab12'' of [] \<Rightarrow> False
      | t # _ \<Rightarrow> (case tu_piece env t of [] \<Rightarrow> False | c # _ \<Rightarrow> c = CHR '' ''))"

fun detokenize_from :: "('m, 's, 'v) turn_env \<Rightarrow> bool \<Rightarrow> token list \<Rightarrow> string" where
  "detokenize_from env prev_was_special [] = []"
| "detokenize_from env prev_was_special (t # ts) =
     (let piece = tu_piece env t;
          strip = \<not> tu_special env t \<and> prev_was_special \<and> vocab_space_prefixes env \<and> starts_with piece '' ''
      in (if strip then drop 1 piece else piece) @ detokenize_from env (tu_special env t) ts)"

definition detokenize_tracker_to_text :: "('m, 's, 'v) turn_env \<Rightarrow> token list \<Rightarrow> string" where
  "detokenize_tracker_to_text env toks = detokenize_from env True toks"

definition should_add_bos :: "('m, 's, 'v) turn_env \<Rightarrow> token list \<Rightarrow> bool" where
  "should_add_bos env toks =
     (case toks of [] \<Rightarrow> False | t # _ \<Rightarrow> t = tu_bos env \<and> tu_piece env (tu_bos env) = [])"

definition build_full_conversation_text :: "('m, 's, 'v) turn_env \<Rightarrow> session_state \<Rightarrow> string \<Rightarrow> string" where
  "build_full_conversation_text env s new_turn_text =
     (if ss_conversation_text s \<noteq> [] then ss_conversation_text s @ new_turn_text
      else detokenize_tracker_to_text env (ss_all_context_tokens s) @ new_turn_text)"

text \<open>The text of the whole conversation with the new turn, and its tokens.\<close>

definition full_request :: "('m, 's, 'v) turn_env \<Rightarrow> string \<Rightarrow> ('m, 's, 'v) chat \<Rightarrow> (string \<times> token list) \<times> ('m, 's, 'v) chat" where
  "full_request env input ch =
     (let new_turn_text = new_user_turn_text (tu_mt env) (turn_was_closed env ch) input;
          ch = upd_chat (ss_prev_was_interrupted_update (\<lambda>_. False)) ch;
          full_text = build_full_conversation_text env (chat_state ch) new_turn_text
      in ((full_text, tu_tokenize env (should_add_bos env (tracker (ch_core ch))) full_text), ch))"

text \<open>Mode 1 clears the memory and decodes the whole request.\<close>

definition clear_for_request :: "('m, 's, 'v) turn_env \<Rightarrow> ('m, 's, 'v) chat \<Rightarrow> ('m, 's, 'v) chat" where
  "clear_for_request env ch =
     ch\<lparr>ch_core := (upd_state (\<lambda>s. s\<lparr>ss_all_context_tokens := [], ss_prompt_checkpoints := [],
        ss_checkpoint_stack_offset := 0, ss_tool_correction_checkpoint_idx := - 1,
        ss_interrupted_checkpoint_idx := - 1, ss_rs_checkpoint_saved_this_turn := False\<rparr>) (ch_core ch))
        \<lparr>co_mem := op_clear (tu_ops env) (co_mem (ch_core ch)), co_n_past := 0\<rparr>,
       ch_smpl := ge_reset (tu_gen env (ch_clock ch)) (ch_smpl ch)\<rparr>"

definition mode1_turn :: "('m, 's, 'v) turn_env \<Rightarrow> string \<Rightarrow> ('m, 's, 'v) chat \<Rightarrow> bool \<times> ('m, 's, 'v) chat" where
  "mode1_turn env input ch =
     (let ((full_text, request), ch) = full_request env input ch in
      if int (length request) \<ge> tu_n_ctx env then (False, ch)
      else let (ok, ch) = feed_chat env request (clear_for_request env ch) in
        if \<not> ok then (False, ch) else (True, set_conv full_text ch))"

text \<open>Mode 2 keeps the longest common prefix of request and memory and decodes the rest.\<close>

fun match_len :: "token list \<Rightarrow> token list \<Rightarrow> nat" where
  "match_len (x # xs) (y # ys) = (if x = y then match_len xs ys + 1 else 0)"
| "match_len xs ys = 0"

definition mode2_turn :: "('m, 's, 'v) turn_env \<Rightarrow> string \<Rightarrow> ('m, 's, 'v) chat \<Rightarrow> bool \<times> ('m, 's, 'v) chat" where
  "mode2_turn env input ch =
     (let ((full_text, request), ch) = full_request env input ch in
      if int (length request) \<ge> tu_n_ctx env then (False, ch)
      else let m = match_len (tracker (ch_core ch)) request;
               (cut, ch) = (if m < length (tracker (ch_core ch))
                 then (let (cut, c) = drift_cut (tu_ops env) (int m) (int (length request)) (ch_core ch)
                       in (nat cut, ch\<lparr>ch_core := c\<rparr>))
                 else (m, ch));
               delta = drop cut request;
               (ok, ch) = (if delta = [] then (True, ch) else feed_chat env delta ch)
           in if \<not> ok then (False, ch) else (True, set_conv full_text ch))"

definition is_remind :: "string \<Rightarrow> bool" where "is_remind input \<longleftrightarrow> input = ''/remind''"

text \<open>Step 6: the typed input is fed; the answer is whether a response is generated.\<close>

definition user_step :: "('m, 's, 'v) turn_env \<Rightarrow> string \<Rightarrow> ('m, 's, 'v) chat \<Rightarrow> bool \<times> ('m, 's, 'v) chat" where
  "user_step env input ch =
     (let feed_input = (if is_remind input then snd (ch_system ch) else input);
          ch = (ch\<lparr>ch_last_input := input\<rparr>)\<lparr>ch_core := new_prompt (ch_core ch)\<rparr>;
          (ok, ch) = (if tracker (ch_core ch) = [] then (True, ch)
            else if tu_mode env = 1 then mode1_turn env feed_input ch
            else if tu_mode env = 2 then mode2_turn env feed_input ch else (True, ch))
      in if \<not> ok then (False, ch)
         else if maintains_conversation_text env \<and> tracker (ch_core ch) \<noteq> [] then (True, ch)
         else feed_user_message env feed_input ch)"

subsection \<open>A response\<close>

definition DEFAULT_MAX_AUTO_CONTINUE :: int where "DEFAULT_MAX_AUTO_CONTINUE = 500"

definition max_auto_continue :: "('m, 's, 'v) turn_env \<Rightarrow> int" where
  "max_auto_continue env =
     (let n = (case tu_max_auto env of
            Some v \<Rightarrow> if v \<noteq> [] then atoi v else DEFAULT_MAX_AUTO_CONTINUE
          | None \<Rightarrow> DEFAULT_MAX_AUTO_CONTINUE)
      in if n < 5 then DEFAULT_MAX_AUTO_CONTINUE else n)"

text \<open>The generator is built for the session: its events come from the outside world, the rest is the session's.\<close>

definition response_env :: "('m, 's, 'v) turn_env \<Rightarrow> bool \<Rightarrow> ('m, 's, 'v) chat \<Rightarrow> ('m, 's, 'v) gen_env" where
  "response_env env correction ch =
     (tu_gen env (ch_clock ch))\<lparr>ge_ops := tu_ops env, ge_is_eog := tu_is_eog env, ge_piece := tu_piece env,
        ge_think := (think_start (tu_mt env), think_end (tu_mt env)), ge_n_ctx := tu_n_ctx env,
        ge_n_batch := tu_n_batch env, ge_was_mid := ss_tool_interrupt_pending (chat_state ch),
        ge_reincarnating := ss_reincarnate_mode (chat_state ch), ge_hook := \<not> correction,
        ge_canary_max := 0, ge_canary_silent := False\<rparr>"

text \<open>The text as a client of the benchmark modes would have received it.\<close>

definition streamed_text :: "('m, 's, 'v) turn_env \<Rightarrow> gen_result \<Rightarrow> string" where
  "streamed_text env r =
     (let turn_text = gr_text r;
          turn_text = (if gr_unfed_tail_len r > 0
            then take (length turn_text - gr_unfed_tail_len r) turn_text else turn_text)
      in if gr_ended_on_eog r then turn_text @ tu_piece env (tu_eot env) else turn_text)"

definition save_partial_call :: "bool \<Rightarrow> gen_result \<Rightarrow> session_state \<Rightarrow> session_state" where
  "save_partial_call was_mid r s =
     (if gr_stuck_in_tool_call r then s\<lparr>ss_partial_tool_text := []\<rparr>
      else case gr_tool_start r of
        Some p \<Rightarrow>
          (if gr_tool_end r = None then
             s\<lparr>ss_tool_interrupt_pending := True,
               ss_partial_tool_text := (if was_mid then ss_partial_tool_text s @ gr_text r else drop p (gr_text r))\<rparr>
           else s)
      | None \<Rightarrow> s)"

definition exit_state :: "gen_result \<Rightarrow> session_state \<Rightarrow> session_state" where
  "exit_state r s =
     (if gr_was_interrupted r then
        s\<lparr>ss_prev_was_interrupted := True, ss_auto_continue := False, ss_reincarnate_mode := False,
          ss_thinking_block_open := gr_was_in_thinking_block r\<rparr>
      else if gr_early_exit r then s\<lparr>ss_auto_continue := False, ss_reincarnate_mode := False\<rparr>
      else if \<not> gr_has_tool_call r then
        (if ss_reincarnate_first_turn s then s\<lparr>ss_reincarnate_first_turn := False\<rparr>
         else s\<lparr>ss_auto_continue := False\<rparr>)
      else s)"

text \<open>What a call of \<open>substr\<close> or \<open>erase\<close> beyond the end raises.\<close>

definition text_positions_ok :: "gen_result \<Rightarrow> bool" where
  "text_positions_ok r \<longleftrightarrow> gr_unfed_tail_len r \<le> length (gr_text r)
     \<and> (case gr_tool_start r of Some p \<Rightarrow> p \<le> length (gr_text r) | None \<Rightarrow> True)"

definition after_generation :: "('m, 's, 'v) turn_env \<Rightarrow> gen_result \<Rightarrow> ('m, 's, 'v) chat \<Rightarrow> ('m, 's, 'v) chat" where
  "after_generation env r ch =
     (let ch = add_conv env (streamed_text env r) (ch\<lparr>ch_gen := r, ch_text := gr_text r\<rparr>);
          ch = upd_chat (\<lambda>s. (exit_state r (save_partial_call (ch_was_mid ch) r s))
                 \<lparr>ss_last_t_count := gr_token_count r, ss_last_n_past := chat_n_past ch, ss_first_turn_done := True\<rparr>) ch
      in if co_stop (ch_core ch) then set_auto False (ch\<lparr>ch_core := (ch_core ch)\<lparr>co_stop := False\<rparr>\<rparr>) else ch)"

definition generate_response ::
  "('m, 's, 'v) turn_env \<Rightarrow> bool \<Rightarrow> ('m, 's, 'v) chat \<Rightarrow> turn_fault + ('m, 's, 'v) chat" where
  "generate_response env correction ch =
     (let genv = response_env env correction ch;
          ch = (if ss_auto_continue (chat_state ch) then ch
                else ch\<lparr>ch_depth := 0, ch_smpl := ge_reset genv (ch_smpl ch)\<rparr>);
          ch = ch\<lparr>ch_was_mid := ss_tool_interrupt_pending (chat_state ch)\<rparr>;
          thinking = ss_thinking_block_open (chat_state ch);
          ch = upd_chat (\<lambda>s. s\<lparr>ss_tool_interrupt_pending := False, ss_thinking_block_open := False\<rparr>) ch;
          c = begin_generation correction (ch_core ch)
      in case generate genv thinking (ch_last_context ch) (ch_smpl ch) (ch_rows ch) c of
           None \<Rightarrow> Inl Diverged
         | Some (r, g) \<Rightarrow>
             if \<not> text_positions_ok r then Inl (Faulted Out_Of_Range)
             else Inr (after_generation env r (ch\<lparr>ch_core := gn_core g, ch_smpl := gn_smpl g, ch_rows := gn_rows g,
                    ch_last_context := gn_last_context g, ch_clock := ch_clock ch + 1\<rparr>)))"

subsection \<open>The tool call of a response\<close>

definition chat_exec_env :: "('m, 's, 'v) turn_env \<Rightarrow> ('m, 's, 'v) chat \<Rightarrow> 'm exec_env" where
  "chat_exec_env env ch =
     \<lparr>xe_tools = tu_tools env (ch_clock ch), xe_tokenize = tu_tokenize env False, xe_n_ctx = tu_n_ctx env,
      xe_max_auto_continue = max_auto_continue env,
      xe_feed = (\<lambda>k. chat_feed env (ch_clock ch + k))\<rparr>"

text \<open>The answer is whether the loop continues with the tool's result.\<close>

definition process_tool_call ::
  "('m, 's, 'v) turn_env \<Rightarrow> ('m, 's, 'v) chat \<Rightarrow> turn_fault + (bool \<times> ('m, 's, 'v) chat)" where
  "process_tool_call env ch =
     (case (gr_has_tool_call (ch_gen ch), gr_tool_start (ch_gen ch), gr_tool_end (ch_gen ch)) of
        (True, Some ts, Some te) \<Rightarrow>
          (if ts > length (ch_text ch) then Inl (Faulted Out_Of_Range)
           else case execute (chat_exec_env env ch) (ch_text ch) ts (Some te) (ch_was_mid ch) (ch_depth ch)
                       (ch_core ch) (ch_fs ch) of
             Inl e \<Rightarrow> Inl (Faulted e)
           | Inr None \<Rightarrow> Inl Diverged
           | Inr (Some ((er, c), fs)) \<Rightarrow>
               (let ch = ch\<lparr>ch_core := c, ch_fs := fs, ch_depth := er_depth er, ch_text := er_text er,
                        ch_rows := tu_rows env (ch_clock ch) (er_auto_continue er) (co_mem c), ch_clock := ch_clock ch + 2\<rparr>
                in Inr (er_auto_continue er,
                     if \<not> er_auto_continue er \<and> er_needs_correction er
                     then upd_chat (ss_tool_correction_mode_update (\<lambda>_. True)) ch else ch)))
      | _ \<Rightarrow> Inr (False, ch))"

subsection \<open>Recovery from a simulated conversation\<close>

text \<open>One attempt: a user turn \<open>continue\<close> and another response; \<^const>\<open>None\<close> gives up.\<close>

definition recovery_feed :: "('m, 's, 'v) turn_env \<Rightarrow> ('m, 's, 'v) chat \<Rightarrow> ('m, 's, 'v) chat + ('m, 's, 'v) chat" where
  "recovery_feed env ch =
     (if ch_depth ch \<ge> max_auto_continue env then Inl (set_auto False ch)
      else
        let ch = ch\<lparr>ch_depth := ch_depth ch + 1\<rparr>;
            cont_close = turn_was_closed env ch;
            (cont_tokens, ch) = build_new_user_turn_tokens env ''continue'' ch
        in if chat_n_past ch + int (length cont_tokens) \<ge> tu_n_ctx env then Inl (set_auto False ch)
           else let (ok, ch) = feed_chat env cont_tokens ch in
             if \<not> ok then Inl (set_auto False ch)
             else Inr (set_auto True (add_conv env (new_user_turn_text (tu_mt env) cont_close ''continue'') ch)))"

lemma add_conv_simps [simp]:
  "ch_depth (add_conv env t ch) = ch_depth ch" "ch_gen (add_conv env t ch) = ch_gen ch"
  "ch_was_mid (add_conv env t ch) = ch_was_mid ch" "ch_last_context (add_conv env t ch) = ch_last_context ch"
  "ch_last_input (add_conv env t ch) = ch_last_input ch" "ch_text (add_conv env t ch) = ch_text ch"
  "ch_system (add_conv env t ch) = ch_system ch" "co_stop (ch_core (add_conv env t ch)) = co_stop (ch_core ch)"
  "co_mem (ch_core (add_conv env t ch)) = co_mem (ch_core ch)" "chat_n_past (add_conv env t ch) = chat_n_past ch"
  "ss_auto_continue (chat_state (add_conv env t ch)) = ss_auto_continue (chat_state ch)"
  "tracker (ch_core (add_conv env t ch)) = tracker (ch_core ch)"
  by (simp_all add: add_conv_def)

lemma feed_chat_simps [simp]:
  "ch_depth (snd (feed_chat env toks ch)) = ch_depth ch" "ch_gen (snd (feed_chat env toks ch)) = ch_gen ch"
  "ch_last_context (snd (feed_chat env toks ch)) = ch_last_context ch"
  "ch_last_input (snd (feed_chat env toks ch)) = ch_last_input ch"
  "ch_system (snd (feed_chat env toks ch)) = ch_system ch" "ch_was_mid (snd (feed_chat env toks ch)) = ch_was_mid ch"
  by (simp_all add: feed_chat_def case_prod_beta Let_def)

lemma recovery_feed_depth:
  assumes "recovery_feed env ch = Inr ch1"
  shows "ch_depth ch1 = ch_depth ch + 1" "ss_auto_continue (chat_state ch1)" "ch_depth ch < max_auto_continue env"
  using assms by (auto simp: recovery_feed_def build_new_user_turn_tokens_def Let_def case_prod_beta
      split: if_splits)

lemma response_depth:
  assumes "generate_response env correction ch = Inr ch1" "ss_auto_continue (chat_state ch)"
  shows "ch_depth ch1 = ch_depth ch"
  using assms by (auto simp: generate_response_def Let_def after_generation_def split: option.splits if_splits)

function recover :: "('m, 's, 'v) turn_env \<Rightarrow> ('m, 's, 'v) chat \<Rightarrow> turn_fault + ('m, 's, 'v) chat" where
  "recover env ch =
     (if \<not> gr_thinking_sim_abort (ch_gen ch) then Inr ch
      else case recovery_feed env ch of
        Inl ch1 \<Rightarrow> Inr ch1
      | Inr ch1 \<Rightarrow> (case generate_response env False ch1 of Inl e \<Rightarrow> Inl e | Inr ch2 \<Rightarrow> recover env ch2))"
  by pat_completeness auto
termination
proof (relation "measure (\<lambda>(env, ch). nat (max_auto_continue env - ch_depth ch))", goal_cases)
  case (2 env ch ch1 ch2)
  then show ?case using recovery_feed_depth [OF 2(2)] response_depth [OF 2(3)] by simp
qed simp

declare recover.simps [simp del]

subsection \<open>Correction of a malformed call\<close>

definition correction_msg :: "('m, 's, 'v) turn_env \<Rightarrow> string" where
  "correction_msg env =
     ''System Error: Invalid tool call. Either the path(s) parameter contains newlines or you forgot a closing ''
     @ ''parameter or function tag in your tool call.'' @ [ch_nl, ch_nl]
     @ ''Follow these instructions strictly:'' @ [ch_nl, ch_nl] @ tu_prompt_file env"

text \<open>The turn is given up: the prompt returns, the context stays as it is.\<close>

definition give_up :: "('m, 's, 'v) chat \<Rightarrow> ('m, 's, 'v) chat" where
  "give_up ch = upd_chat (\<lambda>s. reset_turn_failure_latches (s\<lparr>ss_conversation_text := [], ss_auto_continue := False\<rparr>)) ch"

definition inject_call :: "string \<Rightarrow> string \<Rightarrow> gen_result \<Rightarrow> gen_result" where
  "inject_call preamble raw r =
     r\<lparr>gr_tool_start := Some (length preamble),
       gr_tool_end := Some (length preamble + (case str_find raw FUNC_END 0 of Some p \<Rightarrow> p | None \<Rightarrow> length raw))\<rparr>"

definition run_corrected ::
  "('m, 's, 'v) turn_env \<Rightarrow> ('m, 's, 'v) chat \<Rightarrow> turn_fault + ('m, 's, 'v) chat" where
  "run_corrected env ch =
     (case process_tool_call env
         (upd_chat correction_over ch) of
        Inl e \<Rightarrow> Inl e | Inr (_, ch) \<Rightarrow> Inr ch)"

definition replace_call :: "('m, 's, 'v) turn_env \<Rightarrow> string \<Rightarrow> string \<Rightarrow> ('m, 's, 'v) chat \<Rightarrow> turn_fault + ('m, 's, 'v) chat" where
  "replace_call env preamble raw ch =
     (let (rc, c) = rollback_to_tool_checkpoint (tu_ops env) (tu_n_batch env) (tu_feed env (ch_clock ch)) True (ch_core ch);
          ch = ch\<lparr>ch_core := c, ch_clock := ch_clock ch + 1\<rparr>
      in if rc < 0 then Inr (give_up ch)
         else let (ok, ch) = feed_chat env (tu_tokenize env False (drop (length FUNC_START) raw)) ch in
           if \<not> ok then Inr (give_up ch)
           else run_corrected env (upd_chat (ss_has_tool_correction_checkpoint_update (\<lambda>_. rc = 0))
             (ch\<lparr>ch_text := preamble @ raw, ch_gen := inject_call preamble raw (ch_gen ch), ch_was_mid := False,
                ch_smpl := ge_reset (tu_gen env (ch_clock ch)) (ch_smpl ch)\<rparr>)))"

definition judge_correction :: "('m, 's, 'v) turn_env \<Rightarrow> ('m, 's, 'v) chat \<Rightarrow> turn_fault + ('m, 's, 'v) chat" where
  "judge_correction env ch =
     (case (gr_has_tool_call (ch_gen ch), gr_tool_start (ch_gen ch), gr_tool_end (ch_gen ch)) of
        (True, Some cs, Some ce) \<Rightarrow>
          (if cs > length (ch_text ch) then Inl (Faulted Out_Of_Range)
           else let raw = substr (ch_text ch) cs ((usub ce cs + length FUNC_END) mod 2 ^ 64) in
             if \<not> validate_tool_call raw then Inr (give_up ch)
             else if ss_prompt_checkpoints (chat_state ch) = [] then run_corrected env (set_conv [] ch)
             else replace_call env (take cs (ch_text ch)) raw ch)
      | _ \<Rightarrow> Inr (upd_chat (\<lambda>s. correction_over (s\<lparr>ss_conversation_text := [], ss_auto_continue := False\<rparr>)) ch))"

definition correct_call :: "('m, 's, 'v) turn_env \<Rightarrow> ('m, 's, 'v) chat \<Rightarrow> turn_fault + ('m, 's, 'v) chat" where
  "correct_call env ch =
     (let ch = upd_chat (ss_tool_correction_mode_update (\<lambda>_. False)) ch;
          correction_tokens = build_tool_result_turn (tu_tokenize env False) (tu_mt env) (correction_msg env)
      in if chat_n_past ch + int (length correction_tokens) < tu_n_ctx env then
           (let (ok, ch) = feed_chat env correction_tokens ch in
            if \<not> ok then Inr (give_up ch)
            else case generate_response env True ch of Inl e \<Rightarrow> Inl e | Inr ch \<Rightarrow> judge_correction env ch)
         else Inr (upd_chat reset_turn_failure_latches ch))"

subsection \<open>The end of a turn\<close>

definition follow_prompt :: "('m, 's, 'v) turn_env \<Rightarrow> string" where
  "follow_prompt env = ''Follow the prompt in '' @ tu_config_dir env @ ''/userprompt''"

text \<open>The reincarnated session: a fresh context whose first turn is the prompt the model wrote.\<close>

definition start_reincarnated ::
  "('m, 's, 'v) turn_env \<Rightarrow> ('m, 's, 'v) chat \<Rightarrow> ('m, 's, 'v) chat" where
  "start_reincarnated env ch =
     (let (sys, c) = clear_context (tu_ops env) (tu_mt env) (tu_n_batch env)
            (slot_events (tu_n_ctx env) (tu_n_batch env) 0
               (length (fst (reload_system_prompt (tu_load env) (ch_system ch)))) (tu_feed env (ch_clock ch)))
            (maintains_conversation_text env) (tu_load env) (ch_system ch) (ch_core ch);
          ch = upd_chat (\<lambda>s. s\<lparr>ss_log_index := ss_log_index s + 1\<rparr>)
            (ch\<lparr>ch_core := c, ch_system := sys, ch_clock := ch_clock ch + 1,
                ch_smpl := ge_reset (tu_gen env (ch_clock ch)) (ch_smpl ch)\<rparr>);
          toks = build_user_assistant_turn env (follow_prompt env)
      in if chat_n_past ch + int (length toks) \<ge> tu_n_ctx env then ch
         else let (ok, ch) = feed_chat env toks ch in
           if \<not> ok then ch\<lparr>ch_core := (ch_core ch)\<lparr>co_stop := False\<rparr>\<rparr>
           else (let ch = add_conv env (build_user_assistant_turn_text (tu_mt env) (follow_prompt env)) ch;
                     c = ch_core ch
             in ch\<lparr>ch_core := c\<lparr>co_mem := op_save (tu_ops env) (co_mem c), co_state := reset_session_state ((co_state c)\<lparr>
                  ss_prompt_checkpoints := ss_prompt_checkpoints (co_state c)
                    @ [\<lparr>cp_n_past = co_n_past c, cp_prompt = follow_prompt env\<rparr>],
                  ss_checkpoint_stack_offset := 0, ss_tool_correction_checkpoint_idx := - 1,
                  ss_interrupted_checkpoint_idx := - 1, ss_rs_checkpoint_saved_this_turn := False,
                  ss_auto_continue := True, ss_reincarnate_first_turn := True\<rparr>)\<rparr>\<rparr>))"

definition handle_reincarnate_completion ::
  "('m, 's, 'v) turn_env \<Rightarrow> ('m, 's, 'v) chat \<Rightarrow> bool \<times> ('m, 's, 'v) chat" where
  "handle_reincarnate_completion env ch =
     (if \<not> ss_reincarnate_mode (chat_state ch) \<or> ss_auto_continue (chat_state ch) then (False, ch)
      else
        let ch = upd_chat (ss_reincarnate_mode_update (\<lambda>_. False)) ch in
        case tu_userprompt env (ch_clock ch) of
          None \<Rightarrow> (True, ch)
        | Some text \<Rightarrow> (True, if list_all is_space text then ch else start_reincarnated env ch))"

definition finish_turn :: "('m, 's, 'v) turn_env \<Rightarrow> gen_result \<Rightarrow> ('m, 's, 'v) chat \<Rightarrow> ('m, 's, 'v) chat" where
  "finish_turn env r ch =
     (let (done, ch) = handle_reincarnate_completion env (upd_chat reset_turn_failure_latches ch) in
      if done then ch
      else let (last_input, c) = prompt_return (tu_ops env) (gr_was_interrupted r) (gr_ctx_limit_interrupt r)
                 (ch_last_input ch) (ch_core ch)
           in ch\<lparr>ch_core := c, ch_last_input := last_input\<rparr>)"

subsection \<open>One iteration\<close>

definition note_stuck :: "gen_result \<Rightarrow> ('m, 's, 'v) chat \<Rightarrow> ('m, 's, 'v) chat" where
  "note_stuck r ch =
     (if gr_stuck_in_tool_call r then upd_chat stuck_latch ch else ch)"

definition answer_turn :: "('m, 's, 'v) turn_env \<Rightarrow> ('m, 's, 'v) chat \<Rightarrow> turn_fault + ('m, 's, 'v) chat" where
  "answer_turn env ch =
     res_bind (generate_response env False ch) (\<lambda>ch.
     res_bind (recover env ch) (\<lambda>ch.
     let r = ch_gen ch in
     res_bind (process_tool_call env ch) (\<lambda>(continue, ch).
       if continue then Inr ch
       else let ch = note_stuck r ch in
         if ss_tool_correction_mode (chat_state ch) then correct_call env ch
         else Inr (finish_turn env r ch))))"

definition turn_iteration ::
  "('m, 's, 'v) turn_env \<Rightarrow> string \<Rightarrow> ('m, 's, 'v) chat \<Rightarrow> turn_fault + ('m, 's, 'v) chat" where
  "turn_iteration env input ch =
     (let ch = ch\<lparr>ch_core := (ch_core ch)\<lparr>co_stop := False\<rparr>\<rparr> in
      if input = [] \<and> \<not> ss_auto_continue (chat_state ch) then Inr ch
      else let (go, ch) = (if input = [] then (True, ch) else user_step env input ch) in
        if go then answer_turn env ch else Inr ch)"

text \<open>\<open>/continue\<close>: whether the loop goes on to a response.\<close>

definition continue_cmd :: "('m, 's, 'v) turn_env \<Rightarrow> ('m, 's, 'v) chat \<Rightarrow> bool \<times> ('m, 's, 'v) chat" where
  "continue_cmd env ch =
     (let s = chat_state ch in
      if ss_tool_interrupt_pending s \<or> ss_prev_was_interrupted s then
        (True, upd_chat (\<lambda>s. s\<lparr>ss_prev_was_interrupted := False, ss_auto_continue := True\<rparr>) ch)
      else if ss_first_turn_done s then
        (if position_ends_mid_turn env ch then (False, ch)
         else let ch = set_auto True ch;
                  prefill = tu_tokenize env False (mf_text (assistant_turn_start (tu_mt env)))
           in if prefill \<noteq> [] \<and> chat_n_past ch + int (length prefill) < tu_n_ctx env then
                (let (_, ch) = feed_chat env prefill ch in
                 (True, if ss_conversation_text (chat_state ch) \<noteq> []
                    then set_conv (ss_conversation_text (chat_state ch) @ mf_text (assistant_turn_start (tu_mt env))) ch
                    else ch))
              else (True, ch))
      else (False, ch))"

text \<open>\<open>/reincarnate\<close> with the request already composed from the file of instructions.\<close>

definition reincarnate_cmd :: "('m, 's, 'v) turn_env \<Rightarrow> string \<Rightarrow> ('m, 's, 'v) chat \<Rightarrow> ('m, 's, 'v) chat" where
  "reincarnate_cmd env request ch =
     (let (toks, ch) = build_new_user_turn_tokens env request ch in
      if chat_n_past ch + int (length toks) \<ge> tu_n_ctx env then ch
      else let (ok, ch) = feed_chat env toks ch in
        if \<not> ok then ch\<lparr>ch_core := (ch_core ch)\<lparr>co_stop := False\<rparr>\<rparr>
        else upd_chat (\<lambda>s. reset_session_state (s\<lparr>ss_conversation_text := [], ss_auto_continue := True,
               ss_reincarnate_mode := True\<rparr>)) ch)"

end
