(* ===== verification/Lim_Scan.thy ===== *)
theory Lim_Scan
  imports Lim_GenText
begin

section \<open>The incremental scans of a generation find what a full scan finds\<close>

text \<open>
  After each token the generator searches only the end of the text: for the tags of the thinking block from
  a remembered position, for the opening tag of a call in the last characters. This theory states what a
  scan of the whole text would find, and shows that the incremental one finds the same, piece by piece.
\<close>

subsection \<open>Occurrences\<close>

definition occurs :: "'a list \<Rightarrow> 'a list \<Rightarrow> nat \<Rightarrow> bool" where
  "occurs pat s p \<longleftrightarrow> p \<le> length s \<and> prefix pat (drop p s)"

lemma occurs_length: "occurs pat s p \<Longrightarrow> p + length pat \<le> length s"
  unfolding occurs_def using prefix_length_le [of pat "drop p s"] by auto

lemma occurs_app: "occurs pat (s @ x) p \<Longrightarrow> p + length pat \<le> length s \<Longrightarrow> occurs pat s p"
proof -
  assume o: "occurs pat (s @ x) p" and l: "p + length pat \<le> length s"
  then have "prefix pat (drop p s @ x)" by (simp add: occurs_def)
  moreover have "prefix (drop p s) (drop p s @ x)" by simp
  ultimately have "prefix pat (drop p s)" by (rule prefix_length_prefix) (use l in simp)
  with l show "occurs pat s p" by (simp add: occurs_def)
qed

lemma occurs_grow: "occurs pat s p \<Longrightarrow> occurs pat (s @ x) p"
  by (auto simp: occurs_def intro: prefix_prefix)

lemma find_Some: "str_find s pat a = Some p \<longleftrightarrow> a \<le> p \<and> occurs pat s p \<and> (\<forall>q. a \<le> q \<and> q < p \<longrightarrow> \<not> occurs pat s q)"
  by (auto simp: str_find_Some_iff occurs_def)

lemma find_None: "str_find s pat a = None \<longleftrightarrow> (\<forall>p \<ge> a. \<not> occurs pat s p)"
  by (auto simp: str_find_None_iff occurs_def)

text \<open>A tag whose first character does not come again in it does not overlap itself.\<close>

lemma occurs_apart:
  assumes "occurs pat s p" "occurs pat s q" "p < q" "hd pat \<notin> set (tl pat)"
  shows "p + length pat \<le> q"
proof (rule ccontr)
  assume "\<not> p + length pat \<le> q"
  then have k: "0 < q - p" "q - p < length pat" using assms(3) by auto
  have "drop p s ! (q - p) = s ! q" "q < length s" "pat \<noteq> []"
    using occurs_length [OF assms(1)] k assms(3) by auto
  moreover have "pat ! (q - p) = drop p s ! (q - p)"
    using assms(1) k(2) by (auto simp: occurs_def prefix_def nth_append simp del: nth_drop)
  moreover have "pat ! 0 = drop q s ! 0"
    using assms(2) \<open>pat \<noteq> []\<close> by (auto simp: occurs_def prefix_def nth_append simp del: nth_drop)
  moreover have "drop q s ! 0 = s ! q" using \<open>q < length s\<close> by simp
  ultimately have "hd pat = tl pat ! (q - p - 1)" using k by (cases pat) (auto simp: nth_Cons')
  moreover have "q - p - 1 < length (tl pat)" using k by simp
  ultimately have "hd pat \<in> set (tl pat)" by (metis nth_mem)
  with assms(4) show False ..
qed

subsection \<open>The thinking block\<close>

lemma think_loop_first:
  "think_loop ts te False tx scan 1 =
     (let p_open = str_find tx ts scan; p_close = str_find tx te scan in
      if before p_open p_close then (True, 1, None, scan)
      else case p_close of None \<Rightarrow> (False, 1, None, scan) | Some e \<Rightarrow> (False, 0, Some e, scan))"
  by (subst think_loop.simps) (auto simp: before_def Let_def split: option.splits)

definition find_think :: "string \<Rightarrow> gtext \<Rightarrow> gtext" where
  "find_think ts g =
     (if gt_think_start g = None then
        (case str_find (gt_text g) ts 0 of
           None \<Rightarrow> g
         | Some p \<Rightarrow> g\<lparr>gt_think_start := Some p, gt_think_depth := 1, gt_think_scan_pos := p + length ts\<rparr>)
      else g)"

lemma find_think_keeps [simp]:
  "gt_text (find_think ts g) = gt_text g" "gt_think_end (find_think ts g) = gt_think_end g"
  "gt_tool_start (find_think ts g) = gt_tool_start g" "gt_tool_end (find_think ts g) = gt_tool_end g"
  "gt_trigger (find_think ts g) = gt_trigger g" "gt_func_search_pos (find_think ts g) = gt_func_search_pos g"
  "gt_hook_pending (find_think ts g) = gt_hook_pending g" "gt_outside_count (find_think ts g) = gt_outside_count g"
  "gt_in_tool_stream (find_think ts g) = gt_in_tool_stream g"
  "gt_think_start g \<noteq> None \<Longrightarrow> find_think ts g = g"
  "gt_think_depth g = 1 \<or> gt_think_start g = None \<Longrightarrow> gt_think_start (find_think ts g) \<noteq> None \<Longrightarrow>
     gt_think_depth (find_think ts g) = 1"
  by (auto simp: find_think_def split: option.splits)

lemma detect_think_open:
  assumes "ts \<noteq> []" "te \<noteq> []" "gt_think_start (find_think ts g) \<noteq> None" "gt_think_end g = None"
    and "think_loop ts te silent (gt_text g) (min (gt_think_scan_pos (find_think ts g)) (length (gt_text g)))
      (gt_think_depth (find_think ts g)) = (tripped, d, e, sc)"
  shows "detect_think ts te silent g = (tripped, (find_think ts g)\<lparr>gt_think_depth := d, gt_think_end := e,
        gt_think_scan_pos := max sc (tail_pos (gt_text g) (max (length ts) (length te) - 1)),
        gt_in_thinking := (e = None)\<rparr>)"
  using assms by (simp add: detect_think_def find_think_def [symmetric] Let_def)

lemma detect_think_idle:
  assumes "\<not> (gt_think_start (find_think ts g) \<noteq> None \<and> gt_think_end g = None)" "ts \<noteq> []" "te \<noteq> []"
  shows "detect_think ts te silent g = (False, (find_think ts g)\<lparr>gt_in_thinking := False\<rparr>)"
  using assms by (auto simp: detect_think_def find_think_def [symmetric] Let_def)

text \<open>What is known of the block once the text has been scanned: an open block has no closing tag from the
  remembered position on, and every opening tag of a call lies in the block unless one was found.\<close>

definition think_scanned :: "string \<Rightarrow> string \<Rightarrow> gtext \<Rightarrow> bool" where
  "think_scanned ts te g \<longleftrightarrow>
     (gt_think_start g = None \<longrightarrow> gt_think_end g = None)
     \<and> (gt_think_start g \<noteq> None \<and> gt_think_end g = None \<longrightarrow> gt_think_depth g = 1
          \<and> (ts \<noteq> [] \<and> te \<noteq> [] \<longrightarrow> (\<forall>p \<ge> gt_think_scan_pos g. \<not> occurs te (gt_text g) p)))"

lemma detect_think_scanned:
  assumes "detect_think ts te False (g\<lparr>gt_text := gt_text g @ x\<rparr>) = (False, g')" "think_scanned ts te g"
  shows "think_scanned ts te g' \<and> gt_text g' = gt_text g @ x
    \<and> (gt_think_start g \<noteq> None \<longrightarrow> gt_think_start g' = gt_think_start g)
    \<and> (gt_think_end g \<noteq> None \<longrightarrow> gt_think_end g' = gt_think_end g)
    \<and> (\<forall>e. gt_think_start g \<noteq> None \<and> gt_think_end g = None \<and> gt_think_end g' = Some e \<longrightarrow>
         length (gt_text g) < e + length te)
    \<and> gt_tool_start g' = gt_tool_start g \<and> gt_tool_end g' = gt_tool_end g \<and> gt_trigger g' = gt_trigger g
    \<and> gt_func_search_pos g' = gt_func_search_pos g \<and> gt_hook_pending g' = gt_hook_pending g
    \<and> gt_outside_count g' = gt_outside_count g \<and> gt_in_tool_stream g' = gt_in_tool_stream g"
proof (cases "ts \<noteq> [] \<and> te \<noteq> []")
  case False
  then show ?thesis using assms by (auto simp: detect_think_def think_scanned_def)
next
  case True
  note S = assms(2) [unfolded think_scanned_def]
  let ?tx = "gt_text g @ x"
  define g1 where "g1 = find_think ts (g\<lparr>gt_text := ?tx\<rparr>)"
  have t1: "gt_text g1 = ?tx" "gt_think_end g1 = gt_think_end g"
    "gt_think_start g \<noteq> None \<Longrightarrow> g1 = g\<lparr>gt_text := ?tx\<rparr>"
    and o1: "gt_tool_start g1 = gt_tool_start g" "gt_tool_end g1 = gt_tool_end g" "gt_trigger g1 = gt_trigger g"
    "gt_func_search_pos g1 = gt_func_search_pos g" "gt_hook_pending g1 = gt_hook_pending g"
    "gt_outside_count g1 = gt_outside_count g" "gt_in_tool_stream g1 = gt_in_tool_stream g"
    by (simp_all add: g1_def)
  show ?thesis
  proof (cases "gt_think_start g1 \<noteq> None \<and> gt_think_end g1 = None")
    case False
    then have "g' = g1\<lparr>gt_in_thinking := False\<rparr>"
      using assms(1) True detect_think_idle [of ts "g\<lparr>gt_text := ?tx\<rparr>" te False] by (simp add: g1_def)
    with False S t1 o1 show ?thesis
      by (cases "gt_think_start g") (auto simp: think_scanned_def)
  next
    case open_block: True
    then have d1: "gt_think_depth g1 = 1"
      using S t1(2) by (auto simp: g1_def)
    let ?scan = "min (gt_think_scan_pos g1) (length ?tx)"
    obtain tr d e sc where L: "think_loop ts te False ?tx ?scan 1 = (tr, d, e, sc)" by (metis prod_cases4)
    have g': "\<not> tr" "g' = g1\<lparr>gt_think_depth := d, gt_think_end := e,
        gt_think_scan_pos := max sc (tail_pos ?tx (max (length ts) (length te) - 1)), gt_in_thinking := (e = None)\<rparr>"
      using assms(1) True open_block L d1 t1(1,2)
        detect_think_open [of ts te "g\<lparr>gt_text := ?tx\<rparr>" False tr d e sc] by (simp_all add: g1_def)
    have sc: "sc = ?scan" "e = str_find ?tx te ?scan" "e = None \<Longrightarrow> d = 1"
      using L g'(1) by (auto simp: think_loop_first before_def Let_def split: option.splits if_splits)
    have none: "e = None \<Longrightarrow> \<forall>p \<ge> ?scan. \<not> occurs te ?tx p" using sc(2) by (simp add: find_None)
    have far: "length (gt_text g) < q + length te"
      if "gt_think_start g \<noteq> None" "gt_think_end g = None" "e = Some q" for q
    proof (rule ccontr)
      assume "\<not> ?thesis"
      then have "q + length te \<le> length (gt_text g)" by simp
      moreover have q: "?scan \<le> q" "occurs te ?tx q" using that(3) sc(2) by (simp_all add: find_Some eq_commute [of "Some q"])
      ultimately have o: "occurs te (gt_text g) q" by (simp add: occurs_app)
      have "gt_think_scan_pos g1 = gt_think_scan_pos g" using t1(3) [OF that(1)] by simp
      moreover have "0 < length te" using True by simp
      moreover from this have "q < length (gt_text g)" using \<open>q + length te \<le> length (gt_text g)\<close> by linarith
      ultimately have "gt_think_scan_pos g \<le> q" using q(1) by (auto simp: min_def split: if_splits)
      then show False using S that(1,2) True o by blast
    qed
    have st: "gt_think_start g \<noteq> None \<Longrightarrow> gt_think_start g1 = gt_think_start g" using t1(3) by simp
    have "gt_think_end g = None" using open_block t1(2) by simp
    moreover have "think_scanned ts te g'"
      unfolding g'(2) think_scanned_def using open_block none sc(1,3) t1(1) by (simp, blast)
    moreover have "gt_text g' = ?tx" "gt_think_start g' = gt_think_start g1" "gt_think_end g' = e"
      using g'(2) t1(1) by simp_all
    ultimately show ?thesis using st far o1 g'(2) by simp
  qed
qed

subsection \<open>The opening tag of a call\<close>

definition call_scanned :: "string \<Rightarrow> gtext \<Rightarrow> bool" where
  "call_scanned te g \<longleftrightarrow> gt_tool_start g = None \<longrightarrow>
     (gt_func_search_pos g = 0 \<or> gt_func_search_pos g + length FUNC_START \<le> length (gt_text g))
     \<and> (\<forall>p. occurs FUNC_START (gt_text g) p \<longrightarrow> in_think_block te g p)"

lemma FUNC_START_apart: "hd FUNC_START \<notin> set (tl FUNC_START)" "FUNC_START \<noteq> []"
  by (simp_all add: FUNC_START_def)

lemma find_func_start_spec:
  "case find_func_start skip tx a of
     Some p \<Rightarrow> a \<le> p \<and> occurs FUNC_START tx p \<and> \<not> skip p \<and> (\<forall>q. a \<le> q \<and> q < p \<and> occurs FUNC_START tx q \<longrightarrow> skip q)
   | None \<Rightarrow> \<forall>q \<ge> a. occurs FUNC_START tx q \<longrightarrow> skip q"
proof (induction skip tx a rule: find_func_start.induct)
  case (1 skip tx a)
  show ?case
  proof (cases "str_find tx FUNC_START a")
    case None
    moreover from this have "\<forall>q \<ge> a. \<not> occurs FUNC_START tx q" by (simp add: find_None)
    ultimately show ?thesis by (simp add: find_func_start.simps [of skip tx a])
  next
    case (Some p)
    note P = Some [unfolded find_Some]
    show ?thesis
    proof (cases "skip p")
      case False
      with Some P show ?thesis by (simp add: find_func_start.simps [of skip tx a]) blast
    next
      case True
      have e: "find_func_start skip tx a = find_func_start skip tx (p + length FUNC_START)"
        using Some True by (simp add: find_func_start.simps [of skip tx a])
      have "p + length FUNC_START \<le> q \<or> skip q" if "a \<le> q" "occurs FUNC_START tx q" for q
        using occurs_apart [OF _ that(2), of p] FUNC_START_apart(1) P True that
        by (cases "q < p"; cases "q = p") auto
      then show ?thesis
        using 1 [OF Some True] P unfolding e by (fastforce split: option.splits)
    qed
  qed
qed

lemma block_stays:
  assumes "in_think_block te g p" "occurs FUNC_START (gt_text g) p"
    and "gt_think_start g \<noteq> None \<longrightarrow> gt_think_start g' = gt_think_start g"
    and "gt_think_end g \<noteq> None \<longrightarrow> gt_think_end g' = gt_think_end g"
    and "\<forall>e. gt_think_start g \<noteq> None \<and> gt_think_end g = None \<and> gt_think_end g' = Some e \<longrightarrow>
         length (gt_text g) < e + length te"
  shows "in_think_block te g' p"
  using assms occurs_length [OF assms(2)] by (auto simp: in_think_block_def split: option.splits)

text \<open>A call that is found was completed by the last piece, is the first opening tag outside of the block,
  and announces itself to the session.\<close>

lemma scan_step:
  assumes "detect_think ts te False (g\<lparr>gt_text := gt_text g @ x\<rparr>) = (False, g1)"
    and "think_scanned ts te g" "call_scanned te g" "gt_tool_start g = None"
  shows "call_scanned te (detect_tool_start te g1)
    \<and> (case gt_tool_start (detect_tool_start te g1) of
         None \<Rightarrow> gt_hook_pending (detect_tool_start te g1) = gt_hook_pending g
       | Some p \<Rightarrow> occurs FUNC_START (gt_text g1) p \<and> \<not> in_think_block te g1 p
           \<and> (\<forall>q < p. occurs FUNC_START (gt_text g1) q \<longrightarrow> in_think_block te g1 q)
           \<and> length (gt_text g) < p + length FUNC_START \<and> gt_hook_pending (detect_tool_start te g1))"
proof -
  note T = detect_think_scanned [OF assms(1,2)]
  have old: "in_think_block te g1 p" if "occurs FUNC_START (gt_text g1) p" "p + length FUNC_START \<le> length (gt_text g)" for p
  proof -
    have o: "occurs FUNC_START (gt_text g) p" using that T by (auto intro: occurs_app)
    then have "in_think_block te g p" using assms(3,4) by (simp add: call_scanned_def)
    from block_stays [OF this o] T show ?thesis by blast
  qed
  have pos: "gt_func_search_pos g1 = gt_func_search_pos g" "gt_tool_start g1 = None" using T assms(4) by auto
  have small: "in_think_block te g1 q" if "q < gt_func_search_pos g" "occurs FUNC_START (gt_text g1) q" for q
    using old [OF that(2)] that(1) assms(3,4) by (auto simp: call_scanned_def)
  show ?thesis
  proof (cases "find_func_start (in_think_block te g1) (gt_text g1) (gt_func_search_pos g1)")
    case None
    have n: "in_think_block te g1 q" if "occurs FUNC_START (gt_text g1) q" for q
      using find_func_start_spec [where skip = "in_think_block te g1" and tx = "gt_text g1" and a = "gt_func_search_pos g1"] None small that pos(1)
      by (cases "q < gt_func_search_pos g") auto
    have e: "detect_tool_start te g1 = g1\<lparr>gt_func_search_pos := tail_pos (gt_text g1) FUNC_SEARCH_TAIL\<rparr>"
      using None pos by (simp add: detect_tool_start_def)
    have "in_think_block te (g1\<lparr>gt_func_search_pos := k\<rparr>) = in_think_block te g1" for k
      by (simp add: in_think_block_def fun_eq_iff cong: option.case_cong)
    with n pos(2) T show ?thesis
      by (simp add: e call_scanned_def tail_pos_def FUNC_SEARCH_TAIL_def)
  next
    case (Some p)
    have e: "detect_tool_start te g1 = g1\<lparr>gt_tool_start := Some p, gt_hook_pending := True\<rparr>"
      using Some pos by (simp add: detect_tool_start_def)
    have P: "gt_func_search_pos g \<le> p" "occurs FUNC_START (gt_text g1) p" "\<not> in_think_block te g1 p"
      "\<forall>q. gt_func_search_pos g \<le> q \<and> q < p \<and> occurs FUNC_START (gt_text g1) q \<longrightarrow> in_think_block te g1 q"
      using find_func_start_spec [where skip = "in_think_block te g1" and tx = "gt_text g1" and a = "gt_func_search_pos g1"] Some pos(1) by auto
    have "length (gt_text g) < p + length FUNC_START" using old P(2,3) by (meson not_le)
    moreover have "in_think_block te g1 q" if "q < p" "occurs FUNC_START (gt_text g1) q" for q
      using small [OF _ that(2)] P(4) that by (cases "q < gt_func_search_pos g") auto
    ultimately show ?thesis using P by (simp add: e call_scanned_def)
  qed
qed

subsection \<open>A whole text, piece by piece\<close>

text \<open>The block and the call as a scan of the whole text finds them.\<close>

definition block_of :: "string \<Rightarrow> string \<Rightarrow> string \<Rightarrow> nat option \<times> nat option" where
  "block_of ts te tx =
     (case str_find tx ts 0 of
        None \<Rightarrow> (None, None)
      | Some s \<Rightarrow> (Some s, str_find tx te (s + length ts)))"

definition outside :: "string \<Rightarrow> nat option \<times> nat option \<Rightarrow> nat \<Rightarrow> bool" where
  "outside te block p \<longleftrightarrow>
     (case block of
        (None, _) \<Rightarrow> True
      | (Some s, e) \<Rightarrow> p < s \<or> (case e of None \<Rightarrow> False | Some e \<Rightarrow> e + length te \<le> p))"

fun scan_pieces :: "string \<Rightarrow> string \<Rightarrow> string list \<Rightarrow> gtext \<Rightarrow> gtext option" where
  "scan_pieces ts te [] g = Some g"
| "scan_pieces ts te (x # xs) g =
     (let (tripped, g) = detect_think ts te False (g\<lparr>gt_text := gt_text g @ x\<rparr>)
      in if tripped then None else scan_pieces ts te xs (detect_tool_start te g))"

definition block_exact :: "string \<Rightarrow> string \<Rightarrow> gtext \<Rightarrow> bool" where
  "block_exact ts te g \<longleftrightarrow> (gt_think_start g, gt_think_end g) = block_of ts te (gt_text g)
     \<and> (\<forall>s. gt_think_start g = Some s \<and> gt_think_end g = None \<longrightarrow> s + length ts \<le> gt_think_scan_pos g
          \<and> (\<forall>q < gt_think_scan_pos g. s + length ts \<le> q \<longrightarrow> q + length te \<le> length (gt_text g)))"

lemma find_grow: "str_find s pat a = Some p \<Longrightarrow> str_find (s @ x) pat a = Some p"
proof -
  assume "str_find s pat a = Some p"
  then have f: "a \<le> p" "occurs pat s p" "\<forall>q. a \<le> q \<and> q < p \<longrightarrow> \<not> occurs pat s q" by (simp_all add: find_Some)
  have "\<not> occurs pat (s @ x) q" if "a \<le> q" "q < p" for q
    using f(3) that occurs_length [OF f(2)] occurs_app [of pat s x q] by auto
  with f(1,2) show ?thesis by (simp add: find_Some occurs_grow)
qed

lemma block_exact_step:
  assumes "detect_think ts te False (g\<lparr>gt_text := gt_text g @ x\<rparr>) = (False, g')"
    and "think_scanned ts te g" "block_exact ts te g" "ts \<noteq> []" "te \<noteq> []"
  shows "block_exact ts te g'"
proof -
  note B = assms(3) [unfolded block_exact_def]
  let ?tx = "gt_text g @ x"
  define g1 where "g1 = find_think ts (g\<lparr>gt_text := ?tx\<rparr>)"
  have t1: "gt_text g1 = ?tx" "gt_think_end g1 = gt_think_end g"
    "gt_think_start g \<noteq> None \<Longrightarrow> g1 = g\<lparr>gt_text := ?tx\<rparr>" by (simp_all add: g1_def)
  have st: "gt_think_start g1 = str_find ?tx ts 0"
  proof (cases "gt_think_start g")
    case None
    then show ?thesis by (simp add: g1_def find_think_def split: option.splits)
  next
    case (Some s)
    then have "str_find (gt_text g) ts 0 = Some s" using B by (auto simp: block_of_def split: option.splits)
    with Some t1(3) show ?thesis using find_grow [of "gt_text g" ts 0 s x] by simp
  qed
  have en: "gt_think_end g = str_find (gt_text g) te (s + length ts)" if "gt_think_start g = Some s" for s
    using B that by (auto simp: block_of_def split: option.splits)
  show ?thesis
  proof (cases "gt_think_start g1 \<noteq> None \<and> gt_think_end g = None")
    case False
    then have g': "g' = g1\<lparr>gt_in_thinking := False\<rparr>"
      using assms(1,4,5) detect_think_idle [of ts "g\<lparr>gt_text := ?tx\<rparr>" te False] by (simp add: g1_def)
    show ?thesis
    proof (cases "gt_think_start g1")
      case None
      then have "gt_think_start g = None" using t1(3) by fastforce
      then have "gt_think_end g = None" using B by (auto simp: block_of_def split: option.splits)
      with None st t1(1,2) show ?thesis by (simp add: g' block_exact_def block_of_def)
    next
      case (Some s)
      with False obtain e where e: "gt_think_end g = Some e" by auto
      then have g: "gt_think_start g = Some s"
        using B Some t1(3) by (cases "gt_think_start g") (auto simp: block_of_def split: option.splits)
      have "str_find ?tx te (s + length ts) = Some e" using en [OF g] e by (intro find_grow) simp
      with Some e st t1(1,2) show ?thesis by (simp add: g' block_exact_def block_of_def)
    qed
  next
    case True
    then obtain s where s: "gt_think_start g1 = Some s" by auto
    have d1: "gt_think_depth g1 = 1" using assms(2) True by (auto simp: g1_def think_scanned_def)
    let ?scan = "min (gt_think_scan_pos g1) (length ?tx)"
    obtain tr d e sc where L: "think_loop ts te False ?tx ?scan 1 = (tr, d, e, sc)" by (metis prod_cases4)
    have g': "\<not> tr" "g' = g1\<lparr>gt_think_depth := d, gt_think_end := e,
        gt_think_scan_pos := max sc (tail_pos ?tx (max (length ts) (length te) - 1)), gt_in_thinking := (e = None)\<rparr>"
      using assms(1,4,5) True L d1 t1(1,2)
        detect_think_open [of ts te "g\<lparr>gt_text := ?tx\<rparr>" False tr d e sc] by (simp_all add: g1_def)
    have sc: "sc = ?scan" "e = str_find ?tx te ?scan"
      using L g'(1) by (auto simp: think_loop_first before_def Let_def split: option.splits if_splits)
    have "str_find ?tx ts 0 = Some s" using st s by simp
    then have oc: "s + length ts \<le> length ?tx" by (blast dest: str_find_boundsD)
    have pos: "s + length ts \<le> gt_think_scan_pos g1
        \<and> (\<forall>q < gt_think_scan_pos g1. s + length ts \<le> q \<longrightarrow> q + length te \<le> length (gt_text g) \<and> gt_think_start g = Some s)"
    proof (cases "gt_think_start g")
      case None
      then show ?thesis using s st by (simp add: g1_def find_think_def split: option.splits)
    next
      case (Some r)
      then show ?thesis using s t1(3) B True by simp
    qed
    have none: "\<not> occurs te ?tx q" if "s + length ts \<le> q" "q < ?scan" for q
    proof
      assume o: "occurs te ?tx q"
      have q: "q + length te \<le> length (gt_text g)" "gt_think_start g = Some s" using pos that by auto
      have "occurs te (gt_text g) q" by (rule occurs_app [OF o q(1)])
      moreover have "str_find (gt_text g) te (s + length ts) = None" using en [OF q(2)] True by simp
      ultimately show False using that(1) by (simp add: find_None)
    qed
    have "e = str_find ?tx te (s + length ts)"
    proof (cases e)
      case None
      with sc(2) have "str_find ?tx te ?scan = None" by simp
      then have "\<forall>q \<ge> ?scan. \<not> occurs te ?tx q" by (simp only: find_None)
      then have "\<forall>q \<ge> s + length ts. \<not> occurs te ?tx q" using none by (meson not_le)
      then have "str_find ?tx te (s + length ts) = None" by (simp only: find_None)
      with None show ?thesis by simp
    next
      case (Some p)
      with sc(2) have p: "?scan \<le> p" "occurs te ?tx p" "\<forall>q. ?scan \<le> q \<and> q < p \<longrightarrow> \<not> occurs te ?tx q"
        by (simp_all add: find_Some eq_commute [of "Some p"])
      have "s + length ts \<le> p" using pos p(1) oc by (simp add: min_def split: if_splits)
      moreover have "\<forall>q. s + length ts \<le> q \<and> q < p \<longrightarrow> \<not> occurs te ?tx q" using none p(3) by (meson not_le)
      ultimately have "str_find ?tx te (s + length ts) = Some p" using p(2) by (simp only: find_Some)
      with Some show ?thesis by simp
    qed
    moreover have "s + length ts \<le> gt_think_scan_pos g'" using pos oc sc(1) g'(2) by (simp add: le_max_iff_disj)
    moreover have "q + length te \<le> length ?tx" if "q < gt_think_scan_pos g'" "s + length ts \<le> q" for q
      using that pos sc(1) g'(2) assms(4,5) by (auto simp: tail_pos_def less_max_iff_disj split: if_splits)
    ultimately show ?thesis
      using s st t1(1) g'(2) by (simp add: block_exact_def block_of_def)
  qed
qed

text \<open>The state of the scan: the block is that of the whole text, and the call is its first opening tag
  outside of the block.\<close>

abbreviation block :: "gtext \<Rightarrow> nat option \<times> nat option" where
  "block g \<equiv> (gt_think_start g, gt_think_end g)"

definition scan_exact :: "string \<Rightarrow> string \<Rightarrow> gtext \<Rightarrow> bool" where
  "scan_exact ts te g \<longleftrightarrow> think_scanned ts te g \<and> block_exact ts te g \<and> call_scanned te g
     \<and> (\<forall>p. gt_tool_start g = Some p \<longrightarrow> occurs FUNC_START (gt_text g) p \<and> outside te (block g) p
          \<and> (\<forall>q < p. occurs FUNC_START (gt_text g) q \<longrightarrow> \<not> outside te (block g) q))"

lemma in_block_outside: "in_think_block te g p \<longleftrightarrow> \<not> outside te (block g) p"
  by (auto simp: in_think_block_def outside_def split: option.splits)

lemma detect_tool_start_keeps [simp]:
  "gt_text (detect_tool_start te g) = gt_text g" "gt_think_start (detect_tool_start te g) = gt_think_start g"
  "gt_think_end (detect_tool_start te g) = gt_think_end g" "gt_think_depth (detect_tool_start te g) = gt_think_depth g"
  "gt_think_scan_pos (detect_tool_start te g) = gt_think_scan_pos g" "gt_tool_end (detect_tool_start te g) = gt_tool_end g"
  "gt_trigger (detect_tool_start te g) = gt_trigger g" "gt_outside_count (detect_tool_start te g) = gt_outside_count g"
  "gt_in_tool_stream (detect_tool_start te g) = gt_in_tool_stream g"
  "gt_tool_start g = Some p \<Longrightarrow> detect_tool_start te g = g"
  by (auto simp: detect_tool_start_def split: option.splits)

lemma outside_stays:
  assumes "detect_think ts te False (g\<lparr>gt_text := gt_text g @ x\<rparr>) = (False, g1)"
    and "think_scanned ts te g" "block_exact ts te g" "block_exact ts te g1" "\<not> sublist FUNC_START ts"
    and "occurs FUNC_START (gt_text g) p" "outside te (block g) p"
  shows "outside te (block g1) p"
proof (cases "gt_think_start g")
  case (Some s)
  then show ?thesis
    using assms(7) detect_think_scanned [OF assms(1,2)] by (auto simp: outside_def split: option.splits)
next
  case None
  note T = detect_think_scanned [OF assms(1,2)]
  show ?thesis
  proof (rule ccontr)
    assume n: "\<not> ?thesis"
    then obtain s where s: "gt_think_start g1 = Some s" "s \<le> p"
      by (auto simp: outside_def split: option.splits)
    have f: "str_find (gt_text g @ x) ts 0 = Some s" "str_find (gt_text g) ts 0 = None"
      using assms(3,4) s(1) None T by (auto simp: block_exact_def block_of_def split: option.splits)
    then have o: "occurs ts (gt_text g @ x) s" "\<not> occurs ts (gt_text g) s" by (simp_all add: find_Some find_None)
    then have l: "length (gt_text g) < s + length ts" using occurs_app by (metis not_le)
    have "occurs FUNC_START (gt_text g @ x) p" by (rule occurs_grow [OF assms(6)])
    then have F: "prefix FUNC_START (drop p (gt_text g @ x))" by (simp add: occurs_def)
    have T': "prefix (drop (p - s) ts) (drop p (gt_text g @ x))"
    proof -
      obtain r where r: "drop s (gt_text g @ x) = ts @ r" using o(1) by (auto simp: occurs_def prefix_def)
      have "drop p (gt_text g @ x) = drop (p - s) (ts @ r)"
        using s(2) r by (metis drop_drop le_add_diff_inverse2)
      from trans [OF this drop_append] show ?thesis by simp
    qed
    have "length FUNC_START \<le> length (drop (p - s) ts)"
      using occurs_length [OF assms(6)] l s(2) by simp
    from prefix_length_prefix [OF F T' this] have "sublist FUNC_START (drop (p - s) ts)" by (rule prefix_imp_sublist)
    then have "sublist FUNC_START ts" using sublist_drop sublist_order.order_trans by blast
    with assms(5) show False ..
  qed
qed

lemma scan_exact_step:
  assumes "detect_think ts te False (g\<lparr>gt_text := gt_text g @ x\<rparr>) = (False, g1)" "scan_exact ts te g"
    and "ts \<noteq> []" "te \<noteq> []" "\<not> sublist FUNC_START ts"
  shows "scan_exact ts te (detect_tool_start te g1) \<and> gt_text (detect_tool_start te g1) = gt_text g @ x"
proof -
  note S = assms(2) [unfolded scan_exact_def]
  have S0: "think_scanned ts te g" "block_exact ts te g" using S by blast+
  note T = detect_think_scanned [OF assms(1) S0(1)]
  have T1: "think_scanned ts te g1" "gt_text g1 = gt_text g @ x" "gt_tool_start g1 = gt_tool_start g"
    by (rule conjunct1 [OF T]) (use T in simp_all)
  note E = block_exact_step [OF assms(1) S0 assms(3,4)]
  have k: "think_scanned ts te (detect_tool_start te g1) = think_scanned ts te g1"
    "block_exact ts te (detect_tool_start te g1) = block_exact ts te g1"
    by (simp_all add: think_scanned_def block_exact_def)
  show ?thesis
  proof (cases "gt_tool_start g")
    case None
    have "call_scanned te g" using S by blast
    note N = scan_step [OF assms(1) S0(1) this None]
    let ?g = "detect_tool_start te g1"
    have "\<forall>p. gt_tool_start ?g = Some p \<longrightarrow> occurs FUNC_START (gt_text ?g) p
        \<and> outside te (block ?g) p \<and> (\<forall>q < p. occurs FUNC_START (gt_text ?g) q \<longrightarrow> \<not> outside te (block ?g) q)"
      using conjunct2 [OF N] by (cases "gt_tool_start ?g") (simp_all add: in_block_outside)
    moreover have "call_scanned te ?g" by (rule conjunct1 [OF N])
    moreover have "gt_text ?g = gt_text g @ x" using T1(2) by simp
    moreover have "think_scanned ts te ?g" unfolding k by (rule T1(1))
    moreover have "block_exact ts te ?g" unfolding k by (rule E)
    ultimately show ?thesis by (simp only: scan_exact_def)
  next
    case (Some p)
    then have g1: "gt_tool_start g1 = Some p" "gt_text g1 = gt_text g @ x" using T1 by simp_all
    let ?g = "detect_tool_start te g1"
    have g: "?g = g1" using g1(1) by simp
    have o: "occurs FUNC_START (gt_text g) p" "outside te (block g) p"
      "\<forall>q < p. occurs FUNC_START (gt_text g) q \<longrightarrow> \<not> outside te (block g) q" using S Some by blast+
    have bl: "in_think_block te g1 q" if "in_think_block te g q" "occurs FUNC_START (gt_text g) q" for q
      using block_stays [OF that] T by blast
    have in_block: "\<not> outside te (block g1) q" if "q < p" "occurs FUNC_START (gt_text g1) q" for q
    proof -
      have oq: "occurs FUNC_START (gt_text g) q"
        using that(2) unfolding g1(2) by (rule occurs_app) (use that(1) occurs_length [OF o(1)] in linarith)
      then have "in_think_block te g q" using o(3) that(1) by (simp add: in_block_outside)
      from bl [OF this oq] show ?thesis by (simp only: in_block_outside) simp
    qed
    have "outside te (block g1) p"
      by (rule outside_stays [OF assms(1) S0 E assms(5) o(1,2)])
    moreover have "occurs FUNC_START (gt_text g1) p" unfolding g1(2) by (rule occurs_grow [OF o(1)])
    moreover have "call_scanned te g1" using g1(1) by (simp add: call_scanned_def)
    ultimately show ?thesis using E g1 T1(1) in_block unfolding g scan_exact_def by simp
  qed
qed

lemma scan_pieces_exact:
  assumes "scan_pieces ts te xs g = Some g'" "scan_exact ts te g" "ts \<noteq> []" "te \<noteq> []" "\<not> sublist FUNC_START ts"
  shows "scan_exact ts te g' \<and> gt_text g' = gt_text g @ concat xs"
  using assms(1,2)
proof (induction xs arbitrary: g)
  case (Cons x xs)
  obtain tr g1 where d: "detect_think ts te False (g\<lparr>gt_text := gt_text g @ x\<rparr>) = (tr, g1)" by fastforce
  then have "\<not> tr" "scan_pieces ts te xs (detect_tool_start te g1) = Some g'"
    using Cons.prems(1) by (auto split: if_splits)
  with scan_exact_step [of ts te g x g1] d Cons.prems(2) assms(3-5) Cons.IH [of "detect_tool_start te g1"]
  show ?case by simp
qed simp

lemma scan_exact_init:
  assumes "ts \<noteq> []"
  shows "scan_exact ts te (gtext_init False False)"
proof -
  have "str_find [] ts 0 = None" "\<not> occurs FUNC_START [] p" for p
    using assms by (simp_all add: str_find_def occurs_def FUNC_START_def)
  then show ?thesis
    by (simp add: scan_exact_def think_scanned_def block_exact_def call_scanned_def gtext_init_def block_of_def)
qed

text \<open>C9: The incremental scans are exact: however a text is cut into pieces, scanning it piece by piece finds
  the thinking block a scan of the whole text finds, and the call found is the first opening tag outside
  of that block; none is found exactly when there is none. (The opening tag of the block does not
  contain that of a call.)\<close>

theorem incremental_scan:
  assumes "ts \<noteq> []" "te \<noteq> []" "\<not> sublist FUNC_START ts" "scan_pieces ts te xs (gtext_init False False) = Some g"
  shows "gt_text g = concat xs \<and> (gt_think_start g, gt_think_end g) = block_of ts te (concat xs)
    \<and> (case gt_tool_start g of
         None \<Rightarrow> \<forall>p. \<not> (occurs FUNC_START (concat xs) p \<and> outside te (block_of ts te (concat xs)) p)
       | Some p \<Rightarrow> occurs FUNC_START (concat xs) p \<and> outside te (block_of ts te (concat xs)) p
           \<and> (\<forall>q < p. \<not> (occurs FUNC_START (concat xs) q \<and> outside te (block_of ts te (concat xs)) q)))"
proof -
  have S: "scan_exact ts te g" "gt_text g = concat xs"
    using scan_pieces_exact [OF assms(4) scan_exact_init [OF assms(1)] assms(1-3)] by (simp_all add: gtext_init_def)
  then have b: "block g = block_of ts te (concat xs)" by (simp add: scan_exact_def block_exact_def)
  show ?thesis
    using S unfolding b [symmetric] scan_exact_def call_scanned_def in_block_outside by (auto split: option.splits)
qed

theorem incremental_scan_witness:
  "case scan_pieces ''<think>'' ''</think>'' [''<thi'', ''nk> <functi'', ''on=a </'', ''think> <fun'', ''ction=b'']
      (gtext_init False False) of
     Some g \<Rightarrow> (gt_think_start g, gt_think_end g) = (Some 0, Some 20) \<and> gt_tool_start g = Some 29
   | None \<Rightarrow> False"
proof -
  let ?xs = "[''<thi'', ''nk> <functi'', ''on=a </'', ''think> <fun'', ''ction=b'']"
  have "map_option gt_tool_start (scan_pieces ''<think>'' ''</think>'' ?xs (gtext_init False False)) = Some (Some 29)"
    by code_simp
  then obtain g where g: "scan_pieces ''<think>'' ''</think>'' ?xs (gtext_init False False) = Some g"
    "gt_tool_start g = Some 29" by auto
  have "\<not> sublist FUNC_START ''<think>''" by (simp add: FUNC_START_def first_at_None_sublist [symmetric])
  from incremental_scan [OF _ _ this g(1)]
  have "(gt_think_start g, gt_think_end g) = block_of ''<think>'' ''</think>'' (concat ?xs)" by simp
  also have "\<dots> = (Some 0, Some 20)" by code_simp
  finally show ?thesis using g by simp
qed

end
