(* ===== verification/Lim_TextInv.thy ===== *)
theory Lim_TextInv
  imports Lim_Scan
begin

section \<open>What a generation knows of its text\<close>

text \<open>
  The invariant of the text between two tokens, for a vocabulary in which no piece contains the closing tag of
  a call: the opening tag of the call stands where it was found, whatever is cut or repaired behind it, and a
  call is neither closed nor found stuck by the token that opens it.
\<close>

lemma find_partial_end:
  assumes "tool_end_partial tx inp pos = (Some e, inp')"
  shows "\<exists>q \<ge> pos. q \<le> e \<and> occurs partial_end tx q"
  using assms
proof (induction tx inp pos rule: tool_end_partial.induct)
  case (1 tx inp pos)
  have l: "pos < length tx" using 1(5) by (subst (asm) tool_end_partial.simps) (simp split: if_splits)
  define ps where "ps = str_find tx PARAM_START pos"
  define pe where "pe = (if inp then str_find tx PARAM_END pos else None)"
  define pp where "pp = str_find tx partial_end pos"
  obtain pb bl where b: "(if inp then (None, 0) else find_bare_param_open tx pos) = (pb, bl)" by fastforce
  have step: "\<exists>q \<ge> n. q \<le> e \<and> occurs partial_end tx q \<Longrightarrow> pos \<le> n \<Longrightarrow>
      \<exists>q \<ge> pos. q \<le> e \<and> occurs partial_end tx q" for n by (meson le_trans)
  note d = ps_def [symmetric] pe_def [symmetric] pp_def [symmetric] b
  show ?case
  proof (cases "before ps pe \<and> before ps pp \<and> before ps pb")
    case True
    then obtain p where p: "ps = Some p" by (auto simp: before_def split: option.splits)
    then have "pos \<le> p" by (auto simp: ps_def dest: str_find_boundsD)
    have r: "tool_end_partial tx True (the ps + length PARAM_START) = (Some e, inp')"
      using 1(5) l True by (subst (asm) tool_end_partial.simps) (simp add: d Let_def)
    show ?thesis by (rule step [OF 1(1) [OF l ps_def pe_def pp_def b [symmetric] refl True r]]) (use p \<open>pos \<le> p\<close> in simp)
  next
    case n1: False
    show ?thesis
    proof (cases "before pe pp \<and> before pe pb")
      case True
      then obtain p where p: "pe = Some p" by (auto simp: before_def split: option.splits)
      then have "pos \<le> p" by (auto simp: pe_def dest: str_find_boundsD split: if_splits)
      have r: "tool_end_partial tx False (the pe + length PARAM_END) = (Some e, inp')"
        using 1(5) l True n1 by (subst (asm) tool_end_partial.simps) (simp add: d Let_def)
      show ?thesis by (rule step [OF 1(2) [OF l ps_def pe_def pp_def b [symmetric] refl n1 True r]]) (use p \<open>pos \<le> p\<close> in simp)
    next
      case n2: False
      show ?thesis
      proof (cases "before pb pp")
        case True
        then obtain p where p: "pb = Some p" by (auto simp: before_def split: option.splits)
        then have "pos \<le> p" using b by (auto dest!: find_bare_bounds split: if_splits)
        have r: "tool_end_partial tx True (the pb + bl) = (Some e, inp')"
          using 1(5) l True n1 n2 by (subst (asm) tool_end_partial.simps) (simp add: d Let_def)
        show ?thesis by (rule step [OF 1(3) [OF l ps_def pe_def pp_def b [symmetric] refl n1 n2 True r]]) (use p \<open>pos \<le> p\<close> in simp)
      next
        case n3: False
        have e: "(case pp of None \<Rightarrow> (None, inp) | Some p \<Rightarrow>
            if inp then tool_end_partial tx inp (p + length partial_end)
            else if p + length partial_end < length tx \<and> tx ! (p + length partial_end) = CHR ''>''
            then (Some p, inp) else (Some (p + length partial_end), inp)) = (Some e, inp')"
          using 1(5) l n1 n2 n3 by (subst (asm) tool_end_partial.simps) (simp add: d Let_def)
        then obtain p where p: "pp = Some p" by (cases pp) auto
        then have o: "pos \<le> p" "occurs partial_end tx p" by (auto simp: pp_def find_Some)
        show ?thesis
        proof (cases inp)
          case True
          with e p have r: "tool_end_partial tx inp (p + length partial_end) = (Some e, inp')" by simp
          show ?thesis by (rule step [OF 1(4) [OF l ps_def pe_def pp_def b [symmetric] refl n1 n2 n3 p True r]]) (use o in simp)
        next
          case False
          then have "p \<le> e" using e p by (auto split: if_splits)
          with o show ?thesis by blast
        qed
      qed
    qed
  qed
qed

lemma main_end:
  "tool_end_main tx d inp pos = (r, pos', inp') \<Longrightarrow>
     pos \<le> pos' \<and> (\<forall>p. r = Some p \<longrightarrow> pos \<le> p \<and> occurs FUNC_END tx p)"
proof (induction tx d inp pos rule: tool_end_main.induct)
  case (1 tx d inp pos)
  show ?case
  proof (cases "pos < length tx \<and> earliest 0 (tool_events tx inp pos) None \<noteq> None")
    case False
    have "tool_end_main tx d inp pos = (None, pos, inp)"
      unfolding tool_end_main.simps [of tx d inp pos]
      using False by (cases "earliest 0 (tool_events tx inp pos) None") simp_all
    with 1(7) show ?thesis by simp
  next
    case True
    then obtain t p where tp: "earliest 0 (tool_events tx inp pos) None = Some (t, p)" by auto
    define n where "n = p + event_len tx pos t"
    have b: "pos \<le> p" "pos \<le> n" using tool_event_bounds [OF tp] by (simp_all add: n_def)
    from earliest_in [OF tp] have t: "t < 5" "tool_events tx inp pos ! t = Some p"
      by (auto simp: tool_events_def)
    have l: "pos < length tx" using True by simp
    have u: "tool_end_main tx d inp pos =
        (if t = 2 then tool_end_main tx d True n else if t = 3 then tool_end_main tx d False n
        else if t = 4 then tool_end_main tx d True n else if inp then tool_end_main tx d inp n
        else if t = 0 then tool_end_main tx (d + 1) inp n
        else if d - 1 = 0 then (Some p, pos, inp) else tool_end_main tx (d - 1) inp n)"
      unfolding tool_end_main.simps [of tx d inp pos] n_def using l tp by (simp add: Let_def)
    note e = u [unfolded 1(7), symmetric]
    note IH = 1(1-6) [OF l tp refl n_def]
    have up: "n \<le> pos' \<and> (\<forall>p. r = Some p \<longrightarrow> n \<le> p \<and> occurs FUNC_END tx p) \<Longrightarrow>
        pos \<le> pos' \<and> (\<forall>p. r = Some p \<longrightarrow> pos \<le> p \<and> occurs FUNC_END tx p)"
      using b(2) le_trans by blast
    consider (par) "t = 2" | (par_end) "t \<noteq> 2" "t = 3" | (bare) "t \<noteq> 2" "t \<noteq> 3" "t = 4"
      | (inside) "t \<noteq> 2" "t \<noteq> 3" "t \<noteq> 4" "inp" | (nested) "t \<noteq> 2" "t \<noteq> 3" "t \<noteq> 4" "\<not> inp" "t = 0"
      | (closed) "t = 1" "\<not> inp" "d - 1 = 0" | (outer) "t \<noteq> 2" "t \<noteq> 3" "t \<noteq> 4" "\<not> inp" "t \<noteq> 0" "d - 1 \<noteq> 0"
      using t(1) by linarith
    then show ?thesis
    proof cases
      case par
      then show ?thesis using e by (intro up IH(1)) simp_all
    next
      case par_end
      then show ?thesis using e by (intro up IH(2)) simp_all
    next
      case bare
      then show ?thesis using e by (intro up IH(3)) simp_all
    next
      case inside
      then show ?thesis using e by (intro up IH(4)) simp_all
    next
      case nested
      then show ?thesis using e by (intro up IH(5)) simp_all
    next
      case closed
      then have "r = Some p" "pos' = pos" using e by simp_all
      then show ?thesis using t(2) b(1) closed(1) by (simp add: tool_events_def find_Some)
    next
      case outer
      then show ?thesis using e by (intro up IH(6)) simp_all
    qed
  qed
qed

lemma end_partial: "occurs FUNC_END tx p \<Longrightarrow> occurs partial_end tx p"
  unfolding occurs_def partial_end_def using take_is_prefix prefix_order.trans by blast

lemma robust_end:
  assumes "find_tool_end_robust tx s = (Some e, inp)" "occurs FUNC_START tx s"
  shows "\<exists>q \<ge> s + length FUNC_START. q \<le> e \<and> occurs partial_end tx q"
proof -
  have p: "prefix FUNC_START (drop s tx)" using assms(2) by (simp add: occurs_def)
  obtain r pos' inp' where m: "tool_end_main tx 1 False (s + length FUNC_START) = (r, pos', inp')"
    by (metis prod_cases3)
  show ?thesis
  proof (cases r)
    case (Some p)
    with m assms(1) p have "e = p" by (simp add: find_tool_end_robust_def)
    with main_end [OF m] Some end_partial show ?thesis by blast
  next
    case None
    with m assms(1) p have "tool_end_partial tx inp' pos' = (Some e, inp)" by (simp add: find_tool_end_robust_def)
    from find_partial_end [OF this] main_end [OF m] show ?thesis by (meson le_trans)
  qed
qed

lemma slash_after:
  assumes "occurs FUNC_START tx p" "occurs ''</'' tx q" "p \<le> q"
  shows "p + length FUNC_START \<le> q"
proof (rule ccontr)
  assume "\<not> ?thesis"
  then have k: "q - p < 10" by (simp add: FUNC_START_def)
  obtain r where r: "drop p tx = FUNC_START @ r" using assms(1) by (auto simp: occurs_def prefix_def)
  have "drop q tx = drop (q - p) (drop p tx)" using assms(3) by simp
  then have pre: "prefix ''</'' (drop (q - p) (FUNC_START @ r))" using assms(2) r by (simp add: occurs_def)
  have "q - p \<in> {0, 1, 2, 3, 4, 5, 6, 7, 8, 9}" using k by (simp add: numeral_eq_Suc less_Suc_eq)
  then show False using pre by (auto simp: FUNC_START_def)
qed

lemma occurs_take: "occurs pat s p \<Longrightarrow> p + length pat \<le> n \<Longrightarrow> occurs pat (take n s @ r) p"
proof -
  assume o: "occurs pat s p" and n: "p + length pat \<le> n"
  have "occurs pat (take n s @ drop n s) p" using o by simp
  then have "occurs pat (take n s) p" by (rule occurs_app) (use n occurs_length [OF o] in simp)
  then show ?thesis by (rule occurs_grow)
qed

lemma prefix_occurs: "occurs pat s p \<Longrightarrow> prefix pat' pat \<Longrightarrow> occurs pat' s p"
  by (auto simp: occurs_def dest: prefix_order.trans)

lemma detect_end_ok:
  assumes "detect_tool_end tx s = (tx', e, inp)" "occurs FUNC_START tx s"
  shows "occurs FUNC_START tx' s"
    "e \<noteq> None \<Longrightarrow> \<exists>q \<ge> s + length FUNC_START. occurs partial_end tx q"
    "e = Some p \<Longrightarrow> s + length FUNC_START \<le> p"
proof -
  obtain r i where rb: "find_tool_end_robust tx s = (r, i)" by fastforce
  have all: "occurs FUNC_START tx' s \<and> (e \<noteq> None \<longrightarrow> (\<exists>q \<ge> s + length FUNC_START. occurs partial_end tx q))
      \<and> (\<forall>p. e = Some p \<longrightarrow> s + length FUNC_START \<le> p)"
  proof (cases r)
    case None
    with assms rb show ?thesis by (auto simp: detect_tool_end_def)
  next
    case (Some e0)
    obtain q where q: "s + length FUNC_START \<le> q" "q \<le> e0" "occurs partial_end tx q"
      using robust_end [OF _ assms(2)] rb Some by blast
    show ?thesis
    proof (cases "str_find tx FUNC_END s")
      case (Some x)
      then have "tx' = tx" "e = Some e0" using assms(1) rb \<open>r = Some e0\<close> by (auto simp: detect_tool_end_def)
      with assms(2) q show ?thesis by auto
    next
      case None
      then have t: "tx' = repair_malformed_tool_end tx e0" "e = str_find tx' FUNC_END s"
        using assms(1) rb \<open>r = Some e0\<close> by (auto simp: detect_tool_end_def Let_def)
      have "\<exists>r. tx' = take e0 tx @ r \<or> tx' = tx"
        unfolding t(1) repair_malformed_tool_end_def str_insert_def str_replace_def
        by (auto split: option.splits)
      then have o: "occurs FUNC_START tx' s" using q assms(2) by (auto intro: occurs_take)
      have "s + length FUNC_START \<le> p" if "e = Some p" for p
      proof (rule slash_after [OF o])
        show "occurs ''</'' tx' p" "s \<le> p"
          using that t(2) by (auto simp: find_Some eq_commute [of "Some p"] FUNC_END_def intro: prefix_occurs)
      qed
      with o q show ?thesis by blast
    qed
  qed
  then show "occurs FUNC_START tx' s" "e \<noteq> None \<Longrightarrow> \<exists>q \<ge> s + length FUNC_START. occurs partial_end tx q"
    "e = Some p \<Longrightarrow> s + length FUNC_START \<le> p" by blast+
qed

lemma rfind_occurs: "str_rfind s pat = Some p \<Longrightarrow> occurs pat s p"
proof -
  have "last_at pat s = Some p \<Longrightarrow> p \<le> length s \<and> prefix pat (drop p s)"
    by (induction pat s arbitrary: p rule: last_at.induct) (auto split: if_splits option.splits)
  then show "str_rfind s pat = Some p \<Longrightarrow> occurs pat s p" by (simp add: str_rfind_def occurs_def)
qed

lemma resize_occurs: "occurs pat s p \<Longrightarrow> p + length pat \<le> n \<Longrightarrow> occurs pat (str_resize s n) p"
  unfolding str_resize_def by (rule occurs_take)

lemma detect_think_keeps:
  assumes "detect_think ts te silent g = (tripped, g')"
  shows "gt_text g' = gt_text g" "gt_tool_start g' = gt_tool_start g" "gt_tool_end g' = gt_tool_end g"
    "gt_trigger g' = gt_trigger g" "gt_hook_pending g' = gt_hook_pending g"
    "gt_outside_count g' = gt_outside_count g" "gt_in_tool_stream g' = gt_in_tool_stream g"
  using assms by (auto simp: detect_think_def Let_def split: if_splits option.splits prod.splits)

text \<open>What a generation knows of its text between two tokens; \<open>mid\<close> is a generation resumed inside a call.\<close>

definition text_ok :: "bool \<Rightarrow> string \<Rightarrow> string \<Rightarrow> gtext \<Rightarrow> bool" where
  "text_ok mid ts te g \<longleftrightarrow>
     \<not> gt_trigger g \<and> gt_tool_end g = None
     \<and> (gt_tool_start g = None \<longrightarrow> \<not> mid \<and> gt_outside_count g = 0 \<and> think_scanned ts te g \<and> call_scanned te g)
     \<and> (\<forall>s. gt_tool_start g = Some s \<longrightarrow> (if mid then s = 0 else occurs FUNC_START (gt_text g) s))"

text \<open>The text when it is left: the positions lie inside, an open call still starts with its tag.\<close>

definition text_left :: "bool \<Rightarrow> gtext \<Rightarrow> bool" where
  "text_left mid g \<longleftrightarrow>
     (\<forall>s. gt_tool_start g = Some s \<longrightarrow> s \<le> length (gt_text g)
        \<and> (mid \<longrightarrow> s = 0) \<and> (gt_tool_end g = None \<longrightarrow> mid \<or> occurs FUNC_START (gt_text g) s))
     \<and> (gt_tool_start g = None \<longrightarrow> gt_tool_end g = None)"

lemma text_ok_init: "text_ok mid ts te (gtext_init mid think)"
  by (auto simp: text_ok_def gtext_init_def think_scanned_def call_scanned_def occurs_def FUNC_START_def)

lemma text_ok_left: "text_ok mid ts te g \<Longrightarrow> text_left mid g"
  by (auto simp: text_ok_def text_left_def dest!: occurs_length split: if_splits)

text \<open>What follows the end of a call does not touch its start.\<close>

lemma text_event_left:
  assumes "text_event limit g = (ev, g')" "\<not> gt_trigger g"
    and "\<And>s. gt_tool_start g = Some s \<Longrightarrow> (if mid then s = 0 else occurs FUNC_START (gt_text g) s
        \<and> (\<forall>e. gt_tool_end g = Some e \<longrightarrow> s + length FUNC_START \<le> e))"
    and "gt_tool_start g = None \<Longrightarrow> gt_tool_end g = None"
  shows "text_left mid g'" "gt_tool_start g' = gt_tool_start g" "gt_hook_pending g' = gt_hook_pending g"
    "gt_tool_end g' = gt_tool_end g" "gt_outside_count g' = gt_outside_count g"
    "ev = Tool_Done \<Longrightarrow> gt_tool_end g \<noteq> None" "ev = Stuck \<Longrightarrow> limit \<le> gt_outside_count g"
    "ev = Go_On \<Longrightarrow> gt_tool_end g = None \<and> gt_outside_count g < limit
       \<and> g' = g\<lparr>gt_in_tool_stream := gt_tool_start g \<noteq> None\<rparr>"
proof -
  define h where "h = g\<lparr>gt_in_tool_stream := (gt_tool_start g \<noteq> None \<and> gt_tool_end g = None)\<rparr>"
  have E: "(ev, g') = (if slash_loop h then (Slash_Loop, cut_slash_loop h)
      else case gt_tool_end g of
        Some e \<Rightarrow> (Tool_Done, h\<lparr>gt_text := truncate_at_tool_end (gt_text g) e, gt_trigger := True\<rparr>)
      | None \<Rightarrow> if gt_outside_count g \<ge> limit then (Stuck, h) else (Go_On, h))"
  proof -
    have "gt_tool_end h = gt_tool_end g" "gt_outside_count h = gt_outside_count g" "gt_text h = gt_text g"
      by (simp_all add: h_def)
    then show ?thesis using assms(1) [symmetric] unfolding text_event_def Let_def h_def [symmetric]
      by (simp cong: option.case_cong)
  qed
  have cut: "occurs FUNC_START (gt_text (cut_slash_loop h)) s" if s: "gt_tool_start g = Some s" "occurs FUNC_START (gt_text g) s" for s
  proof (cases "str_rfind (gt_text g) DOUBLE_OPEN")
    case (Some p)
    have "occurs ''</'' (gt_text g) p"
      using rfind_occurs [OF Some] by (rule prefix_occurs) (simp add: DOUBLE_OPEN_def)
    then have "s < p \<Longrightarrow> s + length FUNC_START \<le> p" using slash_after [OF s(2)] by simp
    with Some s occurs_take [OF s(2), where r = "[]"] show ?thesis by (simp add: cut_slash_loop_def h_def)
  qed (use s in \<open>simp add: cut_slash_loop_def h_def\<close>)
  have len: "occurs FUNC_START x s \<Longrightarrow> s \<le> length x" for x s by (drule occurs_length) simp
  consider (slash) "slash_loop h" "ev = Slash_Loop" "g' = cut_slash_loop h"
    | (fin) e where "gt_tool_end g = Some e" "ev = Tool_Done"
        "g' = h\<lparr>gt_text := truncate_at_tool_end (gt_text g) e, gt_trigger := True\<rparr>"
    | (stuck) "gt_tool_end g = None" "ev = Stuck" "limit \<le> gt_outside_count g" "g' = h"
    | (go) "gt_tool_end g = None" "ev = Go_On" "\<not> limit \<le> gt_outside_count g" "g' = h"
    using E by (auto split: if_splits option.splits)
  then have all: "text_left mid g' \<and> gt_tool_start g' = gt_tool_start g \<and> gt_hook_pending g' = gt_hook_pending g
    \<and> gt_tool_end g' = gt_tool_end g \<and> gt_outside_count g' = gt_outside_count g
    \<and> (ev = Tool_Done \<longrightarrow> gt_tool_end g \<noteq> None) \<and> (ev = Stuck \<longrightarrow> limit \<le> gt_outside_count g)
    \<and> (ev = Go_On \<longrightarrow> gt_tool_end g = None \<and> gt_outside_count g < limit
       \<and> g' = g\<lparr>gt_in_tool_stream := gt_tool_start g \<noteq> None\<rparr>)"
  proof cases
    case slash
    then have "gt_tool_end g = None" by (simp add: slash_loop_def h_def)
    moreover have "gt_tool_start (cut_slash_loop h) = gt_tool_start g" "gt_tool_end (cut_slash_loop h) = gt_tool_end g"
      "gt_hook_pending (cut_slash_loop h) = gt_hook_pending g" "gt_outside_count (cut_slash_loop h) = gt_outside_count g"
      by (simp_all add: cut_slash_loop_def h_def)
    ultimately show ?thesis using slash(2,3) assms(3) cut len by (cases mid) (auto simp: text_left_def)
  next
    case fin
    have "occurs FUNC_START (truncate_at_tool_end (gt_text g) e) s" if "gt_tool_start g = Some s" "\<not> mid" for s
      using assms(3) [OF that(1)] that(2) fin(1) unfolding truncate_at_tool_end_def
      by (intro resize_occurs) auto
    with fin assms(3,4) len show ?thesis by (cases mid) (auto simp: text_left_def h_def)
  next
    case stuck
    with assms(3) len show ?thesis by (cases mid) (auto simp: text_left_def h_def)
  next
    case go
    with assms(3) len show ?thesis by (cases mid) (auto simp: text_left_def h_def)
  qed
  then show "text_left mid g'" "gt_tool_start g' = gt_tool_start g" "gt_hook_pending g' = gt_hook_pending g"
    "gt_tool_end g' = gt_tool_end g" "gt_outside_count g' = gt_outside_count g"
    "ev = Tool_Done \<Longrightarrow> gt_tool_end g \<noteq> None" "ev = Stuck \<Longrightarrow> limit \<le> gt_outside_count g"
    "ev = Go_On \<Longrightarrow> gt_tool_end g = None \<and> gt_outside_count g < limit
       \<and> g' = g\<lparr>gt_in_tool_stream := gt_tool_start g \<noteq> None\<rparr>" by blast+
qed

text \<open>One token: the call is never closed, nor found stuck, by the token that opens it.\<close>

lemma count_token_keeps [simp]:
  "gt_text (count_token x rec g) = gt_text g" "gt_tool_start (count_token x rec g) = gt_tool_start g"
  "gt_tool_end (count_token x rec g) = gt_tool_end g" "gt_trigger (count_token x rec g) = gt_trigger g"
  "gt_hook_pending (count_token x rec g) = gt_hook_pending g"
  "gt_func_search_pos (count_token x rec g) = gt_func_search_pos g"
  "gt_think_start (count_token x rec g) = gt_think_start g" "gt_think_end (count_token x rec g) = gt_think_end g"
  "gt_think_depth (count_token x rec g) = gt_think_depth g"
  "gt_think_scan_pos (count_token x rec g) = gt_think_scan_pos g"
  "\<not> gt_in_tool_stream g \<Longrightarrow> gt_outside_count (count_token x rec g) = gt_outside_count g"
  by (simp_all add: count_token_def Let_def)

lemma scanned_fields:
  assumes "gt_text g' = gt_text g" "gt_think_start g' = gt_think_start g" "gt_think_end g' = gt_think_end g"
    "gt_think_depth g' = gt_think_depth g" "gt_think_scan_pos g' = gt_think_scan_pos g"
    "gt_tool_start g' = gt_tool_start g" "gt_func_search_pos g' = gt_func_search_pos g"
  shows "think_scanned ts te g' = think_scanned ts te g" "call_scanned te g' = call_scanned te g"
  using assms by (simp_all add: think_scanned_def call_scanned_def in_think_block_def cong: option.case_cong)

lemma token_before_call:
  assumes "text_ok mid ts te g" "gt_tool_start g = None" "0 < limit" "\<not> gt_hook_pending g"
    and "\<And>p. \<not> occurs partial_end x p"
    and "detect_think ts te False (g\<lparr>gt_text := gt_text g @ x\<rparr>) = (False, g1)"
    and "text_event limit (search_tool_end mid (detect_tool_start te g1)) = (ev, g2)"
  shows "text_left mid g2" "ev \<in> {Slash_Loop, Go_On}" "gt_tool_end g2 = None"
    "gt_hook_pending g2 \<longleftrightarrow> gt_tool_start g2 \<noteq> None"
    "ev = Go_On \<Longrightarrow> text_ok mid ts te (count_token x' rec g2)"
proof -
  have K: "\<not> gt_trigger g" "gt_tool_end g = None" "\<not> mid" "gt_outside_count g = 0" "think_scanned ts te g" "call_scanned te g"
    using assms(1,2) by (auto simp: text_ok_def)
  note T = detect_think_scanned [OF assms(6) K(5)]
  note S = scan_step [OF assms(6) K(5,6) assms(2)]
  let ?g = "detect_tool_start te g1"
  have sc: "think_scanned ts te ?g" "call_scanned te ?g"
  proof -
    have "think_scanned ts te ?g = think_scanned ts te g1" by (simp add: think_scanned_def)
    with T show "think_scanned ts te ?g" by blast
    from S show "call_scanned te ?g" by blast
  qed
  define h where "h = search_tool_end mid ?g"
  have H: "gt_tool_start h = gt_tool_start ?g \<and> gt_tool_end h = None \<and> \<not> gt_trigger h \<and> gt_outside_count h = 0
      \<and> (gt_hook_pending h \<longleftrightarrow> gt_tool_start h \<noteq> None)
      \<and> (\<forall>s. gt_tool_start h = Some s \<longrightarrow> occurs FUNC_START (gt_text h) s) \<and> (gt_tool_start ?g = None \<longrightarrow> h = ?g)"
  proof (cases "gt_tool_start ?g")
    case None
    with S assms(4) T K show ?thesis by (simp add: h_def search_tool_end_def)
  next
    case (Some s)
    have o: "occurs FUNC_START (gt_text g @ x) s" "length (gt_text g) < s + length FUNC_START" "gt_hook_pending ?g"
      using S Some T by simp_all
    obtain tx e inp where d: "detect_tool_end (gt_text g @ x) s = (tx, e, inp)" by (metis prod_cases3)
    have "e = None"
    proof (rule ccontr)
      assume "e \<noteq> None"
      then obtain q where q: "s + length FUNC_START \<le> q" "occurs partial_end (gt_text g @ x) q"
        using detect_end_ok(2) [OF d o(1)] by blast
      then have "occurs partial_end x (q - length (gt_text g))" using o(2) by (simp add: occurs_def le_diff_conv add.commute)
      with assms(5) show False by blast
    qed
    moreover have "h = ?g\<lparr>gt_text := tx, gt_tool_end := e, gt_in_parameter := inp\<rparr>"
      using Some T K d by (simp add: h_def search_tool_end_def)
    ultimately show ?thesis using detect_end_ok(1) [OF d o(1)] Some o(3) T K by simp
  qed
  have t: "\<not> gt_trigger h" and n: "gt_tool_start h = None \<Longrightarrow> gt_tool_end h = None" using H by blast+
  have p: "if mid then s = 0 else occurs FUNC_START (gt_text h) s
      \<and> (\<forall>e. gt_tool_end h = Some e \<longrightarrow> s + length FUNC_START \<le> e)" if "gt_tool_start h = Some s" for s
    using H that K(3) by simp
  note E = text_event_left [OF assms(7) [folded h_def] t p n]
  have left: "text_left mid g2 \<and> gt_tool_start g2 = gt_tool_start h \<and> gt_hook_pending g2 = gt_hook_pending h
      \<and> gt_tool_end g2 = gt_tool_end h"
    using E(1-4) by blast
  have H': "gt_tool_end h = None" "gt_outside_count h = 0" "gt_hook_pending h \<longleftrightarrow> gt_tool_start h \<noteq> None" using H by blast+
  show "text_left mid g2" using left by blast
  have "ev \<noteq> Tool_Done" "ev \<noteq> Stuck" using E(6,7) H'(1,2) assms(3) by fastforce+
  then show "ev \<in> {Slash_Loop, Go_On}" by (cases ev) auto
  show "gt_tool_end g2 = None" "gt_hook_pending g2 \<longleftrightarrow> gt_tool_start g2 \<noteq> None" using left H' by simp_all
  show "text_ok mid ts te (count_token x' rec g2)" if "ev = Go_On"
  proof -
    have g2: "g2 = h\<lparr>gt_in_tool_stream := gt_tool_start h \<noteq> None\<rparr>" using E(8) that by blast
    show ?thesis
    proof (cases "gt_tool_start ?g")
      case None
      then have "h = ?g" "gt_tool_start h = None" using H by simp_all
      then show ?thesis using sc H K(3) unfolding g2
        by (simp add: text_ok_def scanned_fields [of "count_token _ _ _" ?g])
    next
      case (Some s)
      then show ?thesis using H K(3) unfolding g2 by (simp add: text_ok_def)
    qed
  qed
qed

lemma token_in_call:
  assumes "text_ok mid ts te g" "gt_tool_start g = Some s"
    and "detect_think ts te silent (g\<lparr>gt_text := gt_text g @ x\<rparr>) = (tripped, g1)"
    and "text_event limit (search_tool_end mid (detect_tool_start te g1)) = (ev, g2)"
  shows "text_left mid g2" "gt_tool_start g2 = Some s" "gt_hook_pending g2 = gt_hook_pending g"
    "ev = Go_On \<Longrightarrow> text_ok mid ts te (count_token x' rec g2)"
proof -
  have K: "\<not> gt_trigger g" "gt_tool_end g = None" "if mid then s = 0 else occurs FUNC_START (gt_text g) s"
    using assms(1,2) by (auto simp: text_ok_def)
  note T = detect_think_keeps [OF assms(3)]
  have d1: "detect_tool_start te g1 = g1" using T(2) assms(2) by simp
  obtain tx e inp where d: "detect_tool_end (gt_text g @ x) (if mid then 0 else s) = (tx, e, inp)"
    by (metis prod_cases3)
  have h: "search_tool_end mid g1 = g1\<lparr>gt_text := tx, gt_tool_end := e, gt_in_parameter := inp\<rparr>"
    using T K assms(2) d by (simp add: search_tool_end_def)
  let ?h = "g1\<lparr>gt_text := tx, gt_tool_end := e, gt_in_parameter := inp\<rparr>"
  have c: "occurs FUNC_START tx s \<and> (\<forall>p. e = Some p \<longrightarrow> s + length FUNC_START \<le> p)" if "\<not> mid"
    using detect_end_ok(1,3) [of "gt_text g @ x" s tx e inp] d K(3) that by (auto intro: occurs_grow)
  have p: "if mid then s' = 0 else occurs FUNC_START (gt_text ?h) s'
        \<and> (\<forall>e. gt_tool_end ?h = Some e \<longrightarrow> s' + length FUNC_START \<le> e)" if "gt_tool_start ?h = Some s'" for s'
    using that c T(2) assms(2) K(3) by (cases mid) auto
  have n: "gt_tool_start ?h = None \<Longrightarrow> gt_tool_end ?h = None" using T(2) assms(2) by simp
  note E = text_event_left [OF assms(4) [unfolded d1 h] _ p n]
  have t: "\<not> gt_trigger ?h" using T K by simp
  show "text_left mid g2" "gt_tool_start g2 = Some s" "gt_hook_pending g2 = gt_hook_pending g"
    using E(1-3) [OF t] T assms(2) by simp_all
  show "text_ok mid ts te (count_token x' rec g2)" if "ev = Go_On"
    using E(8) [OF t _ _ that] p t T(2) assms(2) by (auto simp: text_ok_def)
qed

text \<open>The forced close of an open call.\<close>

lemma forced_close:
  assumes "text_ok mid ts te g"
  shows "text_left mid (close_open_call g)" "gt_tool_start (close_open_call g) = gt_tool_start g"
proof -
  have "s \<le> length (case str_rfind (gt_text g) ''</'' of
        Some p \<Rightarrow> if p > s then take p (gt_text g) else gt_text g | None \<Rightarrow> gt_text g)"
    if "gt_tool_start g = Some s" for s
  proof -
    have "s \<le> length (gt_text g)"
      using assms that by (auto simp: text_ok_def dest!: occurs_length split: if_splits)
    then show ?thesis by (auto split: option.splits dest!: rfind_occurs occurs_length)
  qed
  then show "text_left mid (close_open_call g)" "gt_tool_start (close_open_call g) = gt_tool_start g"
    using assms by (auto simp: text_left_def close_open_call_def text_ok_def Let_def split: option.splits if_splits)
qed

end
