(* ===== verification/Lim_GenInv.thy ===== *)
theory Lim_GenInv
  imports Lim_Turn Lim_TextInv
begin

section \<open>A generation without a draft head\<close>

text \<open>
  A model without a draft head: a generation only adds tokens, and its hook opens the slot of a call when
  the opening tag has been decoded. It always returns, keeps the bookkeeping invariant of the session
  (memory, tracker, position, checkpoints and saved states agree), and a call it reports has its slot,
  whatever the sampler, the signals and the answers of the decodes are.
\<close>

subsection \<open>A core that only grows\<close>

text \<open>What the bookkeeping reads of the session state, apart from the tokens: the checkpoints and the slot.\<close>

definition same_slot :: "session_state \<Rightarrow> session_state \<Rightarrow> bool" where
  "same_slot s s' \<longleftrightarrow>
     ss_tool_correction_checkpoint_idx s' = ss_tool_correction_checkpoint_idx s
     \<and> ss_rs_checkpoint_saved_this_turn s' = ss_rs_checkpoint_saved_this_turn s
     \<and> ss_has_tool_correction_checkpoint s' = ss_has_tool_correction_checkpoint s
     \<and> ss_tool_correction_n_past s' = ss_tool_correction_n_past s"

definition same_checkpoints :: "session_state \<Rightarrow> session_state \<Rightarrow> bool" where
  "same_checkpoints s s' \<longleftrightarrow>
     ss_prompt_checkpoints s' = ss_prompt_checkpoints s
     \<and> ss_checkpoint_stack_offset s' = ss_checkpoint_stack_offset s
     \<and> ss_interrupted_checkpoint_idx s' = ss_interrupted_checkpoint_idx s"

definition extends :: "('m \<Rightarrow> token list \<Rightarrow> bool) \<Rightarrow> ('m \<Rightarrow> token list option list) \<Rightarrow> ('m \<Rightarrow> bool)
    \<Rightarrow> 'm core \<Rightarrow> 'm core \<Rightarrow> bool" where
  "extends holds stack recurrent c c' \<longleftrightarrow> synced holds c' \<and> prefix (tracker c) (tracker c')
     \<and> stack (co_mem c') = stack (co_mem c) \<and> recurrent (co_mem c') = recurrent (co_mem c)
     \<and> same_slot (co_state c) (co_state c') \<and> same_checkpoints (co_state c) (co_state c')"

text \<open>The state without the tokens and the slot, which are all a generation writes.\<close>

definition rest :: "session_state \<Rightarrow> session_state" where
  "rest s = s\<lparr>ss_all_context_tokens := [], ss_tool_correction_checkpoint_idx := 0,
     ss_rs_checkpoint_saved_this_turn := False, ss_has_tool_correction_checkpoint := False,
     ss_tool_correction_n_past := 0\<rparr>"

lemma restD:
  assumes "rest s' = rest s"
  shows "same_checkpoints s s'" "ss_partial_tool_text s' = ss_partial_tool_text s"
    "ss_tool_interrupt_pending s' = ss_tool_interrupt_pending s"
    "ss_tool_correction_mode s' = ss_tool_correction_mode s" "ss_auto_continue s' = ss_auto_continue s"
    "ss_reincarnate_mode s' = ss_reincarnate_mode s"
    "ss_correction_attempted_this_turn s' = ss_correction_attempted_this_turn s"
  using arg_cong [OF assms, of ss_prompt_checkpoints] arg_cong [OF assms, of ss_checkpoint_stack_offset]
    arg_cong [OF assms, of ss_interrupted_checkpoint_idx] arg_cong [OF assms, of ss_partial_tool_text]
    arg_cong [OF assms, of ss_tool_interrupt_pending] arg_cong [OF assms, of ss_tool_correction_mode]
    arg_cong [OF assms, of ss_auto_continue] arg_cong [OF assms, of ss_reincarnate_mode]
    arg_cong [OF assms, of ss_correction_attempted_this_turn]
  by (simp_all add: rest_def same_checkpoints_def)

text \<open>What a generation leaves of a core: the invariant, an open slot, and without the hook the slot as it was.\<close>

definition kept :: "('m \<Rightarrow> token list \<Rightarrow> bool) \<Rightarrow> ('m \<Rightarrow> token list option list) \<Rightarrow> ('m \<Rightarrow> bool)
    \<Rightarrow> bool \<Rightarrow> 'm core \<Rightarrow> 'm core \<Rightarrow> bool" where
  "kept holds stack recurrent hook c c' \<longleftrightarrow>
     aligned holds stack recurrent c' \<and> prefix (tracker c) (tracker c') \<and> rest (co_state c') = rest (co_state c)
     \<and> (slot_open stack recurrent c \<longrightarrow> slot_open stack recurrent c')
     \<and> (\<not> hook \<longrightarrow> extends holds stack recurrent c c')"

context rs_memory
begin

abbreviation ext :: "'m core \<Rightarrow> 'm core \<Rightarrow> bool" where "ext \<equiv> extends holds stack recurrent"
abbreviation open_slot :: "'m core \<Rightarrow> bool" where "open_slot \<equiv> slot_open stack recurrent"
abbreviation kp :: "bool \<Rightarrow> 'm core \<Rightarrow> 'm core \<Rightarrow> bool" where "kp \<equiv> kept holds stack recurrent"

lemma ext_trans: "ext c c1 \<Longrightarrow> ext c1 c2 \<Longrightarrow> ext c c2"
  by (auto simp: extends_def same_slot_def same_checkpoints_def)

lemma ext_refl: "al c \<Longrightarrow> ext c c"
  by (simp add: extends_def same_slot_def same_checkpoints_def alignedD(1))

lemma gr_ext: "gr c c' \<Longrightarrow> ext c c'"
  by (erule grownE) (simp add: extends_def same_slot_def same_checkpoints_def)

lemma gr_rest: "gr c c' \<Longrightarrow> rest (co_state c') = rest (co_state c)"
  by (erule grownE) (simp add: rest_def)

lemma ext_al:
  assumes "al c" "ext c c'"
  shows "al c'"
proof -
  note D = alignedD [OF assms(1)]
  note E = assms(2) [unfolded extends_def same_slot_def same_checkpoints_def]
  obtain us where us: "tracker c' = tracker c @ us" using E by (auto simp: prefix_def)
  have t: "take (nat (cp_n_past (ss_prompt_checkpoints (co_state c) ! k))) (tracker c')
      = take (nat (cp_n_past (ss_prompt_checkpoints (co_state c) ! k))) (tracker c)"
    if "k < length (ss_prompt_checkpoints (co_state c))" for k
    using D(7) [OF nth_mem [OF that]] by (simp add: us nat_le_iff)
  have b: "0 < cp_n_past cp \<and> cp_n_past cp \<le> int (length (tracker c'))"
    if "cp \<in> set (ss_prompt_checkpoints (co_state c))" for cp
    using D(7) [OF that] us by simp
  show ?thesis unfolding aligned_def Let_def using D E b t by (auto simp: synced_def)
qed

lemma ext_slot:
  assumes "open_slot c" "ext c c'"
  shows "open_slot c'" "length (tracker c) < length (tracker c') \<Longrightarrow> slot c'"
proof -
  note E = assms(2) [unfolded extends_def same_slot_def same_checkpoints_def]
  obtain us where us: "tracker c' = tracker c @ us" using E by (auto simp: prefix_def)
  show o: "open_slot c'" using assms(1) E us by (auto simp: slot_open_def Let_def)
  assume "length (tracker c) < length (tracker c')"
  moreover have "ss_tool_correction_n_past (co_state c') \<le> int (length (tracker c))"
    using assms(1) E by (simp add: slot_open_def Let_def)
  ultimately show "slot c'" using o by (simp add: slot_valid_open)
qed

text \<open>Changes of the state that the bookkeeping does not read.\<close>

lemma ext_state:
  assumes "al c" "co_mem c' = co_mem c" "co_n_past c' = co_n_past c" "tracker c' = tracker c"
    "same_slot (co_state c) (co_state c')" "same_checkpoints (co_state c) (co_state c')"
  shows "ext c c'"
  using assms alignedD(1) [OF assms(1)] by (simp add: extends_def synced_def)

lemma kp_refl: "al c \<Longrightarrow> kp hook c c"
  by (simp add: kept_def ext_refl)

lemma kp_al: "kp hook c c' \<Longrightarrow> al c'" by (simp add: kept_def)

lemma kp_grown:
  assumes "kp hook c c1" "gr c1 c2"
  shows "kp hook c c2"
proof -
  have "al c2" using kp_al [OF assms(1)] assms(2) by (rule aligned_grown)
  moreover have "prefix (tracker c1) (tracker c2)" using gr_ext [OF assms(2)] by (simp add: extends_def)
  moreover have "ext c c1 \<Longrightarrow> ext c c2" using ext_trans gr_ext [OF assms(2)] by blast
  moreover have "open_slot c1 \<Longrightarrow> open_slot c2" by (rule ext_slot [OF _ gr_ext [OF assms(2)]])
  ultimately show ?thesis using assms(1) gr_rest [OF assms(2)] by (auto simp: kept_def)
qed

lemma kp_start:
  assumes "kp True c c1" "tracker c \<noteq> []"
  shows "kp True c (on_tool_start ops True c1)" "open_slot (on_tool_start ops True c1)"
proof -
  have a: "al c1" "tracker c1 \<noteq> []" using assms by (auto simp: kept_def)
  show o: "open_slot (on_tool_start ops True c1)" by (rule slot_open_start(1) [OF a])
  have "al (on_tool_start ops True c1)" by (rule aligned_tool_start [OF a])
  moreover have "rest (co_state (on_tool_start ops True c1)) = rest (co_state c1)"
    "tracker (on_tool_start ops True c1) = tracker c1"
    by (simp_all add: on_tool_start_def Let_def rest_def)
  ultimately show "kp True c (on_tool_start ops True c1)" using assms(1) o by (simp add: kept_def)
qed

lemma stop_keeps [simp]:
  "al (c\<lparr>co_stop := b\<rparr>) = al c" "open_slot (c\<lparr>co_stop := b\<rparr>) = open_slot c"
  "ext c0 (c\<lparr>co_stop := b\<rparr>) = ext c0 c" "kp hook c0 (c\<lparr>co_stop := b\<rparr>) = kp hook c0 c"
proof -
  show k: "al (c\<lparr>co_stop := b\<rparr>) = al c" "open_slot (c\<lparr>co_stop := b\<rparr>) = open_slot c"
    "ext c0 (c\<lparr>co_stop := b\<rparr>) = ext c0 c"
    by (simp_all add: aligned_def slot_open_def extends_def synced_def Let_def)
  then show "kp hook c0 (c\<lparr>co_stop := b\<rparr>) = kp hook c0 c" by (simp add: kept_def)
qed

end

subsection \<open>The loop\<close>

text \<open>The environment of a session without a draft head: no drafts, no canary, a limit on the tokens outside of a
  parameter, positions that fit, and no piece that contains the closing tag.\<close>

definition plain_env :: "'m mem_ops \<Rightarrow> ('m, 's, 'v) gen_env \<Rightarrow> bool" where
  "plain_env ops env \<longleftrightarrow> ge_ops env = ops \<and> (\<forall>i. ge_draft env i = []) \<and> \<not> ge_canary_silent env
     \<and> ge_canary_max env = 0 \<and> 0 < ge_outside_limit env \<and> ge_n_ctx env \<le> POS_MAX
     \<and> (\<forall>t p. \<not> occurs partial_end (ge_piece env t) p)"

abbreviation fires :: "('m, 's, 'v) gen_env \<Rightarrow> bool" where
  "fires env \<equiv> ge_hook env \<and> \<not> ge_was_mid env"

definition gen_core_ok :: "('m \<Rightarrow> token list \<Rightarrow> bool) \<Rightarrow> ('m \<Rightarrow> token list option list) \<Rightarrow> ('m \<Rightarrow> bool)
    \<Rightarrow> ('m, 's, 'v) gen_env \<Rightarrow> 'm core \<Rightarrow> ('m, 's, 'v) gen \<Rightarrow> bool" where
  "gen_core_ok holds stack recurrent env c g \<longleftrightarrow>
     gn_spec g = spec_init \<and> kept holds stack recurrent (fires env) c (gn_core g)
     \<and> int (length (tracker (gn_core g))) \<le> max (int (length (tracker c))) (ge_n_ctx env)"

text \<open>Between two tokens, and when the loop is left: a call that was found has its slot.\<close>

definition gen_ok :: "('m \<Rightarrow> token list \<Rightarrow> bool) \<Rightarrow> ('m \<Rightarrow> token list option list) \<Rightarrow> ('m \<Rightarrow> bool)
    \<Rightarrow> ('m, 's, 'v) gen_env \<Rightarrow> 'm core \<Rightarrow> ('m, 's, 'v) gen \<Rightarrow> bool" where
  "gen_ok holds stack recurrent env c g \<longleftrightarrow>
     gen_core_ok holds stack recurrent env c g \<and> gn_flags g = flags_init
     \<and> text_ok (ge_was_mid env) (fst (ge_think env)) (snd (ge_think env)) (gn_text g)
     \<and> \<not> gt_hook_pending (gn_text g)
     \<and> (fires env \<and> gt_tool_start (gn_text g) \<noteq> None \<longrightarrow> slot_open stack recurrent (gn_core g))"

definition gen_left :: "('m \<Rightarrow> token list \<Rightarrow> bool) \<Rightarrow> ('m \<Rightarrow> token list option list) \<Rightarrow> ('m \<Rightarrow> bool)
    \<Rightarrow> ('m, 's, 'v) gen_env \<Rightarrow> 'm core \<Rightarrow> ('m, 's, 'v) gen \<Rightarrow> bool" where
  "gen_left holds stack recurrent env c g \<longleftrightarrow>
     gen_core_ok holds stack recurrent env c g \<and> text_left (ge_was_mid env) (gn_text g)
     \<and> fl_unfed_tail (gn_flags g) \<le> length (gt_text (gn_text g))
     \<and> (fl_stuck (gn_flags g) \<longrightarrow> gt_tool_start (gn_text g) \<noteq> None)
     \<and> (fires env \<and> gt_tool_start (gn_text g) \<noteq> None
          \<and> (gt_tool_end (gn_text g) \<noteq> None \<or> fl_stuck (gn_flags g) \<or> fl_sim_abort (gn_flags g))
          \<longrightarrow> slot_open stack recurrent (gn_core g))"

lemma text_ok_hook [simp]: "text_ok mid ts te (g\<lparr>gt_hook_pending := b\<rparr>) = text_ok mid ts te g"
  using scanned_fields [of "g\<lparr>gt_hook_pending := b\<rparr>" g] by (simp add: text_ok_def)

context rs_memory
begin

abbreviation gc :: "('m, 's, 'v) gen_env \<Rightarrow> 'm core \<Rightarrow> ('m, 's, 'v) gen \<Rightarrow> bool" where
  "gc \<equiv> gen_core_ok holds stack recurrent"
abbreviation gok :: "('m, 's, 'v) gen_env \<Rightarrow> 'm core \<Rightarrow> ('m, 's, 'v) gen \<Rightarrow> bool" where
  "gok \<equiv> gen_ok holds stack recurrent"
abbreviation gleft :: "('m, 's, 'v) gen_env \<Rightarrow> 'm core \<Rightarrow> ('m, 's, 'v) gen \<Rightarrow> bool" where
  "gleft \<equiv> gen_left holds stack recurrent"

lemma gok_left:
  assumes "gok env c g"
  shows "gleft env c g"
proof -
  have "text_left (ge_was_mid env) (gn_text g)" using assms text_ok_left by (auto simp: gen_ok_def)
  moreover have "gt_tool_end (gn_text g) = None" using assms by (simp add: gen_ok_def text_ok_def)
  ultimately show ?thesis using assms by (simp add: gen_ok_def gen_left_def flags_init_def)
qed

lemma tracker_update:
  "ss_all_context_tokens_update (\<lambda>ts. ts @ us) s = s\<lparr>ss_all_context_tokens := ss_all_context_tokens s @ us\<rparr>"
  "ss_all_context_tokens_update (take n) s = s\<lparr>ss_all_context_tokens := take n (ss_all_context_tokens s)\<rparr>"
  by (cases s, simp)+

lemma feed_plain:
  assumes "ge_ops env = ops" "gn_spec g = spec_init" "synced holds (gn_core g)"
    and "int (length (tracker (gn_core g))) + 1 \<le> POS_MAX" "feed_token env i t g = (ok, g')"
  shows "gr (gn_core g) (gn_core g')" "gn_spec g' = spec_init" "gn_text g' = gn_text g" "gn_flags g' = gn_flags g"
    "ok \<Longrightarrow> tracker (gn_core g') = tracker (gn_core g) @ [t]"
    "length (tracker (gn_core g')) \<le> length (tracker (gn_core g)) + 1" "gn_recovered g' = gn_recovered g"
proof -
  let ?c = "gn_core g"
  have h: "holds (co_mem ?c) (tracker ?c)" "co_n_past ?c = int (length (tracker ?c))"
    using assms(3) by (auto simp: synced_def)
  obtain ret m where d: "llama_decode ops (ge_answer env i) (co_mem ?c) (co_n_past ?c) [t] = (ret, m)" by fastforce
  obtain k where k: "k \<le> length [t]" "holds m (tracker ?c @ take k [t])" "ret = 0 \<or> ret > 2 \<Longrightarrow> k = length [t]"
    by (rule decode_any [OF h(1) _ d [unfolded h(2)]]) (use assms(4) in simp_all)
  note s = llama_decode_keeps [OF d] sync_holds [OF k(2)]
  have nf: "\<not> sp_no_feed (gn_spec g)" using assms(2) by (simp add: spec_init_def)
  have st: "co_state (gn_core g') = (co_state ?c)\<lparr>ss_all_context_tokens := tracker ?c @ take k [t]\<rparr>
      \<and> co_mem (gn_core g') = m \<and> co_n_past (gn_core g') = int (length (tracker ?c) + k)
      \<and> gn_spec g' = spec_init \<and> gn_text g' = gn_text g \<and> gn_flags g' = gn_flags g
      \<and> gn_recovered g' = gn_recovered g \<and> (ok \<longrightarrow> k = 1)"
  proof (cases "fst (handle_decode_result ret True)")
    case True
    then have "k = 1" using k(3) by (simp add: decode_result_ok)
    then show ?thesis using assms(1,2,5) nf True d h
      by (auto simp: feed_token_def Let_def push_token_def tracker_update)
  next
    case False
    have "k = 0 \<or> k = 1" using k(1) by auto
    then show ?thesis using assms(1,2,5) nf False d s h
      by (auto simp: feed_token_def Let_def push_token_def tracker_update)
  qed
  then have "synced holds (gn_core g')" using k(1,2) by (simp add: synced_def)
  then have "gr ?c (gn_core g')" using st s by (auto simp: grown_def)
  then have "gr ?c (gn_core g') \<and> gn_spec g' = spec_init \<and> gn_text g' = gn_text g \<and> gn_flags g' = gn_flags g
      \<and> (ok \<longrightarrow> tracker (gn_core g') = tracker ?c @ [t]) \<and> length (tracker (gn_core g')) \<le> length (tracker ?c) + 1
      \<and> gn_recovered g' = gn_recovered g"
    using st k(1) by simp
  then show "gr (gn_core g) (gn_core g')" "gn_spec g' = spec_init" "gn_text g' = gn_text g" "gn_flags g' = gn_flags g"
    "ok \<Longrightarrow> tracker (gn_core g') = tracker (gn_core g) @ [t]"
    "length (tracker (gn_core g')) \<le> length (tracker (gn_core g)) + 1" "gn_recovered g' = gn_recovered g" by blast+
qed

lemma gc_grown:
  assumes "gc env c g" "gr (gn_core g) (gn_core g')" "gn_spec g' = spec_init"
    "int (length (tracker (gn_core g'))) \<le> max (int (length (tracker c))) (ge_n_ctx env)"
  shows "gc env c g'"
  using assms kp_grown by (auto simp: gen_core_ok_def)

lemma gr_slot: "open_slot c \<Longrightarrow> gr c c' \<Longrightarrow> open_slot c'"
  by (rule ext_slot(1) [OF _ gr_ext])

lemma gc_synced: "gc env c g \<Longrightarrow> synced holds (gn_core g) \<and> co_n_past (gn_core g) = int (length (tracker (gn_core g)))"
  by (auto simp: gen_core_ok_def kept_def dest: alignedD)

text \<open>Room for one token.\<close>

abbreviation room :: "('m, 's, 'v) gen_env \<Rightarrow> ('m, 's, 'v) gen \<Rightarrow> bool" where
  "room env g \<equiv> int (length (tracker (gn_core g))) + 1 \<le> ge_n_ctx env"

lemma feed_gc:
  assumes "plain_env ops env" "gc env c g" "room env g" "feed_token env i t g = (ok, g')"
  shows "gc env c g'" "gr (gn_core g) (gn_core g')" "gn_text g' = gn_text g" "gn_flags g' = gn_flags g"
    "gn_recovered g' = gn_recovered g" "ok \<Longrightarrow> tracker (gn_core g') = tracker (gn_core g) @ [t]"
proof -
  have e: "ge_ops env = ops" "ge_n_ctx env \<le> POS_MAX" using assms(1) by (simp_all add: plain_env_def)
  have sp: "gn_spec g = spec_init" using assms(2) by (simp add: gen_core_ok_def)
  have p: "int (length (tracker (gn_core g))) + 1 \<le> POS_MAX" using assms(3) e(2) by simp
  note F = feed_plain [OF e(1) sp conjunct1 [OF gc_synced [OF assms(2)]] p assms(4)]
  show "gr (gn_core g) (gn_core g')" "gn_text g' = gn_text g" "gn_flags g' = gn_flags g"
    "gn_recovered g' = gn_recovered g" "ok \<Longrightarrow> tracker (gn_core g') = tracker (gn_core g) @ [t]"
    by (fact F)+
  show "gc env c g'" by (rule gc_grown [OF assms(2) F(1,2)]) (use F(6) assms(3) in simp)
qed

lemma feed_break_left:
  assumes "plain_env ops env" "gleft env c g" "room env g"
  shows "gleft env c (feed_break env i t g)"
proof -
  obtain ok g' where f: "feed_token env i t g = (ok, g')" by fastforce
  have "gc env c g" using assms(2) by (simp add: gen_left_def)
  note F = feed_gc [OF assms(1) this assms(3) f]
  have "gleft env c g'" using assms(2) F gr_slot [OF _ F(2)] by (auto simp: gen_left_def)
  then show ?thesis using f by (simp add: feed_break_def gen_left_def gen_core_ok_def early_exit_def)
qed

lemma top_plain:
  assumes "plain_env ops env" "gok env c g"
  shows "case top_checks env i g of Inl g' \<Rightarrow> gleft env c g'
    | Inr g' \<Rightarrow> gok env c g' \<and> gn_core g' = gn_core g \<and> room env g' \<and> gn_rows g' \<noteq> []"
proof -
  note L = gok_left [OF assms(2)]
  have n: "co_n_past (gn_core g) = int (length (tracker (gn_core g)))"
    using assms(2) gc_synced by (auto simp: gen_ok_def)
  have e: "\<not> ge_canary_silent env" "ge_canary_max env = 0" using assms(1) by (simp_all add: plain_env_def)
  have i: "gleft env c (interrupted g)" "gleft env c (early_exit g)"
    using L by (simp_all add: gen_left_def gen_core_ok_def interrupted_def early_exit_def)
  show ?thesis
  proof (cases "check_context env g")
    case (Inl g1)
    then have "gleft env c g1"
      using L by (auto simp: check_context_def Let_def gen_left_def gen_core_ok_def split: if_splits)
    with i e Inl show ?thesis by (simp add: top_checks_def)
  next
    case (Inr g1)
    then have g1: "gok env c g1" "gn_core g1 = gn_core g"
      using assms(2) by (auto simp: check_context_def Let_def gen_ok_def gen_core_ok_def split: if_splits)
    then have "gleft env c (early_exit g1)"
      using gok_left [OF g1(1)] by (simp add: gen_left_def gen_core_ok_def early_exit_def)
    with i e Inr g1 n show ?thesis by (simp add: top_checks_def)
  qed
qed

lemma eog_plain:
  assumes "plain_env ops env" "gok env c g" "room env g"
  shows "case eog_phase env i v t g of Inl g' \<Rightarrow> gleft env c g'
    | Inr (t', g') \<Rightarrow> gok env c g' \<and> tracker (gn_core g') = tracker (gn_core g)"
proof (cases "ge_is_eog env t")
  case False
  with assms show ?thesis by (simp add: eog_phase_def)
next
  case True
  obtain p stopped s where p: "poll_row env i v (gn_smpl g) = (p, stopped, s)" by (metis prod_cases3)
  define n where "n = (if gt_in_thinking (gn_text g) then gn_think_eog g + 1 else 0)"
  define g1 where "g1 = upd_core (\<lambda>c. c\<lparr>co_stop := co_stop c \<or> stopped\<rparr>) (g\<lparr>gn_think_eog := n\<rparr>)"
  have g1: "gok env c (g\<lparr>gn_think_eog := n\<rparr>)" "gok env c g1" "tracker (gn_core g1) = tracker (gn_core g)"
    using assms(2) by (simp_all add: gen_ok_def gen_core_ok_def g1_def)
  define g2 where "g2 = upd_flags (fl_ended_on_eog_update (\<lambda>_. True)) (g1\<lparr>gn_smpl := s, gn_text := close_open_call (gn_text g1)\<rparr>)"
  have t: "text_ok (ge_was_mid env) (fst (ge_think env)) (snd (ge_think env)) (gn_text g1)"
    using g1(2) by (simp add: gen_ok_def)
  have "gleft env c g2"
    using g1(2) forced_close [OF t] unfolding g2_def gen_left_def gen_ok_def gen_core_ok_def
    by (simp add: flags_init_def)
  moreover have "room env g2" using assms(3) g1(3) by (simp add: g2_def)
  ultimately have "gleft env c (feed_break env i t g2)" by (rule feed_break_left [OF assms(1)])
  moreover have "eog_break env i t (g1\<lparr>gn_smpl := s\<rparr>) = feed_break env i t g2"
    using g1(2) by (simp add: eog_break_def g2_def gen_ok_def gen_core_ok_def spec_init_def Let_def)
  moreover have "gok env c (g1\<lparr>gn_smpl := s', gn_recovered := True\<rparr>)" for s'
    using g1(2) by (simp add: gen_ok_def gen_core_ok_def)
  moreover have "eog_phase env i v t g =
      (if gt_in_thinking (gn_text g) \<and> n \<le> int (ge_eog_max env) then Inr (t, g\<lparr>gn_think_eog := n\<rparr>)
       else case p of Some t' \<Rightarrow> Inr (t', g1\<lparr>gn_smpl := ge_reset env s, gn_recovered := True\<rparr>)
         | None \<Rightarrow> Inl (eog_break env i t (g1\<lparr>gn_smpl := s\<rparr>)))"
    using True p by (cases p) (simp_all add: eog_phase_def n_def [symmetric] g1_def Let_def)
  ultimately show ?thesis using g1 by (simp split: option.splits)
qed

text \<open>The piece: the token that opens the call leaves the hook pending.\<close>

lemma piece_plain:
  assumes "plain_env ops env" "gok env c g" "room env g"
  shows "case res_bind (think_phase env i t g) (call_phase env i t) of Inl g' \<Rightarrow> gleft env c g'
    | Inr g' \<Rightarrow> gok env c g' \<and> gn_core g' = gn_core g
        \<or> gc env c g' \<and> gn_core g' = gn_core g \<and> gn_flags g' = flags_init \<and> gt_hook_pending (gn_text g')
          \<and> \<not> ge_was_mid env
          \<and> text_ok (ge_was_mid env) (fst (ge_think env)) (snd (ge_think env)) (gn_text g')"
proof -
  let ?mid = "ge_was_mid env" and ?ts = "fst (ge_think env)" and ?te = "snd (ge_think env)"
  let ?tx = "gn_text g" and ?x = "ge_piece env t"
  note G = assms(2) [unfolded gen_ok_def]
  have e: "\<not> ge_canary_silent env" "0 < ge_outside_limit env" "\<And>p. \<not> occurs partial_end ?x p"
    using assms(1) by (simp_all add: plain_env_def)
  obtain tripped tx1 where d: "detect_think ?ts ?te False (?tx\<lparr>gt_text := gt_text ?tx @ ?x\<rparr>) = (tripped, tx1)" by fastforce
  show ?thesis
  proof (cases tripped)
    case True
    note T = detect_think_keeps [OF d]
    have "if ?mid then s = 0 else occurs FUNC_START (gt_text tx1) s" if "gt_tool_start tx1 = Some s" for s
      using G T that by (auto simp: text_ok_def intro: occurs_grow)
    moreover from this have "s \<le> length (gt_text tx1)" if "gt_tool_start tx1 = Some s" for s
      using that by (fastforce dest: occurs_length split: if_splits)
    ultimately have left: "text_left ?mid tx1"
      using G T by (auto simp: text_left_def text_ok_def split: if_splits)
    have "gt_tool_end tx1 = None" "length ?x \<le> length (gt_text tx1)" using G T by (simp_all add: text_ok_def)
    with left True d e(1) G T show ?thesis
      by (simp add: think_phase_def gen_left_def gen_core_ok_def interrupted_def flags_init_def Let_def)
  next
    case False
    define g1 where "g1 = g\<lparr>gn_text := tx1\<rparr>"
    have th: "think_phase env i t g = Inr g1" using False d e(1) by (simp add: think_phase_def g1_def)
    obtain ev tx2 where x: "text_event (ge_outside_limit env) (search_tool_end ?mid (detect_tool_start ?te tx1)) = (ev, tx2)"
      by fastforce
    define g2 where "g2 = g1\<lparr>gn_text := tx2\<rparr>"
    have cp: "call_phase env i t g1 = (case ev of
           Stuck \<Rightarrow> Inl (feed_break env i t (upd_flags (fl_stuck_update (\<lambda>_. True)) (upd_core (co_stop_update (\<lambda>_. True)) g2)))
         | Go_On \<Rightarrow> Inr (g2\<lparr>gn_text := count_token ?x (gn_recovered g2) tx2, gn_recovered := False\<rparr>)
         | _ \<Rightarrow> Inl (feed_break env i t g2))"
      using x by (cases ev) (simp_all add: call_phase_def g1_def g2_def)
    have core: "gc env c g2" "gn_core g2 = gn_core g" "gn_flags g2 = flags_init" "gn_text g2 = tx2"
      using G by (simp_all add: g2_def g1_def gen_core_ok_def)
    have rm: "room env g2" using assms(3) core(2) by simp
    have t0: "text_ok ?mid ?ts ?te ?tx" "\<not> gt_hook_pending ?tx" using G by auto
    have d0: "detect_think ?ts ?te False (?tx\<lparr>gt_text := gt_text ?tx @ ?x\<rparr>) = (False, tx1)"
      using d False by simp
    show ?thesis
    proof (cases "gt_tool_start ?tx")
      case None
      note B = token_before_call [OF t0(1) None e(2) t0(2) e(3) d0 x]
      have l: "gleft env c g2"
        using core B(1,3) by (simp add: gen_left_def flags_init_def)
      consider "ev = Slash_Loop" | (go) "ev = Go_On" using B(2) by auto
      then show ?thesis
      proof cases
        case 1
        then show ?thesis using feed_break_left [OF assms(1) l rm] th cp by simp
      next
        case go
        let ?g = "g2\<lparr>gn_text := count_token ?x (gn_recovered g2) tx2, gn_recovered := False\<rparr>"
        have "gc env c ?g" using core by (simp add: gen_core_ok_def)
        moreover have tk: "text_ok ?mid ?ts ?te (count_token ?x (gn_recovered g2) tx2)" by (rule B(5) [OF go])
        moreover have "\<not> ?mid" using t0(1) None by (simp add: text_ok_def)
        ultimately show ?thesis using go th cp core(2,3) B(4) by (auto simp: gen_ok_def gen_core_ok_def)
      qed
    next
      case (Some s)
      note B = token_in_call [OF t0(1) Some d0 x]
      have sl: "fires env \<Longrightarrow> open_slot (gn_core g2)" using G Some core(2) by simp
      have l: "gleft env c g2" "gleft env c (upd_flags (fl_stuck_update (\<lambda>_. True)) (upd_core (co_stop_update (\<lambda>_. True)) g2))"
        using core B(1,2) sl by (simp_all add: gen_left_def gen_core_ok_def flags_init_def)
      have r2: "room env (upd_flags (fl_stuck_update (\<lambda>_. True)) (upd_core (co_stop_update (\<lambda>_. True)) g2))"
        using rm by simp
      show ?thesis
      proof (cases "ev = Go_On")
        case True
        let ?g = "g2\<lparr>gn_text := count_token ?x (gn_recovered g2) tx2, gn_recovered := False\<rparr>"
        have tk: "text_ok ?mid ?ts ?te (count_token ?x (gn_recovered g2) tx2)" by (rule B(4) [OF True])
        moreover have "\<not> gt_hook_pending (count_token ?x (gn_recovered g2) tx2)" using B(3) t0(2) by simp
        ultimately show ?thesis using True th cp core sl by (auto simp: gen_ok_def gen_core_ok_def)
      next
        case False
        then show ?thesis
          using feed_break_left [OF assms(1) l(1) rm] feed_break_left [OF assms(1) l(2) r2] th cp by (cases ev) simp_all
      qed
    qed
  qed
qed

lemma take_token_plain:
  assumes "plain_env ops env" "gok env c g" "room env g" "tracker c \<noteq> []"
  shows "case take_token env i t g of Inl g' \<Rightarrow> gleft env c g'
    | Inr g' \<Rightarrow> gok env c g' \<and> length (tracker (gn_core g')) = length (tracker (gn_core g)) + 1"
proof -
  have sp: "gn_spec g = spec_init" using assms(2) by (simp add: gen_ok_def gen_core_ok_def)
  then have cd: "compare_draft env i t g = Inr g" by (simp add: compare_draft_def spec_init_def)
  note P = piece_plain [OF assms(1-3), of i t]
  show ?thesis
  proof (cases "res_bind (think_phase env i t g) (call_phase env i t)")
    case (Inl g')
    then have "take_token env i t g = Inl g'"
      unfolding take_token_def cd by (cases "think_phase env i t g") simp_all
    with P Inl show ?thesis by simp
  next
    case (Inr g1)
    have tt: "take_token env i t g = res_bind (feed_phase env i t g1) (\<lambda>g.
        res_bind (advance_round env i g) (\<lambda>g. Inr (fire_hook env g)))"
      using Inr unfolding take_token_def cd by (cases "think_phase env i t g") simp_all
    obtain ok g2 where f: "feed_token env i t g1 = (ok, g2)" by fastforce
    from P Inr have g1: "gc env c g1" "gn_core g1 = gn_core g" "gn_flags g1 = flags_init"
      and tx1: "text_ok (ge_was_mid env) (fst (ge_think env)) (snd (ge_think env)) (gn_text g1)"
      and two: "gok env c g1 \<or> gt_hook_pending (gn_text g1) \<and> \<not> ge_was_mid env"
      by (auto simp: gen_ok_def)
    have rm: "room env g1" using assms(3) g1(2) by simp
    note F = feed_gc [OF assms(1) g1(1) rm f]
    have tx2: "text_left (ge_was_mid env) (gn_text g2)" "gt_tool_end (gn_text g2) = None"
      using text_ok_left [OF tx1] F(3) tx1 by (simp_all add: text_ok_def)
    show ?thesis
    proof (cases ok)
      case False
      have "gleft env c (early_exit g2)"
        using F(1,4) g1(3) tx2 by (simp add: gen_left_def gen_core_ok_def early_exit_def flags_init_def)
      with False tt f show ?thesis by (simp add: feed_phase_def)
    next
      case True
      have "advance_round env i g2 = Inr g2"
        using F(1) assms(1) by (simp add: advance_round_def gen_core_ok_def spec_init_def plain_env_def)
      then have r: "take_token env i t g = Inr (fire_hook env g2)" using True tt f by (simp add: feed_phase_def)
      have l: "length (tracker (gn_core g2)) = length (tracker (gn_core g)) + 1" using F(6) [OF True] g1(2) by simp
      show ?thesis
      proof (cases "gt_hook_pending (gn_text g1)")
        case False
        then have k: "gok env c g1" using two by blast
        have "fires env \<and> gt_tool_start (gn_text g2) \<noteq> None \<Longrightarrow> open_slot (gn_core g2)"
          using k F(3) gr_slot [OF _ F(2)] by (simp add: gen_ok_def)
        then have "gok env c g2" using k F(1,3,4) by (simp add: gen_ok_def)
        with r l False F(3) show ?thesis by (simp add: fire_hook_def)
      next
        case True
        then have mid: "\<not> ge_was_mid env" using two by (auto simp: gen_ok_def)
        have ops: "ge_ops env = ops" using assms(1) by (simp add: plain_env_def)
        define g3 where "g3 = g2\<lparr>gn_text := (gn_text g2)\<lparr>gt_hook_pending := False\<rparr>\<rparr>"
        have fh: "fire_hook env g2 = (if ge_hook env then upd_core (on_tool_start ops True) g3 else g3)"
          using True F(1,3) ops by (simp add: fire_hook_def g3_def gen_core_ok_def spec_init_def Let_def)
        have g3: "gc env c g3" "gn_flags g3 = flags_init" "gn_core g3 = gn_core g2"
          "text_ok (ge_was_mid env) (fst (ge_think env)) (snd (ge_think env)) (gn_text g3)" "\<not> gt_hook_pending (gn_text g3)"
          using F(1,3,4) g1(3) tx1 by (simp_all add: g3_def gen_core_ok_def)
        show ?thesis
        proof (cases "ge_hook env")
          case True
          then have k: "kp True c (gn_core g3)" using g3(1) mid by (simp add: gen_core_ok_def)
          note K = kp_start [OF k assms(4)]
          have "tracker (on_tool_start ops True (gn_core g3)) = tracker (gn_core g3)"
            by (simp add: on_tool_start_def Let_def)
          with K g3 True mid r l fh show ?thesis by (simp add: gen_ok_def gen_core_ok_def)
        next
          case False
          with g3 r l fh show ?thesis by (simp add: gen_ok_def)
        qed
      qed
    qed
  qed
qed

lemma iter_plain:
  assumes "plain_env ops env" "gok env c g" "tracker c \<noteq> []"
  shows "case gen_iter env i g of Inl g' \<Rightarrow> gleft env c g'
    | Inr g' \<Rightarrow> gok env c g' \<and> length (tracker (gn_core g')) = length (tracker (gn_core g)) + 1 \<and> room env g"
proof (cases "top_checks env i g")
  case (Inl g')
  with top_plain [OF assms(1,2), of i] show ?thesis by (simp add: gen_iter_def)
next
  case (Inr g1)
  with top_plain [OF assms(1,2), of i] have g1: "gok env c g1" "gn_core g1 = gn_core g" "room env g1" by auto
  obtain t s where t: "ge_sample env (gn_smpl g1) (sample_row g1) = (t, s)" by fastforce
  have g2: "gok env c (g1\<lparr>gn_smpl := s\<rparr>)" "room env (g1\<lparr>gn_smpl := s\<rparr>)"
    using g1 by (simp_all add: gen_ok_def gen_core_ok_def)
  note E = eog_plain [OF assms(1) g2, of i "sample_row g1" t]
  show ?thesis
  proof (cases "eog_phase env i (sample_row g1) t (g1\<lparr>gn_smpl := s\<rparr>)")
    case (Inl g')
    with E Inr t show ?thesis by (simp add: gen_iter_def sample_phase_def)
  next
    case (Inr p)
    obtain t' g3 where p: "p = (t', g3)" by fastforce
    have g3: "gok env c g3" "tracker (gn_core g3) = tracker (gn_core g1)" using E Inr p by simp_all
    then have "room env g3" using g1(3) by simp
    from take_token_plain [OF assms(1) g3(1) this assms(3), of i t'] g3(2) g1(2,3) Inr p t \<open>top_checks env i g = Inr g1\<close>
    show ?thesis by (simp add: gen_iter_def sample_phase_def split: sum.splits)
  qed
qed

lemma loop_plain:
  assumes "plain_env ops env" "gok env c g" "tracker c \<noteq> []"
  shows "\<exists>i' g'. gen_loop env i g = Some (i', g') \<and> gleft env c g'"
  using assms(2)
proof (induction "nat (ge_n_ctx env - int (length (tracker (gn_core g))))" arbitrary: i g rule: less_induct)
  case less
  note I = iter_plain [OF assms(1) less(2) assms(3), of i]
  show ?case
  proof (cases "gen_iter env i g")
    case (Inl g')
    with I show ?thesis by (simp add: gen_loop.simps [of env i g])
  next
    case (Inr g')
    with I have g': "gok env c g'" "length (tracker (gn_core g')) = length (tracker (gn_core g)) + 1" "room env g" by auto
    then have "nat (ge_n_ctx env - int (length (tracker (gn_core g')))) < nat (ge_n_ctx env - int (length (tracker (gn_core g))))"
      by linarith
    from less(1) [OF this g'(1), of "i + 1"] Inr show ?thesis by (simp add: gen_loop.simps [of env i g])
  qed
qed

text \<open>The generation as a whole.\<close>

lemma generate_plain:
  assumes "plain_env ops env" "al c" "tracker c \<noteq> []" "ge_was_mid env \<longrightarrow> open_slot c"
  obtains r g where "generate env think lc s rows c = Some (r, g)" "kp (fires env) c (gn_core g)"
    "int (length (tracker (gn_core g))) \<le> max (int (length (tracker c))) (ge_n_ctx env)" "text_positions_ok r"
    "ge_hook env \<Longrightarrow> gr_has_tool_call r \<or> gr_stuck_in_tool_call r \<Longrightarrow> open_slot (gn_core g)"
    "ge_hook env \<Longrightarrow> gr_thinking_sim_abort r \<Longrightarrow> gr_tool_start r \<noteq> None \<Longrightarrow> open_slot (gn_core g)"
    "\<And>p. gr_tool_start r = Some p \<Longrightarrow> gr_tool_end r = None \<Longrightarrow> \<not> ge_was_mid env \<Longrightarrow>
       prefix FUNC_START (drop p (gr_text r))"
    "gr_has_tool_call r \<Longrightarrow> gr_tool_end r \<noteq> None"
    "ge_was_mid env \<Longrightarrow> gr_tool_start r = Some 0 \<or> gr_tool_start r = None"
proof -
  let ?g = "gen_init env think lc s rows c"
  have "gok env c ?g"
    using kp_refl [OF assms(2)] text_ok_init
    by (simp add: gen_ok_def gen_core_ok_def gen_init_def gtext_init_def assms(4))
  from loop_plain [OF assms(1) this assms(3), of 0] obtain i g where
    g: "gen_loop env 0 ?g = Some (i, g)" "gleft env c g" by blast
  have cr: "close_round env i g = g"
    using g(2) by (simp add: close_round_def gen_left_def gen_core_ok_def spec_init_def)
  have gen: "generate env think lc s rows c = Some (build_result env g, g)"
    using g(1) by (simp add: generate_def cr Let_def)
  have L: "gn_spec g = spec_init" "kp (fires env) c (gn_core g)"
    "int (length (tracker (gn_core g))) \<le> max (int (length (tracker c))) (ge_n_ctx env)"
    "text_left (ge_was_mid env) (gn_text g)" "fl_unfed_tail (gn_flags g) \<le> length (gt_text (gn_text g))"
    "fl_stuck (gn_flags g) \<longrightarrow> gt_tool_start (gn_text g) \<noteq> None"
    "fires env \<and> gt_tool_start (gn_text g) \<noteq> None
          \<and> (gt_tool_end (gn_text g) \<noteq> None \<or> fl_stuck (gn_flags g) \<or> fl_sim_abort (gn_flags g)) \<longrightarrow> open_slot (gn_core g)"
    using g(2) by (simp_all add: gen_left_def gen_core_ok_def)
  have sl: "ge_was_mid env \<Longrightarrow> open_slot (gn_core g)" using L(2) assms(4) by (simp add: kept_def)
  let ?r = "build_result env g"
  have R: "gr_text ?r = gt_text (gn_text g)" "gr_tool_start ?r = gt_tool_start (gn_text g)"
    "gr_tool_end ?r = gt_tool_end (gn_text g)" "gr_unfed_tail_len ?r = fl_unfed_tail (gn_flags g)"
    "gr_has_tool_call ?r \<Longrightarrow> gt_tool_start (gn_text g) \<noteq> None \<and> gt_tool_end (gn_text g) \<noteq> None"
    "gr_stuck_in_tool_call ?r = fl_stuck (gn_flags g)" "gr_thinking_sim_abort ?r = fl_sim_abort (gn_flags g)"
    by (simp_all add: build_result_def Let_def)
  note T = L(4) [unfolded text_left_def]
  show thesis
  proof (rule that [OF gen L(2,3)])
    show "text_positions_ok ?r" using L(5) T by (cases "gt_tool_start (gn_text g)") (simp_all add: text_positions_ok_def R)
    show "open_slot (gn_core g)" if "ge_hook env" "gr_has_tool_call ?r \<or> gr_stuck_in_tool_call ?r"
      using sl L(6,7) R(5,6) that by (cases "ge_was_mid env") auto
    show "open_slot (gn_core g)" if "ge_hook env" "gr_thinking_sim_abort ?r" "gr_tool_start ?r \<noteq> None"
      using sl L(7) that by (cases "ge_was_mid env") (simp_all add: R)
    show "prefix FUNC_START (drop p (gr_text ?r))"
      if "gr_tool_start ?r = Some p" "gr_tool_end ?r = None" "\<not> ge_was_mid env" for p
      using T that by (simp add: R occurs_def)
    show "gr_has_tool_call ?r \<Longrightarrow> gr_tool_end ?r \<noteq> None" using R(3,5) by simp
    show "gr_tool_start ?r = Some 0 \<or> gr_tool_start ?r = None" if "ge_was_mid env"
      using T that by (cases "gt_tool_start (gn_text g)") (simp_all add: R)
  qed
qed

end

end
