(* ===== verification/Lim_Codec.thy ===== *)
theory Lim_Codec
  imports Lim_Numbers
begin

section \<open>Base64 (network.cc)\<close>

text \<open>
  The encoder that uploads a PDF to the converter (\<open>base64_encode\<close>) and the decoder of the contents that the
  GitHub API returns (\<open>github_api_fetch\<close>). Both collect bits in a 32-bit \<open>int\<close> that overflows on long
  inputs; the shifts wrap and the right shift is arithmetic. The encoder is shown to be the standard code
  by groups of three bytes and to be inverted by the decoder's loop started at minus eight. The source starts
  that loop at minus six, so that the first character of a file becomes a byte of its own.
\<close>

subsection \<open>The encoder\<close>

abbreviation byte :: "char \<Rightarrow> int" where "byte c \<equiv> of_char c"

abbreviation byte_char :: "int \<Rightarrow> char" where "byte_char i \<equiv> char_of i"

text \<open>Bit operations of a 32-bit \<open>int\<close>: left shift, arithmetic right shift, a mask of the lowest bits.\<close>

definition shl :: "int \<Rightarrow> nat \<Rightarrow> int" where "shl v n = to_int32 (v * 2 ^ n)"

definition shr :: "int \<Rightarrow> int \<Rightarrow> int" where "shr v n = v div 2 ^ nat n"

definition low_bits :: "nat \<Rightarrow> int \<Rightarrow> int" where "low_bits n v = v mod 2 ^ n"

definition B64_LOOKUP :: string where
  "B64_LOOKUP = ''ABCDEFGHIJKLMNOPQRSTUVWXYZabcdefghijklmnopqrstuvwxyz0123456789+/''"

definition b64_char :: "int \<Rightarrow> char" where "b64_char i = B64_LOOKUP ! nat i"

function b64_emit :: "int \<Rightarrow> int \<Rightarrow> string \<times> int" where
  "b64_emit val valb =
     (if valb \<ge> 0
      then (let (out, valb') = b64_emit val (valb - 6)
            in (b64_char (low_bits 6 (shr val valb)) # out, valb'))
      else ([], valb))"
  by auto
termination by (relation "measure (\<lambda>(_, valb). nat (valb + 6))") auto

declare b64_emit.simps [simp del]

fun b64_loop :: "string \<Rightarrow> int \<Rightarrow> int \<Rightarrow> string \<times> int \<times> int" where
  "b64_loop [] val valb = ([], val, valb)"
| "b64_loop (c # cs) val valb =
     (let val = to_int32 (shl val 8 + byte c);
          (out, valb) = b64_emit val (valb + 8);
          (out', val, valb) = b64_loop cs val valb
      in (out @ out', val, valb))"

definition pad4 :: "string \<Rightarrow> string" where
  "pad4 s = s @ replicate ((4 - length s mod 4) mod 4) CHR ''=''"

definition base64_encode :: "string \<Rightarrow> string" where
  "base64_encode s =
     (let (out, val, valb) = b64_loop s 0 (- 6)
      in pad4 (if valb > - 6 then out @ [b64_char (low_bits 6 (shr (shl val 8) (valb + 8)))] else out))"

subsection \<open>The decoder\<close>

definition b64_val :: "char \<Rightarrow> int" where
  "b64_val c =
     (if byte CHR ''A'' \<le> byte c \<and> byte c \<le> byte CHR ''Z'' then byte c - byte CHR ''A''
      else if byte CHR ''a'' \<le> byte c \<and> byte c \<le> byte CHR ''z'' then byte c - byte CHR ''a'' + 26
      else if byte CHR ''0'' \<le> byte c \<and> byte c \<le> byte CHR ''9'' then byte c - byte CHR ''0'' + 52
      else if c = CHR ''+'' then 62
      else if c = CHR ''/'' then 63
      else - 1)"

fun b64_decode_from :: "int \<Rightarrow> int \<Rightarrow> string \<Rightarrow> string" where
  "b64_decode_from val valb [] = []"
| "b64_decode_from val valb (c # cs) =
     (if c = CHR ''='' then []
      else let d = b64_val c in
        if d < 0 then b64_decode_from val valb cs
        else let val = to_int32 (shl val 6 + d); valb = valb + 6 in
          if valb \<ge> 0 then byte_char (low_bits 8 (shr val valb)) # b64_decode_from val (valb - 8) cs
          else b64_decode_from val valb cs)"

text \<open>The decoding of the source, which first removes the line breaks of the answer.\<close>

definition github_base64_decode :: "string \<Rightarrow> string" where
  "github_base64_decode b64 = b64_decode_from 0 (- 6) (filter (\<lambda>c. \<not> is_space c) b64)"

subsection \<open>Arithmetic of the accumulator\<close>

text \<open>Bits below position 32 are not changed by the wrap-around.\<close>

lemma bits_above:
  fixes x :: int
  shows "(x + 2 ^ k * (2 ^ m * r)) div 2 ^ k mod 2 ^ m = x div 2 ^ k mod 2 ^ m"
  by simp

lemma to_int32_bits:
  assumes "k + m \<le> 32"
  shows "to_int32 x div 2 ^ k mod 2 ^ m = x div 2 ^ k mod 2 ^ m"
proof -
  define q where "q = (x + 2 ^ 31) div 2 ^ 32"
  have "(x + 2 ^ 31) mod 2 ^ 32 = x + 2 ^ 31 - 2 ^ 32 * q" by (simp add: q_def minus_mult_div_eq_mod)
  then have e: "to_int32 x = x + 2 ^ 32 * (- q)" by (simp add: to_int32_def)
  have "(2::int) ^ 32 = 2 ^ k * (2 ^ m * 2 ^ (32 - k - m))" using assms by (simp flip: power_add)
  then have "to_int32 x = x + 2 ^ k * (2 ^ m * (2 ^ (32 - k - m) * (- q)))" unfolding e by (simp only: mult.assoc)
  then show ?thesis by (simp only: bits_above)
qed

lemma acc_bits:
  assumes "0 \<le> k" "nat k + m \<le> 32"
  shows "low_bits m (shr (to_int32 (shl v n + b)) k) = (v * 2 ^ n + b) div 2 ^ nat k mod 2 ^ m"
proof -
  define q where "q = (v * 2 ^ n + 2 ^ 31) div 2 ^ 32"
  have "(v * 2 ^ n + 2 ^ 31) mod 2 ^ 32 = v * 2 ^ n + 2 ^ 31 - 2 ^ 32 * q"
    by (simp add: q_def minus_mult_div_eq_mod)
  then have e: "shl v n + b = v * 2 ^ n + b + 2 ^ 32 * (- q)" by (simp add: shl_def to_int32_def)
  have p: "(2::int) ^ 32 = 2 ^ nat k * (2 ^ m * 2 ^ (32 - nat k - m))" using assms by (simp flip: power_add)
  have "shl v n + b = v * 2 ^ n + b + 2 ^ nat k * (2 ^ m * (2 ^ (32 - nat k - m) * (- q)))"
    unfolding e p by (simp only: mult.assoc)
  then have "(shl v n + b) div 2 ^ nat k mod 2 ^ m = (v * 2 ^ n + b) div 2 ^ nat k mod 2 ^ m"
    by (simp only: bits_above)
  with to_int32_bits [OF assms(2)] show ?thesis by (simp add: low_bits_def shr_def)
qed

lemma byte_range: "0 \<le> byte c" "byte c < 256"
proof -
  have "byte c = byte c mod 256" by simp
  then show "0 \<le> byte c" "byte c < 256" by (metis pos_mod_sign pos_mod_bound zero_less_numeral)+
qed

lemma acc_mod: "m \<le> 32 \<Longrightarrow> to_int32 (shl v n + b) mod 2 ^ m = (v * 2 ^ n + b) mod 2 ^ m"
  using acc_bits [of 0 m v n b] by (simp add: low_bits_def shr_def)

text \<open>A window of the accumulator: the low part of the old value followed by the high part of the new digit.\<close>

lemma window_bits:
  fixes v b :: int
  assumes "0 < d" "0 < e" "0 < f" "0 \<le> b" "b < m" "m = d * e" "n = e * f"
  shows "(v * m + b) div d mod n = v mod f * e + b div d"
proof -
  have "v * m + b = b + d * (v * e)" by (simp add: assms(6) algebra_simps)
  then have q: "(v * m + b) div d = v * e + b div d"
    using assms(1) by (simp only: div_mult_self2 less_imp_neq [THEN not_sym] not_False_eq_True)
  have "b < e * d" using assms(5,6) by (simp add: mult.commute)
  have "b div d < e"
  proof (rule ccontr)
    assume "\<not> b div d < e"
    then have "e * d \<le> b div d * d" using assms(1) by (intro mult_right_mono) simp_all
    also have "\<dots> \<le> b" using pos_mod_sign [OF assms(1), of b] by (simp add: minus_mod_eq_div_mult [symmetric])
    finally show False using \<open>b < e * d\<close> by simp
  qed
  then have t: "0 \<le> b div d" "b div d < e" using assms(1,4) by (simp_all add: pos_imp_zdiv_nonneg_iff)
  have "(v * e + b div d) div e = v" "(v * e + b div d) mod e = b div d" using t by simp_all
  then show ?thesis unfolding q assms(7) using assms(2,3) by (simp add: zmod_zmult2_eq mult.commute)
qed

lemma mod_window:
  fixes v b :: int
  shows "m = k * l \<Longrightarrow> (v * m + b) mod k = b mod k"
  using mod_mult_self2 [of b k "v * l"] by (simp add: algebra_simps)

text \<open>What the accumulator yields after a byte, and what it keeps of it.\<close>

lemma acc_byte:
  fixes v :: int
  assumes "0 \<le> b" "b < 256"
  shows "low_bits 6 (shr (to_int32 (shl v 8 + b)) 2) = b div 4"
    "low_bits 6 (shr (to_int32 (shl v 8 + b)) 4) = v mod 4 * 16 + b div 16"
    "low_bits 6 (shr (to_int32 (shl v 8 + b)) 6) = v mod 16 * 4 + b div 64"
proof -
  have "(v * 256 + b) div 4 mod 64 = v mod 1 * 64 + b div 4"
    by (rule window_bits) (simp_all add: assms)
  then show "low_bits 6 (shr (to_int32 (shl v 8 + b)) 2) = b div 4"
    using acc_bits [of 2 6 v 8 b] by simp
  have "(v * 256 + b) div 16 mod 64 = v mod 4 * 16 + b div 16"
    by (rule window_bits) (simp_all add: assms)
  then show "low_bits 6 (shr (to_int32 (shl v 8 + b)) 4) = v mod 4 * 16 + b div 16"
    using acc_bits [of 4 6 v 8 b] by simp
  have "(v * 256 + b) div 64 mod 64 = v mod 16 * 4 + b div 64"
    by (rule window_bits) (simp_all add: assms)
  then show "low_bits 6 (shr (to_int32 (shl v 8 + b)) 6) = v mod 16 * 4 + b div 64"
    using acc_bits [of 6 6 v 8 b] by simp
qed

lemma acc_keep:
  fixes v :: int
  shows "low_bits 6 (shr (to_int32 (shl v 8 + b)) 0) = b mod 64"
    "to_int32 (shl v 8 + b) mod 4 = b mod 4" "to_int32 (shl v 8 + b) mod 16 = b mod 16"
    "low_bits 6 (shr (shl v 8) 4) = v mod 4 * 16" "low_bits 6 (shr (shl v 8) 6) = v mod 16 * 4"
proof -
  have m: "(v * 256 + b) mod 64 = b mod 64" "(v * 256 + b) mod 4 = b mod 4" "(v * 256 + b) mod 16 = b mod 16"
    by (rule mod_window, simp)+
  show "low_bits 6 (shr (to_int32 (shl v 8 + b)) 0) = b mod 64"
    using acc_bits [of 0 6 v 8 b] m(1) by simp
  show "to_int32 (shl v 8 + b) mod 4 = b mod 4" using acc_mod [of 2 v 8 b] m(2) by simp
  show "to_int32 (shl v 8 + b) mod 16 = b mod 16" using acc_mod [of 4 v 8 b] m(3) by simp
  have "(v * 256 + 0) div 16 mod 64 = v mod 4 * 16 + 0 div 16" "(v * 256 + 0) div 64 mod 64 = v mod 16 * 4 + 0 div 64"
    by (rule window_bits; simp)+
  then show "low_bits 6 (shr (shl v 8) 4) = v mod 4 * 16" "low_bits 6 (shr (shl v 8) 6) = v mod 16 * 4"
    using to_int32_bits [of 4 6 "v * 256"] to_int32_bits [of 6 6 "v * 256"]
    by (simp_all add: low_bits_def shr_def shl_def)
qed

subsection \<open>The encoder is the standard code\<close>

text \<open>Three bytes are four characters of six bits; one or two bytes at the end are padded.\<close>

fun b64_groups :: "string \<Rightarrow> string" where
  "b64_groups [] = []"
| "b64_groups [a] = [b64_char (byte a div 4), b64_char (byte a mod 4 * 16), CHR ''='', CHR ''='']"
| "b64_groups [a, b] = [b64_char (byte a div 4), b64_char (byte a mod 4 * 16 + byte b div 16),
     b64_char (byte b mod 16 * 4), CHR ''='']"
| "b64_groups (a # b # c # s) = [b64_char (byte a div 4), b64_char (byte a mod 4 * 16 + byte b div 16),
     b64_char (byte b mod 16 * 4 + byte c div 64), b64_char (byte c mod 64)] @ b64_groups s"

lemma emit_simps:
  "b64_emit val 2 = ([b64_char (low_bits 6 (shr val 2))], - 4)"
  "b64_emit val 4 = ([b64_char (low_bits 6 (shr val 4))], - 2)"
  "b64_emit val 6 = ([b64_char (low_bits 6 (shr val 6)), b64_char (low_bits 6 (shr val 0))], - 6)"
  by (simp_all add: b64_emit.simps)

lemmas b64_step = emit_simps acc_byte acc_keep byte_range

lemma loop_group:
  obtains v where "b64_loop (a # b # c # s) val (- 6) =
    (let (out, val, valb) = b64_loop s v (- 6)
     in ([b64_char (byte a div 4), b64_char (byte a mod 4 * 16 + byte b div 16),
          b64_char (byte b mod 16 * 4 + byte c div 64), b64_char (byte c mod 64)] @ out, val, valb))"
  by (rule that [of "to_int32 (shl (to_int32 (shl (to_int32 (shl val 8 + byte a)) 8 + byte b)) 8 + byte c)"])
    (simp add: b64_step Let_def split_beta)

definition b64_finish :: "string \<times> int \<times> int \<Rightarrow> string" where
  "b64_finish = (\<lambda>(out, val, valb).
     pad4 (if valb > - 6 then out @ [b64_char (low_bits 6 (shr (shl val 8) (valb + 8)))] else out))"

lemma pad4_group: "length g = 4 \<Longrightarrow> pad4 (g @ s) = g @ pad4 s"
  by (simp add: pad4_def)

lemma finish_group:
  assumes "length g = 4"
  shows "b64_finish (let (out, val, valb) = p in (g @ out, val, valb)) = g @ b64_finish p"
  using pad4_group [OF assms] by (cases p) (simp add: b64_finish_def)

lemma encode_from: "b64_finish (b64_loop s val (- 6)) = b64_groups s"
proof (induction s arbitrary: val rule: b64_groups.induct)
  case (4 a b c s)
  obtain v where "b64_loop (a # b # c # s) val (- 6) =
    (let (out, val, valb) = b64_loop s v (- 6)
     in ([b64_char (byte a div 4), b64_char (byte a mod 4 * 16 + byte b div 16),
          b64_char (byte b mod 16 * 4 + byte c div 64), b64_char (byte c mod 64)] @ out, val, valb))"
    by (rule loop_group)
  then have "b64_finish (b64_loop (a # b # c # s) val (- 6)) =
    [b64_char (byte a div 4), b64_char (byte a mod 4 * 16 + byte b div 16),
     b64_char (byte b mod 16 * 4 + byte c div 64), b64_char (byte c mod 64)] @ b64_finish (b64_loop s v (- 6))"
    by (simp only: finish_group list.size)
  with 4 [of v] show ?case by simp
qed (simp_all add: b64_finish_def pad4_def b64_step Let_def split_beta numeral_2_eq_2)

lemma encode_groups: "base64_encode s = b64_groups s"
  using encode_from [of s 0] by (simp add: base64_encode_def b64_finish_def)

subsection \<open>Decoding\<close>

lemma b64_val_char: "0 \<le> d \<Longrightarrow> d < 64 \<Longrightarrow> b64_val (b64_char d) = d \<and> b64_char d \<noteq> CHR ''='' \<and> \<not> is_space (b64_char d)"
proof -
  have all: "\<forall>n\<in>set [0..<64]. b64_val (b64_char (int n)) = int n \<and> b64_char (int n) \<noteq> CHR ''=''
      \<and> \<not> is_space (b64_char (int n))" by code_simp
  assume "0 \<le> d" "d < 64"
  then have "nat d \<in> set [0..<64]" "int (nat d) = d" by simp_all
  with all show ?thesis by metis
qed

lemma acc_digit:
  fixes v :: int
  assumes "0 \<le> d" "d < 64"
  shows "low_bits 8 (shr (to_int32 (shl v 6 + d)) 4) = v mod 64 * 4 + d div 16"
    "low_bits 8 (shr (to_int32 (shl v 6 + d)) 2) = v mod 16 * 16 + d div 4"
    "low_bits 8 (shr (to_int32 (shl v 6 + d)) 0) = v mod 4 * 64 + d"
    "to_int32 (shl v 6 + d) mod 64 = d" "to_int32 (shl v 6 + d) mod 16 = d mod 16"
    "to_int32 (shl v 6 + d) mod 4 = d mod 4"
proof -
  have "(v * 64 + d) div 16 mod 256 = v mod 64 * 4 + d div 16" by (rule window_bits) (simp_all add: assms)
  then show "low_bits 8 (shr (to_int32 (shl v 6 + d)) 4) = v mod 64 * 4 + d div 16"
    using acc_bits [of 4 8 v 6 d] by simp
  have "(v * 64 + d) div 4 mod 256 = v mod 16 * 16 + d div 4" by (rule window_bits) (simp_all add: assms)
  then show "low_bits 8 (shr (to_int32 (shl v 6 + d)) 2) = v mod 16 * 16 + d div 4"
    using acc_bits [of 2 8 v 6 d] by simp
  have "(v * 64 + d) div 1 mod 256 = v mod 4 * 64 + d div 1" by (rule window_bits) (simp_all add: assms)
  then show "low_bits 8 (shr (to_int32 (shl v 6 + d)) 0) = v mod 4 * 64 + d"
    using acc_bits [of 0 8 v 6 d] by simp
  have m: "(v * 64 + d) mod 64 = d mod 64" "(v * 64 + d) mod 16 = d mod 16" "(v * 64 + d) mod 4 = d mod 4"
    by (rule mod_window, simp)+
  show "to_int32 (shl v 6 + d) mod 64 = d" using acc_mod [of 6 v 6 d] m(1) assms by simp
  show "to_int32 (shl v 6 + d) mod 16 = d mod 16" using acc_mod [of 4 v 6 d] m(2) by simp
  show "to_int32 (shl v 6 + d) mod 4 = d mod 4" using acc_mod [of 2 v 6 d] m(3) by simp
qed

lemma decode_digit:
  assumes "0 \<le> d" "d < 64"
  shows "b64_decode_from val valb (b64_char d # s) =
    (if valb + 6 \<ge> 0 then byte_char (low_bits 8 (shr (to_int32 (shl val 6 + d)) (valb + 6)))
       # b64_decode_from (to_int32 (shl val 6 + d)) (valb - 2) s
     else b64_decode_from (to_int32 (shl val 6 + d)) (valb + 6) s)"
  using b64_val_char [OF assms] assms by (simp add: Let_def)

lemma decode_pad: "b64_decode_from val valb (CHR ''='' # s) = []"
  by simp

declare b64_decode_from.simps(2) [simp del]

lemma sextets:
  fixes a b c :: int
  assumes "0 \<le> a" "a < 256" "0 \<le> b" "b < 256" "0 \<le> c" "c < 256"
  shows "0 \<le> a div 4" "a div 4 < 64" "0 \<le> a mod 4 * 16 + b div 16" "a mod 4 * 16 + b div 16 < 64"
    "0 \<le> b mod 16 * 4 + c div 64" "b mod 16 * 4 + c div 64 < 64" "0 \<le> c mod 64" "c mod 64 < 64"
    "0 \<le> a mod 4 * 16" "a mod 4 * 16 < 64" "0 \<le> b mod 16 * 4" "b mod 16 * 4 < 64"
proof -
  have "0 \<le> a div 4" "a div 4 < 64" "0 \<le> a mod 4" "a mod 4 < 4" "0 \<le> b div 16" "b div 16 < 16"
    "0 \<le> b mod 16" "b mod 16 < 16" "0 \<le> c div 64" "c div 64 < 4" "0 \<le> c mod 64" "c mod 64 < 64"
    using assms by simp_all
  then show "0 \<le> a div 4" "a div 4 < 64" "0 \<le> a mod 4 * 16 + b div 16" "a mod 4 * 16 + b div 16 < 64"
    "0 \<le> b mod 16 * 4 + c div 64" "b mod 16 * 4 + c div 64 < 64" "0 \<le> c mod 64" "c mod 64 < 64"
    "0 \<le> a mod 4 * 16" "a mod 4 * 16 < 64" "0 \<le> b mod 16 * 4" "b mod 16 * 4 < 64"
    by linarith+
qed

lemma split_window:
  fixes v t :: int
  assumes "0 \<le> t" "t < e"
  shows "(v * e + t) div e = v" "(v * e + t) mod e = t"
  using assms by simp_all

lemma bytes_back:
  fixes a b c :: int
  assumes "0 \<le> a" "a < 256" "0 \<le> b" "b < 256" "0 \<le> c" "c < 256"
  shows "a div 4 * 4 + (a mod 4 * 16 + b div 16) div 16 = a"
    "(a mod 4 * 16 + b div 16) mod 16 * 16 + (b mod 16 * 4 + c div 64) div 4 = b"
    "(b mod 16 * 4 + c div 64) mod 4 * 64 + c mod 64 = c"
    "(a mod 4 * 16 + b div 16) mod 16 * 16 + b mod 16 * 4 div 4 = b"
proof -
  have h: "0 \<le> b div 16" "b div 16 < 16" "0 \<le> c div 64" "c div 64 < 4" using assms by simp_all
  note w = split_window [OF h(1,2), of "a mod 4"] split_window [OF h(3,4), of "b mod 16"]
  show "a div 4 * 4 + (a mod 4 * 16 + b div 16) div 16 = a" unfolding w by simp
  show "(a mod 4 * 16 + b div 16) mod 16 * 16 + (b mod 16 * 4 + c div 64) div 4 = b" unfolding w by simp
  show "(b mod 16 * 4 + c div 64) mod 4 * 64 + c mod 64 = c" unfolding w by simp
  show "(a mod 4 * 16 + b div 16) mod 16 * 16 + b mod 16 * 4 div 4 = b" unfolding w by simp
qed

lemma high_part:
  "byte b div 16 div 16 = 0" "byte b div 16 mod 16 = byte b div 16"
  "byte b div 64 div 4 = 0" "byte b div 64 mod 4 = byte b div 64"
proof -
  have "0 \<le> byte b div 16" "byte b div 16 < 16" "0 \<le> byte b div 64" "byte b div 64 < 4"
    using byte_range [of b] by simp_all
  then show "byte b div 16 div 16 = 0" "byte b div 16 mod 16 = byte b div 16"
    "byte b div 64 div 4 = 0" "byte b div 64 mod 4 = byte b div 64"
    by (simp_all only: div_pos_pos_trivial mod_pos_pos_trivial)
qed

lemma decode_groups: "b64_decode_from val (- 8) (b64_groups s) = s"
proof (induction s arbitrary: val rule: b64_groups.induct)
  case (2 a)
  note S = sextets [of "byte a" "byte a" "byte a", OF byte_range byte_range byte_range]
  show ?case by (simp add: decode_digit decode_pad S acc_digit mult_div_mod_eq)
next
  case (3 a b)
  note S = sextets [of "byte a" "byte b" "byte b", OF byte_range byte_range byte_range]
  note B = bytes_back [of "byte a" "byte b" "byte b", OF byte_range byte_range byte_range]
  show ?case by (simp add: high_part decode_digit decode_pad S acc_digit B)
next
  case (4 a b c s)
  note S = sextets [of "byte a" "byte b" "byte c", OF byte_range byte_range byte_range]
  note B = bytes_back [of "byte a" "byte b" "byte c", OF byte_range byte_range byte_range]
  show ?case by (simp add: high_part decode_digit decode_pad S acc_digit B 4)
qed simp

subsection \<open>The properties\<close>

text \<open>The encoder is the standard code by groups of three bytes, whatever the overflow of its accumulator, and
  the decoder's loop inverts it when its bit counter starts at minus eight.\<close>

theorem base64_roundtrip: "base64_encode s = b64_groups s \<and> b64_decode_from 0 (- 8) (base64_encode s) = s"
  by (simp add: encode_groups decode_groups)

lemma groups_head: "\<exists>r. b64_groups (c # cs) = b64_char (byte c div 4) # r"
  by (cases "c # cs" rule: b64_groups.cases) auto

text \<open>C36: The decoder of the source starts the counter at minus six and so emits the first six bits as a byte: of a
  file that does not begin with a NUL byte the contents are never restored. The first byte it yields is the
  first byte of the file divided by four.\<close>

theorem github_decode_corrupts:
  assumes "c \<noteq> CHR 0x00"
  shows "hd (github_base64_decode (base64_encode (c # cs))) = byte_char (byte c div 4)
    \<and> github_base64_decode (base64_encode (c # cs)) \<noteq> c # cs"
proof -
  let ?d = "byte c div 4"
  obtain r where r: "base64_encode (c # cs) = b64_char ?d # r" using groups_head by (metis encode_groups)
  have d: "0 \<le> ?d" "?d < 64" using byte_range [of c] by auto
  have e: "low_bits 8 (shr (to_int32 (shl 0 6 + ?d)) 0) = ?d" using acc_digit(3) [OF d, of 0] by simp
  have "github_base64_decode (b64_char ?d # r)
      = b64_decode_from 0 (- 6) (b64_char ?d # filter (\<lambda>c. \<not> is_space c) r)"
    using b64_val_char [OF d] by (simp add: github_base64_decode_def)
  then obtain t where t: "github_base64_decode (base64_encode (c # cs)) = byte_char ?d # t"
    by (simp add: r decode_digit [OF d] e)
  have "byte_char ?d \<noteq> c"
  proof
    assume "byte_char ?d = c"
    then have "byte c = ?d mod 256" by (metis of_char_of)
    then have "byte c = 0" using byte_range [of c] by simp
    then have "c = byte_char 0" by (metis char_of_char)
    with assms show False by (simp add: char_of_def)
  qed
  then show ?thesis by (simp add: t)
qed

lemma github_decode_corrupts_witness:
  "CHR ''M'' \<noteq> CHR 0x00 \<and> base64_encode ''Man'' = ''TWFu'' \<and> github_base64_decode ''TWFu'' = [CHR 0x13, CHR ''X'', CHR ''[''] \<and>
   github_base64_decode (base64_encode ''Man'') \<noteq> ''Man''"
proof -
  have "base64_encode ''Man'' = ''TWFu''" "github_base64_decode ''TWFu'' = [CHR 0x13, CHR ''X'', CHR ''['']"
    by code_simp+
  then show ?thesis using github_decode_corrupts [of "CHR ''M''" "''an''"] by simp
qed

end
