(* ===== verification/Lim_Fetch.thy ===== *)
theory Lim_Fetch
  imports Lim_Codec Lim_Files
begin

section \<open>Transfers and the budget of web contents (network.cc)\<close>

text \<open>
  The callbacks by which \<open>libcurl\<close> hands over the header lines and the body of a transfer, the budget of
  characters that web contents may take of the context, and the removal of inlined images. \<open>libcurl\<close> is
  the list of the lines and chunks it delivers.
\<close>

subsection \<open>The callbacks of a transfer\<close>

record fetch_state =
  ft_buffer :: string
  ft_is_text :: bool
  ft_is_pdf :: bool
  ft_exceeded :: bool

definition fetch_init :: fetch_state where
  "fetch_init = \<lparr>ft_buffer = [], ft_is_text = True, ft_is_pdf = False, ft_exceeded = False\<rparr>"

definition is_pdf_by_magic :: "string \<Rightarrow> bool" where
  "is_pdf_by_magic buffer \<longleftrightarrow> length buffer \<ge> 5 \<and> take 5 buffer = ''%PDF-''"

definition contains :: "string \<Rightarrow> string \<Rightarrow> bool" where
  "contains s pat \<longleftrightarrow> str_find s pat 0 \<noteq> None"

text \<open>The end pointer of a conversion stands at the terminating NUL.\<close>

definition at_end :: "string \<Rightarrow> nat \<Rightarrow> bool" where
  "at_end s e \<longleftrightarrow> e = length s \<or> (e < length s \<and> s ! e = CHR 0x00)"

definition is_redirect :: "string \<Rightarrow> bool" where
  "is_redirect lower_header \<longleftrightarrow>
     (case str_find lower_header '' '' 0 of None \<Rightarrow> False
      | Some space_pos \<Rightarrow>
          (let status = drop (space_pos + 1) lower_header; (code, e) = strtol10 status
           in length status \<ge> 3 \<and> at_end status e \<and> code \<ge> 300 \<and> code < 400))"

definition header_callback :: "string \<Rightarrow> fetch_state \<Rightarrow> fetch_state" where
  "header_callback header st =
     (let lower = map to_lower header;
          st = (if starts_with lower ''http/'' \<and> is_redirect lower
                then st\<lparr>ft_is_text := False, ft_is_pdf := False\<rparr> else st)
      in if starts_with lower ''content-type:''
         then (if contains lower ''application/pdf'' then st\<lparr>ft_is_pdf := True, ft_is_text := False\<rparr>
               else if contains lower ''text/html'' \<or> contains lower ''text/plain'' then st\<lparr>ft_is_text := True\<rparr>
               else st)
         else st)"

definition write_callback :: "nat \<Rightarrow> nat \<Rightarrow> string \<Rightarrow> fetch_state \<Rightarrow> fetch_state" where
  "write_callback html_max pdf_max chunk st =
     (let st = (if \<not> ft_is_text st \<and> \<not> ft_is_pdf st then st\<lparr>ft_is_text := True\<rparr> else st);
          max_size = (if ft_is_pdf st then pdf_max else html_max)
      in if ft_exceeded st then st
         else if length (ft_buffer st) + length chunk > max_size then st\<lparr>ft_exceeded := True\<rparr>
         else st\<lparr>ft_buffer := ft_buffer st @ chunk\<rparr>)"

datatype net_event = Header_Line string | Body_Chunk string

fun net_step :: "nat \<Rightarrow> nat \<Rightarrow> net_event \<Rightarrow> fetch_state \<Rightarrow> fetch_state" where
  "net_step html_max pdf_max (Header_Line l) st = header_callback l st"
| "net_step html_max pdf_max (Body_Chunk c) st = write_callback html_max pdf_max c st"

definition transfer :: "nat \<Rightarrow> nat \<Rightarrow> net_event list \<Rightarrow> fetch_state" where
  "transfer html_max pdf_max evs = fold (net_step html_max pdf_max) evs fetch_init"

subsection \<open>Inlined images\<close>

definition IMAGE_START :: string where "IMAGE_START = ''![Image](data:image/''"

definition IMAGE_OMITTED :: string where "IMAGE_OMITTED = ''[IMAGE OMITTED]''"

function strip_images_from :: "string \<Rightarrow> nat \<Rightarrow> string" where
  "strip_images_from result pos =
     (case str_find result IMAGE_START pos of None \<Rightarrow> result
      | Some p \<Rightarrow>
          (case str_find result '')'' p of None \<Rightarrow> result
           | Some end_pos \<Rightarrow>
               strip_images_from (str_replace result p (end_pos - p + 1) IMAGE_OMITTED) (p + length IMAGE_OMITTED)))"
  by auto
termination
proof (relation "measure (\<lambda>(result, pos). length result - pos)")
  fix result :: string and pos p e
  assume a: "str_find result IMAGE_START pos = Some p" "str_find result '')'' p = Some e"
  have "pos \<le> p" "p < length result" "p \<le> e" "e < length result"
    using str_find_boundsD [OF a(1)] str_find_boundsD [OF a(2)] by (simp_all add: IMAGE_START_def)
  then show "((str_replace result p (e - p + 1) IMAGE_OMITTED, p + length IMAGE_OMITTED), result, pos)
      \<in> measure (\<lambda>(result, pos). length result - pos)"
    by (simp add: str_replace_def)
qed simp

declare strip_images_from.simps [simp del]

definition strip_base64_images :: "string \<Rightarrow> string" where
  "strip_base64_images text = strip_images_from text 0"

subsection \<open>The budget\<close>

definition rfind_upto :: "string \<Rightarrow> char \<Rightarrow> nat \<Rightarrow> nat option" where
  "rfind_upto s c pos = str_rfind (take (pos + 1) s) [c]"

definition BUDGET_FULL :: string where
  "BUDGET_FULL = ''[SYSTEM NOTIFICATION: Context memory budget is full. Cannot load more documents. '' @
     ''Please rely on existing memory or ask the user to type '' @ [ch_squote] @ ''/clear'' @ [ch_squote] @
     '' to reset the chat.]''"

definition OMITTED :: string where
  "OMITTED = [ch_nl, ch_nl] @ ''... [MASSIVE CONTENT OMITTED DUE TO CONTEXT LIMITS] ...'' @ [ch_nl, ch_nl]"

text \<open>\<open>limit_context_size(text, 0)\<close>: the result and the characters used so far.\<close>

definition limit_context_size :: "nat \<Rightarrow> nat \<Rightarrow> string \<Rightarrow> nat \<Rightarrow> string \<times> nat" where
  "limit_context_size session_max per_file_max text used =
     (let cleaned = strip_base64_images text;
          remaining = (if used < session_max then session_max - used else 0)
      in if remaining < 5000 then (BUDGET_FULL, used)
         else let limit = min per_file_max remaining in
           if length cleaned \<le> limit then (cleaned, used + length cleaned)
           else let head_size = (limit * 6) mod 2 ^ 64 div 10;
                    tail_size = (limit * 4) mod 2 ^ 64 div 10;
                    head_end = (case rfind_upto cleaned CHR '' '' head_size of Some p \<Rightarrow> p | None \<Rightarrow> head_size);
                    tail_start = length cleaned - tail_size;
                    actual_tail_start = (case str_find cleaned '' '' tail_start of Some p \<Rightarrow> p | None \<Rightarrow> tail_start);
                    truncated = take head_end cleaned @ OMITTED @ drop actual_tail_start cleaned
                in (truncated, used + length truncated))"

subsection \<open>What the callbacks keep\<close>

lemma header_keeps:
  "ft_buffer (header_callback l st) = ft_buffer st" "ft_exceeded (header_callback l st) = ft_exceeded st"
  by (simp_all add: header_callback_def Let_def)

text \<open>A status line ends with its line break, which stops the conversion of the code: the redirect is not seen.\<close>

lemma strtol_end:
  assumes "strtol10 s = (v, e)" "e \<noteq> 0"
  shows "e \<le> length s \<and> is_digit (s ! (e - 1))"
proof -
  define b where "b = length (takeWhile is_space s)"
  define sgn :: nat where "sgn = (case drop b s of [] \<Rightarrow> 0 | c # _ \<Rightarrow> if c = CHR ''-'' \<or> c = CHR ''+'' then 1 else 0)"
  define ds where "ds = takeWhile is_digit (drop (b + sgn) s)"
  have e: "ds \<noteq> []" "e = b + sgn + length ds"
    using assms by (auto simp: strtol10_def scan_number_def Let_def b_def sgn_def ds_def add.commute split: if_splits)
  have l: "length ds \<le> length s - (b + sgn)"
    using length_takeWhile_le [of is_digit "drop (b + sgn) s"] by (simp add: ds_def)
  have ne: "b + sgn < length s" using e(1) by (cases "b + sgn < length s") (simp_all add: ds_def)
  then have "e \<le> length s" using e l by simp
  moreover have "s ! (e - 1) = ds ! (length ds - 1)"
  proof -
    have "length ds - 1 < length (takeWhile is_digit (drop (b + sgn) s))" using e(1) by (simp add: ds_def)
    from takeWhile_nth [OF this] have "ds ! (length ds - 1) = drop (b + sgn) s ! (length ds - 1)" by (simp add: ds_def)
    also have "\<dots> = s ! (b + sgn + (length ds - 1))" using ne by simp
    finally show ?thesis using e by (cases ds) simp_all
  qed
  moreover have "is_digit (ds ! (length ds - 1))"
    using set_takeWhileD [of "ds ! (length ds - 1)" is_digit "drop (b + sgn) s"] e(1) by (simp add: ds_def)
  ultimately show ?thesis by simp
qed

definition header_line :: "string \<Rightarrow> bool" where
  "header_line l \<longleftrightarrow> CHR 0x00 \<notin> set l \<and> l \<noteq> [] \<and> last l = ch_nl"

lemma to_lower_nl: "to_lower ch_nl = ch_nl"
  by code_simp

lemma to_lower_nul: "c \<noteq> CHR 0x00 \<Longrightarrow> to_lower c \<noteq> CHR 0x00"
proof
  assume c: "c \<noteq> CHR 0x00" and l: "to_lower c = CHR 0x00"
  define n :: nat where "n = of_char c"
  have r: "65 \<le> n" "n \<le> 90" and h: "char_of (n + 32) = CHR 0x00"
    using c l by (auto simp: to_lower_def Let_def n_def split: if_splits)
  have "(n + 32) mod 256 = of_char CHR 0x00" using arg_cong [OF h, of "of_char :: char \<Rightarrow> nat"] by simp
  then show False using r by simp
qed

lemma header_lower:
  assumes "header_line l"
  shows "CHR 0x00 \<notin> set (map to_lower l)" "map to_lower l \<noteq> []" "last (map to_lower l) = ch_nl"
proof -
  have l: "CHR 0x00 \<notin> set l" "l \<noteq> []" "last l = ch_nl" using assms unfolding header_line_def by blast+
  show "CHR 0x00 \<notin> set (map to_lower l)"
  proof
    assume "CHR 0x00 \<in> set (map to_lower l)"
    then obtain c where "c \<in> set l" "to_lower c = CHR 0x00" by (metis image_iff list.set_map)
    with l(1) to_lower_nul [of c] show False by metis
  qed
  show "map to_lower l \<noteq> []" using l(2) by simp
  show "last (map to_lower l) = ch_nl" using l(2,3) to_lower_nl by (metis last_map)
qed

lemma no_redirect:
  assumes "header_line l"
  shows "\<not> is_redirect (map to_lower l)"
proof
  define m where "m = map to_lower l"
  note m = header_lower [OF assms, folded m_def]
  assume "is_redirect (map to_lower l)"
  then have r: "is_redirect m" by (simp add: m_def)
  then obtain p where p: "str_find m '' '' 0 = Some p" unfolding is_redirect_def by (cases "str_find m '' '' 0") simp_all
  define st where "st = drop (p + 1) m"
  obtain v e where v: "strtol10 st = (v, e)" by fastforce
  have R: "length st \<ge> 3" "at_end st e"
    using r unfolding is_redirect_def p option.case st_def [symmetric] Let_def v by simp_all
  have "p + 1 < length m" using R(1) by (simp add: st_def)
  then have l: "st \<noteq> []" "last st = ch_nl" using m(3) by (simp_all add: st_def last_drop)
  have "CHR 0x00 \<notin> set st" using m(1) in_set_dropD unfolding st_def by fast
  then have e: "e = length st" using R(2) nth_mem [of e st] unfolding at_end_def by metis
  then have "is_digit (st ! (length st - 1))" using R(1) l(1) strtol_end [OF v] by simp
  then have "is_digit (last st)" using l(1) by (simp add: last_conv_nth)
  then show False unfolding l(2) by (simp add: is_digit_def)
qed

lemma header_flags:
  "header_line l \<Longrightarrow> ft_is_text st \<or> ft_is_pdf st \<Longrightarrow>
   ft_is_text (header_callback l st) \<or> ft_is_pdf (header_callback l st)"
  by (auto simp: header_callback_def Let_def no_redirect)

text \<open>A header that names the content a PDF.\<close>

definition pdf_header :: "string \<Rightarrow> bool" where
  "pdf_header l \<longleftrightarrow> starts_with (map to_lower l) ''content-type:'' \<and> contains (map to_lower l) ''application/pdf''"

definition kind_limit :: "nat \<Rightarrow> nat \<Rightarrow> fetch_state \<Rightarrow> nat" where
  "kind_limit html_max pdf_max st = (if ft_is_pdf st then pdf_max else html_max)"

lemma header_pdf:
  "header_line l \<Longrightarrow> ft_is_pdf (header_callback l st) \<longleftrightarrow> ft_is_pdf st \<or> pdf_header l"
  by (simp add: header_callback_def Let_def no_redirect pdf_header_def)

lemma headers_fold:
  assumes "list_all header_line hs" "ft_is_text st \<or> ft_is_pdf st"
  defines "st' \<equiv> fold header_callback hs st"
  shows "ft_buffer st' = ft_buffer st" "ft_exceeded st' = ft_exceeded st"
    "ft_is_pdf st' \<longleftrightarrow> ft_is_pdf st \<or> list_ex pdf_header hs" "ft_is_text st' \<or> ft_is_pdf st'"
proof -
  have "ft_buffer (fold header_callback hs st) = ft_buffer st
      \<and> ft_exceeded (fold header_callback hs st) = ft_exceeded st
      \<and> (ft_is_pdf (fold header_callback hs st) \<longleftrightarrow> ft_is_pdf st \<or> list_ex pdf_header hs)
      \<and> (ft_is_text (fold header_callback hs st) \<or> ft_is_pdf (fold header_callback hs st))"
    using assms(1,2)
  proof (induction hs arbitrary: st)
    case (Cons l hs)
    then have l: "header_line l" "list_all header_line hs" by simp_all
    note f = header_flags [OF l(1) Cons.prems(2)] and d = header_pdf [OF l(1), of st]
    from Cons.IH [OF l(2) f] show ?case by (auto simp: header_keeps d)
  qed simp
  then show "ft_buffer st' = ft_buffer st" "ft_exceeded st' = ft_exceeded st"
    "ft_is_pdf st' \<longleftrightarrow> ft_is_pdf st \<or> list_ex pdf_header hs" "ft_is_text st' \<or> ft_is_pdf st'"
    unfolding st'_def by blast+
qed

text \<open>A chunk is taken or refused as a whole; after the first one that is refused nothing is taken.\<close>

definition body_ok :: "nat \<Rightarrow> string \<Rightarrow> fetch_state \<Rightarrow> bool" where
  "body_ok limit body st \<longleftrightarrow>
     prefix (ft_buffer st) body \<and> length (ft_buffer st) \<le> limit
     \<and> (if ft_exceeded st then limit < length body else ft_buffer st = body)"

lemma write_body:
  assumes "body_ok (kind_limit h p st) body st" "ft_is_text st \<or> ft_is_pdf st"
  shows "body_ok (kind_limit h p st) (body @ chunk) (write_callback h p chunk st)"
    "ft_is_text (write_callback h p chunk st) = ft_is_text st"
    "ft_is_pdf (write_callback h p chunk st) = ft_is_pdf st"
proof -
  have w: "(if \<not> ft_is_text st \<and> \<not> ft_is_pdf st then st\<lparr>ft_is_text := True\<rparr> else st) = st" using assms(2) by auto
  have W: "write_callback h p chunk st =
      (if ft_exceeded st then st
       else if kind_limit h p st < length (ft_buffer st) + length chunk then st\<lparr>ft_exceeded := True\<rparr>
       else st\<lparr>ft_buffer := ft_buffer st @ chunk\<rparr>)"
    unfolding write_callback_def Let_def w kind_limit_def ..
  show "body_ok (kind_limit h p st) (body @ chunk) (write_callback h p chunk st)"
  proof (cases "ft_exceeded st")
    case True
    then show ?thesis using assms(1) unfolding W body_ok_def by (simp add: prefix_append)
  next
    case False
    then show ?thesis using assms(1) unfolding W body_ok_def by auto
  qed
  show "ft_is_text (write_callback h p chunk st) = ft_is_text st"
    "ft_is_pdf (write_callback h p chunk st) = ft_is_pdf st" unfolding W by simp_all
qed

lemma body_fold:
  assumes "body_ok (kind_limit h p st) body st" "ft_is_text st \<or> ft_is_pdf st"
  shows "body_ok (kind_limit h p st) (body @ concat bs) (fold (write_callback h p) bs st)
    \<and> ft_is_text (fold (write_callback h p) bs st) = ft_is_text st
    \<and> ft_is_pdf (fold (write_callback h p) bs st) = ft_is_pdf st"
  using assms
proof (induction bs arbitrary: body st)
  case (Cons b bs)
  note w = write_body [OF Cons.prems, of b]
  have "kind_limit h p (write_callback h p b st) = kind_limit h p st" by (simp add: kind_limit_def w(3))
  with Cons.IH [of "write_callback h p b st" "body @ b"] w Cons.prems(2) show ?case by simp
qed simp

text \<open>C33: A transfer, as \<open>libcurl\<close> delivers it: header lines, then the body in chunks. It is taken for a PDF exactly
  when one of the headers says so, those of a redirect included, as the line break of a status line keeps the
  redirect from being noticed. The limit is that of its kind; a body within the limit arrives complete, of a
  longer one a beginning within the limit, and the excess is noted. The flag of a text or
  a PDF is always set: no answer is skipped as binary.\<close>

theorem transfer_safe:
  fixes html_max pdf_max :: nat and hs bs :: "string list"
  assumes "list_all header_line hs"
  defines "st \<equiv> transfer html_max pdf_max (map Header_Line hs @ map Body_Chunk bs)"
  defines "limit \<equiv> (if list_ex pdf_header hs then pdf_max else html_max)"
  shows "(ft_exceeded st \<longleftrightarrow> limit < length (concat bs))
    \<and> prefix (ft_buffer st) (concat bs) \<and> length (ft_buffer st) \<le> limit
    \<and> (if ft_exceeded st then True else ft_buffer st = concat bs)
    \<and> (ft_is_pdf st \<longleftrightarrow> list_ex pdf_header hs) \<and> (ft_is_text st \<or> ft_is_pdf st)"
proof -
  let ?st0 = "fold header_callback hs fetch_init"
  have i: "ft_is_text fetch_init \<or> ft_is_pdf fetch_init" "\<not> ft_is_pdf fetch_init" by (simp_all add: fetch_init_def)
  note H = headers_fold [OF assms(1) i(1)]
  have hd: "fold (net_step html_max pdf_max) (map Header_Line hs) x = fold header_callback hs x" for x
    by (induction hs arbitrary: x) simp_all
  have bd: "fold (net_step html_max pdf_max) (map Body_Chunk bs) x = fold (write_callback html_max pdf_max) bs x" for x
    by (induction bs arbitrary: x) simp_all
  have st: "st = fold (write_callback html_max pdf_max) bs ?st0"
    by (simp add: st_def transfer_def hd bd)
  have lim: "kind_limit html_max pdf_max ?st0 = limit" using H(3) i(2) by (simp add: kind_limit_def limit_def)
  have "body_ok limit [] ?st0" using H(1,2) by (simp add: body_ok_def fetch_init_def)
  with body_fold [of html_max pdf_max ?st0 "[]" bs, unfolded lim] H(4)
  have "body_ok limit (concat bs) st \<and> ft_is_text st = ft_is_text ?st0 \<and> ft_is_pdf st = ft_is_pdf ?st0"
    by (simp add: st)
  then show ?thesis using H(3,4) i(2) by (auto simp: body_ok_def split: if_splits)
qed

definition sample_headers :: "string list" where
  "sample_headers = [''HTTP/1.1 302'' @ [ch_cr, ch_nl], ''Content-Type: image/png'' @ [ch_cr, ch_nl]]"

lemma transfer_safe_witness:
  "list_all header_line sample_headers
   \<and> transfer 10 2 (map Header_Line sample_headers @ map Body_Chunk [''abc'', ''0123456789'', ''d''])
       = \<lparr>ft_buffer = ''abc'', ft_is_text = True, ft_is_pdf = False, ft_exceeded = True\<rparr>
   \<and> length ''abc'' \<le> 10 \<and> prefix ''abc'' ''abc0123456789d''"
proof -
  have "list_all header_line sample_headers" "\<not> list_ex pdf_header sample_headers"
    "transfer 10 2 (map Header_Line sample_headers @ map Body_Chunk [''abc'', ''0123456789'', ''d''])
       = \<lparr>ft_buffer = ''abc'', ft_is_text = True, ft_is_pdf = False, ft_exceeded = True\<rparr>"
    by code_simp+
  then show ?thesis using transfer_safe [of sample_headers 10 2 "[''abc'', ''0123456789'', ''d'']"] by simp
qed

subsection \<open>Images\<close>

text \<open>No image is left that a parenthesis closes.\<close>

definition image_free :: "string \<Rightarrow> bool" where
  "image_free s \<longleftrightarrow> (\<forall>i. prefix IMAGE_START (drop i s) \<longrightarrow> CHR '')'' \<notin> set (drop i s))"

lemma prefix_drop_nth:
  assumes "prefix pat (drop i s)" "j < length pat"
  shows "s ! (i + j) = pat ! j"
proof -
  obtain r where r: "drop i s = pat @ r" using assms(1) by (auto simp: prefix_def)
  then have "i \<le> length s" using assms(2) by (cases "i \<le> length s") simp_all
  then have "s ! (i + j) = drop i s ! j" by simp
  also have "\<dots> = pat ! j" using assms(2) unfolding r by (simp add: nth_append)
  finally show ?thesis .
qed

lemma image_chars:
  assumes "k < length IMAGE_START" "IMAGE_START ! k = CHR ''[''"
  shows "k = 1"
proof -
  have "\<forall>k\<in>set [0..<length IMAGE_START]. IMAGE_START ! k = CHR ''['' \<longrightarrow> k = 1" by code_simp
  then show ?thesis using assms by simp
qed

lemma omitted_chars: "k < length IMAGE_OMITTED \<Longrightarrow> IMAGE_OMITTED ! k \<noteq> CHR ''!''"
proof -
  have "CHR ''!'' \<notin> set IMAGE_OMITTED" by code_simp
  then show "k < length IMAGE_OMITTED \<Longrightarrow> IMAGE_OMITTED ! k \<noteq> CHR ''!''" by (metis nth_mem)
qed

lemma image_nth: "length IMAGE_START = 20" "IMAGE_START ! 0 = CHR ''!''" "IMAGE_START ! 3 = CHR ''m''"
  "length IMAGE_OMITTED = 15" "IMAGE_OMITTED ! 0 = CHR ''[''" "IMAGE_OMITTED ! 2 = CHR ''M''"
  by code_simp+

definition clean_below :: "nat \<Rightarrow> string \<Rightarrow> bool" where
  "clean_below pos s \<longleftrightarrow> (\<forall>i<pos. prefix IMAGE_START (drop i s) \<longrightarrow> CHR '')'' \<notin> set (drop i s))"

lemma replace_clean:
  assumes "str_find s IMAGE_START pos = Some p" "str_find s '')'' p = Some e" "clean_below pos s"
  shows "clean_below (p + length IMAGE_OMITTED) (str_replace s p (e - p + 1) IMAGE_OMITTED)"
  unfolding clean_below_def
proof (intro allI impI)
  fix i
  define s' where "s' = str_replace s p (e - p + 1) IMAGE_OMITTED"
  assume i: "i < p + length IMAGE_OMITTED" and m: "prefix IMAGE_START (drop i (str_replace s p (e - p + 1) IMAGE_OMITTED))"
  have m: "prefix IMAGE_START (drop i s')" using m by (simp add: s'_def)
  note at = prefix_drop_nth [OF m, unfolded image_nth(1)]
  have p: "pos \<le> p" "p \<le> length s" "\<And>j. pos \<le> j \<Longrightarrow> j < p \<Longrightarrow> \<not> prefix IMAGE_START (drop j s)"
    using assms(1) by (auto simp: str_find_Some_iff)
  have e: "p \<le> e" "e < length s" "prefix '')'' (drop e s)"
    using assms(2) str_find_boundsD [OF assms(2)] by (simp_all add: str_find_Some_iff)
  have om: "s' ! (p + k) = IMAGE_OMITTED ! k" if "k < 15" for k
    using that p(2) image_nth(4) by (simp add: s'_def str_replace_def nth_append)
  consider "p \<le> i" | "i < p" "p < i + 20" | "i + 20 \<le> p" by linarith
  then have False
  proof cases
    case 1
    then have "s' ! i = IMAGE_OMITTED ! (i - p)" using om [of "i - p"] i image_nth(4) by simp
    then show False using at [of 0] image_nth(2) omitted_chars [of "i - p"] i 1 image_nth(4) by simp
  next
    case 2
    then have "IMAGE_START ! (p - i) = CHR ''[''" using at [of "p - i"] om [of 0] image_nth(5) by simp
    then have "p - i = 1" using image_chars [of "p - i"] 2 image_nth(1) by simp
    then have "p = i + 1" using 2 by simp
    then have "s' ! (i + 3) = CHR ''M''" using om [of 2] image_nth(6) by (simp add: numeral_3_eq_3)
    then show False using at [of 3] image_nth(3) by simp
  next
    case 3
    have "take (i + 20) s' = take (i + 20) s" using 3 p(2) by (simp add: s'_def str_replace_def)
    then have "take 20 (drop i s') = take 20 (drop i s)" by (simp add: take_drop add.commute)
    moreover have "take 20 (drop i s') = IMAGE_START" using m image_nth(1) by (auto simp: prefix_def)
    ultimately have "prefix IMAGE_START (drop i s)" by (metis take_is_prefix)
    moreover have "CHR '')'' \<in> set (drop i s)"
    proof -
      have "drop (e - i) (drop i s) = drop e s" using 3 e(1) by simp
      then have "CHR '')'' \<in> set (drop (e - i) (drop i s))" using e(3) by (cases "drop e s") auto
      then show ?thesis by (rule in_set_dropD)
    qed
    ultimately show False using p(3) [of i] assms(3) 3 by (cases "i < pos") (auto simp: clean_below_def)
  qed
  then show "CHR '')'' \<notin> set (drop i (str_replace s p (e - p + 1) IMAGE_OMITTED))" ..
qed

lemma strip_clean: "clean_below pos s \<Longrightarrow> image_free (strip_images_from s pos)"
proof (induction s pos rule: strip_images_from.induct)
  case (1 s pos)
  show ?case
  proof (cases "str_find s IMAGE_START pos")
    case None
    then have "\<not> prefix IMAGE_START (drop i s)" if "pos \<le> i" for i
      using that image_nth(1) by (cases "i \<le> length s") (auto simp: str_find_None_iff)
    then have "image_free s" using 1(2) unfolding image_free_def clean_below_def by (metis not_less)
    then show ?thesis by (simp add: strip_images_from.simps [of s] None)
  next
    case p: (Some p)
    show ?thesis
    proof (cases "str_find s '')'' p")
      case None
      then have n: "CHR '')'' \<notin> set (drop p s)" by (simp add: str_find_single_None)
      have "CHR '')'' \<notin> set (drop i s)" if "prefix IMAGE_START (drop i s)" for i
      proof (cases "i < pos")
        case True
        then show ?thesis using 1(2) that by (simp add: clean_below_def)
      next
        case False
        then have "p \<le> i" using p that by (auto simp: str_find_Some_iff not_less)
        then show ?thesis using n set_drop_subset_set_drop [of p i s] by auto
      qed
      then show ?thesis by (simp add: strip_images_from.simps [of s] p None image_free_def)
    next
      case e: (Some e)
      show ?thesis using 1(1) [OF p e replace_clean [OF p e 1(2)]] by (simp add: strip_images_from.simps [of s] p e)
    qed
  qed
qed

lemma strip_of_clean: "image_free s \<Longrightarrow> strip_images_from s pos = s"
proof -
  assume f: "image_free s"
  show ?thesis
  proof (cases "str_find s IMAGE_START pos")
    case (Some p)
    then have "str_find s '')'' p = None" using f by (auto simp: str_find_single_None image_free_def str_find_Some_iff)
    with Some show ?thesis by (simp add: strip_images_from.simps [of s])
  qed (simp add: strip_images_from.simps [of s])
qed

lemma images_stripped:
  "image_free (strip_base64_images s) \<and> strip_base64_images (strip_base64_images s) = strip_base64_images s"
  using strip_clean [of 0 s] strip_of_clean by (simp add: strip_base64_images_def clean_below_def)

subsection \<open>The budget is kept\<close>

lemma last_at_bound: "last_at pat s = Some i \<Longrightarrow> i + length pat \<le> length s"
  by (induction s arbitrary: i) (auto split: option.splits if_splits dest: prefix_length_le)

lemma rfind_upto_le: "rfind_upto s c pos = Some p \<Longrightarrow> p \<le> pos"
  using last_at_bound [of "[c]" "take (pos + 1) s" p] by (simp add: rfind_upto_def str_rfind_def)

lemma mod_div_le: "(n * k) mod 2 ^ 64 div 10 \<le> n * k div (10::nat)"
  by (rule div_le_mono) (rule mod_less_eq_dividend)

text \<open>The cut of the head is moved back to the last space at or before the planned place, that of the tail forward to
  the first space; without one they stay.\<close>

definition head_cut :: "string \<Rightarrow> nat \<Rightarrow> nat \<Rightarrow> bool" where
  "head_cut c h a \<longleftrightarrow>
     (if CHR '' '' \<in> set (take (h + 1) c)
      then a \<le> h \<and> a < length c \<and> c ! a = CHR '' '' \<and> CHR '' '' \<notin> set (take (h - a) (drop (a + 1) c))
      else a = h)"

definition tail_cut :: "string \<Rightarrow> nat \<Rightarrow> nat \<Rightarrow> bool" where
  "tail_cut c t b \<longleftrightarrow>
     (if CHR '' '' \<in> set (drop t c)
      then t \<le> b \<and> b < length c \<and> c ! b = CHR '' '' \<and> CHR '' '' \<notin> set (take (b - t) (drop t c))
      else b = t)"

lemma last_at_single:
  "last_at [c] s = Some i \<Longrightarrow> i < length s \<and> s ! i = c \<and> c \<notin> set (drop (i + 1) s)"
  "last_at [c] s = None \<longleftrightarrow> c \<notin> set s"
proof (induction s arbitrary: i)
  case Nil
  { case 1 then show ?case by simp next case 2 then show ?case by simp }
next
  case (Cons x s)
  { case 1 then show ?case using Cons by (auto split: option.splits if_splits) next
    case 2 then show ?case using Cons by (auto split: option.splits if_splits) }
qed

lemma head_cut_rfind:
  "head_cut c h (case rfind_upto c CHR '' '' h of Some p \<Rightarrow> p | None \<Rightarrow> h)"
proof (cases "rfind_upto c CHR '' '' h")
  case None
  then have "CHR '' '' \<notin> set (take (h + 1) c)"
    using last_at_single(2) [of "CHR '' ''" "take (h + 1) c"] by (simp add: rfind_upto_def str_rfind_def)
  then show ?thesis unfolding head_cut_def None by simp
next
  case (Some p)
  then have "last_at [CHR '' ''] (take (h + 1) c) = Some p" by (simp add: rfind_upto_def str_rfind_def)
  from last_at_single(1) [OF this] have p: "p < length (take (h + 1) c)" "take (h + 1) c ! p = CHR '' ''"
    "CHR '' '' \<notin> set (drop (p + 1) (take (h + 1) c))" by blast+
  have "CHR '' '' \<in> set (take (h + 1) c)" using nth_mem [OF p(1)] p(2) by simp
  moreover have "drop (p + 1) (take (h + 1) c) = take (h - p) (drop (p + 1) c)" by (simp add: drop_take)
  ultimately show ?thesis using p unfolding head_cut_def Some by simp
qed

lemma tail_cut_find:
  assumes "t \<le> length c"
  shows "tail_cut c t (case str_find c '' '' t of Some p \<Rightarrow> p | None \<Rightarrow> t)"
proof (cases "str_find c '' '' t")
  case None
  then have "CHR '' '' \<notin> set (drop t c)" by (simp add: str_find_single_None)
  then show ?thesis unfolding tail_cut_def None by simp
next
  case (Some p)
  obtain u xs where u: "drop t c = u @ CHR '' '' # xs" "CHR '' '' \<notin> set u" "p = t + length u"
    by (rule str_find_single [OF Some]) blast
  have "drop t c ! length u = c ! p" using assms u(3) by simp
  then have "c ! p = CHR '' ''" unfolding u(1) by simp
  moreover have "length (drop t c) > length u" unfolding u(1) by simp
  then have "p < length c" using u(3) by simp
  ultimately show ?thesis using u unfolding tail_cut_def Some by simp
qed

text \<open>What a document becomes when \<open>used\<close> characters have been loaded before it.\<close>

definition loaded_as :: "nat \<Rightarrow> nat \<Rightarrow> nat \<Rightarrow> string \<Rightarrow> string \<Rightarrow> bool" where
  "loaded_as session_max per_file_max used text r \<longleftrightarrow>
     (let c = strip_base64_images text; limit = min per_file_max (session_max - used) in
      if session_max < used + 5000 then r = BUDGET_FULL
      else if length c \<le> limit then r = c
      else \<exists>a b. head_cut c ((limit * 6) mod 2 ^ 64 div 10) a
             \<and> tail_cut c (length c - (limit * 4) mod 2 ^ 64 div 10) b
             \<and> r = take a c @ OMITTED @ drop b c)"

lemma limit_loaded:
  assumes "limit_context_size session_max per_file_max text used = (r, used')"
  shows "loaded_as session_max per_file_max used text r"
proof (cases "session_max < used + 5000")
  case True
  then have "(if used < session_max then session_max - used else 0) < 5000" by auto
  then show ?thesis using assms True by (simp add: limit_context_size_def loaded_as_def Let_def)
next
  case False
  define c where "c = strip_base64_images text"
  define l where "l = min per_file_max (session_max - used)"
  have n: "\<not> (if used < session_max then session_max - used else 0) < 5000"
    "(if used < session_max then session_max - used else 0) = session_max - used" using False by auto
  show ?thesis
  proof (cases "length c \<le> l")
    case True
    then show ?thesis
      using assms False n unfolding limit_context_size_def loaded_as_def Let_def c_def l_def by simp
  next
    case long: False
    define h where "h = (l * 6) mod 2 ^ 64 div (10::nat)"
    define t where "t = length c - (l * 4) mod 2 ^ 64 div (10::nat)"
    define a where "a = (case rfind_upto c CHR '' '' h of Some p \<Rightarrow> p | None \<Rightarrow> h)"
    define b where "b = (case str_find c '' '' t of Some p \<Rightarrow> p | None \<Rightarrow> t)"
    have "r = take a c @ OMITTED @ drop b c"
      using assms n long unfolding limit_context_size_def Let_def c_def [symmetric] l_def [symmetric]
        h_def [symmetric] t_def [symmetric] a_def [symmetric] b_def [symmetric] n(2)
      by (auto simp: a_def b_def h_def t_def l_def)
    moreover have "head_cut c h a" unfolding a_def by (rule head_cut_rfind)
    moreover have "tail_cut c t b" unfolding b_def by (rule tail_cut_find) (simp add: t_def)
    ultimately have "\<exists>a b. head_cut c h a \<and> tail_cut c t b \<and> r = take a c @ OMITTED @ drop b c" by blast
    then show ?thesis
      using False long unfolding loaded_as_def Let_def c_def [symmetric] l_def [symmetric] h_def t_def by simp
  qed
qed

lemma limit_cases:
  assumes "limit_context_size session_max per_file_max s used = (r, used')"
  obtains "r = BUDGET_FULL" "used' = used" "session_max < used + 5000"
  | "used' = used + length r" "used + 5000 \<le> session_max"
    "length r \<le> min per_file_max (session_max - used) + length OMITTED"
proof (cases "(if used < session_max then session_max - used else 0) < 5000")
  case True
  then have "r = BUDGET_FULL" "used' = used" "session_max < used + 5000"
    using assms by (auto simp: limit_context_size_def Let_def split: if_splits)
  then show thesis by (rule that(1))
next
  case False
  define c where "c = strip_base64_images s"
  define l where "l = min per_file_max (session_max - used)"
  have rem: "(if used < session_max then session_max - used else 0) = session_max - used" by simp
  have u: "used + 5000 \<le> session_max" using False by (simp split: if_splits)
  show thesis
  proof (cases "length c \<le> l")
    case True
    then have "limit_context_size session_max per_file_max s used = (c, used + length c)"
      using False unfolding limit_context_size_def Let_def rem c_def [symmetric] l_def [symmetric] by simp
    then have "(c, used + length c) = (r, used')" using assms by metis
    then have eq: "r = c" "used' = used + length c" by (metis prod.inject)+
    show thesis using True u by (intro that(2)) (simp_all add: eq l_def trans_le_add1)
  next
    case long: False
    define h where "h = (l * 6) mod 2 ^ 64 div (10::nat)"
    define t where "t = (l * 4) mod 2 ^ 64 div (10::nat)"
    define a where "a = (case rfind_upto c CHR '' '' h of Some p \<Rightarrow> p | None \<Rightarrow> h)"
    define b where "b = (case str_find c '' '' (length c - t) of Some p \<Rightarrow> p | None \<Rightarrow> length c - t)"
    have R: "r = take a c @ OMITTED @ drop b c" "used' = used + length r"
      using assms False long unfolding limit_context_size_def Let_def rem c_def [symmetric] l_def [symmetric]
        h_def [symmetric] t_def [symmetric] a_def [symmetric] b_def [symmetric] by auto
    have "a \<le> h" using rfind_upto_le by (auto simp: a_def split: option.splits)
    moreover have "length c - t \<le> b" using str_find_boundsD by (fastforce simp: b_def split: option.splits)
    moreover have "h \<le> l * 6 div 10" "t \<le> l * 4 div 10" unfolding h_def t_def by (rule mod_div_le)+
    ultimately have "length (take a c) + length (drop b c) \<le> l" by simp
    then show thesis using R u by (intro that(2)) (simp_all add: l_def)
  qed
qed

fun load_all :: "nat \<Rightarrow> nat \<Rightarrow> string list \<Rightarrow> nat \<Rightarrow> string list \<times> nat" where
  "load_all session_max per_file_max [] used = ([], used)"
| "load_all session_max per_file_max (t # ts) used =
     (let (r, used) = limit_context_size session_max per_file_max t used;
          (rs, used) = load_all session_max per_file_max ts used
      in (r # rs, used))"

lemma load_all_budget:
  assumes "load_all session_max per_file_max ts used = (rs, used')" "used \<le> session_max + length OMITTED"
  shows "used' \<le> session_max + length OMITTED \<and> used + sum_list (map length (filter (\<lambda>r. r \<noteq> BUDGET_FULL) rs)) \<le> used'
    \<and> list_all (\<lambda>r. r = BUDGET_FULL \<or> length r \<le> per_file_max + length OMITTED) rs"
  using assms
proof (induction ts arbitrary: used rs)
  case (Cons t ts)
  obtain r u where l: "limit_context_size session_max per_file_max t used = (r, u)" by fastforce
  obtain rs' where a: "load_all session_max per_file_max ts u = (rs', used')" "rs = r # rs'"
    using Cons.prems(1) l by (auto simp: split_beta Let_def prod_eq_iff)
  show ?case
  proof (cases rule: limit_cases [OF l])
    case 1
    then show ?thesis using Cons.IH [OF a(1)] Cons.prems(2) a(2) by simp
  next
    case 2
    then have "u \<le> session_max + length OMITTED" by simp
    then show ?thesis using Cons.IH [OF a(1)] 2 a(2) by auto
  qed
qed simp

text \<open>C34: Loading documents into a context with a budget. The result of each is exactly determined: the notice when fewer
  than 5000 characters are left; the document without its inlined images when it fits into what is left and the
  limit of a file; else its beginning, the omission mark and its end, six and four tenths of the limit, cut back
  to whole words. Over a session the characters loaded, all but the notices, stay within the budget up to the
  length of one omission mark, and each document within the limit of a file up to that mark.\<close>

theorem context_budget:
  "loaded_as session_max per_file_max used s (fst (limit_context_size session_max per_file_max s used))
   \<and> (case load_all session_max per_file_max ts 0 of (rs, used) \<Rightarrow>
     used \<le> session_max + length OMITTED
     \<and> sum_list (map length (filter (\<lambda>r. r \<noteq> BUDGET_FULL) rs)) \<le> used
     \<and> list_all (\<lambda>r. r = BUDGET_FULL \<or> length r \<le> per_file_max + length OMITTED) rs)"
  using load_all_budget [of session_max per_file_max ts 0] limit_loaded [of session_max per_file_max s used]
  by (cases "limit_context_size session_max per_file_max s used") (auto split: prod.split)

end
