(* ===== verification/Lim_Html.thy ===== *)
theory Lim_Html
  imports Lim_Fetch
begin

section \<open>Pages: visible text, metadata, white space (network.cc)\<close>

text \<open>
  The text that a page gives the model. The tree comes from \<open>libxml2\<close> (a parameter further on); when it cannot
  parse the page, the tags are cut out of the text itself. Other nodes than elements, texts and CDATA
  sections (comments, document types) are \<open>Xml_Other\<close>; their contents are not text.
\<close>

subsection \<open>The tree\<close>

datatype xml =
  Xml_Element string "(string \<times> string) list" "xml list"
| Xml_Text string
| Xml_Other "xml list"

definition SKIPPED_TAGS :: "string list" where
  "SKIPPED_TAGS = [''script'', ''style'', ''noscript'', ''template'', ''svg'', ''canvas'', ''iframe'', ''object'']"

definition hidden_style :: "string \<Rightarrow> bool" where
  "hidden_style style \<longleftrightarrow> (let s = map to_lower style in
     contains s ''display:none'' \<or> contains s ''display: none'' \<or>
     contains s ''visibility:hidden'' \<or> contains s ''visibility: hidden'')"

definition skipped_element :: "string \<Rightarrow> (string \<times> string) list \<Rightarrow> bool" where
  "skipped_element tag attrs \<longleftrightarrow> tag \<in> set SKIPPED_TAGS \<or> map_of attrs ''hidden'' \<noteq> None \<or>
     (case map_of attrs ''style'' of None \<Rightarrow> False | Some s \<Rightarrow> hidden_style s)"

fun extract_visible_text :: "xml \<Rightarrow> string" where
  "extract_visible_text (Xml_Element tag attrs cs) =
     (if skipped_element tag attrs then [] else concat (map extract_visible_text cs))"
| "extract_visible_text (Xml_Text t) = t"
| "extract_visible_text (Xml_Other cs) = concat (map extract_visible_text cs)"

text \<open>\<open>xmlNodeGetContent\<close>: all text below a node.\<close>

fun node_content :: "xml \<Rightarrow> string" where
  "node_content (Xml_Element tag attrs cs) = concat (map node_content cs)"
| "node_content (Xml_Text t) = t"
| "node_content (Xml_Other cs) = []"

fun is_element :: "string \<Rightarrow> xml \<Rightarrow> bool" where
  "is_element t (Xml_Element tag attrs cs) = (tag = t)"
| "is_element t _ = False"

fun children_of :: "xml \<Rightarrow> xml list" where
  "children_of (Xml_Element tag attrs cs) = cs"
| "children_of (Xml_Text t) = []"
| "children_of (Xml_Other cs) = cs"

fun is_elem :: "xml \<Rightarrow> bool" where
  "is_elem (Xml_Element tag attrs cs) = True"
| "is_elem _ = False"

text \<open>The head: a top-level element, or a child of one.\<close>

fun find_head :: "xml list \<Rightarrow> xml option" where
  "find_head [] = None"
| "find_head (n # ns) =
     (if \<not> is_elem n then find_head ns
      else if is_element ''head'' n then Some n
      else case find (is_element ''head'') (children_of n) of Some h \<Rightarrow> Some h | None \<Rightarrow> find_head ns)"

definition meta_key :: "(string \<times> string) list \<Rightarrow> string" where
  "meta_key attrs = (case map_of attrs ''name'' of Some k \<Rightarrow> k
     | None \<Rightarrow> (case map_of attrs ''property'' of Some k \<Rightarrow> k | None \<Rightarrow> []))"

fun head_step :: "xml \<Rightarrow> string \<times> string \<Rightarrow> string \<times> string" where
  "head_step (Xml_Element tag attrs cs) (title, description) =
     (if tag = ''title'' then (node_content (Xml_Element tag attrs cs), description)
      else if tag = ''meta'' then
        (case map_of attrs ''content'' of None \<Rightarrow> (title, description)
         | Some content \<Rightarrow>
             (if meta_key attrs \<in> {''description'', ''og:description'', ''twitter:description''}
              then (title, content) else (title, description)))
      else (title, description))"
| "head_step _ md = md"

definition extract_page_metadata :: "xml list \<Rightarrow> string \<times> string" where
  "extract_page_metadata doc =
     (case find_head doc of
        Some head \<Rightarrow> fold head_step (children_of head) ([], [])
      | None \<Rightarrow> (case find (is_element ''title'') doc of Some t \<Rightarrow> (node_content t, []) | None \<Rightarrow> ([], [])))"

text \<open>The first \<open>body\<close> in document order below an element.\<close>

fun dfs_body :: "xml \<Rightarrow> xml option" and dfs_list :: "xml list \<Rightarrow> xml option" where
  "dfs_body (Xml_Element tag attrs cs) =
     (if tag = ''body'' then Some (Xml_Element tag attrs cs) else dfs_list cs)"
| "dfs_body (Xml_Text t) = None"
| "dfs_body (Xml_Other cs) = dfs_list cs"
| "dfs_list [] = None"
| "dfs_list (n # ns) = (case dfs_body n of Some b \<Rightarrow> Some b | None \<Rightarrow> dfs_list ns)"

definition find_body_element :: "xml list \<Rightarrow> xml option" where
  "find_body_element doc = dfs_list (filter is_elem doc)"

definition visible_without_body :: "xml list \<Rightarrow> string" where
  "visible_without_body doc = concat (map (\<lambda>top.
     if \<not> is_elem top \<or> is_element ''head'' top then []
     else if is_element ''html'' top
       then concat (map (\<lambda>c. if is_element ''head'' c then [] else extract_visible_text c) (children_of top))
     else extract_visible_text top) doc)"

definition page_text :: "xml list \<Rightarrow> string" where
  "page_text doc = (case find_body_element doc of Some body \<Rightarrow> extract_visible_text body
     | None \<Rightarrow> visible_without_body doc)"

subsection \<open>Without a tree\<close>

text \<open>Scripts and styles go first; both strings are cut at the same places.\<close>

definition next_block :: "string \<Rightarrow> (nat \<times> string) option" where
  "next_block lower =
     (case (str_find lower ''<script'' 0, str_find lower ''<style'' 0) of
        (None, None) \<Rightarrow> None
      | (Some a, None) \<Rightarrow> Some (a, ''</script>'')
      | (None, Some b) \<Rightarrow> Some (b, ''</style>'')
      | (Some a, Some b) \<Rightarrow> Some (min a b, if min a b = a then ''</script>'' else ''</style>''))"

function cut_scripts :: "string \<Rightarrow> string \<Rightarrow> string" where
  "cut_scripts html lower =
     (case next_block lower of None \<Rightarrow> html
      | Some (next_tag, end_tag) \<Rightarrow>
          (case str_find lower end_tag next_tag of
             None \<Rightarrow> take next_tag html
           | Some tag_end \<Rightarrow>
               cut_scripts (str_erase html next_tag (tag_end + length end_tag - next_tag))
                 (str_erase lower next_tag (tag_end + length end_tag - next_tag))))"
  by auto
termination
proof (relation "measure (\<lambda>(html, lower). length lower)", goal_cases)
  case (2 html lower x t e q)
  have "e \<noteq> []" using 2(1,2) by (auto simp: next_block_def split: option.splits if_splits)
  then show ?case using str_find_boundsD [OF 2(3)] 2(2) by (auto simp: str_erase_def neq_Nil_conv)
qed simp

declare cut_scripts.simps [simp del]

text \<open>Then all tags, each replaced by a blank.\<close>

fun cut_tags :: "bool \<Rightarrow> string \<Rightarrow> string" where
  "cut_tags in_tag [] = []"
| "cut_tags in_tag (c # cs) =
     (if c = CHR ''<'' then cut_tags True cs
      else if c = CHR ''>'' then CHR '' '' # cut_tags False cs
      else if \<not> in_tag then c # cut_tags in_tag cs
      else cut_tags in_tag cs)"

fun collapse_ws :: "bool \<Rightarrow> string \<Rightarrow> string" where
  "collapse_ws last_was_space [] = []"
| "collapse_ws last_was_space (c # cs) =
     (if is_space c
      then (if last_was_space then collapse_ws True cs else CHR '' '' # collapse_ws True cs)
      else c # collapse_ws False cs)"

definition strip_line :: "string \<Rightarrow> string" where
  "strip_line line = (case last_not_of line ws_chars of
     Some e \<Rightarrow> take (e + 1) line @ [ch_nl] | None \<Rightarrow> [ch_nl])"

definition strip_trailing_whitespace :: "string \<Rightarrow> string" where
  "strip_trailing_whitespace text = concat (map strip_line (getlines ch_nl text))"

definition raw_text :: "string \<Rightarrow> string" where
  "raw_text buffer = collapse_ws False (cut_tags False (cut_scripts buffer (map to_lower buffer)))"

text \<open>The text of a page: from the tree, or from the raw page; blanks collapsed, ended by a line break.\<close>

definition clean_page :: "xml list option \<Rightarrow> string \<Rightarrow> string" where
  "clean_page tree buffer =
     strip_trailing_whitespace (collapse_ws False
       (case tree of Some doc \<Rightarrow> page_text doc | None \<Rightarrow> raw_text buffer))"

definition page_head :: "xml list option \<Rightarrow> string \<times> string" where
  "page_head tree = (case tree of Some doc \<Rightarrow> extract_page_metadata doc | None \<Rightarrow> ([], []))"

subsection \<open>What is left of a page\<close>

text \<open>Collapsed text: no other blank than the space, no two in a row.\<close>

fun collapsed :: "string \<Rightarrow> bool" where
  "collapsed [] = True"
| "collapsed [c] = (is_space c \<longrightarrow> c = CHR '' '')"
| "collapsed (c # d # s) = ((is_space c \<longrightarrow> c = CHR '' '' \<and> \<not> is_space d) \<and> collapsed (d # s))"

lemma collapse_head:
  "collapse_ws True s = [] \<or> \<not> is_space (hd (collapse_ws True s))"
  by (induction s) auto

lemma collapsed_Cons:
  "collapsed (c # s) \<longleftrightarrow> (is_space c \<longrightarrow> c = CHR '' '' \<and> (s = [] \<or> \<not> is_space (hd s))) \<and> collapsed s"
  by (cases s) auto

lemma collapse_collapsed: "collapsed (collapse_ws b s)"
  using collapse_head by (induction s arbitrary: b) (auto simp: collapsed_Cons)

lemma collapse_words: "filter (\<lambda>c. \<not> is_space c) (collapse_ws b s) = filter (\<lambda>c. \<not> is_space c) s"
  by (induction s arbitrary: b) (auto simp: is_space_def)

lemma collapsed_no_nl: "collapsed s \<Longrightarrow> ch_nl \<notin> set s"
  by (induction s rule: collapsed.induct) (auto simp: is_space_def)

abbreviation words :: "string \<Rightarrow> string" where "words s \<equiv> filter (\<lambda>c. \<not> is_space c) s"

lemma ws_is_space: "c \<in> set ws_chars \<Longrightarrow> is_space c"
  by (auto simp: ws_chars_def is_space_def)

lemma ws_words: "set s \<subseteq> set ws_chars \<Longrightarrow> words s = []"
  using ws_is_space by (auto simp: filter_empty_conv)

lemma collapsed_take: "collapsed s \<Longrightarrow> collapsed (take n s)"
proof (induction s arbitrary: n)
  case (Cons c s)
  show ?case
  proof (cases n)
    case (Suc m)
    have "take m s = [] \<or> s \<noteq> [] \<and> hd (take m s) = hd s" by (cases m; cases s) simp_all
    then show ?thesis using Cons Suc by (auto simp: collapsed_Cons)
  qed simp
qed simp

lemma collapsed_space: "collapsed s \<Longrightarrow> c \<in> set s \<Longrightarrow> is_space c \<Longrightarrow> c = CHR '' ''"
  by (induction s) (auto simp: collapsed_Cons)

text \<open>The end of the line: at most one blank is taken off, so nothing but blanks is lost.\<close>

lemma strip_line_collapsed:
  assumes "collapsed s"
  obtains w where "strip_line s = w @ [ch_nl]" "collapsed w" "w = [] \<or> \<not> is_space (last w)" "words w = words s"
proof (cases "last_not_of s ws_chars")
  case None
  then have "words s = []" by (intro ws_words) (simp add: last_not_of_None_iff)
  then show thesis using None by (intro that [of "[]"]) (simp_all add: strip_line_def)
next
  case (Some e)
  then have e: "e < length s" "s ! e \<notin> set ws_chars" "set (drop (Suc e) s) \<subseteq> set ws_chars"
    by (simp_all add: last_not_of_Some_iff)
  let ?w = "take (Suc e) s"
  have "words s = words (?w @ drop (Suc e) s)" by simp
  also have "\<dots> = words ?w" unfolding filter_append ws_words [OF e(3)] by simp
  finally have w: "words ?w = words s" by simp
  have c: "collapsed ?w" by (rule collapsed_take [OF assms])
  have "last ?w = s ! e" using e(1) by (simp add: take_Suc_conv_app_nth)
  moreover have "\<not> is_space (s ! e)"
  proof
    assume sp: "is_space (s ! e)"
    then have "s ! e = CHR '' ''" using collapsed_space [OF assms] e(1) by simp
    then show False using e(2) by (simp add: ws_chars_def)
  qed
  ultimately show thesis using Some w c by (intro that [of ?w]) (simp_all add: strip_line_def)
qed

lemma clean_source:
  assumes "src \<noteq> []"
  obtains w where "strip_trailing_whitespace (collapse_ws False src) = w @ [ch_nl]" "collapsed w"
    "w = [] \<or> \<not> is_space (last w)" "words w = words src"
proof -
  let ?s = "collapse_ws False src"
  have "?s \<noteq> []" using assms by (cases src) auto
  then have g: "strip_trailing_whitespace ?s = strip_line ?s"
    using getlines_single [OF _ collapsed_no_nl [OF collapse_collapsed]] by (simp add: strip_trailing_whitespace_def)
  show thesis
    by (rule strip_line_collapsed [OF collapse_collapsed [of False src]]) (use that g collapse_words in metis)
qed

subsection \<open>Without a tree: no script, no tag\<close>

lemma cut_tags_none: "CHR ''<'' \<notin> set (cut_tags b s) \<and> CHR ''>'' \<notin> set (cut_tags b s)"
  by (induction s arbitrary: b) auto

lemma collapse_set: "c \<in> set (collapse_ws b s) \<Longrightarrow> c \<in> set s \<or> c = CHR '' ''"
  by (induction s arbitrary: b) (auto split: if_splits)

lemma raw_no_tags: "CHR ''<'' \<notin> set (raw_text s) \<and> CHR ''>'' \<notin> set (raw_text s)"
  using cut_tags_none collapse_set by (fastforce simp: raw_text_def)

lemma find_take_None:
  assumes "str_find s pat 0 = None \<or> (\<exists>b. str_find s pat 0 = Some b \<and> n \<le> b)" "pat \<noteq> []"
  shows "str_find (take n s) pat 0 = None"
proof -
  have "\<not> prefix pat (drop i (take n s))" if "i \<le> length (take n s)" for i
  proof
    assume p: "prefix pat (drop i (take n s))"
    then have "prefix pat (drop i s)" by (metis drop_take prefix_order.trans take_is_prefix)
    moreover have "i < n" using p assms(2) by (cases "i < n") simp_all
    ultimately show False using assms(1) that by (auto simp: str_find_Some_iff str_find_None_iff)
  qed
  then show ?thesis by (simp add: str_find_None_iff)
qed

lemma map_erase: "map f (str_erase s p n) = str_erase (map f s) p n"
  by (simp add: str_erase_def take_map drop_map)

lemma next_block_None: "next_block s = None \<longleftrightarrow> str_find s ''<script'' 0 = None \<and> str_find s ''<style'' 0 = None"
  by (simp add: next_block_def split: option.splits)

lemma next_block_take: "next_block s = Some (n, e) \<Longrightarrow> next_block (take n s) = None"
  unfolding next_block_None
  by (intro conjI find_take_None) (auto simp: next_block_def split: option.splits)

lemma scripts_cut: "lower = map to_lower html \<Longrightarrow> next_block (map to_lower (cut_scripts html lower)) = None"
proof (induction html lower rule: cut_scripts.induct)
  case (1 html lower)
  show ?case
  proof (cases "next_block lower")
    case None
    then show ?thesis using 1(2) by (simp add: cut_scripts.simps [of html])
  next
    case (Some b)
    obtain n e where b: "b = (n, e)" by fastforce
    show ?thesis
    proof (cases "str_find lower e n")
      case None
      then show ?thesis using Some b 1(2) next_block_take [of lower n e]
        by (simp add: cut_scripts.simps [of html] take_map)
    next
      case (Some q)
      then show ?thesis using \<open>next_block lower = Some b\<close> b 1(1) [OF \<open>next_block lower = Some b\<close> b [symmetric] Some] 1(2)
        by (simp add: cut_scripts.simps [of html] map_erase)
    qed
  qed
qed

text \<open>The text of a page is one line: blanks are single spaces, none stands at the end, and nothing but blanks of
  the visible text is lost. It is empty only if there was no text at all: a page of blanks gives a line
  break, which the caller does not take for an empty page. Without a tree no script and no tag is left.\<close>

theorem page_cleaned:
  "(\<exists>w. clean_page tree buffer =
      (if (case tree of Some doc \<Rightarrow> page_text doc | None \<Rightarrow> raw_text buffer) = [] then [] else w @ [ch_nl])
      \<and> collapsed w \<and> (w = [] \<or> \<not> is_space (last w))
      \<and> words w = words (case tree of Some doc \<Rightarrow> page_text doc | None \<Rightarrow> raw_text buffer))
   \<and> next_block (map to_lower (cut_scripts buffer (map to_lower buffer))) = None
   \<and> CHR ''<'' \<notin> set (raw_text buffer) \<and> CHR ''>'' \<notin> set (raw_text buffer)"
proof -
  define src where "src = (case tree of Some doc \<Rightarrow> page_text doc | None \<Rightarrow> raw_text buffer)"
  have "\<exists>w. clean_page tree buffer = (if src = [] then [] else w @ [ch_nl])
      \<and> collapsed w \<and> (w = [] \<or> \<not> is_space (last w)) \<and> words w = words src"
  proof (cases "src = []")
    case True
    then have "clean_page tree buffer = []"
      unfolding clean_page_def src_def [symmetric] by (simp add: strip_trailing_whitespace_def)
    then show ?thesis using True by (intro exI [of _ "[]"]) simp
  next
    case False
    then show ?thesis unfolding clean_page_def src_def [symmetric] by (metis clean_source)
  qed
  then show ?thesis using scripts_cut [OF refl, of buffer] raw_no_tags [of buffer] unfolding src_def by blast
qed

text \<open>A page of blanks.\<close>

lemma blank_page: "clean_page (Some [Xml_Element ''html'' [] [Xml_Element ''body'' [] [Xml_Text '' '']]]) [] = [ch_nl]"
  by code_simp

end
