(* ===== verification/Lim_Github.thy ===== *)
theory Lim_Github
  imports Lim_Html
begin

section \<open>Pages of GitHub (github\_api\_fetch in network.cc)\<close>

text \<open>
  A GitHub address is turned into a request to the API, and the answer into text. JSON values are those of the
  vendored \<open>nlohmann\<close> library, which throws on a member of the wrong type (\<^const>\<open>None\<close> here); the answers of
  the network are parameters. Numbers of the API are integers.
\<close>

subsection \<open>JSON values\<close>

datatype json =
  J_Null | J_Bool bool | J_Num int | J_Str string | J_Arr "json list" | J_Obj "(string \<times> json) list"

text \<open>\<open>contains\<close> followed by \<open>operator[]\<close>; \<open>get<string>\<close>, \<open>get<int>\<close>; \<open>value\<close> with a default.\<close>

fun j_field :: "json \<Rightarrow> string \<Rightarrow> json option" where
  "j_field (J_Obj fs) k = map_of fs k"
| "j_field _ k = None"

fun j_str :: "json \<Rightarrow> string option" where
  "j_str (J_Str s) = Some s"
| "j_str _ = None"

fun j_int :: "json \<Rightarrow> int option" where
  "j_int (J_Num i) = Some (to_int32 i)"
| "j_int (J_Bool b) = Some (if b then 1 else 0)"
| "j_int _ = None"

fun j_value :: "json \<Rightarrow> string \<Rightarrow> json \<Rightarrow> json option" where
  "j_value (J_Obj fs) k d = Some (case map_of fs k of None \<Rightarrow> d | Some v \<Rightarrow> v)"
| "j_value _ k d = None"

definition j_value_str :: "json \<Rightarrow> string \<Rightarrow> string \<Rightarrow> string option" where
  "j_value_str j k d = Option.bind (j_value j k (J_Str d)) j_str"

text \<open>A text built piece by piece, given up at the first exception.\<close>

fun pieces :: "string option list \<Rightarrow> string option" where
  "pieces [] = Some []"
| "pieces (p # ps) = Option.bind p (\<lambda>s. map_option ((@) s) (pieces ps))"

definition str_line :: "json \<Rightarrow> string \<Rightarrow> string \<Rightarrow> string option" where
  "str_line j key label = (case j_field j key of None \<Rightarrow> Some []
     | Some v \<Rightarrow> map_option (\<lambda>s. label @ s @ [ch_nl]) (j_str v))"

subsection \<open>The request\<close>

datatype gh_section = Gh_Run | Gh_Issue bool | Gh_Discussion | Gh_Blob

record gh_request =
  gh_section :: gh_section
  gh_owner :: string
  gh_repo :: string
  gh_item :: string
  gh_url :: string
  gh_query :: "string option"

definition cut_at :: "string \<Rightarrow> string \<Rightarrow> string" where
  "cut_at pat s = (case str_find s pat 0 of None \<Rightarrow> s | Some p \<Rightarrow> take p s)"

definition gh_char :: "char \<Rightarrow> bool" where
  "gh_char c \<longleftrightarrow> (let n = of_char c :: nat in
     (48 \<le> n \<and> n \<le> 57) \<or> (65 \<le> n \<and> n \<le> 90) \<or> (97 \<le> n \<and> n \<le> 122)) \<or> c \<in> {CHR ''-'', CHR ''_'', CHR ''.''}"

definition is_valid_gh_name :: "string \<Rightarrow> bool" where
  "is_valid_gh_name s \<longleftrightarrow> s \<noteq> [] \<and> length s \<le> 39 \<and> list_all gh_char s"

abbreviation quoted :: "string \<Rightarrow> string" where "quoted s \<equiv> ch_bslash # ch_dquote # s @ [ch_bslash, ch_dquote]"

definition discussion_query :: "string \<Rightarrow> string \<Rightarrow> string \<Rightarrow> string" where
  "discussion_query owner repo num =
     ''{'' @ [ch_dquote] @ ''query'' @ [ch_dquote] @ '':'' @ [ch_dquote] @ ''{ repository(owner: '' @ quoted owner @
     '', name: '' @ quoted repo @ '') { discussion(number: '' @ num @
     '') { title bodyText comments(first: 10) { nodes { bodyText author { login } } } } } }'' @ [ch_dquote] @ ''}''"

fun join_path :: "string list \<Rightarrow> string \<Rightarrow> string" where
  "join_path [] acc = acc"
| "join_path (s # ss) acc = join_path ss ((if acc \<noteq> [] then acc @ ''/'' else acc) @ s)"

definition github_request :: "string \<Rightarrow> gh_request option" where
  "github_request url =
     (case str_find url ''github.com/'' 0 of None \<Rightarrow> None
      | Some p \<Rightarrow>
          (let path = cut_at ''#'' (cut_at ''?'' (drop (p + length ''github.com/'') url));
               segs = getlines CHR ''/'' path
           in if length segs < 3 then None
              else let owner = segs ! 0; repo = segs ! 1; sec = segs ! 2;
                       api_base = ''https://api.github.com/repos/'' @ owner @ ''/'' @ repo;
                       req = (\<lambda>s item u q. Some \<lparr>gh_section = s, gh_owner = owner, gh_repo = repo, gh_item = item,
                                gh_url = u, gh_query = q\<rparr>)
                   in if sec = ''actions'' \<and> length segs \<ge> 5 \<and> segs ! 3 = ''runs''
                      then req Gh_Run (segs ! 4) (api_base @ ''/actions/runs/'' @ segs ! 4) None
                      else if (sec = ''pulls'' \<or> sec = ''issues'') \<and> length segs \<ge> 4
                      then req (Gh_Issue (sec = ''pulls'')) (segs ! 3) (api_base @ ''/issues/'' @ segs ! 3) None
                      else if sec = ''discussions'' \<and> length segs \<ge> 4
                      then (if \<not> is_valid_gh_name owner \<or> \<not> is_valid_gh_name repo \<or> segs ! 3 = [] \<or> length (segs ! 3) > 10
                              \<or> first_not_of (segs ! 3) ''0123456789'' \<noteq> None then None
                            else req Gh_Discussion (segs ! 3) ''https://api.github.com/graphql''
                                   (Some (discussion_query owner repo (segs ! 3))))
                      else if sec = ''blob'' \<and> length segs \<ge> 5
                      then req Gh_Blob (segs ! 3)
                             (api_base @ ''/contents/'' @ join_path (drop 4 segs) [] @ ''?ref='' @ segs ! 3) None
                      else None))"

subsection \<open>The text of an answer\<close>

definition run_text :: "json \<Rightarrow> string option" where
  "run_text j = pieces
     [Some (''[GitHub Actions Run]'' @ [ch_nl]),
      str_line j ''name'' ''Workflow: '', str_line j ''display_title'' ''Title: '', str_line j ''head_branch'' ''Branch: '',
      (case j_field j ''head_sha'' of None \<Rightarrow> Some []
       | Some v \<Rightarrow> map_option (\<lambda>s. ''Commit: '' @ take 7 s @ [ch_nl]) (j_str v)),
      str_line j ''status'' ''Status: '',
      (if j_field j ''conclusion'' = Some J_Null then Some [] else str_line j ''conclusion'' ''Conclusion: ''),
      str_line j ''created_at'' ''Created: '', str_line j ''updated_at'' ''Updated: '',
      (case j_field j ''run_number'' of None \<Rightarrow> Some []
       | Some v \<Rightarrow> map_option (\<lambda>i. ''Run #'' @ int_string i @ [ch_nl]) (j_int v))]"

definition issue_text :: "bool \<Rightarrow> json \<Rightarrow> string option" where
  "issue_text is_pull j = pieces
     [Some (''[GitHub '' @ (if is_pull then ''Pull Request'' else ''Issue'') @ '']'' @ [ch_nl]),
      str_line j ''title'' ''Title: '', str_line j ''state'' ''State: '',
      (case j_field j ''user'' of None \<Rightarrow> Some [] | Some u \<Rightarrow> str_line u ''login'' ''Author: ''),
      str_line j ''created_at'' ''Created: '',
      (case j_field j ''body'' of None \<Rightarrow> Some [] | Some J_Null \<Rightarrow> Some []
       | Some v \<Rightarrow> map_option (\<lambda>s. [ch_nl] @ ''Body:'' @ [ch_nl] @ s @ [ch_nl]) (j_str v))]"

definition comment_text :: "string \<Rightarrow> json \<Rightarrow> string \<Rightarrow> string option" where
  "comment_text user_key c body_key =
     Option.bind (Option.bind (j_value c user_key (J_Obj [])) (\<lambda>u. j_value_str u ''login'' ''?'')) (\<lambda>author.
       map_option (\<lambda>body. [ch_nl] @ ''--- '' @ author @ '' ---'' @ [ch_nl] @ body @ [ch_nl]) (j_value_str c body_key []))"

text \<open>The first comments of an issue: an exception ends the loop and keeps what was appended.\<close>

fun until_throw :: "string option list \<Rightarrow> string" where
  "until_throw (Some s # ps) = s @ until_throw ps"
| "until_throw _ = []"

definition issue_comments :: "(int \<times> json option) option \<Rightarrow> string" where
  "issue_comments answer =
     (case answer of Some (code, Some (J_Arr cs)) \<Rightarrow>
        (if code = 200 \<and> cs \<noteq> [] then
           [ch_nl] @ ''Comments ('' @ nat_string (length cs) @ '' shown):'' @ [ch_nl]
             @ until_throw (map (\<lambda>c. comment_text ''user'' c ''body'') (take 5 cs))
         else [])
      | _ \<Rightarrow> [])"

definition j_items :: "json \<Rightarrow> json list" where
  "j_items j = (case j of J_Null \<Rightarrow> [] | J_Arr xs \<Rightarrow> xs | J_Obj fs \<Rightarrow> map snd fs | _ \<Rightarrow> [j])"

definition titled :: "json \<Rightarrow> string \<Rightarrow> string \<Rightarrow> string option" where
  "titled disc key label = Option.bind (j_value_str disc key []) (\<lambda>s.
     if s = [] then Some [] else Some (label @ s @ [ch_nl]))"

definition discussion_text :: "json \<Rightarrow> string option" where
  "discussion_text j =
     Option.bind (j_value j ''data'' (J_Obj [])) (\<lambda>data.
     Option.bind (j_value data ''repository'' (J_Obj [])) (\<lambda>repo_j.
     Option.bind (j_value repo_j ''discussion'' (J_Obj [])) (\<lambda>disc.
     Option.bind (pieces [Some (''[GitHub Discussion]'' @ [ch_nl]), titled disc ''title'' ''Title: '',
        titled disc ''bodyText'' ([ch_nl] @ ''Body:'' @ [ch_nl])]) (\<lambda>head.
     Option.bind (j_value disc ''comments'' (J_Obj [])) (\<lambda>comments.
     Option.bind (j_value comments ''nodes'' (J_Arr [])) (\<lambda>nodes.
       if j_items nodes = [] then Some head
       else map_option ((@) (head @ [ch_nl] @ ''Comments ('' @ nat_string (length (j_items nodes)) @ '' shown):'' @ [ch_nl]))
              (pieces (map (\<lambda>c. comment_text ''author'' c ''bodyText'') (j_items nodes)))))))))"

definition blob_text :: "gh_request \<Rightarrow> json \<Rightarrow> string option" where
  "blob_text r j =
     (if j_field j ''content'' \<noteq> None \<and> j_field j ''content'' \<noteq> Some J_Null then
        Option.bind (j_str (the (j_field j ''content''))) (\<lambda>b64.
          Some (''[File: '' @ gh_owner r @ ''/'' @ gh_repo r @ '']'' @ [ch_nl] @ github_base64_decode b64))
      else Some [])"

definition graphql_failed :: "gh_request \<Rightarrow> json \<Rightarrow> bool" where
  "graphql_failed r j \<longleftrightarrow> gh_query r \<noteq> None \<and>
     (case j_field j ''errors'' of Some (J_Arr (e # es)) \<Rightarrow> True | _ \<Rightarrow> False)"

text \<open>The answer to a request, and the one that brings the comments of an issue.\<close>

definition github_text :: "gh_request \<Rightarrow> json \<Rightarrow> (int \<times> json option) option \<Rightarrow> string" where
  "github_text r j comments =
     (if graphql_failed r j then []
      else case (case gh_section r of
          Gh_Run \<Rightarrow> run_text j
        | Gh_Issue is_pull \<Rightarrow> map_option (\<lambda>t. t @ issue_comments comments) (issue_text is_pull j)
        | Gh_Discussion \<Rightarrow> discussion_text j
        | Gh_Blob \<Rightarrow> blob_text r j) of None \<Rightarrow> [] | Some t \<Rightarrow> t)"

definition comments_url :: "gh_request \<Rightarrow> string" where
  "comments_url r = ''https://api.github.com/repos/'' @ gh_owner r @ ''/'' @ gh_repo r @ ''/issues/'' @ gh_item r @
     ''/comments?per_page=5''"

subsection \<open>Requests are well formed\<close>

lemma gh_char_safe: "gh_char c \<Longrightarrow> c \<noteq> ch_dquote \<and> c \<noteq> ch_bslash \<and> c \<noteq> CHR ''{'' \<and> c \<noteq> CHR ''}''"
  by (auto simp: gh_char_def Let_def)

lemma gh_name_safe: "is_valid_gh_name s \<Longrightarrow> set s \<inter> {ch_dquote, ch_bslash, CHR ''{'', CHR ''}''} = {}"
  using gh_char_safe by (auto simp: is_valid_gh_name_def list_all_iff)

lemma first_not_of_digits: "first_not_of s ''0123456789'' = None \<longleftrightarrow> set s \<subseteq> set ''0123456789''"
  by (rule first_not_of_None_iff)

text \<open>C35: Every request goes to the API of GitHub. The body of a GraphQL request is the fixed query with a name for the
  owner, one for the repository and a number, none of which can close its quotes.\<close>

theorem github_request_safe:
  assumes "github_request url = Some r"
  shows "prefix ''https://api.github.com/'' (gh_url r)
    \<and> (gh_query r = None \<longleftrightarrow> gh_section r \<noteq> Gh_Discussion)
    \<and> (\<forall>q. gh_query r = Some q \<longrightarrow> q = discussion_query (gh_owner r) (gh_repo r) (gh_item r)
         \<and> set (gh_owner r @ gh_repo r) \<inter> {ch_dquote, ch_bslash, CHR ''{'', CHR ''}''} = {}
         \<and> set (gh_item r) \<subseteq> set ''0123456789'')"
proof -
  obtain p where p: "str_find url ''github.com/'' 0 = Some p"
    using assms by (cases "str_find url ''github.com/'' 0") (simp_all add: github_request_def)
  define segs where "segs = getlines CHR ''/'' (cut_at ''#'' (cut_at ''?'' (drop (p + length ''github.com/'') url)))"
  note A = assms [unfolded github_request_def p option.case Let_def segs_def [symmetric]]
  consider "gh_query r = None" "gh_section r \<noteq> Gh_Discussion" "prefix ''https://api.github.com/'' (gh_url r)"
    | "r = \<lparr>gh_section = Gh_Discussion, gh_owner = segs ! 0, gh_repo = segs ! 1, gh_item = segs ! 3,
          gh_url = ''https://api.github.com/graphql'',
          gh_query = Some (discussion_query (segs ! 0) (segs ! 1) (segs ! 3))\<rparr>"
      "is_valid_gh_name (segs ! 0)" "is_valid_gh_name (segs ! 1)" "first_not_of (segs ! 3) ''0123456789'' = None"
    using A by (auto split: if_splits)
  then show ?thesis
  proof cases
    case 2
    then show ?thesis using gh_name_safe [OF 2(2)] gh_name_safe [OF 2(3)] first_not_of_digits [of "segs ! 3"]
      by (simp add: Int_Un_distrib2)
  qed simp
qed

lemma github_request_safe_witness:
  "\<exists>r. github_request ''https://github.com/o/r/discussions/7'' = Some r \<and> gh_section r = Gh_Discussion
     \<and> prefix ''https://api.github.com/'' (gh_url r) \<and> gh_query r = Some (discussion_query ''o'' ''r'' ''7'')"
proof -
  define r where "r = \<lparr>gh_section = Gh_Discussion, gh_owner = ''o'', gh_repo = ''r'', gh_item = ''7'',
      gh_url = ''https://api.github.com/graphql'', gh_query = Some (discussion_query ''o'' ''r'' ''7'')\<rparr>"
  have e: "github_request ''https://github.com/o/r/discussions/7'' = Some r" unfolding r_def by code_simp
  then show ?thesis using github_request_safe [OF e] by (intro exI [of _ r]) (simp add: r_def)
qed

text \<open>The page of a pull request (\<open>/pull/7\<close>) is not among the supported ones.\<close>

lemma pull_page_unsupported: "github_request ''https://github.com/o/r/pull/7'' = None"
  by code_simp

end
