(* ===== verification/Lim_Search.thy ===== *)
theory Lim_Search
  imports Lim_Github
begin

section \<open>Fetching pages and searching the web (network.cc)\<close>

text \<open>
  The two tools that reach the network, composed of the models below: \<open>fetch_and_clean_html\<close>,
  \<open>process_pdf_with_docling\<close>, \<open>fetch_urls\<close>, \<open>format_top_results\<close>, \<open>brave_api_search\<close>, \<open>web_search\<close>. The
  network is a function of the number of the call: the transfers of \<open>libcurl\<close>, the converter, the two
  search engines, the interrupt flag as it stands after the call. Pacing, logging and the start of the local
  services are left out.
\<close>

subsection \<open>The outside world and the state\<close>

record web_env =
  we_session_max :: nat
  we_file_max :: nat
  we_html_max :: nat
  we_pdf_max :: nat
  we_curl :: "nat \<Rightarrow> string \<Rightarrow> (nat \<times> int \<times> net_event list) option"
  we_stop :: "nat \<Rightarrow> bool"
  we_strerror :: "nat \<Rightarrow> string"
  we_docling :: "nat \<Rightarrow> string \<Rightarrow> (int \<times> string option) option"
  we_tree :: "string \<Rightarrow> xml list option"
  we_github :: "nat \<Rightarrow> gh_request \<Rightarrow> (nat \<times> int \<times> json option) option"
  we_comments :: "nat \<Rightarrow> string \<Rightarrow> (int \<times> json option) option"
  we_searx :: "nat \<Rightarrow> string \<Rightarrow> (nat \<times> int \<times> string \<times> json option) option"
  we_brave_key :: string
  we_brave :: "nat \<Rightarrow> string \<Rightarrow> (nat \<times> int \<times> json option) option"
  we_hash :: "string \<Rightarrow> nat"
  we_json_error :: "nat \<Rightarrow> string"

record web =
  wb_used :: nat
  wb_clock :: nat
  wb_disabled :: bool
  wb_empty :: nat
  wb_cache :: "nat \<rightharpoonup> string"

definition CURLE_OK :: nat where "CURLE_OK = 0"

definition CURLE_FAILED_INIT :: nat where "CURLE_FAILED_INIT = 2"

abbreviation tick :: "web \<Rightarrow> web" where "tick w \<equiv> w\<lparr>wb_clock := Suc (wb_clock w)\<rparr>"

definition limit_web :: "web_env \<Rightarrow> string \<Rightarrow> web \<Rightarrow> string \<times> web" where
  "limit_web env text w =
     (let (r, used) = limit_context_size (we_session_max env) (we_file_max env) text (wb_used w)
      in (r, w\<lparr>wb_used := used\<rparr>))"

definition curl_fetch_buffer :: "web_env \<Rightarrow> string \<Rightarrow> web \<Rightarrow> (nat \<times> int \<times> fetch_state) \<times> web" where
  "curl_fetch_buffer env url w =
     ((case we_curl env (wb_clock w) url of
         None \<Rightarrow> (CURLE_FAILED_INIT, 0, fetch_init)
       | Some (res, code, evs) \<Rightarrow> (res, code, transfer (we_html_max env) (we_pdf_max env) evs)), tick w)"

subsection \<open>PDF, GitHub, HTML\<close>

definition process_pdf_with_docling :: "web_env \<Rightarrow> string \<Rightarrow> web \<Rightarrow> string \<times> web" where
  "process_pdf_with_docling env pdf w =
     (case we_docling env (wb_clock w) (base64_encode pdf) of
        None \<Rightarrow> (''[Curl Init Failed]'', tick w)
      | Some (code, md) \<Rightarrow>
          if we_stop env (wb_clock w) then (''[PDF conversion interrupted by user]'', tick w)
          else if code = 200 then
            (case md of Some full_md \<Rightarrow> limit_web env full_md (tick w)
             | None \<Rightarrow> (''[Docling JSON Parse Error]'', tick w))
          else (''[Docling Error '' @ int_string code @ '']'', tick w))"

definition github_api_fetch :: "web_env \<Rightarrow> string \<Rightarrow> web \<Rightarrow> string \<times> web" where
  "github_api_fetch env url w =
     (case github_request url of None \<Rightarrow> ([], w)
      | Some r \<Rightarrow>
          (case we_github env (wb_clock w) r of None \<Rightarrow> ([], tick w)
           | Some (res, code, j) \<Rightarrow>
               if we_stop env (wb_clock w) \<or> res \<noteq> CURLE_OK \<or> code \<noteq> 200 then ([], tick w)
               else (case j of None \<Rightarrow> ([], tick w)
                 | Some j \<Rightarrow> (github_text r j (we_comments env (wb_clock w) (comments_url r)), tick w))))"

definition binary_suffix :: "string \<Rightarrow> bool" where
  "binary_suffix url \<longleftrightarrow> length url > 4 \<and>
     map to_lower (drop (length url - 4) url) \<in> {''.zip'', ''.exe'', ''.tar''}"

definition api_hint_for_url :: "string \<Rightarrow> string" where
  "api_hint_for_url url =
     (if contains url ''github.com/'' then
        (if contains url ''/actions/'' then
           ''Tip: Use the GitHub API via exec_shell: curl -s https://api.github.com/repos/<owner>/<repo>/actions/runs/<run_id>''
         else if contains url ''/pulls/'' \<or> contains url ''/issues/'' then
           ''Tip: Use the GitHub API via exec_shell: curl -s https://api.github.com/repos/<owner>/<repo>/pulls/<num>''
         else ''Tip: Use the GitHub API via exec_shell: curl -s https://api.github.com/repos/<owner>/<repo>'')
      else if contains url ''stackoverflow.com/questions/'' then
        ''Tip: Stack Overflow has an API: curl -s '' @ [ch_squote] @
        ''https://api.stackexchange.com/2.3/questions/<id>?site=stackoverflow&filter=withbody'' @ [ch_squote]
      else if contains url ''gitlab.com/'' then
        ''Tip: Use the GitLab API via exec_shell: curl -s https://gitlab.com/api/v4/projects/<project_id>''
      else [])"

definition spa_diag :: "string \<Rightarrow> string \<Rightarrow> string \<Rightarrow> string" where
  "spa_diag url title desc =
     ''[This page appears to be JavaScript-rendered (SPA). The static HTML contains no useful body content.'' @
     (if title \<noteq> [] then [ch_nl] @ ''Page title: '' @ title else []) @
     (if desc \<noteq> [] then [ch_nl] @ ''Description: '' @ desc else []) @
     (if api_hint_for_url url \<noteq> [] then [ch_nl] @ api_hint_for_url url
      else [ch_nl] @ ''Try: use exec_shell with curl to access an API endpoint, or use web_search for alternative sources.'') @
     '']''"

definition html_result :: "web_env \<Rightarrow> string \<Rightarrow> string \<Rightarrow> web \<Rightarrow> string \<times> web" where
  "html_result env url buffer w =
     (let tree = we_tree env buffer;
          final = clean_page tree buffer;
          (title, desc) = page_head tree
      in if length final < 200 \<and> length buffer > 50000 then (spa_diag url title desc, w)
         else let final = (if title \<noteq> [] \<and> length final \<ge> 200 then ''[Page: '' @ title @ '']'' @ [ch_nl] @ final else final)
           in if final = [] then
                (if title \<noteq> [] then ''[No body content extracted. Page title: '' @ title @ '']''
                 else ''[No content extracted from page]'', w)
              else limit_web env final w)"

definition fetch_and_clean_html :: "web_env \<Rightarrow> string \<Rightarrow> web \<Rightarrow> string \<times> web" where
  "fetch_and_clean_html env url w =
     (if binary_suffix url then (''[Binary file skipped]'', w)
      else let (api, w) = (if contains url ''github.com/'' then github_api_fetch env url w else ([], w))
        in if api \<noteq> [] then limit_web env api w
           else let stopped = we_stop env (wb_clock w); ((res, code, st), w) = curl_fetch_buffer env url w
             in if stopped then (''[Fetch interrupted by user]'', w)
                else if res \<noteq> CURLE_OK then (''[Failed to fetch page content: '' @ we_strerror env res @ '']'', w)
                else if code \<ge> 400 then (''[Failed to fetch page content: HTTP '' @ int_string code @ '']'', w)
                else if \<not> ft_is_text st \<and> \<not> ft_is_pdf st then
                  (''[Skipped non-text content early to save bandwidth.]'', w)
                else if ft_buffer st = [] then (''[Failed to fetch page content - empty response]'', w)
                else if ft_is_pdf st then process_pdf_with_docling env (ft_buffer st) w
                else html_result env url (ft_buffer st) w)"

subsection \<open>The tool fetch\_urls\<close>

record url_result =
  ur_path :: string
  ur_content :: string
  ur_error :: string

definition url_ext :: "string \<Rightarrow> string" where
  "url_ext url = (case str_rfind url ''.'' of None \<Rightarrow> url | Some d \<Rightarrow> map to_lower (drop d url))"

definition pdf_result :: "web_env \<Rightarrow> string \<Rightarrow> web \<Rightarrow> url_result \<times> web" where
  "pdf_result env url w =
     (let r = \<lparr>ur_path = url, ur_content = [], ur_error = []\<rparr>;
          stopped = we_stop env (wb_clock w);
          ((res, code, st), w) = curl_fetch_buffer env url w
      in if stopped then (r\<lparr>ur_error := ''[PDF fetch interrupted by user]''\<rparr>, w)
         else if res = CURLE_FAILED_INIT then (r\<lparr>ur_error := ''[Curl Init Failed]''\<rparr>, w)
         else if res \<noteq> CURLE_OK \<or> code \<ge> 400 \<or> (\<not> ft_is_pdf st \<and> \<not> is_pdf_by_magic (ft_buffer st)) \<or> ft_exceeded st then
           (r\<lparr>ur_error :=
              (if ft_exceeded st then ''[Failed to fetch PDF: file too large (exceeds '' @ nat_string (we_pdf_max env) @ '' bytes)]''
               else if res \<noteq> CURLE_OK then ''[Failed to fetch PDF: curl error '' @ nat_string res @ '']''
               else if code \<ge> 400 then ''[Failed to fetch PDF: HTTP '' @ int_string code @ '']''
               else ''[Failed to fetch PDF: content not recognized as PDF]'')\<rparr>, w)
         else let (pdf, w) = process_pdf_with_docling env (ft_buffer st) w
           in if contains pdf ''[Docling Error'' \<or> contains pdf ''[Failed to'' then (r\<lparr>ur_error := pdf\<rparr>, w)
              else let (content, w) = limit_web env pdf w in (r\<lparr>ur_content := content\<rparr>, w))"

definition page_result :: "web_env \<Rightarrow> string \<Rightarrow> web \<Rightarrow> url_result \<times> web" where
  "page_result env url w =
     (let r = \<lparr>ur_path = url, ur_content = [], ur_error = []\<rparr>;
          (content, w) = fetch_and_clean_html env url w
      in if contains content ''[Failed to'' \<or> contains content ''[Skipped'' \<or> contains content ''[Binary file skipped]''
         then (r\<lparr>ur_error := content\<rparr>, w) else (r\<lparr>ur_content := content\<rparr>, w))"

fun fetch_urls :: "web_env \<Rightarrow> string list \<Rightarrow> web \<Rightarrow> url_result list \<times> web" where
  "fetch_urls env [] w = ([], w)"
| "fetch_urls env (url # urls) w =
     (let (r, w) = (if url_ext url = ''.pdf'' then pdf_result env url w else page_result env url w);
          (rs, w) = fetch_urls env urls w
      in (r # rs, w))"

subsection \<open>Search results\<close>

definition is_fetch_diagnostic :: "string \<Rightarrow> bool" where
  "is_fetch_diagnostic t \<longleftrightarrow> contains t ''[Failed to fetch'' \<or> contains t ''[Skipped'' \<or> contains t ''[Failed to process''
     \<or> contains t ''[This page appears to be JavaScript-rendered'' \<or> contains t ''[No content extracted''
     \<or> contains t ''[No body content extracted''"

text \<open>A string member that may be missing or null.\<close>

definition opt_str :: "json \<Rightarrow> string \<Rightarrow> string option option" where
  "opt_str j k = (case j_field j k of None \<Rightarrow> Some None | Some J_Null \<Rightarrow> Some None | Some v \<Rightarrow> map_option Some (j_str v))"

definition top_result :: "json \<Rightarrow> string \<Rightarrow> (string \<times> string \<times> string option) option" where
  "top_result j snippet_key =
     Option.bind (opt_str j ''title'') (\<lambda>title. Option.bind (opt_str j ''url'') (\<lambda>url.
       map_option (\<lambda>snippet. (case title of None \<Rightarrow> [] | Some t \<Rightarrow> t, case url of None \<Rightarrow> [] | Some u \<Rightarrow> u, snippet))
         (opt_str j snippet_key)))"

definition result_body :: "string \<Rightarrow> string option \<Rightarrow> string" where
  "result_body full snippet =
     (if length full > 200 \<and> \<not> is_fetch_diagnostic full then ''Page Content: '' @ full @ [ch_nl, ch_nl]
      else case snippet of Some s \<Rightarrow> ''Snippet: '' @ s @ [ch_nl, ch_nl]
      | None \<Rightarrow> if is_fetch_diagnostic full \<and> full \<noteq> [] then full @ [ch_nl, ch_nl] else [])"

text \<open>The count and the text, or an exception; the pages are fetched on the way.\<close>

fun format_top_results :: "web_env \<Rightarrow> string \<Rightarrow> nat \<Rightarrow> json list \<Rightarrow> string \<Rightarrow> web \<Rightarrow> (nat \<times> string) option \<times> web" where
  "format_top_results env key n [] acc w = (Some (n, acc), w)"
| "format_top_results env key n (j # js) acc w =
     (if n \<ge> 3 then (Some (n + 1, acc), w)
      else case top_result j key of None \<Rightarrow> (None, w)
      | Some (title, url, snippet) \<Rightarrow>
          (let acc = acc @ (if title \<noteq> [] then ''Title: '' @ title @ [ch_nl] else [])
                         @ (if url \<noteq> [] then ''URL: '' @ url @ [ch_nl] else []);
               (acc, w) = (if url \<noteq> [] then
                   (let (full, w) = fetch_and_clean_html env url w in (acc @ result_body full snippet, w))
                 else (acc, w))
           in format_top_results env key (n + 1) js acc w))"

definition j_array :: "json option \<Rightarrow> json list" where
  "j_array j = (case j of Some (J_Arr xs) \<Rightarrow> xs | _ \<Rightarrow> [])"

definition brave_api_search :: "web_env \<Rightarrow> string \<Rightarrow> web \<Rightarrow> string \<times> web" where
  "brave_api_search env query w =
     (if we_brave_key env = [] then ([], w)
      else case we_brave env (wb_clock w) query of None \<Rightarrow> ([], tick w)
      | Some (res, code, j) \<Rightarrow>
          if we_stop env (wb_clock w) \<or> res \<noteq> CURLE_OK \<or> code \<noteq> 200 then ([], tick w)
          else (case j of None \<Rightarrow> ([], tick w)
            | Some j \<Rightarrow>
                (case format_top_results env ''description'' 0
                    (j_array (Option.bind (j_field j ''web'') (\<lambda>r. j_field r ''results'')))
                    (''Search Results for: '' @ query @ '' [via Brave API]'' @ [ch_nl, ch_nl]) (tick w) of
                   (None, w) \<Rightarrow> ([], w)
                 | (Some (n, text), w) \<Rightarrow> (if n = 0 then [] else text, w))))"

subsection \<open>The tool web\_search\<close>

definition SEARCH_DISABLED :: string where
  "SEARCH_DISABLED = ''System Error: Web search is disabled for this session - SearXNG is unavailable'' @
     '' and the Brave API fallback failed or is not configured. '' @
     ''Set LIM_BRAVE_API_KEY (Brave Search API key) to enable the fallback, '' @
     ''or install SearXNG and restart lim to re-enable web search.''"

text \<open>The fallback; when it fails, the error and whether searching is switched off.\<close>

definition or_brave :: "web_env \<Rightarrow> string \<Rightarrow> bool \<Rightarrow> string \<Rightarrow> web \<Rightarrow> string \<times> web" where
  "or_brave env query switch_off err w =
     (let (brave, w) = brave_api_search env query w
      in if brave \<noteq> [] then (brave, w) else (err, if switch_off then w\<lparr>wb_disabled := True\<rparr> else w))"

definition no_results :: "web_env \<Rightarrow> string \<Rightarrow> web \<Rightarrow> string \<times> web" where
  "no_results env query w =
     (let (brave, w) = brave_api_search env query w
      in if brave \<noteq> [] then (brave, w)
         else let w = w\<lparr>wb_empty := wb_empty w + 1\<rparr>
           in if wb_empty w \<ge> 3
              then (''System Error: Multiple empty searches. Search disabled to prevent loop.'', w\<lparr>wb_disabled := True\<rparr>)
              else (''No results found for query: '' @ query, w))"

definition searx_results :: "web_env \<Rightarrow> string \<Rightarrow> string \<Rightarrow> json option \<Rightarrow> web \<Rightarrow> string \<times> web" where
  "searx_results env query body j w =
     (case j of None \<Rightarrow> (''Error: Failed to parse JSON. '' @ we_json_error env (wb_clock w) @ [ch_nl] @ ''Raw: '' @ body, w)
      | Some j \<Rightarrow>
          (case format_top_results env ''content'' 0 (j_array (j_field j ''results''))
              (''Search Results for: '' @ query @ [ch_nl, ch_nl]) w of
             (None, w) \<Rightarrow> (''Error: Failed to parse JSON. '' @ we_json_error env (wb_clock w) @ [ch_nl] @ ''Raw: '' @ body, w)
           | (Some (n, text), w) \<Rightarrow>
               if n = 0 then no_results env query w
               else (text, w\<lparr>wb_empty := 0, wb_cache := (wb_cache w)(we_hash env query \<mapsto> text)\<rparr>)))"

definition web_search :: "web_env \<Rightarrow> string \<Rightarrow> web \<Rightarrow> string \<times> web" where
  "web_search env query w =
     (if wb_disabled w then (SEARCH_DISABLED, w)
      else case wb_cache w (we_hash env query) of Some cached \<Rightarrow> (cached, w)
      | None \<Rightarrow>
          (case we_searx env (wb_clock w) query of
             None \<Rightarrow> or_brave env query False ''Error: Could not initialize libcurl.'' (tick w)
           | Some (res, code, body, j) \<Rightarrow>
               (let stopped = we_stop env (wb_clock w); w = tick w in
                if stopped then (''Error: Search interrupted by user.'', w\<lparr>wb_disabled := True\<rparr>)
                else if res \<noteq> CURLE_OK then
                  or_brave env query True (''Error: SearxNG connection failed. ('' @ we_strerror env res @ '')'') w
                else if code = 429 then
                  or_brave env query True ''Error: SearxNG rate limit exceeded (HTTP 429).'' w
                else if code \<noteq> 200 then
                  or_brave env query False (''Error: SearxNG returned HTTP '' @ int_string code @ ''.'' @ [ch_nl] @
                    ''Raw Response: '' @ body) w
                else if body = [] then
                  or_brave env query False ''Error: Received empty response from search engine.'' w
                else searx_results env query body j w)))"

definition reset_search :: "web \<Rightarrow> web" where
  "reset_search w = w\<lparr>wb_disabled := False, wb_empty := 0\<rparr>"

definition reset_context_usage :: "web \<Rightarrow> web" where
  "reset_context_usage w = w\<lparr>wb_used := 0\<rparr>"

subsection \<open>What every operation keeps\<close>

text \<open>The calls of a session.\<close>

datatype web_call = Search string | Fetch "string list" | Reset_Search | Reset_Usage

fun web_step :: "web_env \<Rightarrow> web_call \<Rightarrow> web \<Rightarrow> web" where
  "web_step env (Search q) w = snd (web_search env q w)"
| "web_step env (Fetch urls) w = snd (fetch_urls env urls w)"
| "web_step env Reset_Search w = reset_search w"
| "web_step env Reset_Usage w = reset_context_usage w"

text \<open>A start of the program: the cached searches are those of the files under \<open>searchCache\<close>.\<close>

definition web_init :: "(nat \<rightharpoonup> string) \<Rightarrow> web" where
  "web_init files = \<lparr>wb_used = 0, wb_clock = 0, wb_disabled = False, wb_empty = 0, wb_cache = files\<rparr>"

text \<open>The texts that stand for a page that was not loaded, and the pages a call hands over.\<close>

definition page_notice :: "string \<Rightarrow> bool" where
  "page_notice t \<longleftrightarrow> t = [] \<or> t = BUDGET_FULL
     \<or> list_ex (\<lambda>p. prefix p t) [''[Failed to fetch'', ''[Binary file skipped]'', ''[Skipped non-text content'',
         ''[Fetch interrupted by user]'', ''[PDF fetch interrupted by user]'', ''[PDF conversion interrupted by user]'',
         ''[Curl Init Failed]'', ''[Docling Error '', ''[Docling JSON Parse Error]'',
         ''[This page appears to be JavaScript-rendered'', ''[No body content extracted.'', ''[No content extracted from page]'']"

definition page_chars :: "string \<Rightarrow> nat" where
  "page_chars t = (if page_notice t then 0 else length t)"

definition handed :: "url_result list \<Rightarrow> nat" where
  "handed rs = sum_list (map (\<lambda>r. page_chars (ur_content r) + page_chars (ur_error r)) rs)"

fun fetched :: "web_env \<Rightarrow> web_call list \<Rightarrow> web \<Rightarrow> url_result list" where
  "fetched env [] w = []"
| "fetched env (c # cs) w =
     (case c of Fetch urls \<Rightarrow> fst (fetch_urls env urls w) | _ \<Rightarrow> []) @ fetched env cs (web_step env c w)"

definition within_budget :: "web_env \<Rightarrow> web \<Rightarrow> bool" where
  "within_budget env w \<longleftrightarrow> wb_used w \<le> we_session_max env + length OMITTED"

definition search_ok :: "web \<Rightarrow> bool" where
  "search_ok w \<longleftrightarrow> (wb_empty w < 3 \<or> wb_disabled w) \<and> (\<forall>k t. wb_cache w k = Some t \<longrightarrow> prefix ''Search Results for: '' t)"

text \<open>Fetching touches nothing but the budget and the clock.\<close>

definition fetch_keeps :: "web_env \<Rightarrow> web \<Rightarrow> web \<Rightarrow> bool" where
  "fetch_keeps env w w' \<longleftrightarrow> (within_budget env w \<longrightarrow> within_budget env w') \<and> wb_disabled w' = wb_disabled w
     \<and> wb_empty w' = wb_empty w \<and> wb_cache w' = wb_cache w \<and> wb_used w \<le> wb_used w'"

lemma fetch_keeps_refl [simp]: "fetch_keeps env w w" "fetch_keeps env w (w\<lparr>wb_clock := n\<rparr>)"
  by (simp_all add: fetch_keeps_def within_budget_def)

lemma fetch_keeps_trans: "fetch_keeps env a b \<Longrightarrow> fetch_keeps env b c \<Longrightarrow> fetch_keeps env a c"
  by (auto simp: fetch_keeps_def)

lemma fetch_keeps_tick: "fetch_keeps env (tick w) c \<Longrightarrow> fetch_keeps env w c"
  using fetch_keeps_trans fetch_keeps_refl by blast

lemma limit_keeps: "fetch_keeps env w (snd (limit_web env t w))"
proof -
  obtain r u where l: "limit_context_size (we_session_max env) (we_file_max env) t (wb_used w) = (r, u)" by fastforce
  show ?thesis by (rule limit_cases [OF l]) (auto simp: limit_web_def l fetch_keeps_def within_budget_def)
qed

lemma buffer_keeps: "fetch_keeps env w (snd (curl_fetch_buffer env url w))"
  by (simp add: curl_fetch_buffer_def)

lemma pdf_keeps: "fetch_keeps env w (snd (process_pdf_with_docling env pdf w))"
proof -
  have "fetch_keeps env w (snd (limit_web env t (tick w)))" for t by (rule fetch_keeps_tick [OF limit_keeps])
  then show ?thesis by (simp add: process_pdf_with_docling_def split: option.splits prod.splits)
qed

lemma github_keeps: "fetch_keeps env w (snd (github_api_fetch env url w))"
  by (simp add: github_api_fetch_def split: option.splits prod.splits)

lemma html_keeps: "fetch_keeps env w (snd (html_result env url buf w))"
  using limit_keeps by (auto simp: html_result_def Let_def split: prod.splits)

lemma page_keeps: "fetch_keeps env w (snd (fetch_and_clean_html env url w))"
proof -
  obtain api w1 where a: "(if contains url ''github.com/'' then github_api_fetch env url w else ([], w)) = (api, w1)"
    by fastforce
  then have k1: "fetch_keeps env w w1" using github_keeps [of env w url] by (auto split: if_splits)
  obtain res code st w2 where b: "curl_fetch_buffer env url w1 = ((res, code, st), w2)" by (metis surj_pair)
  then have k2: "fetch_keeps env w w2" using buffer_keeps [of env w1 url] k1 fetch_keeps_trans by auto
  note k = k1 k2 fetch_keeps_trans [OF k1 limit_keeps] fetch_keeps_trans [OF k2 pdf_keeps] fetch_keeps_trans [OF k2 html_keeps]
  show ?thesis using k unfolding fetch_and_clean_html_def a Let_def b prod.case by (auto simp: b)
qed

lemma url_keeps: "fetch_keeps env w (snd (pdf_result env url w))" "fetch_keeps env w (snd (page_result env url w))"
proof -
  obtain res code st w1 where b: "curl_fetch_buffer env url w = ((res, code, st), w1)" by (metis surj_pair)
  then have k1: "fetch_keeps env w w1" using buffer_keeps [of env w url] by simp
  obtain pdf w2 where p: "process_pdf_with_docling env (ft_buffer st) w1 = (pdf, w2)" by fastforce
  then have k2: "fetch_keeps env w w2" using pdf_keeps [of env w1 "ft_buffer st"] k1 fetch_keeps_trans by auto
  obtain c w3 where l: "limit_web env pdf w2 = (c, w3)" by fastforce
  then have k3: "fetch_keeps env w w3" using limit_keeps [of env w2 pdf] k2 fetch_keeps_trans by auto
  show "fetch_keeps env w (snd (pdf_result env url w))"
    using k1 k2 k3 by (simp add: pdf_result_def b p l Let_def)
  show "fetch_keeps env w (snd (page_result env url w))"
    using page_keeps [of env w url] by (auto simp: page_result_def Let_def split: prod.splits)
qed

lemma fetch_urls_keeps: "fetch_keeps env w (snd (fetch_urls env urls w))"
proof (induction urls arbitrary: w)
  case (Cons url urls)
  obtain r w1 where r: "(if url_ext url = ''.pdf'' then pdf_result env url w else page_result env url w) = (r, w1)" by fastforce
  then have "fetch_keeps env w w1" using url_keeps [of env w url] by (auto split: if_splits)
  with Cons.IH [of w1] show ?case using fetch_keeps_trans by (auto simp: r Let_def split: prod.splits)
qed simp

text \<open>What is handed over is charged.\<close>

definition charged :: "web \<Rightarrow> string \<times> web \<Rightarrow> bool" where
  "charged w res \<longleftrightarrow> wb_used w + page_chars (fst res) \<le> wb_used (snd res)"

lemma page_chars_nil [simp]: "page_chars [] = 0" by (simp add: page_chars_def page_notice_def)

lemma handed_simps [simp]: "handed [] = 0" "handed (rs @ rs') = handed rs + handed rs'"
    "handed (r # rs) = page_chars (ur_content r) + page_chars (ur_error r) + handed rs"
  by (simp_all add: handed_def)

lemma charged_notice: "page_notice t \<Longrightarrow> wb_used w \<le> wb_used w' \<Longrightarrow> charged w (t, w')"
  by (simp add: charged_def page_chars_def)

lemma limit_charged: "charged w (limit_web env t w)"
proof -
  obtain r u where l: "limit_context_size (we_session_max env) (we_file_max env) t (wb_used w) = (r, u)" by fastforce
  show ?thesis
    by (rule limit_cases [OF l]) (simp_all add: limit_web_def l charged_def page_chars_def page_notice_def)
qed

lemma charged_mono: "charged w' res \<Longrightarrow> wb_used w \<le> wb_used w' \<Longrightarrow> charged w res"
  by (simp add: charged_def)

lemma pdf_charged: "charged w (process_pdf_with_docling env pdf w)"
proof -
  have l: "charged w (limit_web env t (tick w))" for t by (rule charged_mono [OF limit_charged]) simp
  have n: "page_notice ''[Curl Init Failed]''" "page_notice ''[PDF conversion interrupted by user]''"
    "page_notice ''[Docling JSON Parse Error]''" "page_notice (''[Docling Error '' @ c)" for c
    by (simp_all add: page_notice_def)
  show ?thesis by (auto simp: process_pdf_with_docling_def l charged_notice [OF n(1)] charged_notice [OF n(2)]
      charged_notice [OF n(3)] charged_notice [OF n(4), simplified] split: option.splits)
qed

lemma html_charged: "charged w (html_result env url buf w)"
proof -
  obtain title desc where h: "page_head (we_tree env buf) = (title, desc)" by fastforce
  have n: "page_notice (spa_diag url title desc)" "page_notice (''[No body content extracted. Page title: '' @ t @ '']'')"
    "page_notice ''[No content extracted from page]''" for t
    by (simp_all add: page_notice_def spa_diag_def)
  show ?thesis unfolding html_result_def h Let_def prod.case
    using charged_notice [OF n(1), of w w] charged_notice [OF n(2), of w w] charged_notice [OF n(3), of w w] limit_charged by simp
qed

lemma page_charged: "charged w (fetch_and_clean_html env url w)"
proof -
  obtain api w1 where a: "(if contains url ''github.com/'' then github_api_fetch env url w else ([], w)) = (api, w1)"
    by fastforce
  then have k1: "fetch_keeps env w w1" using github_keeps [of env w url] by (auto split: if_splits)
  obtain res code st w2 where b: "curl_fetch_buffer env url w1 = ((res, code, st), w2)" by (metis surj_pair)
  then have k2: "fetch_keeps env w w2" using buffer_keeps [of env w1 url] k1 fetch_keeps_trans by auto
  have u: "wb_used w \<le> wb_used w1" "wb_used w \<le> wb_used w2" using k1 k2 by (simp_all add: fetch_keeps_def)
  note c = charged_mono [OF limit_charged u(1)] charged_mono [OF pdf_charged u(2)] charged_mono [OF html_charged u(2)]
  have n: "page_notice ''[Binary file skipped]''" "page_notice ''[Fetch interrupted by user]''"
    "page_notice (''[Failed to fetch page content: '' @ e)"
    "page_notice ''[Skipped non-text content early to save bandwidth.]''"
    "page_notice ''[Failed to fetch page content - empty response]''" for e
    by (simp_all add: page_notice_def)
  note N = charged_notice [OF n(1) le_refl, of w] charged_notice [OF n(2) u(2)] charged_notice [OF n(3) u(2)]
    charged_notice [OF n(4) u(2)] charged_notice [OF n(5) u(2)]
  show ?thesis unfolding fetch_and_clean_html_def a Let_def b prod.case
    using c N(1,2,4,5) N(3) [of "we_strerror env res @ '']''"] N(3) [of "''HTTP '' @ int_string code @ '']''"] by simp
qed

lemma url_charged:
  "pdf_result env url w = (r, w') \<Longrightarrow> wb_used w + handed [r] \<le> wb_used w'"
  "page_result env url w = (r, w') \<Longrightarrow> wb_used w + handed [r] \<le> wb_used w'"
proof -
  show "wb_used w + handed [r] \<le> wb_used w'" if R: "page_result env url w = (r, w')"
    using page_charged [of w env url] R
    by (auto simp: page_result_def Let_def charged_def split: prod.splits if_splits)
  show "wb_used w + handed [r] \<le> wb_used w'" if R: "pdf_result env url w = (r, w')"
  proof -
    obtain res code st w1 where b: "curl_fetch_buffer env url w = ((res, code, st), w1)" by (metis surj_pair)
    then have u1: "wb_used w \<le> wb_used w1" using buffer_keeps [of env w url] by (simp add: fetch_keeps_def)
    obtain pdf w2 where p: "process_pdf_with_docling env (ft_buffer st) w1 = (pdf, w2)" by fastforce
    have c2: "charged w1 (pdf, w2)" using pdf_charged [of w1 env "ft_buffer st"] p by simp
    obtain c w3 where l: "limit_web env pdf w2 = (c, w3)" by fastforce
    have c3: "charged w2 (c, w3)" using limit_charged [of w2 env pdf] l by simp
    have n: "page_notice ''[PDF fetch interrupted by user]''" "page_notice ''[Curl Init Failed]''"
      "page_notice (''[Failed to fetch PDF: '' @ e)" for e by (simp_all add: page_notice_def)
    have z: "page_chars ''[PDF fetch interrupted by user]'' = 0" "page_chars ''[Curl Init Failed]'' = 0"
      "page_chars (''[Failed to fetch PDF: '' @ e) = 0" for e using n by (simp_all add: page_chars_def)
    show ?thesis using R u1 c2 c3 z(1,2) z(3) [of "''file too large (exceeds '' @ nat_string (we_pdf_max env) @ '' bytes)]''"]
      z(3) [of "''curl error '' @ nat_string res @ '']''"] z(3) [of "''HTTP '' @ int_string code @ '']''"]
      z(3) [of "''content not recognized as PDF]''"]
      unfolding pdf_result_def b p l Let_def prod.case charged_def
      by (auto split: if_splits)
  qed
qed

lemma fetch_charged: "wb_used w + handed (fst (fetch_urls env urls w)) \<le> wb_used (snd (fetch_urls env urls w))"
proof (induction urls arbitrary: w)
  case (Cons url urls)
  obtain r w1 where r: "(if url_ext url = ''.pdf'' then pdf_result env url w else page_result env url w) = (r, w1)" by fastforce
  then have "wb_used w + handed [r] \<le> wb_used w1" using url_charged by (metis (full_types))
  with Cons.IH [of w1] show ?case by (auto simp: r Let_def split: prod.splits)
qed simp

lemma format_keeps:
  "format_top_results env key n js acc w = (r, w') \<Longrightarrow>
   fetch_keeps env w w' \<and> (\<forall>m t. r = Some (m, t) \<longrightarrow> prefix acc t)"
proof (induction env key n js acc w arbitrary: r w' rule: format_top_results.induct)
  case (2 env key n j js acc w)
  show ?case
  proof (cases "n \<ge> 3")
    case True
    then show ?thesis using "2.prems" by auto
  next
    case False
    show ?thesis
    proof (cases "top_result j key")
      case None
      then show ?thesis using "2.prems" False by auto
    next
      case (Some v)
      obtain title url snippet where v: "v = (title, url, snippet)" by (metis surj_pair)
      define acc1 where "acc1 = acc @ (if title \<noteq> [] then ''Title: '' @ title @ [ch_nl] else [])
        @ (if url \<noteq> [] then ''URL: '' @ url @ [ch_nl] else [])"
      obtain acc2 w2 where a: "(if url \<noteq> [] then
          (let (full, w) = fetch_and_clean_html env url w in (acc1 @ result_body full snippet, w)) else (acc1, w)) = (acc2, w2)"
        by fastforce
      have pre: "prefix acc acc2" using a unfolding acc1_def by (auto simp: Let_def split: if_splits prod.splits)
      have k: "fetch_keeps env w w2" using a page_keeps [of env w url] by (auto simp: Let_def split: if_splits prod.splits)
      have "format_top_results env key (n + 1) js acc2 w2 = (r, w')"
        using "2.prems" False by (simp add: Some v acc1_def [symmetric] a)
      then have "fetch_keeps env w2 w'" "\<forall>m t. r = Some (m, t) \<longrightarrow> prefix acc2 t"
        using "2.IH" [OF False Some v [symmetric] refl acc1_def a [symmetric] refl] by auto
      moreover from this(2) have "\<forall>m t. r = Some (m, t) \<longrightarrow> prefix acc t" using prefix_order.trans [OF pre] by blast
      ultimately show ?thesis using fetch_keeps_trans [OF k] by blast
    qed
  qed
qed simp

lemma brave_keeps: "fetch_keeps env w (snd (brave_api_search env q w))"
proof -
  have "fetch_keeps env w w'" if "format_top_results env ''description'' 0 js acc (tick w) = (r, w')" for js acc r w'
    using format_keeps [OF that] fetch_keeps_tick by blast
  then show ?thesis by (auto simp: brave_api_search_def split: option.splits prod.splits if_splits)
qed

subsection \<open>The state of searching\<close>

definition keeps_ok :: "web_env \<Rightarrow> web \<Rightarrow> web \<Rightarrow> bool" where
  "keeps_ok env w w' \<longleftrightarrow> (within_budget env w \<longrightarrow> within_budget env w') \<and> (search_ok w \<longrightarrow> search_ok w')
     \<and> wb_used w \<le> wb_used w'"

lemma fetch_ok_keeps: "fetch_keeps env w w' \<Longrightarrow> keeps_ok env w w'"
  by (simp add: fetch_keeps_def keeps_ok_def search_ok_def)

lemma keeps_trans: "fetch_keeps env a b \<Longrightarrow> keeps_ok env b c \<Longrightarrow> keeps_ok env a c"
  using fetch_ok_keeps [of env a b] by (auto simp: keeps_ok_def intro: order_trans)

lemma disable_keeps: "keeps_ok env w (w\<lparr>wb_disabled := True\<rparr>)"
  by (simp add: keeps_ok_def within_budget_def search_ok_def)

lemma or_brave_keeps: "keeps_ok env w (snd (or_brave env q b e w))"
proof -
  obtain t w1 where a: "brave_api_search env q w = (t, w1)" by fastforce
  then have "fetch_keeps env w w1" using brave_keeps [of env w q] by simp
  then show ?thesis using fetch_ok_keeps keeps_trans disable_keeps by (simp add: or_brave_def a)
qed

lemma no_results_keeps: "keeps_ok env w (snd (no_results env q w))"
proof -
  obtain t w1 where a: "brave_api_search env q w = (t, w1)" by fastforce
  then have k: "fetch_keeps env w w1" using brave_keeps [of env w q] by simp
  have "keeps_ok env w1 (snd (no_results env q w))" if "t = []"
    using that by (auto simp: no_results_def a Let_def keeps_ok_def within_budget_def search_ok_def)
  then show ?thesis using k fetch_ok_keeps keeps_trans by (cases "t = []") (auto simp: no_results_def a)
qed

lemma searx_keeps: "keeps_ok env w (snd (searx_results env q body j w))"
proof (cases j)
  case None
  then show ?thesis by (simp add: searx_results_def fetch_ok_keeps)
next
  case (Some j')
  obtain r w1 where f: "format_top_results env ''content'' 0 (j_array (j_field j' ''results''))
      (''Search Results for: '' @ q @ [ch_nl, ch_nl]) w = (r, w1)" by fastforce
  have k: "fetch_keeps env w w1" and p: "r = Some (m, t) \<Longrightarrow> prefix (''Search Results for: '' @ q @ [ch_nl, ch_nl]) t" for m t
    using format_keeps [OF f] by simp_all
  show ?thesis
  proof (cases r)
    case None
    then show ?thesis using k fetch_ok_keeps unfolding searx_results_def Some option.case f prod.case by simp
  next
    case r: (Some nt)
    obtain n t where nt: "nt = (n, t)" by fastforce
    have "prefix ''Search Results for: '' t" using p [of n t] r nt append_prefixD by blast
    then have "keeps_ok env w1 (w1\<lparr>wb_empty := 0, wb_cache := (wb_cache w1)(we_hash env q \<mapsto> t)\<rparr>)"
      by (auto simp: keeps_ok_def within_budget_def search_ok_def)
    then show ?thesis using keeps_trans [OF k] no_results_keeps
      unfolding searx_results_def Some option.case f prod.case r nt by simp
  qed
qed

lemma search_keeps: "keeps_ok env w (snd (web_search env q w))"
proof -
  have t: "keeps_ok env w w'" if "keeps_ok env (tick w) w'" for w' using keeps_trans [OF fetch_keeps_refl(2) that] .
  note K = t [OF or_brave_keeps] t [OF searx_keeps] t [OF disable_keeps] fetch_ok_keeps [OF fetch_keeps_refl(1)]
  show ?thesis by (simp add: web_search_def K Let_def split: option.splits prod.splits)
qed

lemma step_keeps: "c \<noteq> Reset_Usage \<Longrightarrow> keeps_ok env w (web_step env c w)"
proof (cases c)
  case (Search q)
  then show ?thesis using search_keeps by simp
next
  case (Fetch urls)
  then show ?thesis using fetch_ok_keeps [OF fetch_urls_keeps] by simp
qed (auto simp: reset_search_def keeps_ok_def within_budget_def search_ok_def)

lemma step_invariant:
  "within_budget env w \<and> search_ok w \<Longrightarrow> within_budget env (web_step env c w) \<and> search_ok (web_step env c w)"
  using step_keeps [of c env w]
  by (cases "c = Reset_Usage") (simp_all add: keeps_ok_def reset_context_usage_def within_budget_def search_ok_def)

lemma run_charged:
  "Reset_Usage \<notin> set cs \<Longrightarrow> wb_used w + handed (fetched env cs w) \<le> wb_used (fold (web_step env) cs w)"
proof (induction cs arbitrary: w)
  case (Cons c cs)
  then have c: "c \<noteq> Reset_Usage" "Reset_Usage \<notin> set cs" by auto
  have "wb_used w + handed (case c of Fetch urls \<Rightarrow> fst (fetch_urls env urls w) | _ \<Rightarrow> []) \<le> wb_used (web_step env c w)"
    using fetch_charged step_keeps [OF c(1), of env w] by (cases c) (simp_all add: keeps_ok_def)
  with Cons.IH [OF c(2), of "web_step env c w"] show ?case by simp
qed simp

text \<open>C32: From a start whose cached searches are results, over any sequence of searches, fetches and resets: the charge
  stays within the session's budget and one omission mark; every character of a page that the fetches hand over
  after it, until the next reset of the charge, is charged, so that together they stay within that bound; three
  searches without result in a row switch searching off; and only results, never errors, are in the cache.
  The notices that stand for a page (they may quote its title and description), and what a search adds of its own
  to the pages it loads, titles, addresses and snippets, are not charged.\<close>

theorem web_invariant:
  fixes env :: web_env and before after :: "web_call list"
  assumes "\<forall>k t. files k = Some t \<longrightarrow> prefix ''Search Results for: '' t" "Reset_Usage \<notin> set after"
  defines "w \<equiv> fold (web_step env) before (web_init files)"
  shows "within_budget env w \<and> search_ok w
    \<and> wb_used w + handed (fetched env after w) \<le> we_session_max env + length OMITTED"
proof -
  have inv: "within_budget env w \<and> search_ok w \<Longrightarrow>
      within_budget env (fold (web_step env) cs w) \<and> search_ok (fold (web_step env) cs w)" for w cs
    using step_invariant by (induction cs arbitrary: w) auto
  moreover have "within_budget env (web_init files) \<and> search_ok (web_init files)"
    using assms(1) by (simp add: web_init_def within_budget_def search_ok_def)
  ultimately have w: "within_budget env w \<and> search_ok w" unfolding w_def by blast
  moreover have "wb_used (fold (web_step env) after w) \<le> we_session_max env + length OMITTED"
    using inv [OF w, of after] by (simp add: within_budget_def)
  ultimately show ?thesis using run_charged [OF assms(2), of w env] by simp
qed

text \<open>Once switched off, searching stays off until it is reset, whatever is searched and fetched: every search gives
  the same message and reaches neither the network nor the cache.\<close>

theorem search_stays_off:
  assumes "wb_disabled w" "Reset_Search \<notin> set cs"
  shows "wb_disabled (fold (web_step env) cs w)
    \<and> web_search env q (fold (web_step env) cs w) = (SEARCH_DISABLED, fold (web_step env) cs w)"
proof -
  have "wb_disabled (web_step env c w)" if "wb_disabled w" "c \<noteq> Reset_Search" for c w
    using that fetch_urls_keeps by (cases c) (auto simp: web_search_def reset_context_usage_def fetch_keeps_def)
  then have "wb_disabled (fold (web_step env) cs w)" using assms by (induction cs arbitrary: w) auto
  then show ?thesis by (simp add: web_search_def)
qed

definition sample_web :: web_env where
  "sample_web = \<lparr>we_session_max = 100000, we_file_max = 25000, we_html_max = 50, we_pdf_max = 50,
     we_curl = (\<lambda>_ _. Some (0, 200, [Header_Line (''Content-Type: application/pdf'' @ [ch_nl]), Body_Chunk ''%PDF-1''])),
     we_stop = (\<lambda>_. False), we_strerror = (\<lambda>_. []), we_docling = (\<lambda>_ _. Some (200, Some ''Hello'')),
     we_tree = (\<lambda>_. None), we_github = (\<lambda>_ _. None), we_comments = (\<lambda>_ _. None), we_searx = (\<lambda>_ _. None),
     we_brave_key = [], we_brave = (\<lambda>_ _. None), we_hash = length, we_json_error = (\<lambda>_. [])\<rparr>"

definition switched_off :: web where "switched_off = (web_init Map.empty)\<lparr>wb_disabled := True\<rparr>"

lemma search_stays_off_witness:
  "wb_disabled switched_off \<and> Reset_Search \<notin> set [Fetch [''a.pdf''], Search ''x'']
   \<and> web_search sample_web ''q'' (fold (web_step sample_web) [Fetch [''a.pdf''], Search ''x''] switched_off) =
       (SEARCH_DISABLED, fold (web_step sample_web) [Fetch [''a.pdf''], Search ''x''] switched_off)"
proof (intro conjI)
  show h: "wb_disabled switched_off" "Reset_Search \<notin> set [Fetch [''a.pdf''], Search ''x'']"
    by (simp_all add: switched_off_def)
  show "web_search sample_web ''q'' (fold (web_step sample_web) [Fetch [''a.pdf''], Search ''x''] switched_off) =
      (SEARCH_DISABLED, fold (web_step sample_web) [Fetch [''a.pdf''], Search ''x''] switched_off)"
    using search_stays_off [OF h] by (rule conjunct2)
qed

subsection \<open>The result of fetch\_urls\<close>

lemma limit_whole:
  assumes "image_free t" "length t \<le> we_file_max env" "wb_used w + length t + 5000 \<le> we_session_max env"
  shows "limit_web env t w = (t, w\<lparr>wb_used := wb_used w + length t\<rparr>)"
proof -
  have "strip_base64_images t = t" using strip_of_clean [OF assms(1)] by (simp add: strip_base64_images_def)
  moreover have "wb_used w < we_session_max env" "\<not> we_session_max env - wb_used w < 5000"
    "length t \<le> we_session_max env - wb_used w" using assms(3) by simp_all
  ultimately show ?thesis using assms(2) by (simp add: limit_web_def limit_context_size_def)
qed

text \<open>Every address gets one result, in order, with a text or an error but not both.\<close>

theorem fetch_urls_results:
  "map ur_path (fst (fetch_urls env urls w)) = urls
   \<and> list_all (\<lambda>r. ur_content r = [] \<or> ur_error r = []) (fst (fetch_urls env urls w))"
proof (induction urls arbitrary: w)
  case (Cons url urls)
  obtain r w1 where r: "(if url_ext url = ''.pdf'' then pdf_result env url w else page_result env url w) = (r, w1)" by fastforce
  have "ur_path r = url \<and> (ur_content r = [] \<or> ur_error r = [])"
    using r by (auto simp: pdf_result_def page_result_def Let_def split: if_splits prod.splits)
  then show ?case using Cons [of w1] by (auto simp: r Let_def split: prod.splits)
qed simp

text \<open>The text of a PDF is charged twice: the conversion takes it from the budget, and the tool takes it again.\<close>

theorem pdf_charged_twice:
  assumes "url_ext url = ''.pdf''" "we_curl env (wb_clock w) url = Some (CURLE_OK, code, evs)" "code < 400"
    "st = transfer (we_html_max env) (we_pdf_max env) evs" "is_pdf_by_magic (ft_buffer st)" "\<not> ft_exceeded st"
    "\<not> we_stop env (wb_clock w)" "\<not> we_stop env (Suc (wb_clock w))"
    "we_docling env (Suc (wb_clock w)) (base64_encode (ft_buffer st)) = Some (200, Some t)"
    "image_free t" "length t \<le> we_file_max env" "wb_used w + 2 * length t + 5000 \<le> we_session_max env"
    "\<not> contains t ''[Docling Error''" "\<not> contains t ''[Failed to''"
  shows "fetch_urls env [url] w = ([\<lparr>ur_path = url, ur_content = t, ur_error = []\<rparr>],
    w\<lparr>wb_used := wb_used w + 2 * length t, wb_clock := wb_clock w + 2\<rparr>)"
proof -
  have b: "curl_fetch_buffer env url w = ((CURLE_OK, code, st), tick w)"
    using assms(2,4) by (simp add: curl_fetch_buffer_def)
  let ?w = "w\<lparr>wb_clock := Suc (Suc (wb_clock w))\<rparr>"
  have p: "process_pdf_with_docling env (ft_buffer st) (tick w) = (t, ?w\<lparr>wb_used := wb_used w + length t\<rparr>)"
    using assms limit_whole [of t env ?w] by (simp add: process_pdf_with_docling_def)
  have l: "limit_web env t (?w\<lparr>wb_used := wb_used w + length t\<rparr>) = (t, ?w\<lparr>wb_used := wb_used w + 2 * length t\<rparr>)"
    using assms limit_whole [of t env "?w\<lparr>wb_used := wb_used w + length t\<rparr>"] by simp
  have "pdf_result env url w = (\<lparr>ur_path = url, ur_content = t, ur_error = []\<rparr>, ?w\<lparr>wb_used := wb_used w + 2 * length t\<rparr>)"
    using assms(3,5-7,13,14) by (simp add: pdf_result_def b p l Let_def CURLE_OK_def CURLE_FAILED_INIT_def)
  then show ?thesis using assms(1) by simp
qed

lemma pdf_charged_twice_witness:
  "fetch_urls sample_web [''x.pdf''] (web_init Map.empty) =
    ([\<lparr>ur_path = ''x.pdf'', ur_content = ''Hello'', ur_error = []\<rparr>], (web_init Map.empty)\<lparr>wb_used := 10, wb_clock := 2\<rparr>)"
proof -
  define st where "st = transfer 50 50
    [Header_Line (''Content-Type: application/pdf'' @ [ch_nl]), Body_Chunk ''%PDF-1'']"
  have t: "st = \<lparr>ft_buffer = ''%PDF-1'', ft_is_text = False, ft_is_pdf = True, ft_exceeded = False\<rparr>"
    unfolding st_def by code_simp
  have f: "image_free ''Hello''"
    using image_nth(1) by (auto simp: image_free_def dest!: prefix_length_le)
  have u: "url_ext ''x.pdf'' = ''.pdf''" "\<not> contains ''Hello'' ''[Docling Error''" "\<not> contains ''Hello'' ''[Failed to''"
    by code_simp+
  let ?evs = "[Header_Line (''Content-Type: application/pdf'' @ [ch_nl]), Body_Chunk ''%PDF-1'']"
  have c: "we_curl sample_web (wb_clock (web_init Map.empty)) ''x.pdf'' = Some (CURLE_OK, 200, ?evs)"
    by (simp add: sample_web_def CURLE_OK_def)
  have s: "st = transfer (we_html_max sample_web) (we_pdf_max sample_web) ?evs"
    unfolding st_def by (simp add: sample_web_def)
  have m: "is_pdf_by_magic (ft_buffer st)" "\<not> ft_exceeded st" unfolding t by (simp_all add: is_pdf_by_magic_def)
  have e: "\<not> we_stop sample_web n" "we_docling sample_web n b = Some (200, Some ''Hello'')" for n b
    by (simp_all add: sample_web_def)
  have l: "length ''Hello'' \<le> we_file_max sample_web"
    "wb_used (web_init Map.empty) + 2 * length ''Hello'' + 5000 \<le> we_session_max sample_web"
    by (simp_all add: sample_web_def web_init_def)
  have "(200::int) < 400" by simp
  from pdf_charged_twice [OF u(1) c this s m e(1) e(1) e(2) f l u(2,3)] show ?thesis
    by (simp add: web_init_def)
qed

lemma web_invariant_witness:
  "Reset_Usage \<notin> set [Fetch [''x.pdf'']] \<and> handed (fetched sample_web [Fetch [''x.pdf'']] (web_init Map.empty)) = 5
   \<and> wb_used (web_init Map.empty) + 5 \<le> 100000 + length OMITTED"
proof -
  have f: "fetched sample_web [Fetch [''x.pdf'']] (web_init Map.empty) = [\<lparr>ur_path = ''x.pdf'', ur_content = ''Hello'', ur_error = []\<rparr>]"
    using pdf_charged_twice_witness by simp
  have n: "\<not> page_notice ''Hello''" by (simp add: page_notice_def BUDGET_FULL_def)
  have h: "handed (fetched sample_web [Fetch [''x.pdf'']] (web_init Map.empty)) = 5"
    unfolding f by (simp add: page_chars_def n)
  have r: "Reset_Usage \<notin> set [Fetch [''x.pdf'']]" by simp
  have "wb_used (web_init Map.empty) + handed (fetched sample_web [Fetch [''x.pdf'']] (web_init Map.empty))
      \<le> we_session_max sample_web + length OMITTED"
    using web_invariant [of Map.empty "[Fetch [''x.pdf'']]" sample_web "[]"] by simp
  then show ?thesis using h r by (simp add: sample_web_def)
qed

end
