(* ===== verification/Lim_Cores.thy ===== *)
theory Lim_Cores
  imports Lim_Numbers "HOL-Library.Signed_Division"
begin

section \<open>Core detection and pinning (taskset.h)\<close>

text \<open>
  Which processor cores the services are pinned to, from \<open>LIM_TASKSET\<close> or from the lines
  \<open>cpu:siblings\<close> that a shell prints of \<open>/sys\<close>. The shell and the environment are inputs. A mask of cores is
  shown to denote exactly the cores it was built from, and the number of physical cores is that of the
  machine when all its hyperthreaded cores have the same number of threads.
\<close>

subsection \<open>Topology\<close>

definition has_smt :: "string \<Rightarrow> bool" where
  "has_smt sib \<longleftrightarrow> str_find sib ''-'' 0 \<noteq> None \<or> str_find sib '','' 0 \<noteq> None"

definition sibling_count :: "string \<Rightarrow> int" where
  "sibling_count sib =
     (case str_find sib ''-'' 0 of
        Some dash \<Rightarrow>
          if str_find sib '','' 0 = None
          then to_int32 (atoi (drop (dash + 1) sib) - atoi (take dash sib) + 1)
          else 1 + int (length (filter (\<lambda>c. c = CHR '','') sib))
      | None \<Rightarrow> 1 + int (length (filter (\<lambda>c. c = CHR '','') sib)))"

definition trim_eol :: "string \<Rightarrow> string" where
  "trim_eol s = rev (dropWhile (\<lambda>c. c = ch_nl \<or> c = ch_cr) (rev s))"

text \<open>A line as \<open>fgets\<close> yields it.\<close>

definition topology_line :: "string \<Rightarrow> (int \<times> string) option" where
  "topology_line raw =
     (case str_find raw '':'' 0 of None \<Rightarrow> None
      | Some cp \<Rightarrow>
          (let cpu_str = take cp raw
           in if first_not_of cpu_str ''0123456789'' \<noteq> None then None
              else if atoi cpu_str < 0 then None
              else Some (atoi cpu_str, trim_eol (drop (cp + 1) raw))))"

definition read_topology :: "string list \<Rightarrow> (int \<times> string) list" where
  "read_topology lines = List.map_filter topology_line lines"

subsection \<open>Masks\<close>

definition mask_piece :: "int \<Rightarrow> int \<Rightarrow> string" where
  "mask_piece run prev =
     (if run = prev then int_string run
      else if prev = to_int32 (run + 1) then int_string run @ '','' @ int_string prev
      else int_string run @ ''-'' @ int_string prev)"

definition add_piece :: "string \<Rightarrow> int \<Rightarrow> int \<Rightarrow> string" where
  "add_piece m run prev = (if m \<noteq> [] then m @ '','' else m) @ mask_piece run prev"

text \<open>The loop over \<open>i = 1..size\<close>, the rest of the list and the run being collected.\<close>

fun mask_loop :: "string \<Rightarrow> int \<Rightarrow> int \<Rightarrow> int list \<Rightarrow> string" where
  "mask_loop m run prev [] = add_piece m run prev"
| "mask_loop m run prev (x # xs) =
     (if x \<noteq> to_int32 (prev + 1) then mask_loop (add_piece m run prev) x x xs else mask_loop m run x xs)"

fun to_mask :: "int list \<Rightarrow> string" where
  "to_mask [] = []"
| "to_mask (c # cs) = mask_loop [] c c cs"

definition trim_blanks :: "string \<Rightarrow> string" where
  "trim_blanks s = (case (first_not_of s [CHR '' '', ch_tab], last_not_of s [CHR '' '', ch_tab]) of
     (Some a, Some b) \<Rightarrow> take (b - a + 1) (drop a s) | _ \<Rightarrow> [])"

definition user_split :: "string \<Rightarrow> (string \<times> string) option" where
  "user_split spec =
     (case str_find spec '':'' 0 of None \<Rightarrow> None
      | Some first_colon \<Rightarrow>
          (let p_mask = take first_colon spec;
               second_colon = str_find spec '':'' (first_colon + 1);
               e_mask = (case second_colon of
                   Some c \<Rightarrow> if c + 1 < length spec then drop (c + 1) spec else []
                 | None \<Rightarrow> if first_colon + 1 < length spec then drop (first_colon + 1) spec else [])
           in Some (trim_blanks p_mask, trim_blanks e_mask)))"

definition p_cores :: "(int \<times> string) list \<Rightarrow> int list" where
  "p_cores topo = map fst (filter (\<lambda>(i, sib). has_smt sib) topo)"

definition e_cores :: "(int \<times> string) list \<Rightarrow> int list" where
  "e_cores topo = map fst (filter (\<lambda>(i, sib). \<not> has_smt sib) topo)"

text \<open>The masks of the performance and efficiency cores, or that there is no split.\<close>

definition get_core_split :: "string option \<Rightarrow> (int \<times> string) list \<Rightarrow> (string \<times> string) option" where
  "get_core_split env topo =
     (case env of
        Some (c # cs) \<Rightarrow> user_split (c # cs)
      | _ \<Rightarrow>
          if p_cores topo \<noteq> [] \<and> e_cores topo \<noteq> []
          then Some (to_mask (sort (p_cores topo)), to_mask (sort (e_cores topo)))
          else None)"

definition pinned :: "string \<Rightarrow> string \<Rightarrow> string" where
  "pinned cmd m = (if m \<noteq> [] then cmd @ '' '' @ m @ '' '' else [])"

definition p_core_taskset :: "string \<Rightarrow> string option \<Rightarrow> (int \<times> string) list \<Rightarrow> string" where
  "p_core_taskset cmd env topo =
     (if cmd = [] then [] else case get_core_split env topo of None \<Rightarrow> [] | Some (p, e) \<Rightarrow> pinned cmd p)"

definition e_core_taskset :: "string \<Rightarrow> string option \<Rightarrow> (int \<times> string) list \<Rightarrow> string" where
  "e_core_taskset cmd env topo =
     (if cmd = [] then [] else case get_core_split env topo of None \<Rightarrow> [] | Some (p, e) \<Rightarrow> pinned cmd e)"

text \<open>The pinning command: the variable or \<open>taskset -c\<close>, if the program is found.\<close>

definition pinning_prog :: "string option \<Rightarrow> string" where
  "pinning_prog env = (let cmd = (case env of Some c \<Rightarrow> c | None \<Rightarrow> ''taskset'')
     in case str_find cmd '' '' 0 of Some space \<Rightarrow> take space cmd | None \<Rightarrow> cmd)"

definition pinning_cmd :: "(string \<Rightarrow> bool) \<Rightarrow> string option \<Rightarrow> string" where
  "pinning_cmd which env =
     (if \<not> which (pinning_prog env) then [] else case env of Some c \<Rightarrow> c | None \<Rightarrow> ''taskset -c'')"

subsection \<open>Counting cores\<close>

text \<open>A division by zero traps: no result.\<close>

definition physical_core_count :: "int \<Rightarrow> (int \<times> string) list \<Rightarrow> int option" where
  "physical_core_count nproc topo =
     (let ht_logical = map (sibling_count \<circ> snd) (filter (\<lambda>(i, sib). has_smt sib) topo);
          non_ht = e_cores topo
      in if ht_logical = [] \<and> non_ht = [] then Some nproc
         else if ht_logical \<noteq> [] \<and> hd ht_logical = 0 then None
         else let physical = (if ht_logical \<noteq> [] then int (length ht_logical) sdiv hd ht_logical else 0)
                    + int (length non_ht)
           in Some (if physical > 0 then physical else nproc))"

definition p_core_thread_count :: "string option \<Rightarrow> int \<Rightarrow> (int \<times> string) list \<Rightarrow> int option" where
  "p_core_thread_count env nproc topo =
     (case get_core_split env topo of
        None \<Rightarrow> physical_core_count nproc topo
      | Some _ \<Rightarrow>
          (let unique = remdups (map snd (filter (\<lambda>(i, sib). has_smt sib) topo))
           in if unique \<noteq> [] then Some (int (length unique)) else physical_core_count nproc topo))"

subsection \<open>A mask denotes its cores\<close>

text \<open>The meaning of a mask, as \<open>taskset\<close> reads it.\<close>

definition mask_range :: "string \<Rightarrow> int list" where
  "mask_range s = (case str_find s ''-'' 0 of None \<Rightarrow> [atoi s]
     | Some d \<Rightarrow> [atoi (take d s) .. atoi (drop (d + 1) s)])"

definition mask_cores :: "string \<Rightarrow> int list" where
  "mask_cores m = concat (map mask_range (getlines CHR '','' m))"

definition core_id :: "int \<Rightarrow> bool" where
  "core_id i \<longleftrightarrow> 0 \<le> i \<and> i < 2 ^ 31"

lemma digit_list: "list_all is_digit s \<Longrightarrow> CHR '','' \<notin> set s \<and> CHR ''-'' \<notin> set s"
  by (induction s) (auto simp: is_digit_def)

lemma core_digits: "core_id i \<Longrightarrow> int_string i \<noteq> []
    \<and> CHR '','' \<notin> set (int_string i) \<and> CHR ''-'' \<notin> set (int_string i)"
  using digit_list [OF nat_string_digits] by (simp add: core_id_def int_string_def)

lemma atoi_core: "core_id i \<Longrightarrow> atoi (int_string i) = i"
proof -
  assume c: "core_id i"
  have "strtol10 (nat_string (nat i) @ []) = (int (nat i), length (nat_string (nat i)))"
    by (rule strtol_nat_string) (use c in \<open>simp_all add: core_id_def LONG_MAX_def\<close>)
  then show ?thesis using c by (simp add: atoi_def int_string_def core_id_def to_int32_id)
qed

lemma range_single: "core_id i \<Longrightarrow> mask_range (int_string i) = [i]"
proof -
  assume c: "core_id i"
  have "str_find (int_string i) ''-'' 0 = None" using core_digits [OF c] by (simp add: str_find_single_None)
  then show ?thesis using atoi_core [OF c] by (simp add: mask_range_def)
qed

lemma range_span:
  assumes "core_id a" "core_id b"
  shows "mask_range (int_string a @ ''-'' @ int_string b) = [a..b]"
proof -
  have "str_find (int_string a @ CHR ''-'' # int_string b) ''-'' 0 = Some (length (int_string a))"
    using first_at_single [of "CHR ''-''" "int_string a"] core_digits [OF assms(1)] by (simp add: str_find_0)
  then show ?thesis by (simp add: mask_range_def atoi_core assms)
qed

lemma cores_append: "m \<noteq> [] \<Longrightarrow> last m \<noteq> CHR '','' \<Longrightarrow> mask_cores (m @ CHR '','' # s) = mask_cores m @ mask_cores s"
  by (simp add: mask_cores_def getlines_append)

lemma cores_one: "s \<noteq> [] \<Longrightarrow> CHR '','' \<notin> set s \<Longrightarrow> mask_cores s = mask_range s"
  by (simp add: mask_cores_def getlines_single)

lemma last_digit: "core_id i \<Longrightarrow> last (int_string i) \<noteq> CHR '',''"
  using core_digits [of i] last_in_set [of "int_string i"] by metis

lemma piece_cores:
  assumes "core_id run" "core_id prev" "run \<le> prev"
  shows "mask_piece run prev \<noteq> []" "last (mask_piece run prev) \<noteq> CHR '',''" "mask_cores (mask_piece run prev) = [run..prev]"
proof -
  note D = core_digits [OF assms(1)] core_digits [OF assms(2)]
  show "mask_piece run prev \<noteq> []" using D by (simp add: mask_piece_def)
  have "mask_piece run prev \<in> {int_string run, int_string run @ '','' @ int_string prev,
      int_string run @ ''-'' @ int_string prev}" by (simp add: mask_piece_def)
  then show "last (mask_piece run prev) \<noteq> CHR '',''"
    using D last_digit [OF assms(1)] last_digit [OF assms(2)] by auto
  show "mask_cores (mask_piece run prev) = [run..prev]"
  proof (cases "run = prev")
    case True
    then show ?thesis using D range_single [OF assms(1)] by (simp add: mask_piece_def cores_one)
  next
    case False
    then have "to_int32 (run + 1) = run + 1" using assms by (intro to_int32_id) (simp_all add: core_id_def)
    then show ?thesis
      using False D assms(3) range_single [OF assms(1)] range_single [OF assms(2)] range_span [OF assms(1,2)]
        last_digit [OF assms(1)] cores_one [of "int_string run @ CHR ''-'' # int_string prev"]
      by (auto simp: mask_piece_def cores_append cores_one upto_rec1)
  qed
qed

lemma add_piece_cores:
  assumes "core_id run" "core_id prev" "run \<le> prev" "m = [] \<or> last m \<noteq> CHR '',''"
  shows "add_piece m run prev \<noteq> []" "last (add_piece m run prev) \<noteq> CHR '',''"
    "mask_cores (add_piece m run prev) = mask_cores m @ [run..prev]"
  using piece_cores [OF assms(1-3)] assms(4) cores_append [of m] by (auto simp: add_piece_def mask_cores_def)

lemma mask_loop_cores:
  assumes "core_id run" "core_id prev" "run \<le> prev" "m = [] \<or> last m \<noteq> CHR '',''"
    "sorted_wrt (<) (prev # xs)" "list_all core_id xs"
  shows "mask_cores (mask_loop m run prev xs) = mask_cores m @ [run..prev] @ xs"
  using assms
proof (induction xs arbitrary: m run prev)
  case Nil
  then show ?case using add_piece_cores by simp
next
  case (Cons x xs)
  have x: "core_id x" "prev < x" "list_all core_id xs" "sorted_wrt (<) (x # xs)" using Cons.prems by simp_all
  then have w: "to_int32 (prev + 1) = prev + 1" using Cons.prems(2) by (intro to_int32_id) (simp_all add: core_id_def)
  note A = add_piece_cores [OF Cons.prems(1-4)]
  show ?case
  proof (cases "x = prev + 1")
    case True
    then have "[run..x] = [run..prev] @ [x]" using Cons.prems(3) by (simp add: upto_rec2)
    then show ?thesis using Cons.IH [of run x m] Cons.prems x True w by simp
  next
    case False
    then show ?thesis using Cons.IH [of x x "add_piece m run prev"] x w A by simp
  qed
qed

text \<open>The mask of a list of cores, sorted and without repetitions, denotes exactly these cores.\<close>

theorem mask_of_cores:
  assumes "list_all core_id cs" "distinct cs"
  shows "mask_cores (to_mask (sort cs)) = sort cs"
proof (cases "sort cs")
  case Nil
  then show ?thesis by (simp add: mask_cores_def)
next
  case (Cons c r)
  have d: "sorted_wrt (<) (sort cs)" using assms(2) by (simp add: strict_sorted_iff)
  have a: "list_all core_id (sort cs)" using assms(1) by (simp add: list_all_iff)
  have "mask_cores [] = []" by (simp add: mask_cores_def)
  then show ?thesis using mask_loop_cores [of c c "[]" r] d a unfolding Cons by simp
qed

lemma mask_of_cores_witness:
  "list_all core_id [3, 0, 1, 8, 2, 10, 9, 16, 5, 6] \<and> to_mask (sort [3, 0, 1, 8, 2, 10, 9, 16, 5, 6]) = ''0-3,5,6,8-10,16''
   \<and> mask_cores ''0-3,5,6,8-10,16'' = [0, 1, 2, 3, 5, 6, 8, 9, 10, 16]"
proof -
  have a: "list_all core_id [3, 0, 1, 8, 2, 10, 9, 16, 5, 6]" "distinct [3, 0, 1, 8, 2, 10, 9, 16, 5, 6 :: int]"
    by (simp_all add: core_id_def)
  have "to_mask (sort [3, 0, 1, 8, 2, 10, 9, 16, 5, 6]) = ''0-3,5,6,8-10,16''"
    "sort [3, 0, 1, 8, 2, 10, 9, 16, 5, 6] = [0, 1, 2, 3, 5, 6, 8, 9, 10, 16 :: int]" by code_simp+
  then show ?thesis using a mask_of_cores [OF a] by simp
qed

subsection \<open>Cores are counted\<close>

text \<open>The cores of a machine: the processors of each and its list of siblings.\<close>

type_synonym machine = "(int list \<times> string) list"

definition topology_of :: "machine \<Rightarrow> (int \<times> string) list" where
  "topology_of cores = concat (map (\<lambda>(ids, sib). map (\<lambda>i. (i, sib)) ids) cores)"

definition core_ok :: "nat \<Rightarrow> int list \<times> string \<Rightarrow> bool" where
  "core_ok k = (\<lambda>(ids, sib). if has_smt sib then length ids = k \<and> sibling_count sib = int k else length ids = 1)"

lemma smt_logical:
  "list_all (core_ok k) cores \<Longrightarrow>
     set (map (sibling_count \<circ> snd) (filter (\<lambda>(i, sib). has_smt sib) (topology_of cores))) \<subseteq> {int k}
     \<and> length (filter (\<lambda>(i, sib). has_smt sib) (topology_of cores)) = k * length (filter (has_smt \<circ> snd) cores)
     \<and> length (e_cores (topology_of cores)) = length (filter (\<lambda>c. \<not> has_smt (snd c)) cores)"
proof (induction cores)
  case (Cons c cores)
  obtain ids sib where c: "c = (ids, sib)" by fastforce
  show ?case using Cons by (cases "has_smt sib") (auto simp: c core_ok_def topology_of_def e_cores_def filter_map comp_def)
qed (simp add: topology_of_def e_cores_def)

text \<open>When all cores with siblings have the same number of threads, the physical cores are counted right.\<close>

theorem physical_cores_counted:
  assumes "list_all (core_ok k) cores" "cores \<noteq> []" "0 < k"
  shows "physical_core_count nproc (topology_of cores) = Some (int (length cores))"
proof -
  define ht where "ht = map (sibling_count \<circ> snd) (filter (\<lambda>(i, sib). has_smt sib) (topology_of cores))"
  define m where "m = length (filter (has_smt \<circ> snd) cores)"
  define n where "n = length (filter (\<lambda>c. \<not> has_smt (snd c)) cores)"
  note L = smt_logical [OF assms(1), folded ht_def m_def n_def]
  have l: "length ht = k * m" using L by (simp add: ht_def)
  have e: "length (e_cores (topology_of cores)) = n" using L by simp
  have mn: "m + n = length cores"
    using sum_length_filter_compl [of "has_smt \<circ> snd" cores] by (simp add: m_def n_def comp_def)
  have h: "ht \<noteq> [] \<Longrightarrow> hd ht = int k" using L hd_in_set [of ht] by blast
  have q: "int (k * m) sdiv int k = int m" using assms(3) by (cases "m = 0") (simp_all add: signed_divide_int_def sgn_if)
  have ne: "ht = [] \<longleftrightarrow> m = 0" using l assms(3) by (metis length_0_conv mult_is_0 not_gr_zero)
  have en: "e_cores (topology_of cores) = [] \<longleftrightarrow> n = 0" using e by auto
  have pos: "0 < m + n" using mn assms(2) by simp
  show ?thesis
    unfolding physical_core_count_def Let_def ht_def [symmetric]
    using ne en pos h q l e mn assms(3) by auto
qed

definition hybrid :: machine where
  "hybrid = [([0, 1], ''0-1''), ([2, 3], ''2-3''), ([4], ''4''), ([5], ''5'')]"

lemma physical_cores_counted_witness:
  "list_all (core_ok 2) hybrid \<and> physical_core_count 6 (topology_of hybrid) = Some 4
   \<and> get_core_split None (topology_of hybrid) = Some (''0-3'', ''4,5'')
   \<and> p_core_thread_count None 6 (topology_of hybrid) = Some 2"
proof -
  have a: "list_all (core_ok 2) hybrid" "hybrid \<noteq> []" "(0::nat) < 2" by code_simp+
  have "get_core_split None (topology_of hybrid) = Some (''0-3'', ''4,5'')"
    "p_core_thread_count None 6 (topology_of hybrid) = Some 2" by code_simp+
  with a(1) physical_cores_counted [OF a, of 6] show ?thesis by (simp add: hybrid_def)
qed

text \<open>Siblings given as several ranges are miscounted: four threads count as two, so that the cores of such a
  machine are counted twice. A list of siblings that runs backwards stops the count with a division by zero.\<close>

lemma mixed_siblings: "sibling_count ''0-1,8-9'' = 2" "physical_core_count 4 [(0, ''1-0'')] = None"
  by code_simp+

text \<open>The documented values of \<open>LIM_TASKSET\<close>.\<close>

lemma taskset_examples:
  "get_core_split (Some ''0-15:16-23'') topo = Some (''0-15'', ''16-23'')"
  "get_core_split (Some ''0-7:'') topo = Some (''0-7'', [])"
  "get_core_split (Some '':8-15'') topo = Some ([], ''8-15'')"
  "get_core_split (Some ''::'') topo = Some ([], [])"
proof -
  have "user_split ''0-15:16-23'' = Some (''0-15'', ''16-23'')" "user_split ''0-7:'' = Some (''0-7'', [])"
    "user_split '':8-15'' = Some ([], ''8-15'')" "user_split ''::'' = Some ([], [])" by code_simp+
  then show "get_core_split (Some ''0-15:16-23'') topo = Some (''0-15'', ''16-23'')"
    "get_core_split (Some ''0-7:'') topo = Some (''0-7'', [])"
    "get_core_split (Some '':8-15'') topo = Some ([], ''8-15'')"
    "get_core_split (Some ''::'') topo = Some ([], [])" by (simp_all add: get_core_split_def)
qed

end
