(* ===== verification/Lim_Server.thy ===== *)
theory Lim_Server
  imports Lim_Fetch
begin

section \<open>The viewer server (server.cc)\<close>

text \<open>
  How lim finds, reuses, replaces and starts the server of the browser view, and how it waits for the marker
  files. Processes, files and the answers of the kernel are inputs. A loop of the check of a process has no
  step: a call that enters it has no defined behaviour, for which the value is \<^const>\<open>None\<close>.
\<close>

subsection \<open>The check of a process\<close>

definition ch_nul :: char where "ch_nul = CHR 0x00"

text \<open>\<open>while (j < n && buf[j] != 0) j;\<close> has no step and no side effect. Once entered it has no defined behaviour in
  C++17, where such a loop may be assumed to end: a build may hang in it, or go on with \<open>j\<close> as it is. \<open>None\<close> stands
  for that, here and in all that follows.\<close>

definition argv0_end :: "string \<Rightarrow> nat \<Rightarrow> nat option" where
  "argv0_end buf j = (if j < length buf \<and> buf ! j \<noteq> ch_nul then None else Some j)"

definition base_name :: "string \<Rightarrow> nat \<Rightarrow> nat" where
  "base_name buf j = (case str_rfind (take j buf) ''/'' of None \<Rightarrow> 0 | Some k \<Rightarrow> k + 1)"

definition SERVER_SCRIPT :: string where "SERVER_SCRIPT = ''limServer.py''"

text \<open>One argument ends with a slash and the name of the script.\<close>

function arg_scan :: "string \<Rightarrow> nat \<Rightarrow> bool" where
  "arg_scan buf i =
     (if i < length buf then
        (let arg = takeWhile (\<lambda>c. c \<noteq> ch_nul) (drop i buf) in
         if length arg > length SERVER_SCRIPT \<and> arg ! (length arg - length SERVER_SCRIPT - 1) = CHR ''/''
            \<and> drop (length arg - length SERVER_SCRIPT) arg = SERVER_SCRIPT
         then True else arg_scan buf (i + length arg + 1))
      else False)"
  by auto
termination by (relation "measure (\<lambda>(buf, i). length buf - i)") auto

declare arg_scan.simps [simp del]

record server_env =
  sv_self :: int
  sv_alive :: "int \<Rightarrow> bool"
  sv_cmdline :: "int \<Rightarrow> string option"
  sv_stat :: "int \<Rightarrow> string option"
  sv_pid_file :: "string option"
  sv_procs :: "string list"
  sv_our_fifo :: "(nat \<times> nat) option"
  sv_fds :: "int \<Rightarrow> (nat \<times> nat) option list option"
  sv_polls :: nat
  sv_gone_at :: "int \<Rightarrow> nat"
  sv_port_used :: bool
  sv_config_dir :: string
  sv_fork :: bool

definition cmdline_matches :: "string \<Rightarrow> bool option" where
  "cmdline_matches buf =
     (case argv0_end buf 0 of None \<Rightarrow> None
      | Some j \<Rightarrow>
          if \<not> prefix ''python'' (drop (base_name buf j) buf) then Some False
          else Some (arg_scan buf 0))"

definition is_our_server_pid :: "server_env \<Rightarrow> int \<Rightarrow> bool option" where
  "is_our_server_pid env pid =
     (if pid \<le> 1 \<or> pid = sv_self env \<or> \<not> sv_alive env pid then Some False
      else case sv_cmdline env pid of None \<Rightarrow> Some False
      | Some buf \<Rightarrow> cmdline_matches (take 1023 buf))"

text \<open>The number in the PID file.\<close>

definition read_server_pid :: "server_env \<Rightarrow> int" where
  "read_server_pid env = (case sv_pid_file env of None \<Rightarrow> 0
     | Some line \<Rightarrow> let pid = to_int32 (fst (strtol10 line)) in if pid \<le> 1 then 0 else pid)"

text \<open>The scan of \<open>/proc\<close>.\<close>

fun scan_procs :: "server_env \<Rightarrow> string list \<Rightarrow> int option" where
  "scan_procs env [] = Some 0"
| "scan_procs env (d # ds) =
     (if d = [] \<or> \<not> is_digit (hd d) then scan_procs env ds
      else let candidate = to_int32 (fst (strtol10 d))
        in if candidate = sv_self env then scan_procs env ds
           else case is_our_server_pid env candidate of None \<Rightarrow> None
             | Some True \<Rightarrow> Some candidate
             | Some False \<Rightarrow> scan_procs env ds)"

definition find_our_server_pid :: "server_env \<Rightarrow> int option" where
  "find_our_server_pid env = scan_procs env (sv_procs env)"

definition resolve_our_server_pid :: "server_env \<Rightarrow> int option" where
  "resolve_our_server_pid env =
     (case is_our_server_pid env (read_server_pid env) of None \<Rightarrow> None
      | Some True \<Rightarrow> Some (read_server_pid env)
      | Some False \<Rightarrow> find_our_server_pid env)"

text \<open>Some descriptor of the process is the FIFO that lim writes to; what cannot be compared counts as such.\<close>

definition pid_serves_our_fifo :: "server_env \<Rightarrow> int \<Rightarrow> bool" where
  "pid_serves_our_fifo env pid =
     (case sv_our_fifo env of None \<Rightarrow> True
      | Some want \<Rightarrow> (case sv_fds env pid of None \<Rightarrow> True | Some fds \<Rightarrow> Some want \<in> set fds))"

text \<open>The state in \<open>/proc/pid/stat\<close> stands after the last parenthesis.\<close>

definition zombie :: "string \<Rightarrow> bool" where
  "zombie stat =
     (case str_rfind stat '')'' of None \<Rightarrow> False
      | Some close \<Rightarrow> close + 2 < length stat \<and> stat ! (close + 1) = CHR '' '' \<and> stat ! (close + 2) = CHR ''Z'')"

definition pid_alive :: "server_env \<Rightarrow> int \<Rightarrow> bool" where
  "pid_alive env pid =
     (if pid \<le> 1 \<or> \<not> sv_alive env pid then False
      else case sv_stat env pid of None \<Rightarrow> True | Some stat \<Rightarrow> \<not> zombie (take 1023 stat))"

text \<open>After the signal the process is looked for until it is gone; \<open>sv_gone_at\<close> is the look that finds it gone.\<close>

definition kill_our_server :: "server_env \<Rightarrow> int \<Rightarrow> bool" where
  "kill_our_server env pid \<longleftrightarrow> pid > 1 \<and> sv_gone_at env pid \<le> sv_polls env"

subsection \<open>Starting\<close>

datatype server_start = Reused | Started | Start_Error

definition is_lim_server_healthy :: "server_env \<Rightarrow> bool option" where
  "is_lim_server_healthy env =
     (if \<not> sv_port_used env then Some False
      else map_option (\<lambda>pid. pid > 1 \<and> pid_serves_our_fifo env pid) (resolve_our_server_pid env))"

definition launch :: "server_env \<Rightarrow> server_start" where
  "launch env = (if sv_config_dir env = [] then Start_Error else if sv_fork env then Started else Start_Error)"

text \<open>After a kill that was confirmed the process answers no signal.\<close>

definition after_kill :: "int \<Rightarrow> server_env \<Rightarrow> server_env" where
  "after_kill pid env = env\<lparr>sv_alive := (sv_alive env)(pid := False)\<rparr>"

text \<open>A server on another port that holds the FIFO is stopped first.\<close>

definition stop_stale :: "server_env \<Rightarrow> int list \<Rightarrow> (int list \<times> server_start) option" where
  "stop_stale env killed =
     (case resolve_our_server_pid env of None \<Rightarrow> None
      | Some stale \<Rightarrow>
          if stale > 1 \<and> pid_serves_our_fifo env stale
          then (if kill_our_server env stale then Some (killed @ [stale], launch env)
                else Some (killed @ [stale], Start_Error))
          else Some (killed, launch env))"

text \<open>The processes that are sent a kill signal and the outcome.\<close>

definition start_lim_server_if_needed :: "server_env \<Rightarrow> (int list \<times> server_start) option" where
  "start_lim_server_if_needed env =
     (if sv_port_used env then
        (case resolve_our_server_pid env of None \<Rightarrow> None
         | Some pid \<Rightarrow>
             if pid > 1 then
               (if pid_serves_our_fifo env pid then Some ([], Reused)
                else if kill_our_server env pid then stop_stale (after_kill pid env) [pid] else Some ([pid], Start_Error))
             else Some ([], Start_Error))
      else stop_stale env [])"

subsection \<open>Waiting for a marker\<close>

text \<open>The answers of \<open>poll\<close> and \<open>read\<close>: nothing, an error, or the names of changed files with the validity of
  the marker; each with the time that remains before it.\<close>

datatype wait_event = Nothing_Yet | Wait_Error | Changed "(string \<times> bool) list"

fun wait_loop :: "int \<Rightarrow> string \<Rightarrow> int \<Rightarrow> (int \<times> wait_event) list \<Rightarrow> bool option" where
  "wait_loop timeout_ms filename sl [] = None"
| "wait_loop timeout_ms filename sl ((remaining, ev) # evs) =
     (let sl = (if timeout_ms \<ge> 0 \<and> remaining < sl then remaining else sl) in
      if timeout_ms \<ge> 0 \<and> sl \<le> 0 then Some False
      else case ev of
        Nothing_Yet \<Rightarrow> wait_loop timeout_ms filename sl evs
      | Wait_Error \<Rightarrow> Some False
      | Changed names \<Rightarrow>
          if (filename, True) \<in> set names then Some True else wait_loop timeout_ms filename sl evs)"

definition wait_for_file :: "bool \<Rightarrow> bool \<Rightarrow> string \<Rightarrow> int \<Rightarrow> (int \<times> wait_event) list \<Rightarrow> bool option" where
  "wait_for_file check_existing valid filename timeout_ms evs =
     (if check_existing \<and> valid then Some True
      else wait_loop timeout_ms filename (if timeout_ms \<ge> 0 then 250 else - 1) evs)"

subsection \<open>Port and address\<close>

definition DEFAULT_PORT :: int where "DEFAULT_PORT = 8765"

definition get_server_port :: "string option \<Rightarrow> int" where
  "get_server_port env =
     (case env of Some (c # cs) \<Rightarrow>
        (let (val, e) = strtol10 (c # cs)
         in if at_end (c # cs) e \<and> val > 0 \<and> val < 65536 then val else DEFAULT_PORT)
      | _ \<Rightarrow> DEFAULT_PORT)"

definition get_viewer_url :: "string option \<Rightarrow> string option \<Rightarrow> string" where
  "get_viewer_url url_env port_env =
     (case url_env of Some (c # cs) \<Rightarrow> c # cs
      | _ \<Rightarrow> ''http://localhost:'' @ int_string (get_server_port port_env) @ ''/viewer.html'')"

definition check_browser_connected :: "string option \<Rightarrow> bool" where
  "check_browser_connected answer =
     (case answer of None \<Rightarrow> False
      | Some buf \<Rightarrow> contains buf ([ch_dquote] @ ''connected'' @ [ch_dquote] @ '': true'')
          \<or> contains buf ([ch_dquote] @ ''connected'' @ [ch_dquote] @ '':true''))"

subsection \<open>No server is recognised by defined behaviour\<close>

lemma argv0_stuck: "buf \<noteq> [] \<Longrightarrow> hd buf \<noteq> ch_nul \<Longrightarrow> argv0_end buf 0 = None"
  by (simp add: argv0_end_def hd_conv_nth)

lemma argv0_empty: "buf = [] \<or> hd buf = ch_nul \<Longrightarrow> argv0_end buf 0 = Some 0"
  by (cases buf) (auto simp: argv0_end_def)

lemma cmdline_never: "cmdline_matches buf = (if buf \<noteq> [] \<and> hd buf \<noteq> ch_nul then None else Some False)"
proof (cases "buf \<noteq> [] \<and> hd buf \<noteq> ch_nul")
  case True
  then show ?thesis by (simp add: cmdline_matches_def argv0_stuck)
next
  case False
  have "\<not> prefix ''python'' buf" using False by (cases buf) (auto simp: ch_nul_def)
  moreover have "base_name buf 0 = 0" by (simp add: base_name_def str_rfind_def)
  ultimately show ?thesis using False argv0_empty [of buf] by (simp add: cmdline_matches_def)
qed

lemma server_pid_never: "is_our_server_pid env pid \<noteq> Some True"
  by (auto simp: is_our_server_pid_def cmdline_never split: option.splits)

lemma scan_never: "scan_procs env ds = None \<or> scan_procs env ds = Some 0"
  by (induction ds) (auto simp: Let_def server_pid_never split: option.splits bool.splits)

lemma resolve_never: "resolve_our_server_pid env = None \<or> resolve_our_server_pid env = Some 0"
  using scan_never server_pid_never
  by (auto simp: resolve_our_server_pid_def find_our_server_pid_def split: option.splits bool.splits)

text \<open>The check of a process has no defined behaviour when the process is alive and its command line can be read,
  and is negative otherwise. So as far as the behaviour is defined no running server is reused nor replaced and no
  process is killed: a start fails because the port is in use, or launches a new server. A build that drops the
  loop goes on with \<open>j = 0\<close> and compares the start of the command line with \<open>python\<close> instead of the name's last part.\<close>

theorem server_never_reused:
  "(is_our_server_pid env pid =
     (if pid > 1 \<and> pid \<noteq> sv_self env \<and> sv_alive env pid
      then (case sv_cmdline env pid of None \<Rightarrow> Some False
        | Some buf \<Rightarrow> if take 1023 buf \<noteq> [] \<and> hd buf \<noteq> ch_nul then None else Some False)
      else Some False))
   \<and> start_lim_server_if_needed env \<in> {None, Some ([], if sv_port_used env then Start_Error else launch env)}
   \<and> is_lim_server_healthy env \<in> {None, Some False}"
proof (intro conjI)
  show "is_our_server_pid env pid =
     (if pid > 1 \<and> pid \<noteq> sv_self env \<and> sv_alive env pid
      then (case sv_cmdline env pid of None \<Rightarrow> Some False
        | Some buf \<Rightarrow> if take 1023 buf \<noteq> [] \<and> hd buf \<noteq> ch_nul then None else Some False)
      else Some False)"
    by (auto simp: is_our_server_pid_def cmdline_never hd_take split: option.splits)
  show "start_lim_server_if_needed env \<in> {None, Some ([], if sv_port_used env then Start_Error else launch env)}"
    "is_lim_server_healthy env \<in> {None, Some False}"
    using resolve_never [of env]
    by (auto simp: start_lim_server_if_needed_def stop_stale_def is_lim_server_healthy_def)
qed

text \<open>Waiting with a deadline ends, at the latest when no time remains, and reports the marker only if it was valid.\<close>

lemma wait_loop_ends:
  "0 \<le> timeout_ms \<Longrightarrow> (r, ev) \<in> set evs \<Longrightarrow> r \<le> 0 \<Longrightarrow> \<exists>b. wait_loop timeout_ms filename sl evs = Some b"
proof (induction evs arbitrary: sl)
  case (Cons e evs)
  then show ?case by (cases e) (auto simp: Let_def split: wait_event.splits)
qed simp

lemma wait_loop_True:
  "wait_loop timeout_ms filename sl evs = Some True \<Longrightarrow> \<exists>r ns. (r, Changed ns) \<in> set evs \<and> (filename, True) \<in> set ns"
proof (induction evs arbitrary: sl)
  case (Cons e evs)
  obtain r ev where e: "e = (r, ev)" by fastforce
  show ?case
  proof (cases "\<exists>ns. ev = Changed ns \<and> (filename, True) \<in> set ns")
    case True
    then show ?thesis unfolding e by (meson list.set_intros(1))
  next
    case False
    then have "\<exists>sl. wait_loop timeout_ms filename sl evs = Some True"
      using Cons.prems by (cases ev) (auto simp: e Let_def split: if_splits)
    then show ?thesis using Cons.IH by (meson list.set_intros(2))
  qed
qed simp

theorem wait_deadline:
  assumes "0 \<le> timeout_ms" "(r, ev) \<in> set evs" "r \<le> 0"
  shows "\<exists>b. wait_for_file check_existing valid filename timeout_ms evs = Some b
     \<and> (b \<longrightarrow> (check_existing \<and> valid) \<or> (\<exists>r ns. (r, Changed ns) \<in> set evs \<and> (filename, True) \<in> set ns))"
proof (cases "check_existing \<and> valid")
  case False
  obtain b where b: "wait_loop timeout_ms filename (if timeout_ms \<ge> 0 then 250 else - 1) evs = Some b"
    using wait_loop_ends [OF assms] by blast
  then have "b \<longrightarrow> (\<exists>r ns. (r, Changed ns) \<in> set evs \<and> (filename, True) \<in> set ns)"
    using wait_loop_True by (metis (full_types))
  moreover have "wait_for_file check_existing valid filename timeout_ms evs = Some b"
    using b False unfolding wait_for_file_def by (simp only: if_False)
  ultimately show ?thesis by blast
qed (auto simp: wait_for_file_def)

lemma wait_deadline_witness:
  "\<exists>b. wait_for_file True False ''lim.server_ready'' 15000
      [(15000, Nothing_Yet), (14750, Changed [(''x'', True)]), (0, Nothing_Yet)] = Some b \<and> \<not> b"
proof -
  let ?evs = "[(15000, Nothing_Yet), (14750, Changed [(''x'', True)]), (0, Nothing_Yet)]"
  have "(0, Nothing_Yet) \<in> set ?evs" by simp
  then obtain b where b: "wait_for_file True False ''lim.server_ready'' 15000 ?evs = Some b"
    "b \<longrightarrow> (\<exists>r ns. (r, Changed ns) \<in> set ?evs \<and> (''lim.server_ready'', True) \<in> set ns)"
    using wait_deadline [of 15000 0 Nothing_Yet ?evs True False "''lim.server_ready''"] by auto
  then have "\<not> b" by auto
  with b(1) show ?thesis by blast
qed

text \<open>The port is one of the machine's.\<close>

lemma server_port_range: "0 < get_server_port env \<and> get_server_port env < 65536"
  by (auto simp: get_server_port_def DEFAULT_PORT_def split: option.splits list.splits prod.splits)

lemma server_port_read:
  assumes "0 < p" "p < 65536"
  shows "get_server_port (Some (nat_string p)) = int p"
proof -
  obtain c cs where c: "nat_string p = c # cs" by (cases "nat_string p") auto
  have "strtol10 (nat_string p @ []) = (int p, length (nat_string p))"
    by (rule strtol_nat_string) (use assms in \<open>simp_all add: LONG_MAX_def\<close>)
  then show ?thesis using assms c by (simp add: get_server_port_def at_end_def)
qed

end
