(* ===== verification/Lim_Restore.thy ===== *)
theory Lim_Restore
  imports Lim_Turn Lim_Cache Lim_Shell
begin

section \<open>Loading a session (session.cc, session_utils.cc)\<close>

text \<open>
  \<open>ChatSession::perform_restore\<close>: a save is loaded from its cache entry and probed by a short silent
  generation, or its tokens are decoded again up to the checkpoint that the user chooses; the tail
  compares the git revisions and may feed a note. The file, the cache, the generator, the feeds and the
  bookkeeping are those of the other theories; new are the outcome of the prompt, the answers of the
  decodes and the draft context that is valid at the time of a call. Display, speed and the line history
  are left out.
\<close>

subsection \<open>The selection prompt\<close>

definition checkpoint_label :: "prompt_checkpoint \<Rightarrow> string" where
  "checkpoint_label cp =
     (let label = (if cp_prompt cp = [] then ''(empty)'' else cp_prompt cp);
          label = (if length label > 120 then take 120 label @ ''...'' else label)
      in label @ '' ('' @ int_string (cp_n_past cp) @ '' tokens)'')"

definition parse_checkpoint_selection :: "string \<Rightarrow> int option" where
  "parse_checkpoint_selection input =
     (case str_rfind input ''('' of
        None \<Rightarrow> None
      | Some p \<Rightarrow>
          (let inner = (case str_rfind input '')'' of
                 None \<Rightarrow> Some (drop (p + 1) input)
               | Some q \<Rightarrow> if q \<le> p then None else Some (take (q - p - 1) (drop (p + 1) input)))
           in case inner of None \<Rightarrow> None
              | Some s \<Rightarrow> (case stoi s of Inl _ \<Rightarrow> None | Inr n \<Rightarrow> Some n)))"

text \<open>The limit that an answer selects; an answer that names no checkpoint selects everything.\<close>

definition select_limit :: "prompt_checkpoint list \<Rightarrow> string \<Rightarrow> int \<Rightarrow> int" where
  "select_limit cps input all =
     (case parse_checkpoint_selection input of None \<Rightarrow> all
      | Some n \<Rightarrow> if \<exists>cp \<in> set cps. cp_n_past cp = n then n else all)"

subsection \<open>State and outside world\<close>

record ('m, 's, 'v) loader =
  ld_chat :: "('m, 's, 'v) chat"
  ld_dir :: dir
  ld_ckpt_idx :: int

record ('m, 'v) restore_env =
  rt_save_dir :: string
  rt_files :: "string \<Rightarrow> string option"
  rt_abs :: "string \<Rightarrow> string"
  rt_checkpoints :: bool
  rt_model_path :: string
  rt_sha :: "string \<Rightarrow> string"
  rt_set_data :: "'m \<Rightarrow> string \<Rightarrow> 'm \<times> bool"
  rt_get_data :: "'m \<Rightarrow> string"
  rt_capacity :: "nat option"
  rt_draft :: "nat \<Rightarrow> 'm option"
  rt_rows :: "'m \<Rightarrow> 'v option list"
  rt_line :: "bool \<times> string option"
  rt_stop :: "nat \<Rightarrow> bool"
  rt_answer :: "nat \<Rightarrow> int \<times> nat"
  rt_git_head :: string
  rt_git_answer :: "nat \<Rightarrow> int \<times> nat"

datatype restore_status = Restore_Ok | Restore_Cancelled | Restore_Failed

abbreviation ld_core :: "('m, 's, 'v) loader \<Rightarrow> 'm core" where
  "ld_core ld \<equiv> ch_core (ld_chat ld)"

abbreviation upd_ld :: "('m core \<Rightarrow> 'm core) \<Rightarrow> ('m, 's, 'v) loader \<Rightarrow> ('m, 's, 'v) loader" where
  "upd_ld f ld \<equiv> ld\<lparr>ld_chat := (ld_chat ld)\<lparr>ch_core := f (ld_core ld)\<rparr>\<rparr>"

abbreviation reset_ld :: "('m, 's, 'v) turn_env \<Rightarrow> ('m, 's, 'v) loader \<Rightarrow> ('m, 's, 'v) loader" where
  "reset_ld env ld \<equiv> ld\<lparr>ld_chat := (ld_chat ld)\<lparr>
     ch_smpl := ge_reset (tu_gen env (ch_clock (ld_chat ld))) (ch_smpl (ld_chat ld))\<rparr>\<rparr>"

definition CANARY_MAX_TOKENS :: int where "CANARY_MAX_TOKENS = 16"
definition MAX_CANARY_RETRIES :: nat where "MAX_CANARY_RETRIES = 2"
definition CANARY_MIN_JUDGED :: int where "CANARY_MIN_JUDGED = 6"

subsection \<open>The fast path\<close>

definition load_cache ::
  "('m, 's, 'v) turn_env \<Rightarrow> ('m, 'v) restore_env \<Rightarrow> token list \<Rightarrow> ('m, 's, 'v) loader
   \<Rightarrow> bool \<times> bool \<times> ('m, 's, 'v) loader" where
  "load_cache env re tokens ld =
     (if rt_checkpoints re then (False, False, ld)
      else let ops = tu_ops env;
               (st, hit) = try_load_v1_cache (rt_set_data re) (op_pos_max ops) (op_clear ops) (rt_sha re) tokens
                 (rt_model_path re) \<lparr>cdir = ld_dir ld, kv_main = co_mem (ld_core ld),
                    kv_mtp = rt_draft re (ch_clock (ld_chat ld)), mtp_loaded = False\<rparr>
           in (hit, mtp_loaded st, (upd_ld (\<lambda>c. c\<lparr>co_mem := kv_main st\<rparr>) ld)\<lparr>ld_dir := cdir st\<rparr>))"

text \<open>The session as the save describes it, with the state of the restore point on the stack.\<close>

definition adopt_save ::
  "'m mem_ops \<Rightarrow> token list \<Rightarrow> prompt_checkpoint list \<Rightarrow> bool \<Rightarrow> 'm core \<Rightarrow> 'm core" where
  "adopt_save ops tokens cps eligible c =
     (upd_state (\<lambda>s. s\<lparr>ss_all_context_tokens := tokens, ss_conversation_text := [],
        ss_prompt_checkpoints := cps, ss_checkpoint_stack_offset := (if cps = [] then 0 else int (length cps) - 1),
        ss_interrupted_checkpoint_idx := - 1\<rparr>) c)
       \<lparr>co_n_past := op_pos_max ops (co_mem c) + 1,
        co_mem := (if eligible \<or> cps \<noteq> [] then op_save ops (co_mem c) else co_mem c)\<rparr>"

definition canary_eligible :: "('m, 's, 'v) turn_env \<Rightarrow> bool \<Rightarrow> 'm \<Rightarrow> bool" where
  "canary_eligible env mtp m \<longleftrightarrow> mtp \<and> op_pos_max (tu_ops env) m + 1 + CANARY_MAX_TOKENS + 33 < tu_n_ctx env"

definition canary_env :: "('m, 's, 'v) turn_env \<Rightarrow> ('m, 's, 'v) chat \<Rightarrow> ('m, 's, 'v) gen_env" where
  "canary_env env ch =
     (tu_gen env (ch_clock ch))\<lparr>ge_ops := tu_ops env, ge_is_eog := tu_is_eog env, ge_piece := tu_piece env,
        ge_think := (think_start (tu_mt env), think_end (tu_mt env)), ge_n_ctx := tu_n_ctx env,
        ge_n_batch := tu_n_batch env, ge_was_mid := False, ge_reincarnating := False, ge_hook := False,
        ge_canary_max := CANARY_MAX_TOKENS, ge_canary_silent := True\<rparr>"

definition canary_clean :: "gen_result \<Rightarrow> bool" where
  "canary_clean r \<longleftrightarrow> gr_canary_origin_total r < CANARY_MIN_JUDGED
     \<or> 4 * gr_canary_origin_match r > gr_canary_origin_total r"

definition roll_back_canary ::
  "('m, 's, 'v) turn_env \<Rightarrow> int \<Rightarrow> ('m, 's, 'v) loader \<Rightarrow> ('m, 's, 'v) loader" where
  "roll_back_canary env restore_point ld =
     (let ops = tu_ops env;
          m = op_restore ops (co_mem (ld_core ld)) (to_u32 (ld_ckpt_idx ld));
          (ok, m) = op_seq_rm ops m restore_point (- 1);
          ld = upd_ld (\<lambda>c. c\<lparr>co_mem := m\<rparr>) ld
      in if \<not> ok then ld else reset_ld env (upd_ld (truncate_to restore_point) ld))"

text \<open>The answer of the probe is whether the context is sound.\<close>

definition run_canary ::
  "('m, 's, 'v) turn_env \<Rightarrow> ('m, 's, 'v) loader \<Rightarrow> turn_fault + (bool \<times> ('m, 's, 'v) loader)" where
  "run_canary env ld =
     (let ch = ld_chat ld; restore_point = chat_n_past ch in
      case generate (canary_env env ch) False (ch_last_context ch) (ch_smpl ch) (ch_rows ch) (ch_core ch) of
        None \<Rightarrow> Inl Diverged
      | Some (r, g) \<Rightarrow>
          (let ld = ld\<lparr>ld_chat := ch\<lparr>ch_core := gn_core g, ch_smpl := gn_smpl g, ch_rows := gn_rows g,
                  ch_last_context := gn_last_context g, ch_clock := ch_clock ch + 1\<rparr>\<rparr>
           in if gr_canary_ran r \<and> canary_clean r then Inr (True, roll_back_canary env restore_point ld)
              else Inr (False, ld)))"

definition retry_clear :: "('m, 's, 'v) turn_env \<Rightarrow> ('m, 's, 'v) loader \<Rightarrow> ('m, 's, 'v) loader" where
  "retry_clear env ld =
     (let ch = ld_chat ld;
          (sys, c) = clear_context (tu_ops env) (tu_mt env) (tu_n_batch env)
            (slot_events (tu_n_ctx env) (tu_n_batch env) 0
               (length (fst (reload_system_prompt (tu_load env) (ch_system ch)))) (tu_feed env (ch_clock ch)))
            (maintains_conversation_text env) (tu_load env) (ch_system ch) (ch_core ch)
      in ld\<lparr>ld_chat := upd_chat reset_session_state (ch\<lparr>ch_core := c, ch_system := sys, ch_clock := ch_clock ch + 1,
             ch_smpl := ge_reset (tu_gen env (ch_clock ch)) (ch_smpl ch)\<rparr>)\<rparr>)"

text \<open>\<open>n\<close> retries are left. The answer is whether the session has been restored.\<close>

fun fast_restore ::
  "('m, 's, 'v) turn_env \<Rightarrow> ('m, 'v) restore_env \<Rightarrow> token list \<Rightarrow> prompt_checkpoint list res \<Rightarrow> nat
   \<Rightarrow> ('m, 's, 'v) loader \<Rightarrow> turn_fault + (bool \<times> ('m, 's, 'v) loader)" where
  "fast_restore env re tokens cps n ld =
     (let (hit, mtp, ld) = load_cache env re tokens ld in
      if \<not> hit then Inr (False, ld)
      else case cps of
        Inl e \<Rightarrow> Inl (Faulted e)
      | Inr cs \<Rightarrow>
          (let eligible = canary_eligible env mtp (co_mem (ld_core ld));
               ld = upd_ld (adopt_save (tu_ops env) tokens cs eligible) ld;
               ld = ld\<lparr>ld_chat := (ld_chat ld)\<lparr>ch_rows := rt_rows re (co_mem (ld_core ld))\<rparr>\<rparr>
           in if \<not> eligible then Inr (True, ld)
              else case run_canary env (ld\<lparr>ld_ckpt_idx := 0\<rparr>) of
                Inl e \<Rightarrow> Inl e
              | Inr (True, ld) \<Rightarrow> Inr (True, ld)
              | Inr (False, ld) \<Rightarrow>
                  (case n of 0 \<Rightarrow> Inr (False, ld)
                   | Suc k \<Rightarrow> fast_restore env re tokens cps k (retry_clear env ld))))"

declare fast_restore.simps [simp del]

subsection \<open>The slow path\<close>

text \<open>A chunk ends at the next checkpoint when that lies inside it.\<close>

definition restore_chunk :: "nat \<Rightarrow> prompt_checkpoint list \<Rightarrow> nat \<Rightarrow> nat \<Rightarrow> nat" where
  "restore_chunk n_batch cps i rest =
     (let chunk = min n_batch rest in
      case cps of [] \<Rightarrow> chunk
      | cp # _ \<Rightarrow> if cp_n_past cp > int i \<and> cp_n_past cp < int (i + chunk) then nat (cp_n_past cp) - i else chunk)"

lemma restore_chunk_bounds:
  "0 < n_batch \<Longrightarrow> 0 < rest \<Longrightarrow> 0 < restore_chunk n_batch cps i rest \<and> restore_chunk n_batch cps i rest \<le> min n_batch rest"
  by (auto simp: restore_chunk_def Let_def split: list.splits)

text \<open>The decode of the tokens, with the checkpoints whose states are still to be saved. Without a batch size
  the loop does not end. The answer is whether it failed and whether a signal was seen.\<close>

definition chunk_fails :: "'m mem_ops \<Rightarrow> bool \<Rightarrow> int \<times> nat \<Rightarrow> 'm \<Rightarrow> int \<Rightarrow> token list \<Rightarrow> bool \<times> 'm \<times> int" where
  "chunk_fails ops stop answer m np ts =
     (if stop then (True, m, sync_n_past (op_pos_max ops m))
      else let (ret, m') = llama_decode ops answer m np ts in
        if \<not> fst (handle_decode_result ret True) then (True, m', sync_n_past (op_pos_max ops m'))
        else (False, m', np + int (length ts)))"

definition save_passed :: "'m mem_ops \<Rightarrow> int \<Rightarrow> prompt_checkpoint list \<Rightarrow> 'm \<Rightarrow> prompt_checkpoint list \<times> 'm" where
  "save_passed ops np cps m =
     (let passed = takeWhile (\<lambda>cp. cp_n_past cp \<le> np) cps
      in (drop (length passed) cps, fold (\<lambda>_. op_save ops) passed m))"

function restore_loop ::
  "'m mem_ops \<Rightarrow> nat \<Rightarrow> (nat \<Rightarrow> bool) \<Rightarrow> (nat \<Rightarrow> int \<times> nat) \<Rightarrow> nat \<Rightarrow> nat \<Rightarrow> token list
   \<Rightarrow> prompt_checkpoint list \<Rightarrow> 'm \<Rightarrow> int \<Rightarrow> (bool \<times> bool \<times> 'm \<times> int) option" where
  "restore_loop ops n_batch stop answer k i toks cps m np =
     (if toks = [] then Some (False, False, m, np)
      else if n_batch = 0 then None
      else let chunk = restore_chunk n_batch cps i (length toks);
               (failed, m, np) = chunk_fails ops (stop k) (answer k) m np (take chunk toks);
               (cps, m) = save_passed ops np cps m
        in if failed then Some (True, stop k, m, np)
           else restore_loop ops n_batch stop answer (k + 1) (i + chunk) (drop chunk toks) cps m np)"
  by pat_completeness auto

termination
proof (relation "measure (\<lambda>(_, _, _, _, _, _, toks, _). length toks)", goal_cases)
  case (2 ops n_batch stop answer k i toks cps m np chunk)
  then show ?case using restore_chunk_bounds [of n_batch "length toks" cps i] by auto
qed simp

declare restore_loop.simps [simp del]

text \<open>The Restore prompt: whether it was cancelled, and the answer.\<close>

definition restore_prompt :: "bool \<times> string option \<Rightarrow> string option" where
  "restore_prompt answer =
     (case answer of
        (True, _) \<Rightarrow> None
      | (False, None) \<Rightarrow> None
      | (False, Some input) \<Rightarrow> if input = ''/quit'' \<or> input = ''/exit'' then None else Some input)"

text \<open>After a failed decode: an empty context with the system prompt.\<close>

definition reset_failed_restore :: "('m, 's, 'v) turn_env \<Rightarrow> ('m, 's, 'v) loader \<Rightarrow> ('m, 's, 'v) loader" where
  "reset_failed_restore env ld =
     (let ld = upd_ld (\<lambda>c. c\<lparr>co_stop := False, co_mem := op_clear (tu_ops env) (co_mem c), co_n_past := 0,
             co_state := reset_session_state ((co_state c)\<lparr>ss_all_context_tokens := [], ss_prompt_checkpoints := [],
               ss_file_cache := (\<lambda>_. None), ss_auto_continue := False, ss_prev_was_interrupted := False,
               ss_checkpoint_stack_offset := 0, ss_tool_correction_checkpoint_idx := - 1\<rparr>)\<rparr>) ld;
          (ok, ch) = feed_chat env (fst (ch_system (ld_chat ld))) (ld_chat ld);
          ld = ld\<lparr>ld_chat := ch\<rparr>
      in if \<not> ok then ld
         else reset_ld env (ld\<lparr>ld_chat := if maintains_conversation_text env
           then set_conv (build_system_turn_text (tu_mt env) (snd (ch_system ch))) ch else ch\<rparr>))"

definition write_restored_cache ::
  "('m, 's, 'v) turn_env \<Rightarrow> ('m, 'v) restore_env \<Rightarrow> string \<Rightarrow> token list \<Rightarrow> ('m, 's, 'v) loader \<Rightarrow> ('m, 's, 'v) loader" where
  "write_restored_cache env re path tokens ld =
     ld\<lparr>ld_dir := fst (write_v1_cache (rt_get_data re) (op_pos_max (tu_ops env)) (rt_sha re) (rt_capacity re)
        path tokens (rt_model_path re) [] (co_mem (ld_core ld)) (rt_draft re (ch_clock (ld_chat ld))) (ld_dir ld))\<rparr>"

definition decode_save ::
  "('m, 's, 'v) turn_env \<Rightarrow> ('m, 'v) restore_env \<Rightarrow> string \<Rightarrow> token list \<Rightarrow> nat \<Rightarrow> prompt_checkpoint list
   \<Rightarrow> ('m, 's, 'v) loader \<Rightarrow> turn_fault + (restore_status \<times> ('m, 's, 'v) loader)" where
  "decode_save env re path tokens n_all cps ld =
     (let ops = tu_ops env;
          ld = upd_ld (\<lambda>c. (upd_state (\<lambda>s. s\<lparr>ss_all_context_tokens := [], ss_conversation_text := []\<rparr>) c)
                 \<lparr>co_mem := op_clear ops (co_mem c), co_n_past := 0\<rparr>) ld
      in case restore_loop ops (tu_n_batch env) (\<lambda>k. co_stop (ld_core ld) \<or> rt_stop re k) (rt_answer re) 0 0
             tokens cps (co_mem (ld_core ld)) 0 of
           None \<Rightarrow> Inl Diverged
         | Some (failed, stopped, m, np) \<Rightarrow>
             (let ld = upd_ld (\<lambda>c. c\<lparr>co_mem := m, co_n_past := sync_n_past (op_pos_max ops m),
                         co_stop := co_stop c \<or> stopped\<rparr>) ld
              in if failed then Inr (Restore_Failed, reset_failed_restore env ld)
                 else let ld = upd_ld (upd_state (\<lambda>s. s\<lparr>ss_all_context_tokens := tokens, ss_conversation_text := [],
                             ss_prompt_checkpoints := cps, ss_checkpoint_stack_offset := 0,
                             ss_interrupted_checkpoint_idx := - 1\<rparr>)) ld
                   in Inr (Restore_Ok,
                        if path \<noteq> [] \<and> length tokens = n_all \<and> co_n_past (ld_core ld) = int (length tokens)
                        then write_restored_cache env re path tokens ld else ld)))"

definition slow_restore ::
  "('m, 's, 'v) turn_env \<Rightarrow> ('m, 'v) restore_env \<Rightarrow> string \<Rightarrow> token list \<Rightarrow> prompt_checkpoint list
   \<Rightarrow> ('m, 's, 'v) loader \<Rightarrow> turn_fault + (restore_status \<times> ('m, 's, 'v) loader)" where
  "slow_restore env re path tokens cps ld =
     (let ld = ld\<lparr>ld_ckpt_idx := - 1\<rparr>; n_all = int (length tokens) in
      if cps = [] then decode_save env re path tokens (length tokens) cps ld
      else let stop = (co_stop (ld_core ld) \<or> fst (rt_line re));
               ld = upd_ld (\<lambda>c. c\<lparr>co_stop := False\<rparr>) ld in
        case restore_prompt (stop, snd (rt_line re)) of
          None \<Rightarrow> Inr (Restore_Cancelled, ld)
        | Some input \<Rightarrow>
            (let limit = select_limit cps input n_all in
             if limit < n_all
             then decode_save env re path (tok_resize tokens limit) (length tokens)
                    (filter (\<lambda>cp. \<not> cp_n_past cp > limit) cps) ld
             else decode_save env re path tokens (length tokens) cps ld))"

subsection \<open>The tail\<close>

text \<open>The revision in the first line of the save.\<close>

definition saved_git_sha :: "string option \<Rightarrow> string" where
  "saved_git_sha file =
     (case file of None \<Rightarrow> []
      | Some bytes \<Rightarrow>
          (let nl = first_at [ch_nl] (take 255 bytes);
               head = c_str (case nl of None \<Rightarrow> take 255 bytes | Some n \<Rightarrow> take (n + 1) bytes)
           in case str_find head ''git_sha='' 0 of None \<Rightarrow> []
              | Some p \<Rightarrow> takeWhile (\<lambda>c. c \<noteq> CHR '' '') (drop (p + 8) head)))"

definition git_note :: "string \<Rightarrow> string \<Rightarrow> string" where
  "git_note saved current =
     ''Note: Git HEAD has changed since this session was saved (was '' @ take 7 saved @ '', now ''
       @ take 7 current @ ''). Code or configuration may have been modified.''"

text \<open>The note is decoded without the hook of the draft head and without a check for signals.\<close>

function note_loop ::
  "'m mem_ops \<Rightarrow> nat \<Rightarrow> (nat \<Rightarrow> int \<times> nat) \<Rightarrow> nat \<Rightarrow> token list \<Rightarrow> 'm \<Rightarrow> int \<Rightarrow> bool \<times> 'm \<times> int" where
  "note_loop ops n_batch answer k toks m np =
     (if toks = [] \<or> n_batch = 0 then (True, m, np)
      else let (ret, m) = llama_decode ops (answer k) m np (take n_batch toks);
               np = np + int (length (take n_batch toks))
        in if ret \<noteq> 0 then (False, m, np) else note_loop ops n_batch answer (k + 1) (drop n_batch toks) m np)"
  by pat_completeness auto
termination by (relation "measure (\<lambda>(_, _, _, _, toks, _). length toks)") auto

declare note_loop.simps [simp del]

definition check_git_head_on_restore ::
  "('m, 's, 'v) turn_env \<Rightarrow> string \<Rightarrow> string \<Rightarrow> (nat \<Rightarrow> int \<times> nat) \<Rightarrow> 'm core \<Rightarrow> bool \<times> 'm core" where
  "check_git_head_on_restore env saved current answer c =
     (if saved = [] then (False, c)
      else if current = [] \<or> saved = current then (False, c)
      else let msg = build_user_assistant_turn env (git_note saved current) in
        if co_n_past c + int (length msg) \<ge> tu_n_ctx env then (True, c)
        else let start = co_n_past c;
                 (ok, m, np) = note_loop (tu_ops env) (tu_n_batch env) answer 0 msg (co_mem c) start
          in if \<not> ok then (True, c\<lparr>co_mem := snd (op_seq_rm (tu_ops env) m start (- 1)), co_n_past := start\<rparr>)
             else (True, (upd_state (ss_all_context_tokens_update (\<lambda>ts. ts @ msg)) c)\<lparr>co_mem := m, co_n_past := np\<rparr>))"

subsection \<open>The command\<close>

definition restore_tail ::
  "('m, 's, 'v) turn_env \<Rightarrow> ('m, 'v) restore_env \<Rightarrow> string option \<Rightarrow> ('m, 's, 'v) loader \<Rightarrow> ('m, 's, 'v) loader" where
  "restore_tail env re file ld =
     (let ld = ld\<lparr>ld_chat := (ld_chat ld)\<lparr>ch_last_context := chat_n_past (ld_chat ld)\<rparr>\<rparr>
      in reset_ld env (upd_ld (\<lambda>c. snd (check_git_head_on_restore env (saved_git_sha file) (rt_git_head re)
           (rt_git_answer re) c)) ld))"

definition perform_restore ::
  "('m, 's, 'v) turn_env \<Rightarrow> ('m, 'v) restore_env \<Rightarrow> string \<Rightarrow> ('m, 's, 'v) loader
   \<Rightarrow> turn_fault + (restore_status \<times> ('m, 's, 'v) loader)" where
  "perform_restore env re rpath_in ld =
     (if rpath_in = [] then Inr (Restore_Failed, ld)
      else let rpath = apply_save_dir (rt_save_dir re) (append_save_ext rpath_in); file = rt_files re rpath in
        if file = None then Inr (Restore_Failed, ld)
        else if length (tracker (ld_core ld)) \<noteq> length (fst (ch_system (ld_chat ld)))
                \<or> ss_prompt_checkpoints (co_state (ld_core ld)) \<noteq> [] then Inr (Restore_Failed, ld)
        else case read_token_save file of
            Inl e \<Rightarrow> Inl (Faulted e)
          | Inr None \<Rightarrow> Inr (Restore_Failed, ld)
          | Inr (Some tokens) \<Rightarrow>
              (if int (length tokens) \<ge> tu_n_ctx env then Inr (Restore_Failed, ld)
               else let path = rt_abs re rpath in
                 case fast_restore env re tokens (read_checkpoint_offsets file) MAX_CANARY_RETRIES ld of
                   Inl e \<Rightarrow> Inl e
                 | Inr (True, ld) \<Rightarrow> Inr (Restore_Ok, restore_tail env re file ld)
                 | Inr (False, ld) \<Rightarrow>
                     (case read_checkpoint_offsets file of
                        Inl e \<Rightarrow> Inl (Faulted e)
                      | Inr cps \<Rightarrow>
                          (case slow_restore env re path tokens cps ld of
                             Inl e \<Rightarrow> Inl e
                           | Inr (Restore_Ok, ld) \<Rightarrow> Inr (Restore_Ok, restore_tail env re file ld)
                           | Inr (st, ld) \<Rightarrow> Inr (st, ld)))))"

subsection \<open>The decode of a save\<close>

text \<open>The bookkeeping flags of a session without a call, as every load starts with them.\<close>

definition idle :: "session_state \<Rightarrow> bool" where
  "idle s \<longleftrightarrow> ss_tool_correction_checkpoint_idx s < 0 \<and> \<not> ss_rs_checkpoint_saved_this_turn s"

definition wf_checkpoints :: "prompt_checkpoint list \<Rightarrow> nat \<Rightarrow> bool" where
  "wf_checkpoints cps n \<longleftrightarrow> sorted_wrt (<) (map cp_n_past cps) \<and> int (length cps) < POS_MAX
     \<and> (\<forall>cp \<in> set cps. 0 < cp_n_past cp \<and> cp_n_past cp \<le> int n)"

text \<open>What a load leaves: the chosen tokens with all their states, or a fresh session.\<close>

definition loaded :: "('m \<Rightarrow> token list \<Rightarrow> bool) \<Rightarrow> ('m \<Rightarrow> token list option list) \<Rightarrow> ('m \<Rightarrow> bool)
    \<Rightarrow> token list \<Rightarrow> prompt_checkpoint list \<Rightarrow> 'm core \<Rightarrow> bool" where
  "loaded holds stack recurrent ts cps c \<longleftrightarrow> aligned holds stack recurrent c \<and> tracker c = ts
     \<and> ss_prompt_checkpoints (co_state c) = cps \<and> idle (co_state c)"

definition emptied :: "('m \<Rightarrow> token list \<Rightarrow> bool) \<Rightarrow> ('m \<Rightarrow> token list option list) \<Rightarrow> ('m \<Rightarrow> bool)
    \<Rightarrow> token list \<Rightarrow> 'm core \<Rightarrow> bool" where
  "emptied holds stack recurrent sys c \<longleftrightarrow> aligned holds stack recurrent c \<and> prefix (tracker c) sys
     \<and> ss_prompt_checkpoints (co_state c) = [] \<and> idle (co_state c)"

text \<open>What llama.cpp documents of its state functions: the bytes that one context gave, set in another context of the
  same model which has no saved states, make it hold the same tokens; if they are refused, some context is left.\<close>

definition state_codec :: "('m \<Rightarrow> token list \<Rightarrow> bool) \<Rightarrow> ('m \<Rightarrow> token list option list) \<Rightarrow> ('m \<Rightarrow> bool)
    \<Rightarrow> ('m \<Rightarrow> string) \<Rightarrow> ('m \<Rightarrow> string \<Rightarrow> 'm \<times> bool) \<Rightarrow> bool" where
  "state_codec holds stack recurrent get_data set_data \<longleftrightarrow>
     (\<forall>x xs m zs m' ok. holds x xs \<longrightarrow> holds m zs \<longrightarrow> recurrent m = recurrent x \<longrightarrow> stack m = [] \<longrightarrow>
        set_data m (get_data x) = (m', ok) \<longrightarrow>
        recurrent m' = recurrent m \<and> stack m' = [] \<and> (if ok then holds m' xs else \<exists>ys. holds m' ys))"

lemma restore_loop_returns:
  "n_batch \<noteq> 0 \<Longrightarrow> \<exists>r. restore_loop ops n_batch stop answer k i toks cps m np = Some r"
proof (induction ops n_batch stop answer k i toks cps m np rule: restore_loop.induct)
  case (1 ops n_batch stop answer k i toks cps m np)
  show ?case
  proof (cases "toks = []")
    case False
    obtain f1 m1 np1 where c: "chunk_fails ops (stop k) (answer k) m np
        (take (restore_chunk n_batch cps i (length toks)) toks) = (f1, m1, np1)"
      by (metis prod_cases3)
    obtain cps2 m2 where p: "save_passed ops np1 cps m1 = (cps2, m2)" by fastforce
    show ?thesis
      using "1.IH" [OF False _ refl c [symmetric] refl refl p [symmetric]] "1.prems" False c p
      by (cases f1) (auto simp: restore_loop.simps [of _ _ _ _ _ _ toks] Let_def)
  qed (auto simp: restore_loop.simps)
qed

lemma slow_restore_returns:
  assumes "tu_n_batch env \<noteq> 0"
  obtains st ld' where "slow_restore env re path ts cps ld = Inr (st, ld')"
proof -
  have d: "\<exists>st ld'. decode_save env re path us n cs ld1 = Inr (st, ld')" for us n cs ld1
    using restore_loop_returns [OF assms] by (fastforce simp: decode_save_def Let_def split: option.splits prod.splits)
  have "\<exists>st ld'. slow_restore env re path ts cps ld = Inr (st, ld')"
    by (auto simp: slow_restore_def Let_def d split: option.splits)
  with that show thesis by blast
qed

context rs_memory
begin

lemma chunk_ok:
  assumes "chunk_fails ops stop a m np ts = (failed, m', np')"
    and "holds m xs" "np = int (length xs)" "int (length (xs @ ts)) \<le> POS_MAX"
  shows "recurrent m' = recurrent m \<and> stack m' = stack m
    \<and> (if failed then \<exists>ys. holds m' ys else holds m' (xs @ ts) \<and> np' = int (length (xs @ ts)))"
proof (cases stop)
  case True
  with assms show ?thesis by (auto simp: chunk_fails_def)
next
  case False
  obtain ret m1 where d: "llama_decode ops a m np ts = (ret, m1)" by fastforce
  obtain k where k: "k \<le> length ts" "holds m1 (xs @ take k ts)" "ret = 0 \<or> ret > 2 \<Longrightarrow> k = length ts"
    by (rule decode_any [OF assms(2,4) d [unfolded assms(3)]]) blast
  have m: "m' = m1" using assms(1) False d by (auto simp: chunk_fails_def split: if_splits)
  show ?thesis
  proof (cases "fst (handle_decode_result ret True)")
    case True
    with k(2,3) handle_decode_ok(1) [OF True] assms(1,3) False d m llama_decode_keeps [OF d]
    show ?thesis by (auto simp: chunk_fails_def)
  next
    case F: False
    with assms(1) False d have failed by (auto simp: chunk_fails_def)
    with k(2) m llama_decode_keeps [OF d] show ?thesis by auto
  qed
qed

lemma saves_hold: "holds m ts \<Longrightarrow> holds (fold (\<lambda>_. op_save ops) xs m) ts"
  by (induction xs arbitrary: m) (simp_all add: save)

lemma saves_recurrent: "recurrent (fold (\<lambda>_. op_save ops) xs m) = recurrent m"
  by (induction xs arbitrary: m) (simp_all add: recurrent_ops)

lemma saves_stack:
  "holds m ts \<Longrightarrow> recurrent m \<Longrightarrow> ts \<noteq> [] \<Longrightarrow>
     stack (fold (\<lambda>_. op_save ops) xs m) = stack m @ map (\<lambda>_. Some ts) xs"
  by (induction xs arbitrary: m) (simp_all add: save recurrent_ops)

abbreviation saved_at :: "token list \<Rightarrow> prompt_checkpoint list \<Rightarrow> token list option list" where
  "saved_at ts cps \<equiv> map (\<lambda>cp. Some (take (nat (cp_n_past cp)) ts)) cps"

lemma passed_states:
  assumes "save_passed ops (int (length xs)) cps m = (cps', m')" "holds m xs" "xs \<noteq> []"
    and "\<forall>cp \<in> set cps. int (length xs) \<le> cp_n_past cp" "prefix xs ts"
  shows "recurrent m' = recurrent m \<and> holds m' xs
    \<and> (\<exists>passed. cps = passed @ cps' \<and> (recurrent m \<longrightarrow> stack m' = stack m @ saved_at ts passed)
        \<and> (sorted_wrt (<) (map cp_n_past cps) \<longrightarrow> (\<forall>cp \<in> set cps'. int (length xs) < cp_n_past cp)))"
proof -
  define passed where "passed = takeWhile (\<lambda>cp. cp_n_past cp \<le> int (length xs)) cps"
  have d: "cps' = dropWhile (\<lambda>cp. cp_n_past cp \<le> int (length xs)) cps" "m' = fold (\<lambda>_. op_save ops) passed m"
    using assms(1) by (simp_all add: save_passed_def passed_def Let_def dropWhile_eq_drop)
  then have e: "cps = passed @ cps'" by (simp add: passed_def)
  have p: "cp_n_past cp = int (length xs)" if "cp \<in> set passed" for cp
    using that assms(4) by (auto simp: passed_def dest!: set_takeWhileD intro: order_antisym)
  have "take (length xs) ts = xs" using assms(5) by (auto simp: prefix_def)
  then have l: "map (\<lambda>_. Some xs) passed = saved_at ts passed" using p by simp
  have gt: "int (length xs) < cp_n_past cp"
    if s: "sorted_wrt (<) (map cp_n_past cps)" and c: "cp \<in> set cps'" for cp
  proof -
    obtain x rest where x: "cps' = x # rest" using c by (cases cps') auto
    have "int (length xs) < cp_n_past x" using x d(1) hd_dropWhile [of "\<lambda>cp. cp_n_past cp \<le> int (length xs)" cps] by auto
    moreover have "cp_n_past x \<le> cp_n_past cp" using s c unfolding e x by (auto simp: sorted_wrt_append)
    ultimately show ?thesis by simp
  qed
  show ?thesis
    unfolding d(2) using saves_hold [OF assms(2)] saves_recurrent saves_stack [OF assms(2) _ assms(3), of passed] e l gt
    by (intro conjI exI [of _ passed]) simp_all
qed

lemma restore_loop_ok:
  assumes "restore_loop ops nb stop ans k i toks cps m np = Some (failed, st, m', np')"
    and "holds m xs" "i = length xs" "np = int i" "ts = xs @ toks" "int (length ts) \<le> POS_MAX"
    and "sorted_wrt (<) (map cp_n_past cps)" "\<forall>cp \<in> set cps. int i < cp_n_past cp \<and> cp_n_past cp \<le> int (length ts)"
  shows "recurrent m' = recurrent m
    \<and> (if failed then \<exists>ys. holds m' ys else holds m' ts \<and> (recurrent m \<longrightarrow> stack m' = stack m @ saved_at ts cps))"
  using assms
proof (induction toks arbitrary: k i cps m np xs rule: length_induct)
  case (1 toks)
  note run = "1.prems"(1) and hm = "1.prems"(2) and i = "1.prems"(3,4) and ts = "1.prems"(5)
    and bound = "1.prems"(6) and cps = "1.prems"(7,8)
  show ?case
  proof (cases "toks = []")
    case True
    then have "cps = []" using cps(2) i ts by (cases cps) auto
    with True run hm ts show ?thesis by (auto simp: restore_loop.simps)
  next
    case ne: False
    have nb: "nb \<noteq> 0"
    proof
      assume "nb = 0"
      with run ne show False by (simp add: restore_loop.simps [of _ 0])
    qed
    define n where "n = restore_chunk nb cps i (length toks)"
    have n: "0 < n" "n \<le> length toks"
      using restore_chunk_bounds [of nb "length toks" cps i] nb ne by (simp_all add: n_def)
    let ?xs = "xs @ take n toks"
    obtain f1 m1 np1 where c: "chunk_fails ops (stop k) (ans k) m np (take n toks) = (f1, m1, np1)"
      by (metis prod_cases3)
    obtain cps2 m2 where p: "save_passed ops np1 cps m1 = (cps2, m2)" by fastforce
    have len: "int (length ?xs) \<le> POS_MAX" "length ?xs = i + n" "prefix ?xs ts"
      using bound ts n(2) i by (auto simp: take_is_prefix)
    note C = chunk_ok [OF c hm _ len(1), unfolded i(1) [symmetric], OF i(2)]
    show ?thesis
    proof (cases f1)
      case True
      then have r: "failed" "m' = m2" using run ne nb c p by (auto simp: restore_loop.simps [of _ _ _ _ _ _ toks] n_def)
      moreover have "m2 = fold (\<lambda>_. op_save ops) (takeWhile (\<lambda>cp. cp_n_past cp \<le> np1) cps) m1"
        using p by (auto simp: save_passed_def Let_def)
      ultimately show ?thesis using C True by (auto simp: saves_recurrent intro: saves_hold)
    next
      case False
      then have hm1: "holds m1 ?xs" "np1 = int (length ?xs)" "recurrent m1 = recurrent m" "stack m1 = stack m"
        using C by auto
      have first: "int (length ?xs) \<le> cp_n_past cp" if "cp \<in> set cps" for cp
      proof (cases cps)
        case (Cons x rest)
        have "i + n \<le> nat (cp_n_past x)"
          using cps(2) by (auto simp: n_def restore_chunk_def Let_def Cons)
        moreover have "cp_n_past x \<le> cp_n_past cp" using cps(1) that by (auto simp: Cons)
        ultimately show ?thesis using len(2) cps(2) Cons by force
      qed (use that in simp)
      have "?xs \<noteq> []" using n ne by auto
      note P = passed_states [OF p [unfolded hm1(2)] hm1(1) this _ len(3)]
      obtain passed where P: "recurrent m2 = recurrent m1" "holds m2 ?xs" "cps = passed @ cps2"
        "recurrent m1 \<longrightarrow> stack m2 = stack m1 @ saved_at ts passed"
        "\<forall>cp \<in> set cps2. int (length ?xs) < cp_n_past cp"
        using P first cps(1) by blast
      have r: "restore_loop ops nb stop ans (k + 1) (i + n) (drop n toks) cps2 m2 np1 = Some (failed, st, m', np')"
        using run ne nb c p False by (simp add: restore_loop.simps [of _ _ _ _ _ _ toks] n_def Let_def)
      have "recurrent m' = recurrent m2 \<and> (if failed then \<exists>ys. holds m' ys
          else holds m' ts \<and> (recurrent m2 \<longrightarrow> stack m' = stack m2 @ saved_at ts cps2))"
      proof (rule "1.IH" [rule_format, OF _ r P(2)])
        show "length (drop n toks) < length toks" using n ne by simp
        show "sorted_wrt (<) (map cp_n_past cps2)" using cps(1) P(3) by (simp add: sorted_wrt_append)
        show "int (i + n) < cp_n_past cp \<and> cp_n_past cp \<le> int (length ts)" if "cp \<in> set cps2" for cp
          using that P(3,5) cps(2) len(2) by auto
      qed (use len(2) hm1(2) ts bound in auto)
      then show ?thesis using P(1,3,4) hm1(3,4) by auto
    qed
  qed
qed

lemma reset_failed_aligned:
  assumes "reset_failed_restore env ld = ld'" "tu_ops env = ops" "tu_n_ctx env \<le> POS_MAX"
    and "holds (co_mem (ld_core ld)) ys"
  shows "al (ld_core ld') \<and> prefix (tracker (ld_core ld')) (fst (ch_system (ld_chat ld)))
    \<and> ss_prompt_checkpoints (co_state (ld_core ld')) = [] \<and> idle (co_state (ld_core ld'))"
proof -
  define c where "c = (ld_core ld)\<lparr>co_stop := False, co_mem := op_clear ops (co_mem (ld_core ld)), co_n_past := 0,
      co_state := reset_session_state ((co_state (ld_core ld))\<lparr>ss_all_context_tokens := [], ss_prompt_checkpoints := [],
        ss_file_cache := (\<lambda>_. None), ss_auto_continue := False, ss_prev_was_interrupted := False,
        ss_checkpoint_stack_offset := 0, ss_tool_correction_checkpoint_idx := - 1\<rparr>)\<rparr>"
  have a: "al c" and c: "tracker c = []" "ss_prompt_checkpoints (co_state c) = []" "idle (co_state c)"
    using clear [OF assms(4)]
    by (simp_all add: c_def aligned_def Let_def synced_def reset_session_state_def stack_ops POS_MAX_def idle_def)
  let ?sys = "fst (ch_system (ld_chat ld))"
  obtain ok c1 where f: "chat_feed env (ch_clock (ld_chat ld)) ?sys c = (ok, c1)" by fastforce
  note f1 = f [unfolded chat_feed_def assms(2)]
  have s: "synced holds c" using a by (simp add: aligned_def Let_def)
  have g: "gr c c1" using feed_slots_grown [OF s assms(3) f1] by blast
  obtain k where k: "tracker c1 = take k ?sys" by (rule feed_slots [OF s assms(3) f1]) (simp add: c(1))
  have st: "ss_prompt_checkpoints (co_state c1) = []" "idle (co_state c1)"
    using g c(2,3) by (auto simp: grown_def idle_def)
  have "ld_core ld' = c1 \<or> (\<exists>t. ld_core ld' = upd_state (ss_conversation_text_update (\<lambda>_. t)) c1)"
    using assms(1,2) f by (auto simp: reset_failed_restore_def Let_def feed_chat_def c_def split: if_splits prod.splits)
  then show ?thesis
    using aligned_grown [OF a g] k st by (auto simp: aligned_def Let_def synced_def idle_def take_is_prefix)
qed

abbreviation ldd :: "token list \<Rightarrow> prompt_checkpoint list \<Rightarrow> 'm core \<Rightarrow> bool" where
  "ldd \<equiv> loaded holds stack recurrent"

abbreviation emp :: "token list \<Rightarrow> 'm core \<Rightarrow> bool" where "emp \<equiv> emptied holds stack recurrent"

lemma decode_save_ok:
  assumes "decode_save env re path ts n_all cps ld = Inr (st, ld')" "tu_ops env = ops" "tu_n_ctx env \<le> POS_MAX"
    and "holds (co_mem (ld_core ld)) ys" "int (length ts) \<le> POS_MAX" "wf_checkpoints cps (length ts)"
    and "idle (co_state (ld_core ld))"
  shows "(st = Restore_Ok \<and> ldd ts cps (ld_core ld')
      \<and> ss_checkpoint_stack_offset (co_state (ld_core ld')) = 0)
    \<or> (st = Restore_Failed \<and> emp (fst (ch_system (ld_chat ld))) (ld_core ld'))"
proof -
  let ?m = "op_clear ops (co_mem (ld_core ld))"
  have m: "holds ?m []" "stack ?m = []" "recurrent ?m = recurrent (co_mem (ld_core ld))"
    using clear [OF assms(4)] by (simp_all add: stack_ops recurrent_ops)
  define stop where "stop = (\<lambda>k. co_stop (ld_core ld) \<or> rt_stop re k)"
  obtain failed stopped m1 np1 where l:
    "restore_loop ops (tu_n_batch env) stop (rt_answer re) 0 0 ts cps ?m 0 = Some (failed, stopped, m1, np1)"
    using assms(1,2) by (auto simp: decode_save_def Let_def stop_def split: option.splits prod.splits)
  have r: "recurrent m1 = recurrent ?m \<and> (if failed then \<exists>ys. holds m1 ys
      else holds m1 ts \<and> (recurrent ?m \<longrightarrow> stack m1 = stack ?m @ saved_at ts cps))"
    using assms(6) by (intro restore_loop_ok [OF l m(1)]) (simp_all add: assms(5) wf_checkpoints_def)
  let ?c = "(ld_core ld)\<lparr>co_state := (co_state (ld_core ld))\<lparr>ss_all_context_tokens := [], ss_conversation_text := []\<rparr>,
      co_mem := m1, co_n_past := sync_n_past (op_pos_max ops m1), co_stop := co_stop (ld_core ld) \<or> stopped\<rparr>"
  show ?thesis
  proof (cases failed)
    case True
    then obtain zs where z: "holds m1 zs" using r by auto
    let ?ld = "upd_ld (\<lambda>_. ?c) ld"
    have "st = Restore_Failed" "reset_failed_restore env ?ld = ld'"
      using assms(1,2) l True by (auto simp: decode_save_def Let_def stop_def)
    moreover have "holds (co_mem (ld_core ?ld)) zs" using z by simp
    ultimately show ?thesis
      using reset_failed_aligned [OF _ assms(2,3), of ?ld ld' zs] by (simp add: emptied_def)
  next
    case False
    let ?c' = "upd_state (\<lambda>s. s\<lparr>ss_all_context_tokens := ts, ss_conversation_text := [],
        ss_prompt_checkpoints := cps, ss_checkpoint_stack_offset := 0, ss_interrupted_checkpoint_idx := - 1\<rparr>) ?c"
    have "st = Restore_Ok" "ld_core ld' = ?c'"
      using assms(1,2) l False
      by (auto simp: decode_save_def Let_def stop_def write_restored_cache_def split: if_splits)
    moreover have h: "holds m1 ts" "sync_n_past (op_pos_max ops m1) = int (length ts)"
      using r False sync_holds by auto
    moreover have "ldd ts cps ?c'"
      using h r False assms(6,7) m(2)
      by (auto simp: loaded_def aligned_def Let_def synced_def wf_checkpoints_def idle_def)
    ultimately show ?thesis by simp
  qed
qed

lemma slow_restore_ok:
  assumes "slow_restore env re path ts cps ld = Inr (st, ld')" "tu_ops env = ops" "tu_n_ctx env \<le> POS_MAX"
    and "holds (co_mem (ld_core ld)) ys" "int (length ts) \<le> POS_MAX" "wf_checkpoints cps (length ts)"
    and "idle (co_state (ld_core ld))"
  shows "case st of
      Restore_Ok \<Rightarrow> \<exists>n. (n = length ts \<or> int n \<in> cp_n_past ` set cps)
        \<and> ldd (take n ts) (filter (\<lambda>cp. cp_n_past cp \<le> int n) cps) (ld_core ld')
    | Restore_Failed \<Rightarrow> emp (fst (ch_system (ld_chat ld))) (ld_core ld')
    | Restore_Cancelled \<Rightarrow> ld_core ld' = (ld_core ld)\<lparr>co_stop := False\<rparr>"
proof -
  have all: "filter (\<lambda>cp. cp_n_past cp \<le> int (length ts)) cps = cps"
    using assms(6) by (simp add: wf_checkpoints_def filter_id_conv)
  have whole: ?thesis if d: "decode_save env re path ts n_all cps ld1 = Inr (st, ld')"
    and l: "co_mem (ld_core ld1) = co_mem (ld_core ld)" "co_state (ld_core ld1) = co_state (ld_core ld)"
      "ch_system (ld_chat ld1) = ch_system (ld_chat ld)" for n_all ld1
  proof -
    have "(st = Restore_Ok \<and> ldd ts cps (ld_core ld')) \<or> (st = Restore_Failed \<and> emp (fst (ch_system (ld_chat ld))) (ld_core ld'))"
      using decode_save_ok [OF d assms(2,3), of ys] assms(4-7) l by auto
    then show ?thesis using all by (auto intro!: exI [of _ "length ts"])
  qed
  let ?ld = "ld\<lparr>ld_ckpt_idx := - 1\<rparr>"
  let ?ld1 = "upd_ld (\<lambda>c. c\<lparr>co_stop := False\<rparr>) ?ld"
  show ?thesis
  proof (cases "cps = []")
    case True
    with assms(1) whole [of "length ts" ?ld] show ?thesis by (simp add: slow_restore_def)
  next
    case False
    note run = assms(1) [unfolded slow_restore_def Let_def if_not_P [OF False]]
    show ?thesis
    proof (cases "restore_prompt (co_stop (ld_core ld) \<or> fst (rt_line re), snd (rt_line re))")
      case None
      with run show ?thesis by auto
    next
      case (Some input)
      define limit where "limit = select_limit cps input (int (length ts))"
      show ?thesis
      proof (cases "limit < int (length ts)")
        case F: False
        with run Some whole [of "length ts" ?ld1] show ?thesis by (simp add: limit_def)
      next
        case True
        have mem: "limit \<in> cp_n_past ` set cps"
          using True by (auto simp: limit_def select_limit_def split: option.splits if_splits)
        then have pos: "0 < limit" using assms(6) by (auto simp: wf_checkpoints_def)
        let ?ts = "take (nat limit) ts" and ?cps = "filter (\<lambda>cp. cp_n_past cp \<le> limit) cps"
        have t: "tok_resize ts limit = ?ts" "length ?ts = nat limit"
          using True pos by (simp_all add: tok_resize_take)
        have "int (length ?cps) < POS_MAX"
          using assms(6) length_filter_le [of "\<lambda>cp. cp_n_past cp \<le> limit" cps]
          unfolding wf_checkpoints_def by (elim conjE, linarith)
        then have "wf_checkpoints ?cps (length ?ts)"
          using assms(6) t(2) pos by (auto simp: wf_checkpoints_def sorted_wrt_map sorted_wrt_filter)
        moreover have d: "decode_save env re path ?ts (length ts) ?cps ?ld1 = Inr (st, ld')"
          using run Some True t(1) by (simp add: limit_def [symmetric] not_less)
        ultimately have "(st = Restore_Ok \<and> ldd ?ts ?cps (ld_core ld'))
            \<or> (st = Restore_Failed \<and> emp (fst (ch_system (ld_chat ld))) (ld_core ld'))"
          using decode_save_ok [OF d assms(2,3), of ys] assms(4,5,7) by auto
        then show ?thesis using mem pos by (auto intro!: exI [of _ "nat limit"])
      qed
    qed
  qed
qed

lemma note_loop_ok:
  assumes "note_loop ops nb a k toks m np = (ok, m', np')" "\<forall>k. fst (a k) = 0" "0 < nb"
    and "holds m xs" "np = int (length xs)" "int (length (xs @ toks)) \<le> POS_MAX"
  shows "ok \<and> holds m' (xs @ toks) \<and> np' = int (length (xs @ toks)) \<and> stack m' = stack m \<and> recurrent m' = recurrent m"
  using assms
proof (induction toks arbitrary: k m np xs rule: length_induct)
  case (1 toks)
  show ?case
  proof (cases "toks = []")
    case True
    with "1.prems" show ?thesis by (simp add: note_loop.simps)
  next
    case False
    let ?ts = "take nb toks" and ?m = "op_decode ops m np (take nb toks)"
    obtain n where a: "a k = (0, n)" using "1.prems"(2) by (metis prod.collapse)
    have b: "int (length (xs @ ?ts)) \<le> POS_MAX" "xs @ toks = (xs @ ?ts) @ drop nb toks"
      using "1.prems"(6) by auto
    have m: "holds ?m (xs @ ?ts)" "stack ?m = stack m" "recurrent ?m = recurrent m"
      using decode [OF "1.prems"(4) b(1)] "1.prems"(5) by (simp_all add: stack_ops recurrent_ops)
    have r: "note_loop ops nb a (k + 1) (drop nb toks) ?m (np + int (length ?ts)) = (ok, m', np')"
      using "1.prems"(1,3) False a by (simp add: note_loop.simps [of _ _ _ _ toks] llama_decode_def)
    have "length (drop nb toks) < length toks" using "1.prems"(3) False by simp
    note IH = "1.IH" [rule_format, OF this r _ "1.prems"(3) m(1)]
    have "ok \<and> holds m' ((xs @ ?ts) @ drop nb toks) \<and> np' = int (length ((xs @ ?ts) @ drop nb toks))
        \<and> stack m' = stack ?m \<and> recurrent m' = recurrent ?m"
      by (rule IH) (use "1.prems"(2,5,6) in simp_all)
    then show ?thesis using m(2,3) b(2) by metis
  qed
qed

lemma git_note_ok:
  assumes "check_git_head_on_restore env saved current a c = (b, c')" "synced holds c"
    and "tu_ops env = ops" "0 < tu_n_batch env" "tu_n_ctx env \<le> POS_MAX" "\<forall>k. fst (a k) = 0"
  shows "gr c c' \<and> (\<exists>note \<in> {[], build_user_assistant_turn env (git_note saved current)}. tracker c' = tracker c @ note)"
proof -
  let ?msg = "build_user_assistant_turn env (git_note saved current)"
  have refl: "gr c c" using assms(2) by (auto simp: grown_def intro: exI [of _ "[]"])
  show ?thesis
  proof (cases "saved = [] \<or> current = [] \<or> saved = current \<or> co_n_past c + int (length ?msg) \<ge> tu_n_ctx env")
    case True
    with assms(1) have "c' = c" by (auto simp: check_git_head_on_restore_def Let_def split: if_splits)
    with refl show ?thesis by auto
  next
    case False
    obtain ok m np where n: "note_loop ops (tu_n_batch env) a 0 ?msg (co_mem c) (co_n_past c) = (ok, m, np)"
      by (metis prod_cases3)
    have h: "holds (co_mem c) (tracker c)" "co_n_past c = int (length (tracker c))"
      using assms(2) by (auto simp: synced_def)
    have "int (length (tracker c @ ?msg)) \<le> POS_MAX" using False h(2) assms(5) by simp
    note N = note_loop_ok [OF n assms(6,4) h this]
    have "c' = (upd_state (ss_all_context_tokens_update (\<lambda>ts. ts @ ?msg)) c)\<lparr>co_mem := m, co_n_past := np\<rparr>"
      using assms(1,3) False n N by (auto simp: check_git_head_on_restore_def Let_def)
    moreover have "ss_all_context_tokens_update (\<lambda>ts. ts @ ?msg) s
        = s\<lparr>ss_all_context_tokens := ss_all_context_tokens s @ ?msg\<rparr>" for s :: session_state
      by (cases s) simp
    ultimately show ?thesis using N by (auto simp: grown_def synced_def)
  qed
qed

lemma tail_ok:
  assumes "ldd ts cps (ld_core ld)" "tu_ops env = ops" "0 < tu_n_batch env" "tu_n_ctx env \<le> POS_MAX"
    and "\<forall>k. fst (rt_git_answer re k) = 0"
  shows "\<exists>note \<in> {[], build_user_assistant_turn env (git_note (saved_git_sha file) (rt_git_head re))}.
      ldd (ts @ note) cps (ld_core (restore_tail env re file ld))"
proof -
  obtain b c where c: "check_git_head_on_restore env (saved_git_sha file) (rt_git_head re) (rt_git_answer re) (ld_core ld)
      = (b, c)" by fastforce
  have L: "al (ld_core ld)" "tracker (ld_core ld) = ts" "ss_prompt_checkpoints (co_state (ld_core ld)) = cps"
    "idle (co_state (ld_core ld))" using assms(1) by (auto simp: loaded_def)
  have G: "gr (ld_core ld) c" "\<exists>note \<in> {[], build_user_assistant_turn env (git_note (saved_git_sha file) (rt_git_head re))}.
      tracker c = ts @ note"
    using git_note_ok [OF c _ assms(2-5)] L(1,2) by (auto simp: aligned_def Let_def)
  have k: "ss_prompt_checkpoints (co_state c) = cps" "idle (co_state c)"
    using G(1) L(3,4) by (auto simp: grown_def idle_def)
  have "ld_core (restore_tail env re file ld) = c" using c by (simp add: restore_tail_def Let_def)
  then show ?thesis using aligned_grown [OF L(1) G(1)] G(2) k by (auto simp: loaded_def)
qed

text \<open>The cache without a draft context.\<close>

definition cached_state :: "('m, 'x) restore_env \<Rightarrow> 'm \<Rightarrow> token list \<Rightarrow> ('m, 's, 'v) loader \<Rightarrow> bool" where
  "cached_state re x ts ld \<longleftrightarrow> state_codec holds stack recurrent (rt_get_data re) (rt_set_data re) \<and> holds x ts
     \<and> recurrent (co_mem (ld_core ld)) = recurrent x
     \<and> only_state (rt_get_data re x) (find_cache_files (ld_dir ld) (''-'' @ cache_hash (rt_sha re) ts (rt_model_path re)))"

lemma load_entries_sound:
  assumes "load_entries sd (op_pos_max ops) (op_clear ops) (length ts) es st = (st', hit)"
    and "state_codec holds stack recurrent gd sd" "holds x ts" "only_state (gd x) es"
    and "recurrent (kv_main st) = recurrent x" "holds (kv_main st) zs" "stack (kv_main st) = []"
    and "kv_mtp st = None" "\<not> mtp_loaded st"
  shows "(\<exists>zs. holds (kv_main st') zs) \<and> stack (kv_main st') = [] \<and> recurrent (kv_main st') = recurrent (kv_main st)
    \<and> (hit \<longrightarrow> holds (kv_main st') ts) \<and> \<not> mtp_loaded st'"
  using assms
proof (induction es arbitrary: st zs)
  case Nil
  then show ?case by auto
next
  case (Cons e es)
  obtain name bytes where e: "e = (name, bytes)" by fastforce
  have es: "only_state (gd x) es" using Cons.prems(4) by (simp add: only_state_def)
  show ?case
  proof (cases "read_entry bytes")
    case (Payload main mtp)
    then have main: "main = gd x" using Cons.prems(4) e by (simp add: only_state_def)
    obtain kv ok where kv: "sd (kv_main st) main = (kv, ok)" by fastforce
    have ws: "recurrent kv = recurrent (kv_main st)" "stack kv = []" "if ok then holds kv ts else \<exists>ys. holds kv ys"
      using Cons.prems(2,3,5,6,7) kv main unfolding state_codec_def by blast+
    then obtain ws where hw: "holds kv ws" by (metis (full_types))
    have m: "load_mirror sd (op_pos_max ops) (op_clear ops) p mtp (st\<lparr>kv_main := kv\<rparr>) = st\<lparr>kv_main := kv\<rparr>" for p
      using Cons.prems(8) by (simp add: load_mirror_def)
    show ?thesis
    proof (cases "ok \<and> op_pos_max ops kv + 1 = int (length ts)")
      case True
      with Cons.prems(1,9) e Payload kv m ws show ?thesis by auto
    next
      case False
      obtain st1 where st1: "load_entries sd (op_pos_max ops) (op_clear ops) (length ts) es st1 = (st', hit)"
        "st1 = st\<lparr>kv_main := kv\<rparr> \<or> st1 = st\<lparr>kv_main := op_clear ops kv, cdir := unlink name (cdir st)\<rparr>"
        using Cons.prems(1) e Payload kv False by (cases ok) auto
      obtain vs where v: "holds (kv_main st1) vs" using st1(2) hw clear [OF hw] by auto
      have r: "recurrent (kv_main st1) = recurrent x" "stack (kv_main st1) = []" "kv_mtp st1 = None" "\<not> mtp_loaded st1"
        using st1(2) ws(1,2) Cons.prems(5,8,9) by (auto simp: stack_ops recurrent_ops)
      from Cons.IH [OF st1(1) Cons.prems(2,3) es r(1) v r(2-4)] Cons.prems(5) r(1) show ?thesis by simp
    qed
  next
    case Unreadable
    with Cons.prems(1) e have r: "load_entries sd (op_pos_max ops) (op_clear ops) (length ts) es st = (st', hit)" by simp
    show ?thesis by (rule Cons.IH [OF r Cons.prems(2,3) es Cons.prems(5-9)])
  next
    case Delete_Entry
    with Cons.prems(1) e have r: "load_entries sd (op_pos_max ops) (op_clear ops) (length ts) es (st\<lparr>cdir := unlink name (cdir st)\<rparr>)
      = (st', hit)" by simp
    show ?thesis using Cons.IH [OF r Cons.prems(2,3) es] Cons.prems(5-9) by simp
  qed
qed

lemma load_cache_ok:
  assumes "load_cache env re ts ld = (hit, mtp, ld')" "tu_ops env = ops" "\<forall>k. rt_draft re k = None"
    and "cached_state re x ts ld"
    and "holds (co_mem (ld_core ld)) zs" "stack (co_mem (ld_core ld)) = []"
  obtains m ws where "ld_chat ld' = (ld_chat ld)\<lparr>ch_core := (ld_core ld)\<lparr>co_mem := m\<rparr>\<rparr>" "holds m ws" "stack m = []"
    "hit \<longrightarrow> holds m ts" "\<not> mtp" "rt_checkpoints re \<longrightarrow> m = co_mem (ld_core ld) \<and> \<not> hit"
proof (cases "rt_checkpoints re")
  case True
  with assms(1,5,6) show ?thesis by (intro that [of "co_mem (ld_core ld)" zs]) (simp_all add: load_cache_def)
next
  case False
  let ?st = "\<lparr>cdir = ld_dir ld, kv_main = co_mem (ld_core ld), kv_mtp = None, mtp_loaded = False\<rparr>"
  obtain st ok where t: "try_load_v1_cache (rt_set_data re) (op_pos_max ops) (op_clear ops) (rt_sha re) ts
      (rt_model_path re) ?st = (st, ok)" by fastforce
  have r: "ok = hit" "mtp = mtp_loaded st" "ld_chat ld' = (ld_chat ld)\<lparr>ch_core := (ld_core ld)\<lparr>co_mem := kv_main st\<rparr>\<rparr>"
    using assms(1-3) False t by (auto simp: load_cache_def Let_def)
  have "(\<exists>zs. holds (kv_main st) zs) \<and> stack (kv_main st) = [] \<and> recurrent (kv_main st) = recurrent (co_mem (ld_core ld))
      \<and> (ok \<longrightarrow> holds (kv_main st) ts) \<and> \<not> mtp_loaded st"
    using load_entries_sound [OF t [unfolded try_load_v1_cache_def Let_def], of "rt_get_data re" x zs] assms(4-6)
    by (simp add: cached_state_def)
  with r False that show ?thesis by blast
qed

lemma adopt_ok:
  assumes "holds (co_mem c) ts" "stack (co_mem c) = []" "wf_checkpoints cps (length ts)" "idle (co_state c)"
    and "cps \<noteq> [] \<longrightarrow> cp_n_past (last cps) = int (length ts)"
  shows "ldd ts cps (adopt_save ops ts cps False c)"
proof -
  have p: "op_pos_max ops (co_mem c) + 1 = int (length ts)" using pos_max [OF assms(1)] by simp
  show ?thesis
  proof (cases "cps = []")
    case True
    with assms(1,2,4) p show ?thesis
      by (simp add: loaded_def aligned_def Let_def synced_def adopt_save_def idle_def POS_MAX_def)
  next
    case False
    then have l: "last cps = cps ! (length cps - 1)" "0 < length cps" "ts \<noteq> []"
      using assms(3) by (cases cps; force simp: last_conv_nth wf_checkpoints_def)+
    have st: "stack (op_save ops (co_mem c)) = [Some ts]" if "recurrent (co_mem c)"
      using save(2) [OF assms(1) that l(3)] assms(2) by simp
    have "i = length cps - 1" if "i < length cps" "int (length cps) - 1 \<le> int i" for i using that by simp
    then have live: "[Some ts] ! nat (int i - (int (length cps) - 1)) = Some (take (nat (cp_n_past (cps ! i))) ts)"
      if "i < length cps" "int (length cps) - 1 \<le> int i" for i
      using that l assms(5) False by auto
    show ?thesis
      using False assms(1,3,4) p st live save(1) [OF assms(1)] l(2)
      by (auto simp: loaded_def aligned_def Let_def synced_def adopt_save_def idle_def wf_checkpoints_def recurrent_ops)
  qed
qed

lemma fast_restore_ok:
  assumes "fast_restore env re ts (Inr cps) n ld = Inr (hit, ld')" "tu_ops env = ops" "\<forall>k. rt_draft re k = None"
    and "cached_state re x ts ld"
    and "holds (co_mem (ld_core ld)) zs" "stack (co_mem (ld_core ld)) = []"
    and "wf_checkpoints cps (length ts)" "idle (co_state (ld_core ld))"
    and "cps \<noteq> [] \<longrightarrow> cp_n_past (last cps) = int (length ts)"
  shows "if hit then ldd ts cps (ld_core ld') \<and> \<not> rt_checkpoints re
    else \<exists>m ws. ld_chat ld' = (ld_chat ld)\<lparr>ch_core := (ld_core ld)\<lparr>co_mem := m\<rparr>\<rparr> \<and> holds m ws \<and> stack m = []
      \<and> (rt_checkpoints re \<longrightarrow> m = co_mem (ld_core ld))"
proof -
  obtain h mtp ld1 where l: "load_cache env re ts ld = (h, mtp, ld1)" by (metis prod_cases3)
  obtain m ws where m: "ld_chat ld1 = (ld_chat ld)\<lparr>ch_core := (ld_core ld)\<lparr>co_mem := m\<rparr>\<rparr>" "holds m ws" "stack m = []"
    "h \<longrightarrow> holds m ts" "\<not> mtp" "rt_checkpoints re \<longrightarrow> m = co_mem (ld_core ld) \<and> \<not> h"
    by (rule load_cache_ok [OF l assms(2-6)])
  note run = assms(1) [unfolded fast_restore.simps [of _ _ _ _ n] Let_def l prod.case]
  show ?thesis
  proof (cases h)
    case False
    with run m show ?thesis by auto
  next
    case True
    have "\<not> canary_eligible env mtp (co_mem (ld_core ld1))" using m(5) by (simp add: canary_eligible_def)
    then have r: "hit" "ld_core ld' = adopt_save ops ts cps False (ld_core ld1)"
      using run True assms(2) by auto
    have "ldd ts cps (adopt_save ops ts cps False (ld_core ld1))"
      using m True assms(7-9) by (intro adopt_ok) auto
    then show ?thesis using r m(6) True by simp
  qed
qed

lemma perform_restore_ok:
  fixes env :: "('m, 's, 'v) turn_env"
  defines "file re path \<equiv> rt_files re (apply_save_dir (rt_save_dir re) (append_save_ext path))"
  assumes ops: "tu_ops env = ops" and env: "0 < tu_n_batch env" "tu_n_ctx env \<le> POS_MAX"
    and fresh: "ldd (fst (ch_system (ld_chat ld))) [] (ld_core ld)"
    and saved: "read_token_save (file re path) = Inr (Some ts)" "read_checkpoint_offsets (file re path) = Inr cps"
      "wf_checkpoints cps (length ts)" "cps \<noteq> [] \<longrightarrow> cp_n_past (last cps) = int (length ts)"
    and cache: "\<forall>k. rt_draft re k = None" "cached_state re x ts ld"
    and git: "\<forall>k. fst (rt_git_answer re k) = 0"
  obtains st ld' where "perform_restore env re path ld = Inr (st, ld')"
    "case st of
       Restore_Ok \<Rightarrow> \<exists>n note. (n = length ts \<or> int n \<in> cp_n_past ` set cps)
         \<and> note \<in> {[], build_user_assistant_turn env (git_note (saved_git_sha (file re path)) (rt_git_head re))}
         \<and> ldd (take n ts @ note) (filter (\<lambda>cp. cp_n_past cp \<le> int n) cps) (ld_core ld')
     | Restore_Failed \<Rightarrow> ld' = ld \<or> emp (fst (ch_system (ld_chat ld))) (ld_core ld')
     | Restore_Cancelled \<Rightarrow> co_state (ld_core ld') = co_state (ld_core ld) \<and> co_n_past (ld_core ld') = co_n_past (ld_core ld)
         \<and> (if rt_checkpoints re then co_mem (ld_core ld') = co_mem (ld_core ld) else \<exists>ws. holds (co_mem (ld_core ld')) ws)"
proof (cases "path = [] \<or> file re path = None \<or> int (length ts) \<ge> tu_n_ctx env")
  case True
  then have "perform_restore env re path ld = Inr (Restore_Failed, ld)"
    using fresh saved by (auto simp: perform_restore_def Let_def file_def loaded_def)
  then show thesis by (rule that) simp
next
  case False
  let ?file = "file re path" and ?path = "rt_abs re (apply_save_dir (rt_save_dir re) (append_save_ext path))"
  have F: "al (ld_core ld)" "idle (co_state (ld_core ld))" "ss_prompt_checkpoints (co_state (ld_core ld)) = []"
    "tracker (ld_core ld) = fst (ch_system (ld_chat ld))"
    using fresh by (auto simp: loaded_def)
  note D = alignedD [OF F(1)]
  have s0: "stack (co_mem (ld_core ld)) = []"
    using D(2,3,5) F(2,3) no_stack(1) by (cases "recurrent (co_mem (ld_core ld))") (auto simp: idle_def)
  obtain hit ld1 where f: "fast_restore env re ts (Inr cps) MAX_CANARY_RETRIES ld = Inr (hit, ld1)"
  proof -
    obtain h mtp l1 where l: "load_cache env re ts ld = (h, mtp, l1)" by (metis prod_cases3)
    obtain m ws where "\<not> mtp" by (rule load_cache_ok [OF l ops cache D(10) s0]) blast
    then have "\<exists>r. fast_restore env re ts (Inr cps) MAX_CANARY_RETRIES ld = Inr r"
      by (auto simp: fast_restore.simps [of _ _ _ _ MAX_CANARY_RETRIES] l Let_def canary_eligible_def)
    with that show thesis by (metis prod.collapse)
  qed
  note H = fast_restore_ok [OF f ops cache D(10) s0 saved(3) F(2) saved(4)]
  have len: "int (length ts) \<le> POS_MAX" using False env(2) by simp
  have run: "perform_restore env re path ld = (if hit then Inr (Restore_Ok, restore_tail env re ?file ld1)
      else case slow_restore env re ?path ts cps ld1 of Inl e \<Rightarrow> Inl e
        | Inr (Restore_Ok, ld) \<Rightarrow> Inr (Restore_Ok, restore_tail env re ?file ld) | Inr (st, ld) \<Rightarrow> Inr (st, ld))"
    using False F(3,4) saved(1,2) f unfolding file_def by (auto simp: perform_restore_def Let_def)
  show thesis
  proof (cases hit)
    case True
    then have "ldd ts cps (ld_core ld1)" using H by simp
    from tail_ok [OF this ops env git, of ?file] obtain nt where
      n: "nt \<in> {[], build_user_assistant_turn env (git_note (saved_git_sha ?file) (rt_git_head re))}"
      "ldd (ts @ nt) cps (ld_core (restore_tail env re ?file ld1))" by blast
    have "filter (\<lambda>cp. cp_n_past cp \<le> int (length ts)) cps = cps"
      using saved(3) by (simp add: wf_checkpoints_def filter_id_conv)
    with n show thesis
      by (intro that [OF run [unfolded if_P [OF True]]]) (auto intro!: exI [of _ "length ts"])
  next
    case F2: False
    then obtain m ws where m: "ld_chat ld1 = (ld_chat ld)\<lparr>ch_core := (ld_core ld)\<lparr>co_mem := m\<rparr>\<rparr>" "holds m ws" "stack m = []"
      "rt_checkpoints re \<longrightarrow> m = co_mem (ld_core ld)" using H by auto
    obtain st ld2 where r: "slow_restore env re ?path ts cps ld1 = Inr (st, ld2)"
      using env(1) slow_restore_returns by (metis not_gr_zero)
    note S = slow_restore_ok [OF r ops env(2) _ len saved(3), of ws]
    show thesis
    proof (cases st)
      case Restore_Ok
      then obtain n where n: "n = length ts \<or> int n \<in> cp_n_past ` set cps"
        "ldd (take n ts) (filter (\<lambda>cp. cp_n_past cp \<le> int n) cps) (ld_core ld2)"
        using S m F(2) by auto
      from tail_ok [OF n(2) ops env git, of ?file] obtain nt where
        nt: "nt \<in> {[], build_user_assistant_turn env (git_note (saved_git_sha ?file) (rt_git_head re))}"
        "ldd (take n ts @ nt) (filter (\<lambda>cp. cp_n_past cp \<le> int n) cps) (ld_core (restore_tail env re ?file ld2))"
        by blast
      show thesis
      proof (rule that [of Restore_Ok "restore_tail env re ?file ld2"])
        show "perform_restore env re path ld = Inr (Restore_Ok, restore_tail env re ?file ld2)"
          using run r F2 Restore_Ok by simp
      qed (use n(1) nt in \<open>simp only: restore_status.case, blast\<close>)
    next
      case Restore_Cancelled
      then show thesis
        by (intro that [of st ld2]) (use run r F2 S m F(2) in auto)
    next
      case Restore_Failed
      then show thesis
        by (intro that [of st ld2]) (use run r F2 S m F(2) in auto)
    qed
  qed
qed

end

subsection \<open>Properties\<close>

lemma last_at_none: "c \<notin> set b \<Longrightarrow> last_at [c] b = None"
  by (induction b) auto

lemma last_at_app: "c \<notin> set b \<Longrightarrow> last_at [c] (a @ c # b) = Some (length a)"
  by (induction a) (simp_all add: last_at_none)

text \<open>The label of a checkpoint, shown at the prompt and given back, selects that checkpoint, whatever its prompt
  contains and also when it is cut.\<close>

theorem selection_roundtrip:
  assumes "cp \<in> set cps" "- (2 ^ 31) \<le> cp_n_past cp" "cp_n_past cp < 2 ^ 31"
  shows "parse_checkpoint_selection (checkpoint_label cp) = Some (cp_n_past cp)
    \<and> select_limit cps (checkpoint_label cp) n_all = cp_n_past cp"
proof -
  let ?n = "int_string (cp_n_past cp)"
  obtain l where l: "checkpoint_label cp = l @ '' ('' @ ?n @ '' tokens)''"
    by (simp add: checkpoint_label_def Let_def)
  have d: "CHR ''('' \<notin> set ?n" "CHR '')'' \<notin> set ?n"
    using digits_free [of "CHR ''(''"] digits_free [of "CHR '')''"] by (auto simp: int_string_def is_digit_def)
  have p: "str_rfind (checkpoint_label cp) ''('' = Some (length l + 1)"
    using last_at_app [of "CHR ''(''" "?n @ '' tokens)''" "l @ '' ''"] d(1) by (simp add: str_rfind_def l)
  have q: "str_rfind (checkpoint_label cp) '')'' = Some (length l + length ?n + 9)"
    using last_at_app [of "CHR '')''" "[]" "l @ '' ('' @ ?n @ '' tokens''"] by (simp add: str_rfind_def l)
  have "stoi (?n @ '' tokens'') = Inr (cp_n_past cp)"
    by (rule stoi_int_string) (use assms(2,3) in \<open>simp_all add: is_digit_def\<close>)
  then have "parse_checkpoint_selection (checkpoint_label cp) = Some (cp_n_past cp)"
    by (simp add: parse_checkpoint_selection_def p q) (simp add: l)
  then show ?thesis using assms(1) by (auto simp: select_limit_def)
qed

theorem selection_roundtrip_witness:
  "parse_checkpoint_selection (checkpoint_label \<lparr>cp_n_past = 42, cp_prompt = ''f(7) tokens)''\<rparr>) = Some 42
    \<and> select_limit [\<lparr>cp_n_past = 42, cp_prompt = ''f(7) tokens)''\<rparr>]
        (checkpoint_label \<lparr>cp_n_past = 42, cp_prompt = ''f(7) tokens)''\<rparr>) 99 = 42"
  using selection_roundtrip [of "\<lparr>cp_n_past = 42, cp_prompt = ''f(7) tokens)''\<rparr>" "[\<lparr>cp_n_past = 42, cp_prompt = ''f(7) tokens)''\<rparr>]" 99]
  by simp

type_synonym ('s, 'v) mem_turn_env = "(memory, 's, 'v) turn_env"

abbreviation mem_loaded :: "token list \<Rightarrow> prompt_checkpoint list \<Rightarrow> memory core \<Rightarrow> bool" where
  "mem_loaded \<equiv> loaded mem_holds mem_stack mem_recurrent"

abbreviation restore_file :: "('m, 'v) restore_env \<Rightarrow> string \<Rightarrow> string option" where
  "restore_file re path \<equiv> rt_files re (apply_save_dir (rt_save_dir re) (append_save_ext path))"

text \<open>What a load without a draft head makes of the tokens and checkpoints of a save: all of it or, as the user
  chose, the part up to a checkpoint, with the note on the git revision; or a fresh session; or, when the
  user cancelled, the session as it was.\<close>

definition load_result ::
  "('s, 'v) mem_turn_env \<Rightarrow> (memory, 'v) restore_env \<Rightarrow> string \<Rightarrow> token list \<Rightarrow> prompt_checkpoint list
   \<Rightarrow> (memory, 's, 'v) loader \<Rightarrow> restore_status \<Rightarrow> (memory, 's, 'v) loader \<Rightarrow> bool" where
  "load_result env re path ts cps ld st ld' \<longleftrightarrow>
     (case st of
        Restore_Ok \<Rightarrow> \<exists>n note. (n = length ts \<or> int n \<in> cp_n_past ` set cps)
          \<and> note \<in> {[], build_user_assistant_turn env (git_note (saved_git_sha (restore_file re path)) (rt_git_head re))}
          \<and> mem_loaded (take n ts @ note) (filter (\<lambda>cp. cp_n_past cp \<le> int n) cps) (ld_core ld')
      | Restore_Failed \<Rightarrow> ld' = ld
          \<or> emptied mem_holds mem_stack mem_recurrent (fst (ch_system (ld_chat ld))) (ld_core ld')
      | Restore_Cancelled \<Rightarrow> co_state (ld_core ld') = co_state (ld_core ld) \<and> co_n_past (ld_core ld') = co_n_past (ld_core ld)
          \<and> (if rt_checkpoints re then co_mem (ld_core ld') = co_mem (ld_core ld)
             else \<exists>ws. mem_holds (co_mem (ld_core ld')) ws))"

text \<open>C5: A session saved at the prompt and loaded into a fresh one, without a draft head, whatever signals arrive,
  \<open>llama_decode\<close> answers and the user chooses, from the cache entry of the saved state if there is one (it may
  be cut off or refused), else by decoding: the load returns, and after a success tokens, memory, position,
  checkpoints and saved states are those of the saved session up to the chosen point and agree with each
  other, with the note on the git revision behind; after a failure the session is fresh or as it was; after a
  cancellation tracker and position are as they were. Assumed are that the state functions of llama.cpp are
  inverse to each other and that no other entry of the cache has the hash of the save.\<close>

theorem save_then_load:
  fixes env :: "('s, 'v) mem_turn_env" and c0 :: "memory core"
  defines "ts \<equiv> tracker c0" and "cps \<equiv> ss_prompt_checkpoints (co_state c0)"
  assumes saved: "aligned mem_holds mem_stack mem_recurrent c0" "cps \<noteq> [] \<Longrightarrow> cp_n_past (last cps) = co_n_past c0"
      "write_token_save_v3 capacity sha ts cps session = (restore_file re path, True)"
      "savable sha ts cps session" "list_all (\<lambda>cp. length (cp_prompt cp) \<le> UINT16_MAX) cps"
    and env: "tu_ops env = memory_ops" "0 < tu_n_batch env" "tu_n_ctx env \<le> POS_MAX"
    and fresh: "mem_loaded (fst (ch_system (ld_chat ld))) [] (ld_core ld)"
      "mem_recurrent (co_mem (ld_core ld)) = mem_recurrent (co_mem c0)"
    and cache: "\<And>k. rt_draft re k = None" "state_codec mem_holds mem_stack mem_recurrent (rt_get_data re) (rt_set_data re)"
      "find_cache_files d (''-'' @ cache_hash (rt_sha re) ts (rt_model_path re)) = []"
      "ld_dir ld = (if cached then fst (write_v1_cache (rt_get_data re) (op_pos_max memory_ops) (rt_sha re) device save_path ts
         (rt_model_path re) old_hash (co_mem c0) None d) else d)" "length (rt_get_data re (co_mem c0)) < 2 ^ 62"
    and git: "\<And>k. fst (rt_git_answer re k) = 0"
  shows "\<exists>st ld'. perform_restore env re path ld = Inr (st, ld') \<and> load_result env re path ts cps ld st ld'"
proof -
  note A = rs.alignedD [OF saved(1)]
  have np: "co_n_past c0 = int (length ts)" "int (length ts) \<le> POS_MAX"
    using A(9,10) mem_holds_bound by (auto simp: ts_def)
  have b: "list_all (\<lambda>c. - (2 ^ 31) \<le> cp_n_past c \<and> cp_n_past c < 2 ^ 31 \<and> length (cp_prompt c) \<le> UINT16_MAX) cps"
    using A(7) np(2) saved(5) by (fastforce simp: list_all_iff cps_def ts_def POS_MAX_def)
  have r: "read_token_save (restore_file re path) = Inr (Some ts)" "read_checkpoint_offsets (restore_file re path) = Inr cps"
    using written_save_read [OF saved(4,3) b] by simp_all
  have w: "wf_checkpoints cps (length ts)"
    using A(4,7,8) by (auto simp: wf_checkpoints_def cps_def ts_def)
  have l: "cps \<noteq> [] \<longrightarrow> cp_n_past (last cps) = int (length ts)" using saved(2) np(1) by simp
  have "only_state (rt_get_data re (co_mem c0))
      (find_cache_files (ld_dir ld) (''-'' @ cache_hash (rt_sha re) ts (rt_model_path re)))"
    using written_state [OF cache(3), of "rt_get_data re" "co_mem c0"] cache(3,5) by (simp add: cache(4) only_state_def)
  then have c: "rs.cached_state re (co_mem c0) ts ld"
    using cache(2) fresh(2) A(10) by (simp add: rs.cached_state_def ts_def)
  show ?thesis
    by (rule rs.perform_restore_ok [OF env fresh(1) r w l _ c]) (auto simp: load_result_def cache(1) git)
qed

text \<open>The revision that was written is the revision that is compared.\<close>

lemma saved_git_sha_of_save:
  assumes "savable sha ts cps session" "length (save_header sha (length ts) (length cps) session) < 255"
  shows "saved_git_sha (Some (save_bytes sha ts cps session)) = sha"
proof -
  define h where "h = save_header sha (length ts) (length cps) session"
  obtain b where b: "save_bytes sha ts cps session = h @ ch_nl # b" by (simp add: save_bytes_def h_def)
  have sha: "list_all is_hex sha" using assms(1) by (simp add: savable_def)
  have nl: "ch_nl \<notin> set h" unfolding h_def by (rule save_header_chars [OF sha])
  have "first_at [ch_nl] (take 255 (h @ ch_nl # b)) = Some (length h)"
    using assms(2) nl by (simp add: h_def [symmetric] first_at_single take_Cons')
  moreover have "CHR 0x00 \<notin> set h"
    using hex_free [OF sha, of "CHR 0x00"] digits_free [of "CHR 0x00"]
    by (auto simp: h_def save_header_def hdr_defs is_hex_def is_digit_def int_string_def)
  then have "c_str (h @ [ch_nl]) = h @ [ch_nl]" unfolding c_str_def by (intro takeWhile_eq_all_conv [THEN iffD2]) auto
  moreover obtain r where h: "h = ''LIM_SAVE_V3 git_sha='' @ sha @ CHR '' '' # r"
    by (simp add: h_def save_header_def hdr_defs)
  moreover have "str_find (h @ [ch_nl]) ''git_sha='' 0 = Some 12" unfolding h by (simp add: str_find_def)
  moreover have "takeWhile (\<lambda>c. c \<noteq> CHR '' '') (sha @ CHR '' '' # r @ [ch_nl]) = sha"
    using hex_free [OF sha, of "CHR '' ''"] by (intro takeWhile_tail [THEN trans]) (auto simp: is_hex_def is_digit_def)
  ultimately show ?thesis by (simp add: saved_git_sha_def b Let_def)
qed

definition ex_turn_env :: "(nat, view) mem_turn_env" where
  "ex_turn_env = \<lparr>tu_ops = memory_ops, tu_n_batch = 2, tu_n_ctx = 100, tu_mt = chatml, tu_tokenize = (\<lambda>_ _. [9]),
     tu_is_eog = (\<lambda>t. t = 0), tu_piece = (\<lambda>t. ''x''), tu_special = (\<lambda>_. False), tu_bos = 8, tu_eot = 0, tu_mode = 0,
     tu_dummy = None, tu_max_auto = None, tu_load = None, tu_prompt_file = ''p'', tu_config_dir = ''c'',
     tu_userprompt = (\<lambda>_. None), tu_tools = (\<lambda>_. ex_te), tu_feed = (\<lambda>_. quiet), tu_rows = (\<lambda>_ _ _. [None]),
     tu_gen = (\<lambda>_. ex_gen_env [] (\<lambda>_. []))\<rparr>"

definition ex_save :: "string option" where
  "ex_save = fst (write_token_save_v3 (Some 500) ''0af'' (tracker two_turns) (ss_prompt_checkpoints (co_state two_turns)) 4)"

definition ex_restore_env :: "bool \<Rightarrow> string option \<Rightarrow> (memory, view) restore_env" where
  "ex_restore_env whole line = \<lparr>rt_save_dir = ''.'', rt_files = (\<lambda>_. ex_save), rt_abs = id, rt_checkpoints = True,
     rt_model_path = ''m'', rt_sha = ex_sha, rt_set_data = (\<lambda>m _. (m, False)), rt_get_data = (\<lambda>_. []), rt_capacity = None,
     rt_draft = (\<lambda>_. None), rt_rows = (\<lambda>_. [None]), rt_line = (False, line), rt_stop = (\<lambda>_. False),
     rt_answer = (\<lambda>k. if whole \<or> k = 0 then (0, 0) else (2, 1)), rt_git_head = ''0ae'', rt_git_answer = (\<lambda>_. (0, 0))\<rparr>"

definition ex_loader :: "(memory, nat, view) loader" where
  "ex_loader = \<lparr>ld_chat = \<lparr>ch_core = ex_feed [1, 2] ex_core, ch_smpl = 0, ch_rows = [None], ch_last_context = 0,
       ch_last_input = [], ch_depth = 0, ch_was_mid = False, ch_text = [], ch_gen = build_result (ex_gen_env [] (\<lambda>_. []))
         (gen_init (ex_gen_env [] (\<lambda>_. [])) False 0 0 [None] ex_core), ch_system = ([1, 2], ''s''),
       ch_fs = ex_fs, ch_clock = 0\<rparr>, ld_dir = [], ld_ckpt_idx = - 1\<rparr>"

lemma two_turns_fields:
  "tracker two_turns = [1, 2, 3, 4]"
  "ss_prompt_checkpoints (co_state two_turns) = [\<lparr>cp_n_past = 2, cp_prompt = ''p''\<rparr>, \<lparr>cp_n_past = 4, cp_prompt = ''p''\<rparr>]"
  "co_n_past two_turns = 4"
  by code_simp+

lemma ex_loader_fresh: "mem_loaded (fst (ch_system (ld_chat ex_loader))) [] (ld_core ex_loader)"
proof -
  have "orderly_step ex_session ex_core (ex_feed [1, 2] ex_core)" by (rule feed_step) code_simp
  then have "mem_aligned (ex_feed [1, 2] ex_core)" using reachable_aligned [OF r_into_rtranclp] fresh_aligned [OF ex_core_fresh] by fast
  moreover have "tracker (ex_feed [1, 2] ex_core) = [1, 2]"
    "ss_prompt_checkpoints (co_state (ex_feed [1, 2] ex_core)) = []" "idle (co_state (ex_feed [1, 2] ex_core))"
    by code_simp+
  ultimately show ?thesis by (simp add: loaded_def ex_loader_def)
qed

text \<open>A serialisation of the example memories: the tokens of the rows, four bytes each.\<close>

definition ex_get_data :: "memory \<Rightarrow> string" where
  "ex_get_data m = concat (map (\<lambda>(_, t). int32_bytes t) (case m of Attention kv \<Rightarrow> kv | Hybrid kv _ \<Rightarrow> kv))"

definition ex_set_data :: "memory \<Rightarrow> string \<Rightarrow> memory \<times> bool" where
  "ex_set_data m b =
     (case read_n read_int32 (length b div 4) b of
        None \<Rightarrow> (m, False)
      | Some (ts, _) \<Rightarrow> (op_decode memory_ops (op_clear memory_ops m) 0 ts, True))"

lemma ex_get_data_holds: "mem_holds m ts \<Longrightarrow> ex_get_data m = concat (map int32_bytes ts)"
proof -
  have "map (\<lambda>(_, t). int32_bytes t) (rows_of ts) = map int32_bytes (map (\<lambda>i. ts ! i) [0..<length ts])"
    by (simp add: rows_of_def)
  also have "\<dots> = map int32_bytes ts" by (simp only: map_nth)
  finally have "map (\<lambda>(_, t). int32_bytes t) (rows_of ts) = map int32_bytes ts" .
  then show "mem_holds m ts \<Longrightarrow> ex_get_data m = concat (map int32_bytes ts)"
    by (cases m) (simp_all add: ex_get_data_def)
qed

lemma ex_set_data_of: "ex_set_data m (concat (map int32_bytes ts)) = (op_decode memory_ops (op_clear memory_ops m) 0 ts, True)"
  using int32.read_all_exact [of ts] by (simp add: ex_set_data_def length_tokens_bytes)

lemma ex_codec: "state_codec mem_holds mem_stack mem_recurrent ex_get_data ex_set_data"
  unfolding state_codec_def
proof (intro allI impI)
  fix x xs m zs m' ok
  assume h: "mem_holds x xs" "mem_holds m zs" "mem_recurrent m = mem_recurrent x" "mem_stack m = []"
    "ex_set_data m (ex_get_data x) = (m', ok)"
  then have m': "m' = op_decode memory_ops (op_clear memory_ops m) 0 xs" "ok"
    by (simp_all only: ex_get_data_holds ex_set_data_of prod.inject)
  have "mem_holds (op_clear memory_ops m) []" by (rule mem.clear [OF h(2)])
  from mem.decode [OF this, of xs] have "mem_holds m' xs" using mem_holds_bound [OF h(1)] by (simp add: m')
  then show "mem_recurrent m' = mem_recurrent m \<and> mem_stack m' = [] \<and> (if ok then mem_holds m' xs else \<exists>ys. mem_holds m' ys)"
    using m'(2) rs.recurrent_ops(1,2) rs.stack_ops(1,2) unfolding m'(1) by simp
qed

definition ex_cached_env :: "(memory, view) restore_env" where
  "ex_cached_env = (ex_restore_env True (Some ''p (2 tokens)''))\<lparr>rt_checkpoints := False,
     rt_get_data := ex_get_data, rt_set_data := ex_set_data\<rparr>"

lemma ex_cached_fields:
  "rt_get_data ex_cached_env = ex_get_data" "rt_set_data ex_cached_env = ex_set_data" "rt_sha ex_cached_env = ex_sha"
  "rt_model_path ex_cached_env = ''m''" "rt_draft ex_cached_env k = None" "rt_git_answer ex_cached_env k = (0, 0)"
  "\<not> rt_checkpoints ex_cached_env"
  by (simp_all add: ex_cached_env_def ex_restore_env_def)

lemma ld_dir_put: "ld_dir (ld\<lparr>ld_dir := d\<rparr>) = d"
  by simp

definition ex_cached_loader :: "(memory, nat, view) loader" where
  "ex_cached_loader = ex_loader\<lparr>ld_dir := fst (write_v1_cache ex_get_data (op_pos_max memory_ops) ex_sha (Some 100) ''s.save''
     (tracker two_turns) ''m'' [] (co_mem two_turns) None [])\<rparr>"

lemma save_then_load_witness:
  "\<exists>st ld'. perform_restore ex_turn_env ex_cached_env ''s'' ex_cached_loader = Inr (st, ld')
    \<and> load_result ex_turn_env ex_cached_env ''s'' (tracker two_turns)
        (ss_prompt_checkpoints (co_state two_turns)) ex_cached_loader st ld'"
proof (rule save_then_load [where capacity = "Some 500" and sha = "''0af''" and session = 4 and cached = True and d = "[]"
      and device = "Some 100" and save_path = "''s.save''" and old_hash = "[]"])
  have a: "mem_aligned two_turns" by (rule reachable_aligned [OF two_turns_reachable fresh_aligned [OF ex_core_fresh]])
  then show "aligned mem_holds mem_stack mem_recurrent two_turns" .
  have h: "mem_holds (co_mem two_turns) [1, 2, 3, 4]" using rs.alignedD(10) [OF a] by (simp add: two_turns_fields)
  show "cp_n_past (last (ss_prompt_checkpoints (co_state two_turns))) = co_n_past two_turns"
    by (simp add: two_turns_fields)
  show "write_token_save_v3 (Some 500) ''0af'' (tracker two_turns) (ss_prompt_checkpoints (co_state two_turns)) 4
      = (restore_file ex_cached_env ''s'', True)"
    by (simp add: ex_cached_env_def ex_restore_env_def ex_save_def two_turns_fields save_example_simps)
  show "savable ''0af'' (tracker two_turns) (ss_prompt_checkpoints (co_state two_turns)) 4"
    by (simp add: two_turns_fields save_example_simps)
  show "list_all (\<lambda>cp. length (cp_prompt cp) \<le> UINT16_MAX) (ss_prompt_checkpoints (co_state two_turns))"
    by (simp add: two_turns_fields UINT16_MAX_def)
  show "mem_loaded (fst (ch_system (ld_chat ex_cached_loader))) [] (ld_core ex_cached_loader)"
    using ex_loader_fresh by (simp add: ex_cached_loader_def)
  show "mem_recurrent (co_mem (ld_core ex_cached_loader)) = mem_recurrent (co_mem two_turns)"
  proof -
    have "co_mem (ld_core ex_cached_loader) = co_mem (ex_feed [1, 2] ex_core)" by (simp add: ex_cached_loader_def ex_loader_def)
    moreover have "mem_recurrent (co_mem (ex_feed [1, 2] ex_core))" "mem_recurrent (co_mem two_turns)" by code_simp+
    ultimately show ?thesis by simp
  qed
  show "state_codec mem_holds mem_stack mem_recurrent (rt_get_data ex_cached_env) (rt_set_data ex_cached_env)"
    using ex_codec by (simp add: ex_cached_env_def)
  show "length (rt_get_data ex_cached_env (co_mem two_turns)) < 2 ^ 62"
    using ex_get_data_holds [OF h] length_tokens_bytes [of "[1, 2, 3, 4]"] by (simp add: ex_cached_env_def)
  show "ld_dir ex_cached_loader = (if True then fst (write_v1_cache (rt_get_data ex_cached_env) (op_pos_max memory_ops)
      (rt_sha ex_cached_env) (Some 100) ''s.save'' (tracker two_turns) (rt_model_path ex_cached_env) [] (co_mem two_turns) None [])
      else [])"
    unfolding ex_cached_fields ex_cached_loader_def ld_dir_put if_True ..
  show "find_cache_files [] (''-'' @ cache_hash (rt_sha ex_cached_env) (tracker two_turns) (rt_model_path ex_cached_env)) = []"
    by (simp add: find_cache_files_def)
qed (simp_all add: ex_turn_env_def ex_cached_fields POS_MAX_def)

text \<open>In the example the state is taken from the cache.\<close>

lemma ex_load_hits: "fst (load_cache ex_turn_env ex_cached_env (tracker two_turns) ex_cached_loader)"
proof -
  have a: "mem_aligned two_turns" by (rule reachable_aligned [OF two_turns_reachable fresh_aligned [OF ex_core_fresh]])
  have h: "mem_holds (co_mem two_turns) [1, 2, 3, 4]" using rs.alignedD(10) [OF a] by (simp add: two_turns_fields)
  define b where "b = concat (map int32_bytes [1, 2, 3, 4 :: token])"
  have g: "ex_get_data (co_mem two_turns) = b" unfolding b_def by (rule ex_get_data_holds [OF h])
  have l: "length b = 16" unfolding b_def length_tokens_bytes by simp
  then have ne: "b \<noteq> []" by auto
  have p: "mem_pos_max (co_mem two_turns) = 3" using mem.pos_max [OF h] by simp
  have hash: "cache_hash ex_sha ts ''m'' = ''0123456789ab''" for ts by (simp add: cache_hash_def ex_sha_def)
  let ?e = "cache_file_header 16 0 @ [ch_nl] @ b"
  have "length (nat_string 16) = 2" by code_simp
  then have le: "length ?e = 53" using l by (simp add: cache_file_header_def CACHE_MAGIC_def nat_string_small)
  have w: "ld_dir ex_cached_loader = [(''s-0123456789ab'', ?e)]"
    using l le p ne
    by (simp add: ex_cached_loader_def write_v1_cache_def hash two_turns_fields g remove_orphans_def save_file_name_def
        str_rfind_def ends_with_def SAVE_EXT_def find_cache_files_by_prefix_def find_cache_files_def remove_all_def
        u64_def dir_put_def unlink_def cache_filename_def Let_def)
  have f: "find_cache_files [(''s-0123456789ab'', ?e)] (''-'' @ ''0123456789ab'') = [(''s-0123456789ab'', ?e)]"
    by (simp add: find_cache_files_def ends_with_def)
  have r: "read_entry ?e = Payload b []" using read_written_entry [of b "[]"] l by simp
  have d: "ex_set_data m b = (op_decode memory_ops (op_clear memory_ops m) 0 [1, 2, 3, 4], True)" for m
    unfolding b_def by (rule ex_set_data_of)
  have "mem_holds (co_mem (ld_core ex_loader)) [1, 2]"
    using ex_loader_fresh rs.alignedD(10) [of "ld_core ex_loader"] by (simp add: loaded_def ex_loader_def)
  from mem.clear [OF this] mem.decode [of "op_clear memory_ops (co_mem (ld_core ex_loader))" "[]" "[1, 2, 3, 4]"]
  have "mem_holds (op_decode memory_ops (op_clear memory_ops (co_mem (ld_core ex_loader))) 0 [1, 2, 3, 4]) [1, 2, 3, 4]"
    by (simp add: POS_MAX_def)
  from mem.pos_max [OF this]
  have q: "op_pos_max memory_ops (op_decode memory_ops (op_clear memory_ops (co_mem (ld_core ex_loader))) 0 [1, 2, 3, 4]) = 3"
    by simp
  have c: "co_mem (ld_core ex_cached_loader) = co_mem (ld_core ex_loader)" by (simp add: ex_cached_loader_def)
  have o: "tu_ops ex_turn_env = memory_ops" by (simp add: ex_turn_env_def)
  show ?thesis
    using ex_cached_fields(7)
    by (simp add: load_cache_def try_load_v1_cache_def Let_def ex_cached_fields hash w f [simplified] r [simplified] d q c o
        two_turns_fields load_mirror_def del: memory_ops_simps)
qed

subsection \<open>Loads that go wrong\<close>

text \<open>A cache entry whose state cannot be read leaves the memory as the failed read leaves it, here empty; the user
  who then cancels at the Restore prompt keeps a session whose tokens the memory no longer holds.\<close>

definition ex_entry :: dir where
  "ex_entry = [(''s-0123456789ab'', cache_file_header 2 3 @ [ch_nl] @ ''kv'' @ ''mir'')]"

definition ex_fast_env :: "token list \<Rightarrow> prompt_checkpoint list \<Rightarrow> bool \<Rightarrow> memory option \<Rightarrow> (memory, view) restore_env" where
  "ex_fast_env ts cps ok draft = (ex_restore_env True None)\<lparr>rt_checkpoints := False,
     rt_files := (\<lambda>_. fst (write_token_save_v3 (Some 500) ''0ae'' ts cps 4)),
     rt_set_data := (\<lambda>m _. if ok then (op_decode memory_ops (op_clear memory_ops m) 0 ts, True) else (op_clear memory_ops m, False)),
     rt_draft := (\<lambda>_. draft)\<rparr>"

definition ex_load :: "token list \<Rightarrow> prompt_checkpoint list \<Rightarrow> bool \<Rightarrow> memory option \<Rightarrow> (restore_status \<times> memory core) option" where
  "ex_load ts cps ok draft =
     (case perform_restore ex_turn_env (ex_fast_env ts cps ok draft) ''s'' (ex_loader\<lparr>ld_dir := ex_entry\<rparr>) of
        Inl _ \<Rightarrow> None | Inr (st, ld) \<Rightarrow> Some (st, ld_core ld))"

lemma ex_load_eq:
  assumes "savable ''0ae'' ts cps 4" "length (save_bytes ''0ae'' ts cps 4) \<le> 500" "length ts < 100"
    and "list_all (\<lambda>c. - (2 ^ 31) \<le> cp_n_past c \<and> cp_n_past c < 2 ^ 31 \<and> length (cp_prompt c) \<le> UINT16_MAX) cps"
    and "fast_restore ex_turn_env (ex_fast_env ts cps ok draft) ts (Inr cps) MAX_CANARY_RETRIES
      (ex_loader\<lparr>ld_dir := ex_entry\<rparr>) = Inr (hit, ld)"
  shows "ex_load ts cps ok draft =
    (if hit then Some (Restore_Ok, ld_core (restore_tail ex_turn_env (ex_fast_env ts cps ok draft) (Some (save_bytes ''0ae'' ts cps 4)) ld))
     else case slow_restore ex_turn_env (ex_fast_env ts cps ok draft) ''./s.save'' ts cps ld of Inl _ \<Rightarrow> None
       | Inr (Restore_Ok, ld) \<Rightarrow> Some (Restore_Ok, ld_core (restore_tail ex_turn_env (ex_fast_env ts cps ok draft)
            (Some (save_bytes ''0ae'' ts cps 4)) ld))
       | Inr (st, ld) \<Rightarrow> Some (st, ld_core ld))"
proof -
  let ?re = "ex_fast_env ts cps ok draft" and ?ld = "ex_loader\<lparr>ld_dir := ex_entry\<rparr>"
  have w: "write_token_save_v3 (Some 500) ''0ae'' ts cps 4 = (Some (save_bytes ''0ae'' ts cps 4), True)"
    using assms(2) by (simp add: write_token_save_v3_def Let_def)
  note R = written_save_read [OF assms(1) w assms(4)]
  have f: "rt_files ?re p = Some (save_bytes ''0ae'' ts cps 4)" "rt_abs ?re p = p" "rt_save_dir ?re = ''.''" for p
    using w by (simp_all add: ex_fast_env_def ex_restore_env_def)
  have s: "length (tracker (ld_core ?ld)) = length (fst (ch_system (ld_chat ?ld)))"
    "ss_prompt_checkpoints (co_state (ld_core ?ld)) = []" "tu_n_ctx ex_turn_env = 100"
    using ex_loader_fresh by (simp_all add: loaded_def ex_turn_env_def)
  have p: "apply_save_dir ''.'' (append_save_ext ''s'') = ''./s.save''" by code_simp
  show ?thesis
    using assms(3,5) R f s p by (auto simp: ex_load_def perform_restore_def Let_def split: sum.splits restore_status.splits)
qed

lemma ex_entry_found:
  "find_cache_files ex_entry (''-'' @ cache_hash ex_sha ts ''m'')
    = [(''s-0123456789ab'', cache_file_header 2 3 @ [ch_nl] @ ''kv'' @ ''mir'')]"
  by (simp add: ex_entry_def cache_hash_def ex_sha_def find_cache_files_def ends_with_def)

lemma ex_entry_read: "read_entry (cache_file_header 2 3 @ [ch_nl] @ ''kv'' @ ''mir'') = Payload ''kv'' ''mir''"
proof -
  have l: "length ''kv'' = 2" "length ''mir'' = 3" by simp_all
  show ?thesis by (rule read_written_entry [of "''kv''" "''mir''", unfolded l]) simp_all
qed

lemma ex_load_cache:
  "load_cache ex_turn_env (ex_fast_env ts cps False None) ts (ex_loader\<lparr>ld_dir := ex_entry\<rparr>)
   = (False, False, upd_ld (\<lambda>c. c\<lparr>co_mem := op_clear memory_ops (co_mem c)\<rparr>) (ex_loader\<lparr>ld_dir := ex_entry\<rparr>))"
  by (simp add: load_cache_def ex_fast_env_def ex_restore_env_def ex_turn_env_def try_load_v1_cache_def Let_def
      ex_entry_found ex_entry_read del: append.simps)

lemma cancelled_load_loses_context:
  "case ex_load [1, 2, 3] [\<lparr>cp_n_past = 3, cp_prompt = ''p''\<rparr>] False None of
     Some (st, c) \<Rightarrow> st = Restore_Cancelled \<and> tracker c = [1, 2] \<and> co_n_past c = 2 \<and> mem_pos_max (co_mem c) = - 1
   | None \<Rightarrow> False"
proof -
  let ?cps = "[\<lparr>cp_n_past = 3, cp_prompt = ''p''\<rparr>]"
  let ?ld = "upd_ld (\<lambda>c. c\<lparr>co_mem := op_clear memory_ops (co_mem c)\<rparr>) (ex_loader\<lparr>ld_dir := ex_entry\<rparr>)"
  have f: "fast_restore ex_turn_env (ex_fast_env [1, 2, 3] ?cps False None) [1, 2, 3] (Inr ?cps) MAX_CANARY_RETRIES
      (ex_loader\<lparr>ld_dir := ex_entry\<rparr>) = Inr (False, ?ld)"
    by (simp add: fast_restore.simps [of _ _ _ _ MAX_CANARY_RETRIES] ex_load_cache Let_def del: memory_ops_simps)
  have "\<not> co_stop (ex_feed [1, 2] ex_core)" by code_simp
  then have "slow_restore ex_turn_env (ex_fast_env [1, 2, 3] ?cps False None) ''./s.save'' [1, 2, 3] ?cps ?ld
      = Inr (Restore_Cancelled, upd_ld (\<lambda>c. c\<lparr>co_stop := False\<rparr>) (?ld\<lparr>ld_ckpt_idx := - 1\<rparr>))"
    by (simp add: slow_restore_def Let_def ex_fast_env_def ex_restore_env_def restore_prompt_def ex_loader_def)
  moreover have "tracker (ex_feed [1, 2] ex_core) = [1, 2]" "co_n_past (ex_feed [1, 2] ex_core) = 2"
    "mem_pos_max (mem_clear (co_mem (ex_feed [1, 2] ex_core))) = - 1" by code_simp+
  ultimately show ?thesis
    by (subst ex_load_eq [OF _ _ _ _ f]) (simp_all add: save_example_simps ex_loader_def)
qed

text \<open>A save whose tokens go on after the last checkpoint, as a note on the git revision leaves them: the state that
  the fast load saves for that checkpoint is the state of the whole context.\<close>

lemma ex_cache_hit:
  assumes "mem_pos_max (mem_decode (mem_clear (co_mem (ld_core ex_loader))) 0 ts) + 1 = int (length ts)"
    and "\<And>d. draft = Some d \<Longrightarrow> mem_pos_max (mem_decode (mem_clear d) 0 ts) + 1 = int (length ts)"
  shows "load_cache ex_turn_env (ex_fast_env ts cps True draft) ts (ex_loader\<lparr>ld_dir := ex_entry\<rparr>)
   = (True, draft \<noteq> None, upd_ld (\<lambda>c. c\<lparr>co_mem := mem_decode (mem_clear (co_mem c)) 0 ts\<rparr>) (ex_loader\<lparr>ld_dir := ex_entry\<rparr>))"
  using assms by (cases draft) (simp_all add: load_cache_def ex_fast_env_def ex_restore_env_def ex_turn_env_def
      try_load_v1_cache_def Let_def ex_entry_found ex_entry_read load_mirror_def del: append.simps)

definition ex_past :: "prompt_checkpoint list" where
  "ex_past = [\<lparr>cp_n_past = 2, cp_prompt = ''p''\<rparr>, \<lparr>cp_n_past = 4, cp_prompt = ''p''\<rparr>]"

definition ex_adopted :: "token list \<Rightarrow> prompt_checkpoint list \<Rightarrow> bool \<Rightarrow> memory core" where
  "ex_adopted ts cps eligible = adopt_save memory_ops ts cps eligible
     ((ex_feed [1, 2] ex_core)\<lparr>co_mem := mem_decode (mem_clear (co_mem (ex_feed [1, 2] ex_core))) 0 ts\<rparr>)"

lemma ex_world_fields:
  "tu_ops ex_turn_env = memory_ops" "ch_core (ld_chat ex_loader) = ex_feed [1, 2] ex_core"
  by (simp_all add: ex_turn_env_def ex_loader_def)

lemma ex_loaded_past: "ex_load [1, 2, 3, 4, 5] ex_past True None = Some (Restore_Ok, ex_adopted [1, 2, 3, 4, 5] ex_past False)"
proof -
  let ?ts = "[1, 2, 3, 4, 5]" and ?re = "ex_fast_env [1, 2, 3, 4, 5] ex_past True None"
  have "mem_pos_max (mem_decode (mem_clear (co_mem (ex_feed [1, 2] ex_core))) 0 ?ts) + 1 = int (length ?ts)" by code_simp
  then have l: "load_cache ex_turn_env ?re ?ts (ex_loader\<lparr>ld_dir := ex_entry\<rparr>) = (True, False, upd_ld (\<lambda>c.
      c\<lparr>co_mem := mem_decode (mem_clear (co_mem c)) 0 ?ts\<rparr>) (ex_loader\<lparr>ld_dir := ex_entry\<rparr>))"
    by (subst ex_cache_hit) (simp_all add: ex_world_fields)
  obtain ld where f: "fast_restore ex_turn_env ?re ?ts (Inr ex_past) MAX_CANARY_RETRIES (ex_loader\<lparr>ld_dir := ex_entry\<rparr>)
      = Inr (True, ld)" "ld_core ld = ex_adopted ?ts ex_past False"
    by (simp add: fast_restore.simps [of _ _ _ _ MAX_CANARY_RETRIES] l Let_def canary_eligible_def ex_adopted_def
        ex_world_fields del: memory_ops_simps)
  have "saved_git_sha (Some (save_bytes ''0ae'' ?ts ex_past 4)) = rt_git_head ?re"
    by (subst saved_git_sha_of_save) (simp_all add: ex_fast_env_def ex_restore_env_def save_example_simps ex_past_def)
  then have "ld_core (restore_tail ex_turn_env ?re (Some (save_bytes ''0ae'' ?ts ex_past 4)) ld) = ld_core ld"
    by (simp add: restore_tail_def Let_def check_git_head_on_restore_def)
  then show ?thesis
    by (subst ex_load_eq [OF _ _ _ _ f(1)]) (simp_all add: save_example_simps ex_past_def f(2))
qed

definition ex_undone :: "nat \<Rightarrow> memory core \<Rightarrow> undo_result \<times> memory core" where
  "ex_undone sel c = undo_to memory_ops ex_session quiet quiet sel c"

lemma ex_past_undone:
  "fst (ex_undone (Suc 0) (ex_turn_end (ex_feed [6] (ex_adopted [1, 2, 3, 4, 5] ex_past False)))) = Undo_Fast"
  "tracker (snd (ex_undone (Suc 0) (ex_turn_end (ex_feed [6] (ex_adopted [1, 2, 3, 4, 5] ex_past False))))) = [1, 2, 3, 4]"
  "co_mem (snd (ex_undone (Suc 0) (ex_turn_end (ex_feed [6] (ex_adopted [1, 2, 3, 4, 5] ex_past False)))))
    = Hybrid (rows_of [1, 2, 3, 4]) \<lparr>rc_pos = 3, rc_tail = True,
       rc_planes = [Some ([1, 2, 3, 4, 5], [1, 2, 3, 4, 5])], rc_rs_idx = 0, rc_restored = False,
       rc_stack = [Some ([1, 2, 3, 4, 5], [1, 2, 3, 4, 5])], rc_n_rs_seq = 0\<rparr>"
  by code_simp+

text \<open>A note on the git revision, or anything else after the last checkpoint of a save, makes the fast load save the
  state of the whole context as that of the last checkpoint: a later undo to it, which reports success,
  truncates the attention rows but puts the recurrent state behind the removed tokens back.\<close>

theorem loaded_state_misplaced:
  "(case ex_load [1, 2, 3, 4, 5] ex_past True None of
      Some (st, c) \<Rightarrow>
        (let (res, c') = ex_undone 1 (ex_turn_end (ex_feed [6] c))
         in st = Restore_Ok \<and> res = Undo_Fast \<and> tracker c' = [1, 2, 3, 4] \<and> \<not> mem_holds (co_mem c') (tracker c')
            \<and> (case co_mem c' of
                 Hybrid kv rc \<Rightarrow> kv = rows_of [1, 2, 3, 4] \<and> rs_start rc = Some ([1, 2, 3, 4, 5], [1, 2, 3, 4, 5])
               | Attention _ \<Rightarrow> False))
    | None \<Rightarrow> False)"
  by (simp add: ex_loaded_past Let_def case_prod_unfold ex_past_undone recr_holds_def rs_start_def)

definition ex_probe :: "(memory, nat, view) loader" where
  "ex_probe = ex_loader\<lparr>ld_chat := (ld_chat ex_loader)\<lparr>ch_core := adopt_save memory_ops [1, 2] [] True (ex_spec_core 2)\<rparr>,
     ld_ckpt_idx := 0\<rparr>"

definition ex_probed :: "(bool \<times> memory core) option" where
  "ex_probed = (case run_canary ex_turn_env ex_probe of Inl _ \<Rightarrow> None | Inr (ok, ld) \<Rightarrow> Some (ok, ld_core ld))"

text \<open>A short probe is found clean for lack of evidence and rolled back into the rollback window of the draft head,
  where the restored state is not used: tokens, position and attention rows are those of the restore
  point, but the recurrent state in use is that of an older snapshot. The state of the restore point stays
  on the stack although the save held no checkpoint that accounts for it.\<close>

theorem short_probe_corrupts:
  "(case ex_probed of
      Some (ok, c) \<Rightarrow> ok \<and> tracker c = [1, 2] \<and> co_n_past c = 2 \<and> ss_prompt_checkpoints (co_state c) = []
        \<and> ss_checkpoint_stack_offset (co_state c) = 0 \<and> mem_stack (co_mem c) = [Some [1, 2]]
        \<and> (case co_mem c of
             Hybrid kv rc \<Rightarrow> kv = rows_of [1, 2] \<and> rs_start rc = Some ([1, 2], [1]) \<and> rc_restored rc
           | Attention _ \<Rightarrow> False)
    | None \<Rightarrow> False)"
  by code_simp

end
