(* ===== verification/Lim_Commands.thy ===== *)
theory Lim_Commands
  imports Lim_Restore
begin

section \<open>Commands, aliases and the line history (session.cc)\<close>

text \<open>
  The table of the commands and \<open>handle_command\<close>, the alias file, the normalisation of a typed line,
  and the bookkeeping of readline's history list. The list is A @ B @ C: the entries of
  \<open>.lim_history\<close>, the prompts of a loaded session, and the lines typed since; A is counted by
  \<open>persistent_history_len_\<close>, C by \<open>c_count_since_restore_\<close>. GNU readline is not part of the sources:
  \<open>add_history\<close> is the parameter \<open>add\<close>, a function of the list and the new entry, and \<open>lib_appends\<close>
  is what its manual says of an unlimited list; \<open>history_get\<close> and \<open>remove_history\<close> access the list by
  position. Terminal handling and the displays are left out. The main results are that the list refines
  its three parts (\<open>history_refines\<close>) and that \<open>/quit\<close> leaves a file from which the next session reads A and
  C, which are the old entries and every typed line where no undo goes back (\<open>history_survives_quit\<close>), with the sequences that break the bookkeeping as theorems of their own.
\<close>

subsection \<open>The command table\<close>

datatype cmd = Cmd_NONE | Cmd_QUIT | Cmd_CLEAR | Cmd_RESET | Cmd_REINCARNATE | Cmd_REMIND
  | Cmd_CONTINUE | Cmd_SAVE | Cmd_RESTORE | Cmd_DELETE | Cmd_HELP | Cmd_UNDO

datatype arg_type = Arg_NONE | Arg_PATH

record cmd_info =
  ci_name :: string
  ci_cmd :: cmd
  ci_arg :: arg_type

definition g_commands :: "cmd_info list" where
  "g_commands =
     [\<lparr>ci_name = ''quit'', ci_cmd = Cmd_QUIT, ci_arg = Arg_PATH\<rparr>,
      \<lparr>ci_name = ''exit'', ci_cmd = Cmd_QUIT, ci_arg = Arg_PATH\<rparr>,
      \<lparr>ci_name = ''clear'', ci_cmd = Cmd_CLEAR, ci_arg = Arg_NONE\<rparr>,
      \<lparr>ci_name = ''undo'', ci_cmd = Cmd_UNDO, ci_arg = Arg_NONE\<rparr>,
      \<lparr>ci_name = ''continue'', ci_cmd = Cmd_CONTINUE, ci_arg = Arg_NONE\<rparr>,
      \<lparr>ci_name = ''reset'', ci_cmd = Cmd_RESET, ci_arg = Arg_NONE\<rparr>,
      \<lparr>ci_name = ''reincarnate'', ci_cmd = Cmd_REINCARNATE, ci_arg = Arg_NONE\<rparr>,
      \<lparr>ci_name = ''remind'', ci_cmd = Cmd_REMIND, ci_arg = Arg_NONE\<rparr>,
      \<lparr>ci_name = ''save'', ci_cmd = Cmd_SAVE, ci_arg = Arg_PATH\<rparr>,
      \<lparr>ci_name = ''load'', ci_cmd = Cmd_RESTORE, ci_arg = Arg_PATH\<rparr>,
      \<lparr>ci_name = ''delete'', ci_cmd = Cmd_DELETE, ci_arg = Arg_PATH\<rparr>,
      \<lparr>ci_name = ''help'', ci_cmd = Cmd_HELP, ci_arg = Arg_NONE\<rparr>]"

definition names_command :: "string \<Rightarrow> string \<Rightarrow> bool" where
  "names_command nm rest =
     (if length rest = length nm then rest = nm
      else if length nm < length rest \<and> is_space (rest ! length nm) then take (length nm) rest = nm
      else False)"

definition match_command :: "string \<Rightarrow> cmd_info option" where
  "match_command rest = find (\<lambda>c. names_command (ci_name c) rest) g_commands"

text \<open>The members of the session that hold the argument of a command.\<close>

record cmd_args =
  ca_save_prefix :: string
  ca_restore_path :: string
  ca_delete_path :: string
  ca_restore_checkpoints :: bool

definition path_command :: "cmd \<Rightarrow> string \<Rightarrow> cmd_args \<Rightarrow> cmd_args" where
  "path_command c arg st =
     (let st = st\<lparr>ca_save_prefix := [], ca_restore_path := [], ca_delete_path := [],
                  ca_restore_checkpoints := False\<rparr>;
          st = (if c = Cmd_SAVE then st\<lparr>ca_save_prefix := arg\<rparr> else st);
          (flag, arg') = (if c = Cmd_RESTORE then strip_checkpoints_flag arg else (False, arg));
          st = (if c = Cmd_RESTORE
                then st\<lparr>ca_restore_checkpoints := flag, ca_restore_path := arg'\<rparr> else st);
          st = (if c = Cmd_DELETE then st\<lparr>ca_delete_path := arg'\<rparr> else st)
      in if c = Cmd_QUIT then st\<lparr>ca_save_prefix := arg'\<rparr> else st)"

definition handle_command :: "string \<Rightarrow> cmd_args \<Rightarrow> cmd \<times> cmd_args" where
  "handle_command input st =
     (if input = [] \<or> hd input \<noteq> CHR ''/'' then (Cmd_NONE, st)
      else let rest = tl input in
        case match_command rest of
          None \<Rightarrow> (Cmd_NONE, st)
        | Some c \<Rightarrow>
            (let arg = trim_chars (drop (length (ci_name c)) rest) ws_chars in
             case ci_arg c of
               Arg_PATH \<Rightarrow> (ci_cmd c, path_command (ci_cmd c) arg st)
             | Arg_NONE \<Rightarrow>
                 (let st = st\<lparr>ca_save_prefix := [], ca_restore_path := []\<rparr> in
                  if arg \<noteq> [] then (Cmd_NONE, st) else (ci_cmd c, st))))"

subsection \<open>The alias file and the typed line\<close>

definition is_builtin :: "string \<Rightarrow> bool" where
  "is_builtin c \<longleftrightarrow> c \<in> ci_name ` set g_commands"

definition alias_line :: "string \<Rightarrow> (string \<rightharpoonup> string) \<Rightarrow> (string \<rightharpoonup> string)" where
  "alias_line line aliases =
     (let trimmed = trim_chars line ws_chars in
      if trimmed = [] \<or> hd trimmed = CHR ''#'' then aliases
      else case str_find trimmed ''='' 0 of
        None \<Rightarrow> aliases
      | Some eq \<Rightarrow>
          (let key = trim_chars (take eq trimmed) ws_chars;
               val = trim_chars (drop (eq + 1) trimmed) ws_chars
           in if key \<noteq> [] \<and> hd key = CHR ''/''
              then (if is_builtin (tl key) then aliases else aliases(key \<mapsto> val))
              else aliases))"

text \<open>The content of \<open>~/.lim_aliases\<close>; without the file there are no aliases.\<close>

definition load_aliases :: "string option \<Rightarrow> (string \<rightharpoonup> string)" where
  "load_aliases f =
     (case f of None \<Rightarrow> Map.empty
      | Some content \<Rightarrow> fold alias_line (getlines ch_nl content) Map.empty)"

definition strip_input :: "string \<Rightarrow> string" where
  "strip_input s =
     (case first_not_of s [CHR 0x20, ch_tab] of Some k \<Rightarrow> drop k s | None \<Rightarrow> [])"

definition expand_alias :: "(string \<rightharpoonup> string) \<Rightarrow> string \<Rightarrow> string" where
  "expand_alias aliases s = (case aliases s of Some v \<Rightarrow> v | None \<Rightarrow> s)"

definition accept_input :: "(string \<rightharpoonup> string) \<Rightarrow> string \<Rightarrow> string" where
  "accept_input aliases s = expand_alias aliases (strip_input s)"

subsection \<open>The history file\<close>

definition RS :: char where "RS = CHR 0x1E"

definition decode_line :: "string \<Rightarrow> string" where
  "decode_line l = map (\<lambda>c. if c = RS then ch_nl else c) l"

definition encode_line :: "string \<Rightarrow> string" where
  "encode_line s = map (\<lambda>c. if c = ch_nl then RS else c) s"

type_synonym add_entry = "string list \<Rightarrow> string \<Rightarrow> string list"

record line_history =
  hs_lines :: "string list"
  hs_persistent :: int
  hs_recent :: int
  hs_file :: "string option"
  hs_writable :: bool
  hs_base :: nat

definition lib_appends :: "add_entry \<Rightarrow> bool" where
  "lib_appends add \<longleftrightarrow> (\<forall>h s. add h s = h @ [s])"

definition add_line :: "add_entry \<Rightarrow> string \<Rightarrow> string list \<Rightarrow> string list" where
  "add_line add s h = add h (c_str s)"

definition load_history_safe :: "add_entry \<Rightarrow> string option \<Rightarrow> string list \<Rightarrow> string list" where
  "load_history_safe add f h =
     (case f of None \<Rightarrow> h
      | Some content \<Rightarrow> fold (\<lambda>l. add_line add (decode_line l)) (getlines ch_nl content) h)"

definition save_history_safe :: "bool \<Rightarrow> string \<Rightarrow> string option \<Rightarrow> string option" where
  "save_history_safe w s f =
     (if w then Some ((case f of None \<Rightarrow> [] | Some c \<Rightarrow> c) @ encode_line s @ [ch_nl]) else f)"

text \<open>\<open>ftruncate\<close>, which pads a shorter file with zero bytes.\<close>

definition truncate :: "nat \<Rightarrow> string \<Rightarrow> string" where
  "truncate n s = take n s @ replicate (n - length s) (CHR 0x00)"

subsection \<open>The history list\<close>

fun pop_loop :: "nat \<Rightarrow> string list \<Rightarrow> string list" where
  "pop_loop 0 h = h"
| "pop_loop (Suc n) h = (if h = [] then h else pop_loop n (butlast h))"

definition pop_history :: "int \<Rightarrow> string list \<Rightarrow> string list" where
  "pop_history n h = pop_loop (nat n) h"

text \<open>\<open>history_get\<close> counts from one.\<close>

definition history_get :: "string list \<Rightarrow> int \<Rightarrow> string option" where
  "history_get h k = (if 1 \<le> k \<and> k \<le> int (length h) then Some (h ! nat (k - 1)) else None)"

fun collect_loop :: "nat \<Rightarrow> string list \<Rightarrow> string list" where
  "collect_loop 0 h = []"
| "collect_loop (Suc i) h =
     (case history_get h (int (length h) - int i) of
        Some l \<Rightarrow> l # collect_loop i h
      | None \<Rightarrow> collect_loop i h)"

definition collect_recent_user_inputs :: "line_history \<Rightarrow> string list" where
  "collect_recent_user_inputs st = collect_loop (nat (hs_recent st)) (hs_lines st)"

definition add_counted :: "add_entry \<Rightarrow> string \<Rightarrow> line_history \<Rightarrow> line_history" where
  "add_counted add s st =
     (let h = add_line add s (hs_lines st)
      in st\<lparr>hs_lines := h,
            hs_recent := (if length (hs_lines st) < length h then hs_recent st + 1 else hs_recent st)\<rparr>)"

definition repopulate_history :: "add_entry \<Rightarrow> prompt_checkpoint list \<Rightarrow> line_history \<Rightarrow> line_history" where
  "repopulate_history add cps st =
     (let stale = int (length (hs_lines st)) - hs_persistent st;
          h = (if stale > 0 then pop_history stale (hs_lines st) else hs_lines st)
      in st\<lparr>hs_lines := fold (\<lambda>cp h. if cp_prompt cp \<noteq> [] then add_line add (cp_prompt cp) h else h) cps h,
            hs_recent := 0\<rparr>)"

definition restore_saved_history ::
  "add_entry \<Rightarrow> string list \<Rightarrow> string list \<Rightarrow> line_history \<Rightarrow> line_history" where
  "restore_saved_history add b c st =
     fold (add_counted add) c (st\<lparr>hs_lines := fold (add_line add) b (hs_lines st), hs_recent := 0\<rparr>)"

definition flush_history :: "line_history \<Rightarrow> line_history" where
  "flush_history st =
     (let f = (case hs_file st of
                 Some c \<Rightarrow> Some (if hs_writable st then truncate (hs_base st) c else c)
               | None \<Rightarrow> None);
          f = fold (save_history_safe (hs_writable st)) (collect_recent_user_inputs st) f
      in st\<lparr>hs_file := f, hs_base := (case f of Some c \<Rightarrow> length c | None \<Rightarrow> hs_base st)\<rparr>)"

subsection \<open>The operations of the session on the history\<close>

text \<open>The start of \<open>run\<close>; a fresh session has no checkpoints yet or those of a loaded one.\<close>

definition start_history :: "add_entry \<Rightarrow> bool \<Rightarrow> string option \<Rightarrow> prompt_checkpoint list \<Rightarrow> line_history" where
  "start_history add w f cps =
     (let h = load_history_safe add f []
      in repopulate_history add cps
           \<lparr>hs_lines = h, hs_persistent = int (length h), hs_recent = 0, hs_file = f, hs_writable = w,
            hs_base = (case f of Some c \<Rightarrow> length c | None \<Rightarrow> 0)\<rparr>)"

text \<open>A line accepted by the prompt, as it was typed.\<close>

definition typed_line :: "add_entry \<Rightarrow> string \<Rightarrow> line_history \<Rightarrow> line_history" where
  "typed_line add s st =
     (if s = [] then st
      else add_counted add s (st\<lparr>hs_file := save_history_safe (hs_writable st) s (hs_file st)\<rparr>))"

text \<open>The history part of \<open>clear_session\<close>.\<close>

definition clear_history :: "add_entry \<Rightarrow> line_history \<Rightarrow> line_history" where
  "clear_history add st =
     (let st = flush_history st;
          saved_c = collect_recent_user_inputs st;
          h = pop_history (int (length (hs_lines st)) - hs_persistent st) (hs_lines st);
          h = fold (add_line add) saved_c h
      in st\<lparr>hs_lines := h, hs_persistent := int (length h), hs_recent := 0\<rparr>)"

text \<open>
  \<open>perform_restore\<close>: the prompt replaces the list by the labels and puts the saved entries back; the
  tail of a finished restore pushes the prompts of the session and the typed lines on top.
\<close>

definition restore_prompt_history :: "add_entry \<Rightarrow> line_history \<Rightarrow> line_history" where
  "restore_prompt_history add st =
     (let saved = List.map_filter (\<lambda>i. history_get (hs_lines st) (int i)) [1..<Suc (length (hs_lines st))]
      in st\<lparr>hs_lines := fold (add_line add) saved []\<rparr>)"

definition reload_history :: "add_entry \<Rightarrow> prompt_checkpoint list \<Rightarrow> line_history \<Rightarrow> line_history" where
  "reload_history add cps st =
     (let saved_c = collect_recent_user_inputs st
      in fold (add_counted add) saved_c (repopulate_history add cps st))"

text \<open>
  \<open>/undo\<close>. The answer is the stop flag and the line of the \<open>Undo>\<close> prompt. \<^const>\<open>None\<close> is an access past
  the end of \<open>saved_b\<close> or \<open>saved_c\<close>.
\<close>

datatype undo_outcome = Undo_Empty | Undo_Cancelled | Undo_Last | Undo_To nat

definition select_checkpoint :: "prompt_checkpoint list \<Rightarrow> string \<Rightarrow> nat option" where
  "select_checkpoint cps input =
     (case parse_checkpoint_selection input of
        None \<Rightarrow> None
      | Some n \<Rightarrow> find (\<lambda>i. cp_n_past (cps ! i) = n) [0..<length cps])"

definition undo_choice :: "prompt_checkpoint list \<Rightarrow> bool \<times> string option \<Rightarrow> undo_outcome" where
  "undo_choice cps answer =
     (case answer of
        (stop, None) \<Rightarrow> Undo_Cancelled
      | (stop, Some input) \<Rightarrow>
          if stop \<or> input = ''/quit'' \<or> input = ''/exit'' then Undo_Cancelled
          else case select_checkpoint cps input of
            None \<Rightarrow> Undo_Cancelled
          | Some i \<Rightarrow> if i = length cps - 1 then Undo_Last else Undo_To i)"

definition undo_history ::
  "add_entry \<Rightarrow> prompt_checkpoint list \<Rightarrow> bool \<times> string option \<Rightarrow> line_history
     \<Rightarrow> (undo_outcome \<times> line_history) option" where
  "undo_history add cps answer st =
     (if cps = [] then Some (Undo_Empty, st)
      else
        let h = hs_lines st;
            b_count = int (length h) - hs_recent st - hs_persistent st;
            saved_b = List.map_filter (\<lambda>i. history_get h (hs_persistent st + 1 + int i)) [0..<nat b_count];
            saved_c = collect_recent_user_inputs st;
            h = pop_history (b_count + hs_recent st) h;
            h = fold (\<lambda>cp. add_line add (checkpoint_label cp)) cps h;
            st = st\<lparr>hs_lines := pop_history (int (length cps)) h\<rparr>
        in case undo_choice cps answer of
             Undo_To i \<Rightarrow>
               (let b_to_restore = min (int i + 1) b_count;
                    c_to_restore = max 0 (int i + 1 - b_count)
                in if b_to_restore \<le> int (length saved_b) \<and> c_to_restore \<le> int (length saved_c)
                   then Some (Undo_To i,
                     st\<lparr>hs_lines := fold (add_line add) (take (nat c_to_restore) saved_c)
                                    (fold (add_line add) (take (nat b_to_restore) saved_b) (hs_lines st)),
                        hs_recent := c_to_restore\<rparr>)
                   else None)
           | r \<Rightarrow> Some (r, restore_saved_history add saved_b saved_c st))"

text \<open>\<open>/reincarnate\<close> flushes the file and leaves the list and the counters as they are.\<close>

definition reincarnate_history :: "line_history \<Rightarrow> line_history" where
  "reincarnate_history st = flush_history st"

datatype hist_event = Typed string | Cleared | Prompted | Loaded "prompt_checkpoint list"
  | Undone "prompt_checkpoint list" "bool \<times> string option" | Reincarnated

fun hist_step :: "add_entry \<Rightarrow> hist_event \<Rightarrow> line_history \<Rightarrow> line_history option" where
  "hist_step add (Typed s) st = Some (typed_line add s st)"
| "hist_step add Cleared st = Some (clear_history add st)"
| "hist_step add Prompted st = Some (restore_prompt_history add st)"
| "hist_step add (Loaded cps) st = Some (reload_history add cps st)"
| "hist_step add (Undone cps answer) st = map_option snd (undo_history add cps answer st)"
| "hist_step add Reincarnated st = Some (reincarnate_history st)"

fun hist_run :: "add_entry \<Rightarrow> hist_event list \<Rightarrow> line_history \<Rightarrow> line_history option" where
  "hist_run add [] st = Some st"
| "hist_run add (e # es) st =
     (case hist_step add e st of None \<Rightarrow> None | Some st' \<Rightarrow> hist_run add es st')"

subsection \<open>Laws of the list operations\<close>

lemma c_str_clean [simp]: "CHR 0x00 \<notin> set (c_str s)"
  unfolding c_str_def by (metis (mono_tags, lifting) set_takeWhileD)

lemma add_line_appends: "lib_appends add \<Longrightarrow> add_line add s h = h @ [c_str s]"
  by (simp add: lib_appends_def add_line_def)

lemma fold_add_line: "lib_appends add \<Longrightarrow> fold (add_line add) xs h = h @ map c_str xs"
  by (induction xs arbitrary: h) (simp_all add: add_line_appends)

lemma fold_add_map: "lib_appends add \<Longrightarrow> fold (\<lambda>x. add_line add (f x)) xs h = h @ map (\<lambda>x. c_str (f x)) xs"
  by (induction xs arbitrary: h) (simp_all add: add_line_appends)

lemma fold_add_prompts:
  "lib_appends add \<Longrightarrow>
   fold (\<lambda>cp h. if cp_prompt cp \<noteq> [] then add_line add (cp_prompt cp) h else h) cps h
     = h @ map (\<lambda>cp. c_str (cp_prompt cp)) (filter (\<lambda>cp. cp_prompt cp \<noteq> []) cps)"
  by (induction cps arbitrary: h) (simp_all add: add_line_appends)

lemma fold_add_counted:
  "lib_appends add \<Longrightarrow>
   fold (add_counted add) xs st
     = st\<lparr>hs_lines := hs_lines st @ map c_str xs, hs_recent := hs_recent st + int (length xs)\<rparr>"
  by (induction xs arbitrary: st) (simp_all add: add_counted_def add_line_appends)

lemmas fold_adds = fold_add_line fold_add_map fold_add_prompts fold_add_counted

lemma pop_loop_take: "pop_loop n h = take (length h - n) h"
proof (induction n arbitrary: h)
  case (Suc n)
  then show ?case by (auto simp: butlast_conv_take)
qed simp

lemma pop_history_append: "pop_history (int (length v)) (u @ v) = u"
  by (simp add: pop_history_def pop_loop_take)

lemma history_get_nth: "i < length h \<Longrightarrow> history_get h (int i + 1) = Some (h ! i)"
  by (simp add: history_get_def nat_add_distrib)

lemma collect_loop_drop: "n \<le> length h \<Longrightarrow> collect_loop n h = drop (length h - n) h"
proof (induction n)
  case (Suc i)
  have "history_get h (int (length h) - int i) = Some (h ! (length h - Suc i))"
    using history_get_nth [of "length h - Suc i" h] Suc.prems by (simp add: of_nat_diff)
  moreover have "drop (length h - Suc i) h = h ! (length h - Suc i) # drop (length h - i) h"
    using Suc.prems Cons_nth_drop_Suc [of "length h - Suc i" h] by (simp add: Suc_diff_Suc)
  ultimately show ?case using Suc by simp
qed simp

lemma map_filter_nth:
  "(\<And>i. i < n \<Longrightarrow> f i = Some (xs ! i)) \<Longrightarrow> n = length xs \<Longrightarrow> List.map_filter f [0..<n] = xs"
proof (induction n arbitrary: xs)
  case (Suc n)
  then have x: "xs = take n xs @ [xs ! n]" by (metis lessI take_Suc_conv_app_nth take_all order_refl)
  have "List.map_filter f [0..<n] = take n xs" using Suc.prems by (intro Suc.IH) simp_all
  then show ?case using Suc.prems(1) [of n] x by (simp add: List.map_filter_def)
qed (simp add: List.map_filter_def)

subsection \<open>The three parts of the list\<close>

definition layout :: "line_history \<Rightarrow> string list \<Rightarrow> string list \<Rightarrow> string list \<Rightarrow> bool" where
  "layout st A B C \<longleftrightarrow> hs_lines st = A @ B @ C \<and> hs_persistent st = int (length A)
     \<and> hs_recent st = int (length C) \<and> (\<forall>l \<in> set (A @ B @ C). CHR 0x00 \<notin> set l)"

lemma map_c_str_id: "\<forall>l \<in> set ls. CHR 0x00 \<notin> set l \<Longrightarrow> map c_str ls = ls"
  by (rule map_idI) (auto intro: c_str_id)

lemma layout_collect: "layout st A B C \<Longrightarrow> collect_recent_user_inputs st = C"
  by (simp add: layout_def collect_recent_user_inputs_def collect_loop_drop)

lemma layout_start:
  assumes "lib_appends add"
  shows "layout (start_history add w f cps) (load_history_safe add f [])
           (map (\<lambda>cp. c_str (cp_prompt cp)) (filter (\<lambda>cp. cp_prompt cp \<noteq> []) cps)) []"
proof -
  have "\<forall>l \<in> set (load_history_safe add f []). CHR 0x00 \<notin> set l"
    using assms by (auto simp: load_history_safe_def fold_adds split: option.splits)
  then show ?thesis
    using assms by (auto simp: layout_def start_history_def repopulate_history_def fold_adds Let_def)
qed

lemma layout_typed:
  "lib_appends add \<Longrightarrow> layout st A B C \<Longrightarrow>
   layout (typed_line add s st) A B (if s = [] then C else C @ [c_str s])"
  by (auto simp: layout_def typed_line_def add_counted_def add_line_appends Let_def)

lemma layout_flush: "layout (flush_history st) A B C \<longleftrightarrow> layout st A B C"
  by (simp add: layout_def flush_history_def Let_def)

lemma layout_clear:
  assumes "lib_appends add" "layout st A B C"
  shows "layout (clear_history add st) (A @ C) [] []"
proof -
  have l: "layout (flush_history st) A B C" using assms(2) by (simp add: layout_flush)
  then have "collect_recent_user_inputs (flush_history st) = C" by (rule layout_collect)
  moreover have "pop_history (int (length (hs_lines (flush_history st))) - hs_persistent (flush_history st))
      (hs_lines (flush_history st)) = A"
    using l pop_history_append [of "B @ C" A] by (simp add: layout_def)
  moreover have "map c_str C = C" using l by (intro map_c_str_id) (simp add: layout_def)
  ultimately show ?thesis
    using assms(1) l by (auto simp: layout_def clear_history_def fold_adds Let_def)
qed

lemma layout_prompt_id:
  assumes "lib_appends add" "layout st A B C"
  shows "restore_prompt_history add st = st"
proof -
  let ?h = "hs_lines st"
  have "List.map_filter (\<lambda>i. history_get ?h (int i)) [1..<Suc (length ?h)]
      = List.map_filter (\<lambda>i. history_get ?h (int i + 1)) [0..<length ?h]"
    by (simp only: One_nat_def map_Suc_upt [symmetric] List.map_filter_def filter_map map_map o_def)
      (simp add: add.commute)
  also have "\<dots> = ?h" by (rule map_filter_nth) (simp_all add: history_get_nth)
  finally show ?thesis
    using assms map_c_str_id [of ?h]
    by (simp only: restore_prompt_history_def Let_def fold_adds) (simp add: layout_def)
qed

lemma layout_repopulate:
  assumes "lib_appends add" "layout st A B C"
  shows "repopulate_history add cps st =
     st\<lparr>hs_lines := A @ map (\<lambda>cp. c_str (cp_prompt cp)) (filter (\<lambda>cp. cp_prompt cp \<noteq> []) cps),
        hs_recent := 0\<rparr>"
proof -
  have "(if int (length (hs_lines st)) - hs_persistent st > 0
       then pop_history (int (length (hs_lines st)) - hs_persistent st) (hs_lines st)
       else hs_lines st) = A"
    using assms(2) pop_history_append [of "B @ C" A]
    by (cases B; cases C) (auto simp: layout_def)
  then show ?thesis
    unfolding repopulate_history_def Let_def by (simp add: fold_adds assms(1))
qed

lemma layout_reload:
  assumes "lib_appends add" "layout st A B C"
  shows "layout (reload_history add cps st) A
           (map (\<lambda>cp. c_str (cp_prompt cp)) (filter (\<lambda>cp. cp_prompt cp \<noteq> []) cps)) C"
proof -
  have "map c_str C = C" using assms(2) by (intro map_c_str_id) (simp add: layout_def)
  then show ?thesis
    using assms(2)
    by (auto simp: reload_history_def layout_collect [OF assms(2)] layout_repopulate [OF assms]
          fold_adds assms(1) layout_def)
qed

subsection \<open>Undo\<close>

lemma layout_saved_b:
  assumes "layout st A B C"
  shows "List.map_filter (\<lambda>i. history_get (hs_lines st) (hs_persistent st + 1 + int i))
           [0..<nat (int (length (hs_lines st)) - hs_recent st - hs_persistent st)] = B"
proof (rule map_filter_nth)
  fix i assume "i < nat (int (length (hs_lines st)) - hs_recent st - hs_persistent st)"
  with assms have i: "i < length B" by (simp add: layout_def)
  with history_get_nth [of "length A + i" "A @ B @ C"] assms
  show "history_get (hs_lines st) (hs_persistent st + 1 + int i) = Some (B ! i)"
    by (simp add: layout_def nth_append algebra_simps)
qed (use assms in \<open>simp add: layout_def\<close>)

text \<open>What \<open>/undo\<close> makes of the list: the guards of the two copies are those of the parts.\<close>

lemma layout_undo:
  assumes "lib_appends add" "layout st A B C"
  shows "undo_history add cps answer st =
     (if cps = [] then Some (Undo_Empty, st)
      else case undo_choice cps answer of
        Undo_To i \<Rightarrow>
          if Suc i \<le> length B + length C
          then Some (Undo_To i,
            st\<lparr>hs_lines := A @ take (Suc i) B @ take (Suc i - length B) C,
               hs_recent := int (Suc i - length B)\<rparr>)
          else None
      | r \<Rightarrow> Some (r, st))"
proof (cases "cps = []")
  case False
  have lines: "hs_lines st = A @ B @ C" "hs_persistent st = int (length A)"
      "hs_recent st = int (length C)"
    using assms(2) by (simp_all add: layout_def)
  have ids: "map c_str B = B" "map c_str C = C"
    using assms(2) by (auto simp: layout_def intro: map_c_str_id)
  have b: "int (length (hs_lines st)) - hs_recent st - hs_persistent st = int (length B)"
    using lines by simp
  have pop: "pop_history (int (length B) + hs_recent st) (hs_lines st) = A"
    using lines pop_history_append [of "B @ C" A] by simp
  have saved: "List.map_filter (\<lambda>i. history_get (hs_lines st) (hs_persistent st + 1 + int i))
      [0..<length B] = B"
    using layout_saved_b [OF assms(2)] unfolding b by simp
  have restored: "restore_saved_history add B C (st\<lparr>hs_lines := A\<rparr>) = st"
    using lines ids by (cases st) (simp add: restore_saved_history_def fold_adds assms(1))
  have takes: "map c_str (take n B) = take n B" "map c_str (take n C) = take n C" for n
    using ids by (simp_all add: take_map [symmetric])
  have nats: "nat (min (int i + 1) (int (length B))) = min (Suc i) (length B)"
      "nat (max 0 (int i + 1 - int (length B))) = Suc i - length B"
      "max 0 (int i + 1 - int (length B)) = int (Suc i - length B)"
      "take (min (Suc i) (length B)) B = take (Suc i) B" for i
    by (auto simp: min_def)
  have guard: "Suc i - length B \<le> length C \<longleftrightarrow> Suc i \<le> length B + length C" for i
    by auto
  have labels: "pop_history (int (length cps)) (A @ map (\<lambda>cp. c_str (checkpoint_label cp)) cps) = A"
    using pop_history_append [of "map (\<lambda>cp. c_str (checkpoint_label cp)) cps" A] by simp
  show ?thesis
    using False unfolding undo_history_def Let_def b
    by (cases "undo_choice cps answer")
      (simp_all add: pop saved restored labels takes nats guard
        layout_collect [OF assms(2)] fold_adds assms(1))
qed (simp add: undo_history_def)

subsection \<open>Refinement by the three parts\<close>

type_synonym parts = "string list \<times> string list \<times> string list"

definition prompts :: "prompt_checkpoint list \<Rightarrow> string list" where
  "prompts cps = map (\<lambda>cp. c_str (cp_prompt cp)) (filter (\<lambda>cp. cp_prompt cp \<noteq> []) cps)"

fun parts_step :: "hist_event \<Rightarrow> parts \<Rightarrow> parts option" where
  "parts_step (Typed s) (A, B, C) = Some (A, B, if s = [] then C else C @ [c_str s])"
| "parts_step Cleared (A, B, C) = Some (A @ C, [], [])"
| "parts_step Prompted (A, B, C) = Some (A, B, C)"
| "parts_step (Loaded cps) (A, B, C) = Some (A, prompts cps, C)"
| "parts_step (Undone cps answer) (A, B, C) =
     (if cps = [] then Some (A, B, C)
      else case undo_choice cps answer of
        Undo_To i \<Rightarrow>
          if i < length B + length C then Some (A, take (Suc i) B, take (Suc i - length B) C) else None
      | _ \<Rightarrow> Some (A, B, C))"
| "parts_step Reincarnated (A, B, C) = Some (A, B, C)"

fun parts_run :: "hist_event list \<Rightarrow> parts \<Rightarrow> parts option" where
  "parts_run [] p = Some p"
| "parts_run (e # es) p = (case parts_step e p of None \<Rightarrow> None | Some p' \<Rightarrow> parts_run es p')"

definition simulates :: "line_history option \<Rightarrow> parts option \<Rightarrow> bool" where
  "simulates r p =
     (case (r, p) of
        (Some st, Some (A, B, C)) \<Rightarrow> layout st A B C
      | (None, None) \<Rightarrow> True
      | _ \<Rightarrow> False)"

lemma layout_take:
  assumes "layout st A B C" "Suc i \<le> length B + length C"
  shows "layout (st\<lparr>hs_lines := A @ take (Suc i) B @ take (Suc i - length B) C,
                    hs_recent := int (Suc i - length B)\<rparr>)
           A (take (Suc i) B) (take (Suc i - length B) C)"
  using assms by (auto simp: layout_def dest: in_set_takeD)

lemma step_simulates:
  assumes "lib_appends add" "layout st A B C"
  shows "simulates (hist_step add e st) (parts_step e (A, B, C))"
proof (cases e)
  case (Undone cps answer)
  then show ?thesis
    using layout_take [OF assms(2)] assms(2)
    by (cases "undo_choice cps answer") (simp_all add: simulates_def layout_undo [OF assms] Suc_le_eq)
qed (use assms in \<open>simp_all add: simulates_def layout_typed layout_clear layout_prompt_id
       layout_reload prompts_def layout_flush reincarnate_history_def\<close>)

lemma run_simulates:
  "lib_appends add \<Longrightarrow> layout st A B C \<Longrightarrow> simulates (hist_run add es st) (parts_run es (A, B, C))"
proof (induction es arbitrary: st A B C)
  case (Cons e es)
  have "simulates (hist_step add e st) (parts_step e (A, B, C))" using Cons.prems by (rule step_simulates)
  then consider st' A' B' C' where "hist_step add e st = Some st'" "parts_step e (A, B, C) = Some (A', B', C')"
      "layout st' A' B' C'"
    | "hist_step add e st = None" "parts_step e (A, B, C) = None"
    by (auto simp: simulates_def split: option.splits)
  then show ?case
    using Cons.IH [OF Cons.prems(1)] by cases (simp_all add: simulates_def [of None None])
qed (simp add: simulates_def)

text \<open>C7: The line history refines its description by three lists: whatever is typed, cleared, loaded,
  undone or reincarnated, the entries of the list are those of the parts A, B and C, the two counters
  delimit them, and an undo reads past the typed lines exactly when the description says so.
\<close>

theorem history_refines:
  assumes "lib_appends add"
  shows "simulates (hist_run add es (start_history add w f cps))
           (parts_run es (load_history_safe add f [], prompts cps, []))"
  using run_simulates [OF assms] layout_start [OF assms] unfolding prompts_def by blast

theorem history_refines_witness:
  "simulates (hist_run (\<lambda>h s. h @ [s])
       [Typed ''a'', Loaded [\<lparr>cp_n_past = 7, cp_prompt = ''p''\<rparr>], Typed ''b'', Cleared, Typed ''c'']
       (start_history (\<lambda>h s. h @ [s]) True (Some ''x'') []))
     (Some ([''x'', ''a'', ''b''], [], [''c'']))"
proof -
  have "lib_appends (\<lambda>h s. h @ [s])" by (simp add: lib_appends_def)
  from history_refines [OF this, of "[Typed ''a'', Loaded [\<lparr>cp_n_past = 7, cp_prompt = ''p''\<rparr>],
      Typed ''b'', Cleared, Typed ''c'']" True "Some ''x''" "[]"]
  show ?thesis
    by (simp add: prompts_def load_history_safe_def add_line_def decode_line_def RS_def c_str_def)
qed

subsection \<open>The history of the next session\<close>

definition content :: "string option \<Rightarrow> string" where
  "content f = (case f of None \<Rightarrow> [] | Some c \<Rightarrow> c)"

definition complete :: "string \<Rightarrow> bool" where
  "complete s \<longleftrightarrow> s = [] \<or> last s = ch_nl"

definition lines_of :: "string \<Rightarrow> string list" where
  "lines_of s = map (\<lambda>l. c_str (decode_line l)) (getlines ch_nl s)"

lemma load_lines: "lib_appends add \<Longrightarrow> load_history_safe add f h = h @ lines_of (content f)"
  by (cases f) (simp_all add: load_history_safe_def lines_of_def content_def fold_adds)

lemma getlines_complete: "complete u \<Longrightarrow> getlines ch_nl (u @ v) = getlines ch_nl u @ getlines ch_nl v"
proof (induction u)
  case (Cons x u)
  show ?case
  proof (cases "u = []")
    case False
    with Cons.prems have u: "complete u" by (simp add: complete_def)
    have "getlines ch_nl u \<noteq> []" using False by (cases u) (auto split: list.splits)
    then show ?thesis using Cons.IH [OF u] by (cases "getlines ch_nl u") auto
  qed (use Cons.prems in \<open>auto simp: complete_def\<close>)
qed simp

lemma decode_encode: "RS \<notin> set s \<Longrightarrow> decode_line (encode_line s) = s"
  by (induction s) (auto simp: decode_line_def encode_line_def)

definition clean_line :: "string \<Rightarrow> bool" where
  "clean_line s \<longleftrightarrow> RS \<notin> set s \<and> CHR 0x00 \<notin> set s"

lemma content_saves:
  "content (fold (save_history_safe True) xs f)
     = content f @ concat (map (\<lambda>s. encode_line s @ [ch_nl]) xs)"
  by (induction xs arbitrary: f) (simp_all add: save_history_safe_def content_def)

lemma saves_None: "fold (save_history_safe True) xs f = None \<longleftrightarrow> f = None \<and> xs = []"
  by (induction xs arbitrary: f) (auto simp: save_history_safe_def)

lemma encode_no_nl: "ch_nl \<notin> set (encode_line s)"
  by (auto simp: encode_line_def RS_def)

lemma lines_of_saves:
  assumes "complete u" "\<forall>s \<in> set xs. clean_line s"
  shows "lines_of (u @ concat (map (\<lambda>s. encode_line s @ [ch_nl]) xs)) = lines_of u @ xs
    \<and> complete (u @ concat (map (\<lambda>s. encode_line s @ [ch_nl]) xs))"
  using assms
proof (induction xs arbitrary: u)
  case (Cons s xs)
  let ?u = "u @ encode_line s @ [ch_nl]"
  have "complete ?u" by (simp add: complete_def)
  moreover have "lines_of ?u = lines_of u @ [s]"
    using Cons.prems getlines_sep [OF encode_no_nl, of s "[]"]
    by (simp add: lines_of_def getlines_complete decode_encode clean_line_def c_str_id)
  ultimately show ?case
    using Cons.IH [of ?u] Cons.prems by simp_all
qed simp_all

text \<open>The part of the file before the baseline holds A, and the typed lines can be written.\<close>

definition file_holds :: "line_history \<Rightarrow> string list \<Rightarrow> string list \<Rightarrow> bool" where
  "file_holds st A C \<longleftrightarrow> hs_writable st \<and> hs_base st \<le> length (content (hs_file st))
     \<and> complete (take (hs_base st) (content (hs_file st)))
     \<and> lines_of (take (hs_base st) (content (hs_file st))) = A \<and> (\<forall>s \<in> set C. clean_line s)"

lemma flush_content:
  assumes "file_holds st A C" "layout st A B C"
  shows "content (hs_file (flush_history st)) = take (hs_base st) (content (hs_file st))
           @ concat (map (\<lambda>s. encode_line s @ [ch_nl]) C)"
    and "hs_base (flush_history st) = length (content (hs_file (flush_history st)))"
    and "hs_writable (flush_history st)"
proof -
  have w: "hs_writable st" and b: "hs_base st \<le> length (content (hs_file st))"
    using assms(1) by (simp_all add: file_holds_def)
  show c: "content (hs_file (flush_history st)) = take (hs_base st) (content (hs_file st))
           @ concat (map (\<lambda>s. encode_line s @ [ch_nl]) C)"
    using w b by (cases "hs_file st")
      (simp_all add: flush_history_def Let_def layout_collect [OF assms(2)] content_saves truncate_def,
       simp_all add: content_def)
  show "hs_base (flush_history st) = length (content (hs_file (flush_history st)))"
    using w b by (auto simp: flush_history_def Let_def content_def saves_None split: option.splits)
  show "hs_writable (flush_history st)" using w by (simp add: flush_history_def Let_def)
qed

text \<open>Reading a flushed file gives A and C; a clear makes them the new A.\<close>

lemma flush_lines:
  assumes "file_holds st A C" "layout st A B C"
  shows "lines_of (content (hs_file (flush_history st))) = A @ C
    \<and> complete (content (hs_file (flush_history st)))"
  using lines_of_saves [of "take (hs_base st) (content (hs_file st))" C] assms
  by (simp add: flush_content [OF assms] file_holds_def)

lemma file_holds_clear:
  assumes "file_holds st A C" "layout st A B C"
  shows "file_holds (clear_history add st) (A @ C) []"
  using flush_lines [OF assms] flush_content(2,3) [OF assms]
  by (simp add: file_holds_def clear_history_def Let_def)

lemma file_holds_typed:
  "RS \<notin> set s \<Longrightarrow> file_holds st A C \<Longrightarrow>
   file_holds (typed_line add s st) A (if s = [] then C else C @ [c_str s])"
  by (auto simp: file_holds_def typed_line_def add_counted_def Let_def save_history_safe_def
      content_def clean_line_def c_str_def dest: set_takeWhileD split: option.splits)

lemma file_holds_same:
  "file_holds st A C \<Longrightarrow> set C' \<subseteq> set C \<Longrightarrow> hs_file st' = hs_file st \<Longrightarrow> hs_base st' = hs_base st \<Longrightarrow>
   hs_writable st' = hs_writable st \<Longrightarrow> file_holds st' A C'"
  by (auto simp: file_holds_def)

fun file_safe :: "hist_event \<Rightarrow> bool" where
  "file_safe (Typed s) = (RS \<notin> set s)"
| "file_safe Reincarnated = False"
| "file_safe _ = True"

lemma frame_reload:
  assumes "lib_appends add"
  shows "hs_file (reload_history add cps st) = hs_file st \<and> hs_base (reload_history add cps st) = hs_base st
    \<and> hs_writable (reload_history add cps st) = hs_writable st"
  by (simp add: reload_history_def repopulate_history_def fold_adds assms Let_def)

lemma file_holds_step:
  assumes "lib_appends add" "layout st A B C" "file_holds st A C" "file_safe e"
    "hist_step add e st = Some st'" "parts_step e (A, B, C) = Some (A', B', C')"
  shows "file_holds st' A' C'"
proof (cases e)
  case (Typed s)
  with assms file_holds_typed show ?thesis by auto
next
  case Cleared
  with assms file_holds_clear [OF assms(3,2)] show ?thesis by auto
next
  case (Loaded cps)
  with assms frame_reload [OF assms(1), of cps st] show ?thesis by (auto intro: file_holds_same)
next
  case (Undone cps answer)
  with assms show ?thesis
    by (auto simp: layout_undo [OF assms(1,2)] intro: file_holds_same dest: in_set_takeD
        split: if_splits undo_outcome.splits)
qed (use assms in \<open>auto simp: layout_prompt_id\<close>)

lemma file_holds_run:
  "lib_appends add \<Longrightarrow> layout st A B C \<Longrightarrow> file_holds st A C \<Longrightarrow> list_all file_safe es \<Longrightarrow>
   parts_run es (A, B, C) = Some (A', B', C') \<Longrightarrow>
   \<exists>st'. hist_run add es st = Some st' \<and> layout st' A' B' C' \<and> file_holds st' A' C'"
proof (induction es arbitrary: st A B C)
  case (Cons e es)
  obtain A1 B1 C1 where p: "parts_step e (A, B, C) = Some (A1, B1, C1)"
      "parts_run es (A1, B1, C1) = Some (A', B', C')"
    using Cons.prems(5) by (auto split: option.splits)
  with step_simulates [OF Cons.prems(1,2), of e] obtain st1 where
    s1: "hist_step add e st = Some st1" "layout st1 A1 B1 C1"
    by (auto simp: simulates_def split: option.splits)
  then show ?case
    using Cons.IH [OF Cons.prems(1) s1(2) _ _ p(2)] file_holds_step [OF Cons.prems(1-3) _ s1(1) p(1)]
      Cons.prems(4) by simp
qed auto

text \<open>
  The lines that are typed in a run, in their order, and the events that do not go back to an earlier
  checkpoint: an \<open>/undo\<close> that is cancelled, that finds nothing or that is answered by no entry keeps
  the lines as every other event does.
\<close>

fun typed_lines :: "hist_event list \<Rightarrow> string list" where
  "typed_lines [] = []"
| "typed_lines (Typed s # es) = (if s = [] then typed_lines es else c_str s # typed_lines es)"
| "typed_lines (e # es) = typed_lines es"

fun keeps_lines :: "hist_event \<Rightarrow> bool" where
  "keeps_lines (Undone cps answer) =
     (cps = [] \<or> (case undo_choice cps answer of Undo_To i \<Rightarrow> False | _ \<Rightarrow> True))"
| "keeps_lines e = True"

lemma parts_run_keeps:
  "list_all keeps_lines es \<Longrightarrow>
   \<exists>A' B' C'. parts_run es (A, B, C) = Some (A', B', C') \<and> A' @ C' = A @ C @ typed_lines es"
proof (induction es arbitrary: A B C)
  case (Cons e es)
  then have IH: "\<exists>A' B' C'. parts_run es (A, B, C) = Some (A', B', C') \<and> A' @ C' = A @ C @ typed_lines es"
    for A B C by simp
  show ?case
  proof (cases e)
    case (Typed s)
    with IH [of A B "if s = [] then C else C @ [c_str s]"] show ?thesis by auto
  next
    case Cleared
    with IH [of "A @ C" "[]" "[]"] show ?thesis by simp
  next
    case (Undone cps answer)
    then have "parts_step e (A, B, C) = Some (A, B, C)"
      using Cons.prems by (auto split: undo_outcome.splits)
    with Undone IH [of A B C] show ?thesis by simp
  qed (use IH in simp_all)
qed simp

text \<open>C6: What the next session reads. A session starts on a history file of whole lines, types lines,
  clears, loads and undoes in any order, and ends with \<open>/quit\<close>. Where no undo goes back to a
  checkpoint, the run does not fail and the next session reads the entries of the earlier sessions
  followed by every line that was typed and is not empty, in order: nothing is lost and nothing is
  doubled. With such undos the run fails exactly where the parts A, B and C run out of lines, and
  otherwise the next session reads A followed by C. The typed lines do not contain the record separator,
  the file can be written and \<open>/reincarnate\<close> is not used (\<open>reincarnate_doubles_history\<close>); which typed
  lines an undo keeps is a count that \<open>undo_keeps_wrong_line\<close> shows to be off.
\<close>

theorem history_survives_quit:
  assumes "lib_appends add" "complete (content f)" "list_all file_safe es"
  shows "(case parts_run es (load_history_safe add f [], prompts cps, []) of
        None \<Rightarrow> hist_run add es (start_history add True f cps) = None
      | Some (A, B, C) \<Rightarrow>
          (\<exists>st. hist_run add es (start_history add True f cps) = Some st
             \<and> load_history_safe add (hs_file (flush_history st)) [] = A @ C))
    \<and> (list_all keeps_lines es \<longrightarrow>
        (\<exists>st. hist_run add es (start_history add True f cps) = Some st
           \<and> load_history_safe add (hs_file (flush_history st)) []
               = load_history_safe add f [] @ typed_lines es))"
proof -
  let ?st = "start_history add True f cps" and ?p = "(load_history_safe add f [], prompts cps, [])"
  have l: "layout ?st (load_history_safe add f []) (prompts cps) []"
    unfolding prompts_def by (rule layout_start [OF assms(1)])
  have h: "file_holds ?st (load_history_safe add f []) []"
    using assms(1,2)
    by (cases f) (simp_all add: file_holds_def start_history_def repopulate_history_def load_lines
        content_def Let_def)
  have none: "hist_run add es ?st = None" if "parts_run es ?p = None"
    using run_simulates [OF assms(1) l, of es] that by (auto simp: simulates_def split: option.splits)
  have some: "\<exists>st. hist_run add es ?st = Some st \<and> load_history_safe add (hs_file (flush_history st)) [] = A @ C"
    if r: "parts_run es ?p = Some (A, B, C)" for A B C
    using file_holds_run [OF assms(1) l h assms(3) r] flush_lines
    by (auto simp: load_lines assms(1))
  show ?thesis
  proof (rule conjI)
    show "case parts_run es ?p of None \<Rightarrow> hist_run add es ?st = None
      | Some (A, B, C) \<Rightarrow> \<exists>st. hist_run add es ?st = Some st
          \<and> load_history_safe add (hs_file (flush_history st)) [] = A @ C"
      using none some by (auto split: option.splits)
  next
    show "list_all keeps_lines es \<longrightarrow> (\<exists>st. hist_run add es ?st = Some st
        \<and> load_history_safe add (hs_file (flush_history st)) [] = load_history_safe add f [] @ typed_lines es)"
      using parts_run_keeps [of es "load_history_safe add f []" "prompts cps" "[]"] some
      by (metis append_Nil)
  qed
qed

theorem history_survives_quit_witness:
  "\<exists>st. hist_run (\<lambda>h s. h @ [s])
      [Typed ''/help'', Typed (''two'' @ [ch_nl] @ ''lines''), Cleared, Typed ''/undo'',
       Undone [\<lparr>cp_n_past = 10, cp_prompt = ''p1''\<rparr>] (True, None), Typed ''end'']
      (start_history (\<lambda>h s. h @ [s]) True (Some (''old'' @ [ch_nl])) []) = Some st
    \<and> load_history_safe (\<lambda>h s. h @ [s]) (hs_file (flush_history st)) []
      = [''old'', ''/help'', ''two'' @ [ch_nl] @ ''lines'', ''/undo'', ''end'']"
proof -
  let ?add = "\<lambda>h s. h @ [s] :: string list"
  let ?es = "[Typed ''/help'', Typed (''two'' @ [ch_nl] @ ''lines''), Cleared, Typed ''/undo'',
    Undone [\<lparr>cp_n_past = 10, cp_prompt = ''p1''\<rparr>] (True, None), Typed ''end'']"
  have a: "lib_appends ?add" by (simp add: lib_appends_def)
  have c: "complete (content (Some (''old'' @ [ch_nl])))" by (simp add: content_def complete_def)
  have s: "list_all file_safe ?es" by (simp add: RS_def)
  have k: "list_all keeps_lines ?es" by (simp add: undo_choice_def)
  have o: "load_history_safe ?add (Some (''old'' @ [ch_nl])) [] = [''old'']" by code_simp
  have t: "typed_lines ?es = [''/help'', ''two'' @ [ch_nl] @ ''lines'', ''/undo'', ''end'']"
    by (simp add: c_str_def)
  show ?thesis
    using history_survives_quit [OF a c s, of "[]"] k unfolding o t by simp
qed

text \<open>
  The condition on \<open>/reincarnate\<close> is needed: it flushes without making C part of A, so that the next
  flush appends the same lines again.
\<close>

theorem reincarnate_doubles_history:
  "map_option (\<lambda>st. hs_file (flush_history st))
     (hist_run (\<lambda>h s. h @ [s]) [Typed ''a'', Reincarnated] (start_history (\<lambda>h s. h @ [s]) True None []))
   = Some (Some (''a'' @ [ch_nl] @ ''a'' @ [ch_nl]))"
  by code_simp

text \<open>
  An undo counts the lines to keep as if every typed line had made a checkpoint. After \<open>/help\<close> and two
  prompts, the undo to the first prompt keeps the \<open>/help\<close> and drops the prompt that survives.
\<close>

theorem undo_keeps_wrong_line:
  "map_option hs_lines
     (hist_run (\<lambda>h s. h @ [s])
       [Typed ''/help'', Typed ''p1'', Typed ''p2'', Typed ''/undo'',
        Undone [\<lparr>cp_n_past = 10, cp_prompt = ''p1''\<rparr>, \<lparr>cp_n_past = 20, cp_prompt = ''p2''\<rparr>]
          (False, Some ''p1 (10 tokens)'')]
       (start_history (\<lambda>h s. h @ [s]) True None []))
   = Some [''/help'']"
  by code_simp

text \<open>
  Lines that come from a pipe are not added to the list. An undo over three of their prompts reads the
  first element of an empty vector.
\<close>

theorem undo_past_typed_lines:
  "hist_run (\<lambda>h s. h @ [s])
     [Undone [\<lparr>cp_n_past = 10, cp_prompt = ''p1''\<rparr>, \<lparr>cp_n_past = 20, cp_prompt = ''p2''\<rparr>,
              \<lparr>cp_n_past = 30, cp_prompt = ''p3''\<rparr>] (False, Some ''p1 (10 tokens)'')]
     (start_history (\<lambda>h s. h @ [s]) True None []) = None"
  by code_simp

subsection \<open>Parsing of commands\<close>

lemma names_command_iff:
  assumes "\<forall>c \<in> set nm. \<not> is_space c"
  shows "names_command nm rest \<longleftrightarrow> takeWhile (\<lambda>c. \<not> is_space c) rest = nm"
proof
  assume n: "names_command nm rest"
  then have "take (length nm) rest = nm" by (simp add: names_command_def split: if_splits)
  then obtain r where r: "rest = nm @ r" by (metis append_take_drop_id)
  show "takeWhile (\<lambda>c. \<not> is_space c) rest = nm"
  proof (cases r)
    case Nil
    with r assms show ?thesis by (simp add: takeWhile_eq_all_conv)
  next
    case (Cons x xs)
    with n r have "is_space x" by (simp add: names_command_def split: if_splits)
    with r Cons assms show ?thesis by (simp add: takeWhile_append2)
  qed
next
  assume t: "takeWhile (\<lambda>c. \<not> is_space c) rest = nm"
  then have r: "rest = nm @ dropWhile (\<lambda>c. \<not> is_space c) rest" by (metis takeWhile_dropWhile_id)
  show "names_command nm rest"
  proof (cases "dropWhile (\<lambda>c. \<not> is_space c) rest")
    case Nil
    with r show ?thesis by (simp add: names_command_def)
  next
    case (Cons x xs)
    then have "is_space x" by (metis hd_dropWhile list.distinct(1) list.sel(1))
    moreover have "rest = nm @ x # xs" using r Cons by simp
    ultimately show ?thesis by (simp add: names_command_def)
  qed
qed

lemma find_unique:
  assumes "\<And>x y. x \<in> set xs \<Longrightarrow> y \<in> set xs \<Longrightarrow> P x \<Longrightarrow> P y \<Longrightarrow> x = y"
  shows "find P xs = Some x \<longleftrightarrow> x \<in> set xs \<and> P x"
  using assms by (induction xs) auto

lemma command_names:
  "c \<in> set g_commands \<Longrightarrow> \<forall>x \<in> set (ci_name c). \<not> is_space x"
  by (auto simp: g_commands_def is_space_def)

lemma command_names_distinct: "distinct (map ci_name g_commands)"
  by (simp add: g_commands_def)

text \<open>
  A line names a command exactly when its part up to the first white space is the name of an entry of
  the table, and then it is that entry and no other.
\<close>

theorem match_command_spec:
  "match_command rest = Some c \<longleftrightarrow> c \<in> set g_commands \<and> takeWhile (\<lambda>x. \<not> is_space x) rest = ci_name c"
proof -
  have "match_command rest = find (\<lambda>c. takeWhile (\<lambda>x. \<not> is_space x) rest = ci_name c) g_commands"
    unfolding match_command_def by (rule find_cong) (use names_command_iff command_names in auto)
  moreover have "c = d" if "c \<in> set g_commands" "d \<in> set g_commands" "ci_name c = ci_name d" for c d
    using that command_names_distinct by (simp add: distinct_map inj_on_def)
  ultimately show ?thesis
    using find_unique [of g_commands "\<lambda>c. takeWhile (\<lambda>x. \<not> is_space x) rest = ci_name c" c] by metis
qed

definition plain_arg :: "string \<Rightarrow> bool" where
  "plain_arg p \<longleftrightarrow> p \<noteq> [] \<and> hd p \<notin> set ws_chars \<and> last p \<notin> set ws_chars"

lemma strip_flag_append: "strip_checkpoints_flag (p @ '' --checkpoints'') = (True, p)"
  by (simp add: strip_checkpoints_flag_def Let_def)

lemma match_load: "match_command (''load '' @ s) = Some \<lparr>ci_name = ''load'', ci_cmd = Cmd_RESTORE, ci_arg = Arg_PATH\<rparr>"
  by (simp add: match_command_def g_commands_def names_command_def is_space_def)

text \<open>
  The line \<open>/load <path>\<close>, with or without the flag, loads the path that was typed, and forgets the
  arguments of the commands before it.
\<close>

theorem load_command_spec:
  assumes "plain_arg p" "\<not> suffix '' --checkpoints'' p"
  shows "handle_command (''/load '' @ p @ (if flag then '' --checkpoints'' else [])) st
    = (Cmd_RESTORE, \<lparr>ca_save_prefix = [], ca_restore_path = p, ca_delete_path = [],
                     ca_restore_checkpoints = flag\<rparr>)"
proof -
  let ?a = "p @ (if flag then '' --checkpoints'' else [])"
  have "trim_chars ('' '' @ ?a @ []) ws_chars = ?a"
    using assms(1) by (intro trim_chars_app) (simp_all add: plain_arg_def ws_chars_def)
  moreover have "strip_checkpoints_flag p = (False, p)"
  proof -
    have "drop k p \<noteq> '' --checkpoints''" for k using assms(2) suffix_drop [of k p] by metis
    then show ?thesis by (simp add: strip_checkpoints_flag_def Let_def)
  qed
  ultimately show ?thesis
    using match_load [of ?a]
    by (cases st) (auto simp: handle_command_def path_command_def strip_flag_append [of p, simplified] Let_def)
qed

subsection \<open>Aliases\<close>

lemma alias_line_builtin:
  "aliases (CHR ''/'' # c) = None \<Longrightarrow> is_builtin c \<Longrightarrow> alias_line l aliases (CHR ''/'' # c) = None"
  by (auto simp: alias_line_def Let_def split: option.splits) (metis list.sel(3))

lemma fold_alias_builtin:
  "aliases (CHR ''/'' # c) = None \<Longrightarrow> is_builtin c \<Longrightarrow> fold alias_line ls aliases (CHR ''/'' # c) = None"
  by (induction ls arbitrary: aliases) (simp_all add: alias_line_builtin)

text \<open>No alias file changes what the bare name of a command does, however much blank space is typed before it.\<close>

theorem builtin_not_aliased:
  assumes "is_builtin c" "set w \<subseteq> set [CHR 0x20, ch_tab]"
  shows "accept_input (load_aliases f) (w @ CHR ''/'' # c) = CHR ''/'' # c"
proof -
  have "first_not_of (w @ CHR ''/'' # c) [CHR 0x20, ch_tab] = Some (length w)"
    using assms(2) by (intro first_not_of_app) simp_all
  then have "strip_input (w @ CHR ''/'' # c) = CHR ''/'' # c" by (simp add: strip_input_def)
  moreover have "load_aliases f (CHR ''/'' # c) = None"
    using fold_alias_builtin [OF _ assms(1), of Map.empty] by (cases f) (simp_all add: load_aliases_def)
  ultimately show ?thesis by (simp add: accept_input_def expand_alias_def)
qed

theorem builtin_not_aliased_witness:
  "accept_input (load_aliases (Some ''/quit = /help'')) ''  /quit'' = ''/quit''"
  using builtin_not_aliased [of "''quit''" "''  ''" "Some ''/quit = /help''"]
  by (simp add: is_builtin_def g_commands_def)

text \<open>With an argument the name is not protected.\<close>

theorem alias_shadows_argument:
  "accept_input (load_aliases (Some ''/save a = /quit'')) ''/save a'' = ''/quit''
   \<and> fst (handle_command ''/save a'' st) = Cmd_SAVE"
  by (rule conjI, code_simp, simp add: handle_command_def match_command_def g_commands_def names_command_def is_space_def Let_def)

end
