(* ===== verification/Spec2Isabelle.thy ===== *)
theory Spec2Isabelle
  imports Lim_ToolEnd Lim_Text Lim_Cache Lim_Tools Lim_Model Lim_Session Lim_Executor Lim_Lossless Lim_Mtp Lim_Turn Lim_Scan Lim_GenInv Lim_Search Lim_Cores Lim_Server Lim_Commands
begin

text \<open>
  LIM: a verification development for the local chat client \<open>lim\<close> (C++, directory \<open>src\<close>).

  The program. \<open>main.cc\<close> loads a model with the vendored llama.cpp and starts \<open>ChatSession::run\<close>
  (\<open>session.cc\<close>). An iteration of that loop takes a line from the user, handles a command, or feeds the
  line as a user turn into the KV memory (\<open>feed_tokens_impl\<close>), lets \<open>TokenGenerator::generate\<close>
  (\<open>token_generator.cc\<close>, with the draft head of \<open>mtp.cc\<close>) sample a response, hands a tool call in it to
  \<open>ToolExecutor::execute\<close> (\<open>tool_executor.cc\<close>, \<open>tools.cc\<close>, \<open>filesystem.cc\<close>, \<open>parsers.cc\<close>), feeds the
  result back and goes on by itself; a malformed call is rolled back and corrected. At the prompt a
  checkpoint is recorded, to which \<open>/undo\<close> returns; \<open>/save\<close> and \<open>/load\<close> write and read the session and its
  KV cache. All state is the \<open>SessionState\<close> of \<open>session.h\<close>, the members of \<open>ChatSession\<close>, the memory of
  llama.cpp and the position \<open>n_past\<close>.

  \<^bold>\<open>Theories and sources\<close>, bottom up.

  Lim\_Prelude: strings by index (\<open>std::string\<close> operations with their exceptions), searching, the sum type of
  results. Lim\_Numbers: \<open>strtol\<close>, \<open>atoi\<close>, \<open>stoi\<close>, \<open>stoull\<close> at their widths. Lim\_Tokens: \<open>tokens.h\<close> and the
  delimiters of a model. Lim\_Escape: the escaping of parameter and turn tags (\<open>parsers.cc\<close>, \<open>model.cc\<close>).
  Lim\_Parsers: the extraction of tool parameters (\<open>parsers.cc\<close>). Lim\_ToolEnd: the search for the end of a call
  and its repair. Lim\_Text: escaping and filtering for the browser, the terminal and the logs (\<open>output.cc\<close>,
  \<open>session_utils.cc\<close>). Lim\_Save, Lim\_Cache: save files and KV cache files (\<open>filesystem.cc\<close>). Lim\_Files,
  Lim\_Shell, Lim\_Tools: the tools and their dispatch (\<open>filesystem.cc\<close>, \<open>tools.cc\<close>). Lim\_State: \<open>session.h\<close>.
  Lim\_Model: template families and prompts (\<open>model.cc\<close>).

  Lim\_Memory, Lim\_Window: one sequence of the KV memory of llama.cpp with the recurrent state of hybrid
  models, the checkpoint stack that lim adds to it and the rollback window of speculative decoding
  (\<open>llama-memory-recurrent.cpp\<close>, \<open>llama-memory-hybrid.cpp\<close>, \<open>llama-kv-cache.cpp\<close>, \<open>delta-net-base.cpp\<close>). The
  locales \<open>kv_memory\<close>, \<open>rs_memory\<close> and \<open>window_memory\<close> are the contracts their clients rely on; they are
  interpreted on the model of that code, without a window (\<open>n_rs_seq = 0\<close>) for the first two.

  Lim\_Feed, Lim\_Checkpoints, Lim\_Session: feeding, the bookkeeping of checkpoints and states, and the session
  as a step relation with its reachable states and an abstract specification (\<open>session.cc\<close>). Lim\_Executor:
  \<open>tool_executor.cc\<close>. Lim\_GenText, Lim\_Generator: \<open>TokenGenerator::generate\<close>, its text and its rounds.
  Lim\_Mtp: \<open>mtp.cc\<close>. Lim\_Turn: one iteration of \<open>ChatSession::run\<close>, composed of the above.
  Lim\_Restore: \<open>/load\<close>, with the cache, the silent probe of a fast load and the decode of the slow path.
  Lim\_Commands: the command table, the alias file and the bookkeeping of the line history.

  Lim\_Codec, Lim\_Fetch, Lim\_Html, Lim\_Github, Lim\_Search: the web tools (\<open>network.cc\<close>): base64, the callbacks
  of a transfer and the context budget, the text of a page, requests to GitHub, and on top of them
  \<open>fetch_urls\<close> and \<open>web_search\<close> with their state (budget used, switch-off, cache). Lim\_Cores: core topology and
  task sets (\<open>taskset.h\<close>). Lim\_Server: the viewer server's recognition, start and marker files (\<open>server.cc\<close>).

  \<^bold>\<open>What is shown\<close>. Round trips of the tag escapes, the tool parameters, the save files and the cache files, and
  the clean failure of damaged ones. Functional behaviour of the tools on success and error, the agreement of
  the validation gate with the execution (but for an inferred path), the bounds of what a command may return.
  Memory, tracker and position agree after every feed and every tool call, and after every generation but one
  that the tripwire ends, which may leave the memory one token ahead, whatever llama.cpp, the signals and the
  tools answer (Lim\_Feed, Lim\_Speculation, Lim\_Executor). The checkpoints and saved states agree in every
  session that makes orderly steps, and \<open>/undo\<close> and the correction restore what they promise (Lim\_Session); the
  steps that are not orderly, an \<open>/undo\<close> with a tool call's slot in use and a drift cut, are in the step relation,
  and what they break is shown. A generation always returns; with a draft head and
  quiet decodes it produces what plain decoding produces (Lim\_Lossless, a simulation of one loop by the other).
  The incremental scans of a generation find what a scan of the whole text finds (Lim\_Scan, Lim\_TextInv), and
  without a draft head a call it reports has its rollback slot (Lim\_GenInv). The draft head's mirror
  holds the context position by position but for the hidden state of the first row after a cut or a cache load
  (Lim\_Mtp); the two ways in which it loses the context are shown. A saved
  session comes back from a load without a draft head with everything in agreement, from its cache entry or by
  decoding (Lim\_Restore), and the lines typed in it come back in the next session, all of them when no \<open>/undo\<close>
  went back (Lim\_Commands). The pages that \<open>fetch_urls\<close> hands to the model stay within the session's budget for
  every answer of the network; notices, titles, snippets and cached results are outside of it (Lim\_Search).

  \<^bold>\<open>Termination and bounds\<close>. Loops are total functions with a measure, except those that the program can leave by
  \<open>break\<close> only (\<open>strip_tags\<close>, the generation), which are partial functions whose result \<^const>\<open>None\<close> means that
  the call does not return; that they return is proved. The scan of a server's command line has a loop without a
  step, which has no defined behaviour once it is entered: there \<^const>\<open>None\<close> stands for that (Lim\_Server). The measure of a generation is the room left in the
  context, that of the recovery from a simulated conversation the auto-continue budget. Integers are unbounded
  where the program's sizes cannot reach the limits of their types (positions are bounded by \<open>POS_MAX\<close> in the
  hypotheses) and wrap where the program can reach them (\<open>u64\<close>, \<open>usub\<close>, \<open>to_u32\<close>, the word types of the file
  formats).

  \<^bold>\<open>What is a parameter\<close>. Code outside \<open>src\<close> and the outside world: the tokenizer, the sampler and the network of
  the model, the answers of \<open>llama_decode\<close> (as \<open>llama.h\<close> documents them: 1 and -1 leave the memory, 2 and the
  other errors may leave a prefix of the batch), signals by the moment they are seen, the file system and
  its errors, child processes, the clock. Logits are represented by what they may depend on: the rows and
  states of the memory at the time of the decode; that two batches of different sizes round differently is not
  expressed.

  \<^bold>\<open>Not modelled\<close>. The terminal and the editing of a line by readline, signal handlers, \<open>limServer.py\<close> and the viewer's JavaScript, the wiring of
  \<open>main.cc\<close>, the options of libcurl and the parser of libxml2 (a transfer is a sequence of header lines and
  chunks, a page a tree or none), the start of SearXNG and Docling, statistics and speed displays: input and output with no state
  that the rest depends on. The vendored llama.cpp apart from the memory code named above, \<open>json.hpp\<close> and
  ggml: libraries the program calls.
\<close>

end
